(* ===== verification/Prelude.thy ===== *)
theory Prelude
  imports Main "HOL-Library.Word"
begin

text \<open>
  Shared vocabulary of the development: the machine integers and byte strings of the
  program, the observable events its code produces, the shape of a run that may stop the
  process, and the generic list and word lemmas the component theories share.

  The program is built for little-endian x86-64 Linux (the binary libraries it links are of
  that platform), so \<open>int\<close> and \<open>unsigned int\<close> have 32 bits, \<open>long\<close> and \<open>size_t\<close> have 64 bits and
  \<open>char\<close> has 8 bits. A C++ \<open>std::string\<close> is a finite sequence of bytes, a C string stops at its
  first zero byte.
\<close>

unbundle bit_operations_syntax

section \<open>Machine types\<close>

type_synonym byte = "8 word"
type_synonym u16 = "16 word"
type_synonym u32 = "32 word"
type_synonym u64 = "64 word"
type_synonym bytes = "byte list"

text \<open>A string literal of the source, as the bytes it denotes.\<close>

definition str :: "string \<Rightarrow> bytes" where
  "str cs = map of_char cs"

named_theorems cstr_simps "evaluation of C string and number routines"
named_theorems wire_simps "evaluation of the protobuf wire routines"
named_theorems conf_simps "evaluation of configuration look-ups"
named_theorems route_simps "equations of the routing component"
named_theorems frame_simps "fields an operation leaves alone"

lemma str_Nil [simp, cstr_simps]: "str [] = []"
  by (simp add: str_def)

lemma str_Cons [simp, cstr_simps]: "str (c # cs) = of_char c # str cs"
  by (simp add: str_def)

lemma str_append: "str (a @ b) = str a @ str b"
  by (simp add: str_def)

lemma length_str [simp]: "length (str cs) = length cs"
  by (simp add: str_def)

section \<open>Observable events and runs\<close>

text \<open>
  What the program does to its environment. Diagnostic output on \<open>cout\<close> and \<open>cerr\<close> is not an
  event of the model; everything else the routing client does is.
  \<^item> \<open>System cmd\<close>: \<open>system(3)\<close> with this command line;
  \<^item> \<open>SendPeer dest msg\<close>: the send callback, that is \<open>FancyJingMsgSendToPeer\<close>;
  \<^item> \<open>DevWrite fd data\<close> and \<open>CloseFd fd\<close>: \<open>write(2)\<close> to the tunnel device and \<open>close(2)\<close>;
  \<^item> \<open>RouteAdd dev net mask\<close>, \<open>RouteDel dev net mask\<close>: the calls of the route helpers of
    \<open>tun_tap.hpp\<close>, with the strings the server passes;
  \<^item> \<open>IfUp dev\<close>, \<open>SetMac dev mac\<close>, \<open>GetMac dev\<close>: the interface helpers;
  \<^item> \<open>WriteFile path data\<close>: an \<open>ofstream\<close> written and closed;
  \<^item> \<open>StoreMac mac\<close>: \<open>mzConfig::setMacAddr\<close> rewriting the configuration file.
\<close>

datatype event =
    System bytes
  | SendPeer u32 bytes
  | DevWrite u32 bytes
  | CloseFd u32
  | RouteAdd bytes bytes bytes
  | RouteDel bytes bytes bytes
  | IfUp bytes
  | SetMac bytes bytes
  | GetMac bytes
  | WriteFile bytes bytes
  | StoreMac bytes

text \<open>
  A step of the program either goes on with a value or stops the process: \<open>Exit n\<close> is
  \<open>exit(n)\<close>, \<open>Abort\<close> is \<open>std::abort\<close> or a failed \<open>assert\<close>, \<open>Fault\<close> is undefined behaviour that
  the hardware traps (a null pointer dereference). The events emitted so far are kept.
\<close>

datatype stop = Exit int | Abort | Fault

datatype 'a run = Goes 'a "event list" | Stops stop "event list"

fun run_then :: "'a run \<Rightarrow> ('a \<Rightarrow> 'b run) \<Rightarrow> 'b run" where
  "run_then (Goes a es) f =
     (case f a of Goes b fs \<Rightarrow> Goes b (es @ fs) | Stops s fs \<Rightarrow> Stops s (es @ fs))"
| "run_then (Stops s es) f = Stops s es"

fun run_events :: "'a run \<Rightarrow> event list" where
  "run_events (Goes a es) = es"
| "run_events (Stops s es) = es"

lemma run_then_assoc: "run_then (run_then r f) g = run_then r (\<lambda>x. run_then (f x) g)"
  by (cases r) (auto split: run.splits)

lemma run_then_Goes_Nil [simp]: "run_then (Goes a []) f = f a"
  by (simp split: run.splits)

lemma run_then_return [simp]: "run_then r (\<lambda>a. Goes a []) = r"
  by (cases r) auto

lemma run_then_eq_Goes:
  "run_then r f = Goes b fs \<longleftrightarrow> (\<exists>a es gs. r = Goes a es \<and> f a = Goes b gs \<and> fs = es @ gs)"
  by (cases r) (auto split: run.splits)

section \<open>Little-endian memory\<close>

text \<open>\<open>memcpy\<close> between an integer variable and a byte buffer.\<close>

definition le_bytes :: "nat \<Rightarrow> 'a::len word \<Rightarrow> bytes" where
  "le_bytes k w = map (\<lambda>i. ucast (drop_bit (8 * i) w)) [0..<k]"

abbreviation le16_bytes :: "u16 \<Rightarrow> bytes" where
  "le16_bytes w \<equiv> le_bytes 2 w"

abbreviation le32_bytes :: "u32 \<Rightarrow> bytes" where
  "le32_bytes w \<equiv> le_bytes 4 w"

abbreviation le64_bytes :: "u64 \<Rightarrow> bytes" where
  "le64_bytes w \<equiv> le_bytes 8 w"

fun load_le :: "bytes \<Rightarrow> 'a::len word" where
  "load_le [] = 0"
| "load_le (b # bs) = ucast b OR push_bit 8 (load_le bs)"

lemma length_le_bytes [simp]: "length (le_bytes k w) = k"
  by (simp add: le_bytes_def)

lemma nth_le_bytes [simp]: "i < k \<Longrightarrow> le_bytes k w ! i = ucast (drop_bit (8 * i) w)"
  by (simp add: le_bytes_def)

lemma bit_load_le:
  "bit (load_le bs :: 'a::len word) n \<longleftrightarrow>
     n < LENGTH('a) \<and> n div 8 < length bs \<and> bit (bs ! (n div 8)) (n mod 8)"
proof (induction bs arbitrary: n)
  case Nil
  then show ?case by simp
next
  case (Cons b bs)
  show ?case
  proof (cases "n < 8")
    case True
    then show ?thesis by (auto simp: bit_simps)
  next
    case False
    then obtain m where n: "n = m + 8" by (metis add.commute le_add_diff_inverse not_less)
    have "\<not> bit b n" using False by (auto dest: bit_imp_le_length)
    moreover have "(m + 8) div 8 = Suc (m div 8)" by simp
    ultimately show ?thesis using n by (auto simp: bit_simps Cons.IH)
  qed
qed

lemma load_le_bytes: "LENGTH('a::len) = 8 * k \<Longrightarrow> load_le (le_bytes k w) = (w :: 'a word)"
  by (rule bit_word_eqI) (auto simp: bit_load_le bit_simps less_mult_imp_div_less mult.commute)

lemma load_le16_bytes [simp]: "load_le (le16_bytes w) = w"
  and load_le32_bytes [simp]: "load_le (le32_bytes v) = v"
  and load_le64_bytes [simp]: "load_le (le64_bytes u) = u"
  by (simp_all add: load_le_bytes)

text \<open>\<open>htonl\<close>, \<open>htons\<close>, \<open>ntohs\<close> of a little-endian machine: the bytes of the value reversed.\<close>

definition htonl :: "u32 \<Rightarrow> u32" where
  "htonl w = load_le (rev (le32_bytes w))"

definition htons :: "u16 \<Rightarrow> u16" where
  "htons w = load_le (rev (le16_bytes w))"

lemma bytes_swap_twice:
  assumes "LENGTH('a::len) = 8 * k"
  shows "load_le (rev (le_bytes k (load_le (rev (le_bytes k w)) :: 'a word))) = (w :: 'a word)"
proof (rule bit_word_eqI)
  fix n assume "n < LENGTH('a)"
  then have n: "n div 8 < k" "n < 8 * k" using assms by (auto simp: less_mult_imp_div_less mult.commute)
  define j where "j = k - Suc (n div 8)"
  have j: "j < k" "k - Suc j = n div 8" using n by (auto simp: j_def)
  have "n mod 8 < 8" by simp
  with j(1) have "8 * j + n mod 8 < 8 * k" by linarith
  then show "bit (load_le (rev (le_bytes k (load_le (rev (le_bytes k w)) :: 'a word))) :: 'a word) n = bit w n"
    using n j assms by (simp add: bit_load_le rev_nth bit_simps flip: j_def)
qed

lemma htonl_htonl [simp]: "htonl (htonl w) = w"
  unfolding htonl_def by (rule bytes_swap_twice) simp

lemma htons_htons [simp]: "htons (htons w) = w"
  unfolding htons_def by (rule bytes_swap_twice) simp

lemma htonl_inj: "htonl a = htonl b \<longleftrightarrow> a = b"
  by (metis htonl_htonl)

section \<open>Generic lemmas\<close>

lemma word_xor_cancel [simp]:
  fixes a b c :: "'a::len word"
  shows "a XOR b = a XOR c \<longleftrightarrow> b = c" and "b XOR a = c XOR a \<longleftrightarrow> b = c"
  by (metis xor.assoc xor_self_eq xor.left_neutral, metis xor.assoc xor_self_eq xor.right_neutral)

lemma takeWhile_all: "(\<And>x. x \<in> set xs \<Longrightarrow> P x) \<Longrightarrow> takeWhile P xs = xs"
  by (simp add: takeWhile_eq_all_conv)

lemma takeWhile_append_stop: "(\<And>x. x \<in> set xs \<Longrightarrow> P x) \<Longrightarrow> \<not> P y \<Longrightarrow> takeWhile P (xs @ y # ys) = xs"
  by (induction xs) auto

lemma dropWhile_append_stop: "(\<And>x. x \<in> set xs \<Longrightarrow> P x) \<Longrightarrow> \<not> P y \<Longrightarrow> dropWhile P (xs @ y # ys) = y # ys"
  by (induction xs) auto

lemma find_append:
  "find P (xs @ ys) = (case find P xs of Some x \<Rightarrow> Some x | None \<Rightarrow> find P ys)"
  by (induction xs) auto

lemma find_Some_split:
  "find P xs = Some x \<Longrightarrow> \<exists>ys zs. xs = ys @ x # zs \<and> P x \<and> (\<forall>y\<in>set ys. \<not> P y)"
proof (induction xs)
  case Nil then show ?case by simp
next
  case (Cons a xs)
  show ?case
  proof (cases "P a")
    case True
    with Cons.prems show ?thesis by (intro exI [of _ "[]"] exI [of _ xs]) auto
  next
    case False
    with Cons obtain ys zs where "xs = ys @ x # zs" "P x" "\<forall>y\<in>set ys. \<not> P y" by auto
    with False show ?thesis by (intro exI [of _ "a # ys"] exI [of _ zs]) auto
  qed
qed

end
