(* ===== verification/CLib.thy ===== *)
theory CLib
  imports Prelude
begin

text \<open>
  The C library routines the sources call on strings and numbers, as POSIX and the GNU C
  library define them: \<open>strtok\<close> (through \<open>mzConfig::split\<close>), \<open>strtol\<close>, \<open>strtoul\<close>, \<open>atoi\<close>,
  \<open>inet_addr\<close>, and the conversions \<open>%d\<close> and \<open>%02x\<close> of \<open>sprintf\<close>.
\<close>

section \<open>C strings\<close>

definition c_str :: "bytes \<Rightarrow> bytes" where
  "c_str s = takeWhile (\<lambda>b. b \<noteq> 0) s"

lemma c_str_idem [simp]: "c_str (c_str s) = c_str s"
  by (simp add: c_str_def)

lemma c_str_id: "0 \<notin> set s \<Longrightarrow> c_str s = s"
  unfolding c_str_def by (rule takeWhile_all) auto

text \<open>
  Successive calls of \<open>strtok\<close> on one buffer: skip leading separators, cut the token at the
  next separator, go on after it.
\<close>

function strtok_all :: "bytes \<Rightarrow> bytes \<Rightarrow> bytes list" where
  "strtok_all delims s =
     (case dropWhile (\<lambda>b. b \<in> set delims) s of
        [] \<Rightarrow> []
      | b # r \<Rightarrow>
          takeWhile (\<lambda>b. b \<notin> set delims) (b # r)
            # strtok_all delims (drop 1 (dropWhile (\<lambda>b. b \<notin> set delims) (b # r))))"
  by pat_completeness auto
termination
proof (relation "measure (length o snd)", goal_cases)
  case 1
  then show ?case by simp
next
  case (2 delims s b r)
  have "length (dropWhile (\<lambda>b. b \<in> set delims) s) \<le> length s"
    by (rule length_dropWhile_le)
  moreover have "length (dropWhile (\<lambda>b. b \<notin> set delims) (b # r)) \<le> length (b # r)"
    by (rule length_dropWhile_le)
  ultimately show ?case using 2 by auto
qed

declare strtok_all.simps [simp del]

lemma strtok_all_Nil [simp, cstr_simps]: "strtok_all d [] = []"
  by (simp add: strtok_all.simps)

lemma strtok_all_Cons [cstr_simps]:
  "strtok_all d (b # s) =
     (if b \<in> set d then strtok_all d s
      else takeWhile (\<lambda>b. b \<notin> set d) (b # s)
             # strtok_all d (drop 1 (dropWhile (\<lambda>b. b \<notin> set d) (b # s))))"
  by (subst (1 2) strtok_all.simps) simp

text \<open>Every token is non-empty and free of separators, and the tokens are pieces of the input.\<close>

lemma strtok_all_tokens:
  "t \<in> set (strtok_all d s) \<Longrightarrow> t \<noteq> [] \<and> set t \<inter> set d = {} \<and> set t \<subseteq> set s"
proof (induction d s rule: strtok_all.induct)
  case (1 d s)
  show ?case
  proof (cases "dropWhile (\<lambda>b. b \<in> set d) s")
    case Nil
    with 1 show ?thesis by (simp add: strtok_all.simps [of d s])
  next
    case (Cons b r)
    have b: "b \<notin> set d" using Cons by (metis hd_dropWhile list.sel(1) list.distinct(1))
    have sub: "set (b # r) \<subseteq> set s" using Cons by (metis set_dropWhileD subsetI)
    from 1(2) Cons consider
        "t = takeWhile (\<lambda>b. b \<notin> set d) (b # r)"
      | "t \<in> set (strtok_all d (drop 1 (dropWhile (\<lambda>b. b \<notin> set d) (b # r))))"
      by (auto simp: strtok_all.simps [of d s])
    then show ?thesis
    proof cases
      case 1
      then have t: "t = b # takeWhile (\<lambda>b. b \<notin> set d) r" using b by simp
      then have "set t \<subseteq> set s" using sub by (auto dest: set_takeWhileD)
      with t b show ?thesis by (auto dest: set_takeWhileD)
    next
      case 2
      have "set (drop 1 (dropWhile (\<lambda>b. b \<notin> set d) (b # r))) \<subseteq> set s"
        using sub by (meson set_drop_subset set_dropWhileD subset_iff)
      with "1.IH" [OF Cons 2] show ?thesis by auto
    qed
  qed
qed

text \<open>A string without separators is one token; a separator between non-empty parts cuts.\<close>

lemma strtok_all_single: "s \<noteq> [] \<Longrightarrow> set s \<inter> set d = {} \<Longrightarrow> strtok_all d s = [s]"
proof (cases s)
  case (Cons b r)
  assume "set s \<inter> set d = {}"
  then have t: "takeWhile (\<lambda>b. b \<notin> set d) s = s" and e: "dropWhile (\<lambda>b. b \<notin> set d) s = []"
    by (auto simp: takeWhile_eq_all_conv dropWhile_eq_Nil_conv)
  have "b \<notin> set d" using \<open>set s \<inter> set d = {}\<close> Cons by auto
  then show ?thesis
    using t [unfolded Cons] e [unfolded Cons] Cons
    by (subst Cons, subst strtok_all_Cons) (simp only: if_False drop_Nil strtok_all_Nil)
qed auto

lemma strtok_all_cut:
  assumes "x \<noteq> []" "set x \<inter> set d = {}" "c \<in> set d"
  shows "strtok_all d (x @ c # s) = x # strtok_all d s"
proof -
  obtain b r where x: "x = b # r" using assms(1) by (cases x) auto
  have "takeWhile (\<lambda>b. b \<notin> set d) (x @ c # s) = x" "dropWhile (\<lambda>b. b \<notin> set d) (x @ c # s) = c # s"
    using assms(2,3) by (auto intro!: takeWhile_append_stop dropWhile_append_stop)
  moreover have "b \<notin> set d" using assms(2) x by auto
  ultimately show ?thesis
    using x by (simp add: strtok_all_Cons [of d b] del: takeWhile.simps dropWhile.simps)
qed

text \<open>Joining non-empty separator-free parts and cutting them again gives the parts back.\<close>

fun join :: "byte \<Rightarrow> bytes list \<Rightarrow> bytes" where
  "join c [] = []"
| "join c [x] = x"
| "join c (x # y # xs) = x @ c # join c (y # xs)"

lemma strtok_all_join:
  "(\<And>x. x \<in> set xs \<Longrightarrow> x \<noteq> [] \<and> c \<notin> set x) \<Longrightarrow> strtok_all [c] (join c xs) = xs"
proof (induction c xs rule: join.induct)
  case (2 c x)
  then show ?case by (simp add: strtok_all_single)
next
  case (3 c x y xs)
  then show ?case by (simp add: strtok_all_cut)
qed simp

section \<open>Numbers in strings\<close>

definition is_space :: "byte \<Rightarrow> bool" where
  "is_space b \<longleftrightarrow> b = 32 \<or> (9 \<le> b \<and> b \<le> 13)"

text \<open>The value of a digit, 36 for a byte that is no digit in any base.\<close>

definition digit_of :: "byte \<Rightarrow> nat" where
  "digit_of b =
     (if 48 \<le> b \<and> b \<le> 57 then unat b - 48
      else if 97 \<le> b \<and> b \<le> 122 then unat b - 87
      else if 65 \<le> b \<and> b \<le> 90 then unat b - 55
      else 36)"

definition digits_value :: "nat \<Rightarrow> bytes \<Rightarrow> nat" where
  "digits_value base ds = foldl (\<lambda>a b. base * a + digit_of b) 0 ds"

definition is_digit :: "nat \<Rightarrow> byte \<Rightarrow> bool" where
  "is_digit base b \<longleftrightarrow> digit_of b < base"

text \<open>An optional sign, then for base 16 an optional \<open>0x\<close> that a hexadecimal digit follows.\<close>

fun strip_sign :: "bytes \<Rightarrow> bool \<times> bytes" where
  "strip_sign [] = (False, [])"
| "strip_sign (b # s) = (if b = 45 then (True, s) else if b = 43 then (False, s) else (False, b # s))"

fun strip_0x :: "bytes \<Rightarrow> bytes" where
  "strip_0x (z # x # d # s) =
     (if z = 48 \<and> (x = 120 \<or> x = 88) \<and> is_digit 16 d then d # s else z # x # d # s)"
| "strip_0x s = s"

text \<open>
  \<open>strtol\<close> saturates at the bounds of \<open>long\<close>; \<open>atoi\<close> is \<open>strtol\<close> in base 10 converted to \<open>int\<close>.
\<close>

definition strtol :: "nat \<Rightarrow> bytes \<Rightarrow> u64" where
  "strtol base s =
     (let (neg, s1) = strip_sign (dropWhile is_space (c_str s));
          s2 = (if base = 16 then strip_0x s1 else s1);
          v = int (digits_value base (takeWhile (is_digit base) s2));
          i = (if neg then - v else v)
      in word_of_int (max (- (2 ^ 63)) (min (2 ^ 63 - 1) i)))"

definition atoi :: "bytes \<Rightarrow> u32" where
  "atoi s = ucast (strtol 10 s)"

text \<open>
  \<open>strtoul\<close> in base 0 at a digit: hexadecimal after \<open>0x\<close>, octal after \<open>0\<close>, decimal otherwise.
  The value is not saturated here, the caller rejects every value above \<open>0xffffffff\<close>.
\<close>

definition strtoul0 :: "bytes \<Rightarrow> nat \<times> bytes" where
  "strtoul0 s =
     (let s1 = strip_0x s;
          base = (if s1 \<noteq> s then 16 else if take 1 s = [48] then 8 else 10)
      in (digits_value base (takeWhile (is_digit base) s1), dropWhile (is_digit base) s1))"

text \<open>
  \<open>inet_aton\<close>: up to four numbers separated by dots. Every number but the last is one byte,
  the last one fills the bytes that are left; after it only white space may follow. The
  argument \<open>parts\<close> holds the bytes read so far, \<open>n\<close> counts the dots that may still come.
\<close>

fun inet_parts :: "nat \<Rightarrow> bytes \<Rightarrow> nat list \<Rightarrow> u32 option" where
  "inet_parts n s parts =
     (if s = [] \<or> \<not> is_digit 10 (hd s) then None
      else
        let (v, r) = strtoul0 s
        in if 0xffffffff < v then None
           else if r \<noteq> [] \<and> hd r = 46
           then (case n of
                   0 \<Rightarrow> None
                 | Suc m \<Rightarrow> if 0xff < v then None else inet_parts m (tl r) (parts @ [v]))
           else if r \<noteq> [] \<and> \<not> is_space (hd r) then None
           else if 256 ^ (4 - length parts) \<le> v then None
           else Some (word_of_nat (foldl (\<lambda>a p. 256 * a + p) 0 parts * 256 ^ (4 - length parts) + v)))"

declare inet_parts.simps [simp del]

text \<open>
  The address as a number, most significant byte first in the dotted notation. \<open>inet_addr\<close>
  returns it in network byte order, \<open>INADDR_NONE\<close> for a malformed string.
\<close>

definition inet_aton :: "bytes \<Rightarrow> u32 option" where
  "inet_aton s = inet_parts 3 (c_str s) []"

definition inet_addr :: "bytes \<Rightarrow> u32" where
  "inet_addr s = (case inet_aton s of None \<Rightarrow> 0xffffffff | Some v \<Rightarrow> htonl v)"

lemma htonl_inet_addr:
  "htonl (inet_addr s) = (case inet_aton s of None \<Rightarrow> 0xffffffff | Some v \<Rightarrow> v)"
proof -
  have "htonl 0xffffffff = 0xffffffff" by (simp add: htonl_def le_bytes_def upt_rec)
  then show ?thesis by (simp add: inet_addr_def split: option.splits)
qed

section \<open>Numbers to strings\<close>

text \<open>The decimal digits of a natural number, as \<open>%d\<close> prints a non-negative \<open>int\<close>.\<close>

fun dec_digits :: "nat \<Rightarrow> bytes" where
  "dec_digits n =
     (if n < 10 then [48 + word_of_nat n] else dec_digits (n div 10) @ [48 + word_of_nat (n mod 10)])"

declare dec_digits.simps [simp del]

text \<open>Two lower-case hexadecimal digits, as \<open>%02x\<close> prints an \<open>unsigned char\<close>.\<close>

definition hex_digit :: "byte \<Rightarrow> byte" where
  "hex_digit d = (if d < 10 then 48 + d else 87 + d)"

definition hex02 :: "byte \<Rightarrow> bytes" where
  "hex02 b = [hex_digit (drop_bit 4 b), hex_digit (b AND 15)]"

lemma length_hex02 [simp]: "length (hex02 b) = 2"
  by (simp add: hex02_def)

text \<open>Printing: every byte is a decimal digit, and reading the digits gives the number back.\<close>

lemma digit_of_dec: "n < 10 \<Longrightarrow> digit_of (48 + word_of_nat n) = n"
proof -
  assume "n < 10"
  then have "n \<in> set [0..<10]" by simp
  moreover have "\<forall>n\<in>set [0..<10]. digit_of (48 + word_of_nat n) = n"
    by (simp add: digit_of_def upt_rec)
  ultimately show ?thesis by blast
qed

lemma digits_value_append:
  "digits_value base (ds @ [d]) = base * digits_value base ds + digit_of d"
  by (simp add: digits_value_def)

lemma digits_value_dec_digits [simp]: "digits_value 10 (dec_digits n) = n"
proof (induction n rule: dec_digits.induct)
  case (1 n)
  show ?case
  proof (cases "n < 10")
    case True
    then show ?thesis by (subst dec_digits.simps) (simp add: digits_value_def digit_of_dec)
  next
    case False
    with 1 show ?thesis
      by (subst dec_digits.simps) (simp add: digits_value_append digit_of_dec)
  qed
qed

lemma dec_digits_digits: "b \<in> set (dec_digits n) \<Longrightarrow> is_digit 10 b"
proof (induction n rule: dec_digits.induct)
  case (1 n)
  then show ?case
    by (subst (asm) (2) dec_digits.simps) (auto simp: is_digit_def digit_of_dec split: if_splits)
qed

lemma dec_digits_not_Nil [simp]: "dec_digits n \<noteq> []"
  by (subst dec_digits.simps) simp

lemma length_dec_digits_less_1000: "n < 1000 \<Longrightarrow> length (dec_digits n) \<le> 3"
  by (subst dec_digits.simps, subst dec_digits.simps, subst dec_digits.simps) auto

lemma hd_dec_digits: "0 < n \<Longrightarrow> hd (dec_digits n) \<noteq> 48"
proof (induction n rule: dec_digits.induct)
  case (1 n)
  show ?case
  proof (cases "n < 10")
    case True
    have "\<forall>k\<in>set [1..<10]. (48 :: byte) + word_of_nat k \<noteq> 48" by (simp add: upt_rec)
    moreover have "n \<in> set [1..<10]" using True 1(2) by simp
    ultimately show ?thesis using True by (subst dec_digits.simps) auto
  next
    case False
    with 1 show ?thesis by (subst dec_digits.simps) (simp add: hd_append)
  qed
qed

lemma strip_0x_id: "(s = [] \<or> hd s \<noteq> 48 \<or> tl s = [] \<or> hd (tl s) \<noteq> 120 \<and> hd (tl s) \<noteq> 88) \<Longrightarrow> strip_0x s = s"
  by (cases s rule: strip_0x.cases) auto

lemma dec_digits_0: "dec_digits 0 = [48]"
  by (subst dec_digits.simps) simp

lemma is_digit_8_0: "is_digit 8 48" "is_digit 10 48"
  by (simp_all add: is_digit_def digit_of_def)

lemma is_digit_mono: "is_digit a b \<Longrightarrow> a \<le> c \<Longrightarrow> is_digit c b"
  by (simp add: is_digit_def)

lemma dec_digits_takeWhile:
  assumes "r = [] \<or> \<not> is_digit 10 (hd r)"
  shows "takeWhile (is_digit 10) (dec_digits n @ r) = dec_digits n"
    and "dropWhile (is_digit 10) (dec_digits n @ r) = r"
  using assms by (cases r; auto simp: takeWhile_append dropWhile_append dest: dec_digits_digits)+

lemma strtoul0_dec_digits:
  assumes "r = [] \<or> (\<not> is_digit 10 (hd r) \<and> hd r \<noteq> 120 \<and> hd r \<noteq> 88)"
  shows "strtoul0 (dec_digits n @ r) = (n, r)"
proof (cases "n = 0")
  case True
  have "\<not> is_digit 8 (hd r)" if "r \<noteq> []" using assms that by (auto dest: is_digit_mono [of 8 _ 10])
  then have "takeWhile (is_digit 8) r = []" "dropWhile (is_digit 8) r = r" by (cases r; auto)+
  moreover have "strip_0x (48 # r) = 48 # r" using assms by (intro strip_0x_id) auto
  ultimately show ?thesis using True is_digit_8_0
    by (simp add: dec_digits_0 strtoul0_def digits_value_def digit_of_def)
next
  case False
  then have h: "hd (dec_digits n @ r) \<noteq> 48" by (simp add: hd_dec_digits)
  then have "strip_0x (dec_digits n @ r) = dec_digits n @ r" by (intro strip_0x_id) auto
  moreover have "take 1 (dec_digits n @ r) \<noteq> [48]"
    using h by (cases "dec_digits n") auto
  moreover have "takeWhile (is_digit 10) (dec_digits n @ r) = dec_digits n"
      "dropWhile (is_digit 10) (dec_digits n @ r) = r"
    using assms dec_digits_takeWhile [of r n] by auto
  ultimately show ?thesis by (simp add: strtoul0_def Let_def)
qed

text \<open>A number followed by a dot is one part, a number at the end is the last part.\<close>

lemma inet_parts_dot:
  assumes "p < 256"
  shows "inet_parts (Suc m) (dec_digits p @ 46 # s) parts = inet_parts m s (parts @ [p])"
proof -
  have "\<not> is_digit 10 46" by (simp add: is_digit_def digit_of_def)
  then have "strtoul0 (dec_digits p @ 46 # s) = (p, 46 # s)" by (intro strtoul0_dec_digits) auto
  moreover have "is_digit 10 (hd (dec_digits p))" by (rule dec_digits_digits [OF hd_in_set]) simp
  ultimately show ?thesis using assms by (subst inet_parts.simps) simp
qed

lemma inet_parts_end:
  assumes "p < 256" "length parts = 3"
  shows "inet_parts m (dec_digits p) parts =
     Some (word_of_nat (foldl (\<lambda>a p. 256 * a + p) 0 (parts @ [p])))"
proof -
  have "strtoul0 (dec_digits p @ []) = (p, [])" by (rule strtoul0_dec_digits) simp
  moreover have "is_digit 10 (hd (dec_digits p))" by (rule dec_digits_digits [OF hd_in_set]) simp
  ultimately show ?thesis using assms by (subst inet_parts.simps) (simp add: mult.commute)
qed

lemma inet_aton_dotted:
  assumes "a < 256" "b < 256" "c < 256" "d < 256"
  shows "inet_aton (dec_digits a @ 46 # dec_digits b @ 46 # dec_digits c @ 46 # dec_digits d) =
     Some (word_of_nat (256 * (256 * (256 * a + b) + c) + d))"
proof -
  have nz: "0 \<notin> set (dec_digits n)" for n
    using dec_digits_digits [of 0 n] by (auto simp: is_digit_def digit_of_def)
  show ?thesis
    using assms nz unfolding inet_aton_def
    by (subst c_str_id) (simp_all add: numeral_3_eq_3 inet_parts_dot inet_parts_end)
qed

end
