(* ===== verification/Util.thy ===== *)
theory Util
  imports CLib
begin

text \<open>
  The helpers of \<open>include/uvpp/util.hpp\<close>: the hexadecimal dumps, the rendering of MAC and
  IPv4 addresses and the time stamp of the log lines. The lemmas give the exact size of what
  each one writes, so that the fixed buffers of the source can be compared with it, and show
  that \<open>ValueToIP\<close> is undone by \<open>inet_addr\<close>.
\<close>

section \<open>Hexadecimal dumps\<close>

text \<open>\<open>setfill('0') << setw(k)\<close>.\<close>

definition pad0 :: "nat \<Rightarrow> bytes \<Rightarrow> bytes" where
  "pad0 k ds = replicate (k - length ds) 48 @ ds"

text \<open>\<open>isprint\<close> of the C locale.\<close>

definition isprint :: "byte \<Rightarrow> bool" where
  "isprint c \<longleftrightarrow> 32 \<le> c \<and> c \<le> 126"

text \<open>One line of the dump: the offset, sixteen hexadecimal columns, the printable bytes.\<close>

definition hexdump_row :: "bytes \<Rightarrow> nat \<Rightarrow> bytes" where
  "hexdump_row bs i =
     pad0 4 (dec_digits i) @ str ''  ''
     @ concat (map (\<lambda>j. if i + j < length bs then pad0 2 (hex02 (bs ! (i + j))) @ str '' ''
                         else str ''   '') [0..<16])
     @ str '' ''
     @ concat (map (\<lambda>j. if i + j < length bs
                         then (if isprint (bs ! (i + j)) then [bs ! (i + j)] else str ''.'')
                         else []) [0..<16])
     @ [10]"

function hexdump_rows :: "bytes \<Rightarrow> nat \<Rightarrow> bytes" where
  "hexdump_rows bs i =
     (if i < length bs then hexdump_row bs i @ hexdump_rows bs (i + 16) else [])"
  by pat_completeness auto
termination
  by (relation "measure (\<lambda>(bs, i). length bs - i)") auto

declare hexdump_rows.simps [simp del]

definition hexdump :: "bytes \<Rightarrow> bytes" where
  "hexdump bs = hexdump_rows bs 0"

text \<open>\<open>hexdump(string)\<close> copies the string into a vector of the same size first.\<close>

definition hexdump_string :: "bytes \<Rightarrow> bytes" where
  "hexdump_string msg = hexdump msg"

text \<open>
  \<open>hexdump(const char*, int)\<close> constructs a vector of \<open>len\<close> zero bytes and inserts the data at
  its end. \<open>data\<close> stands for the memory at the pointer, of which \<open>len\<close> bytes are read.
\<close>

definition hexdump_buffer :: "bytes \<Rightarrow> nat \<Rightarrow> bytes" where
  "hexdump_buffer data len = hexdump (replicate len 0 @ take len data)"

text \<open>
  \<open>hexdump2\<close>: the text collected in \<open>char output[8192]\<close>, without the two ruler lines printed
  around it. The loop appends \<open>%02x \<close> per byte and a newline after every sixteenth byte.
\<close>

fun hexdump2_loop :: "nat \<Rightarrow> bytes \<Rightarrow> bytes" where
  "hexdump2_loop i [] = []"
| "hexdump2_loop i (b # bs) =
     hex02 b @ [32] @ (if (i + 1) mod 16 = 0 then [10] else []) @ hexdump2_loop (i + 1) bs"

definition hexdump2_output :: "bytes \<Rightarrow> bytes" where
  "hexdump2_output bs = hexdump2_loop 0 bs @ (if length bs mod 16 \<noteq> 0 then [10] else [])"

lemma length_hexdump2_loop:
  "length (hexdump2_loop i bs) = 3 * length bs + (i mod 16 + length bs) div 16"
proof (induction bs arbitrary: i)
  case Nil
  then show ?case by simp
next
  case (Cons b bs)
  show ?case
  proof (cases "Suc (i mod 16) = 16")
    case True
    then show ?thesis by (simp add: Cons.IH mod_Suc)
  next
    case False
    then show ?thesis by (simp add: Cons.IH mod_Suc)
  qed
qed

lemma length_hexdump2_output:
  "length (hexdump2_output bs) = 3 * length bs + (length bs + 15) div 16"
proof (cases "length bs mod 16 = 0")
  case True
  then obtain k where "length bs = 16 * k" by (metis mod_0_imp_dvd dvdE)
  then show ?thesis by (simp add: hexdump2_output_def length_hexdump2_loop)
next
  case False
  define k where "k = length bs div 16"
  define r where "r = length bs mod 16"
  have n: "length bs = r + 16 * k" by (simp add: k_def r_def)
  have r: "0 < r" "r < 16" using False by (auto simp: r_def)
  then have "(length bs + 15) div 16 = k + 1" unfolding n by simp
  moreover have "length bs div 16 = k" by (simp add: k_def)
  ultimately show ?thesis using False by (simp add: hexdump2_output_def length_hexdump2_loop)
qed

text \<open>
  The text that \<open>hexdump2\<close> collects, with its terminating zero, fits the buffer of
  8192 bytes exactly for inputs of at most 2674 bytes; a longer input overruns the buffer.
\<close>

theorem hexdump2_fits: "length (hexdump2_output bs) < 8192 \<longleftrightarrow> length bs \<le> 2674"
proof -
  define q where "q = (length bs + 15) div 16"
  have "16 * q \<le> length bs + 15" by (simp add: q_def)
  moreover have "length bs + 15 < 16 * q + 16" using dividend_less_times_div [of 16 "length bs + 15"]
    by (simp add: q_def)
  ultimately show ?thesis unfolding length_hexdump2_output q_def [symmetric] by linarith
qed

text \<open>
  The size of a dump depends on the number of bytes only, and grows strictly with it.
\<close>

lemma length_hex_columns:
  "length (concat (map (\<lambda>j. if P j then pad0 2 (hex02 (f j)) @ str '' '' else str ''   '') js))
     = 3 * length js"
  by (induction js) (auto simp: pad0_def)

lemma length_char_columns:
  "length (concat (map (\<lambda>j. if i + j < n then (if Q j then [f j] else str ''.'') else []) [0..<k]))
     = min k (n - i)"
  by (induction k) (auto simp: min_def)

lemma length_hexdump_row:
  "length (hexdump_row bs i) =
     max 4 (length (dec_digits i)) + 52 + min 16 (length bs - i)"
  unfolding hexdump_row_def length_append length_hex_columns length_char_columns
  by (simp add: pad0_def max_def)

lemma length_hexdump_rows_less:
  "length as < length bs \<Longrightarrow> i < length bs \<Longrightarrow>
     length (hexdump_rows as i) < length (hexdump_rows bs i)"
proof (induction as i rule: hexdump_rows.induct)
  case (1 as i)
  have b: "hexdump_rows bs i = hexdump_row bs i @ hexdump_rows bs (i + 16)"
    using 1(3) by (subst hexdump_rows.simps) simp
  show ?case
  proof (cases "i < length as")
    case False
    then show ?thesis using b by (subst hexdump_rows.simps) (simp add: length_hexdump_row)
  next
    case True
    then have a: "hexdump_rows as i = hexdump_row as i @ hexdump_rows as (i + 16)"
      by (subst hexdump_rows.simps) simp
    show ?thesis
    proof (cases "i + 16 < length bs")
      case True2: True
      then have "length (hexdump_rows as (i + 16)) < length (hexdump_rows bs (i + 16))"
        using 1 True by blast
      then show ?thesis using a b 1(2) True by (simp add: length_hexdump_row)
    next
      case False
      then have "hexdump_rows as (i + 16) = []" using 1(2) by (subst hexdump_rows.simps) simp
      then show ?thesis using a b 1(2) True False by (simp add: length_hexdump_row)
    qed
  qed
qed

text \<open>
  The pointer overload of \<open>hexdump\<close> never shows the bytes it is given: the vector
  it builds starts with as many zero bytes as there is data, so for every non-empty buffer the
  output is strictly longer than the dump of the data.
\<close>

theorem hexdump_buffer_doubles:
  assumes "data \<noteq> []"
  shows "length (hexdump data) < length (hexdump_buffer data (length data))"
  using assms by (simp add: hexdump_def hexdump_buffer_def length_hexdump_rows_less)

theorem hexdump_buffer_doubles_witness:
  "length (hexdump [65, 66]) < length (hexdump_buffer [65, 66] 2)"
  using hexdump_buffer_doubles [of "[65, 66]"] by (simp add: numeral_2_eq_2)

section \<open>Addresses\<close>

text \<open>\<open>hexMacAddr\<close>: six bytes as \<open>%02x\<close> pairs with colons, a fixed text for any other size.\<close>

definition hexMacAddr :: "bytes \<Rightarrow> bytes" where
  "hexMacAddr macAddr =
     (if length macAddr \<noteq> 6 then str ''mac addr error''
      else join 58 (map hex02 macAddr))"

text \<open>\<open>ValueToIP\<close>: the four bytes of the value, most significant first, printed with \<open>%d\<close>.\<close>

definition ValueToIP :: "u32 \<Rightarrow> bytes" where
  "ValueToIP nValue =
     dec_digits (unat (drop_bit 24 (nValue AND 0xff000000))) @ str ''.''
     @ dec_digits (unat (drop_bit 16 (nValue AND 0x00ff0000))) @ str ''.''
     @ dec_digits (unat (drop_bit 8 (nValue AND 0x0000ff00))) @ str ''.''
     @ dec_digits (unat (nValue AND 0x000000ff))"

text \<open>The four numbers printed are the base-256 digits of the value.\<close>

lemma unat_field:
  fixes v :: u32
  assumes "m = push_bit k (mask 8)" "k + 8 \<le> 32"
  shows "unat (drop_bit k (v AND m)) = unat v div 2 ^ k mod 256"
proof -
  have "drop_bit k (v AND m) = take_bit 8 (drop_bit k v)"
    unfolding assms(1) using assms(2) by (intro bit_word_eqI) (auto simp: bit_simps)
  then have "unat (drop_bit k (v AND m)) = take_bit 8 (drop_bit k (unat v))"
    by (simp only: unsigned_take_bit_eq unat_drop_bit_eq)
  then show ?thesis by (simp add: take_bit_eq_mod drop_bit_eq_div)
qed

lemma ValueToIP_digits:
  "ValueToIP v =
     dec_digits (unat v div 2 ^ 24 mod 256) @ 46 # dec_digits (unat v div 2 ^ 16 mod 256) @ 46 #
     dec_digits (unat v div 2 ^ 8 mod 256) @ 46 # dec_digits (unat v mod 256)"
proof -
  have "unat (drop_bit 24 (v AND 0xff000000)) = unat v div 2 ^ 24 mod 256"
    "unat (drop_bit 16 (v AND 0x00ff0000)) = unat v div 2 ^ 16 mod 256"
    "unat (drop_bit 8 (v AND 0x0000ff00)) = unat v div 2 ^ 8 mod 256"
    "unat (drop_bit 0 (v AND 0x000000ff)) = unat v div 2 ^ 0 mod 256"
    by (rule unat_field; simp add: mask_eq_exp_minus_1)+
  then show ?thesis by (simp add: ValueToIP_def)
qed

lemma base256_digits:
  fixes n :: nat
  assumes "n < 2 ^ 32"
  shows "256 * (256 * (256 * (n div 2 ^ 24 mod 256) + n div 2 ^ 16 mod 256) + n div 2 ^ 8 mod 256) + n mod 256 = n"
proof -
  have "n div 2 ^ 24 mod 256 = n div 2 ^ 24" using assms by simp
  moreover have "n div 2 ^ 16 = 256 * (n div 2 ^ 24) + n div 2 ^ 16 mod 256"
    using mult_div_mod_eq [of 256 "n div 2 ^ 16"] by (simp add: div_mult2_eq [symmetric])
  moreover have "n div 2 ^ 8 = 256 * (n div 2 ^ 16) + n div 2 ^ 8 mod 256"
    using mult_div_mod_eq [of 256 "n div 2 ^ 8"] by (simp add: div_mult2_eq [symmetric])
  moreover have "n = 256 * (n div 2 ^ 8) + n mod 256"
    using mult_div_mod_eq [of 256 n] by simp
  ultimately show ?thesis by simp
qed

lemma inet_aton_ValueToIP: "inet_aton (ValueToIP v) = Some v"
proof -
  have "unat v < 2 ^ 32" using unsigned_less [of v, where ?'a = nat] by simp
  note n = base256_digits [OF this]
  have "inet_aton (ValueToIP v) = Some (word_of_nat (unat v))"
    unfolding ValueToIP_digits by (subst inet_aton_dotted; (simp only: n)?; simp)
  then show ?thesis by simp
qed

lemma c_str_ValueToIP [simp]: "c_str (ValueToIP v) = ValueToIP v"
  by (rule c_str_id)
     (auto simp: ValueToIP_digits is_digit_def digit_of_def dest!: dec_digits_digits)

text \<open>
  Printing an address with \<open>ValueToIP\<close> and reading it with \<open>inet_addr\<close> gives the
  address back (in network byte order, undone by \<open>htonl\<close> as everywhere in the server).
\<close>

theorem inet_addr_ValueToIP: "htonl (inet_addr (ValueToIP v)) = v"
  by (simp add: htonl_inet_addr inet_aton_ValueToIP)

text \<open>
  \<open>ValueToIP\<close> writes at most 15 characters, so with the terminating zero it stays
  inside \<open>char strTemp[20]\<close>.
\<close>

theorem ValueToIP_fits: "length (ValueToIP v) \<le> 15"
proof -
  have "length (dec_digits (n mod 256)) \<le> 3" for n
    by (rule length_dec_digits_less_1000) (simp add: less_trans [of _ 256])
  from this [of "unat v div 2 ^ 24"] this [of "unat v div 2 ^ 16"] this [of "unat v div 2 ^ 8"]
    this [of "unat v"]
  show ?thesis unfolding ValueToIP_digits by simp
qed

text \<open>\<open>hexMacAddr\<close> of six bytes has 17 characters, and the bytes can be read back from it.\<close>

lemma hex_digit_inj: "a < 16 \<Longrightarrow> b < 16 \<Longrightarrow> hex_digit a = hex_digit b \<Longrightarrow> a = b"
  unfolding hex_digit_def by (auto simp: word_less_nat_alt unat_arith_simps split: if_splits)

lemma hex02_inj: "hex02 a = hex02 b \<Longrightarrow> a = b"
proof -
  assume eq: "hex02 a = hex02 b"
  have lt: "drop_bit 4 w < 16" "w AND 15 < 16" for w :: byte
  proof -
    have "unat w < 2 ^ 8" using unsigned_less [of w, where ?'a = nat] by simp
    then have "drop_bit 4 (unat w) < 16" by (simp add: drop_bit_eq_div)
    then show "drop_bit 4 w < 16"
      by (simp only: word_less_nat_alt unat_drop_bit_eq) simp
    have "w AND 15 \<le> 15" by (rule word_and_le1)
    then show "w AND 15 < 16" by (simp add: word_less_nat_alt word_le_nat_alt)
  qed
  have "drop_bit 4 a = drop_bit 4 b" "a AND 15 = b AND 15"
    using eq lt by (auto simp: hex02_def intro!: hex_digit_inj)
  then show "a = b"
  proof (intro bit_word_eqI)
    fix n assume n: "n < LENGTH(8)"
    show "bit a n = bit b n"
    proof (cases "n < 4")
      case True
      have "bit (a AND mask 4) n = bit (b AND mask 4) n"
        using \<open>a AND 15 = b AND 15\<close> by (simp add: mask_eq_exp_minus_1)
      then show ?thesis using True by (simp add: bit_simps)
    next
      case False
      have "bit (drop_bit 4 a) (n - 4) = bit (drop_bit 4 b) (n - 4)"
        using \<open>drop_bit 4 a = drop_bit 4 b\<close> by simp
      then show ?thesis using False by (simp add: bit_simps)
    qed
  qed
qed

lemma length_join: "length (join c xs) = sum_list (map length xs) + (length xs - 1)"
  by (induction c xs rule: join.induct) auto

lemma join_map_hex02_inj:
  "length as = length bs \<Longrightarrow> join 58 (map hex02 as) = join 58 (map hex02 bs) \<Longrightarrow> as = bs"
proof (induction as bs rule: list_induct2)
  case Nil
  then show ?case by simp
next
  case (Cons a as b bs)
  then show ?case by (cases as; cases bs) (auto dest: hex02_inj)
qed

text \<open>
  \<open>hexMacAddr\<close> loses nothing: two MAC addresses of six bytes that print alike are
  equal, and no six-byte address prints as the error text.
\<close>

theorem hexMacAddr_inj:
  assumes "length a = 6" "hexMacAddr a = hexMacAddr b"
  shows "a = b"
proof -
  have len: "length (join 58 (map hex02 m)) = 17" if "length m = 6" for m
    using that by (simp add: length_join comp_def sum_list_triv)
  have "length b = 6"
  proof (rule ccontr)
    assume "length b \<noteq> 6"
    with assms have "join 58 (map hex02 a) = str ''mac addr error''"
      by (simp add: hexMacAddr_def)
    then have "length (str ''mac addr error'') = 17" using len [OF assms(1)] by metis
    then show False by simp
  qed
  with assms show ?thesis by (auto simp: hexMacAddr_def intro: join_map_hex02_inj)
qed

theorem hexMacAddr_inj_witness:
  "hexMacAddr [0, 1, 2, 3, 4, 5] = hexMacAddr [0, 1, 2, 3, 4, 5] \<and> [0, 1, 2, 3, 4, 5] = ([0, 1, 2, 3, 4, 5] :: bytes)"
  using hexMacAddr_inj [of "[0, 1, 2, 3, 4, 5]" "[0, 1, 2, 3, 4, 5]"] by simp

section \<open>Time stamps\<close>

text \<open>
  \<open>getCurrentTime\<close>: the local time, which the operating system supplies, in the format
  \<open>%Y-%m-%d %H:%M:%S\<close> followed by the milliseconds.
\<close>

record tm =
  tm_year :: nat
  tm_mon :: nat
  tm_mday :: nat
  tm_hour :: nat
  tm_min :: nat
  tm_sec :: nat

definition getCurrentTime :: "tm \<Rightarrow> nat \<Rightarrow> bytes" where
  "getCurrentTime t tv_usec =
     dec_digits (tm_year t + 1900) @ str ''-'' @ pad0 2 (dec_digits (tm_mon t + 1)) @ str ''-''
     @ pad0 2 (dec_digits (tm_mday t)) @ str '' '' @ pad0 2 (dec_digits (tm_hour t)) @ str '':''
     @ pad0 2 (dec_digits (tm_min t)) @ str '':'' @ pad0 2 (dec_digits (tm_sec t))
     @ str ''-'' @ pad0 3 (dec_digits (tv_usec div 1000)) @ str '' ''"

end
