(* ===== verification/Crc.thy ===== *)
theory Crc
  imports Prelude
begin

text \<open>
  The checksum of \<open>include/uvpp/crc.hpp\<close>: the look-up table as the header writes it and the
  table-driven loop \<open>getCRC\<close>. The lemmas show that the table is the one of the reflected
  CRC-32 polynomial, that the loop computes the same register as shifting the message through
  the polynomial bit by bit, and which errors the checksum does and does not detect.
\<close>

section \<open>The table-driven loop\<close>

definition crc_table :: "u32 list" where
  "crc_table = [
     0x00000000, 0x77073096, 0xee0e612c, 0x990951ba, 0x076dc419, 0x706af48f, 0xe963a535, 0x9e6495a3,
     0x0edb8832, 0x79dcb8a4, 0xe0d5e91e, 0x97d2d988, 0x09b64c2b, 0x7eb17cbd, 0xe7b82d07, 0x90bf1d91,
     0x1db71064, 0x6ab020f2, 0xf3b97148, 0x84be41de, 0x1adad47d, 0x6ddde4eb, 0xf4d4b551, 0x83d385c7,
     0x136c9856, 0x646ba8c0, 0xfd62f97a, 0x8a65c9ec, 0x14015c4f, 0x63066cd9, 0xfa0f3d63, 0x8d080df5,
     0x3b6e20c8, 0x4c69105e, 0xd56041e4, 0xa2677172, 0x3c03e4d1, 0x4b04d447, 0xd20d85fd, 0xa50ab56b,
     0x35b5a8fa, 0x42b2986c, 0xdbbbc9d6, 0xacbcf940, 0x32d86ce3, 0x45df5c75, 0xdcd60dcf, 0xabd13d59,
     0x26d930ac, 0x51de003a, 0xc8d75180, 0xbfd06116, 0x21b4f4b5, 0x56b3c423, 0xcfba9599, 0xb8bda50f,
     0x2802b89e, 0x5f058808, 0xc60cd9b2, 0xb10be924, 0x2f6f7c87, 0x58684c11, 0xc1611dab, 0xb6662d3d,
     0x76dc4190, 0x01db7106, 0x98d220bc, 0xefd5102a, 0x71b18589, 0x06b6b51f, 0x9fbfe4a5, 0xe8b8d433,
     0x7807c9a2, 0x0f00f934, 0x9609a88e, 0xe10e9818, 0x7f6a0dbb, 0x086d3d2d, 0x91646c97, 0xe6635c01,
     0x6b6b51f4, 0x1c6c6162, 0x856530d8, 0xf262004e, 0x6c0695ed, 0x1b01a57b, 0x8208f4c1, 0xf50fc457,
     0x65b0d9c6, 0x12b7e950, 0x8bbeb8ea, 0xfcb9887c, 0x62dd1ddf, 0x15da2d49, 0x8cd37cf3, 0xfbd44c65,
     0x4db26158, 0x3ab551ce, 0xa3bc0074, 0xd4bb30e2, 0x4adfa541, 0x3dd895d7, 0xa4d1c46d, 0xd3d6f4fb,
     0x4369e96a, 0x346ed9fc, 0xad678846, 0xda60b8d0, 0x44042d73, 0x33031de5, 0xaa0a4c5f, 0xdd0d7cc9,
     0x5005713c, 0x270241aa, 0xbe0b1010, 0xc90c2086, 0x5768b525, 0x206f85b3, 0xb966d409, 0xce61e49f,
     0x5edef90e, 0x29d9c998, 0xb0d09822, 0xc7d7a8b4, 0x59b33d17, 0x2eb40d81, 0xb7bd5c3b, 0xc0ba6cad,
     0xedb88320, 0x9abfb3b6, 0x03b6e20c, 0x74b1d29a, 0xead54739, 0x9dd277af, 0x04db2615, 0x73dc1683,
     0xe3630b12, 0x94643b84, 0x0d6d6a3e, 0x7a6a5aa8, 0xe40ecf0b, 0x9309ff9d, 0x0a00ae27, 0x7d079eb1,
     0xf00f9344, 0x8708a3d2, 0x1e01f268, 0x6906c2fe, 0xf762575d, 0x806567cb, 0x196c3671, 0x6e6b06e7,
     0xfed41b76, 0x89d32be0, 0x10da7a5a, 0x67dd4acc, 0xf9b9df6f, 0x8ebeeff9, 0x17b7be43, 0x60b08ed5,
     0xd6d6a3e8, 0xa1d1937e, 0x38d8c2c4, 0x4fdff252, 0xd1bb67f1, 0xa6bc5767, 0x3fb506dd, 0x48b2364b,
     0xd80d2bda, 0xaf0a1b4c, 0x36034af6, 0x41047a60, 0xdf60efc3, 0xa867df55, 0x316e8eef, 0x4669be79,
     0xcb61b38c, 0xbc66831a, 0x256fd2a0, 0x5268e236, 0xcc0c7795, 0xbb0b4703, 0x220216b9, 0x5505262f,
     0xc5ba3bbe, 0xb2bd0b28, 0x2bb45a92, 0x5cb36a04, 0xc2d7ffa7, 0xb5d0cf31, 0x2cd99e8b, 0x5bdeae1d,
     0x9b64c2b0, 0xec63f226, 0x756aa39c, 0x026d930a, 0x9c0906a9, 0xeb0e363f, 0x72076785, 0x05005713,
     0x95bf4a82, 0xe2b87a14, 0x7bb12bae, 0x0cb61b38, 0x92d28e9b, 0xe5d5be0d, 0x7cdcefb7, 0x0bdbdf21,
     0x86d3d2d4, 0xf1d4e242, 0x68ddb3f8, 0x1fda836e, 0x81be16cd, 0xf6b9265b, 0x6fb077e1, 0x18b74777,
     0x88085ae6, 0xff0f6a70, 0x66063bca, 0x11010b5c, 0x8f659eff, 0xf862ae69, 0x616bffd3, 0x166ccf45,
     0xa00ae278, 0xd70dd2ee, 0x4e048354, 0x3903b3c2, 0xa7672661, 0xd06016f7, 0x4969474d, 0x3e6e77db,
     0xaed16a4a, 0xd9d65adc, 0x40df0b66, 0x37d83bf0, 0xa9bcae53, 0xdebb9ec5, 0x47b2cf7f, 0x30b5ffe9,
     0xbdbdf21c, 0xcabac28a, 0x53b39330, 0x24b4a3a6, 0xbad03605, 0xcdd70693, 0x54de5729, 0x23d967bf,
     0xb3667a2e, 0xc4614ab8, 0x5d681b02, 0x2a6f2b94, 0xb40bbe37, 0xc30c8ea1, 0x5a05df1b, 0x2d02ef8d]"

text \<open>
  One round of the loop and the loop over the first \<open>nLength\<close> bytes of the buffer. The initial
  register is zero, the result is complemented, a length below one returns all ones at once.
\<close>

definition crc_step :: "u32 \<Rightarrow> byte \<Rightarrow> u32" where
  "crc_step crc b = (crc_table ! unat ((crc XOR ucast b) AND 0xff)) XOR drop_bit 8 crc"

definition getCRC :: "bytes \<Rightarrow> int \<Rightarrow> u32" where
  "getCRC buf nLength =
     (if nLength < 1 then 0xffffffff
      else foldl crc_step 0 (take (nat nLength) buf) XOR 0xffffffff)"

section \<open>The reference: polynomial division bit by bit\<close>

definition crc_shift :: "u32 \<Rightarrow> u32" where
  "crc_shift c = (if bit c 0 then drop_bit 1 c XOR 0xedb88320 else drop_bit 1 c)"

definition crc_bits :: "u32 \<Rightarrow> byte \<Rightarrow> u32" where
  "crc_bits c b = (crc_shift ^^ 8) (c XOR ucast b)"

lemma crc_shift_0 [simp]: "crc_shift 0 = 0"
  by (simp add: crc_shift_def)

lemma crc_shift_xor: "crc_shift (a XOR b) = crc_shift a XOR crc_shift b"
  by (auto simp: crc_shift_def bit_xor_iff drop_bit_xor ac_simps)

lemma crc_shift_pow_xor: "(crc_shift ^^ n) (a XOR b) = (crc_shift ^^ n) a XOR (crc_shift ^^ n) b"
  by (induction n) (auto simp: crc_shift_xor)

lemma crc_shift_pow_high:
  "take_bit n c = 0 \<Longrightarrow> (crc_shift ^^ n) c = drop_bit n c"
proof (induction n arbitrary: c)
  case 0
  then show ?case by simp
next
  case (Suc n)
  have b: "\<not> bit c m" if "m < Suc n" for m
    using Suc.prems that by (metis bit_0_eq bit_take_bit_iff bot_apply bot_bool_def)
  then have "crc_shift c = drop_bit 1 c" by (simp add: crc_shift_def)
  moreover have "take_bit n (drop_bit 1 c) = 0"
    by (rule bit_word_eqI) (use b in \<open>auto simp: bit_simps\<close>)
  ultimately show ?case using Suc.IH by (simp add: funpow_swap1 del: funpow.simps(2) add: funpow_Suc_right)
qed

text \<open>
  The table holds, at index \<open>i\<close>, the register that eight shifts make of \<open>i\<close>. Shifting is linear,
  so the table doubles: the entries from \<open>2 ^ k\<close> on are the earlier ones with the entry of
  \<open>2 ^ k\<close> added.
\<close>

lemma crc_shift_poly:
  "crc_shift 0xedb88320 = 0x76dc4190" "crc_shift 0x76dc4190 = 0x3b6e20c8"
  "crc_shift 0x3b6e20c8 = 0x1db71064" "crc_shift 0x1db71064 = 0x0edb8832"
  "crc_shift 0x0edb8832 = 0x076dc419" "crc_shift 0x076dc419 = 0xee0e612c"
  "crc_shift 0xee0e612c = 0x77073096"
  by code_simp+

lemma crc_shift_power: "k < 8 \<Longrightarrow> (crc_shift ^^ 8) (2 ^ k) = (crc_shift ^^ (7 - k)) 0xedb88320"
proof -
  assume "k < 8"
  have "(crc_shift ^^ k) (2 ^ k) = drop_bit k (2 ^ k)"
    by (rule crc_shift_pow_high) (rule bit_word_eqI, auto simp: bit_simps)
  also have "drop_bit k (2 ^ k) = (1 :: u32)"
    using \<open>k < 8\<close> by (intro bit_word_eqI) (auto simp: bit_simps)
  finally have "(crc_shift ^^ Suc k) (2 ^ k) = 0xedb88320" by (simp add: crc_shift_def)
  moreover have "(8 :: nat) = (7 - k) + Suc k" using \<open>k < 8\<close> by simp
  ultimately show ?thesis by (metis funpow_add o_apply)
qed

definition crc_doubles :: "nat \<Rightarrow> u32 list \<Rightarrow> bool" where
  "crc_doubles k ts \<longleftrightarrow> length ts = 2 ^ k \<and> (\<forall>j < 2 ^ k. ts ! j = (crc_shift ^^ 8) (word_of_nat j))"

lemma crc_doubles_step:
  assumes "crc_doubles k ts" "(crc_shift ^^ 8) (2 ^ k) = b" "k < 8"
  shows "crc_doubles (Suc k) (ts @ map (\<lambda>t. b XOR t) ts)"
  unfolding crc_doubles_def
proof (intro conjI allI impI)
  show "length (ts @ map (\<lambda>t. b XOR t) ts) = 2 ^ Suc k" using assms(1) by (simp add: crc_doubles_def)
  fix j assume j: "j < (2 :: nat) ^ Suc k"
  show "(ts @ map (\<lambda>t. b XOR t) ts) ! j = (crc_shift ^^ 8) (word_of_nat j)"
  proof (cases "j < 2 ^ k")
    case True
    then show ?thesis using assms(1) by (simp add: crc_doubles_def nth_append)
  next
    case False
    define i where "i = j - 2 ^ k"
    have i: "i < 2 ^ k" "j = 2 ^ k + i" using False j by (auto simp: i_def)
    have "\<not> bit i k" using i(1) by (simp add: bit_iff_odd)
    then have "(2 ^ k) AND word_of_nat i = (0 :: u32)"
      by (intro bit_word_eqI) (auto simp: bit_simps)
    then have w: "word_of_nat j = (2 ^ k) XOR (word_of_nat i :: u32)"
      unfolding i(2) by (simp add: disjunctive_add_eq_xor)
    have "(ts @ map (\<lambda>t. b XOR t) ts) ! j = b XOR (crc_shift ^^ 8) (word_of_nat i)"
      using assms(1) i by (simp add: crc_doubles_def nth_append)
    then show ?thesis by (simp only: w crc_shift_pow_xor assms(2))
  qed
qed

lemma crc_shift_pow_0 [simp]: "(crc_shift ^^ n) 0 = 0"
  by (induction n) auto

lemma crc_basis:
  "(crc_shift ^^ 8) (2 ^ 0) = 0x77073096"
  "(crc_shift ^^ 8) (2 ^ (Suc 0)) = 0xee0e612c"
  "(crc_shift ^^ 8) (2 ^ (Suc (Suc 0))) = 0x076dc419"
  "(crc_shift ^^ 8) (2 ^ (Suc (Suc (Suc 0)))) = 0x0edb8832"
  "(crc_shift ^^ 8) (2 ^ (Suc (Suc (Suc (Suc 0))))) = 0x1db71064"
  "(crc_shift ^^ 8) (2 ^ (Suc (Suc (Suc (Suc (Suc 0)))))) = 0x3b6e20c8"
  "(crc_shift ^^ 8) (2 ^ (Suc (Suc (Suc (Suc (Suc (Suc 0))))))) = 0x76dc4190"
  "(crc_shift ^^ 8) (2 ^ (Suc (Suc (Suc (Suc (Suc (Suc (Suc 0)))))))) = 0xedb88320"
  by (simp_all only: crc_shift_power) (simp_all add: eval_nat_numeral crc_shift_poly)

lemma crc_table_fold:
  "fold (\<lambda>b ts. ts @ map (\<lambda>t. b XOR t) ts)
     [0x77073096, 0xee0e612c, 0x076dc419, 0x0edb8832, 0x1db71064, 0x3b6e20c8, 0x76dc4190, 0xedb88320] [0]
   = crc_table"
  by (simp add: crc_table_def)

lemma crc_doubles_fold:
  assumes "crc_doubles k ts" "k + length bs \<le> 8"
    "\<And>i. i < length bs \<Longrightarrow> (crc_shift ^^ 8) (2 ^ (k + i)) = bs ! i"
  shows "crc_doubles (k + length bs) (fold (\<lambda>b ts. ts @ map (\<lambda>t. b XOR t) ts) bs ts)"
  using assms
proof (induction bs arbitrary: k ts)
  case Nil
  then show ?case by simp
next
  case (Cons b bs)
  have "crc_doubles (Suc k) (ts @ map (\<lambda>t. b XOR t) ts)"
    using Cons.prems(1,2) Cons.prems(3) [of 0] by (intro crc_doubles_step) auto
  moreover have "(crc_shift ^^ 8) (2 ^ (Suc k + i)) = bs ! i" if "i < length bs" for i
    using Cons.prems(3) [of "Suc i"] that by simp
  ultimately show ?case using Cons.IH [of "Suc k"] Cons.prems(2) by simp
qed

lemma crc_table_doubles: "crc_doubles 8 crc_table"
proof -
  have "(crc_shift ^^ 8) (2 ^ (0 + i)) =
      [0x77073096, 0xee0e612c, 0x076dc419, 0x0edb8832, 0x1db71064, 0x3b6e20c8, 0x76dc4190, 0xedb88320] ! i"
    if "i < 8" for i
  proof -
    have "i \<in> set [0..<8]" using that by simp
    then show ?thesis using crc_basis by (auto simp: upt_rec simp del: funpow.simps power_Suc)
  qed
  then have "crc_doubles (0 + length [0x77073096, 0xee0e612c, 0x076dc419, 0x0edb8832, 0x1db71064,
      0x3b6e20c8, 0x76dc4190, 0xedb88320 :: u32]) crc_table"
    unfolding crc_table_fold [symmetric]
    by (intro crc_doubles_fold) (auto simp: crc_doubles_def)
  then show ?thesis by (simp add: eval_nat_numeral)
qed

lemma crc_table_nth: "i < 256 \<Longrightarrow> crc_table ! i = (crc_shift ^^ 8) (word_of_nat i)"
  using crc_table_doubles by (simp add: crc_doubles_def)

lemma crc_step_eq_bits: "crc_step c b = crc_bits c b"
proof -
  define x where "x = c XOR ucast b"
  have hi: "take_bit 8 (x AND NOT (mask 8)) = 0"
    by (rule bit_word_eqI) (auto simp: bit_simps)
  have lo: "x AND 0xff = take_bit 8 x"
    by (simp add: take_bit_eq_mask mask_eq_exp_minus_1)
  have "unat (x AND 0xff) < 2 ^ 8"
    unfolding lo unsigned_take_bit_eq by (rule take_bit_nat_less_exp)
  then have "crc_table ! unat (x AND 0xff) = (crc_shift ^^ 8) (x AND 0xff)"
    by (simp add: crc_table_nth)
  moreover have "(crc_shift ^^ 8) (x AND NOT (mask 8)) = drop_bit 8 c"
    unfolding crc_shift_pow_high [OF hi]
    by (rule bit_word_eqI) (auto simp: bit_simps x_def dest: bit_imp_le_length)
  moreover have "x = (x AND 0xff) XOR (x AND NOT (mask 8))"
    unfolding lo by (rule bit_word_eqI) (auto simp: bit_simps)
  ultimately show ?thesis
    unfolding crc_step_def crc_bits_def x_def [symmetric] by (metis crc_shift_pow_xor)
qed

text \<open>
  Property C22: the table-driven checksum equals the bitwise division of the message by the
  reflected CRC-32 polynomial, with a zero initial register and a complemented result.
\<close>

theorem getCRC_bitwise:
  "getCRC buf nLength =
     (if nLength < 1 then 0xffffffff else NOT (foldl crc_bits 0 (take (nat nLength) buf)))"
proof -
  have "crc_step = crc_bits" by (intro ext) (rule crc_step_eq_bits)
  moreover have "w XOR 0xffffffff = NOT w" for w :: u32
  proof -
    have "(0xffffffff :: u32) = NOT 0" by simp
    then show ?thesis by (simp only:) (rule bit_word_eqI, auto simp: bit_simps)
  qed
  ultimately show ?thesis by (simp add: getCRC_def)
qed

section \<open>What the checksum detects\<close>

text \<open>Shifting is injective, because the polynomial sets the top bit that a plain shift clears.\<close>

lemma crc_shift_inj: "crc_shift a = crc_shift b \<Longrightarrow> a = b"
proof -
  assume eq: "crc_shift a = crc_shift b"
  have poly: "bit (0xedb88320 :: u32) 31" by simp
  have top: "bit (crc_shift c) 31 = bit c 0" for c
    by (auto simp: crc_shift_def bit_xor_iff bit_drop_bit_eq poly dest: bit_imp_le_length)
  have b0: "bit a 0 = bit b 0" using eq top by metis
  then have d: "drop_bit 1 a = drop_bit 1 b"
    using eq by (auto simp: crc_shift_def split: if_splits)
  show "a = b"
  proof (rule bit_word_eqI)
    fix n
    show "bit a n = bit b n"
    proof (cases n)
      case 0
      then show ?thesis using b0 by simp
    next
      case (Suc m)
      have "bit (drop_bit 1 a) m = bit (drop_bit 1 b) m" using d by simp
      then show ?thesis using Suc by (simp add: bit_drop_bit_eq)
    qed
  qed
qed

lemma crc_shift_pow_inj: "(crc_shift ^^ n) a = (crc_shift ^^ n) b \<Longrightarrow> a = b"
  by (induction n) (auto dest: crc_shift_inj)

lemma crc_step_inj_reg: "crc_step a x = crc_step b x \<Longrightarrow> a = b"
  unfolding crc_step_eq_bits crc_bits_def by (drule crc_shift_pow_inj) simp

lemma crc_step_inj_byte: "crc_step a x = crc_step a y \<Longrightarrow> x = y"
proof -
  assume "crc_step a x = crc_step a y"
  then have "a XOR ucast x = a XOR (ucast y :: u32)"
    unfolding crc_step_eq_bits crc_bits_def by (rule crc_shift_pow_inj)
  then have "(ucast x :: u32) = ucast y" by (simp only: word_xor_cancel)
  then have "(ucast (ucast x :: u32) :: byte) = ucast (ucast y :: u32)" by (simp only:)
  then show "x = y" by (simp add: ucast_up_ucast_id is_up)
qed

lemma crc_run_inj: "foldl crc_step a bs = foldl crc_step b bs \<Longrightarrow> a = b"
  by (induction bs arbitrary: a b) (auto dest: crc_step_inj_reg)

text \<open>
  Corrupting a single byte of a message, whatever the position and the new value,
  always changes the checksum.
\<close>

theorem getCRC_detects_byte:
  assumes "i < length buf" "x \<noteq> buf ! i"
  shows "getCRC (buf[i := x]) (int (length buf)) \<noteq> getCRC buf (int (length buf))"
proof
  assume eq: "getCRC (buf[i := x]) (int (length buf)) = getCRC buf (int (length buf))"
  have "buf \<noteq> []" using assms(1) by auto
  then have "\<not> int (length buf) < 1" by (simp add: not_less Suc_le_eq)
  with eq have run: "foldl crc_step 0 (buf[i := x]) = foldl crc_step 0 buf"
    by (simp add: getCRC_def)
  have old: "buf = take i buf @ buf ! i # drop (Suc i) buf"
    using assms(1) by (rule id_take_nth_drop)
  have new: "buf[i := x] = take i buf @ x # drop (Suc i) buf"
    using assms(1) by (rule upd_conv_take_nth_drop)
  have "foldl crc_step 0 (take i buf @ x # drop (Suc i) buf) =
      foldl crc_step 0 (take i buf @ buf ! i # drop (Suc i) buf)"
    using run unfolding new old [symmetric] .
  then have "foldl crc_step (crc_step (foldl crc_step 0 (take i buf)) x) (drop (Suc i) buf)
      = foldl crc_step (crc_step (foldl crc_step 0 (take i buf)) (buf ! i)) (drop (Suc i) buf)"
    by (simp only: foldl_append foldl_Cons)
  then have "x = buf ! i" by (blast dest: crc_run_inj crc_step_inj_byte)
  with assms(2) show False by simp
qed

theorem getCRC_detects_byte_witness:
  "getCRC ([1, 2, 3] [1 := 7]) (int (length [1, 2, 3 :: byte])) \<noteq> getCRC [1, 2, 3] (int (length [1, 2, 3 :: byte]))"
  by (rule getCRC_detects_byte) simp_all

lemma crc_step_zero: "crc_step 0 0 = 0"
  by (simp add: crc_step_eq_bits crc_bits_def)

text \<open>
  The zero initial register makes leading zero bytes invisible: any number of zero
  bytes can be put in front of a non-empty message without changing its checksum. The usual
  CRC-32 starts from all ones to exclude this.
\<close>

theorem getCRC_leading_zeros:
  assumes "buf \<noteq> []"
  shows "getCRC (replicate n 0 @ buf) (int (n + length buf)) = getCRC buf (int (length buf))"
proof -
  have z: "foldl crc_step 0 (replicate n 0) = 0" by (induction n) (auto simp: crc_step_zero)
  have "\<not> int (length buf) < 1" "\<not> int (n + length buf) < 1"
    using assms by (cases buf; simp)+
  then show ?thesis by (simp add: getCRC_def z)
qed

theorem getCRC_leading_zeros_witness:
  "getCRC ([0, 0] @ [5]) (int (2 + length [5 :: byte])) = getCRC [5] (int (length [5 :: byte]))"
  using getCRC_leading_zeros [of "[5]" 2] by (simp add: eval_nat_numeral)

end
