(* ===== verification/MzConfig.thy ===== *)
theory MzConfig
  imports CLib
begin

text \<open>
  The configuration of the client, \<open>main/config.h\<close>: the settings record with its defaults, the
  reader of the configuration file, the reload after a signal, the token splitter the server
  uses for subnet lists, and the write-back of the MAC address.

  The file format and the parsed tree belong to libconfig, of which the repository has only
  the headers and a binary. The routines take a record of the library's operations as an
  argument; nothing is assumed about them beyond their types.
\<close>

section \<open>Data\<close>

record ServerInfo =
  si_ip :: bytes
  si_port :: u32

record TunnelInfo =
  local_ip :: bytes
  server_ip :: bytes
  server_port :: bytes
  up_bw :: bytes
  down_bw :: bytes
  priority :: bytes

record NodeInfo =
  nodeID :: u32
  virtualIP :: bytes
  subNet :: bytes
  ni_netMask :: u32
  ni_macAddr :: bytes

record mzConfig =
  userID :: u32
  connectMode :: u32
  timerInterval :: u32
  packetSize :: u32
  gatewayBw :: u32
  gateWay :: u32
  meshBw :: u32
  debug :: u32
  thread :: u32
  netMask :: u32
  sleepMs :: u32
  tapMode :: u32
  bondMode :: u32
  statistics :: u32
  onlyAcc :: u32
  venderID :: bytes
  userIP :: bytes
  devName :: bytes
  logFile :: bytes
  statFile :: bytes
  meshFile :: bytes
  upCmd :: bytes
  downCmd :: bytes
  confPath :: bytes
  macAddr :: bytes
  encrypt :: bytes
  out_dev_name_master :: bytes
  out_dev_name_slave :: bytes
  tunnelList :: "TunnelInfo list"
  serverList :: "ServerInfo list"
  nodeInfoList :: "NodeInfo list"

text \<open>
  \<open>reset()\<close>: the fields it assigns; \<open>venderID\<close>, \<open>macAddr\<close>, the outgoing device names and the
  three lists keep their values.
\<close>

definition reset :: "mzConfig \<Rightarrow> mzConfig" where
  "reset c = c\<lparr>
     userID := 0, connectMode := 0, timerInterval := 0, packetSize := 0, gateWay := 0,
     meshBw := 0, gatewayBw := 0, netMask := 24, debug := 0, thread := 0, sleepMs := 10,
     tapMode := 0, bondMode := 0, statistics := 0, onlyAcc := 0,
     userIP := [], devName := [], upCmd := [], downCmd := [], encrypt := [],
     logFile := str ''./app.log'', statFile := str ''./stat.log'', meshFile := str ''./mesh.txt''\<rparr>"

text \<open>The constructor: default-constructed strings and vectors, then \<open>reset()\<close>.\<close>

definition new_mzConfig :: mzConfig where
  "new_mzConfig = reset \<lparr>
     userID = 0, connectMode = 0, timerInterval = 0, packetSize = 0, gatewayBw = 0, gateWay = 0,
     meshBw = 0, debug = 0, thread = 0, netMask = 0, sleepMs = 0, tapMode = 0, bondMode = 0,
     statistics = 0, onlyAcc = 0, venderID = [], userIP = [], devName = [], logFile = [],
     statFile = [], meshFile = [], upCmd = [], downCmd = [], confPath = [], macAddr = [],
     encrypt = [], out_dev_name_master = [], out_dev_name_slave = [],
     tunnelList = [], serverList = [], nodeInfoList = []\<rparr>"

section \<open>Splitting strings\<close>

text \<open>\<open>split(str, pattern)\<close>: the C string of the input is cut with \<open>strtok\<close>.\<close>

definition split_str :: "bytes \<Rightarrow> bytes \<Rightarrow> bytes list" where
  "split_str s pattern = strtok_all (c_str pattern) (c_str s)"

section \<open>The library's interface\<close>

text \<open>
  \<open>readFile\<close> opens and parses a file, or throws. \<open>lookup\<close> finds a setting and converts it to
  \<open>unsigned int\<close>: it may throw that there is no such setting, or that its type is wrong. The
  \<open>lookupValue\<close> calls report success. \<open>tunnel_settings\<close> is \<open>getRoot()["tunnel_list"]\<close> with its
  elements, \<open>field\<close> is \<open>lookupValue\<close> on one element. \<open>set_string\<close> removes a setting of that
  name if there is one and adds a string; \<open>writeFile\<close> may throw.
\<close>

datatype 'c read_result = ReadIOError | ReadParseError | ReadOk 'c

datatype 'a looked = Found 'a | NotFound | WrongType

record ('c, 's) libconfig =
  readFile :: "bytes \<Rightarrow> 'c read_result"
  lookup :: "'c \<Rightarrow> bytes \<Rightarrow> u32 looked"
  lookupValue_string :: "'c \<Rightarrow> bytes \<Rightarrow> bytes option"
  lookupValue_uint :: "'c \<Rightarrow> bytes \<Rightarrow> u32 option"
  tunnel_settings :: "'c \<Rightarrow> 's list option"
  field :: "'s \<Rightarrow> bytes \<Rightarrow> bytes option"
  set_string :: "'c \<Rightarrow> bytes \<Rightarrow> bytes \<Rightarrow> 'c"
  writeFile :: "bytes \<Rightarrow> 'c \<Rightarrow> bool"

section \<open>Reading the file\<close>

text \<open>
  One \<open>try\<close> block of \<open>loadConfig\<close>. \<open>Lookup\<close> assigns what \<open>lookup\<close> finds, a missing setting is
  caught and leaves the field, any other exception is not caught and terminates the process.
  The \<open>lookupValue\<close> blocks assign on success.
\<close>

datatype setting_read =
    Lookup bytes "u32 \<Rightarrow> mzConfig \<Rightarrow> mzConfig"
  | LookupString bytes "bytes \<Rightarrow> mzConfig \<Rightarrow> mzConfig"
  | LookupUint bytes "u32 \<Rightarrow> mzConfig \<Rightarrow> mzConfig"

fun read_setting :: "('c, 's) libconfig \<Rightarrow> 'c \<Rightarrow> setting_read \<Rightarrow> mzConfig \<Rightarrow> mzConfig run" where
  "read_setting lib cfg (Lookup name upd) c =
     (case lookup lib cfg name of
        Found v \<Rightarrow> Goes (upd v c) []
      | NotFound \<Rightarrow> Goes c []
      | WrongType \<Rightarrow> Stops Abort [])"
| "read_setting lib cfg (LookupString name upd) c =
     (case lookupValue_string lib cfg name of Some v \<Rightarrow> Goes (upd v c) [] | None \<Rightarrow> Goes c [])"
| "read_setting lib cfg (LookupUint name upd) c =
     (case lookupValue_uint lib cfg name of Some v \<Rightarrow> Goes (upd v c) [] | None \<Rightarrow> Goes c [])"

fun read_settings ::
  "('c, 's) libconfig \<Rightarrow> 'c \<Rightarrow> setting_read list \<Rightarrow> mzConfig \<Rightarrow> mzConfig run" where
  "read_settings lib cfg [] c = Goes c []"
| "read_settings lib cfg (r # rs) c =
     run_then (read_setting lib cfg r c) (read_settings lib cfg rs)"

text \<open>The blocks of \<open>loadConfig\<close>, in their order.\<close>

definition mode_settings :: "setting_read list" where
  "mode_settings =
     [Lookup (str ''userID'') (\<lambda>v c. c\<lparr>userID := v\<rparr>),
      Lookup (str ''gateWay'') (\<lambda>v c. c\<lparr>gateWay := v\<rparr>),
      Lookup (str ''tapMode'') (\<lambda>v c. c\<lparr>tapMode := v\<rparr>),
      Lookup (str ''onlyAcc'') (\<lambda>v c. c\<lparr>onlyAcc := v\<rparr>),
      Lookup (str ''bondMode'') (\<lambda>v c. c\<lparr>bondMode := v\<rparr>),
      Lookup (str ''statistics'') (\<lambda>v c. c\<lparr>statistics := v\<rparr>),
      Lookup (str ''meshBw'') (\<lambda>v c. c\<lparr>meshBw := v\<rparr>),
      Lookup (str ''connectMode'') (\<lambda>v c. c\<lparr>connectMode := v\<rparr>),
      Lookup (str ''timerInterval'') (\<lambda>v c. c\<lparr>timerInterval := v\<rparr>),
      Lookup (str ''sleepMs'') (\<lambda>v c. c\<lparr>sleepMs := v\<rparr>),
      Lookup (str ''gatewayBw'') (\<lambda>v c. c\<lparr>gatewayBw := v\<rparr>)]"

definition net_settings :: "setting_read list" where
  "net_settings =
     [LookupString (str ''devName'') (\<lambda>v c. c\<lparr>devName := v\<rparr>),
      LookupString (str ''macAddr'') (\<lambda>v c. c\<lparr>macAddr := v\<rparr>),
      LookupString (str ''venderID'') (\<lambda>v c. c\<lparr>venderID := v\<rparr>),
      LookupString (str ''userIP'') (\<lambda>v c. c\<lparr>userIP := v\<rparr>),
      Lookup (str ''netMask'') (\<lambda>v c. c\<lparr>netMask := v\<rparr>),
      LookupString (str ''outDevNameMaster'') (\<lambda>v c. c\<lparr>out_dev_name_master := v\<rparr>),
      LookupString (str ''outDevNameSlave'') (\<lambda>v c. c\<lparr>out_dev_name_slave := v\<rparr>)]"

definition file_settings :: "setting_read list" where
  "file_settings =
     [LookupString (str ''upCmd'') (\<lambda>v c. c\<lparr>upCmd := v\<rparr>),
      LookupString (str ''downCmd'') (\<lambda>v c. c\<lparr>downCmd := v\<rparr>),
      LookupString (str ''logFile'') (\<lambda>v c. c\<lparr>logFile := v\<rparr>),
      LookupString (str ''statFile'') (\<lambda>v c. c\<lparr>statFile := v\<rparr>),
      LookupString (str ''meshFile'') (\<lambda>v c. c\<lparr>meshFile := v\<rparr>),
      LookupString (str ''encrypt'') (\<lambda>v c. c\<lparr>encrypt := v\<rparr>),
      LookupUint (str ''debug'') (\<lambda>v c. c\<lparr>debug := v\<rparr>),
      LookupUint (str ''thread'') (\<lambda>v c. c\<lparr>thread := v\<rparr>)]"

text \<open>One element of the tunnel list; an element that lacks one of the six fields is skipped.\<close>

definition read_tunnel :: "('s \<Rightarrow> bytes \<Rightarrow> bytes option) \<Rightarrow> 's \<Rightarrow> TunnelInfo option" where
  "read_tunnel get t =
     (case (get t (str ''local_ip''), get t (str ''server_ip''), get t (str ''server_port''),
            get t (str ''up_bandwidth''), get t (str ''down_bandwidth''), get t (str ''priority'')) of
        (Some l, Some s, Some p, Some u, Some d, Some r) \<Rightarrow>
          Some \<lparr>local_ip = l, server_ip = s, server_port = p, up_bw = u, down_bw = d, priority = r\<rparr>
      | _ \<Rightarrow> None)"

fun push_tunnels :: "('s \<Rightarrow> bytes \<Rightarrow> bytes option) \<Rightarrow> 's list \<Rightarrow> mzConfig \<Rightarrow> mzConfig" where
  "push_tunnels get [] c = c"
| "push_tunnels get (t # ts) c =
     (case read_tunnel get t of
        None \<Rightarrow> push_tunnels get ts c
      | Some info \<Rightarrow> push_tunnels get ts (c\<lparr>tunnelList := tunnelList c @ [info]\<rparr>))"

definition read_tunnel_list :: "('c, 's) libconfig \<Rightarrow> 'c \<Rightarrow> mzConfig \<Rightarrow> mzConfig" where
  "read_tunnel_list lib cfg c =
     (case tunnel_settings lib cfg of
        None \<Rightarrow> c
      | Some ts \<Rightarrow> push_tunnels (field lib) ts c)"

text \<open>\<open>loadConfig\<close>: the return value (0, or \<open>EXIT_FAILURE\<close> = 1) with the settings afterwards.\<close>

definition loadConfig :: "('c, 's) libconfig \<Rightarrow> bytes \<Rightarrow> mzConfig \<Rightarrow> (int \<times> mzConfig) run" where
  "loadConfig lib fileName c =
     (let c0 = (if confPath c = [] then c\<lparr>confPath := c_str fileName\<rparr> else c) in
      case readFile lib (c_str fileName) of
        ReadIOError \<Rightarrow> Goes (1, c0) []
      | ReadParseError \<Rightarrow> Goes (1, c0) []
      | ReadOk cfg \<Rightarrow>
          run_then (read_settings lib cfg (mode_settings @ net_settings @ file_settings) c0)
            (\<lambda>c1. Goes (0, read_tunnel_list lib cfg c1) []))"

definition reload :: "('c, 's) libconfig \<Rightarrow> mzConfig \<Rightarrow> mzConfig run" where
  "reload lib c =
     (if confPath c = [] then Goes c []
      else run_then (loadConfig lib (confPath c) (reset c)) (\<lambda>(ret, c'). Goes c' []))"

text \<open>
  \<open>setMacAddr\<close>: the return value and, when the file could be read, the tree that is written
  back. The field \<open>macAddr\<close> of the object is not assigned.
\<close>

definition setMacAddr :: "('c, 's) libconfig \<Rightarrow> bytes \<Rightarrow> mzConfig \<Rightarrow> int \<times> (bytes \<times> 'c) option" where
  "setMacAddr lib mac c =
     (case readFile lib (confPath c) of
        ReadIOError \<Rightarrow> (1, None)
      | ReadParseError \<Rightarrow> (1, None)
      | ReadOk cfg \<Rightarrow>
          (let cfg' = set_string lib cfg (str ''macAddr'') mac in
           if writeFile lib (confPath c) cfg' then (0, Some (confPath c, cfg'))
           else (1, Some (confPath c, cfg'))))"

section \<open>What a load assigns\<close>

text \<open>The effect of a block that does not terminate the process.\<close>

fun apply_setting :: "('c, 's) libconfig \<Rightarrow> 'c \<Rightarrow> setting_read \<Rightarrow> mzConfig \<Rightarrow> mzConfig" where
  "apply_setting lib cfg (Lookup name upd) c =
     (case lookup lib cfg name of Found v \<Rightarrow> upd v c | NotFound \<Rightarrow> c | WrongType \<Rightarrow> c)"
| "apply_setting lib cfg (LookupString name upd) c =
     (case lookupValue_string lib cfg name of None \<Rightarrow> c | Some v \<Rightarrow> upd v c)"
| "apply_setting lib cfg (LookupUint name upd) c =
     (case lookupValue_uint lib cfg name of None \<Rightarrow> c | Some v \<Rightarrow> upd v c)"

fun mistyped :: "('c, 's) libconfig \<Rightarrow> 'c \<Rightarrow> setting_read \<Rightarrow> bool" where
  "mistyped lib cfg (Lookup name upd) = (lookup lib cfg name = WrongType)"
| "mistyped lib cfg r = False"

lemma read_setting_cases:
  "read_setting lib cfg r c =
     (if mistyped lib cfg r then Stops Abort [] else Goes (apply_setting lib cfg r c) [])"
  by (cases r) (auto split: looked.splits option.splits)

lemma read_settings_cases:
  "read_settings lib cfg rs c =
     (if \<exists>r\<in>set rs. mistyped lib cfg r then Stops Abort [] else Goes (fold (apply_setting lib cfg) rs c) [])"
  by (induction rs arbitrary: c) (auto simp: read_setting_cases)

lemma push_tunnels_eq:
  "push_tunnels get ts c = c\<lparr>tunnelList := tunnelList c @ List.map_filter (read_tunnel get) ts\<rparr>"
  by (induction ts arbitrary: c) (auto simp: map_filter_simps split: option.splits)

text \<open>The tunnels a file describes, and the settings \<open>loadConfig\<close> asks for with \<open>lookup\<close>.\<close>

definition file_tunnels :: "('c, 's) libconfig \<Rightarrow> 'c \<Rightarrow> TunnelInfo list" where
  "file_tunnels lib cfg =
     (case tunnel_settings lib cfg of None \<Rightarrow> [] | Some ts \<Rightarrow> List.map_filter (read_tunnel (field lib)) ts)"

lemma read_tunnel_list_eq:
  "read_tunnel_list lib cfg c = c\<lparr>tunnelList := tunnelList c @ file_tunnels lib cfg\<rparr>"
  by (simp add: read_tunnel_list_def file_tunnels_def push_tunnels_eq split: option.splits)

abbreviation all_settings :: "setting_read list" where
  "all_settings \<equiv> mode_settings @ net_settings @ file_settings"

lemma loadConfig_ok:
  "readFile lib (c_str f) = ReadOk cfg \<Longrightarrow>
   loadConfig lib f c =
     (if \<exists>r\<in>set all_settings. mistyped lib cfg r then Stops Abort []
      else Goes (0, read_tunnel_list lib cfg
             (fold (apply_setting lib cfg) all_settings
                (if confPath c = [] then c\<lparr>confPath := c_str f\<rparr> else c))) [])"
  by (simp only: loadConfig_def Let_def read_settings_cases read_result.case) simp

lemma loadConfig_error:
  "\<nexists>cfg. readFile lib (c_str f) = ReadOk cfg \<Longrightarrow>
   loadConfig lib f c = Goes (1, if confPath c = [] then c\<lparr>confPath := c_str f\<rparr> else c) []"
  by (cases "readFile lib (c_str f)") (simp_all add: loadConfig_def Let_def)

text \<open>The value of a field: what the file has, or what the field was.\<close>

definition uint_or :: "('c, 's) libconfig \<Rightarrow> 'c \<Rightarrow> bytes \<Rightarrow> u32 \<Rightarrow> u32" where
  "uint_or lib cfg name old = (case lookup lib cfg name of Found v \<Rightarrow> v | NotFound \<Rightarrow> old | WrongType \<Rightarrow> old)"

definition string_or :: "('c, 's) libconfig \<Rightarrow> 'c \<Rightarrow> bytes \<Rightarrow> bytes \<Rightarrow> bytes" where
  "string_or lib cfg name old = (case lookupValue_string lib cfg name of None \<Rightarrow> old | Some v \<Rightarrow> v)"

definition value_or :: "('c, 's) libconfig \<Rightarrow> 'c \<Rightarrow> bytes \<Rightarrow> u32 \<Rightarrow> u32" where
  "value_or lib cfg name old = (case lookupValue_uint lib cfg name of None \<Rightarrow> old | Some v \<Rightarrow> v)"

lemma apply_setting_fields [conf_simps]:
  "apply_setting lib cfg (Lookup n (\<lambda>v c. c\<lparr>userID := v\<rparr>)) c = c\<lparr>userID := uint_or lib cfg n (userID c)\<rparr>"
  "apply_setting lib cfg (Lookup n (\<lambda>v c. c\<lparr>gateWay := v\<rparr>)) c = c\<lparr>gateWay := uint_or lib cfg n (gateWay c)\<rparr>"
  "apply_setting lib cfg (Lookup n (\<lambda>v c. c\<lparr>tapMode := v\<rparr>)) c = c\<lparr>tapMode := uint_or lib cfg n (tapMode c)\<rparr>"
  "apply_setting lib cfg (Lookup n (\<lambda>v c. c\<lparr>onlyAcc := v\<rparr>)) c = c\<lparr>onlyAcc := uint_or lib cfg n (onlyAcc c)\<rparr>"
  "apply_setting lib cfg (Lookup n (\<lambda>v c. c\<lparr>bondMode := v\<rparr>)) c = c\<lparr>bondMode := uint_or lib cfg n (bondMode c)\<rparr>"
  "apply_setting lib cfg (Lookup n (\<lambda>v c. c\<lparr>statistics := v\<rparr>)) c = c\<lparr>statistics := uint_or lib cfg n (statistics c)\<rparr>"
  "apply_setting lib cfg (Lookup n (\<lambda>v c. c\<lparr>meshBw := v\<rparr>)) c = c\<lparr>meshBw := uint_or lib cfg n (meshBw c)\<rparr>"
  "apply_setting lib cfg (Lookup n (\<lambda>v c. c\<lparr>connectMode := v\<rparr>)) c = c\<lparr>connectMode := uint_or lib cfg n (connectMode c)\<rparr>"
  "apply_setting lib cfg (Lookup n (\<lambda>v c. c\<lparr>timerInterval := v\<rparr>)) c = c\<lparr>timerInterval := uint_or lib cfg n (timerInterval c)\<rparr>"
  "apply_setting lib cfg (Lookup n (\<lambda>v c. c\<lparr>sleepMs := v\<rparr>)) c = c\<lparr>sleepMs := uint_or lib cfg n (sleepMs c)\<rparr>"
  "apply_setting lib cfg (Lookup n (\<lambda>v c. c\<lparr>gatewayBw := v\<rparr>)) c = c\<lparr>gatewayBw := uint_or lib cfg n (gatewayBw c)\<rparr>"
  "apply_setting lib cfg (Lookup n (\<lambda>v c. c\<lparr>netMask := v\<rparr>)) c = c\<lparr>netMask := uint_or lib cfg n (netMask c)\<rparr>"
  "apply_setting lib cfg (LookupString n (\<lambda>v c. c\<lparr>devName := v\<rparr>)) c = c\<lparr>devName := string_or lib cfg n (devName c)\<rparr>"
  "apply_setting lib cfg (LookupString n (\<lambda>v c. c\<lparr>macAddr := v\<rparr>)) c = c\<lparr>macAddr := string_or lib cfg n (macAddr c)\<rparr>"
  "apply_setting lib cfg (LookupString n (\<lambda>v c. c\<lparr>venderID := v\<rparr>)) c = c\<lparr>venderID := string_or lib cfg n (venderID c)\<rparr>"
  "apply_setting lib cfg (LookupString n (\<lambda>v c. c\<lparr>userIP := v\<rparr>)) c = c\<lparr>userIP := string_or lib cfg n (userIP c)\<rparr>"
  "apply_setting lib cfg (LookupString n (\<lambda>v c. c\<lparr>out_dev_name_master := v\<rparr>)) c = c\<lparr>out_dev_name_master := string_or lib cfg n (out_dev_name_master c)\<rparr>"
  "apply_setting lib cfg (LookupString n (\<lambda>v c. c\<lparr>out_dev_name_slave := v\<rparr>)) c = c\<lparr>out_dev_name_slave := string_or lib cfg n (out_dev_name_slave c)\<rparr>"
  "apply_setting lib cfg (LookupString n (\<lambda>v c. c\<lparr>upCmd := v\<rparr>)) c = c\<lparr>upCmd := string_or lib cfg n (upCmd c)\<rparr>"
  "apply_setting lib cfg (LookupString n (\<lambda>v c. c\<lparr>downCmd := v\<rparr>)) c = c\<lparr>downCmd := string_or lib cfg n (downCmd c)\<rparr>"
  "apply_setting lib cfg (LookupString n (\<lambda>v c. c\<lparr>logFile := v\<rparr>)) c = c\<lparr>logFile := string_or lib cfg n (logFile c)\<rparr>"
  "apply_setting lib cfg (LookupString n (\<lambda>v c. c\<lparr>statFile := v\<rparr>)) c = c\<lparr>statFile := string_or lib cfg n (statFile c)\<rparr>"
  "apply_setting lib cfg (LookupString n (\<lambda>v c. c\<lparr>meshFile := v\<rparr>)) c = c\<lparr>meshFile := string_or lib cfg n (meshFile c)\<rparr>"
  "apply_setting lib cfg (LookupString n (\<lambda>v c. c\<lparr>encrypt := v\<rparr>)) c = c\<lparr>encrypt := string_or lib cfg n (encrypt c)\<rparr>"
  "apply_setting lib cfg (LookupUint n (\<lambda>v c. c\<lparr>debug := v\<rparr>)) c = c\<lparr>debug := value_or lib cfg n (debug c)\<rparr>"
  "apply_setting lib cfg (LookupUint n (\<lambda>v c. c\<lparr>thread := v\<rparr>)) c = c\<lparr>thread := value_or lib cfg n (thread c)\<rparr>"
  by (simp_all add: uint_or_def string_or_def value_or_def split: looked.split option.split)

lemma apply_settings_eq:
  "fold (apply_setting lib cfg) all_settings c = c\<lparr>
     userID := uint_or lib cfg (str ''userID'') (userID c),
     gateWay := uint_or lib cfg (str ''gateWay'') (gateWay c),
     tapMode := uint_or lib cfg (str ''tapMode'') (tapMode c),
     onlyAcc := uint_or lib cfg (str ''onlyAcc'') (onlyAcc c),
     bondMode := uint_or lib cfg (str ''bondMode'') (bondMode c),
     statistics := uint_or lib cfg (str ''statistics'') (statistics c),
     meshBw := uint_or lib cfg (str ''meshBw'') (meshBw c),
     connectMode := uint_or lib cfg (str ''connectMode'') (connectMode c),
     timerInterval := uint_or lib cfg (str ''timerInterval'') (timerInterval c),
     sleepMs := uint_or lib cfg (str ''sleepMs'') (sleepMs c),
     gatewayBw := uint_or lib cfg (str ''gatewayBw'') (gatewayBw c),
     devName := string_or lib cfg (str ''devName'') (devName c),
     macAddr := string_or lib cfg (str ''macAddr'') (macAddr c),
     venderID := string_or lib cfg (str ''venderID'') (venderID c),
     userIP := string_or lib cfg (str ''userIP'') (userIP c),
     netMask := uint_or lib cfg (str ''netMask'') (netMask c),
     out_dev_name_master := string_or lib cfg (str ''outDevNameMaster'') (out_dev_name_master c),
     out_dev_name_slave := string_or lib cfg (str ''outDevNameSlave'') (out_dev_name_slave c),
     upCmd := string_or lib cfg (str ''upCmd'') (upCmd c),
     downCmd := string_or lib cfg (str ''downCmd'') (downCmd c),
     logFile := string_or lib cfg (str ''logFile'') (logFile c),
     statFile := string_or lib cfg (str ''statFile'') (statFile c),
     meshFile := string_or lib cfg (str ''meshFile'') (meshFile c),
     encrypt := string_or lib cfg (str ''encrypt'') (encrypt c),
     debug := value_or lib cfg (str ''debug'') (debug c),
     thread := value_or lib cfg (str ''thread'') (thread c)\<rparr>"
  by (simp add: mode_settings_def net_settings_def file_settings_def conf_simps
      del: apply_setting.simps str_Cons)

text \<open>The state a successful load leaves, in closed form.\<close>

lemma loadConfig_state:
  assumes "readFile lib (c_str f) = ReadOk cfg" "loadConfig lib f c = Goes r es"
  shows "r = (0, read_tunnel_list lib cfg (fold (apply_setting lib cfg) all_settings
           (if confPath c = [] then c\<lparr>confPath := c_str f\<rparr> else c))) \<and> es = []"
  using assms(2) unfolding loadConfig_ok [OF assms(1)] by (simp split: if_splits)

lemma loadConfig_no_events: "loadConfig lib f c = Goes r es \<Longrightarrow> es = []"
proof -
  assume l: "loadConfig lib f c = Goes r es"
  show "es = []"
  proof (cases "\<exists>cfg. readFile lib (c_str f) = ReadOk cfg")
    case True
    then obtain cfg where "readFile lib (c_str f) = ReadOk cfg" ..
    from conjunct2 [OF loadConfig_state [OF this l]] show ?thesis .
  next
    case False
    from loadConfig_error [OF this, of c] l show ?thesis by simp
  qed
qed

text \<open>The settings that are asked for with \<open>lookup\<close>.\<close>

definition lookup_names :: "bytes list" where
  "lookup_names = [str ''userID'', str ''gateWay'', str ''tapMode'', str ''onlyAcc'', str ''bondMode'',
     str ''statistics'', str ''meshBw'', str ''connectMode'', str ''timerInterval'', str ''sleepMs'',
     str ''gatewayBw'', str ''netMask'']"

lemma mistyped_names:
  "(\<exists>r\<in>set all_settings. mistyped lib cfg r) \<longleftrightarrow> (\<exists>name\<in>set lookup_names. lookup lib cfg name = WrongType)"
  by (simp add: mode_settings_def net_settings_def file_settings_def lookup_names_def disj_assoc del: str_Cons)

text \<open>
  Property C16: what loading a readable file does, completely. If one of the twelve settings that are
  asked for with \<open>lookup\<close> is there with another type the process ends. Otherwise each of the 26
  settings gives its field the value, and the field keeps its value where the file has none; the
  complete tunnels of the file are appended, the path is remembered if there was none, and nothing
  else changes: not the packet size, the servers or the mesh nodes.
\<close>

theorem loadConfig_values:
  assumes "readFile lib (c_str f) = ReadOk cfg"
  shows "loadConfig lib f c =
    (if \<exists>name\<in>set lookup_names. lookup lib cfg name = WrongType then Stops Abort []
     else Goes (0, c\<lparr>
         userID := uint_or lib cfg (str ''userID'') (userID c),
         gateWay := uint_or lib cfg (str ''gateWay'') (gateWay c),
         tapMode := uint_or lib cfg (str ''tapMode'') (tapMode c),
         onlyAcc := uint_or lib cfg (str ''onlyAcc'') (onlyAcc c),
         bondMode := uint_or lib cfg (str ''bondMode'') (bondMode c),
         statistics := uint_or lib cfg (str ''statistics'') (statistics c),
         meshBw := uint_or lib cfg (str ''meshBw'') (meshBw c),
         connectMode := uint_or lib cfg (str ''connectMode'') (connectMode c),
         timerInterval := uint_or lib cfg (str ''timerInterval'') (timerInterval c),
         sleepMs := uint_or lib cfg (str ''sleepMs'') (sleepMs c),
         gatewayBw := uint_or lib cfg (str ''gatewayBw'') (gatewayBw c),
         devName := string_or lib cfg (str ''devName'') (devName c),
         macAddr := string_or lib cfg (str ''macAddr'') (macAddr c),
         venderID := string_or lib cfg (str ''venderID'') (venderID c),
         userIP := string_or lib cfg (str ''userIP'') (userIP c),
         netMask := uint_or lib cfg (str ''netMask'') (netMask c),
         out_dev_name_master := string_or lib cfg (str ''outDevNameMaster'') (out_dev_name_master c),
         out_dev_name_slave := string_or lib cfg (str ''outDevNameSlave'') (out_dev_name_slave c),
         upCmd := string_or lib cfg (str ''upCmd'') (upCmd c),
         downCmd := string_or lib cfg (str ''downCmd'') (downCmd c),
         logFile := string_or lib cfg (str ''logFile'') (logFile c),
         statFile := string_or lib cfg (str ''statFile'') (statFile c),
         meshFile := string_or lib cfg (str ''meshFile'') (meshFile c),
         encrypt := string_or lib cfg (str ''encrypt'') (encrypt c),
         debug := value_or lib cfg (str ''debug'') (debug c),
         thread := value_or lib cfg (str ''thread'') (thread c),
         tunnelList := tunnelList c @ file_tunnels lib cfg,
         confPath := (if confPath c = [] then c_str f else confPath c)\<rparr>) [])"
proof -
  let ?c = "if confPath c = [] then c\<lparr>confPath := c_str f\<rparr> else c"
  show ?thesis
    unfolding loadConfig_ok [OF assms] mistyped_names apply_settings_eq read_tunnel_list_eq
    by (cases "confPath c = []") (simp_all del: str_Cons)
qed

text \<open>A file with three settings and one complete tunnel, for the witnesses.\<close>

definition example_lib :: "(unit, nat) libconfig" where
  "example_lib = \<lparr>
     readFile = (\<lambda>path. if path = str ''a'' then ReadOk () else ReadIOError),
     lookup = (\<lambda>_ name. if name = str ''tapMode'' then Found 1 else NotFound),
     lookupValue_string = (\<lambda>_ name. if name = str ''macAddr'' then Some (str ''m'') else None),
     lookupValue_uint = (\<lambda>_ name. None),
     tunnel_settings = (\<lambda>_. Some [0, 1]),
     field = (\<lambda>t name. if t = 0 then Some (str ''7'') else None),
     set_string = (\<lambda>cfg _ _. cfg),
     writeFile = (\<lambda>_ _. True)\<rparr>"

lemma example_not_mistyped: "\<not> mistyped example_lib cfg r"
  by (cases r) (simp_all add: example_lib_def)

lemma example_loads: "\<exists>c'. loadConfig example_lib (str ''a'') c = Goes (0, c') []"
proof -
  have "readFile example_lib (c_str (str ''a'')) = ReadOk ()"
    by (simp add: example_lib_def c_str_def)
  then show ?thesis by (simp add: loadConfig_ok example_not_mistyped)
qed

theorem loadConfig_values_witness:
  "\<exists>c'. loadConfig example_lib (str ''a'') new_mzConfig = Goes (0, c') [] \<and> tapMode c' = 1 \<and>
     macAddr c' = str ''m'' \<and> netMask c' = 24 \<and> sleepMs c' = 10 \<and> length (tunnelList c') = 1"
proof -
  have "readFile example_lib (c_str (str ''a'')) = ReadOk ()"
    by (simp add: example_lib_def c_str_def)
  note v = loadConfig_values [OF this, of new_mzConfig]
  have "\<not> (\<exists>name\<in>set lookup_names. lookup example_lib () name = WrongType)"
    by (simp add: example_lib_def)
  with v show ?thesis
    by (simp add: uint_or_def string_or_def example_lib_def new_mzConfig_def reset_def
        file_tunnels_def map_filter_simps read_tunnel_def)
qed

section \<open>Reloading\<close>

lemma reset_frame [frame_simps]:
  "tunnelList (reset c) = tunnelList c" "serverList (reset c) = serverList c"
  "nodeInfoList (reset c) = nodeInfoList c" "confPath (reset c) = confPath c"
  "macAddr (reset c) = macAddr c" "venderID (reset c) = venderID c"
  "out_dev_name_master (reset c) = out_dev_name_master c"
  "out_dev_name_slave (reset c) = out_dev_name_slave c"
  by (simp_all add: reset_def)

lemma reset_reset [simp]: "reset (reset c) = reset c"
  by (simp add: reset_def)

text \<open>
  Reloading a readable file restarts the settings from their defaults, but not the
  tunnel list: the tunnels of the file are appended to those that were read before, so that
  every reload of an unchanged file repeats them.
\<close>

theorem reload_repeats_tunnels:
  assumes "confPath c \<noteq> []" "readFile lib (c_str (confPath c)) = ReadOk cfg"
    and "\<forall>r\<in>set all_settings. \<not> mistyped lib cfg r"
  shows "\<exists>c'. reload lib c = Goes c' [] \<and>
     tapMode c' = uint_or lib cfg (str ''tapMode'') 0 \<and>
     netMask c' = uint_or lib cfg (str ''netMask'') 24 \<and>
     macAddr c' = string_or lib cfg (str ''macAddr'') (macAddr c) \<and>
     tunnelList c' = tunnelList c @ file_tunnels lib cfg \<and>
     (\<exists>c''. reload lib c' = Goes c'' [] \<and>
        tunnelList c'' = tunnelList c @ file_tunnels lib cfg @ file_tunnels lib cfg)"
proof -
  have once: "\<exists>d'. reload lib d = Goes d' [] \<and> confPath d' = confPath d \<and>
     tapMode d' = uint_or lib cfg (str ''tapMode'') 0 \<and>
     netMask d' = uint_or lib cfg (str ''netMask'') 24 \<and>
     macAddr d' = string_or lib cfg (str ''macAddr'') (macAddr d) \<and>
     tunnelList d' = tunnelList d @ file_tunnels lib cfg" if d: "confPath d = confPath c" for d
  proof -
    have "reload lib d = Goes (read_tunnel_list lib cfg (fold (apply_setting lib cfg) all_settings (reset d))) []"
      unfolding reload_def d loadConfig_ok [OF assms(2)] reset_frame using assms by simp
    then show ?thesis
      unfolding apply_settings_eq read_tunnel_list_eq
      by (simp add: reset_def del: str_Cons)
  qed
  obtain c' where c': "reload lib c = Goes c' []" "confPath c' = confPath c"
    "tapMode c' = uint_or lib cfg (str ''tapMode'') 0"
    "netMask c' = uint_or lib cfg (str ''netMask'') 24"
    "macAddr c' = string_or lib cfg (str ''macAddr'') (macAddr c)"
    "tunnelList c' = tunnelList c @ file_tunnels lib cfg"
    using once [OF refl] by blast
  obtain c'' where "reload lib c' = Goes c'' []" "tunnelList c'' = tunnelList c' @ file_tunnels lib cfg"
    using once [OF c'(2)] by blast
  with c' show ?thesis by auto
qed

theorem reload_repeats_tunnels_witness:
  "\<exists>c' c''. reload example_lib (new_mzConfig\<lparr>confPath := str ''a''\<rparr>) = Goes c' [] \<and>
     reload example_lib c' = Goes c'' [] \<and> length (tunnelList c'') = 2"
proof -
  have ne: "confPath (new_mzConfig\<lparr>confPath := str ''a''\<rparr>) \<noteq> []" by simp
  have ok: "readFile example_lib (c_str (confPath (new_mzConfig\<lparr>confPath := str ''a''\<rparr>))) = ReadOk ()"
    by (simp add: example_lib_def c_str_def)
  from reload_repeats_tunnels [OF ne ok] example_not_mistyped obtain c' c'' where
    "reload example_lib (new_mzConfig\<lparr>confPath := str ''a''\<rparr>) = Goes c' []"
    "reload example_lib c' = Goes c'' []"
    "tunnelList c'' = tunnelList (new_mzConfig\<lparr>confPath := str ''a''\<rparr>) @
       file_tunnels example_lib () @ file_tunnels example_lib ()" by blast
  then show ?thesis
    by (auto simp: new_mzConfig_def reset_def file_tunnels_def example_lib_def
        map_filter_simps read_tunnel_def)
qed

text \<open>
  Reloading a file that cannot be opened or parsed is not an error to the caller,
  and leaves the defaults in place of the settings the process was running with.
\<close>

theorem reload_unreadable:
  assumes "\<nexists>cfg. readFile lib (c_str (confPath c)) = ReadOk cfg" "confPath c \<noteq> []"
  shows "reload lib c = Goes (reset c) []"
  using assms by (simp add: reload_def frame_simps loadConfig_error)

theorem reload_unreadable_witness:
  "reload example_lib (new_mzConfig\<lparr>confPath := str ''b'', tapMode := 1\<rparr>) =
     Goes (reset (new_mzConfig\<lparr>confPath := str ''b'', tapMode := 1\<rparr>)) []"
  by (rule reload_unreadable) (simp_all add: example_lib_def c_str_def)

section \<open>The stored hardware address\<close>

text \<open>
  Property C18: the hardware address that \<open>setMacAddr\<close> stores successfully is the one any later load of the
  file finds, by whatever settings object, where the library returns the string \<open>macAddr\<close> that was
  set in the tree of the file, and reads back the tree it wrote; where the file cannot be read
  nothing is written, and the answer is 1.
\<close>

theorem setMacAddr_loadConfig:
  assumes path: "c_str (confPath c) = confPath c"
    and set_get: "\<And>t. readFile lib (confPath c) = ReadOk t \<Longrightarrow>
      lookupValue_string lib (set_string lib t (str ''macAddr'') mac) (str ''macAddr'') = Some mac"
  shows "(\<forall>p cfg' ret d d' es. setMacAddr lib mac c = (0, Some (p, cfg')) \<longrightarrow>
      loadConfig (lib\<lparr>readFile := (readFile lib)(p := ReadOk cfg')\<rparr>) (confPath c) d = Goes (ret, d') es \<longrightarrow>
      ret = 0 \<and> macAddr d' = mac) \<and>
    ((\<forall>t. readFile lib (confPath c) \<noteq> ReadOk t) \<longrightarrow> setMacAddr lib mac c = (1, None))"
proof (intro conjI allI impI)
  fix p cfg' ret d d' es
  let ?lib = "lib\<lparr>readFile := (readFile lib)(p := ReadOk cfg')\<rparr>"
  assume stored: "setMacAddr lib mac c = (0, Some (p, cfg'))"
    and load: "loadConfig ?lib (confPath c) d = Goes (ret, d') es"
  obtain t where t: "p = confPath c" "readFile lib (confPath c) = ReadOk t"
      "cfg' = set_string lib t (str ''macAddr'') mac"
    using stored by (auto simp: setMacAddr_def Let_def split: read_result.splits if_splits)
  have read: "readFile ?lib (c_str (confPath c)) = ReadOk cfg'" using t(1) path by simp
  have "string_or ?lib cfg' (str ''macAddr'') old = mac" for old
    using set_get [OF t(2)] unfolding string_or_def t(3) by simp
  with loadConfig_state [OF read load] show "ret = 0" "macAddr d' = mac"
    unfolding apply_settings_eq read_tunnel_list_eq by (simp_all del: str_Cons)
next
  assume "\<forall>t. readFile lib (confPath c) \<noteq> ReadOk t"
  then show "setMacAddr lib mac c = (1, None)"
    by (cases "readFile lib (confPath c)") (simp_all add: setMacAddr_def)
qed

text \<open>A library whose trees are the lists of their string settings.\<close>

definition tree_lib :: "(bytes \<Rightarrow> (bytes \<Rightarrow> bytes option) read_result) \<Rightarrow> (bytes \<Rightarrow> bytes option, unit) libconfig" where
  "tree_lib files = \<lparr>
     readFile = files, lookup = (\<lambda>_ _. NotFound), lookupValue_string = (\<lambda>t name. t name),
     lookupValue_uint = (\<lambda>_ _. None), tunnel_settings = (\<lambda>_. None), field = (\<lambda>_ _. None),
     set_string = (\<lambda>t name v. t(name \<mapsto> v)), writeFile = (\<lambda>_ _. True)\<rparr>"

lemma tree_lib_not_mistyped: "\<not> mistyped (tree_lib files) t r"
  by (cases r) (simp_all add: tree_lib_def)

theorem setMacAddr_loadConfig_witness:
  "\<exists>t d'. setMacAddr (tree_lib (\<lambda>_. ReadOk Map.empty)) (str ''m'') (new_mzConfig\<lparr>confPath := str ''p''\<rparr>) =
       (0, Some (str ''p'', t)) \<and>
     loadConfig (tree_lib ((\<lambda>_. ReadOk Map.empty)(str ''p'' := ReadOk t))) (str ''p'') new_mzConfig = Goes (0, d') [] \<and>
     macAddr d' = str ''m''"
proof -
  let ?p = "str ''p''" and ?c = "new_mzConfig\<lparr>confPath := str ''p''\<rparr>"
  let ?lib = "tree_lib (\<lambda>_. ReadOk Map.empty)" and ?t = "[str ''macAddr'' \<mapsto> str ''m'']"
  let ?lib' = "?lib\<lparr>readFile := (readFile ?lib)(?p := ReadOk ?t)\<rparr>"
  have s: "setMacAddr ?lib (str ''m'') ?c = (0, Some (?p, ?t))"
    by (simp add: setMacAddr_def tree_lib_def)
  have c: "c_str (confPath ?c) = confPath ?c" "confPath ?c = ?p" by (simp_all add: c_str_def)
  have lib': "?lib' = tree_lib ((\<lambda>_. ReadOk Map.empty)(?p := ReadOk ?t))"
    by (simp add: tree_lib_def)
  have p: "c_str ?p = ?p" by (simp add: c_str_def)
  have read: "readFile ?lib' (c_str ?p) = ReadOk ?t" unfolding lib' p by (simp add: tree_lib_def del: str_Cons)
  obtain d' where l: "loadConfig ?lib' ?p new_mzConfig = Goes (0, d') []"
    using loadConfig_ok [OF read, of new_mzConfig] unfolding lib' by (simp add: tree_lib_not_mistyped)
  have "lookupValue_string ?lib (set_string ?lib t (str ''macAddr'') (str ''m'')) (str ''macAddr'') = Some (str ''m'')" for t
    by (simp add: tree_lib_def)
  note sg = this
  from setMacAddr_loadConfig [OF c(1) sg] s l have "macAddr d' = str ''m''" unfolding c(2) by blast
  with s l lib' show ?thesis by metis
qed

text \<open>
  Cutting a list of non-empty parts joined with a separator gives the parts.
\<close>

theorem split_str_join:
  assumes "\<forall>x\<in>set xs. x \<noteq> [] \<and> sep \<notin> set x \<and> 0 \<notin> set x" "sep \<noteq> 0"
  shows "split_str (join sep xs) [sep] = xs"
proof -
  have "0 \<notin> set (join sep xs)"
    using assms by (induction sep xs rule: join.induct) auto
  moreover have "0 \<notin> set [sep]" using assms(2) by simp
  ultimately show ?thesis
    unfolding split_str_def using assms(1) by (simp add: c_str_id strtok_all_join)
qed

theorem split_str_join_witness:
  "split_str (join 46 [str ''10'', str ''0'']) [46] = [str ''10'', str ''0'']"
  by (rule split_str_join) auto

end
