(* ===== verification/Routing.thy ===== *)
theory Routing
  imports MzConfig Util
begin

text \<open>
  The routing part of \<open>main/server.cpp\<close>: the table of mesh nodes built from the configuration,
  the look-up of a destination with its cache, the classification of the packets read from the
  tunnel device, the framing of packets to and from the peers, the kernel routes of the mesh
  subnets and the set-up of the device.
\<close>

section \<open>State\<close>

text \<open>
  Fields of \<open>cpeNode\<close> that no code assigns hold indeterminate values; they are \<open>None\<close> here and
  nothing reads them.
\<close>

record cpeNode =
  node_ID :: u32
  node_rea1_IP :: "u32 option"
  node_virtual_IP :: u32
  node_subnet_IP_low :: "u32 option"
  node_subnet_IP_high :: "u32 option"
  node_subnet :: bytes
  node_mac_addr :: bytes

text \<open>
  The members of \<open>Server\<close>. \<open>m_devname\<close> is what \<open>set_tun_name\<close> returns, the address of
  \<open>m_tun_tap_dev_name\<close>, so that the two are one field. Of the send callback only whether it has
  been registered matters. The loop, poll and signal handles are modelled with the wrappers.
\<close>

record server =
  m_tun_tap_dev_fd :: u32
  m_gateway_id :: u32
  m_tun_tap_dev_name :: bytes
  m_node_id :: bytes
  m_node :: cpeNode
  m_config :: mzConfig
  m_ip2nodeid_cache :: "u32 \<rightharpoonup> u32"
  m_cpes :: "cpeNode list"
  m_send_callback :: bool

abbreviation m_devname :: "server \<Rightarrow> bytes" where
  "m_devname \<equiv> m_tun_tap_dev_name"

definition register_send_func_callback :: "server \<Rightarrow> server" where
  "register_send_func_callback st = st\<lparr>m_send_callback := True\<rparr>"

definition set_gateway_id :: "u32 \<Rightarrow> server \<Rightarrow> server" where
  "set_gateway_id gid st = st\<lparr>m_gateway_id := gid\<rparr>"

section \<open>Prefixes\<close>

text \<open>\<open>std::to_string\<close> of an \<open>int\<close>.\<close>

definition to_string_int :: "u32 \<Rightarrow> bytes" where
  "to_string_int w =
     (if sint w < 0 then 45 # dec_digits (nat (- sint w)) else dec_digits (nat (sint w)))"

text \<open>The \<open>std::bitset\<close> of 32 ones with the lowest \<open>32 - netmask\<close> bits cleared one by one.\<close>

definition netmask_bits :: "nat \<Rightarrow> u32" where
  "netmask_bits netmask = fold unset_bit [0..<32 - netmask] 0xFFFFFFFF"

text \<open>
  One entry of a node's subnet list, \<open>address/bits\<close>: the three loops over it skip an entry
  that does not have two parts or whose length is above 32.
\<close>

definition parse_net :: "bytes \<Rightarrow> (bytes \<times> u32) option" where
  "parse_net net =
     (case split_str net (str ''/'') of
        [subnet, bits] \<Rightarrow>
          (let netmask = atoi bits in
           if 32 < netmask then None else Some (subnet, netmask_bits (unat netmask)))
      | _ \<Rightarrow> None)"

section \<open>Building the table\<close>

text \<open>
  One entry of the mesh configuration. The shift count is taken modulo 32, as x86 does; the
  value only reaches the two address bounds, which nothing but diagnostics reads.
\<close>

definition mesh_node :: "NodeInfo \<Rightarrow> cpeNode" where
  "mesh_node itor =
     (let ip_count = push_bit (unat ((32 - ni_netMask itor) AND 31)) 1 - 1;
          low = htonl (inet_addr (c_str (subNet itor)))
      in \<lparr>node_ID = nodeID itor, node_rea1_IP = None,
          node_virtual_IP = htonl (inet_addr (c_str (virtualIP itor))),
          node_subnet_IP_low = Some low, node_subnet_IP_high = Some (low + ip_count),
          node_subnet = subNet itor, node_mac_addr = ni_macAddr itor\<rparr>)"

definition init_mesh_cpes :: "server \<Rightarrow> server" where
  "init_mesh_cpes st = st\<lparr>m_cpes := map mesh_node (nodeInfoList (m_config st))\<rparr>"

definition init_local_node :: "server \<Rightarrow> server" where
  "init_local_node st =
     st\<lparr>m_node := (m_node st)\<lparr>node_ID := userID (m_config st),
          node_virtual_IP := htonl (inet_addr (c_str (userIP (m_config st))))\<rparr>\<rparr>"

section \<open>Finding a destination\<close>

fun match_nets :: "u32 \<Rightarrow> bytes list \<Rightarrow> bool" where
  "match_nets ip [] = False"
| "match_nets ip (net # nets) =
     (case parse_net net of
        None \<Rightarrow> match_nets ip nets
      | Some (subnet, nm) \<Rightarrow>
          if (ip AND nm) = htonl (inet_addr (c_str subnet)) then True else match_nets ip nets)"

fun find_node :: "bool \<Rightarrow> u32 \<Rightarrow> bytes \<Rightarrow> cpeNode list \<Rightarrow> u32 option" where
  "find_node tap ip mac [] = None"
| "find_node tap ip mac (node # nodes) =
     (if ip = node_virtual_IP node then Some (node_ID node)
      else if match_nets ip (split_str (node_subnet node) (str '','')) then Some (node_ID node)
      else if tap \<and> mac = node_mac_addr node then Some (node_ID node)
      else find_node tap ip mac nodes)"

definition getNodeIDFromIP :: "server \<Rightarrow> u32 \<Rightarrow> bytes \<Rightarrow> u32" where
  "getNodeIDFromIP st ip mac =
     (if onlyAcc (m_config st) = 1 then m_gateway_id st
      else case m_ip2nodeid_cache st ip of
        Some node_id \<Rightarrow> node_id
      | None \<Rightarrow>
          (case find_node (tapMode (m_config st) \<noteq> 0) ip mac (m_cpes st) of
             Some node_id \<Rightarrow> node_id
           | None \<Rightarrow> if gateWay (m_config st) = 0 then m_gateway_id st else 0))"

text \<open>The default argument of the hardware address.\<close>

definition no_mac :: bytes where
  "no_mac = str ''00:00:00:00:00:00''"

text \<open>Both packet handlers remember the nodes they find, under the address.\<close>

definition remember :: "u32 \<Rightarrow> u32 \<Rightarrow> server \<Rightarrow> server" where
  "remember ip destID st =
     (if destID \<noteq> 0 \<and> destID \<noteq> m_gateway_id st \<and> m_ip2nodeid_cache st ip = None
      then st\<lparr>m_ip2nodeid_cache := (m_ip2nodeid_cache st)(ip \<mapsto> destID)\<rparr> else st)"

text \<open>
  The packet handlers read at fixed offsets from a pointer into memory, whatever the length of
  the packet: a packet is the function from offsets to the bytes there.
\<close>

type_synonym memory = "nat \<Rightarrow> byte"

definition load16 :: "memory \<Rightarrow> nat \<Rightarrow> u16" where
  "load16 m i = load_le [m i, m (i + 1)]"

definition load32 :: "memory \<Rightarrow> nat \<Rightarrow> u32" where
  "load32 m i = load_le [m i, m (i + 1), m (i + 2), m (i + 3)]"

definition getDestIDFromTunPacket :: "memory \<Rightarrow> server \<Rightarrow> u32 \<times> server" where
  "getDestIDFromTunPacket packet st =
     (let dest_ip = htonl (load32 packet 16);
          destID = getNodeIDFromIP st dest_ip no_mac
      in (destID, remember dest_ip destID st))"

definition getDestIDFromTapPacket :: "memory \<Rightarrow> server \<Rightarrow> u32 \<times> server" where
  "getDestIDFromTapPacket packet st =
     (let dest_mac_addr = map packet [0..<6];
          proto = htons (load16 packet 12)
      in if proto = 0x0800 then
           (let dest_ip = htonl (load32 packet 30)
            in if dest_ip < 0xE0000000 then
                 (let destID = getNodeIDFromIP st dest_ip dest_mac_addr
                  in (destID, remember dest_ip destID st))
               else if dest_ip > 0xE0000000 \<and> dest_ip < 0xF0000000 then (0xFFFFFFFF, st)
               else if dest_ip > 0xF0000000 then (0xFFFFFFFF, st)
               else (0, st))
         else if proto = 0x0806 \<or> proto = 0x8035 \<or> proto = 0x8137 \<or> proto = 0x8863 \<or> proto = 0x8864
         then (0xFFFFFFFF, st)
         else (0, st))"

section \<open>Packets from the device\<close>

text \<open>
  The memory of a message: its bytes, the terminator of \<open>c_str()\<close>, then whatever the heap holds
  behind it. An empty send callback throws, which ends the process: the exception leaves a
  callback of the C event loop.
\<close>

definition msg_memory :: "memory \<Rightarrow> bytes \<Rightarrow> memory" where
  "msg_memory heap msg i =
     (if i < length msg then msg ! i else if i = length msg then 0 else heap i)"

definition handle_packet_from_dev :: "memory \<Rightarrow> bytes \<Rightarrow> server \<Rightarrow> server run" where
  "handle_packet_from_dev heap msg st =
     (let packet = (\<lambda>i. msg_memory heap msg (i + 4));
          (dest, st') =
            (if onlyAcc (m_config st) \<noteq> 0 then (m_gateway_id st, st)
             else if tapMode (m_config st) \<noteq> 0 then getDestIDFromTapPacket packet st
             else getDestIDFromTunPacket packet st)
      in if m_send_callback st' then Goes st' [SendPeer dest msg] else Stops Abort [])"

text \<open>
  \<open>on_read_tun_tap\<close>: \<open>buffer\<close> is the global packet buffer (\<open>None\<close> while the pointer is null, and
  then \<open>read\<close> fails), \<open>rd\<close> what \<open>read\<close> returned for 1500 bytes, \<open>None\<close> for an error. The length
  is put in front of the packet as a little-endian \<open>int\<close>. A packet that does not fit the buffer
  behind these four bytes is written beyond it.
\<close>

definition PACK_MTU :: nat where
  "PACK_MTU = 1500"

definition on_read_tun_tap ::
  "memory \<Rightarrow> bytes option \<Rightarrow> bytes option \<Rightarrow> server \<Rightarrow> (bytes option \<times> server) run" where
  "on_read_tun_tap heap buffer rd st =
     (case (buffer, rd) of
        (Some buf, Some packet) \<Rightarrow>
          (let bufread = length packet;
               buf' = le32_bytes (word_of_nat bufread) @ packet @ drop (4 + bufread) buf
           in if length buf < 4 + bufread then Stops Fault []
              else if bufread < 20 then Stops (Exit (-1)) [CloseFd (m_tun_tap_dev_fd st)]
              else run_then (handle_packet_from_dev heap (take (bufread + 4) buf') st)
                     (\<lambda>st'. Goes (Some buf', st') []))
      | _ \<Rightarrow> Stops (Exit (-1)) [CloseFd (m_tun_tap_dev_fd st)])"

section \<open>Packets from the peers\<close>

text \<open>
  \<open>handle_route_data_recv\<close>: the four bytes of the length are dropped unread. \<open>write_ok\<close> tells
  whether \<open>write\<close> succeeds. For \<open>len < 4\<close> the count \<open>len - 4\<close> is negative, above
  \<open>SSIZE_MAX\<close> as a \<open>size_t\<close>, and Linux refuses it.
\<close>

definition handle_route_data_recv ::
  "(bytes \<Rightarrow> bool) \<Rightarrow> bytes \<Rightarrow> u16 \<Rightarrow> server \<Rightarrow> server run" where
  "handle_route_data_recv write_ok data len st =
     (let fd = m_tun_tap_dev_fd st in
      if fd = 0 then Goes st []
      else if len < 4 then Stops (Exit (-1)) [CloseFd fd]
      else
        (let out = take (unat len - 4) (drop 4 data)
         in if write_ok out then Goes st [DevWrite fd out]
            else Stops (Exit (-1)) [DevWrite fd out, CloseFd fd]))"

section \<open>Kernel routes\<close>

fun net_routes :: "(bytes \<Rightarrow> bytes \<Rightarrow> event) \<Rightarrow> bytes list \<Rightarrow> event list" where
  "net_routes act [] = []"
| "net_routes act (net # nets) =
     (case parse_net net of
        None \<Rightarrow> net_routes act nets
      | Some (subnet, nm) \<Rightarrow> act (c_str subnet) (c_str (ValueToIP nm)) # net_routes act nets)"

fun node_routes :: "(bytes \<Rightarrow> bytes \<Rightarrow> event) \<Rightarrow> u32 \<Rightarrow> cpeNode list \<Rightarrow> event list" where
  "node_routes act self [] = []"
| "node_routes act self (node # nodes) =
     (if self = node_ID node then node_routes act self nodes
      else net_routes act (split_str (node_subnet node) (str '','')) @ node_routes act self nodes)"

definition add_route_for_nodes :: "server \<Rightarrow> event list" where
  "add_route_for_nodes st =
     node_routes (RouteAdd (m_devname st)) (atoi (m_node_id st)) (m_cpes st)"

definition del_route_for_nodes :: "server \<Rightarrow> event list" where
  "del_route_for_nodes st =
     node_routes (RouteDel (m_devname st)) (atoi (m_node_id st)) (m_cpes st)"

section \<open>Setting up the device\<close>

definition exec_down_cmd :: "server \<Rightarrow> event list" where
  "exec_down_cmd st =
     (if downCmd (m_config st) = [] then [] else [System (c_str (downCmd (m_config st)))])"

definition exec_up_cmd :: "server \<Rightarrow> event list" where
  "exec_up_cmd st =
     (if upCmd (m_config st) = [] then [] else [System (c_str (upCmd (m_config st)))])"

definition ip_addr_command :: "server \<Rightarrow> bytes" where
  "ip_addr_command st =
     str ''ip addr add '' @ c_str (userIP (m_config st)) @ str ''/'' @
     to_string_int (netMask (m_config st)) @ str '' dev '' @ m_tun_tap_dev_name st"

text \<open>
  \<open>init_tap_tun_dev\<close>: \<open>up_ok\<close> tells whether \<open>set_if_flags\<close> brought the device up, \<open>mac\<close> is what
  \<open>get_mac\<close> left in the six-byte buffer.
\<close>

definition init_tap_tun_dev :: "bool \<Rightarrow> bytes \<Rightarrow> server \<Rightarrow> unit run" where
  "init_tap_tun_dev up_ok mac st =
     (let dev = m_tun_tap_dev_name st; cfg = m_config st;
          addr_add = [System (c_str (ip_addr_command st))];
          no_addr = (macAddr cfg = [] \<or> macAddr cfg = no_mac);
          byteArray = split_str (macAddr cfg) (str '':'')
      in if \<not> up_ok then Stops (Exit (-1)) [IfUp dev]
         else if tapMode cfg = 0 then Goes () (IfUp dev # addr_add)
         else if no_addr then
           Goes () (IfUp dev # addr_add @ [GetMac (c_str (devName cfg)), StoreMac (hexMacAddr mac)])
         else if length byteArray \<noteq> 6 then Stops (Exit (-1)) [IfUp dev]
         else Goes () (IfUp dev # SetMac dev (map (\<lambda>b. ucast (strtol 16 b)) byteArray) # addr_add))"

text \<open>
  The constructor. \<open>tun\<close> is what \<open>tun_create\<close> returned with the name it left in the buffer; the
  descriptor is stored in an unsigned field.
\<close>

definition new_server ::
  "u32 \<Rightarrow> (int \<times> bytes) \<Rightarrow> bool \<Rightarrow> bytes \<Rightarrow> mzConfig \<Rightarrow> server run" where
  "new_server uid tun up_ok mac config =
     (let st0 = \<lparr>m_tun_tap_dev_fd = word_of_int (fst tun), m_gateway_id = 0,
            m_tun_tap_dev_name = snd tun, m_node_id = to_string_int uid,
            m_node = \<lparr>node_ID = 0, node_rea1_IP = None, node_virtual_IP = 0,
              node_subnet_IP_low = None, node_subnet_IP_high = None,
              node_subnet = [], node_mac_addr = []\<rparr>,
            m_config = config, m_ip2nodeid_cache = Map.empty, m_cpes = [],
            m_send_callback = False\<rparr>;
          st = init_local_node (init_mesh_cpes st0)
      in run_then (Goes () (exec_down_cmd st @ exec_up_cmd st)) (\<lambda>_.
         run_then (init_tap_tun_dev up_ok mac st) (\<lambda>_.
         Goes st (add_route_for_nodes st))))"

section \<open>Numbers and prefixes\<close>

lemma takeWhile_dec_digits: "takeWhile (is_digit 10) (dec_digits n) = dec_digits n"
  by (rule takeWhile_all) (rule dec_digits_digits)

lemma strtol10_dec_digits: "n < 2 ^ 63 \<Longrightarrow> strtol 10 (dec_digits n) = of_nat n"
proof -
  assume n: "n < 2 ^ 63"
  obtain b r where d: "dec_digits n = b # r" by (cases "dec_digits n") auto
  have dig: "is_digit 10 c" if "c \<in> set (dec_digits n)" for c using that by (rule dec_digits_digits)
  have b: "is_digit 10 b" using dig d by simp
  then have "b \<noteq> 45" "b \<noteq> 43" "\<not> is_space b"
    by (auto simp: is_digit_def digit_of_def is_space_def split: if_splits)
       (auto simp: word_le_nat_alt)
  moreover have "c_str (dec_digits n) = dec_digits n"
    using dig by (intro c_str_id) (auto simp: is_digit_def digit_of_def dest!: dig)
  ultimately have "strip_sign (dropWhile is_space (c_str (dec_digits n))) = (False, dec_digits n)"
    by (simp add: d)
  then show ?thesis
    using n by (simp add: strtol_def takeWhile_dec_digits Let_def)
qed

lemma strtol10_minus: "0 < n \<Longrightarrow> n \<le> 2 ^ 63 \<Longrightarrow> strtol 10 (45 # dec_digits n) = - of_nat n"
proof -
  assume n: "0 < n" "n \<le> 2 ^ 63"
  have dig: "is_digit 10 c" if "c \<in> set (dec_digits n)" for c using that by (rule dec_digits_digits)
  have "c_str (45 # dec_digits n) = 45 # dec_digits n"
    using dig by (intro c_str_id) (auto simp: is_digit_def digit_of_def dest!: dig)
  then have "strip_sign (dropWhile is_space (c_str (45 # dec_digits n))) = (True, dec_digits n)"
    by (simp add: is_space_def)
  then show ?thesis
    using n by (simp add: strtol_def takeWhile_dec_digits Let_def)
qed

lemma ucast_word_of_int_64: "ucast (word_of_int i :: u64) = (word_of_int i :: u32)"
  by (rule bit_word_eqI) (simp add: bit_simps)

lemma strtol_to_string_int: "strtol 10 (to_string_int w) = word_of_int (sint w)"
proof (cases "sint w < 0")
  case True
  define n where "n = nat (- sint w)"
  have "- (2 ^ 31) \<le> sint w" using sint_ge [of w] by simp
  then have "n \<le> 2 ^ 63" "0 < n" "sint w = - int n" using True by (auto simp: n_def)
  then show ?thesis
    using True strtol10_minus [of n] unfolding to_string_int_def by simp
next
  case False
  define n where "n = nat (sint w)"
  have "sint w < 2 ^ 31" using sint_lt [of w] by simp
  then have "n < 2 ^ 63" "sint w = int n" using False by (auto simp: n_def)
  then show ?thesis
    using False strtol10_dec_digits [of n] unfolding to_string_int_def by simp
qed

lemma atoi_to_string_int [simp]: "atoi (to_string_int w) = w"
  unfolding atoi_def strtol_to_string_int ucast_word_of_int_64 by simp

lemma bit_fold_unset:
  "bit (fold unset_bit is (w :: u32)) i \<longleftrightarrow> bit w i \<and> i \<notin> set is"
  by (induction "is" arbitrary: w) (auto simp: bit_simps)

lemma bit_netmask_bits: "bit (netmask_bits n) i \<longleftrightarrow> 32 - n \<le> i \<and> i < 32"
proof -
  have m: "(0xFFFFFFFF :: u32) = mask 32" by (simp add: mask_eq_exp_minus_1)
  show ?thesis unfolding netmask_bits_def bit_fold_unset m bit_mask_iff by auto
qed

lemma netmask_bits_mask: "netmask_bits n = NOT (mask (32 - n))"
  by (rule bit_word_eqI) (auto simp: bit_netmask_bits bit_simps)

text \<open>An address lies in a prefix when its leading bits agree and the prefix has no others.\<close>

lemma and_netmask_eq_iff:
  "(ip AND netmask_bits n) = base \<longleftrightarrow>
     (\<forall>i. 32 - n \<le> i \<and> i < 32 \<longrightarrow> bit ip i = bit base i) \<and> (\<forall>i < 32 - n. \<not> bit base i)"
  (is "?l \<longleftrightarrow> ?r")
proof
  assume ?l
  then have "bit base i \<longleftrightarrow> bit ip i \<and> 32 - n \<le> i \<and> i < 32" for i
    by (auto simp: bit_simps bit_netmask_bits)
  then show ?r by auto
next
  assume r: ?r
  then have "bit base i \<longleftrightarrow> bit ip i \<and> 32 - n \<le> i" if "i < 32" for i
    using that by (cases "i < 32 - n") auto
  then show ?l by (intro bit_word_eqI) (auto simp: bit_simps bit_netmask_bits)
qed

section \<open>What the look-up finds\<close>

text \<open>The usable entries of a subnet list, with the address as a number and the length.\<close>

definition net_prefix :: "bytes \<Rightarrow> (u32 \<times> nat) option" where
  "net_prefix net =
     (case split_str net (str ''/'') of
        [subnet, bits] \<Rightarrow>
          if 32 < atoi bits then None
          else Some (htonl (inet_addr (c_str subnet)), unat (atoi bits))
      | _ \<Rightarrow> None)"

definition node_prefixes :: "cpeNode \<Rightarrow> (u32 \<times> nat) list" where
  "node_prefixes node = List.map_filter net_prefix (split_str (node_subnet node) (str '',''))"

text \<open>A prefix covers the addresses that share its leading bits.\<close>

definition covers :: "u32 \<times> nat \<Rightarrow> u32 \<Rightarrow> bool" where
  "covers = (\<lambda>(base, n) ip. (\<forall>i. 32 - n \<le> i \<and> i < 32 \<longrightarrow> bit ip i = bit base i))"

definition aligned :: "u32 \<times> nat \<Rightarrow> bool" where
  "aligned = (\<lambda>(base, n). \<forall>i < 32 - n. \<not> bit base i)"

definition owns :: "bool \<Rightarrow> u32 \<Rightarrow> bytes \<Rightarrow> cpeNode \<Rightarrow> bool" where
  "owns tap ip mac node \<longleftrightarrow>
     ip = node_virtual_IP node \<or>
     (\<exists>p\<in>set (node_prefixes node). aligned p \<and> covers p ip) \<or>
     (tap \<and> mac = node_mac_addr node)"

lemma parse_net_prefix:
  "parse_net net = Some (subnet, m) \<Longrightarrow>
   \<exists>n. net_prefix net = Some (htonl (inet_addr (c_str subnet)), n) \<and> m = netmask_bits n"
  by (auto simp: parse_net_def net_prefix_def Let_def split: list.splits if_splits)

lemma parse_net_None: "parse_net net = None \<longleftrightarrow> net_prefix net = None"
  by (auto simp: parse_net_def net_prefix_def Let_def split: list.splits)

lemma match_nets_iff [route_simps]:
  "match_nets ip nets \<longleftrightarrow> (\<exists>p\<in>set (List.map_filter net_prefix nets). aligned p \<and> covers p ip)"
proof (induction nets)
  case Nil
  then show ?case by (simp add: map_filter_simps)
next
  case (Cons net nets)
  show ?case
  proof (cases "parse_net net")
    case None
    moreover from this have "net_prefix net = None" by (simp only: parse_net_None)
    ultimately show ?thesis using Cons by (simp add: map_filter_simps)
  next
    case (Some sm)
    then obtain subnet m n where "parse_net net = Some (subnet, m)"
      and n: "net_prefix net = Some (htonl (inet_addr (c_str subnet)), n)" "m = netmask_bits n"
      by (cases sm) (auto dest: parse_net_prefix)
    then show ?thesis
      using Cons by (auto simp: map_filter_simps and_netmask_eq_iff aligned_def covers_def)
  qed
qed

lemma find_node_find [route_simps]:
  "find_node tap ip mac nodes = map_option node_ID (find (owns tap ip mac) nodes)"
  by (induction nodes) (auto simp: owns_def node_prefixes_def match_nets_iff)

text \<open>The address owners of the routing table, with no cache in between.\<close>

definition lookup_spec :: "server \<Rightarrow> u32 \<Rightarrow> bytes \<Rightarrow> u32" where
  "lookup_spec st ip mac =
     (if onlyAcc (m_config st) = 1 then m_gateway_id st
      else case find (owns (tapMode (m_config st) \<noteq> 0) ip mac) (m_cpes st) of
        Some node \<Rightarrow> node_ID node
      | None \<Rightarrow> if gateWay (m_config st) = 0 then m_gateway_id st else 0)"

text \<open>
  Property C8: for an address that is not in the cache the look-up answers as follows. With
  only-access equal to 1 it is always the gateway. Otherwise it is the first node of the table that
  owns the address: by its virtual address, by a subnet that covers it and whose own address has no
  bits behind its prefix length (a subnet such as 10.0.0.5/24 owns nothing), or in tap mode by the
  hardware address. When there is none it is the gateway, or 0 on a gateway itself.
\<close>

theorem getNodeIDFromIP_first_owner:
  assumes "m_ip2nodeid_cache st ip = None"
  shows "getNodeIDFromIP st ip mac = lookup_spec st ip mac"
  using assms by (auto simp: getNodeIDFromIP_def lookup_spec_def route_simps split: option.splits)

definition example_node :: "u32 \<Rightarrow> string \<Rightarrow> string \<Rightarrow> cpeNode" where
  "example_node n ip net =
     mesh_node \<lparr>nodeID = n, virtualIP = str ip, subNet = str net, ni_netMask = 24, ni_macAddr = []\<rparr>"

definition example_server :: "cpeNode list \<Rightarrow> server" where
  "example_server nodes =
     \<lparr>m_tun_tap_dev_fd = 5, m_gateway_id = 9, m_tun_tap_dev_name = str ''tunUDP'',
      m_node_id = str ''1'', m_node = example_node 1 ''10.0.0.1'' [], m_config = new_mzConfig,
      m_ip2nodeid_cache = Map.empty, m_cpes = nodes, m_send_callback = True\<rparr>"

text \<open>Two nodes with a subnet each; the second one is written with host bits.\<close>

definition subnet_nodes :: "cpeNode list" where
  "subnet_nodes = [example_node 2 ''10.0.0.2'' ''10.0.5.0/24'', example_node 3 ''10.0.0.3'' ''10.0.6.1/24'']"

lemma example_splits:
  "split_str (str ''10.0.5.0/24'') (str '','') = [str ''10.0.5.0/24'']"
  "split_str (str ''10.0.6.1/24'') (str '','') = [str ''10.0.6.1/24'']"
  "split_str (str ''10.0.5.0/24'') (str ''/'') = [str ''10.0.5.0'', str ''24'']"
  "split_str (str ''10.0.6.1/24'') (str ''/'') = [str ''10.0.6.1'', str ''24'']"
  by (simp_all add: split_str_def c_str_def strtok_all_Cons)

lemma atoi_24: "atoi (str ''24'') = 24"
  by (simp add: atoi_def strtol_def c_str_def is_space_def is_digit_def digit_of_def digits_value_def)

lemma example_aton:
  "inet_aton (str ''10.0.5.0'') = Some 0x0A000500"
  "inet_aton (str ''10.0.6.1'') = Some 0x0A000601"
  "inet_aton (str ''10.0.0.2'') = Some 0x0A000002"
  "inet_aton (str ''10.0.0.3'') = Some 0x0A000003"
proof -
  show "inet_aton (str ''10.0.5.0'') = Some 0x0A000500"
    using inet_aton_dotted [of 10 0 5 0] by (simp add: dec_digits.simps)
  show "inet_aton (str ''10.0.6.1'') = Some 0x0A000601"
    using inet_aton_dotted [of 10 0 6 1] by (simp add: dec_digits.simps)
  show "inet_aton (str ''10.0.0.2'') = Some 0x0A000002"
    using inet_aton_dotted [of 10 0 0 2] by (simp add: dec_digits.simps)
  show "inet_aton (str ''10.0.0.3'') = Some 0x0A000003"
    using inet_aton_dotted [of 10 0 0 3] by (simp add: dec_digits.simps)
qed

lemma example_c_str:
  "c_str (str ''10.0.5.0'') = str ''10.0.5.0''" "c_str (str ''10.0.6.1'') = str ''10.0.6.1''"
  "c_str (str ''10.0.0.2'') = str ''10.0.0.2''" "c_str (str ''10.0.0.3'') = str ''10.0.0.3''"
  by (simp_all add: c_str_def)

lemma example_net_prefix:
  "net_prefix (str ''10.0.5.0/24'') = Some (0x0A000500, 24)"
  "net_prefix (str ''10.0.6.1/24'') = Some (0x0A000601, 24)"
  unfolding net_prefix_def example_splits list.case atoi_24 example_c_str
  unfolding htonl_inet_addr example_aton by simp_all

lemma example_prefixes:
  "node_prefixes (example_node n ip ''10.0.5.0/24'') = [(0x0A000500, 24)]"
  "node_prefixes (example_node n ip ''10.0.6.1/24'') = [(0x0A000601, 24)]"
proof -
  have s: "node_subnet (example_node n ip net) = str net" for net
    by (simp add: example_node_def mesh_node_def Let_def)
  show "node_prefixes (example_node n ip ''10.0.5.0/24'') = [(0x0A000500, 24)]"
    "node_prefixes (example_node n ip ''10.0.6.1/24'') = [(0x0A000601, 24)]"
    unfolding node_prefixes_def s example_splits by (simp_all only: map_filter_simps example_net_prefix option.case)
qed

lemma example_virtual_IP:
  "node_virtual_IP (example_node n ''10.0.0.2'' net) = 0x0A000002"
  "node_virtual_IP (example_node n ''10.0.0.3'' net) = 0x0A000003"
  unfolding example_node_def mesh_node_def Let_def cpeNode.simps NodeInfo.simps example_c_str
    htonl_inet_addr example_aton
  by simp_all

theorem getNodeIDFromIP_first_owner_witness:
  "getNodeIDFromIP (example_server subnet_nodes) 0x0A000507 no_mac = 2 \<and>
   getNodeIDFromIP (example_server subnet_nodes) 0x0A000003 no_mac = 3 \<and>
   getNodeIDFromIP (example_server subnet_nodes) 0x0A000607 no_mac = 9"
proof -
  have c: "m_ip2nodeid_cache (example_server subnet_nodes) ip = None" for ip
    by (simp add: example_server_def)
  have in5: "aligned (0x0A000500, 24)" "covers (0x0A000500, 24) 0x0A000507"
    and out5: "\<not> covers (0x0A000500, 24) 0x0A000003" "\<not> covers (0x0A000500, 24) 0x0A000607"
    and in6: "\<not> aligned (0x0A000601, 24)"
  proof -
    have d: "drop_bit 8 (0x0A000507 :: u32) = drop_bit 8 0x0A000500"
      "drop_bit 8 (0x0A000003 :: u32) \<noteq> drop_bit 8 0x0A000500" "drop_bit 8 (0x0A000607 :: u32) \<noteq> drop_bit 8 0x0A000500"
      by simp_all
    have c: "covers (b, 24) ip \<longleftrightarrow> drop_bit 8 ip = drop_bit 8 b" for b ip
    proof
      assume v: "covers (b, 24) ip"
      have "bit ip (8 + n) = bit b (8 + n)" for n
        using v by (cases "8 + n < 32") (auto simp: covers_def dest: bit_imp_le_length)
      then show "drop_bit 8 ip = drop_bit 8 b" by (intro bit_word_eqI) (simp add: bit_drop_bit_eq)
    next
      assume e: "drop_bit 8 ip = drop_bit 8 b"
      have "bit ip i = bit b i" if "8 \<le> i" for i
        using arg_cong [OF e, of "\<lambda>w. bit w (i - 8)"] that by (simp add: bit_simps)
      then show "covers (b, 24) ip" by (simp add: covers_def)
    qed
    show "covers (0x0A000500, 24) 0x0A000507" "\<not> covers (0x0A000500, 24) 0x0A000003"
      "\<not> covers (0x0A000500, 24) 0x0A000607"
      using d by (simp_all only: c simp_thms)
    have t: "take_bit 8 (0x0A000500 :: u32) = 0" by simp
    have "\<not> bit (0x0A000500 :: u32) i" if "i < 8" for i
      using arg_cong [OF t, of "\<lambda>w. bit w i"] that by (simp only: bit_take_bit_iff) simp
    then show "aligned (0x0A000500, 24)" by (simp add: aligned_def)
    show "\<not> aligned (0x0A000601, 24)" by (auto simp: aligned_def intro!: exI [of _ 0])
  qed
  note ow = owns_def example_prefixes example_virtual_IP in5 out5 in6
  have "find (owns False 0x0A000507 no_mac) subnet_nodes = Some (example_node 2 ''10.0.0.2'' ''10.0.5.0/24'')"
    "find (owns False 0x0A000003 no_mac) subnet_nodes = Some (example_node 3 ''10.0.0.3'' ''10.0.6.1/24'')"
    "find (owns False 0x0A000607 no_mac) subnet_nodes = None"
    by (simp_all add: subnet_nodes_def ow del: str_Cons)
  moreover have "m_cpes (example_server ns) = ns" "m_gateway_id (example_server ns) = 9"
    "tapMode (m_config (example_server ns)) = 0" "onlyAcc (m_config (example_server ns)) = 0"
    "gateWay (m_config (example_server ns)) = 0" for ns
    by (simp_all add: example_server_def new_mzConfig_def reset_def)
  moreover have "node_ID (example_node n ip net) = n" for n ip net
    by (simp add: example_node_def mesh_node_def Let_def)
  ultimately show ?thesis by (simp add: getNodeIDFromIP_first_owner [OF c] lookup_spec_def)
qed

text \<open>
  A subnet written with host bits, such as \<open>10.0.0.5/24\<close>, is compared with the masked
  address and therefore never matches.
\<close>

theorem unaligned_subnet_never_matches:
  assumes "net_prefix net = Some p" "\<not> aligned p"
  shows "match_nets ip (net # nets) = match_nets ip nets"
  using assms by (simp add: route_simps map_filter_simps)

lemma split_str_slash_example: "split_str (str ''10.0.0.5/24'') (str ''/'') = [str ''10.0.0.5'', str ''24'']"
  by (simp add: split_str_def c_str_def strtok_all_Cons)

theorem unaligned_subnet_never_matches_witness:
  "match_nets 0x0A000007 [str ''10.0.0.5/24''] = False"
proof -
  have "inet_aton (str ''10.0.0.5'') = Some 0x0A000005"
    using inet_aton_dotted [of 10 0 0 5] by (simp add: dec_digits.simps)
  then have "net_prefix (str ''10.0.0.5/24'') = Some (0x0A000005, 24)"
    unfolding net_prefix_def split_str_slash_example
    by (simp add: htonl_inet_addr atoi_def strtol_def c_str_def is_space_def is_digit_def digit_of_def
        digits_value_def)
  moreover have "\<not> aligned (0x0A000005, 24)" by (auto simp: aligned_def intro!: exI [of _ 0])
  ultimately show ?thesis
    by (subst unaligned_subnet_never_matches) simp_all
qed

section \<open>The address cache\<close>

text \<open>
  The cache agrees with the table when every entry is what the look-up by address finds.
\<close>

definition cache_sound :: "server \<Rightarrow> bool" where
  "cache_sound st \<longleftrightarrow>
     (\<forall>ip n. m_ip2nodeid_cache st ip = Some n \<longrightarrow> (\<forall>mac. find_node False ip mac (m_cpes st) = Some n))"

lemma find_node_False_mac: "find_node False ip mac nodes = find_node False ip mac' nodes"
  by (induction nodes) auto

lemma cache_sound_empty: "m_ip2nodeid_cache st = Map.empty \<Longrightarrow> cache_sound st"
  by (simp add: cache_sound_def)

lemma remember_frame [frame_simps]:
  "m_config (remember ip d st) = m_config st" "m_cpes (remember ip d st) = m_cpes st"
  "m_gateway_id (remember ip d st) = m_gateway_id st"
  "m_send_callback (remember ip d st) = m_send_callback st"
  "m_tun_tap_dev_fd (remember ip d st) = m_tun_tap_dev_fd st"
  "m_tun_tap_dev_name (remember ip d st) = m_tun_tap_dev_name st"
  "m_node_id (remember ip d st) = m_node_id st" "m_node (remember ip d st) = m_node st"
  by (simp_all add: remember_def)

text \<open>What is not in the table is never remembered: neither the gateway, nor 0.\<close>

lemma remember_sound:
  assumes "cache_sound st" "tapMode (m_config st) = 0" "onlyAcc (m_config st) \<noteq> 1"
  shows "cache_sound (remember ip (getNodeIDFromIP st ip mac) st)"
proof -
  have "find_node False ip mac' (m_cpes st) = Some (getNodeIDFromIP st ip mac)"
    if new: "getNodeIDFromIP st ip mac \<noteq> 0" "getNodeIDFromIP st ip mac \<noteq> m_gateway_id st"
      "m_ip2nodeid_cache st ip = None" for mac'
  proof -
    have "find_node False ip mac (m_cpes st) = Some (getNodeIDFromIP st ip mac)"
      using new assms by (auto simp: getNodeIDFromIP_def split: option.splits if_splits)
    then show ?thesis using find_node_False_mac [of ip mac _ mac'] by metis
  qed
  then show ?thesis using assms(1) by (auto simp: cache_sound_def remember_def)
qed

lemma getNodeIDFromIP_cached:
  assumes "cache_sound st" "tapMode (m_config st) = 0"
  shows "getNodeIDFromIP st ip mac = lookup_spec st ip mac"
proof (cases "m_ip2nodeid_cache st ip")
  case None
  then show ?thesis by (auto simp: getNodeIDFromIP_def lookup_spec_def route_simps split: option.splits)
next
  case (Some n)
  then have "find_node False ip mac (m_cpes st) = Some n" using assms(1) by (auto simp: cache_sound_def)
  then have "map_option node_ID (find (owns False ip mac) (m_cpes st)) = Some n"
    by (simp only: find_node_find)
  then show ?thesis using Some assms(2)
    by (auto simp: getNodeIDFromIP_def lookup_spec_def)
qed

text \<open>
  Property C9: in tun mode the cache is invisible: with a cache that agrees with the table the
  destination of a packet is the one the table gives, and the cache agrees with the table
  afterwards.
\<close>

theorem tun_cache_transparent:
  assumes "cache_sound st" "tapMode (m_config st) = 0" "onlyAcc (m_config st) = 0"
  shows "fst (getDestIDFromTunPacket packet st) = lookup_spec st (htonl (load32 packet 16)) no_mac \<and>
    cache_sound (snd (getDestIDFromTunPacket packet st))"
proof -
  have "onlyAcc (m_config st) \<noteq> 1" using assms(3) by simp
  from remember_sound [OF assms(1,2) this] show ?thesis
    using getNodeIDFromIP_cached [OF assms(1,2)] by (simp add: getDestIDFromTunPacket_def Let_def)
qed

theorem tun_cache_transparent_witness:
  "fst (getDestIDFromTunPacket (\<lambda>_. 1) (example_server [])) = 9"
proof -
  have e: "cache_sound (example_server [])" "tapMode (m_config (example_server [])) = 0"
    "onlyAcc (m_config (example_server [])) = 0"
    by (simp_all add: cache_sound_def example_server_def new_mzConfig_def reset_def)
  show ?thesis
    using conjunct1 [OF tun_cache_transparent [OF e, of "\<lambda>_. 1"]]
    by (simp add: lookup_spec_def example_server_def new_mzConfig_def reset_def)
qed

text \<open>A node that only its hardware address tells apart.\<close>

definition mac_node :: "u32 \<Rightarrow> bytes \<Rightarrow> cpeNode" where
  "mac_node n mac = \<lparr>node_ID = n, node_rea1_IP = None, node_virtual_IP = n, node_subnet_IP_low = Some 0,
     node_subnet_IP_high = Some 0, node_subnet = [], node_mac_addr = mac\<rparr>"

text \<open>
  In tap mode the cache is keyed by the address alone, so that it hides the hardware
  address: once an address was found through one hardware address, a frame for the same address
  with another one goes to the first node, though the table names the second.
\<close>

theorem tap_cache_hides_mac:
  fixes ip :: u32
  assumes "ip \<noteq> 2" "ip \<noteq> 3" "mac \<noteq> mac'"
  defines "st \<equiv> (example_server [mac_node 2 mac, mac_node 3 mac'])
                   \<lparr>m_config := new_mzConfig\<lparr>tapMode := 1\<rparr>\<rparr>"
  shows "getNodeIDFromIP st ip mac = 2 \<and> getNodeIDFromIP st ip mac' = 3 \<and>
    getNodeIDFromIP (remember ip (getNodeIDFromIP st ip mac) st) ip mac' = 2"
  using assms(1-3)
  by (simp add: st_def getNodeIDFromIP_def remember_def example_server_def mac_node_def new_mzConfig_def
      reset_def split_str_def c_str_def)

theorem tap_cache_hides_mac_witness:
  "getNodeIDFromIP ((example_server [mac_node 2 [1], mac_node 3 [2]])\<lparr>m_config := new_mzConfig\<lparr>tapMode := 1\<rparr>\<rparr>) 7 [2] = 3"
  using conjunct1 [OF conjunct2 [OF tap_cache_hides_mac [of 7 "[1]" "[2]"]]] by simp

section \<open>Where a packet goes\<close>

text \<open>
  The destination of an Ethernet frame. An IP frame below 224.0.0.0 is looked up,
  one above it is broadcast, except for the two addresses 224.0.0.0 and 240.0.0.0, which fall
  between the ranges and get node 0; ARP, RARP, IPX and PPPoE are broadcast, anything else gets 0.
\<close>

lemma tap_dest:
  "fst (getDestIDFromTapPacket packet st) =
    (let proto = htons (load16 packet 12); ip = htonl (load32 packet 30)
     in if proto = 0x0800
        then if ip < 0xE0000000 then getNodeIDFromIP st ip (map packet [0..<6])
             else if ip \<in> {0xE0000000, 0xF0000000} then 0 else 0xFFFFFFFF
        else if proto \<in> {0x0806, 0x8035, 0x8137, 0x8863, 0x8864} then 0xFFFFFFFF else 0)"
proof -
  let ?ip = "htonl (load32 packet 30)"
  have "?ip > 0xE0000000 \<and> ?ip < 0xF0000000 \<or> ?ip > 0xF0000000 \<longleftrightarrow>
    \<not> ?ip < 0xE0000000 \<and> ?ip \<notin> {0xE0000000, 0xF0000000}"
    by (simp add: word_less_nat_alt word_unat_eq_iff) linarith
  then show ?thesis
    by (auto simp: getDestIDFromTapPacket_def Let_def)
qed

text \<open>
  The bytes a handler looks at. A frame shorter than the offset of the IP destination makes the
  tap handler read behind the message.
\<close>

lemma load32_cong:
  assumes "\<And>i. i < 4 \<Longrightarrow> m (k + i) = m' (k + i)"
  shows "load32 m k = load32 m' k"
  using assms [of 0] assms [of 1] assms [of 2] assms [of 3] by (simp add: load32_def)

lemma load16_cong:
  assumes "\<And>i. i < 2 \<Longrightarrow> m (k + i) = m' (k + i)"
  shows "load16 m k = load16 m' k"
  using assms [of 0] assms [of 1] by (simp add: load16_def)

lemma msg_memory_inside: "i < length msg \<Longrightarrow> msg_memory heap msg i = msg_memory heap' msg i"
  by (simp add: msg_memory_def)

text \<open>
  The destination of a frame of at least 34 bytes depends on the frame only.
\<close>

theorem long_frame_inside:
  assumes "38 \<le> length msg"
  shows "handle_packet_from_dev heap msg st = handle_packet_from_dev heap' msg st"
proof -
  let ?p = "\<lambda>h i. msg_memory h msg (i + 4)"
  have "load32 (?p heap) 16 = load32 (?p heap') 16" "load32 (?p heap) 30 = load32 (?p heap') 30"
    using assms by (auto intro!: load32_cong msg_memory_inside)
  moreover have "load16 (?p heap) 12 = load16 (?p heap') 12"
    using assms by (auto intro!: load16_cong msg_memory_inside)
  moreover have "map (?p heap) [0..<6] = map (?p heap') [0..<6]"
    using assms by (auto intro!: msg_memory_inside)
  ultimately show ?thesis
    by (simp only: handle_packet_from_dev_def getDestIDFromTapPacket_def getDestIDFromTunPacket_def Let_def)
qed

theorem long_frame_inside_witness:
  "handle_packet_from_dev (\<lambda>_. 1) (replicate 40 0) (example_server []) =
   handle_packet_from_dev (\<lambda>_. 2) (replicate 40 0) (example_server [])"
  by (rule long_frame_inside) simp

text \<open>A 20-byte IP frame: \<open>on_read_tun_tap\<close> lets it pass, its destination lies behind it.\<close>

definition short_frame :: bytes where
  "short_frame = replicate 12 0 @ [8, 0] @ replicate 6 0"

definition tap_server :: "cpeNode list \<Rightarrow> server" where
  "tap_server nodes = (example_server nodes)\<lparr>m_config := new_mzConfig\<lparr>tapMode := 1\<rparr>\<rparr>"

text \<open>
  Property C20: the length check of the reader is not enough in tap mode: a frame of 20 bytes
  passes it, and its destination is decided by the memory behind the message.
\<close>

theorem short_frame_reads_behind:
  "\<exists>heap heap'.
     run_events (on_read_tun_tap heap (Some (replicate 2048 0)) (Some short_frame) (tap_server [])) \<noteq>
     run_events (on_read_tun_tap heap' (Some (replicate 2048 0)) (Some short_frame) (tap_server []))"
proof -
  let ?run = "\<lambda>b. on_read_tun_tap (\<lambda>_. b) (Some (replicate 2048 0)) (Some short_frame) (tap_server [])"
  have m: "take 24 (le32_bytes 20 @ short_frame @ drop 24 (replicate 2048 0)) = le32_bytes 20 @ short_frame"
    by (simp add: short_frame_def)
  have ev: "run_events (?run b) = [SendPeer (if b = 1 then 9 else 0xFFFFFFFF) (le32_bytes 20 @ short_frame)]"
    if "b = 1 \<or> b = 255" for b
  proof -
    let ?m = "\<lambda>i. msg_memory (\<lambda>_. b) (le32_bytes 20 @ short_frame) (i + 4)"
    have l: "length short_frame = 20" by (simp add: short_frame_def)
    have "short_frame ! 12 = 8" "short_frame ! 13 = 0" by (simp_all add: short_frame_def nth_append)
    then have "htons (load16 ?m 12) = 0x0800"
      by (simp add: load16_def msg_memory_def l nth_append htons_def le_bytes_def upt_rec)
    moreover have "load32 ?m 30 = load_le [b, b, b, b]"
      by (simp add: load32_def msg_memory_def l)
    then have "htonl (load32 ?m 30) = (if b = 1 then 0x01010101 else 0xFFFFFFFF)"
      using that by (auto simp: htonl_def le_bytes_def upt_rec)
    ultimately have "fst (getDestIDFromTapPacket ?m (tap_server [])) = (if b = 1 then 9 else 0xFFFFFFFF)"
      using that unfolding tap_dest Let_def
      by (auto simp: getNodeIDFromIP_def tap_server_def example_server_def new_mzConfig_def reset_def)
    moreover have "m_send_callback (snd (getDestIDFromTapPacket ?m (tap_server [])))"
      by (simp add: getDestIDFromTapPacket_def Let_def frame_simps tap_server_def example_server_def)
    moreover have "onlyAcc (m_config (tap_server [])) = 0" "tapMode (m_config (tap_server [])) \<noteq> 0"
      by (simp_all add: tap_server_def new_mzConfig_def reset_def)
    moreover obtain d s where "getDestIDFromTapPacket ?m (tap_server []) = (d, s)" by fastforce
    ultimately show ?thesis
      by (simp only: on_read_tun_tap_def Let_def prod.case option.case l m)
         (simp add: handle_packet_from_dev_def m l)
  qed
  show ?thesis
    using ev [of 1] ev [of 255] by (intro exI [of _ "\<lambda>_. 1"] exI [of _ "\<lambda>_. 255"]) simp
qed

section \<open>Framing\<close>

text \<open>What travels between the peers: the length in four bytes, then the packet.\<close>

definition route_frame :: "bytes \<Rightarrow> bytes" where
  "route_frame packet = le32_bytes (word_of_nat (length packet)) @ packet"

lemma on_read_frame:
  assumes "20 \<le> length packet" "4 + length packet \<le> length buf"
  shows "on_read_tun_tap heap (Some buf) (Some packet) st =
    run_then (handle_packet_from_dev heap (route_frame packet) st)
      (\<lambda>st'. Goes (Some (route_frame packet @ drop (4 + length packet) buf), st') [])"
  using assms by (simp add: on_read_tun_tap_def Let_def route_frame_def)

lemma handle_packet_sends:
  "m_send_callback st \<Longrightarrow>
   \<exists>st' dest. handle_packet_from_dev heap msg st = Goes st' [SendPeer dest msg] \<and>
     m_send_callback st' \<and> m_cpes st' = m_cpes st \<and> m_config st' = m_config st"
  by (auto simp: handle_packet_from_dev_def getDestIDFromTapPacket_def getDestIDFromTunPacket_def
      Let_def frame_simps)

lemma frame_written:
  assumes "20 \<le> length packet" "length packet \<le> PACK_MTU" "m_tun_tap_dev_fd peer \<noteq> 0" "write_ok packet"
  shows "handle_route_data_recv write_ok (route_frame packet) (word_of_nat (length (route_frame packet))) peer =
    Goes peer [DevWrite (m_tun_tap_dev_fd peer) packet]"
proof -
  have l: "length (route_frame packet) = length packet + 4" by (simp add: route_frame_def)
  have u: "unat (word_of_nat (length packet + 4) :: u16) = length packet + 4"
    using assms(2) by (subst unat_of_nat) (simp add: PACK_MTU_def)
  then have "\<not> (word_of_nat (length packet + 4) :: u16) < 4"
    using assms(1) by (simp add: word_less_nat_alt)
  then have "handle_route_data_recv write_ok (route_frame packet) (word_of_nat (length packet + 4)) peer =
      Goes peer [DevWrite (m_tun_tap_dev_fd peer) packet]"
    using assms(3,4) u by (simp add: handle_route_data_recv_def Let_def route_frame_def)
  then show ?thesis by (simp only: l)
qed

text \<open>
  A packet of 20 to 1500 bytes that a client with a packet buffer and a send callback reads from
  its device is sent as one message, and a client with a device that receives this message writes
  exactly the packet to it.
\<close>

theorem packet_roundtrip:
  assumes "20 \<le> length packet" "length packet \<le> PACK_MTU" "m_send_callback st" "PACK_MTU + 4 \<le> length buf"
    and "m_tun_tap_dev_fd peer \<noteq> 0" "write_ok packet"
  shows "\<exists>dest msg r. on_read_tun_tap heap (Some buf) (Some packet) st = Goes r [SendPeer dest msg] \<and>
    length msg = length packet + 4 \<and> load_le (take 4 msg) = (word_of_nat (length packet) :: u32) \<and>
    handle_route_data_recv write_ok msg (word_of_nat (length msg)) peer =
      Goes peer [DevWrite (m_tun_tap_dev_fd peer) packet]"
proof -
  obtain st' dest where h:
    "handle_packet_from_dev heap (route_frame packet) st = Goes st' [SendPeer dest (route_frame packet)]"
    using handle_packet_sends [OF assms(3)] by blast
  have "length (route_frame packet) = length packet + 4" by (simp add: route_frame_def)
  moreover note frame_written [where peer = peer and write_ok = write_ok, OF assms(1,2,5,6)]
  moreover have "on_read_tun_tap heap (Some buf) (Some packet) st =
      Goes (Some (route_frame packet @ drop (4 + length packet) buf), st') [SendPeer dest (route_frame packet)]"
    using assms(2,4) h by (simp add: on_read_frame [OF assms(1)])
  moreover have "load_le (take 4 (route_frame packet)) = (word_of_nat (length packet) :: u32)"
    by (simp add: route_frame_def)
  ultimately show ?thesis by blast
qed

text \<open>
  A message of fewer than four bytes from a peer makes the count of the write
  negative and ends the process; the length in the message is never compared with its size.
\<close>

theorem short_route_message_exits:
  assumes "m_tun_tap_dev_fd st \<noteq> 0"
  shows "(\<exists>es. handle_route_data_recv write_ok data len st = Stops (Exit (-1)) es) \<longleftrightarrow>
    len < 4 \<or> \<not> write_ok (take (unat len - 4) (drop 4 data))"
  using assms by (auto simp: handle_route_data_recv_def Let_def)

theorem short_route_message_exits_witness:
  "\<exists>es. handle_route_data_recv (\<lambda>_. True) [1] 1 (example_server []) = Stops (Exit (-1)) es"
proof -
  have "m_tun_tap_dev_fd (example_server []) \<noteq> 0" by (simp add: example_server_def)
  from short_route_message_exits [OF this, of "\<lambda>_. True" "[1]" 1] show ?thesis by simp
qed

section \<open>Routes\<close>

text \<open>The networks a table routes, and the kernel's routes as a set.\<close>

fun table_nets :: "u32 \<Rightarrow> cpeNode list \<Rightarrow> (bytes \<times> bytes) list" where
  "table_nets self [] = []"
| "table_nets self (node # nodes) =
     (if self = node_ID node then []
      else map (\<lambda>(net, m). (c_str net, c_str (ValueToIP m)))
             (List.map_filter parse_net (split_str (node_subnet node) (str '','')))) @ table_nets self nodes"

lemma net_routes_map:
  "net_routes act nets =
     map (\<lambda>(net, m). act (c_str net) (c_str (ValueToIP m))) (List.map_filter parse_net nets)"
  by (induction nets) (auto simp: map_filter_simps split: option.splits)

lemma node_routes_map [route_simps]:
  "node_routes act self nodes = map (\<lambda>(net, m). act net m) (table_nets self nodes)"
  by (induction nodes) (auto simp: net_routes_map)

text \<open>
  An entry of the kernel's table is a device, a network and its mask, in network byte order, as the
  route helpers read them from their strings. Whether a request succeeds is for the kernel to say:
  the device may be missing, the network may have bits its mask clears, the route may be there
  already, or absent when it is to be deleted; the code looks at none of these answers. A request
  the kernel refuses leaves the table as it is. When that is not what was asked for, because a route
  to be added is missing or one to be deleted present, the route is unmet: what the
  server wants of it and what the kernel does may differ from then on.
\<close>

type_synonym route = "bytes \<times> u32 \<times> u32"

definition route_of :: "bytes \<Rightarrow> bytes \<Rightarrow> bytes \<Rightarrow> route" where
  "route_of dev net m = (c_str dev, inet_addr (c_str net), inet_addr (c_str m))"

text \<open>The table and the unmet routes.\<close>

type_synonym kernel_table = "route set \<times> route set"

abbreviation k_table :: "kernel_table \<Rightarrow> route set" where
  "k_table \<equiv> fst"

abbreviation k_unmet :: "kernel_table \<Rightarrow> route set" where
  "k_unmet \<equiv> snd"

text \<open>One request with the kernel's answer.\<close>

fun kernel_step :: "bool \<Rightarrow> kernel_table \<Rightarrow> event \<Rightarrow> kernel_table" where
  "kernel_step granted (R, U) (RouteAdd dev net m) =
     (let r = route_of dev net m
      in if granted then (insert r R, U) else (R, if r \<in> R then U else insert r U))"
| "kernel_step granted (R, U) (RouteDel dev net m) =
     (let r = route_of dev net m
      in if granted then (R - {r}, U) else (R, if r \<in> R then insert r U else U))"
| "kernel_step granted (R, U) e = (R, U)"

text \<open>The requests of a sequence of events; \<open>ok i\<close> is the answer to the \<open>i\<close>-th event.\<close>

fun kernel_routes :: "(nat \<Rightarrow> bool) \<Rightarrow> kernel_table \<Rightarrow> event list \<Rightarrow> kernel_table" where
  "kernel_routes ok K [] = K"
| "kernel_routes ok K (e # es) = kernel_routes (\<lambda>i. ok (Suc i)) (kernel_step (ok 0) K e) es"

text \<open>The entries of a server's table: the prefixes of all nodes but itself, on its device.\<close>

definition routes_of :: "server \<Rightarrow> route set" where
  "routes_of st = (\<lambda>(base, n). (c_str (m_devname st), htonl base, htonl (netmask_bits n))) `
     (\<Union>node \<in> {node \<in> set (m_cpes st). node_ID node \<noteq> atoi (m_node_id st)}. set (node_prefixes node))"

lemma kernel_routes_append:
  "kernel_routes ok K (es @ fs) = kernel_routes (\<lambda>i. ok (length es + i)) (kernel_routes ok K es) fs"
  by (induction ok K es rule: kernel_routes.induct) simp_all

text \<open>Two tables agree outside a set of routes.\<close>

definition agree_off :: "route set \<Rightarrow> route set \<Rightarrow> route set \<Rightarrow> bool" where
  "agree_off U R R' \<longleftrightarrow> R - U = R' - U"

lemma agree_off_refl [simp]: "agree_off U R R"
  by (simp add: agree_off_def)

lemma agree_off_trans: "agree_off U R R' \<Longrightarrow> U \<subseteq> U' \<Longrightarrow> agree_off U' R' R'' \<Longrightarrow> agree_off U' R R''"
  unfolding agree_off_def by blast

lemma agree_off_ops:
  assumes "agree_off U R R'"
  shows "agree_off U (R \<union> S) (R' \<union> S)" "agree_off U (R - S) (R' - S)"
  using assms unfolding agree_off_def by blast+

lemma agree_off_none: "agree_off {} R R' \<longleftrightarrow> R = R'"
  by (simp add: agree_off_def)

lemma kernel_step_unmet: "k_unmet K \<subseteq> k_unmet (kernel_step granted K e)"
  by (cases K; cases e) (auto simp: Let_def)

lemma kernel_routes_unmet: "k_unmet K \<subseteq> k_unmet (kernel_routes ok K es)"
  by (induction ok K es rule: kernel_routes.induct) (use kernel_step_unmet in fastforce)+

lemma kernel_step_add:
  "K' = kernel_step granted K (RouteAdd dev net m) \<Longrightarrow>
   agree_off (k_unmet K') (k_table K') (insert (route_of dev net m) (k_table K))"
  by (cases K) (auto simp: agree_off_def Let_def)

lemma kernel_step_del:
  "K' = kernel_step granted K (RouteDel dev net m) \<Longrightarrow>
   agree_off (k_unmet K') (k_table K') (k_table K - {route_of dev net m})"
  by (cases K) (auto simp: agree_off_def Let_def)

lemma kernel_routes_add:
  "K' = kernel_routes ok K (map (\<lambda>(net, m). RouteAdd dev net m) ns) \<Longrightarrow>
   agree_off (k_unmet K') (k_table K') (k_table K \<union> (\<lambda>(net, m). route_of dev net m) ` set ns)"
proof (induction ns arbitrary: ok K)
  case (Cons n ns)
  obtain net m where n: "n = (net, m)" by fastforce
  let ?K1 = "kernel_step (ok 0) K (RouteAdd dev net m)"
  let ?S = "(\<lambda>(net, m). route_of dev net m) ` set ns"
  have K': "K' = kernel_routes (\<lambda>i. ok (Suc i)) ?K1 (map (\<lambda>(net, m). RouteAdd dev net m) ns)"
    using Cons.prems by (simp add: n)
  have U: "k_unmet ?K1 \<subseteq> k_unmet K'" unfolding K' by (rule kernel_routes_unmet)
  have "agree_off (k_unmet K') (k_table K') (k_table ?K1 \<union> ?S)" by (rule Cons.IH [OF K'])
  moreover have "agree_off (k_unmet ?K1) (k_table ?K1 \<union> ?S) (insert (route_of dev net m) (k_table K) \<union> ?S)"
    by (rule agree_off_ops [OF kernel_step_add [OF refl]])
  ultimately show ?case using U unfolding agree_off_def n by (auto; blast)
qed simp

lemma kernel_routes_del:
  "K' = kernel_routes ok K (map (\<lambda>(net, m). RouteDel dev net m) ns) \<Longrightarrow>
   agree_off (k_unmet K') (k_table K') (k_table K - (\<lambda>(net, m). route_of dev net m) ` set ns)"
proof (induction ns arbitrary: ok K)
  case (Cons n ns)
  obtain net m where n: "n = (net, m)" by fastforce
  let ?K1 = "kernel_step (ok 0) K (RouteDel dev net m)"
  let ?S = "(\<lambda>(net, m). route_of dev net m) ` set ns"
  have K': "K' = kernel_routes (\<lambda>i. ok (Suc i)) ?K1 (map (\<lambda>(net, m). RouteDel dev net m) ns)"
    using Cons.prems by (simp add: n)
  have U: "k_unmet ?K1 \<subseteq> k_unmet K'" unfolding K' by (rule kernel_routes_unmet)
  have "agree_off (k_unmet K') (k_table K') (k_table ?K1 - ?S)" by (rule Cons.IH [OF K'])
  moreover have "agree_off (k_unmet ?K1) (k_table ?K1 - ?S) (k_table K - {route_of dev net m} - ?S)"
    by (rule agree_off_ops [OF kernel_step_del [OF refl]])
  ultimately show ?case using U unfolding agree_off_def n by (auto; blast)
qed simp

lemma inet_addr_netmask: "inet_addr (ValueToIP v) = htonl v"
  by (simp add: inet_addr_def inet_aton_ValueToIP)

lemma parsed_net_route:
  "(\<lambda>(net, m). route_of dev net m) ` (\<lambda>(net, m). (c_str net, c_str (ValueToIP m))) ` set (List.map_filter parse_net nets) =
   (\<lambda>(base, n). (c_str dev, htonl base, htonl (netmask_bits n))) ` set (List.map_filter net_prefix nets)"
proof (induction nets)
  case Nil
  then show ?case by (simp add: map_filter_simps)
next
  case (Cons net nets)
  show ?case
  proof (cases "parse_net net")
    case None
    moreover from this have "net_prefix net = None" by (simp only: parse_net_None)
    ultimately show ?thesis using Cons by (simp add: map_filter_simps)
  next
    case (Some sm)
    then obtain subnet m n where "parse_net net = Some (subnet, m)"
      and "net_prefix net = Some (htonl (inet_addr (c_str subnet)), n)" "m = netmask_bits n"
      by (cases sm) (auto dest: parse_net_prefix)
    then show ?thesis
      using Cons by (simp add: map_filter_simps route_of_def inet_addr_netmask)
  qed
qed

lemma table_nets_routes:
  "(\<lambda>(net, m). route_of dev net m) ` set (table_nets self nodes) =
   (\<lambda>(base, n). (c_str dev, htonl base, htonl (netmask_bits n))) `
     (\<Union>node \<in> {node \<in> set nodes. node_ID node \<noteq> self}. set (node_prefixes node))"
proof (induction nodes)
  case Nil
  then show ?case by simp
next
  case (Cons node nodes)
  have "{n \<in> set (node # nodes). node_ID n \<noteq> self} =
    (if self = node_ID node then {} else {node}) \<union> {n \<in> set nodes. node_ID n \<noteq> self}" by auto
  with Cons parsed_net_route [of dev "split_str (node_subnet node) (str '','')"] show ?case
    by (cases "self = node_ID node") (simp_all add: image_Un node_prefixes_def)
qed

lemma kernel_add_route:
  "K' = kernel_routes ok K (add_route_for_nodes st) \<Longrightarrow>
   agree_off (k_unmet K') (k_table K') (k_table K \<union> routes_of st)"
  unfolding add_route_for_nodes_def routes_of_def node_routes_map table_nets_routes [symmetric]
  by (rule kernel_routes_add)

lemma kernel_del_route:
  "K' = kernel_routes ok K (del_route_for_nodes st) \<Longrightarrow>
   agree_off (k_unmet K') (k_table K') (k_table K - routes_of st)"
  unfolding del_route_for_nodes_def routes_of_def node_routes_map table_nets_routes [symmetric]
  by (rule kernel_routes_del)

text \<open>
  What the message handlers rely on when they exchange one table for another: one operation that
  asks for a table's routes and one that asks for their removal. \<open>synced\<close> is the relation between the
  kernel and the table they keep: apart from the unmet routes, every route of the table is
  installed, and what is installed beyond it was there before the server started.
\<close>

locale route_table =
  fixes install :: "'st \<Rightarrow> event list" and uninstall :: "'st \<Rightarrow> event list"
    and routes :: "'st \<Rightarrow> route set"
  assumes install: "K' = kernel_routes ok K (install s) \<Longrightarrow>
      agree_off (k_unmet K') (k_table K') (k_table K \<union> routes s)"
    and uninstall: "K' = kernel_routes ok K (uninstall s) \<Longrightarrow>
      agree_off (k_unmet K') (k_table K') (k_table K - routes s)"
begin

definition synced :: "route set \<Rightarrow> kernel_table \<Rightarrow> 'st \<Rightarrow> bool" where
  "synced R0 K s \<longleftrightarrow> routes s \<subseteq> k_table K \<union> k_unmet K \<and> k_table K \<subseteq> R0 \<union> routes s \<union> k_unmet K"

lemma exchange:
  assumes "K' = kernel_routes ok K (uninstall s @ install s')"
  shows "agree_off (k_unmet K') (k_table K') ((k_table K - routes s) \<union> routes s')"
proof -
  let ?K1 = "kernel_routes ok K (uninstall s)"
  have K': "K' = kernel_routes (\<lambda>i. ok (length (uninstall s) + i)) ?K1 (install s')"
    using assms by (simp only: kernel_routes_append)
  from kernel_routes_unmet have "k_unmet ?K1 \<subseteq> k_unmet K'" unfolding K' .
  with install [OF K'] uninstall [OF refl, of ok K s] show ?thesis
    unfolding agree_off_def by blast
qed

lemma install_uninstall:
  assumes "K' = kernel_routes ok K (install s @ uninstall s)"
  shows "agree_off (k_unmet K') (k_table K') (k_table K - routes s)"
proof -
  let ?K1 = "kernel_routes ok K (install s)"
  have K': "K' = kernel_routes (\<lambda>i. ok (length (install s) + i)) ?K1 (uninstall s)"
    using assms by (simp only: kernel_routes_append)
  from kernel_routes_unmet have "k_unmet ?K1 \<subseteq> k_unmet K'" unfolding K' .
  with uninstall [OF K'] install [OF refl, of ok K s] show ?thesis
    unfolding agree_off_def by blast
qed

lemma synced_install: "synced R (kernel_routes ok (R, {}) (install s)) s"
  using install [OF refl, of ok "(R, {})" s] unfolding synced_def agree_off_def by auto

lemma synced_exchange: "synced R0 K s \<Longrightarrow> synced R0 (kernel_routes ok K (uninstall s @ install s')) s'"
  using exchange [OF refl, of ok K s s'] kernel_routes_unmet [of K ok "uninstall s @ install s'"]
  unfolding synced_def agree_off_def by blast

lemma synced_cong: "routes s = routes s' \<Longrightarrow> synced R0 K s \<longleftrightarrow> synced R0 K s'"
  by (simp add: synced_def)

end

interpretation table: route_table add_route_for_nodes del_route_for_nodes routes_of
  by unfold_locales (rule kernel_add_route, assumption, rule kernel_del_route)

text \<open>
  Adding the routes of a table asks for exactly its networks, and deleting them asks for the
  removal of exactly what adding them asked for.
\<close>

theorem routes_add_del:
  "(let K' = kernel_routes ok K (add_route_for_nodes st)
    in agree_off (k_unmet K') (k_table K') (k_table K \<union> routes_of st)) \<and>
   (let K' = kernel_routes ok K (del_route_for_nodes st)
    in agree_off (k_unmet K') (k_table K') (k_table K - routes_of st)) \<and>
   (let K' = kernel_routes ok K (add_route_for_nodes st @ del_route_for_nodes st)
    in agree_off (k_unmet K') (k_table K') (k_table K - routes_of st))"
  unfolding Let_def
  by (intro conjI table.install [OF refl] table.uninstall [OF refl] table.install_uninstall [OF refl])

text \<open>The local node is never routed, whatever its subnets are.\<close>

lemma table_nets_self: "table_nets self nodes = table_nets self (filter (\<lambda>n. node_ID n \<noteq> self) nodes)"
  by (induction nodes) auto

section \<open>Device set-up\<close>

text \<open>
  A server that starts in tun mode with its device up runs the down command, the up
  command and the address command in this order, then installs the routes of the mesh; its table
  is the one of the configuration and its cache is empty.
\<close>

theorem new_server_tun:
  assumes "tapMode cfg = 0"
  shows "\<exists>st. new_server uid (fd, name) True mac cfg =
      Goes st (exec_down_cmd st @ exec_up_cmd st @
        [IfUp name, System (c_str (ip_addr_command st))] @ add_route_for_nodes st) \<and>
    m_cpes st = map mesh_node (nodeInfoList cfg) \<and> cache_sound st \<and> atoi (m_node_id st) = uid \<and>
    node_virtual_IP (m_node st) = htonl (inet_addr (c_str (userIP cfg))) \<and>
    \<not> m_send_callback st \<and> m_gateway_id st = 0"
  using assms
  by (simp add: new_server_def Let_def init_tap_tun_dev_def init_mesh_cpes_def init_local_node_def
      cache_sound_def)

theorem new_server_tun_witness:
  "\<exists>st. new_server 1 (3, str ''t'') True [] (new_mzConfig\<lparr>nodeInfoList := []\<rparr>) =
      Goes st [IfUp (str ''t''), System (c_str (ip_addr_command st))] \<and> m_cpes st = []"
proof -
  have "tapMode (new_mzConfig\<lparr>nodeInfoList := []\<rparr>) = 0" by (simp add: new_mzConfig_def reset_def)
  from new_server_tun [OF this, of 1 3 "str ''t''" "[]"] show ?thesis
    by (auto simp: add_route_for_nodes_def new_server_def Let_def init_tap_tun_dev_def init_mesh_cpes_def
        init_local_node_def exec_up_cmd_def exec_down_cmd_def new_mzConfig_def reset_def)
qed

text \<open>
  A server whose device could not be created goes on with the error code as its
  descriptor: the code is negative, the unsigned field makes it a large number that is not 0, and
  the guard of the receiving side, which looks for 0, lets the first packet through to a write on
  a descriptor that does not exist.
\<close>

theorem failed_device_unnoticed:
  assumes "- (2 ^ 31) \<le> err" "err < 0" "new_server uid (err, name) True mac cfg = Goes st es" "4 \<le> len"
  shows "handle_route_data_recv (\<lambda>_. False) data len st =
    Stops (Exit (-1)) [DevWrite (word_of_int err) (take (unat len - 4) (drop 4 data)), CloseFd (word_of_int err)]"
proof -
  have "m_tun_tap_dev_fd st = word_of_int err"
    using assms(3)
    by (auto simp: new_server_def Let_def init_mesh_cpes_def init_local_node_def run_then_eq_Goes
        simp del: run_then.simps)
  moreover have "(word_of_int err :: u32) \<noteq> 0"
    using assms(1,2) by (auto simp: word_of_int_eq_0_iff dvd_def)
  ultimately show ?thesis
    using assms(4) by (simp add: handle_route_data_recv_def Let_def)
qed

theorem failed_device_unnoticed_witness:
  "\<exists>st es. new_server 1 (-1, str ''t'') True [] new_mzConfig = Goes st es \<and>
     handle_route_data_recv (\<lambda>_. False) [0, 0, 0, 0, 7] 5 st = Stops (Exit (-1)) [DevWrite (- 1) [7], CloseFd (- 1)]"
proof -
  obtain st es where n: "new_server 1 (-1, str ''t'') True [] new_mzConfig = Goes st es"
    by (simp add: new_server_def Let_def init_tap_tun_dev_def new_mzConfig_def reset_def
        init_mesh_cpes_def init_local_node_def)
  from failed_device_unnoticed [OF _ _ n, of 5 "[0, 0, 0, 0, 7]"] n show ?thesis by auto
qed

end
