(* ===== verification/Wire.thy ===== *)
theory Wire
  imports Prelude
begin

text \<open>
  The protobuf wire format as the generated message classes of \<open>pro/\<close> use it: the input stream
  of \<open>parse_context.h\<close> over one flat array with its limits and its 16-byte window, the readers of
  tags, varints, sizes and strings, the parser of unknown fields, the parse loop that all
  generated \<open>_InternalParse\<close> functions share, and the writers and size functions.

  A pointer into the input is its offset in the array, also after the stream has copied the last
  16 bytes into its patch buffer; behind the end of the array the patch buffer holds zeros.
  \<open>None\<close> is the null pointer. The loops carry a fuel that every turn decreases; the section on
  fuel shows that one unit per remaining byte, and one more, is always enough.
\<close>

section \<open>The input stream\<close>

definition mem :: "bytes \<Rightarrow> nat \<Rightarrow> byte" where
  "mem data i = (if i < length data then data ! i else 0)"

definition slice :: "bytes \<Rightarrow> nat \<Rightarrow> nat \<Rightarrow> bytes" where
  "slice data p n = map (mem data) [p..<p + n]"

text \<open>
  \<open>limit\<close> is relative to \<open>buffer_end\<close>, \<open>limit_end\<close> is \<open>buffer_end + min(0, limit)\<close>; \<open>next_chunk\<close>
  tells whether the patch buffer is still to come.
\<close>

record ctx =
  buffer_end :: nat
  limit :: int
  limit_end :: int
  next_chunk :: bool
  last_tag_minus_1 :: u32
  depth :: int

definition InitFrom :: "int \<Rightarrow> bytes \<Rightarrow> ctx" where
  "InitFrom d data =
     (let size = length data in
      if 16 < size
      then \<lparr>buffer_end = size - 16, limit = 16, limit_end = int (size - 16), next_chunk = True,
             last_tag_minus_1 = 0, depth = d\<rparr>
      else \<lparr>buffer_end = size, limit = 0, limit_end = int size, next_chunk = False,
             last_tag_minus_1 = 0, depth = d\<rparr>)"

definition set_limit_end :: "ctx \<Rightarrow> ctx" where
  "set_limit_end c = c\<lparr>limit_end := int (buffer_end c) + min 0 (limit c)\<rparr>"

definition SetLastTag :: "u32 \<Rightarrow> ctx \<Rightarrow> ctx" where
  "SetLastTag tag c = c\<lparr>last_tag_minus_1 := tag - 1\<rparr>"

definition SetEndOfStream :: "ctx \<Rightarrow> ctx" where
  "SetEndOfStream c = c\<lparr>last_tag_minus_1 := 1\<rparr>"

definition EndedAtLimit :: "ctx \<Rightarrow> bool" where
  "EndedAtLimit c \<longleftrightarrow> last_tag_minus_1 c = 0"

definition ConsumeEndGroup :: "u32 \<Rightarrow> ctx \<Rightarrow> bool \<times> ctx" where
  "ConsumeEndGroup start_tag c = (last_tag_minus_1 c = start_tag, c\<lparr>last_tag_minus_1 := 0\<rparr>)"

text \<open>\<open>PushLimit\<close> returns the difference that \<open>PopLimit\<close> takes.\<close>

definition PushLimit :: "nat \<Rightarrow> nat \<Rightarrow> ctx \<Rightarrow> int \<times> ctx" where
  "PushLimit ptr lim c =
     (let l = int lim + (int ptr - int (buffer_end c))
      in (limit c - l, set_limit_end (c\<lparr>limit := l\<rparr>)))"

definition PopLimit :: "int \<Rightarrow> ctx \<Rightarrow> bool \<times> ctx" where
  "PopLimit delta c =
     (if EndedAtLimit c then (True, set_limit_end (c\<lparr>limit := limit c + delta\<rparr>)) else (False, c))"

definition DataAvailable :: "nat \<Rightarrow> ctx \<Rightarrow> bool" where
  "DataAvailable ptr c \<longleftrightarrow> int ptr < limit_end c"

text \<open>
  \<open>NextBuffer\<close> for an array: the last 16 bytes move to the patch buffer, of which the returned
  pointer is the start; the second time there is no next chunk.
\<close>

definition NextBuffer :: "ctx \<Rightarrow> (nat \<times> ctx) option" where
  "NextBuffer c =
     (if next_chunk c
      then Some (buffer_end c, c\<lparr>next_chunk := False, buffer_end := buffer_end c + 16\<rparr>) else None)"

definition advance_limit :: "nat \<Rightarrow> ctx \<Rightarrow> ctx" where
  "advance_limit p c = c\<lparr>limit := limit c - (int (buffer_end c) - int p)\<rparr>"

function done_loop :: "int \<Rightarrow> ctx \<Rightarrow> nat option \<times> bool \<times> ctx" where
  "done_loop overrun c =
     (case NextBuffer c of
        None \<Rightarrow>
          if overrun \<noteq> 0 then (None, True, c)
          else (Some (buffer_end c), True, SetEndOfStream (c\<lparr>limit_end := int (buffer_end c)\<rparr>))
      | Some (p, c') \<Rightarrow>
          (let c'' = advance_limit p c';
               p' = int p + overrun;
               overrun' = p' - int (buffer_end c'')
           in if 0 \<le> overrun' then done_loop overrun' c''
              else (Some (nat p'), False, set_limit_end c'')))"
  by pat_completeness auto
termination
  by (relation "measure (\<lambda>(_, c). if next_chunk c then 1 else 0)")
     (auto simp: NextBuffer_def advance_limit_def split: if_splits)

declare done_loop.simps [simp del]

definition DoneFallback :: "int \<Rightarrow> ctx \<Rightarrow> nat option \<times> bool \<times> ctx" where
  "DoneFallback overrun c = (if limit c < overrun then (None, True, c) else done_loop overrun c)"

definition Done :: "nat \<Rightarrow> ctx \<Rightarrow> nat option \<times> bool \<times> ctx" where
  "Done ptr c =
     (if int ptr < limit_end c then (Some ptr, False, c)
      else
        let overrun = int ptr - int (buffer_end c) in
        if overrun = limit c
        then (if 0 < overrun \<and> \<not> next_chunk c then None else Some ptr, True, c)
        else DoneFallback overrun c)"

section \<open>Reading scalars\<close>

text \<open>
  The slow paths for varints, tags and sizes: \<open>i\<close> is the index of the next byte. The 32-bit
  varint ignores the value of the bytes from the sixth on.
\<close>

function VarintParseSlow32 :: "bytes \<Rightarrow> nat \<Rightarrow> nat \<Rightarrow> u32 \<Rightarrow> (nat \<times> u32) option" where
  "VarintParseSlow32 data p i res =
     (if i < 10 then
        let byte = ucast (mem data (p + i));
            res' = (if i < 5 then res + push_bit (7 * i) (byte - 1) else res)
        in if byte < 128 then Some (p + i + 1, res') else VarintParseSlow32 data p (i + 1) res'
      else None)"
  by pat_completeness auto
termination by (relation "measure (\<lambda>(_, _, i, _). 10 - i)") auto

function VarintParseSlow64 :: "bytes \<Rightarrow> nat \<Rightarrow> nat \<Rightarrow> u64 \<Rightarrow> (nat \<times> u64) option" where
  "VarintParseSlow64 data p i res =
     (if i < 10 then
        let byte = ucast (mem data (p + i));
            res' = res + push_bit (7 * i) (byte - 1)
        in if byte < 128 then Some (p + i + 1, res') else VarintParseSlow64 data p (i + 1) res'
      else None)"
  by pat_completeness auto
termination by (relation "measure (\<lambda>(_, _, i, _). 10 - i)") auto

function ReadTagFallback :: "bytes \<Rightarrow> nat \<Rightarrow> nat \<Rightarrow> u32 \<Rightarrow> (nat \<times> u32) option" where
  "ReadTagFallback data p i res =
     (if i < 5 then
        let byte = ucast (mem data (p + i));
            res' = res + push_bit (7 * i) (byte - 1)
        in if byte < 128 then Some (p + i + 1, res') else ReadTagFallback data p (i + 1) res'
      else None)"
  by pat_completeness auto
termination by (relation "measure (\<lambda>(_, _, i, _). 5 - i)") auto

function ReadSizeFallback :: "bytes \<Rightarrow> nat \<Rightarrow> nat \<Rightarrow> u32 \<Rightarrow> (nat \<times> u32) option" where
  "ReadSizeFallback data p i res =
     (if i < 4 then
        let byte = ucast (mem data (p + i));
            res' = res + push_bit (7 * i) (byte - 1)
        in if byte < 128 then Some (p + i + 1, res') else ReadSizeFallback data p (i + 1) res'
      else
        let byte = ucast (mem data (p + 4));
            res' = res + push_bit 28 (byte - 1)
        in if 8 \<le> byte then None
           else if 0x7FFFFFEF < res' then None
           else Some (p + 5, res'))"
  by pat_completeness auto
termination by (relation "measure (\<lambda>(_, _, i, _). 4 - i)") auto

declare VarintParseSlow32.simps [simp del] VarintParseSlow64.simps [simp del]
  ReadTagFallback.simps [simp del] ReadSizeFallback.simps [simp del]

definition ReadVarint32 :: "bytes \<Rightarrow> nat \<Rightarrow> (nat \<times> u32) option" where
  "ReadVarint32 data p =
     (let b0 = ucast (mem data p); b1 = ucast (mem data (p + 1)); res = b0 + push_bit 7 (b1 - 1)
      in if b0 < 128 then Some (p + 1, b0)
         else if b1 < 128 then Some (p + 2, res)
         else VarintParseSlow32 data p 2 res)"

definition ReadVarint64 :: "bytes \<Rightarrow> nat \<Rightarrow> (nat \<times> u64) option" where
  "ReadVarint64 data p =
     (let b0 = ucast (mem data p) :: u32; b1 = ucast (mem data (p + 1)); res = b0 + push_bit 7 (b1 - 1)
      in if b0 < 128 then Some (p + 1, ucast b0)
         else if b1 < 128 then Some (p + 2, ucast res)
         else VarintParseSlow64 data p 2 (ucast res))"

definition ReadTag :: "bytes \<Rightarrow> nat \<Rightarrow> (nat \<times> u32) option" where
  "ReadTag data p =
     (let b0 = ucast (mem data p); b1 = ucast (mem data (p + 1)); res = b0 + push_bit 7 (b1 - 1)
      in if b0 < 128 then Some (p + 1, b0)
         else if b1 < 128 then Some (p + 2, res)
         else ReadTagFallback data p 2 res)"

definition ReadSize :: "bytes \<Rightarrow> nat \<Rightarrow> (nat \<times> nat) option" where
  "ReadSize data p =
     (let b0 = ucast (mem data p) :: u32
      in if b0 < 128 then Some (p + 1, unat b0)
         else map_option (\<lambda>(q, n). (q, unat n)) (ReadSizeFallback data p 1 b0))"

section \<open>Reading strings\<close>

text \<open>
  \<open>AppendSize\<close> appends chunk after chunk; on failure what was appended stays. \<open>Next\<close> flags the
  end of the stream when there is no chunk left.
\<close>

definition Next :: "ctx \<Rightarrow> nat option \<times> ctx" where
  "Next c =
     (case NextBuffer c of
        None \<Rightarrow> (None, SetEndOfStream (c\<lparr>limit_end := int (buffer_end c)\<rparr>))
      | Some (p, c') \<Rightarrow> (Some p, set_limit_end (advance_limit p c')))"

function AppendSize :: "bytes \<Rightarrow> nat \<Rightarrow> nat \<Rightarrow> bytes \<Rightarrow> ctx \<Rightarrow> bytes \<times> nat option \<times> ctx" where
  "AppendSize data ptr n acc c =
     (if \<not> next_chunk c then (acc, None, c)
      else
        let chunk_size = buffer_end c + 16 - ptr;
            acc' = acc @ slice data ptr chunk_size;
            n' = n - chunk_size
        in if limit c \<le> 16 then (acc', None, c)
           else case Next c of
               (None, c') \<Rightarrow> (acc', None, c')
             | (Some p, c') \<Rightarrow>
                 (let ptr' = p + 16; chunk_size' = buffer_end c' + 16 - ptr' in
                  if chunk_size' < n' then AppendSize data ptr' n' acc' c'
                  else (acc' @ slice data ptr' n', Some (ptr' + n'), c')))"
  by pat_completeness auto
termination
  by (relation "measure (\<lambda>(_, _, _, _, c). if next_chunk c then 1 else 0)")
     (auto simp: Next_def NextBuffer_def advance_limit_def set_limit_end_def split: if_splits)

declare AppendSize.simps [simp del]

definition AppendString :: "bytes \<Rightarrow> nat \<Rightarrow> nat \<Rightarrow> bytes \<Rightarrow> ctx \<Rightarrow> bytes \<times> nat option \<times> ctx" where
  "AppendString data ptr n s c =
     (if ptr + n \<le> buffer_end c + 16 then (s @ slice data ptr n, Some (ptr + n), c)
      else AppendSize data ptr n s c)"

text \<open>\<open>ReadString\<close> replaces the string, \<open>InlineGreedyStringParser\<close> reads its size first.\<close>

definition ReadString :: "bytes \<Rightarrow> nat \<Rightarrow> nat \<Rightarrow> ctx \<Rightarrow> bytes \<times> nat option \<times> ctx" where
  "ReadString data ptr n c = AppendString data ptr n [] c"

definition InlineGreedyStringParser ::
  "bytes \<Rightarrow> bytes \<Rightarrow> nat \<Rightarrow> ctx \<Rightarrow> bytes \<times> nat option \<times> ctx" where
  "InlineGreedyStringParser data s ptr c =
     (case ReadSize data ptr of
        None \<Rightarrow> (s, None, c)
      | Some (p, n) \<Rightarrow> ReadString data p n c)"

section \<open>Writing\<close>

function WriteVarint :: "u64 \<Rightarrow> bytes" where
  "WriteVarint val =
     (if 128 \<le> val then ucast (val OR 128) # WriteVarint (drop_bit 7 val) else [ucast val])"
  by pat_completeness auto
termination
  by (relation "measure unat")
     (auto simp: word_le_nat_alt drop_bit_eq_div unat_div)

declare WriteVarint.simps [simp del]

text \<open>
  The sizes: \<open>(log2 * 9 + 73) / 64\<close> bytes of varint. \<open>Log2FloorNonZero\<close> is the index of the
  highest one bit.
\<close>

fun log2_floor :: "nat \<Rightarrow> nat" where
  "log2_floor n = (if n < 2 then 0 else Suc (log2_floor (n div 2)))"

declare log2_floor.simps [simp del]

definition VarintSize64 :: "u64 \<Rightarrow> nat" where
  "VarintSize64 value = (log2_floor (unat (value OR 1)) * 9 + 73) div 64"

definition VarintSize32 :: "u32 \<Rightarrow> nat" where
  "VarintSize32 value = (log2_floor (unat (value OR 1)) * 9 + 73) div 64"

text \<open>An \<open>int32\<close> is sign-extended to 64 bits before it is written.\<close>

definition Int32Size :: "u32 \<Rightarrow> nat" where
  "Int32Size value = VarintSize64 (scast value)"

definition LengthDelimitedSize :: "nat \<Rightarrow> nat" where
  "LengthDelimitedSize n = n + VarintSize32 (word_of_nat n)"

definition MakeTag :: "nat \<Rightarrow> nat \<Rightarrow> u32" where
  "MakeTag number wire_type = word_of_nat (8 * number + wire_type)"

definition WriteTag :: "u32 \<Rightarrow> bytes" where
  "WriteTag tag = WriteVarint (ucast tag)"

definition WriteInt32 :: "nat \<Rightarrow> u32 \<Rightarrow> bytes" where
  "WriteInt32 number value = WriteTag (MakeTag number 0) @ WriteVarint (scast value)"

definition WriteUInt32 :: "nat \<Rightarrow> u32 \<Rightarrow> bytes" where
  "WriteUInt32 number value = WriteTag (MakeTag number 0) @ WriteVarint (ucast value)"

definition WriteUInt64 :: "nat \<Rightarrow> u64 \<Rightarrow> bytes" where
  "WriteUInt64 number value = WriteTag (MakeTag number 0) @ WriteVarint value"

definition WriteBytes :: "nat \<Rightarrow> bytes \<Rightarrow> bytes" where
  "WriteBytes number s = WriteTag (MakeTag number 2) @ WriteVarint (word_of_nat (length s)) @ s"

section \<open>Unknown fields\<close>

text \<open>
  What is not a field of the message is copied, re-encoded, to the string of unknown fields. A
  group is parsed to its end tag, one level deeper.
\<close>

definition AddVarint :: "u32 \<Rightarrow> u64 \<Rightarrow> bytes \<Rightarrow> bytes" where
  "AddVarint num val unknown = unknown @ WriteVarint (ucast (num * 8)) @ WriteVarint val"

definition AddFixed64 :: "u32 \<Rightarrow> bytes \<Rightarrow> bytes \<Rightarrow> bytes" where
  "AddFixed64 num raw unknown = unknown @ WriteVarint (ucast (num * 8 + 1)) @ raw"

definition AddFixed32 :: "u32 \<Rightarrow> bytes \<Rightarrow> bytes \<Rightarrow> bytes" where
  "AddFixed32 num raw unknown = unknown @ WriteVarint (ucast (num * 8 + 5)) @ raw"

definition ParseLengthDelimited ::
  "bytes \<Rightarrow> u32 \<Rightarrow> bytes \<Rightarrow> nat \<Rightarrow> ctx \<Rightarrow> bytes \<times> nat option \<times> ctx" where
  "ParseLengthDelimited data num unknown ptr c =
     (case ReadSize data ptr of
        None \<Rightarrow> (unknown, None, c)
      | Some (p, n) \<Rightarrow>
          AppendString data p n
            (unknown @ WriteVarint (ucast (num * 8 + 2)) @ WriteVarint (word_of_nat n)) c)"

type_synonym 'a parsed = "('a \<times> nat option \<times> ctx) option"

text \<open>
  \<open>FieldParser\<close> with \<open>ParseGroup\<close>, and \<open>WireFormatParser\<close>, the loop over the fields of a group.
\<close>

function FieldParser :: "nat \<Rightarrow> bytes \<Rightarrow> u32 \<Rightarrow> bytes \<Rightarrow> nat \<Rightarrow> ctx \<Rightarrow> bytes parsed"
  and WireFormatParser :: "nat \<Rightarrow> bytes \<Rightarrow> bytes \<Rightarrow> nat \<Rightarrow> ctx \<Rightarrow> bytes parsed" where
  "FieldParser k data tag unknown ptr c =
     (let number = drop_bit 3 tag; wire_type = tag AND 7 in
      if number = 0 then Some (unknown, None, c)
      else if wire_type = 0 then
        (case ReadVarint64 data ptr of
           None \<Rightarrow> Some (unknown, None, c)
         | Some (p, value) \<Rightarrow> Some (AddVarint number value unknown, Some p, c))
      else if wire_type = 1 then
        Some (AddFixed64 number (slice data ptr 8) unknown, Some (ptr + 8), c)
      else if wire_type = 2 then Some (ParseLengthDelimited data number unknown ptr c)
      else if wire_type = 3 then
        (let unknown1 = unknown @ WriteVarint (ucast (number * 8 + 3));
             c1 = c\<lparr>depth := depth c - 1\<rparr>
         in if depth c1 < 0 then Some (unknown1, None, c1)
            else
              (case WireFormatParser k data unknown1 ptr c1 of
                 None \<Rightarrow> None
               | Some (unknown2, q, c2) \<Rightarrow>
                   (let (matches, c3) = ConsumeEndGroup (number * 8 + 3) (c2\<lparr>depth := depth c2 + 1\<rparr>)
                    in case (matches, q) of
                         (True, Some p) \<Rightarrow>
                           Some (unknown2 @ WriteVarint (ucast (number * 8 + 4)), Some p, c3)
                       | _ \<Rightarrow> Some (unknown2, None, c3))))
      else if wire_type = 5 then
        Some (AddFixed32 number (slice data ptr 4) unknown, Some (ptr + 4), c)
      else Some (unknown, None, c))"
| "WireFormatParser 0 data unknown ptr c = None"
| "WireFormatParser (Suc k) data unknown ptr c =
     (case Done ptr c of
        (q, True, c') \<Rightarrow> Some (unknown, q, c')
      | (None, False, c') \<Rightarrow> Some (unknown, None, c')
      | (Some p, False, c') \<Rightarrow>
          (case ReadTag data p of
             None \<Rightarrow> Some (unknown, None, c')
           | Some (q, tag) \<Rightarrow>
               if tag = 0 \<or> tag AND 7 = 4 then Some (unknown, Some q, SetLastTag tag c')
               else
                 (case FieldParser k data tag unknown q c' of
                    Some (unknown', Some r, c'') \<Rightarrow> WireFormatParser k data unknown' r c''
                  | res \<Rightarrow> res)))"
  by pat_completeness auto
termination
  by (relation "measure (case_sum (\<lambda>(k, _). 2 * k + 1) (\<lambda>(k, _). 2 * k))") auto

declare FieldParser.simps [simp del] WireFormatParser.simps [simp del]

section \<open>Messages\<close>

text \<open>What every message has from its base class: the unknown fields it was parsed with.\<close>

record message_lite =
  unknown_fields :: bytes

text \<open>
  The \<open>switch\<close> of a generated parser: a field of the message is read and the loop continues, or
  the tag is unusual; the read may fail (a null pointer) or, for a message field, run out of fuel.
\<close>

datatype 'm handled = Unusual | Field 'm "nat option" ctx | NoFuel

text \<open>
  The bodies of the cases. A varint that cannot be read leaves 0 in the field; a string is parsed
  into the field itself, a message into the message that is there.
\<close>

definition varint32_field :: "(u32 \<Rightarrow> 'm \<Rightarrow> 'm) \<Rightarrow> bytes \<Rightarrow> 'm \<Rightarrow> nat \<Rightarrow> ctx \<Rightarrow> 'm handled" where
  "varint32_field upd data m ptr c =
     (case ReadVarint32 data ptr of None \<Rightarrow> Field (upd 0 m) None c | Some (r, v) \<Rightarrow> Field (upd v m) (Some r) c)"

definition varint64_field :: "(u64 \<Rightarrow> 'm \<Rightarrow> 'm) \<Rightarrow> bytes \<Rightarrow> 'm \<Rightarrow> nat \<Rightarrow> ctx \<Rightarrow> 'm handled" where
  "varint64_field upd data m ptr c =
     (case ReadVarint64 data ptr of None \<Rightarrow> Field (upd 0 m) None c | Some (r, v) \<Rightarrow> Field (upd v m) (Some r) c)"

definition bytes_field ::
  "('m \<Rightarrow> bytes) \<Rightarrow> (bytes \<Rightarrow> 'm \<Rightarrow> 'm) \<Rightarrow> bytes \<Rightarrow> 'm \<Rightarrow> nat \<Rightarrow> ctx \<Rightarrow> 'm handled" where
  "bytes_field get upd data m ptr c =
     (case InlineGreedyStringParser data (get m) ptr c of (s, r, c') \<Rightarrow> Field (upd s m) r c')"

type_synonym 'm field_switch = "nat \<Rightarrow> bytes \<Rightarrow> u32 \<Rightarrow> 'm \<Rightarrow> nat \<Rightarrow> ctx \<Rightarrow> 'm handled"

text \<open>The loop of the generated \<open>_InternalParse\<close> functions, with the \<open>switch\<close> as an argument.\<close>

fun InternalParse ::
  "'a message_lite_scheme field_switch \<Rightarrow> nat \<Rightarrow> bytes \<Rightarrow> 'a message_lite_scheme \<Rightarrow> nat \<Rightarrow> ctx \<Rightarrow>
   'a message_lite_scheme parsed" where
  "InternalParse switch 0 data m ptr c = None"
| "InternalParse switch (Suc k) data m ptr c =
     (case Done ptr c of
        (q, True, c') \<Rightarrow> Some (m, q, c')
      | (None, False, c') \<Rightarrow> Some (m, None, c')
      | (Some p, False, c') \<Rightarrow>
          (case ReadTag data p of
             None \<Rightarrow> Some (m, None, c')
           | Some (q, tag) \<Rightarrow>
               (case switch k data tag m q c' of
                  NoFuel \<Rightarrow> None
                | Field m' None c'' \<Rightarrow> Some (m', None, c'')
                | Field m' (Some r) c'' \<Rightarrow> InternalParse switch k data m' r c''
                | Unusual \<Rightarrow>
                    if tag = 0 \<or> tag AND 7 = 4 then Some (m, Some q, SetLastTag tag c')
                    else
                      (case FieldParser k data tag (unknown_fields m) q c' of
                         None \<Rightarrow> None
                       | Some (u, None, c'') \<Rightarrow> Some (m\<lparr>unknown_fields := u\<rparr>, None, c'')
                       | Some (u, Some r, c'') \<Rightarrow>
                           InternalParse switch k data (m\<lparr>unknown_fields := u\<rparr>) r c''))))"

text \<open>\<open>ParseContext::ParseMessage\<close>: a message field, inside its own limit and one level deeper.\<close>

definition ParseMessage :: "(nat \<Rightarrow> ctx \<Rightarrow> 'm parsed) \<Rightarrow> bytes \<Rightarrow> 'm \<Rightarrow> nat \<Rightarrow> ctx \<Rightarrow> 'm parsed" where
  "ParseMessage parse data m ptr c =
     (case ReadSize data ptr of
        None \<Rightarrow> Some (m, None, c\<lparr>depth := depth c + 1\<rparr>)
      | Some (p, n) \<Rightarrow>
          (let (old, c1) = PushLimit p n c;
               c2 = c1\<lparr>depth := depth c1 - 1\<rparr>
           in case (if depth c2 < 0 then Some (m, None, c2) else parse p c2) of
                None \<Rightarrow> None
              | Some (m', q, c3) \<Rightarrow>
                  (let (ok, c4) = PopLimit old (c3\<lparr>depth := depth c3 + 1\<rparr>)
                   in Some (m', if ok then q else None, c4))))"

text \<open>
  A repeated message field: one element after the other as long as the next byte is the tag of
  the field, \<open>expected\<close>; \<open>new\<close> is a new element.
\<close>

fun ParseRepeated ::
  "(nat \<Rightarrow> bytes \<Rightarrow> 'e \<Rightarrow> nat \<Rightarrow> ctx \<Rightarrow> 'e parsed) \<Rightarrow> 'e \<Rightarrow> byte \<Rightarrow> nat \<Rightarrow> bytes \<Rightarrow> 'e list \<Rightarrow> nat \<Rightarrow> ctx \<Rightarrow>
   'e list parsed" where
  "ParseRepeated parse new expected 0 data es ptr c = None"
| "ParseRepeated parse new expected (Suc k) data es ptr c =
     (case ParseMessage (parse k data new) data new ptr c of
        None \<Rightarrow> None
      | Some (e, None, c') \<Rightarrow> Some (es @ [e], None, c')
      | Some (e, Some r, c') \<Rightarrow>
          if DataAvailable r c' \<and> mem data r = expected
          then ParseRepeated parse new expected k data (es @ [e]) (r + 1) c'
          else Some (es @ [e], Some r, c'))"

definition message_field ::
  "(nat \<Rightarrow> bytes \<Rightarrow> 'e \<Rightarrow> nat \<Rightarrow> ctx \<Rightarrow> 'e parsed) \<Rightarrow> ('m \<Rightarrow> 'e) \<Rightarrow> ('e \<Rightarrow> 'm \<Rightarrow> 'm) \<Rightarrow>
   nat \<Rightarrow> bytes \<Rightarrow> 'm \<Rightarrow> nat \<Rightarrow> ctx \<Rightarrow> 'm handled" where
  "message_field parse get upd k data m ptr c =
     (case ParseMessage (parse k data (get m)) data (get m) ptr c of
        None \<Rightarrow> NoFuel | Some (x, r, c') \<Rightarrow> Field (upd x m) r c')"

definition repeated_field ::
  "(nat \<Rightarrow> bytes \<Rightarrow> 'e \<Rightarrow> nat \<Rightarrow> ctx \<Rightarrow> 'e parsed) \<Rightarrow> 'e \<Rightarrow> byte \<Rightarrow> ('m \<Rightarrow> 'e list) \<Rightarrow>
   ('e list \<Rightarrow> 'm \<Rightarrow> 'm) \<Rightarrow> nat \<Rightarrow> bytes \<Rightarrow> 'm \<Rightarrow> nat \<Rightarrow> ctx \<Rightarrow> 'm handled" where
  "repeated_field parse new expected get put k data m ptr c =
     (case ParseRepeated parse new expected k data (get m) ptr c of
        None \<Rightarrow> NoFuel | Some (es, r, c') \<Rightarrow> Field (put es m) r c')"

text \<open>
  \<open>ParseFromString\<close> on a cleared message: the message as it was left and the result. The
  recursion limit is 100.
\<close>

definition ParseFromString ::
  "('m \<Rightarrow> nat \<Rightarrow> ctx \<Rightarrow> 'm parsed) \<Rightarrow> 'm \<Rightarrow> bytes \<Rightarrow> ('m \<times> bool) option" where
  "ParseFromString parse cleared data =
     (case parse cleared 0 (InitFrom 100 data) of
        None \<Rightarrow> None
      | Some (m, ptr, c) \<Rightarrow> Some (m, ptr \<noteq> None \<and> EndedAtLimit c))"

section \<open>Varints\<close>

text \<open>The base-128 digits of a number, lowest first, all but the last with the high bit.\<close>

fun varint_digits :: "nat \<Rightarrow> nat list" where
  "varint_digits v = (if 128 \<le> v then (v mod 128 + 128) # varint_digits (v div 128) else [v])"

declare varint_digits.simps [simp del]

lemma varint_digits_not_Nil [simp]: "varint_digits v \<noteq> []"
  by (subst varint_digits.simps) simp

lemma WriteVarint_digits: "WriteVarint v = map word_of_nat (varint_digits (unat v))"
proof (induction v rule: WriteVarint.induct)
  case (1 v)
  have cont: "ucast (v OR 128) = (word_of_nat (unat v mod 128 + 128) :: byte)"
  proof (rule bit_word_eqI)
    fix n assume n: "n < LENGTH(8)"
    have "bit (128 :: u64) n \<longleftrightarrow> n = 7"
    proof -
      have "(128 :: u64) = push_bit 7 1" by simp
      then show ?thesis using n by (simp only: bit_simps) auto
    qed
    moreover have "bit (word_of_nat (unat v mod 128 + 128) :: byte) n \<longleftrightarrow> (n < 7 \<and> bit v n) \<or> n = 7"
    proof -
      have d: "unat v mod 128 + 128 = or (take_bit 7 (unat v)) (push_bit 7 1)"
      proof -
        have "unat v mod 128 + 128 = take_bit 7 (unat v) + push_bit 7 1" by (simp add: take_bit_eq_mod)
        also have "\<dots> = or (take_bit 7 (unat v)) (push_bit 7 1)"
          by (rule disjunctive_add) (unfold bit_take_bit_iff bit_push_bit_iff, auto)
        finally show ?thesis .
      qed
      show ?thesis unfolding d using n
        by (simp only: bit_of_nat_iff bit_or_iff bit_take_bit_iff bit_push_bit_iff bit_unsigned_iff bit_1_iff) auto
    qed
    ultimately show "bit (ucast (v OR 128) :: byte) n = bit (word_of_nat (unat v mod 128 + 128) :: byte) n"
      using n by (auto simp: bit_simps)
  qed
  show ?case
  proof (cases "128 \<le> v")
    case True
    then have "128 \<le> unat v" by (simp add: word_le_nat_alt)
    moreover have "unat (drop_bit 7 v) = unat v div 128" by (simp add: drop_bit_eq_div unat_div)
    ultimately show ?thesis
      using True 1 cont by (subst WriteVarint.simps, subst varint_digits.simps) simp
  next
    case False
    then have "\<not> 128 \<le> unat v" by (simp add: word_le_nat_alt)
    then show ?thesis
      using False by (subst WriteVarint.simps, subst varint_digits.simps) simp
  qed
qed

lemma varint_digits_nth:
  "i < length (varint_digits v) \<Longrightarrow>
   varint_digits v ! i = v div 128 ^ i mod 128 + (if 128 ^ Suc i \<le> v then 128 else 0)"
proof (induction v arbitrary: i rule: varint_digits.induct)
  case (1 v)
  show ?case
  proof (cases "128 \<le> v")
    case True
    then have e: "varint_digits v = (v mod 128 + 128) # varint_digits (v div 128)"
      by (subst varint_digits.simps) simp
    show ?thesis
    proof (cases i)
      case 0
      then show ?thesis using e True by simp
    next
      case (Suc j)
      then have "j < length (varint_digits (v div 128))" using 1(2) e by simp
      from 1(1) [OF True this] show ?thesis
        using Suc e by (simp add: div_mult2_eq [symmetric] less_eq_div_iff_mult_less_eq mult.commute)
    qed
  next
    case False
    then have "varint_digits v = [v]" by (subst varint_digits.simps) simp
    then show ?thesis using 1(2) False by simp
  qed
qed

lemma length_varint_digits: "Suc i < length (varint_digits v) \<longleftrightarrow> 128 ^ Suc i \<le> v"
proof (induction v arbitrary: i rule: varint_digits.induct)
  case (1 v)
  show ?case
  proof (cases "128 \<le> v")
    case True
    then have e: "varint_digits v = (v mod 128 + 128) # varint_digits (v div 128)"
      by (subst varint_digits.simps) simp
    show ?thesis
    proof (cases i)
      case 0
      then show ?thesis using e True by simp
    next
      case (Suc j)
      then show ?thesis
        using 1(1) [OF True, of j] e by (simp add: less_eq_div_iff_mult_less_eq mult.commute)
    qed
  next
    case False
    then have "varint_digits v = [v]" by (subst varint_digits.simps) simp
    moreover have "(128 :: nat) ^ Suc i \<ge> 128" by simp
    ultimately show ?thesis using False by (auto simp del: power_Suc)
  qed
qed


text \<open>The varint of a number at a position of the input.\<close>

definition varint_at :: "bytes \<Rightarrow> nat \<Rightarrow> nat \<Rightarrow> bool" where
  "varint_at data p v \<longleftrightarrow>
     (\<forall>i < length (varint_digits v). mem data (p + i) = word_of_nat (varint_digits v ! i))"

abbreviation varint_len :: "nat \<Rightarrow> nat" where
  "varint_len v \<equiv> length (varint_digits v)"

lemma varint_at_byte:
  assumes "varint_at data p v" "i < varint_len v"
  shows "mem data (p + i) = word_of_nat (v div 128 ^ i mod 128 + (if 128 ^ Suc i \<le> v then 128 else 0))"
  using assms by (simp add: varint_at_def varint_digits_nth)

lemma varint_at_ucast:
  assumes "varint_at data p v" "i < varint_len v" "8 \<le> LENGTH('a::len)"
  shows "(ucast (mem data (p + i)) :: 'a word) =
    word_of_nat (v div 128 ^ i mod 128 + (if Suc i < varint_len v then 128 else 0))" (is "_ = word_of_nat ?d")
    and "(ucast (mem data (p + i)) :: 'a word) < 128 \<longleftrightarrow> Suc i = varint_len v"
proof -
  have d: "?d < 256" by (auto intro: order.strict_trans1 [OF add_right_mono [OF less_imp_le [OF pos_mod_bound]]])
  have p8: "(2::nat) ^ 8 \<le> 2 ^ LENGTH('a)" using assms(3) by (rule power_increasing) simp
  have m: "mem data (p + i) = word_of_nat ?d"
    using varint_at_byte [OF assms(1,2)] by (simp add: length_varint_digits)
  have "unat (word_of_nat ?d :: byte) = ?d" using d by (subst unat_of_nat) simp
  then have u: "unat (ucast (mem data (p + i)) :: 'a word) = ?d"
    using d p8 by (simp add: m unsigned_ucast_eq take_bit_nat_eq_self)
  have "word_of_nat (unat (ucast (mem data (p + i)) :: 'a word)) = (ucast (mem data (p + i)) :: 'a word)"
    by (simp only: of_nat_unat ucast_id)
  then show "(ucast (mem data (p + i)) :: 'a word) = word_of_nat ?d" unfolding u by (rule sym)
  have "(128::nat) < 2 ^ LENGTH('a)" using p8 by simp
  then have "unat (word_of_nat 128 :: 'a word) = 128"
    by (subst unsigned_of_nat) (simp add: take_bit_nat_eq_self)
  then have "unat (128 :: 'a word) = 128" by (simp only: of_nat_numeral)
  then show "(ucast (mem data (p + i)) :: 'a word) < 128 \<longleftrightarrow> Suc i = varint_len v"
    using u assms(2) by (auto simp: word_less_nat_alt)
qed

text \<open>
  The accumulator of the readers: after \<open>i\<close> continued bytes it is the low digits plus the
  high bit of the last one, which the next byte takes off again.
\<close>

lemma varint_step:
  fixes v :: nat
  assumes "i < varint_len v"
  shows "(word_of_nat (v mod 128 ^ i + 128 ^ i) :: 'a::len word) +
      push_bit (7 * i) (word_of_nat (v div 128 ^ i mod 128 + (if Suc i < varint_len v then 128 else 0)) - 1) =
    (if Suc i < varint_len v then word_of_nat (v mod 128 ^ Suc i + 128 ^ Suc i) else word_of_nat v)"
proof -
  have m: "v mod 128 ^ Suc i = 128 ^ i * (v div 128 ^ i mod 128) + v mod 128 ^ i"
    by (simp only: power_Suc2 mod_mult2_eq)
  have pw: "(2 :: 'a word) ^ (7 * i) = 128 ^ i" "(2 :: 'a word) ^ (i * 7) = 128 ^ i"
    by (simp_all add: power_mult [of 2 7, simplified] mult.commute [of i])
  show ?thesis
  proof (cases "Suc i < varint_len v")
    case True
    then show ?thesis
      by (simp only: m if_True) (simp add: push_bit_eq_mult pw algebra_simps)
  next
    case False
    then have "v < 128 ^ Suc i" by (simp add: length_varint_digits del: power_Suc)
    then have "v = 128 ^ i * (v div 128 ^ i mod 128) + v mod 128 ^ i" using m by simp
    then have v: "(word_of_nat v :: 'a word) =
        128 ^ i * word_of_nat (v div 128 ^ i mod 128) + word_of_nat (v mod 128 ^ i)"
      by (metis of_nat_add of_nat_mult of_nat_numeral of_nat_power)
    show ?thesis using False
      by (simp only: if_False v) (simp add: push_bit_eq_mult pw algebra_simps)
  qed
qed

lemma varint_byte_step:
  fixes b :: "'a::len word"
  assumes "varint_at data p v" "i < varint_len v" "8 \<le> LENGTH('a)" "b = ucast (mem data (p + i))"
  shows "b < 128 \<longleftrightarrow> Suc i = varint_len v"
    and "word_of_nat (v mod 128 ^ i + 128 ^ i) + push_bit (7 * i) (b - 1) =
      (if Suc i = varint_len v then word_of_nat v else word_of_nat (v mod 128 ^ Suc i + 128 ^ Suc i))"
proof -
  show "b < 128 \<longleftrightarrow> Suc i = varint_len v"
    unfolding assms(4) by (rule varint_at_ucast(2) [OF assms(1-3)])
  have b: "b = word_of_nat (v div 128 ^ i mod 128 + (if Suc i < varint_len v then 128 else 0))"
    unfolding assms(4) by (rule varint_at_ucast(1) [OF assms(1-3)])
  have "Suc i < varint_len v \<longleftrightarrow> Suc i \<noteq> varint_len v" using assms(2) by auto
  then show "word_of_nat (v mod 128 ^ i + 128 ^ i) + push_bit (7 * i) (b - 1) =
      (if Suc i = varint_len v then word_of_nat v else word_of_nat (v mod 128 ^ Suc i + 128 ^ Suc i))"
    unfolding b varint_step [OF assms(2)] by simp
qed

text \<open>The readers on a varint. A 32-bit reader returns the low 32 bits.\<close>

lemma word32_no_high: "5 \<le> i \<Longrightarrow> push_bit (7 * i) (b :: u32) = 0"
proof -
  assume "5 \<le> i"
  then obtain j where "i = 5 + j" by (metis le_iff_add)
  moreover have "(128 :: u32) ^ 5 = 0" by simp
  ultimately have "(128 :: u32) ^ i = 0" by (simp only: power_add mult_zero_left)
  moreover have "(2 :: u32) ^ (7 * i) = 128 ^ i" by (simp add: power_mult)
  ultimately show ?thesis by (simp only: push_bit_eq_mult mult_zero_right)
qed

lemma VarintParseSlow64_at:
  assumes "varint_at data p v" "varint_len v \<le> 10"
  shows "i < varint_len v \<Longrightarrow>
    VarintParseSlow64 data p i (word_of_nat (v mod 128 ^ i + 128 ^ i)) = Some (p + varint_len v, word_of_nat v)"
proof (induction "10 - i" arbitrary: i)
  case (Suc n)
  note b = varint_byte_step [OF assms(1) Suc.prems _ refl, where 'a = 64]
  show ?case
    unfolding VarintParseSlow64.simps [of data p i] Let_def
    using b Suc.hyps Suc.prems by (cases "Suc i = varint_len v") (simp_all del: of_nat_add power_Suc)
qed (use assms(2) in simp)

lemma VarintParseSlow32_at:
  assumes "varint_at data p v" "varint_len v \<le> 10"
  shows "i < varint_len v \<Longrightarrow>
    VarintParseSlow32 data p i (word_of_nat (v mod 128 ^ i + 128 ^ i)) = Some (p + varint_len v, word_of_nat v)"
proof (induction "10 - i" arbitrary: i)
  case (Suc n)
  note b = varint_byte_step [OF assms(1) Suc.prems _ refl, where 'a = 32]
  have z: "(if i < 5 then r + push_bit (7 * i) x else r) = r + push_bit (7 * i) x" for r x :: u32
    using word32_no_high [of i x] by simp
  show ?case
    unfolding VarintParseSlow32.simps [of data p i] Let_def z
    using b Suc.hyps Suc.prems by (cases "Suc i = varint_len v") (simp_all del: of_nat_add power_Suc)
qed (use assms(2) in simp)

lemma ReadTagFallback_at:
  assumes "varint_at data p v" "varint_len v \<le> 5"
  shows "i < varint_len v \<Longrightarrow>
    ReadTagFallback data p i (word_of_nat (v mod 128 ^ i + 128 ^ i)) = Some (p + varint_len v, word_of_nat v)"
proof (induction "5 - i" arbitrary: i)
  case (Suc n)
  note b = varint_byte_step [OF assms(1) Suc.prems _ refl, where 'a = 32]
  show ?case
    unfolding ReadTagFallback.simps [of data p i] Let_def
    using b Suc.hyps Suc.prems by (cases "Suc i = varint_len v") (simp_all del: of_nat_add power_Suc)
qed (use assms(2) in simp)


lemma varint_len_le: "v < 128 ^ Suc n \<Longrightarrow> varint_len v \<le> Suc n"
  using length_varint_digits [of n v] by (simp del: power_Suc)

lemma varint_len_unat64: "varint_len (unat (v :: u64)) \<le> 10"
proof -
  have "unat v < 2 ^ 64" using unsigned_less [of v, where ?'a = nat] by simp
  then show ?thesis by (intro varint_len_le [of _ 9, simplified]) simp
qed

lemma varint_len_unat32: "varint_len (unat (v :: u32)) \<le> 5"
proof -
  have "unat v < 2 ^ 32" using unsigned_less [of v, where ?'a = nat] by simp
  then show ?thesis by (intro varint_len_le [of _ 4, simplified]) simp
qed

text \<open>The first two bytes, which the readers look at without a loop.\<close>

lemma varint_first:
  fixes b0 :: "'a::len word"
  assumes "varint_at data p v" "8 \<le> LENGTH('a)" "b0 = ucast (mem data p)" "b1 = ucast (mem data (p + 1))"
  shows "b0 < 128 \<longleftrightarrow> varint_len v = 1"
    and "varint_len v = 1 \<Longrightarrow> b0 = word_of_nat v"
    and "varint_len v \<noteq> 1 \<Longrightarrow> b0 = word_of_nat (v mod 128 ^ 1 + 128 ^ 1)"
    and "varint_len v \<noteq> 1 \<Longrightarrow> b1 < 128 \<longleftrightarrow> varint_len v = 2"
    and "varint_len v \<noteq> 1 \<Longrightarrow> b0 + push_bit 7 (b1 - 1) =
      (if varint_len v = 2 then word_of_nat v else word_of_nat (v mod 128 ^ 2 + 128 ^ 2))"
proof -
  have z: "0 < varint_len v" by simp
  note b0 = varint_byte_step [OF assms(1) z assms(2), of b0]
  show "b0 < 128 \<longleftrightarrow> varint_len v = 1" using b0(1) assms(3) by auto
  show v: "varint_len v = 1 \<Longrightarrow> b0 = word_of_nat v" using b0(2) assms(3) by simp
  show c: "b0 = word_of_nat (v mod 128 ^ 1 + 128 ^ 1)" if "varint_len v \<noteq> 1"
    using b0(2) assms(3) that by (simp split: if_splits)
  assume n: "varint_len v \<noteq> 1"
  with z have "1 < varint_len v" by linarith
  note b1 = varint_byte_step [OF assms(1) this assms(2) assms(4)]
  show "b1 < 128 \<longleftrightarrow> varint_len v = 2" using b1(1) by auto
  show "b0 + push_bit 7 (b1 - 1) =
      (if varint_len v = 2 then word_of_nat v else word_of_nat (v mod 128 ^ 2 + 128 ^ 2))"
    using b1(2) c [OF n] by (auto simp: numeral_2_eq_2 simp del: of_nat_add power_Suc)
qed

lemma ReadVarint32_at:
  assumes "varint_at data p v" "varint_len v \<le> 10"
  shows "ReadVarint32 data p = Some (p + varint_len v, word_of_nat v)"
proof -
  note f = varint_first [OF assms(1) _ refl refl, where 'a = 32]
  have "varint_len v \<noteq> 1 \<Longrightarrow> varint_len v \<noteq> 2 \<Longrightarrow> 2 < varint_len v"
    using varint_digits_not_Nil [of v] by (cases "varint_digits v") (auto simp: neq_Nil_conv Suc_lessI)
  then show ?thesis
    unfolding ReadVarint32_def Let_def
    using f VarintParseSlow32_at [OF assms, of 2]
    by (cases "varint_len v = 1"; cases "varint_len v = 2") (simp_all del: of_nat_add power_Suc length_0_conv)
qed

lemma ucast_small: "n < 2 ^ 32 \<Longrightarrow> (ucast (word_of_nat n :: u32) :: u64) = word_of_nat n"
proof -
  assume "n < 2 ^ 32"
  then have "unat (word_of_nat n :: u32) = n"
    by (subst unsigned_of_nat) (simp add: take_bit_nat_eq_self)
  then show ?thesis using of_nat_unat [of "word_of_nat n :: u32"] by metis
qed

lemma ReadVarint64_at:
  assumes "varint_at data p v" "varint_len v \<le> 10"
  shows "ReadVarint64 data p = Some (p + varint_len v, word_of_nat v)"
proof -
  note f = varint_first [OF assms(1) _ refl refl, where 'a = 32]
  have l2: "varint_len v \<noteq> 1 \<Longrightarrow> varint_len v \<noteq> 2 \<Longrightarrow> 2 < varint_len v"
    using varint_digits_not_Nil [of v] by (cases "varint_digits v") (auto simp: neq_Nil_conv Suc_lessI)
  have "v < 128" if "varint_len v = 1"
    using that length_varint_digits [of 0 v] by simp
  moreover have "v < 128 ^ 2" if "varint_len v = 2"
    using that length_varint_digits [of 1 v] by (simp add: numeral_2_eq_2)
  moreover have "v mod 128 ^ 2 + 128 ^ 2 < 2 ^ 32"
    using mod_less_divisor [of "128 ^ 2" v] by simp
  ultimately have u:
    "varint_len v = 1 \<Longrightarrow> (ucast (word_of_nat v :: u32) :: u64) = word_of_nat v"
    "varint_len v = 2 \<Longrightarrow> (ucast (word_of_nat v :: u32) :: u64) = word_of_nat v"
    "(ucast (word_of_nat (v mod 128 ^ 2 + 128 ^ 2) :: u32) :: u64) = word_of_nat (v mod 128 ^ 2 + 128 ^ 2)"
    by (auto intro!: ucast_small simp del: of_nat_add)
  show ?thesis
    unfolding ReadVarint64_def Let_def
    using f u l2 VarintParseSlow64_at [OF assms, of 2]
    by (cases "varint_len v = 1"; cases "varint_len v = 2") (simp_all del: of_nat_add power_Suc length_0_conv)
qed

lemma ReadTag_at:
  assumes "varint_at data p v" "varint_len v \<le> 5"
  shows "ReadTag data p = Some (p + varint_len v, word_of_nat v)"
proof -
  note f = varint_first [OF assms(1) _ refl refl, where 'a = 32]
  have "varint_len v \<noteq> 1 \<Longrightarrow> varint_len v \<noteq> 2 \<Longrightarrow> 2 < varint_len v"
    using varint_digits_not_Nil [of v] by (cases "varint_digits v") (auto simp: neq_Nil_conv Suc_lessI)
  then show ?thesis
    unfolding ReadTag_def Let_def
    using f ReadTagFallback_at [OF assms, of 2]
    by (cases "varint_len v = 1"; cases "varint_len v = 2") (simp_all del: of_nat_add power_Suc length_0_conv)
qed


lemma ReadSizeFallback_at:
  assumes "varint_at data p v" "v \<le> 0x7FFFFFEF"
  shows "i < varint_len v \<Longrightarrow> i \<le> 4 \<Longrightarrow>
    ReadSizeFallback data p i (word_of_nat (v mod 128 ^ i + 128 ^ i)) = Some (p + varint_len v, word_of_nat v)"
proof (induction "4 - i" arbitrary: i)
  case 0
  then have i: "i = 4" by simp
  have "v < 128 ^ Suc 4" using assms(2) by simp
  then have len: "varint_len v = 5" using varint_len_le [of v 4] 0 i by simp
  have d: "v div 128 ^ 4 mod 128 = v div 128 ^ 4" "v div 128 ^ 4 \<le> 7" using assms(2) by simp_all
  then have "\<not> (8 :: u32) \<le> word_of_nat (v div 128 ^ 4 mod 128)"
  proof -
    have "take_bit 32 (v div 268435456) = v div 268435456"
      using assms(2) by (intro take_bit_nat_eq_self) simp
    then show ?thesis
      using d(2) by (simp only: d(1)) (simp add: word_le_nat_alt unsigned_of_nat)
  qed
  moreover have "(ucast (mem data (p + 4)) :: u32) = word_of_nat (v div 128 ^ 4 mod 128)"
    using varint_at_ucast(1) [OF assms(1), of 4, where 'a = 32] len by simp
  moreover have "\<not> (0x7FFFFFEF :: u32) < word_of_nat v"
    using assms(2) by (simp add: word_less_nat_alt unsigned_of_nat take_bit_nat_eq_self)
  ultimately show ?case
    using varint_byte_step(2) [OF assms(1) 0(2) _ refl, where 'a = 32] i len
    unfolding ReadSizeFallback.simps [of data p i] Let_def
    by (simp del: of_nat_add power_Suc)
next
  case (Suc n)
  note b = varint_byte_step [OF assms(1) Suc.prems(1) _ refl, where 'a = 32]
  have "i < 4" using Suc.hyps(2) by simp
  then show ?case
    unfolding ReadSizeFallback.simps [of data p i] Let_def
    using b Suc.hyps Suc.prems by (cases "Suc i = varint_len v") (simp_all del: of_nat_add power_Suc)
qed

lemma ReadSize_at:
  assumes "varint_at data p v" "v \<le> 0x7FFFFFEF"
  shows "ReadSize data p = Some (p + varint_len v, v)"
proof -
  note f = varint_first [OF assms(1) _ refl refl, where 'a = 32]
  have u: "unat (word_of_nat v :: u32) = v"
    using assms(2) by (subst unsigned_of_nat) (simp add: take_bit_nat_eq_self)
  show ?thesis
  proof (cases "varint_len v = 1")
    case True
    then show ?thesis using f u by (simp add: ReadSize_def Let_def)
  next
    case False
    moreover have "0 < varint_len v" by simp
    ultimately have "1 < varint_len v" by linarith
    from ReadSizeFallback_at [OF assms this] f False u show ?thesis
      by (simp add: ReadSize_def Let_def del: of_nat_add length_0_conv)
  qed
qed

section \<open>Parsing inside a limit\<close>

text \<open>
  The stream at a limit \<open>L\<close> that lies inside the array: the two chunks of the stream are not
  visible to the readers any more.
\<close>

definition at_limit :: "bytes \<Rightarrow> nat \<Rightarrow> int \<Rightarrow> ctx \<Rightarrow> bool" where
  "at_limit data L d c \<longleftrightarrow>
     limit_end c = int (buffer_end c) + min 0 (limit c) \<and>
     (if next_chunk c then buffer_end c + 16 = length data else buffer_end c = length data) \<and>
     int (buffer_end c) + limit c = int L \<and> L \<le> length data \<and> length data \<le> 0x7FFFFFEF \<and>
     last_tag_minus_1 c = 0 \<and> depth c = d"

lemma at_limit_InitFrom: "length data \<le> 0x7FFFFFEF \<Longrightarrow> at_limit data (length data) d (InitFrom d data)"
  by (auto simp: at_limit_def InitFrom_def Let_def)

lemma at_limit_EndedAtLimit: "at_limit data L d c \<Longrightarrow> EndedAtLimit c"
  by (simp add: at_limit_def EndedAtLimit_def)

lemma Done_more:
  assumes "at_limit data L d c" "p < L"
  shows "\<exists>c'. Done p c = (Some p, False, c') \<and> at_limit data L d c'"
proof (cases "int p < limit_end c")
  case True
  then show ?thesis using assms(1) by (simp add: Done_def)
next
  case False
  with assms have "limit_end c = int (buffer_end c)" "next_chunk c" "int p - int (buffer_end c) < limit c"
    "buffer_end c \<le> p" "buffer_end c + 16 = length data" "p < length data"
    by (auto simp: at_limit_def min_def split: if_splits)
  with False assms show ?thesis
    by (simp add: Done_def Let_def DoneFallback_def done_loop.simps NextBuffer_def advance_limit_def
        set_limit_end_def at_limit_def)
qed

lemma Done_end: "at_limit data L d c \<Longrightarrow> Done L c = (Some L, True, c)"
  by (auto simp: at_limit_def Done_def Let_def min_def split: if_splits)

lemma DataAvailable_imp: "at_limit data L d c \<Longrightarrow> DataAvailable p c \<Longrightarrow> p < L"
  by (auto simp: at_limit_def DataAvailable_def min_def split: if_splits)

lemma AppendString_inside:
  assumes "at_limit data L d c" "p + n \<le> L"
  shows "AppendString data p n s c = (s @ slice data p n, Some (p + n), c)"
  using assms by (auto simp: at_limit_def AppendString_def split: if_splits)

lemma PushLimit_inside:
  assumes "at_limit data L d c" "p + n \<le> L"
  shows "\<exists>c'. PushLimit p n c = (int L - int (p + n), c') \<and> at_limit data (p + n) d c'"
  using assms by (auto simp: at_limit_def PushLimit_def Let_def set_limit_end_def)

lemma PopLimit_inside:
  assumes "at_limit data M d c" "M \<le> L" "L \<le> length data"
  shows "\<exists>c'. PopLimit (int L - int M) c = (True, c') \<and> at_limit data L d c'"
  using assms by (auto simp: at_limit_def PopLimit_def EndedAtLimit_def set_limit_end_def)

lemma at_limit_depth: "at_limit data L d c \<Longrightarrow> at_limit data L (d + e) (c\<lparr>depth := depth c + e\<rparr>)"
  by (simp add: at_limit_def)

lemma at_limit_bound: "at_limit data L d c \<Longrightarrow> L \<le> length data \<and> length data \<le> 0x7FFFFFEF"
  by (simp add: at_limit_def)

section \<open>Reading what was written\<close>

definition has :: "bytes \<Rightarrow> nat \<Rightarrow> bytes \<Rightarrow> bool" where
  "has data p bs \<longleftrightarrow> (\<forall>i < length bs. mem data (p + i) = bs ! i)"

lemma has_append: "has data p (a @ b) \<longleftrightarrow> has data p a \<and> has data (p + length a) b"
proof
  assume l: "has data p (a @ b)"
  have "mem data (p + length a + i) = b ! i" if "i < length b" for i
    using l that unfolding has_def by (auto dest!: spec [of _ "length a + i"] simp: nth_append add.assoc)
  then show "has data p a \<and> has data (p + length a) b"
    using l by (auto simp: has_def nth_append)
next
  assume r: "has data p a \<and> has data (p + length a) b"
  show "has data p (a @ b)"
    unfolding has_def
  proof (intro allI impI)
    fix i assume "i < length (a @ b)"
    then show "mem data (p + i) = (a @ b) ! i"
      using r by (cases "i < length a")
        (auto simp: has_def nth_append dest!: spec [of _ "i - length a"] split: if_splits)
  qed
qed

lemma has_slice: "has data p bs \<Longrightarrow> slice data p (length bs) = bs"
  by (intro nth_equalityI) (auto simp: has_def slice_def)

lemma has_self: "has data 0 data"
  by (simp add: has_def mem_def)

lemma has_varint: "has data p (WriteVarint v) \<Longrightarrow> varint_at data p (unat v)"
  by (simp add: has_def varint_at_def WriteVarint_digits)

lemma length_WriteVarint: "length (WriteVarint v) = varint_len (unat v)"
  by (simp add: WriteVarint_digits)

lemma WriteVarint_not_Nil [simp]: "WriteVarint v \<noteq> []"
  by (simp add: WriteVarint_digits)

lemma ReadVarint32_has:
  "has data p (WriteVarint v) \<Longrightarrow> ReadVarint32 data p = Some (p + length (WriteVarint v), ucast v)"
  using ReadVarint32_at [OF has_varint varint_len_unat64] by (simp add: length_WriteVarint)

lemma ReadVarint64_has:
  "has data p (WriteVarint v) \<Longrightarrow> ReadVarint64 data p = Some (p + length (WriteVarint v), v)"
  using ReadVarint64_at [OF has_varint varint_len_unat64] by (simp add: length_WriteVarint)

lemma unat_ucast_32_64: "unat (ucast (w :: u32) :: u64) = unat w"
  by (simp add: unsigned_ucast_eq take_bit_nat_eq_self order.strict_trans [OF unsigned_less])

lemma ReadTag_has:
  "has data p (WriteTag t) \<Longrightarrow> ReadTag data p = Some (p + length (WriteTag t), t)"
  using ReadTag_at [OF has_varint, of data p "ucast t"] varint_len_unat32 [of t]
  by (simp add: WriteTag_def length_WriteVarint unat_ucast_32_64)

lemma ReadSize_has:
  "has data p (WriteVarint (word_of_nat n)) \<Longrightarrow> n \<le> 0x7FFFFFEF \<Longrightarrow>
   ReadSize data p = Some (p + length (WriteVarint (word_of_nat n)), n)"
proof -
  assume h: "has data p (WriteVarint (word_of_nat n))" and n: "n \<le> 0x7FFFFFEF"
  have "unat (word_of_nat n :: u64) = n"
    using n by (subst unsigned_of_nat) (simp add: take_bit_nat_eq_self)
  with ReadSize_at [OF has_varint [OF h]] n show ?thesis by (simp add: length_WriteVarint)
qed

text \<open>A string field.\<close>

lemma InlineGreedyStringParser_has:
  assumes "has data p (WriteVarint (word_of_nat (length s)) @ s)" "at_limit data L d c"
    "p + length (WriteVarint (word_of_nat (length s))) + length s \<le> L"
  shows "InlineGreedyStringParser data s0 p c =
    (s, Some (p + length (WriteVarint (word_of_nat (length s))) + length s), c)"
proof -
  have n: "length s \<le> 0x7FFFFFEF" using at_limit_bound [OF assms(2)] assms(3) by simp
  then have "ReadSize data p = Some (p + length (WriteVarint (word_of_nat (length s))), length s)"
    using assms(1) by (intro ReadSize_has) (auto simp: has_append)
  moreover have "has data (p + length (WriteVarint (word_of_nat (length s)))) s"
    using assms(1) by (simp add: has_append)
  ultimately show ?thesis
    using assms(3) AppendString_inside [OF assms(2)]
    by (simp add: InlineGreedyStringParser_def ReadString_def has_slice)
qed

section \<open>Parsers and their encodings\<close>

text \<open>
  \<open>reads parse enc m m' n\<close>: wherever the bytes \<open>enc\<close> stand, up to a limit, the parser reads them
  into \<open>m\<close> with the result \<open>m'\<close>, when \<open>n\<close> levels of nesting are left.
\<close>

definition reads ::
  "(nat \<Rightarrow> bytes \<Rightarrow> 'm \<Rightarrow> nat \<Rightarrow> ctx \<Rightarrow> 'm parsed) \<Rightarrow> bytes \<Rightarrow> 'm \<Rightarrow> 'm \<Rightarrow> int \<Rightarrow> bool" where
  "reads parse enc m m' n \<longleftrightarrow>
     (\<forall>data p d c k. has data p enc \<longrightarrow> at_limit data (p + length enc) d c \<longrightarrow> n \<le> d \<longrightarrow> length enc < k \<longrightarrow>
        (\<exists>c'. parse k data m p c = Some (m', Some (p + length enc), c') \<and>
              at_limit data (p + length enc) d c'))"

definition delimited :: "bytes \<Rightarrow> bytes" where
  "delimited enc = WriteVarint (word_of_nat (length enc)) @ enc"

lemma length_delimited: "length enc < length (delimited enc)"
  by (simp add: delimited_def)

lemma ParseMessage_reads:
  assumes "reads parse enc m m' n" "has data p (delimited enc)" "at_limit data L d c"
    "p + length (delimited enc) \<le> L" "n < d" "0 \<le> n" "length enc < k"
  shows "\<exists>c'. ParseMessage (parse k data m) data m p c = Some (m', Some (p + length (delimited enc)), c') \<and>
    at_limit data L d c'"
proof -
  let ?q = "p + length (WriteVarint (word_of_nat (length enc)))"
  have q: "p + length (delimited enc) = ?q + length enc" by (simp add: delimited_def)
  have b: "L \<le> length data" "length data \<le> 0x7FFFFFEF" using at_limit_bound [OF assms(3)] by auto
  then have "length enc \<le> 0x7FFFFFEF" using assms(4) q by simp
  then have rs: "ReadSize data p = Some (?q, length enc)"
    using assms(2) by (intro ReadSize_has) (auto simp: delimited_def has_append)
  have e: "has data ?q enc" using assms(2) by (simp add: delimited_def has_append)
  obtain c1 where c1: "PushLimit ?q (length enc) c = (int L - int (?q + length enc), c1)"
    "at_limit data (?q + length enc) d c1"
    using PushLimit_inside [OF assms(3), of ?q "length enc"] assms(4) q by auto
  let ?c2 = "c1\<lparr>depth := depth c1 - 1\<rparr>"
  have c2: "at_limit data (?q + length enc) (d - 1) ?c2"
    using at_limit_depth [OF c1(2), of "-1"] by simp
  then have "0 \<le> depth ?c2" using assms(5,6) by (simp add: at_limit_def)
  moreover obtain c3 where c3: "parse k data m ?q ?c2 = Some (m', Some (?q + length enc), c3)"
    "at_limit data (?q + length enc) (d - 1) c3"
    using assms(1) e c2 assms(5,7) unfolding reads_def by fastforce
  moreover have "at_limit data (?q + length enc) d (c3\<lparr>depth := depth c3 + 1\<rparr>)"
    using at_limit_depth [OF c3(2), of 1] by simp
  then obtain c4 where "PopLimit (int L - int (?q + length enc)) (c3\<lparr>depth := depth c3 + 1\<rparr>) = (True, c4)"
    "at_limit data L d c4"
    using PopLimit_inside [of data "?q + length enc" d _ L] assms(4) q b by auto
  ultimately show ?thesis
    using rs c1(1) by (simp add: ParseMessage_def Let_def q)
qed

section \<open>The parse loop, field by field\<close>

text \<open>From position \<open>p\<close> with the message \<open>m\<close> the loop runs to its limit \<open>L\<close> and leaves \<open>m'\<close>.\<close>

definition runs_to ::
  "'a message_lite_scheme field_switch \<Rightarrow> bytes \<Rightarrow> nat \<Rightarrow> int \<Rightarrow> 'a message_lite_scheme \<Rightarrow> nat \<Rightarrow>
   'a message_lite_scheme \<Rightarrow> bool" where
  "runs_to sw data L d m p m' \<longleftrightarrow>
     (\<forall>k c. at_limit data L d c \<longrightarrow> L - p < k \<longrightarrow>
        (\<exists>c'. InternalParse sw k data m p c = Some (m', Some L, c') \<and> at_limit data L d c'))"

lemma runs_to_end: "runs_to sw data L d m L m"
  unfolding runs_to_def
proof (intro allI impI)
  fix k c assume "at_limit data L d c" "L - L < k"
  then show "\<exists>c'. InternalParse sw k data m L c = Some (m, Some L, c') \<and> at_limit data L d c'"
    by (cases k) (simp_all add: Done_end)
qed

text \<open>One turn of the loop: the switch handles the tag that stands there.\<close>

lemma runs_to_step:
  assumes tag: "has data p (WriteTag t)" and q: "q = p + length (WriteTag t)" and L: "q \<le> L"
    and sw: "\<And>k c. at_limit data L d c \<Longrightarrow> L - q < k \<Longrightarrow>
        \<exists>m1 r c'. sw k data t m q c = Field m1 (Some r) c' \<and> at_limit data L d c' \<and> q \<le> r \<and>
          runs_to sw data L d m1 r m'"
  shows "runs_to sw data L d m p m'"
  unfolding runs_to_def
proof (intro allI impI)
  fix k c assume c: "at_limit data L d c" and k: "L - p < k"
  have "0 < length (WriteTag t)" by (simp add: WriteTag_def)
  then have pq: "p < q" using q by simp
  obtain k' where k': "k = Suc k'" using k by (cases k) auto
  obtain c1 where d: "Done p c = (Some p, False, c1)" "at_limit data L d c1"
    using Done_more [OF c, of p] pq L by auto
  have "L - q < k'" using k k' pq L by simp
  from sw [OF d(2) this] obtain m1 r c2 where
    s: "sw k' data t m q c1 = Field m1 (Some r) c2" "at_limit data L d c2" "q \<le> r" "runs_to sw data L d m1 r m'"
    by blast
  have "L - r < k'" using k k' pq L s(3) by simp
  with s obtain c3 where "InternalParse sw k' data m1 r c2 = Some (m', Some L, c3)" "at_limit data L d c3"
    unfolding runs_to_def by blast
  then show "\<exists>c'. InternalParse sw k data m p c = Some (m', Some L, c') \<and> at_limit data L d c'"
    using k' d(1) ReadTag_has [OF tag] s(1) q by simp
qed

text \<open>A varint field, a string field and a message field.\<close>

lemma runs_to_varint32:
  assumes "\<And>k q c. sw k data t m q c = varint32_field upd data m q c"
    and "has data p (WriteTag t @ WriteVarint v)" "p + length (WriteTag t @ WriteVarint v) \<le> L"
    and "runs_to sw data L d (upd (ucast v) m) (p + length (WriteTag t @ WriteVarint v)) m'"
  shows "runs_to sw data L d m p m'"
proof (rule runs_to_step [OF _ refl])
  let ?q = "p + length (WriteTag t)"
  show "has data p (WriteTag t)" "?q \<le> L" using assms(2,3) by (simp_all add: has_append)
  have "ReadVarint32 data ?q = Some (?q + length (WriteVarint v), ucast v)"
    using assms(2) by (intro ReadVarint32_has) (simp add: has_append)
  then show "\<exists>m1 r c'. sw k data t m ?q c = Field m1 (Some r) c' \<and> at_limit data L d c' \<and> ?q \<le> r \<and>
      runs_to sw data L d m1 r m'" if "at_limit data L d c" for k c
    using assms(1,4) that by (simp add: add.assoc varint32_field_def)
qed

lemma runs_to_varint64:
  assumes "\<And>k q c. sw k data t m q c = varint64_field upd data m q c"
    and "has data p (WriteTag t @ WriteVarint v)" "p + length (WriteTag t @ WriteVarint v) \<le> L"
    and "runs_to sw data L d (upd v m) (p + length (WriteTag t @ WriteVarint v)) m'"
  shows "runs_to sw data L d m p m'"
proof (rule runs_to_step [OF _ refl])
  let ?q = "p + length (WriteTag t)"
  show "has data p (WriteTag t)" "?q \<le> L" using assms(2,3) by (simp_all add: has_append)
  have "ReadVarint64 data ?q = Some (?q + length (WriteVarint v), v)"
    using assms(2) by (intro ReadVarint64_has) (simp add: has_append)
  then show "\<exists>m1 r c'. sw k data t m ?q c = Field m1 (Some r) c' \<and> at_limit data L d c' \<and> ?q \<le> r \<and>
      runs_to sw data L d m1 r m'" if "at_limit data L d c" for k c
    using assms(1,4) that by (simp add: add.assoc varint64_field_def)
qed

lemma runs_to_bytes:
  assumes "\<And>k q c. sw k data t m q c = bytes_field get upd data m q c"
    and "has data p (WriteTag t @ delimited s)" "p + length (WriteTag t @ delimited s) \<le> L"
    and "runs_to sw data L d (upd s m) (p + length (WriteTag t @ delimited s)) m'"
  shows "runs_to sw data L d m p m'"
proof (rule runs_to_step [OF _ refl])
  let ?q = "p + length (WriteTag t)"
  show "has data p (WriteTag t)" "?q \<le> L" using assms(2,3) by (simp_all add: has_append)
  show "\<exists>m1 r c'. sw k data t m ?q c = Field m1 (Some r) c' \<and> at_limit data L d c' \<and> ?q \<le> r \<and>
      runs_to sw data L d m1 r m'" if "at_limit data L d c" for k c
    using assms that InlineGreedyStringParser_has [of data ?q s L d c "get m"]
    by (auto simp: has_append delimited_def add.assoc bytes_field_def)
qed

lemma runs_to_message:
  assumes "\<And>k q c. sw k data t m q c = message_field parse get upd k data m q c"
    and "reads parse enc (get m) x n" "n < d" "0 \<le> n"
    and "has data p (WriteTag t @ delimited enc)" "p + length (WriteTag t @ delimited enc) \<le> L"
    and "runs_to sw data L d (upd x m) (p + length (WriteTag t @ delimited enc)) m'"
  shows "runs_to sw data L d m p m'"
proof (rule runs_to_step [OF _ refl])
  let ?q = "p + length (WriteTag t)"
  show "has data p (WriteTag t)" "?q \<le> L" using assms(5,6) by (simp_all add: has_append)
  show "\<exists>m1 r c'. sw k data t m ?q c = Field m1 (Some r) c' \<and> at_limit data L d c' \<and> ?q \<le> r \<and>
      runs_to sw data L d m1 r m'" if c: "at_limit data L d c" and k: "L - ?q < k" for k c
  proof -
    have "length enc < k" using k assms(6) by (simp add: delimited_def)
    moreover have "has data ?q (delimited enc)" "?q + length (delimited enc) \<le> L"
      using assms(5,6) by (simp_all add: has_append add.assoc)
    ultimately obtain c' where
      "ParseMessage (parse k data (get m)) data (get m) ?q c = Some (x, Some (?q + length (delimited enc)), c')"
      "at_limit data L d c'"
      using ParseMessage_reads [OF assms(2) _ c _ assms(3,4)] by blast
    then show ?thesis using assms(1,7) by (simp add: add.assoc message_field_def)
  qed
qed

text \<open>A repeated message field with a one-byte tag.\<close>

definition repeated :: "byte \<Rightarrow> bytes list \<Rightarrow> bytes" where
  "repeated tb encs = concat (map (\<lambda>e. tb # delimited e) encs)"

lemma repeated_simps [simp]:
  "repeated tb [] = []" "repeated tb (e # es) = tb # delimited e @ repeated tb es"
  by (simp_all add: repeated_def)

lemma repeated_append: "repeated tb (a @ b) = repeated tb a @ repeated tb b"
  by (simp add: repeated_def)

lemma has_Cons: "has data p (b # bs) \<longleftrightarrow> mem data p = b \<and> has data (p + 1) bs"
  using has_append [of data p "[b]" bs] by (simp add: has_def)

lemma ParseRepeated_reads:
  assumes "\<And>x. x \<in> set (x0 # xs) \<Longrightarrow> reads parse (ser x) new x n" "n < d" "0 \<le> n"
    and "has data q (delimited (ser x0) @ repeated tb (map ser xs))" "at_limit data L d c"
    and "q + length (delimited (ser x0) @ repeated tb (map ser xs)) = e" "e \<le> L" "e = L \<or> mem data e \<noteq> tb"
    and "L - q < k"
  shows "\<exists>j c'. j \<le> length xs \<and>
    ParseRepeated parse new tb k data es q c =
      Some (es @ x0 # take j xs, Some (q + length (delimited (ser x0) @ repeated tb (map ser (take j xs)))), c') \<and>
    at_limit data L d c'"
  using assms
proof (induction xs arbitrary: x0 es q k c)
  case Nil
  obtain k' where k': "k = Suc k'" using Nil.prems(9) by (cases k) auto
  have "length (ser x0) < k'" using Nil.prems(6,7,9) k' length_delimited [of "ser x0"] by simp
  then obtain c' where m: "ParseMessage (parse k' data new) data new q c =
      Some (x0, Some (q + length (delimited (ser x0))), c')" "at_limit data L d c'"
    using ParseMessage_reads [OF Nil.prems(1) _ Nil.prems(5) _ Nil.prems(2,3), of x0 q k'] Nil.prems(4,6,7)
    by auto
  have "\<not> (DataAvailable e c' \<and> mem data e = tb)"
    using Nil.prems(8) DataAvailable_imp [OF m(2), of e] by auto
  then show ?case using m k' Nil.prems(6) by (auto simp: add.assoc)
next
  case (Cons x xs)
  let ?r = "q + length (delimited (ser x0))"
  obtain k' where k': "k = Suc k'" using Cons.prems(9) by (cases k) auto
  have "length (ser x0) < k'" using Cons.prems(6,7,9) k' length_delimited [of "ser x0"] by simp
  then obtain c' where m: "ParseMessage (parse k' data new) data new q c = Some (x0, Some ?r, c')"
      "at_limit data L d c'"
    using ParseMessage_reads [OF Cons.prems(1) _ Cons.prems(5) _ Cons.prems(2,3), of x0 q k'] Cons.prems(4,6,7)
    by (auto simp: has_append)
  show ?case
  proof (cases "DataAvailable ?r c'")
    case False
    with m k' show ?thesis by (intro exI [of _ 0]) simp
  next
    case True
    have "has data (?r + 1) (delimited (ser x) @ repeated tb (map ser xs))" "mem data ?r = tb"
      using Cons.prems(4) by (simp_all add: has_append has_Cons add.assoc)
    moreover have "?r + 1 + length (delimited (ser x) @ repeated tb (map ser xs)) = e"
      using Cons.prems(6) by simp
    moreover have "L - (?r + 1) < k'" using Cons.prems(6,7,9) k' by simp
    ultimately obtain j c'' where
      "j \<le> length xs"
      "ParseRepeated parse new tb k' data (es @ [x0]) (?r + 1) c' =
        Some ((es @ [x0]) @ x # take j xs,
          Some (?r + 1 + length (delimited (ser x) @ repeated tb (map ser (take j xs)))), c'')"
      "at_limit data L d c''"
      using Cons.IH [OF Cons.prems(1) Cons.prems(2,3) _ m(2) _ Cons.prems(7,8), of x "?r + 1" k' "es @ [x0]"]
      by auto
    then show ?thesis
      using m(1) k' True \<open>mem data ?r = tb\<close> by (intro exI [of _ "Suc j"]) (simp add: add.assoc)
  qed
qed

lemma runs_to_repeated:
  assumes sw: "\<And>k q m c. sw k data t m q c = repeated_field parse new tb get put k data m q c"
    and tb: "WriteTag t = [tb]"
    and put: "\<And>es m. get (put es m) = es" "\<And>es es' m. put es (put es' m) = put es m" "\<And>m. put (get m) m = m"
    and xs: "\<And>x. x \<in> set xs \<Longrightarrow> reads parse (ser x) new x n" "n < d" "0 \<le> n"
    and at: "has data p (repeated tb (map ser xs))" "p + length (repeated tb (map ser xs)) = e" "e \<le> L"
      "e = L \<or> mem data e \<noteq> tb"
    and rest: "runs_to sw data L d (put (get m @ xs) m) e m'"
  shows "runs_to sw data L d m p m'"
  using xs at rest
proof (induction xs arbitrary: m p rule: length_induct)
  case (1 xs)
  show ?case
  proof (cases xs)
    case Nil
    then show ?thesis using 1 put(3) by simp
  next
    case (Cons x0 ys)
    show ?thesis
    proof (rule runs_to_step [OF _ refl])
      let ?q = "p + length (WriteTag t)"
      show "has data p (WriteTag t)" "?q \<le> L"
        using "1.prems"(4-6) Cons tb by (simp_all add: has_Cons) (simp add: has_def)
      have h: "has data ?q (delimited (ser x0) @ repeated tb (map ser ys))"
        "?q + length (delimited (ser x0) @ repeated tb (map ser ys)) = e"
        using "1.prems"(4,5) Cons tb by (simp_all add: has_Cons)
      show "\<exists>m1 r c'. sw k data t m ?q c = Field m1 (Some r) c' \<and> at_limit data L d c' \<and> ?q \<le> r \<and>
          runs_to sw data L d m1 r m'" if c: "at_limit data L d c" and k: "L - ?q < k" for k c
      proof -
        have r0: "reads parse (ser x) new x n" if "x \<in> set (x0 # ys)" for x
          using "1.prems"(1) Cons that by simp
        from ParseRepeated_reads [OF r0 "1.prems"(2,3) h(1) c h(2) "1.prems"(6,7) k, where es = "get m"]
        obtain j c' where j: "j \<le> length ys"
          "ParseRepeated parse new tb k data (get m) ?q c =
            Some (get m @ x0 # take j ys,
              Some (?q + length (delimited (ser x0) @ repeated tb (map ser (take j ys)))), c')"
          "at_limit data L d c'" by auto
        let ?r = "?q + length (delimited (ser x0) @ repeated tb (map ser (take j ys)))"
        let ?m1 = "put (get m @ x0 # take j ys) m"
        have sp: "repeated tb (map ser ys) = repeated tb (map ser (take j ys)) @ repeated tb (map ser (drop j ys))"
          by (metis append_take_drop_id map_append repeated_append)
        have "has data ?r (repeated tb (map ser (drop j ys)))" "?r + length (repeated tb (map ser (drop j ys))) = e"
          using h sp by (simp_all add: has_append add.assoc)
        moreover have "reads parse (ser x) new x n" if "x \<in> set (drop j ys)" for x
          using "1.prems"(1) Cons that by (auto dest: in_set_dropD)
        moreover have "runs_to sw data L d (put (get ?m1 @ drop j ys) ?m1) e m'"
          using "1.prems"(8) Cons put by simp
        ultimately have "runs_to sw data L d ?m1 ?r m'"
          using "1.IH" [rule_format, of "drop j ys" ?r ?m1] "1.prems"(2,3,6,7) Cons by auto
        then show ?thesis using sw j by (auto simp: repeated_field_def)
      qed
    qed
  qed
qed

text \<open>A parser that runs to its limit reads its encoding.\<close>

lemma reads_InternalParse:
  assumes "\<And>data p d. has data p enc \<Longrightarrow> p + length enc \<le> length data \<Longrightarrow> n \<le> d \<Longrightarrow>
    runs_to sw data (p + length enc) d m p m'"
  shows "reads (\<lambda>k data m p c. InternalParse sw k data m p c) enc m m' n"
  unfolding reads_def
proof (intro allI impI)
  fix data p d c k
  assume h: "has data p enc" "at_limit data (p + length enc) d c" "n \<le> d" "length enc < k"
  from assms [OF h(1) _ h(3)] at_limit_bound [OF h(2)] h(2,4)
  show "\<exists>c'. InternalParse sw k data m p c = Some (m', Some (p + length enc), c') \<and>
      at_limit data (p + length enc) d c'"
    unfolding runs_to_def by simp
qed

text \<open>Then the whole array is parsed, with one unit of fuel per byte and one more.\<close>

lemma ParseFromString_reads:
  assumes "reads parse enc cleared m n" "n \<le> 100" "length enc \<le> 0x7FFFFFEF" "length enc < k"
  shows "ParseFromString (parse k enc) cleared enc = Some (m, True)"
proof -
  obtain c' where "parse k enc cleared 0 (InitFrom 100 enc) = Some (m, Some (length enc), c')"
    "at_limit enc (length enc) 100 c'"
    using assms at_limit_InitFrom [OF assms(3), of 100] has_self [of enc] unfolding reads_def by fastforce
  then show ?thesis by (simp add: ParseFromString_def at_limit_EndedAtLimit)
qed

section \<open>Sizes\<close>

lemma log2_floor_bounds: "0 < n \<Longrightarrow> 2 ^ log2_floor n \<le> n \<and> n < 2 ^ Suc (log2_floor n)"
proof (induction n rule: log2_floor.induct)
  case (1 n)
  show ?case
  proof (cases "n < 2")
    case True
    then show ?thesis using 1(2) by (subst (1 2) log2_floor.simps) simp
  next
    case False
    then have "log2_floor n = Suc (log2_floor (n div 2))" by (subst log2_floor.simps) simp
    moreover have "2 ^ log2_floor (n div 2) \<le> n div 2 \<and> n div 2 < 2 ^ Suc (log2_floor (n div 2))"
      using 1(1) False by simp
    ultimately show ?thesis by simp linarith
  qed
qed

lemma log2_floor_le_iff: "0 < n \<Longrightarrow> k \<le> log2_floor n \<longleftrightarrow> 2 ^ k \<le> n"
proof
  assume "0 < n"
  note b = log2_floor_bounds [OF this]
  show "2 ^ k \<le> n" if "k \<le> log2_floor n"
    using b that power_increasing [of k "log2_floor n" "2 :: nat"] by linarith
  show "k \<le> log2_floor n" if "2 ^ k \<le> n"
  proof (rule ccontr)
    assume "\<not> k \<le> log2_floor n"
    then have "(2 :: nat) ^ Suc (log2_floor n) \<le> 2 ^ k" by (intro power_increasing) auto
    with b that show False by linarith
  qed
qed

lemma nat_or_1: "(v :: nat) OR Suc 0 = v + of_bool (even v)"
  using or_one_eq [of v] by simp

lemma varint_len_log2: "varint_len v = log2_floor (v OR 1) div 7 + 1"
proof -
  let ?k = "log2_floor (v OR 1)"
  have pos: "0 < v OR 1" by (cases "even v") (auto simp: nat_or_1 odd_pos)
  have "Suc i < varint_len v \<longleftrightarrow> i < ?k div 7" for i
  proof -
    have e: "2 ^ (7 * Suc i) = (128 :: nat) ^ Suc i" by (simp only: power_mult) simp
    have "(128 :: nat) ^ Suc i \<le> v \<longleftrightarrow> 128 ^ Suc i \<le> v OR 1"
    proof (cases "even v")
      case True
      then have "v OR 1 = v + 1" by (simp add: nat_or_1)
      moreover have "even ((128 :: nat) ^ Suc i)" by simp
      ultimately show ?thesis using True
        by (metis add.commute even_Suc le_Suc_eq le_add1 order_trans plus_1_eq_Suc)
    next
      case False
      then show ?thesis by (simp add: nat_or_1)
    qed
    also have "\<dots> \<longleftrightarrow> 7 * Suc i \<le> ?k" unfolding log2_floor_le_iff [OF pos] e ..
    also have "\<dots> \<longleftrightarrow> i < ?k div 7"
      using less_eq_div_iff_mult_less_eq [of 7 "Suc i" ?k] by (simp add: Suc_le_eq mult.commute)
    finally show ?thesis by (simp only: length_varint_digits)
  qed
  from this [of "?k div 7"] this [of "?k div 7 - 1"] show ?thesis
    using varint_digits_not_Nil [of v] by (cases "varint_digits v") (auto simp: not_less_iff_gr_or_eq)
qed

lemma size_formula: "k < 64 \<Longrightarrow> (k * 9 + 73) div 64 = k div 7 + (1 :: nat)"
proof -
  assume "k < 64"
  then have "k \<in> set [0..<64]" by simp
  moreover have "\<forall>k \<in> set [0..<64]. (k * 9 + 73) div 64 = k div 7 + (1 :: nat)"
    by (simp add: upt_rec)
  ultimately show ?thesis by blast
qed


lemma varint_size_le:
  assumes "v < 2 ^ 64"
  shows "(log2_floor (v OR 1) * 9 + 73) div 64 = varint_len v"
proof -
  have "varint_len v \<le> 10" using assms by (intro varint_len_le [of _ 9, simplified]) simp
  then have "log2_floor (v OR 1) div 7 \<le> 9" using varint_len_log2 [of v] by simp
  moreover have "\<not> 64 \<le> log2_floor (v OR 1)"
  proof -
    have "v OR 1 < 2 ^ 64" using assms by (cases "even v") (auto simp: nat_or_1 elim!: evenE)
    moreover have "0 < v OR 1" by (cases "even v") (auto simp: nat_or_1 odd_pos)
    ultimately show ?thesis by (simp add: log2_floor_le_iff)
  qed
  ultimately show ?thesis by (simp add: size_formula varint_len_log2)
qed

lemma unat_or_1: "unat ((w :: 'a::len word) OR 1) = unat w OR 1"
  by (metis or_nat_def unsigned_1 unsigned_or_eq)

lemma VarintSize64_length [wire_simps]: "VarintSize64 v = length (WriteVarint v)"
proof -
  have "unat v < 2 ^ 64" using unsigned_less [of v, where ?'a = nat] by simp
  then show ?thesis
    by (simp add: VarintSize64_def unat_or_1 varint_size_le length_WriteVarint del: One_nat_def)
qed

lemma VarintSize32_length: "VarintSize32 v = length (WriteVarint (ucast v))"
proof -
  have "unat v < 2 ^ 32" using unsigned_less [of v, where ?'a = nat] by simp
  then show ?thesis
    by (simp add: VarintSize32_def unat_or_1 varint_size_le length_WriteVarint unat_ucast_32_64 del: One_nat_def)
qed

lemma LengthDelimitedSize_length [wire_simps]:
  "length enc < 2 ^ 32 \<Longrightarrow> LengthDelimitedSize (length enc) = length (delimited enc)"
  by (simp add: LengthDelimitedSize_def delimited_def VarintSize32_length ucast_small add.commute)

section \<open>Fuel\<close>

text \<open>The invariant of the stream for any input, limits beyond its end included.\<close>

definition ctx_ok :: "bytes \<Rightarrow> ctx \<Rightarrow> bool" where
  "ctx_ok data c \<longleftrightarrow> limit_end c \<le> int (buffer_end c) \<and>
     (limit_end c = int (buffer_end c) + min 0 (limit c) \<or> \<not> next_chunk c) \<and>
     (if next_chunk c then buffer_end c + 16 = length data else buffer_end c = length data)"

lemma ctx_ok_InitFrom: "ctx_ok data (InitFrom d data)"
  by (auto simp: ctx_ok_def InitFrom_def Let_def)

lemma ctx_ok_update [simp]:
  "ctx_ok data (c\<lparr>depth := e\<rparr>) = ctx_ok data c" "ctx_ok data (c\<lparr>last_tag_minus_1 := t\<rparr>) = ctx_ok data c"
  "ctx_ok data (SetLastTag u c) = ctx_ok data c"
  by (simp_all add: ctx_ok_def SetLastTag_def)

lemma PushLimit_ok: "ctx_ok data c \<Longrightarrow> ctx_ok data (snd (PushLimit p n c))"
  by (auto simp: ctx_ok_def PushLimit_def Let_def set_limit_end_def)

lemma PopLimit_ok: "ctx_ok data c \<Longrightarrow> ctx_ok data (snd (PopLimit n c))"
  by (auto simp: ctx_ok_def PopLimit_def set_limit_end_def)

lemma Done_ok:
  assumes "ctx_ok data c" "Done p c = (q, b, c')"
  shows "ctx_ok data c' \<and> (\<not> b \<longrightarrow> q = Some p \<and> p < length data) \<and>
    (\<forall>r. q = Some r \<longrightarrow> r = p \<or> r = length data)"
proof (cases "int p < limit_end c")
  case True
  with assms show ?thesis by (auto simp: Done_def ctx_ok_def split: if_splits)
next
  case f: False
  let ?o = "int p - int (buffer_end c)"
  show ?thesis
  proof (cases "?o = limit c \<or> limit c < ?o")
    case True
    with assms f show ?thesis by (auto simp: Done_def Let_def DoneFallback_def split: if_splits)
  next
    case False
    then have d: "done_loop ?o c = (q, b, c')"
      using assms(2) f by (simp add: Done_def Let_def DoneFallback_def)
    show ?thesis
    proof (cases "next_chunk c")
      case True
      then have "limit_end c = int (buffer_end c) + min 0 (limit c)" using assms(1) by (simp add: ctx_ok_def)
      then have "0 \<le> ?o" using f False by (auto simp: min_def split: if_splits)
      then show ?thesis
        using True assms(1) d
        by (auto simp: done_loop.simps [of ?o c] done_loop.simps NextBuffer_def advance_limit_def ctx_ok_def Let_def
            SetEndOfStream_def set_limit_end_def split: if_splits)
    next
      case n: False
      then show ?thesis
        using assms(1) d unfolding done_loop.simps [of ?o c]
        by (auto simp: NextBuffer_def ctx_ok_def SetEndOfStream_def split: if_splits)
    qed
  qed
qed


text \<open>The readers advance.\<close>

lemma Done_left: "ctx_ok data c \<Longrightarrow> Done p c = (Some r, b, c') \<Longrightarrow> length data - r \<le> length data - p"
  using Done_ok [of data c p "Some r" b c'] by (cases "r = p") simp_all

lemma VarintParseSlow64_pos: "VarintParseSlow64 data p i r = Some (q, v) \<Longrightarrow> p < q"
  by (induction data p i r rule: VarintParseSlow64.induct)
     (subst (asm) (2) VarintParseSlow64.simps, auto simp: Let_def split: if_splits)

lemma VarintParseSlow32_pos: "VarintParseSlow32 data p i r = Some (q, v) \<Longrightarrow> p < q"
  by (induction data p i r rule: VarintParseSlow32.induct)
     (subst (asm) (2) VarintParseSlow32.simps, auto simp: Let_def split: if_splits)

lemma ReadTagFallback_pos: "ReadTagFallback data p i r = Some (q, v) \<Longrightarrow> p < q"
  by (induction data p i r rule: ReadTagFallback.induct)
     (subst (asm) (2) ReadTagFallback.simps, auto simp: Let_def split: if_splits)

lemma ReadSizeFallback_pos: "ReadSizeFallback data p i r = Some (q, v) \<Longrightarrow> p < q"
  by (induction data p i r rule: ReadSizeFallback.induct)
     (subst (asm) (2) ReadSizeFallback.simps, auto simp: Let_def split: if_splits)

lemma read_pos:
  "ReadVarint32 data p = Some (q, v) \<Longrightarrow> p < q" "ReadVarint64 data p = Some (q, w) \<Longrightarrow> p < q"
  "ReadTag data p = Some (q, v) \<Longrightarrow> p < q" "ReadSize data p = Some (q, n) \<Longrightarrow> p < q"
  by (auto simp: ReadVarint32_def ReadVarint64_def ReadTag_def ReadSize_def Let_def
      dest: VarintParseSlow32_pos VarintParseSlow64_pos ReadTagFallback_pos ReadSizeFallback_pos
      split: if_splits)


text \<open>The string readers keep the invariant and do not go back.\<close>

lemma Next_ok: "ctx_ok data c \<Longrightarrow> Next c = (q, c') \<Longrightarrow> ctx_ok data c' \<and> (\<forall>p. q = Some p \<longrightarrow> p = buffer_end c)"
  by (auto simp: Next_def NextBuffer_def ctx_ok_def advance_limit_def set_limit_end_def SetEndOfStream_def
      split: if_splits)

lemma AppendSize_ok:
  "ctx_ok data c \<Longrightarrow> AppendSize data p n acc c = (s, q, c') \<Longrightarrow>
   ctx_ok data c' \<and> (\<forall>r. q = Some r \<longrightarrow> length data \<le> r)"
proof (induction data p n acc c arbitrary: s q c' rule: AppendSize.induct)
  case (1 data p n acc c)
  show ?case
  proof (cases "\<not> next_chunk c \<or> limit c \<le> 16")
    case True
    with 1(2,3) show ?thesis by (auto simp: AppendSize.simps [of data p n acc c] Let_def split: if_splits)
  next
    case False
    obtain q1 c1 where n1: "Next c = (q1, c1)" by fastforce
    with False have q1: "q1 = Some (buffer_end c)" "\<not> next_chunk c1" "buffer_end c1 = buffer_end c + 16"
      by (auto simp: Next_def NextBuffer_def advance_limit_def set_limit_end_def)
    have a1: "AppendSize data ptr m a c1 = (a, None, c1)" for ptr m a
      using q1(2) by (subst AppendSize.simps) simp
    let ?m = "n - (buffer_end c + 16 - p)"
    have "AppendSize data p n acc c =
        (if 16 < ?m then (acc @ slice data p (buffer_end c + 16 - p), None, c1)
         else (acc @ slice data p (buffer_end c + 16 - p) @ slice data (buffer_end c + 16) ?m,
               Some (buffer_end c + 16 + ?m), c1))"
      using False n1 q1 by (subst AppendSize.simps) (simp add: Let_def a1)
    with 1(3) have "c' = c1" "\<forall>r. q = Some r \<longrightarrow> r = buffer_end c + 16 + ?m"
      by (auto split: if_splits)
    then show ?thesis using Next_ok [OF 1(2) n1] 1(2) False by (auto simp: ctx_ok_def)
  qed
qed


text \<open>What every parser keeps: the invariant, and the input that is left does not grow.\<close>

definition advances :: "bytes \<Rightarrow> nat \<Rightarrow> 'm parsed \<Rightarrow> bool" where
  "advances data p res \<longleftrightarrow>
     (\<exists>m q c. res = Some (m, q, c) \<and> ctx_ok data c \<and> (\<forall>r. q = Some r \<longrightarrow> length data - r \<le> length data - p))"

lemma advances_Some [simp]:
  "advances data p (Some (m, q, c)) \<longleftrightarrow>
     ctx_ok data c \<and> (\<forall>r. q = Some r \<longrightarrow> length data - r \<le> length data - p)"
  by (simp add: advances_def)

lemma advances_mono: "advances data q res \<Longrightarrow> p \<le> q \<Longrightarrow> advances data p res"
  unfolding advances_def using diff_le_mono2 [of p q "length data"] by force

lemma AppendString_advances: "ctx_ok data c \<Longrightarrow> advances data p (Some (AppendString data p n s c))"
  by (cases "AppendSize data p n s c") (auto simp: AppendString_def dest: AppendSize_ok)

lemma ParseLengthDelimited_advances:
  assumes "ctx_ok data c"
  shows "advances data p (Some (ParseLengthDelimited data num u p c))"
proof (cases "ReadSize data p")
  case None
  then show ?thesis using assms by (simp add: ParseLengthDelimited_def)
next
  case (Some qn)
  then obtain q n where "ReadSize data p = Some (q, n)" by (cases qn) auto
  then show ?thesis
    using advances_mono [OF AppendString_advances [OF assms, of q], of p] read_pos(4) [of data p q n]
    by (simp add: ParseLengthDelimited_def less_imp_le del: advances_Some)
qed

lemma InlineGreedyStringParser_advances:
  assumes "ctx_ok data c"
  shows "advances data p (Some (InlineGreedyStringParser data s p c))"
proof (cases "ReadSize data p")
  case None
  then show ?thesis using assms by (simp add: InlineGreedyStringParser_def)
next
  case (Some qn)
  then obtain q n where "ReadSize data p = Some (q, n)" by (cases qn) auto
  then show ?thesis
    using advances_mono [OF AppendString_advances [OF assms, of q], of p] read_pos(4) [of data p q n]
    by (simp add: InlineGreedyStringParser_def ReadString_def less_imp_le del: advances_Some)
qed

lemma FieldParser_advances_if:
  assumes "\<And>u c. ctx_ok data c \<Longrightarrow> advances data p (WireFormatParser k data u p c)" "ctx_ok data c"
  shows "advances data p (FieldParser k data tag u p c)"
proof -
  let ?c1 = "c\<lparr>depth := depth c - 1\<rparr>"
  have "ctx_ok data ?c1" using assms(2) by simp
  from assms(1) [OF this] obtain u' q c' where
    "WireFormatParser k data (u @ WriteVarint (ucast (drop_bit 3 tag * 8 + 3))) p ?c1 = Some (u', q, c')"
    "ctx_ok data c'" "\<forall>r. q = Some r \<longrightarrow> length data - r \<le> length data - p"
    unfolding advances_def by blast
  then show ?thesis
    using assms(2) ParseLengthDelimited_advances [OF assms(2)]
    by (auto simp: FieldParser.simps [of k] Let_def ConsumeEndGroup_def split: option.split bool.split dest!: read_pos(2))
qed

lemma WireFormatParser_done:
  "Done p c = (q, True, c') \<Longrightarrow> WireFormatParser (Suc k) data u p c = Some (u, q, c')"
  by (cases q; subst WireFormatParser.simps) simp_all

lemma WireFormatParser_more:
  "Done p c = (Some p', False, c') \<Longrightarrow> WireFormatParser (Suc k) data u p c =
     (case ReadTag data p' of
        None \<Rightarrow> Some (u, None, c')
      | Some (q, tag) \<Rightarrow>
          if tag = 0 \<or> tag AND 7 = 4 then Some (u, Some q, SetLastTag tag c')
          else (case FieldParser k data tag u q c' of
                  Some (u', Some r, c'') \<Rightarrow> WireFormatParser k data u' r c''
                | res \<Rightarrow> res))"
  by (subst WireFormatParser.simps) (auto split: option.split prod.split)

lemma WireFormatParser_advances:
  "ctx_ok data c \<Longrightarrow> length data - p < k \<Longrightarrow> advances data p (WireFormatParser k data u p c)"
proof (induction k arbitrary: u p c)
  case (Suc k)
  obtain q b c' where d: "Done p c = (q, b, c')" using prod_cases3 by blast
  note dk = Done_ok [OF Suc.prems(1) d]
  show ?case
  proof (cases b)
    case True
    with d have d: "Done p c = (q, True, c')" by simp
    have "advances data p (Some (u, q, c'))"
      using dk Done_left [OF Suc.prems(1)] d unfolding advances_Some by blast
    then show ?thesis using WireFormatParser_done [OF d, of k data u] by (simp only:)
  next
    case False
    then have q: "q = Some p" "p < length data" "ctx_ok data c'" using dk by auto
    show ?thesis
    proof (cases "ReadTag data p")
      case None
      then show ?thesis using d False q by (simp add: WireFormatParser_more)
    next
      case (Some rt)
      then obtain r tag where rt: "ReadTag data p = Some (r, tag)" by (cases rt) auto
      have pr: "p < r" "length data - r \<le> length data - p" using read_pos(3) [OF rt] by auto
      then have k: "length data - r < k" using Suc.prems(2) q(2) by linarith
      have f: "advances data r (FieldParser k data tag u r c')"
        using Suc.IH [OF _ k] q(3) by (intro FieldParser_advances_if)
      then obtain u' q' c'' where f': "FieldParser k data tag u r c' = Some (u', q', c'')"
        "ctx_ok data c''" "\<forall>s. q' = Some s \<longrightarrow> length data - s \<le> length data - r"
        unfolding advances_def by blast
      show ?thesis
      proof (cases q')
        case None
        then show ?thesis using d False q rt f' pr by (simp add: WireFormatParser_more)
      next
        case (Some s)
        then have "length data - s < k" "length data - s \<le> length data - p" using f'(3) k pr by auto
        then have "advances data p (WireFormatParser k data u' s c'')"
          using Suc.IH [OF f'(2)] unfolding advances_def by (meson order_trans)
        then show ?thesis using d False q rt f' pr Some by (simp add: WireFormatParser_more)
      qed
    qed
  qed
qed simp


lemma FieldParser_advances:
  "ctx_ok data c \<Longrightarrow> length data - p < k \<Longrightarrow> advances data p (FieldParser k data tag u p c)"
  by (intro FieldParser_advances_if WireFormatParser_advances)

text \<open>
  A switch that advances, and with it the loop, never runs out of fuel; \<open>n\<close> is the number of
  levels of message fields below.
\<close>

definition switch_ok :: "nat \<Rightarrow> 'm field_switch \<Rightarrow> bool" where
  "switch_ok n sw \<longleftrightarrow>
     (\<forall>k data tag m p c. ctx_ok data c \<longrightarrow> length data - p + n < k \<longrightarrow>
        (case sw k data tag m p c of
           Unusual \<Rightarrow> True
         | NoFuel \<Rightarrow> False
         | Field m' q c' \<Rightarrow> advances data p (Some (m', q, c'))))"

lemma switch_okD:
  assumes "switch_ok n sw" "ctx_ok data c" "length data - p + n < k"
  shows "sw k data tag m p c \<noteq> NoFuel"
    and "sw k data tag m p c = Field m' q c' \<Longrightarrow> advances data p (Some (m', q, c'))"
proof -
  have "case sw k data tag m p c of Unusual \<Rightarrow> True | NoFuel \<Rightarrow> False
      | Field m' q c' \<Rightarrow> advances data p (Some (m', q, c'))"
    using assms unfolding switch_ok_def by blast
  then show "sw k data tag m p c \<noteq> NoFuel"
    and "sw k data tag m p c = Field m' q c' \<Longrightarrow> advances data p (Some (m', q, c'))"
    by (auto split: handled.splits)
qed

lemma InternalParse_done:
  "Done p c = (q, True, c') \<Longrightarrow> InternalParse sw (Suc k) data m p c = Some (m, q, c')"
  by (cases q) simp_all

lemma InternalParse_more:
  "Done p c = (Some p', False, c') \<Longrightarrow> InternalParse sw (Suc k) data m p c =
     (case ReadTag data p' of
        None \<Rightarrow> Some (m, None, c')
      | Some (q, tag) \<Rightarrow>
          (case sw k data tag m q c' of
             NoFuel \<Rightarrow> None
           | Field m' r c'' \<Rightarrow>
               (case r of None \<Rightarrow> Some (m', None, c'') | Some s \<Rightarrow> InternalParse sw k data m' s c'')
           | Unusual \<Rightarrow>
               if tag = 0 \<or> tag AND 7 = 4 then Some (m, Some q, SetLastTag tag c')
               else
                 (case FieldParser k data tag (unknown_fields m) q c' of
                    None \<Rightarrow> None
                  | Some (u, r, c'') \<Rightarrow>
                      (case r of None \<Rightarrow> Some (m\<lparr>unknown_fields := u\<rparr>, None, c'')
                       | Some s \<Rightarrow> InternalParse sw k data (m\<lparr>unknown_fields := u\<rparr>) s c''))))"
  by (simp split: option.split prod.split handled.split)

lemma InternalParse_advances:
  assumes "switch_ok n sw"
  shows "ctx_ok data c \<Longrightarrow> length data - p + n < k \<Longrightarrow> advances data p (InternalParse sw k data m p c)"
proof (induction k arbitrary: m p c)
  case (Suc k)
  obtain q b c' where d: "Done p c = (q, b, c')" using prod_cases3 by blast
  note dk = Done_ok [OF Suc.prems(1) d]
  show ?case
  proof (cases b)
    case True
    with d have d: "Done p c = (q, True, c')" by simp
    have "advances data p (Some (m, q, c'))"
      using dk Done_left [OF Suc.prems(1)] d unfolding advances_Some by blast
    then show ?thesis using InternalParse_done [OF d, of sw k data m] by (simp only:)
  next
    case False
    then have q: "Done p c = (Some p, False, c')" "p < length data" "ctx_ok data c'" using dk d by auto
    show ?thesis
    proof (cases "ReadTag data p")
      case None
      then show ?thesis unfolding InternalParse_more [OF q(1)] using q by simp
    next
      case (Some rt)
      then obtain r tag where rt: "ReadTag data p = Some (r, tag)" by (cases rt) auto
      have pr: "p < r" "length data - r \<le> length data - p" using read_pos(3) [OF rt] by auto
      then have k: "length data - r + n < k" using Suc.prems(2) q(2) by linarith
      have go_on: "advances data p (InternalParse sw k data m1 s c1)"
        if "ctx_ok data c1" "length data - s \<le> length data - r" for m1 s c1
        using Suc.IH [OF that(1), of s m1] that(2) k pr(2) unfolding advances_def by force
      show ?thesis
      proof (cases "sw k data tag m r c'")
        case Unusual
        obtain u s c1 where f: "FieldParser k data tag (unknown_fields m) r c' = Some (u, s, c1)" "ctx_ok data c1"
          "\<And>x. s = Some x \<Longrightarrow> length data - x \<le> length data - r"
          using FieldParser_advances [OF q(3) add_lessD1 [OF k], of tag "unknown_fields m"] unfolding advances_def by blast
        show ?thesis
          unfolding InternalParse_more [OF q(1)] using rt Unusual f q(3) pr go_on
          by (auto split: option.split)
      next
        case (Field m1 s c1)
        then have "ctx_ok data c1" "\<And>x. s = Some x \<Longrightarrow> length data - x \<le> length data - r"
          using switch_okD(2) [OF assms q(3) k Field] by auto
        then show ?thesis
          unfolding InternalParse_more [OF q(1)] using rt Field go_on by (auto split: option.split)
      next
        case NoFuel
        then show ?thesis using switch_okD(1) [OF assms q(3) k, of tag m] by simp
      qed
    qed
  qed
qed simp


lemma ParseMessage_advances:
  assumes "\<And>q c. ctx_ok data c \<Longrightarrow> p < q \<Longrightarrow> advances data q (parse q c)" "ctx_ok data c"
  shows "advances data p (ParseMessage parse data m p c)"
proof (cases "ReadSize data p")
  case None
  then show ?thesis using assms(2) by (simp add: ParseMessage_def)
next
  case (Some qn)
  then obtain q n where rs: "ReadSize data p = Some (q, n)" by (cases qn) auto
  then have pq: "p < q" by (rule read_pos)
  obtain old c1 where push: "PushLimit q n c = (old, c1)" by fastforce
  define c2 where "c2 = c1\<lparr>depth := depth c1 - 1\<rparr>"
  have c2: "ctx_ok data c2" using PushLimit_ok [OF assms(2), of q n] push by (simp add: c2_def)
  from assms(1) [OF this pq] obtain m' r c3 where r: "parse q c2 = Some (m', r, c3)" "ctx_ok data c3"
    "\<And>x. r = Some x \<Longrightarrow> length data - x \<le> length data - q"
    unfolding advances_def by blast
  define res where "res = (if depth c2 < 0 then (m, None, c2) else (m', r, c3))"
  obtain m4 r4 c4 where res: "res = (m4, r4, c4)" by (cases res)
  then have ok: "ctx_ok data c4" "\<And>x. r4 = Some x \<Longrightarrow> length data - x \<le> length data - q"
    using c2 r by (auto simp: res_def split: if_splits)
  obtain b c5 where pop: "PopLimit old (c4\<lparr>depth := depth c4 + 1\<rparr>) = (b, c5)" by fastforce
  have c5: "ctx_ok data c5" using PopLimit_ok [of data "c4\<lparr>depth := depth c4 + 1\<rparr>" old] ok(1) pop by simp
  have "(if depth c2 < 0 then Some (m, None, c2) else parse q c2) = Some (m4, r4, c4)"
    using r res by (auto simp: res_def)
  then have "ParseMessage parse data m p c = Some (m4, if b then r4 else None, c5)"
    by (simp only: ParseMessage_def rs push pop option.case prod.case Let_def c2_def [symmetric])
  moreover have "length data - x \<le> length data - p" if "r4 = Some x" for x
    using ok(2) [OF that] pq by (meson diff_le_mono2 less_imp_le order_trans)
  ultimately show ?thesis using c5 by simp
qed

lemma ParseRepeated_advances:
  assumes "\<And>k q c. ctx_ok data c \<Longrightarrow> length data - q + n < k \<Longrightarrow> advances data q (parse k data new q c)"
  shows "ctx_ok data c \<Longrightarrow> length data - p + Suc n < k \<Longrightarrow>
    advances data p (ParseRepeated parse new tb k data es p c)"
proof (induction k arbitrary: es p c)
  case (Suc k)
  have "advances data p (ParseMessage (parse k data new) data new p c)"
    using Suc.prems by (intro ParseMessage_advances assms) auto
  then obtain e q c1 where m: "ParseMessage (parse k data new) data new p c = Some (e, q, c1)" "ctx_ok data c1"
    "\<And>x. q = Some x \<Longrightarrow> length data - x \<le> length data - p"
    unfolding advances_def by blast
  show ?case
  proof (cases q)
    case None
    then show ?thesis using m by simp
  next
    case (Some r)
    show ?thesis
    proof (cases "DataAvailable r c1 \<and> mem data r = tb")
      case True
      then have "int r < limit_end c1" by (simp add: DataAvailable_def)
      moreover have "limit_end c1 \<le> int (buffer_end c1)" "buffer_end c1 \<le> length data"
        using m(2) by (auto simp: ctx_ok_def split: if_splits)
      ultimately have "r < length data" by linarith
      then have "length data - (r + 1) + Suc n < k" "length data - (r + 1) \<le> length data - p"
        using m(3) [OF Some] Suc.prems(2) by linarith+
      then have "advances data p (ParseRepeated parse new tb k data (es @ [e]) (r + 1) c1)"
        using Suc.IH [OF m(2), of "r + 1" "es @ [e]"] unfolding advances_def by (meson order_trans)
      then show ?thesis using m(1) Some True by simp
    next
      case False
      then show ?thesis using m Some by auto
    qed
  qed
qed simp

end
