(* ===== verification/Slop.thy ===== *)
theory Slop
  imports Wire
begin

text \<open>
  How far the parser looks ahead. The comment that opens \<open>parse_context.h\<close> rests the design on two
  claims: 16 bytes behind the end of a chunk may be read, and a key with its value takes less than
  that, so the readers test nothing. Here the claims are lemmas: a reader's result depends on a
  window of bytes only, and where the parse loop calls the readers the window ends in time.
\<close>

section \<open>Windows\<close>

text \<open>Two arrays that cannot be told apart by reading the bytes from \<open>a\<close> up to \<open>b\<close>.\<close>

definition agree :: "bytes \<Rightarrow> bytes \<Rightarrow> nat \<Rightarrow> nat \<Rightarrow> bool" where
  "agree data data' a b \<longleftrightarrow> (\<forall>i. a \<le> i \<longrightarrow> i < b \<longrightarrow> mem data i = mem data' i)"

lemma agreeD: "agree data data' a b \<Longrightarrow> a \<le> i \<Longrightarrow> i < b \<Longrightarrow> mem data i = mem data' i"
  by (simp add: agree_def)

lemma agree_sub: "agree data data' a b \<Longrightarrow> a \<le> a' \<Longrightarrow> b' \<le> b \<Longrightarrow> agree data data' a' b'"
  by (simp add: agree_def)

lemma VarintParseSlow32_window:
  "agree data data' p (p + 10) \<Longrightarrow> VarintParseSlow32 data p i r = VarintParseSlow32 data' p i r"
proof (induction data p i r rule: VarintParseSlow32.induct)
  case (1 data p i r)
  then show ?case
    using agreeD [OF "1.prems", of "p + i"]
    by (simp add: VarintParseSlow32.simps [of data p i r] VarintParseSlow32.simps [of data' p i r] Let_def)
qed

lemma VarintParseSlow64_window:
  "agree data data' p (p + 10) \<Longrightarrow> VarintParseSlow64 data p i r = VarintParseSlow64 data' p i r"
proof (induction data p i r rule: VarintParseSlow64.induct)
  case (1 data p i r)
  then show ?case
    using agreeD [OF "1.prems", of "p + i"]
    by (simp add: VarintParseSlow64.simps [of data p i r] VarintParseSlow64.simps [of data' p i r] Let_def)
qed

lemma ReadTagFallback_window:
  "agree data data' p (p + 5) \<Longrightarrow> ReadTagFallback data p i r = ReadTagFallback data' p i r"
proof (induction data p i r rule: ReadTagFallback.induct)
  case (1 data p i r)
  then show ?case
    using agreeD [OF "1.prems", of "p + i"]
    by (simp add: ReadTagFallback.simps [of data p i r] ReadTagFallback.simps [of data' p i r] Let_def)
qed

lemma ReadSizeFallback_window:
  "agree data data' p (p + 5) \<Longrightarrow> ReadSizeFallback data p i r = ReadSizeFallback data' p i r"
proof (induction data p i r rule: ReadSizeFallback.induct)
  case (1 data p i r)
  then show ?case
    using agreeD [OF "1.prems", of "p + i"] agreeD [OF "1.prems", of "p + 4"]
    by (simp add: ReadSizeFallback.simps [of data p i r] ReadSizeFallback.simps [of data' p i r] Let_def)
qed

lemma ReadTagFallback_end: "ReadTagFallback data p i r = Some (q, v) \<Longrightarrow> q \<le> p + 5"
  by (induction data p i r rule: ReadTagFallback.induct)
     (subst (asm) (2) ReadTagFallback.simps, auto simp: Let_def split: if_splits)

text \<open>The readers: a tag is read from five bytes, a size too, a number from ten.\<close>

lemma ReadVarint32_window: "agree data data' p (p + 10) \<Longrightarrow> ReadVarint32 data p = ReadVarint32 data' p"
  using VarintParseSlow32_window [of data data' p 2] agreeD [of data data' p "p + 10" p]
    agreeD [of data data' p "p + 10" "p + 1"]
  by (simp add: ReadVarint32_def Let_def)

lemma ReadVarint64_window: "agree data data' p (p + 10) \<Longrightarrow> ReadVarint64 data p = ReadVarint64 data' p"
  using VarintParseSlow64_window [of data data' p 2] agreeD [of data data' p "p + 10" p]
    agreeD [of data data' p "p + 10" "p + 1"]
  by (simp add: ReadVarint64_def Let_def)

lemma ReadTag_window: "agree data data' p (p + 5) \<Longrightarrow> ReadTag data p = ReadTag data' p"
  using ReadTagFallback_window [of data data' p 2] agreeD [of data data' p "p + 5" p]
    agreeD [of data data' p "p + 5" "p + 1"]
  by (simp add: ReadTag_def Let_def)

lemma ReadSize_window: "agree data data' p (p + 5) \<Longrightarrow> ReadSize data p = ReadSize data' p"
  using ReadSizeFallback_window [of data data' p 1] agreeD [of data data' p "p + 5" p]
  by (simp add: ReadSize_def Let_def)

lemma slice_window: "agree data data' p (p + n) \<Longrightarrow> slice data p n = slice data' p n"
  by (auto simp: slice_def intro: agreeD)

lemma ReadTag_end: "ReadTag data p = Some (r, tag) \<Longrightarrow> r \<le> p + 5"
  by (auto simp: ReadTag_def Let_def dest: ReadTagFallback_end split: if_splits)

section \<open>The parse loop\<close>

text \<open>Where the loop goes on, it is before the end of the chunk.\<close>

lemma Done_before_end:
  assumes "ctx_ok data c" "Done p c = (q, False, c')"
  shows "q = Some p \<and> p < buffer_end c'"
proof -
  have ok: "ctx_ok data c'" "q = Some p" "p < length data" using Done_ok [OF assms] by auto
  show ?thesis
  proof (cases "int p < limit_end c")
    case True
    then have "c' = c" using assms(2) by (simp add: Done_def)
    with True ok show ?thesis by (auto simp: ctx_ok_def split: if_splits)
  next
    case False
    then have "\<not> next_chunk c'"
      using assms(2) by (auto simp: Done_def DoneFallback_def done_loop.simps NextBuffer_def advance_limit_def
          set_limit_end_def Let_def split: if_splits)
    with ok show ?thesis by (simp add: ctx_ok_def)
  qed
qed

text \<open>
  Property C6: reading a key and its value takes less than the 16 bytes behind a chunk that may be
  read: where the parse loop goes on at a position, that position is before the end of the chunk,
  the tag ends at most five bytes later, and the tag and the number, size or fixed-width value
  behind it are the same for any two arrays that agree up to 15 bytes behind the end.
\<close>

theorem key_value_within_slop:
  assumes "ctx_ok data c" "Done p c = (Some q, False, c')"
    and "agree data data' 0 (buffer_end c' + 15)"
  shows "q < buffer_end c' \<and> ReadTag data' q = ReadTag data q \<and>
    (\<forall>r tag. ReadTag data q = Some (r, tag) \<longrightarrow> r \<le> q + 5 \<and>
       ReadVarint32 data' r = ReadVarint32 data r \<and> ReadVarint64 data' r = ReadVarint64 data r \<and>
       ReadSize data' r = ReadSize data r \<and> slice data' r 8 = slice data r 8)"
proof -
  have q: "q < buffer_end c'" using Done_before_end [OF assms(1,2)] by simp
  have w: "agree data data' r (r + n)" if "r \<le> q + 5" "n \<le> 10" for r n
    using that q by (intro agree_sub [OF assms(3)]) simp_all
  have "r \<le> q + 5" "ReadVarint32 data' r = ReadVarint32 data r" "ReadVarint64 data' r = ReadVarint64 data r"
    "ReadSize data' r = ReadSize data r" "slice data' r 8 = slice data r 8"
    if "ReadTag data q = Some (r, tag)" for r tag
  proof -
    show r: "r \<le> q + 5" by (rule ReadTag_end [OF that])
    show "ReadVarint32 data' r = ReadVarint32 data r" "ReadVarint64 data' r = ReadVarint64 data r"
      using ReadVarint32_window [OF w [OF r]] ReadVarint64_window [OF w [OF r]] by simp_all
    show "ReadSize data' r = ReadSize data r" "slice data' r 8 = slice data r 8"
      using ReadSize_window [OF w [OF r]] slice_window [OF w [OF r]] by simp_all
  qed
  moreover have "ReadTag data' q = ReadTag data q" using ReadTag_window [OF w [of q 5]] by simp
  ultimately show ?thesis using q by blast
qed

lemma key_value_within_slop_witness:
  "Done 0 (InitFrom 100 [8, 1]) = (Some 0, False, InitFrom 100 [8, 1]) \<and>
   ReadTag ([8, 1] @ replicate 20 0 @ [7]) 0 = Some (1, 8)"
proof -
  let ?c = "InitFrom 100 [8, 1]"
  have d: "Done 0 ?c = (Some 0, False, ?c)" by (simp add: InitFrom_def Done_def Let_def)
  have "agree [8, 1] ([8, 1] @ replicate 20 0 @ [7]) 0 (buffer_end ?c + 15)"
    by (auto simp: agree_def mem_def InitFrom_def Let_def nth_Cons nth_append split: nat.splits)
  from key_value_within_slop [OF ctx_ok_InitFrom d this]
  have "ReadTag ([8, 1] @ replicate 20 0 @ [7]) 0 = ReadTag [8, 1] 0" by simp
  also have "ReadTag [8, 1] 0 = Some (1, 8)" by (simp add: ReadTag_def mem_def Let_def)
  finally show ?thesis using d by simp
qed

end
