(* ===== verification/Codec.thy ===== *)
theory Codec
  imports Wire
begin

text \<open>
  What the generated message classes have in common: a message as a sequence of fields, the
  rules that read such a sequence back field by field, the sizes of the fields, and the contract
  of a message class as a locale.
\<close>

section \<open>Messages as sequences of fields\<close>

text \<open>
  A generated \<open>SerializeToString\<close> writes the fields in the order of their numbers and leaves out
  those that have their default. \<open>eats sw data d m bs m'\<close>: where \<open>bs\<close> is what is left of the
  input, the loop reads it into \<open>m\<close> with the result \<open>m'\<close>.
\<close>

definition eats ::
  "'a message_lite_scheme field_switch \<Rightarrow> bytes \<Rightarrow> int \<Rightarrow> 'a message_lite_scheme \<Rightarrow> bytes \<Rightarrow>
   'a message_lite_scheme \<Rightarrow> bool" where
  "eats sw data d m bs m' \<longleftrightarrow> (\<forall>p. has data p bs \<longrightarrow> runs_to sw data (p + length bs) d m p m')"

lemma eats_end: "m = m' \<Longrightarrow> eats sw data d m [] m'"
  by (simp add: eats_def runs_to_end)

lemma eats_skip: "eats sw data d m rest m' \<Longrightarrow> eats sw data d m ([] @ rest) m'"
  by simp

lemma scast_ucast_32: "ucast (scast (w :: u32) :: u64) = w"
  by (rule bit_word_eqI) (auto simp: bit_simps)

lemma ucast_ucast_32: "ucast (ucast (w :: u32) :: u64) = w"
  by (rule bit_word_eqI) (auto simp: bit_simps)

lemma eats_field:
  assumes "\<And>p L. has data p e \<Longrightarrow> p + length e \<le> L \<Longrightarrow>
      runs_to sw data L d m1 (p + length e) m' \<Longrightarrow> runs_to sw data L d m p m'"
    and "eats sw data d m1 rest m'"
  shows "eats sw data d m (e @ rest) m'"
  unfolding eats_def
proof (intro allI impI)
  fix p assume h: "has data p (e @ rest)"
  then have "runs_to sw data (p + length e + length rest) d m1 (p + length e) m'"
    using assms(2) by (simp add: eats_def has_append)
  then show "runs_to sw data (p + length (e @ rest)) d m p m'"
    using h by (intro assms(1)) (simp_all add: has_append add.assoc)
qed

lemma eats_int32:
  assumes sw: "\<And>k q c. sw k data (MakeTag n 0) m q c = varint32_field upd data m q c"
    and "upd 0 m = m" and rest: "eats sw data d (upd v m) rest m'"
  shows "eats sw data d m ((if v \<noteq> 0 then WriteInt32 n v else []) @ rest) m'"
proof (cases "v = 0")
  case True
  then show ?thesis using assms by simp
next
  case False
  have "eats sw data d m (WriteInt32 n v @ rest) m'"
    unfolding WriteInt32_def
  proof (rule eats_field [OF _ rest])
    fix p L
    assume "has data p (WriteTag (MakeTag n 0) @ WriteVarint (scast v))"
      "p + length (WriteTag (MakeTag n 0) @ WriteVarint (scast v)) \<le> L"
      "runs_to sw data L d (upd v m) (p + length (WriteTag (MakeTag n 0) @ WriteVarint (scast v))) m'"
    then show "runs_to sw data L d m p m'"
      by (intro runs_to_varint32 [where sw = sw and data = data and m = m and t = "MakeTag n 0" and upd = upd and v = "scast v", OF sw])
        (simp_all only: scast_ucast_32)
  qed
  with False show ?thesis by simp
qed

lemma eats_uint32:
  assumes sw: "\<And>k q c. sw k data (MakeTag n 0) m q c = varint32_field upd data m q c"
    and "upd 0 m = m" and rest: "eats sw data d (upd v m) rest m'"
  shows "eats sw data d m ((if v \<noteq> 0 then WriteUInt32 n v else []) @ rest) m'"
proof (cases "v = 0")
  case True
  then show ?thesis using assms by simp
next
  case False
  have "eats sw data d m (WriteUInt32 n v @ rest) m'"
    unfolding WriteUInt32_def
  proof (rule eats_field [OF _ rest])
    fix p L
    assume "has data p (WriteTag (MakeTag n 0) @ WriteVarint (ucast v))"
      "p + length (WriteTag (MakeTag n 0) @ WriteVarint (ucast v)) \<le> L"
      "runs_to sw data L d (upd v m) (p + length (WriteTag (MakeTag n 0) @ WriteVarint (ucast v))) m'"
    then show "runs_to sw data L d m p m'"
      by (intro runs_to_varint32 [where sw = sw and data = data and m = m and t = "MakeTag n 0" and upd = upd and v = "ucast v", OF sw])
        (simp_all only: ucast_ucast_32)
  qed
  with False show ?thesis by simp
qed

lemma eats_uint64:
  assumes sw: "\<And>k q c. sw k data (MakeTag n 0) m q c = varint64_field upd data m q c"
    and "upd 0 m = m" and rest: "eats sw data d (upd v m) rest m'"
  shows "eats sw data d m ((if v \<noteq> 0 then WriteUInt64 n v else []) @ rest) m'"
proof (cases "v = 0")
  case True
  then show ?thesis using assms by simp
next
  case False
  have "eats sw data d m (WriteUInt64 n v @ rest) m'"
    unfolding WriteUInt64_def
  proof (rule eats_field [OF _ rest])
    fix p L
    assume "has data p (WriteTag (MakeTag n 0) @ WriteVarint v)"
      "p + length (WriteTag (MakeTag n 0) @ WriteVarint v) \<le> L"
      "runs_to sw data L d (upd v m) (p + length (WriteTag (MakeTag n 0) @ WriteVarint v)) m'"
    then show "runs_to sw data L d m p m'"
      by (intro runs_to_varint64 [where sw = sw and data = data and m = m and t = "MakeTag n 0" and upd = upd and v = v, OF sw])
        (simp_all only:)
  qed
  with False show ?thesis by simp
qed

lemma eats_bytes:
  assumes sw: "\<And>k q c. sw k data (MakeTag n 2) m q c = bytes_field get upd data m q c"
    and "upd [] m = m" and rest: "eats sw data d (upd v m) rest m'"
  shows "eats sw data d m ((if v \<noteq> [] then WriteBytes n v else []) @ rest) m'"
proof (cases "v = []")
  case True
  then show ?thesis using assms by simp
next
  case False
  have "eats sw data d m (WriteBytes n v @ rest) m'"
    unfolding WriteBytes_def delimited_def [symmetric]
  proof (rule eats_field [OF _ rest])
    fix p L
    assume "has data p (WriteTag (MakeTag n 2) @ delimited v)"
      "p + length (WriteTag (MakeTag n 2) @ delimited v) \<le> L"
      "runs_to sw data L d (upd v m) (p + length (WriteTag (MakeTag n 2) @ delimited v)) m'"
    then show "runs_to sw data L d m p m'"
      by (intro runs_to_bytes [where sw = sw and data = data and m = m and t = "MakeTag n 2" and upd = upd and get = get and s = v, OF sw])
        (simp_all only:)
  qed
  with False show ?thesis by simp
qed

lemma eats_message:
  assumes sw: "\<And>k q c. sw k data (MakeTag n 2) m q c = message_field parse get upd k data m q c"
    and x: "reads parse enc (get m) x l" "l < d" "0 \<le> l" and rest: "eats sw data d (upd x m) rest m'"
  shows "eats sw data d m ((WriteTag (MakeTag n 2) @ delimited enc) @ rest) m'"
proof (rule eats_field [OF _ rest])
  fix p L
  assume "has data p (WriteTag (MakeTag n 2) @ delimited enc)"
    "p + length (WriteTag (MakeTag n 2) @ delimited enc) \<le> L"
    "runs_to sw data L d (upd x m) (p + length (WriteTag (MakeTag n 2) @ delimited enc)) m'"
  then show "runs_to sw data L d m p m'"
    by (intro runs_to_message [where sw = sw and data = data and m = m and parse = parse and t = "MakeTag n 2" and get = get and upd = upd, OF sw x]) (simp_all only:)
qed

lemma eats_repeated:
  assumes sw: "\<And>k q m c. sw k data (MakeTag n 2) m q c = repeated_field parse new tb get put k data m q c"
    and tb: "WriteTag (MakeTag n 2) = [tb]"
    and put: "\<And>es m. get (put es m) = es" "\<And>es es' m. put es (put es' m) = put es m" "\<And>m. put (get m) m = m"
    and xs: "\<And>x. x \<in> set xs \<Longrightarrow> reads parse (ser x) new x l" "l < d" "0 \<le> l"
    and m': "m' = put (get m @ xs) m"
  shows "eats sw data d m (repeated tb (map ser xs)) m'"
  unfolding eats_def
proof (intro allI impI)
  fix p assume h: "has data p (repeated tb (map ser xs))"
  let ?L = "p + length (repeated tb (map ser xs))"
  have r: "runs_to sw data ?L d (put (get m @ xs) m) ?L m'"
    unfolding m' by (rule runs_to_end)
  show "runs_to sw data ?L d m p m'"
    by (rule runs_to_repeated [where sw = sw and data = data and m = m and parse = parse and new = new and tb = tb and t = "MakeTag n 2" and get = get and put = put and ser = ser,
          OF sw tb put xs h refl order_refl disjI1 [OF refl] r]) assumption
qed

lemma reads_eats:
  assumes "\<And>data d. n \<le> d \<Longrightarrow> eats sw data d m enc m'"
  shows "reads (\<lambda>k data m p c. InternalParse sw k data m p c) enc m m' n"
  using assms by (intro reads_InternalParse) (auto simp: eats_def)

text \<open>A message field is written behind its cached size, an \<open>int\<close>.\<close>

definition WriteMessage :: "nat \<Rightarrow> nat \<Rightarrow> bytes \<Rightarrow> bytes" where
  "WriteMessage number cached_size enc =
     WriteTag (MakeTag number 2) @ WriteVarint (ucast (word_of_nat cached_size :: u32)) @ enc"

lemma WriteMessage_delimited:
  "length enc < 2 ^ 32 \<Longrightarrow> WriteMessage number (length enc) enc = WriteTag (MakeTag number 2) @ delimited enc"
  by (simp add: WriteMessage_def delimited_def ucast_small)

lemma WriteTag_small: "t < 128 \<Longrightarrow> WriteTag t = [ucast t]"
proof -
  assume "t < 128"
  then have "\<not> (128 :: u64) \<le> ucast t"
    by (simp add: word_le_nat_alt word_less_nat_alt unat_ucast_32_64)
  moreover have "(ucast (ucast t :: u64) :: byte) = ucast t"
    by (rule bit_word_eqI) (auto simp: bit_simps)
  ultimately show ?thesis by (simp add: WriteTag_def WriteVarint.simps [of "ucast t"])
qed

section \<open>Sizes and progress of the fields\<close>

lemma length_WriteTag: "8 * n + t < 128 \<Longrightarrow> length (WriteTag (MakeTag n t)) = 1"
proof -
  assume "8 * n + t < 128"
  then have "unat (MakeTag n t) < 128"
    unfolding MakeTag_def by (subst unsigned_of_nat) (simp add: take_bit_nat_eq_self)
  then show ?thesis by (simp add: WriteTag_small word_less_nat_alt)
qed

lemma length_WriteInt32 [wire_simps]: "8 * n < 128 \<Longrightarrow> length (WriteInt32 n v) = Int32Size v + 1"
  by (simp add: WriteInt32_def length_WriteTag [of n 0] Int32Size_def VarintSize64_length)

lemma length_WriteUInt32 [wire_simps]: "8 * n < 128 \<Longrightarrow> length (WriteUInt32 n v) = VarintSize32 v + 1"
  by (simp add: WriteUInt32_def length_WriteTag [of n 0] VarintSize32_length)

lemma length_WriteUInt64 [wire_simps]: "8 * n < 128 \<Longrightarrow> length (WriteUInt64 n v) = VarintSize64 v + 1"
  by (simp add: WriteUInt64_def length_WriteTag [of n 0] VarintSize64_length)

lemma length_WriteBytes [wire_simps]:
  "8 * n + 2 < 128 \<Longrightarrow> length s < 2 ^ 32 \<Longrightarrow> length (WriteBytes n s) = 1 + LengthDelimitedSize (length s)"
  by (simp add: WriteBytes_def length_WriteTag [of n 2] LengthDelimitedSize_length delimited_def)

lemma length_WriteBytes_ge: "length s \<le> length (WriteBytes n s)"
  by (simp add: WriteBytes_def)

lemma length_WriteMessage_ge: "length enc \<le> length (WriteMessage n k enc)"
  by (simp add: WriteMessage_def)

text \<open>A case of a switch: it does not fail for want of fuel and does not go back.\<close>

definition handled_ok :: "bytes \<Rightarrow> nat \<Rightarrow> 'm handled \<Rightarrow> bool" where
  "handled_ok data p h \<longleftrightarrow>
     (case h of Unusual \<Rightarrow> True | NoFuel \<Rightarrow> False | Field m q c \<Rightarrow> advances data p (Some (m, q, c)))"

lemma switch_okI:
  "(\<And>k data tag m p c. ctx_ok data c \<Longrightarrow> length data - p + n < k \<Longrightarrow> handled_ok data p (sw k data tag m p c)) \<Longrightarrow>
   switch_ok n sw"
  by (simp add: switch_ok_def handled_ok_def)

lemma handled_ok_Unusual: "handled_ok data p Unusual"
  by (simp add: handled_ok_def)

lemma handled_ok_varint32: "ctx_ok data c \<Longrightarrow> handled_ok data p (varint32_field upd data m p c)"
  by (auto simp: handled_ok_def varint32_field_def dest: read_pos split: option.split)

lemma handled_ok_varint64: "ctx_ok data c \<Longrightarrow> handled_ok data p (varint64_field upd data m p c)"
  by (auto simp: handled_ok_def varint64_field_def dest: read_pos split: option.split)

lemma handled_ok_bytes: "ctx_ok data c \<Longrightarrow> handled_ok data p (bytes_field get upd data m p c)"
  using InlineGreedyStringParser_advances [of data c p "get m"]
  by (auto simp: handled_ok_def bytes_field_def split: prod.split)

lemma handled_ok_message:
  assumes "\<And>q c. ctx_ok data c \<Longrightarrow> p < q \<Longrightarrow> advances data q (parse k data (get m) q c)" "ctx_ok data c"
  shows "handled_ok data p (message_field parse get upd k data m p c)"
  using ParseMessage_advances [of data p "parse k data (get m)" c "get m"] assms
  by (auto simp: handled_ok_def message_field_def advances_def)

lemma handled_ok_repeated:
  assumes "\<And>k q c. ctx_ok data c \<Longrightarrow> length data - q + n < k \<Longrightarrow> advances data q (parse k data new q c)"
    and "ctx_ok data c" "length data - p + Suc n < k"
  shows "handled_ok data p (repeated_field parse new tb get put k data m p c)"
  using ParseRepeated_advances [of data n parse new c p k tb "get m"] assms
  by (auto simp: handled_ok_def repeated_field_def advances_def)

lemmas handled_ok_fields =
  handled_ok_Unusual handled_ok_varint32 handled_ok_varint64 handled_ok_bytes

section \<open>The contract of a message class\<close>

text \<open>
  What every generated class promises the code that uses it: a message without unknown fields is
  read back from what it writes, it knows the size of what it writes before writing it, merging
  into a cleared message copies, and parsing always comes to an end.
\<close>

locale message_codec =
  fixes parse :: "nat \<Rightarrow> bytes \<Rightarrow> 'm \<Rightarrow> nat \<Rightarrow> ctx \<Rightarrow> 'm parsed"
    and serialize :: "'m \<Rightarrow> bytes"
    and byte_size :: "'m \<Rightarrow> nat"
    and cleared :: 'm
    and merge :: "'m \<Rightarrow> 'm \<Rightarrow> 'm"
    and known :: "'m \<Rightarrow> bool"
    and levels :: nat
  assumes parse_serialize: "known m \<Longrightarrow> length (serialize m) < 2 ^ 31 \<Longrightarrow>
      reads parse (serialize m) cleared m (int levels)"
    and size_serialize: "length (serialize m) < 2 ^ 31 \<Longrightarrow> byte_size m = length (serialize m)"
    and merge_cleared: "merge m cleared = m"
    and parse_advances: "ctx_ok data c \<Longrightarrow> length data - p + levels < k \<Longrightarrow> advances data p (parse k data m p c)"
    and levels_bound: "levels \<le> 100"
begin

lemma roundtrip:
  assumes "known m" "length (serialize m) \<le> 0x7FFFFFEF" "length (serialize m) < k"
  shows "ParseFromString (parse k (serialize m)) cleared (serialize m) = Some (m, True)"
  using assms levels_bound parse_serialize [of m]
  by (intro ParseFromString_reads [of parse "serialize m" cleared m "int levels"]) auto

lemma serialize_inj:
  assumes "known a" "known b" "serialize a = serialize b" "length (serialize a) \<le> 0x7FFFFFEF"
  shows "a = b"
proof -
  have "Some (a, True) = Some (b, True)"
    using roundtrip [OF assms(1,4) lessI] roundtrip [OF assms(2) _ lessI] assms(3,4) by metis
  then show ?thesis by simp
qed

lemma always_parses:
  assumes "length data + levels < k"
  shows "ParseFromString (parse k data) m data \<noteq> None"
  using parse_advances [OF ctx_ok_InitFrom, of data 0 k m 100] assms
  by (auto simp: ParseFromString_def advances_def)

lemma write_field:
  assumes "length (serialize m) < 2 ^ 31"
  shows "WriteMessage n (byte_size m) (serialize m) = WriteTag (MakeTag n 2) @ delimited (serialize m)"
  using assms by (simp add: size_serialize WriteMessage_delimited)

lemma field_size:
  assumes "length (serialize m) < 2 ^ 31"
  shows "LengthDelimitedSize (byte_size m) = length (delimited (serialize m))"
  using assms by (simp add: size_serialize LengthDelimitedSize_length)

lemma element_short:
  assumes "length (concat (map (\<lambda>x. WriteMessage n (byte_size x) (serialize x)) xs)) < 2 ^ 31" "x \<in> set xs"
  shows "length (serialize x) < 2 ^ 31"
proof -
  let ?w = "\<lambda>x. WriteMessage n (byte_size x) (serialize x)"
  have "length (serialize x) \<le> length (?w x)" by (rule length_WriteMessage_ge)
  also have "\<dots> \<le> length (concat (map ?w xs))"
    using assms(2) by (induction xs) auto
  finally show ?thesis using assms(1) by linarith
qed

lemma repeated_written:
  assumes "length (concat (map (\<lambda>x. WriteMessage n (byte_size x) (serialize x)) xs)) < 2 ^ 31"
    and "WriteTag (MakeTag n 2) = [tb]"
  shows "concat (map (\<lambda>x. WriteMessage n (byte_size x) (serialize x)) xs) = repeated tb (map serialize xs)"
  using element_short [OF assms(1)] assms(2) write_field [of _ n]
  by (auto simp: repeated_def intro!: arg_cong [of _ _ concat])

lemma repeated_size:
  assumes "length (concat (map (\<lambda>x. WriteMessage n (byte_size x) (serialize x)) xs)) < 2 ^ 31"
    and "WriteTag (MakeTag n 2) = [tb]"
  shows "length xs + sum_list (map (\<lambda>x. LengthDelimitedSize (byte_size x)) xs) =
    length (concat (map (\<lambda>x. WriteMessage n (byte_size x) (serialize x)) xs))"
  unfolding repeated_written [OF assms]
  using element_short [OF assms(1)] field_size
  by (induction xs) (auto simp: repeated_def)

end

end
