(* ===== verification/Messages.thy ===== *)
theory Messages
  imports Codec
begin

text \<open>
  The message classes of \<open>pro/login.proto\<close>, \<open>keepalive.proto\<close>,
       \<open>raw.proto\<close> and \<open>user_info.proto\<close>, as
  protoc generated them: for each class its fields, \<open>Clear\<close>,
       the \<open>switch\<close> of \<open>_InternalParse\<close>,
  \<open>_InternalSerialize\<close>, \<open>ByteSizeLong\<close>, \<open>MergeFrom\<close>,
       \<open>CopyFrom\<close> and \<open>InternalSwap\<close>, and the
  interpretation of the contract \<open>message_codec\<close>, whose proof is the correctness of the class.

  An \<open>int32\<close> is the word of its 32 bits. Arena allocation and the default instances have no
  counterpart; a message field that is absent is \<open>None\<close>.
\<close>

section \<open>The tags of the repeated fields\<close>

lemma WriteTag_10: "WriteTag (MakeTag 1 2) = [10]"
  and WriteTag_42: "WriteTag (MakeTag 5 2) = [42]"
  by (simp_all add: MakeTag_def WriteTag_small)

section \<open>NetInfo\<close>

record NetInfo = message_lite +
  NetInfo_node_id :: u32
  NetInfo_virtual_ip :: bytes
  NetInfo_subnet_ip_start :: bytes
  NetInfo_net_mask :: u32
  NetInfo_mac_addr :: bytes
  NetInfo_meta :: bytes

definition NetInfo_default :: NetInfo where
  "NetInfo_default = \<lparr>unknown_fields = [], NetInfo_node_id = 0, NetInfo_virtual_ip = [],
       NetInfo_subnet_ip_start = [], NetInfo_net_mask = 0, NetInfo_mac_addr = [], NetInfo_meta = []\<rparr>"

definition NetInfo_Clear :: "NetInfo \<Rightarrow> NetInfo" where
  "NetInfo_Clear m = m\<lparr>NetInfo_node_id := 0, NetInfo_virtual_ip := [],
       NetInfo_subnet_ip_start := [], NetInfo_net_mask := 0, NetInfo_mac_addr := [], NetInfo_meta := [],
       unknown_fields := []\<rparr>"

definition NetInfo_switch :: "NetInfo field_switch" where
  "NetInfo_switch k data tag m ptr c =
     (let number = drop_bit 3 tag; low = (ucast tag :: byte) in
      if number = 1 \<and> low = 8
      then varint32_field (\<lambda>v m. m\<lparr>NetInfo_node_id := v\<rparr>) data m ptr c
      else if number = 2 \<and> low = 18
      then bytes_field NetInfo_virtual_ip (\<lambda>v m. m\<lparr>NetInfo_virtual_ip := v\<rparr>) data m ptr c
      else if number = 3 \<and> low = 26
      then bytes_field NetInfo_subnet_ip_start (\<lambda>v m. m\<lparr>NetInfo_subnet_ip_start := v\<rparr>) data m ptr c
      else if number = 4 \<and> low = 32
      then varint32_field (\<lambda>v m. m\<lparr>NetInfo_net_mask := v\<rparr>) data m ptr c
      else if number = 5 \<and> low = 42
      then bytes_field NetInfo_mac_addr (\<lambda>v m. m\<lparr>NetInfo_mac_addr := v\<rparr>) data m ptr c
      else if number = 6 \<and> low = 50
      then bytes_field NetInfo_meta (\<lambda>v m. m\<lparr>NetInfo_meta := v\<rparr>) data m ptr c
      else Unusual)"

definition NetInfo_InternalParse :: "nat \<Rightarrow> bytes \<Rightarrow> NetInfo \<Rightarrow> nat \<Rightarrow> ctx \<Rightarrow> NetInfo parsed" where
  "NetInfo_InternalParse k data m ptr c = InternalParse NetInfo_switch k data m ptr c"

fun NetInfo_ByteSizeLong :: "NetInfo \<Rightarrow> nat" where
  "NetInfo_ByteSizeLong m =
     (if NetInfo_virtual_ip m \<noteq> [] then 1 + LengthDelimitedSize (length (NetInfo_virtual_ip m)) else 0) +
     (if NetInfo_subnet_ip_start m \<noteq> [] then 1 + LengthDelimitedSize (length (NetInfo_subnet_ip_start m)) else 0) +
     (if NetInfo_mac_addr m \<noteq> [] then 1 + LengthDelimitedSize (length (NetInfo_mac_addr m)) else 0) +
     (if NetInfo_meta m \<noteq> [] then 1 + LengthDelimitedSize (length (NetInfo_meta m)) else 0) +
     (if NetInfo_node_id m \<noteq> 0 then Int32Size (NetInfo_node_id m) + 1 else 0) +
     (if NetInfo_net_mask m \<noteq> 0 then Int32Size (NetInfo_net_mask m) + 1 else 0) +
     length (unknown_fields m)"

definition NetInfo_InternalSerialize :: "NetInfo \<Rightarrow> bytes" where
  "NetInfo_InternalSerialize m =
     (if NetInfo_node_id m \<noteq> 0 then WriteInt32 1 (NetInfo_node_id m) else []) @
     (if NetInfo_virtual_ip m \<noteq> [] then WriteBytes 2 (NetInfo_virtual_ip m) else []) @
     (if NetInfo_subnet_ip_start m \<noteq> [] then WriteBytes 3 (NetInfo_subnet_ip_start m) else []) @
     (if NetInfo_net_mask m \<noteq> 0 then WriteInt32 4 (NetInfo_net_mask m) else []) @
     (if NetInfo_mac_addr m \<noteq> [] then WriteBytes 5 (NetInfo_mac_addr m) else []) @
     (if NetInfo_meta m \<noteq> [] then WriteBytes 6 (NetInfo_meta m) else []) @
     unknown_fields m"

definition NetInfo_MergeFrom :: "NetInfo \<Rightarrow> NetInfo \<Rightarrow> NetInfo" where
  "NetInfo_MergeFrom from this = this\<lparr>
     NetInfo_virtual_ip := (if NetInfo_virtual_ip from \<noteq> [] then NetInfo_virtual_ip from else NetInfo_virtual_ip this),
     NetInfo_subnet_ip_start := (if NetInfo_subnet_ip_start from \<noteq> [] then NetInfo_subnet_ip_start from else NetInfo_subnet_ip_start this),
     NetInfo_mac_addr := (if NetInfo_mac_addr from \<noteq> [] then NetInfo_mac_addr from else NetInfo_mac_addr this),
     NetInfo_meta := (if NetInfo_meta from \<noteq> [] then NetInfo_meta from else NetInfo_meta this),
     NetInfo_node_id := (if NetInfo_node_id from \<noteq> 0 then NetInfo_node_id from else NetInfo_node_id this),
     NetInfo_net_mask := (if NetInfo_net_mask from \<noteq> 0 then NetInfo_net_mask from else NetInfo_net_mask this),
     unknown_fields := unknown_fields this @ unknown_fields from\<rparr>"

text \<open>\<open>CopyFrom\<close> of the message itself does nothing; \<open>same\<close> tells whether the two are one object.\<close>

definition NetInfo_CopyFrom :: "bool \<Rightarrow> NetInfo \<Rightarrow> NetInfo \<Rightarrow> NetInfo" where
  "NetInfo_CopyFrom same from this = (if same then this else NetInfo_MergeFrom from (NetInfo_Clear this))"

text \<open>The copy constructor. A repeated field is copied by merging each element into a new one.\<close>

definition NetInfo_copy :: "NetInfo \<Rightarrow> NetInfo" where
  "NetInfo_copy from = NetInfo_default\<lparr>
     NetInfo_node_id := NetInfo_node_id from,
     NetInfo_virtual_ip := (if NetInfo_virtual_ip from \<noteq> [] then NetInfo_virtual_ip from else []),
     NetInfo_subnet_ip_start := (if NetInfo_subnet_ip_start from \<noteq> [] then NetInfo_subnet_ip_start from else []),
     NetInfo_net_mask := NetInfo_net_mask from,
     NetInfo_mac_addr := (if NetInfo_mac_addr from \<noteq> [] then NetInfo_mac_addr from else []),
     NetInfo_meta := (if NetInfo_meta from \<noteq> [] then NetInfo_meta from else []),
     unknown_fields := unknown_fields from\<rparr>"

definition NetInfo_InternalSwap :: "NetInfo \<Rightarrow> NetInfo \<Rightarrow> NetInfo \<times> NetInfo" where
  "NetInfo_InternalSwap this other =
     (this\<lparr>unknown_fields := unknown_fields other, NetInfo_node_id := NetInfo_node_id other,
       NetInfo_virtual_ip := NetInfo_virtual_ip other,
       NetInfo_subnet_ip_start := NetInfo_subnet_ip_start other,
       NetInfo_net_mask := NetInfo_net_mask other, NetInfo_mac_addr := NetInfo_mac_addr other,
       NetInfo_meta := NetInfo_meta other\<rparr>,
      other\<lparr>unknown_fields := unknown_fields this, NetInfo_node_id := NetInfo_node_id this,
       NetInfo_virtual_ip := NetInfo_virtual_ip this,
       NetInfo_subnet_ip_start := NetInfo_subnet_ip_start this, NetInfo_net_mask := NetInfo_net_mask this,
       NetInfo_mac_addr := NetInfo_mac_addr this, NetInfo_meta := NetInfo_meta this\<rparr>)"

definition NetInfo_known :: "NetInfo \<Rightarrow> bool" where
  "NetInfo_known m \<longleftrightarrow> unknown_fields m = []"

lemma NetInfo_Clear_default: "NetInfo_Clear m = NetInfo_default"
  by (simp add: NetInfo_Clear_def NetInfo_default_def)

lemma NetInfo_swap: "NetInfo_InternalSwap a b = (b, a)"
  by (simp add: NetInfo_InternalSwap_def)

lemma NetInfo_MergeFrom_default: "NetInfo_MergeFrom m NetInfo_default = m"
  by (cases m) (simp add: NetInfo_MergeFrom_def NetInfo_default_def)

lemma NetInfo_copy_same: "NetInfo_copy m = m"
  by (cases m) (simp add: NetInfo_copy_def NetInfo_default_def)

lemma NetInfo_switch_tags:
  "NetInfo_switch k data (MakeTag 1 0) m ptr c =
     varint32_field (\<lambda>v m. m\<lparr>NetInfo_node_id := v\<rparr>) data m ptr c"
  "NetInfo_switch k data (MakeTag 2 2) m ptr c =
     bytes_field NetInfo_virtual_ip (\<lambda>v m. m\<lparr>NetInfo_virtual_ip := v\<rparr>) data m ptr c"
  "NetInfo_switch k data (MakeTag 3 2) m ptr c =
     bytes_field NetInfo_subnet_ip_start (\<lambda>v m. m\<lparr>NetInfo_subnet_ip_start := v\<rparr>) data m ptr c"
  "NetInfo_switch k data (MakeTag 4 0) m ptr c =
     varint32_field (\<lambda>v m. m\<lparr>NetInfo_net_mask := v\<rparr>) data m ptr c"
  "NetInfo_switch k data (MakeTag 5 2) m ptr c =
     bytes_field NetInfo_mac_addr (\<lambda>v m. m\<lparr>NetInfo_mac_addr := v\<rparr>) data m ptr c"
  "NetInfo_switch k data (MakeTag 6 2) m ptr c =
     bytes_field NetInfo_meta (\<lambda>v m. m\<lparr>NetInfo_meta := v\<rparr>) data m ptr c"
  by (simp_all add: NetInfo_switch_def MakeTag_def)

lemma NetInfo_switch_ok: "switch_ok 0 NetInfo_switch"
proof (rule switch_okI)
  fix k data tag m p c
  assume c: "ctx_ok data c" and k: "length data - p + 0 < k"
  from c show "handled_ok data p (NetInfo_switch k data tag m p c)"
    by (simp add: NetInfo_switch_def Let_def handled_ok_fields)
qed

lemma NetInfo_advances:
  "ctx_ok data c \<Longrightarrow> length data - p + 0 < k \<Longrightarrow> advances data p (NetInfo_InternalParse k data m p c)"
  unfolding NetInfo_InternalParse_def by (rule InternalParse_advances [OF NetInfo_switch_ok])

lemma NetInfo_size:
  assumes "length (NetInfo_InternalSerialize m) < 2 ^ 31"
  shows "NetInfo_ByteSizeLong m = length (NetInfo_InternalSerialize m)"
proof -
  have "length (NetInfo_virtual_ip m) < 2 ^ 32" "length (NetInfo_subnet_ip_start m) < 2 ^ 32"
      "length (NetInfo_mac_addr m) < 2 ^ 32" "length (NetInfo_meta m) < 2 ^ 32"
    using assms length_WriteBytes_ge [of _ _, THEN order.strict_trans1]
    by (auto simp: NetInfo_InternalSerialize_def WriteBytes_def split: if_splits)
  then show ?thesis by (simp add: NetInfo_InternalSerialize_def wire_simps)
qed

lemma NetInfo_reads:
  assumes "NetInfo_known m" "length (NetInfo_InternalSerialize m) < 2 ^ 31"
  shows "reads NetInfo_InternalParse (NetInfo_InternalSerialize m) NetInfo_default m (int 0)"
proof -
  have u: "unknown_fields m = []" using assms(1) by (simp add: NetInfo_known_def)
  have "eats NetInfo_switch data d NetInfo_default (NetInfo_InternalSerialize m) m" for data d
    unfolding NetInfo_InternalSerialize_def u
    by (rule eats_int32, rule NetInfo_switch_tags, simp add: NetInfo_default_def,
        rule eats_bytes, rule NetInfo_switch_tags, simp add: NetInfo_default_def,
        rule eats_bytes, rule NetInfo_switch_tags, simp add: NetInfo_default_def,
        rule eats_int32, rule NetInfo_switch_tags, simp add: NetInfo_default_def,
        rule eats_bytes, rule NetInfo_switch_tags, simp add: NetInfo_default_def,
        rule eats_bytes, rule NetInfo_switch_tags, simp add: NetInfo_default_def,
        rule eats_end, rule NetInfo.equality, simp_all add: NetInfo_default_def u)
  then show ?thesis
    unfolding NetInfo_InternalParse_def [abs_def] by (intro reads_eats)
qed

interpretation codec_NetInfo: message_codec NetInfo_InternalParse NetInfo_InternalSerialize NetInfo_ByteSizeLong NetInfo_default
    NetInfo_MergeFrom NetInfo_known 0
  by unfold_locales (assumption | rule NetInfo_reads NetInfo_size NetInfo_MergeFrom_default NetInfo_advances | simp)+

section \<open>NodeInfoList\<close>

record NodeInfoList = message_lite +
  NodeInfoList_cpe_list :: "NetInfo list"

definition NodeInfoList_default :: NodeInfoList where
  "NodeInfoList_default = \<lparr>unknown_fields = [], NodeInfoList_cpe_list = []\<rparr>"

definition NodeInfoList_Clear :: "NodeInfoList \<Rightarrow> NodeInfoList" where
  "NodeInfoList_Clear m = m\<lparr>NodeInfoList_cpe_list := [], unknown_fields := []\<rparr>"

definition NodeInfoList_switch :: "NodeInfoList field_switch" where
  "NodeInfoList_switch k data tag m ptr c =
     (let number = drop_bit 3 tag; low = (ucast tag :: byte) in
      if number = 1 \<and> low = 10
      then repeated_field NetInfo_InternalParse NetInfo_default 10 NodeInfoList_cpe_list
         (\<lambda>v m. m\<lparr>NodeInfoList_cpe_list := v\<rparr>) k data m ptr c
      else Unusual)"

definition NodeInfoList_InternalParse :: "nat \<Rightarrow> bytes \<Rightarrow> NodeInfoList \<Rightarrow> nat \<Rightarrow> ctx \<Rightarrow> NodeInfoList parsed" where
  "NodeInfoList_InternalParse k data m ptr c = InternalParse NodeInfoList_switch k data m ptr c"

fun NodeInfoList_ByteSizeLong :: "NodeInfoList \<Rightarrow> nat" where
  "NodeInfoList_ByteSizeLong m =
     1 * length (NodeInfoList_cpe_list m) + sum_list (map (\<lambda>x. LengthDelimitedSize (NetInfo_ByteSizeLong x)) (NodeInfoList_cpe_list m)) +
     length (unknown_fields m)"

definition NodeInfoList_InternalSerialize :: "NodeInfoList \<Rightarrow> bytes" where
  "NodeInfoList_InternalSerialize m =
     concat (map (\<lambda>x. WriteMessage 1 (NetInfo_ByteSizeLong x) (NetInfo_InternalSerialize x)) (NodeInfoList_cpe_list m)) @
     unknown_fields m"

definition NodeInfoList_MergeFrom :: "NodeInfoList \<Rightarrow> NodeInfoList \<Rightarrow> NodeInfoList" where
  "NodeInfoList_MergeFrom from this = this\<lparr>
     NodeInfoList_cpe_list := NodeInfoList_cpe_list this @ NodeInfoList_cpe_list from,
     unknown_fields := unknown_fields this @ unknown_fields from\<rparr>"

definition NodeInfoList_CopyFrom :: "bool \<Rightarrow> NodeInfoList \<Rightarrow> NodeInfoList \<Rightarrow> NodeInfoList" where
  "NodeInfoList_CopyFrom same from this = (if same then this else NodeInfoList_MergeFrom from (NodeInfoList_Clear this))"

definition NodeInfoList_copy :: "NodeInfoList \<Rightarrow> NodeInfoList" where
  "NodeInfoList_copy from = NodeInfoList_default\<lparr>
     NodeInfoList_cpe_list := map (\<lambda>e. NetInfo_MergeFrom e NetInfo_default) (NodeInfoList_cpe_list from),
     unknown_fields := unknown_fields from\<rparr>"

definition NodeInfoList_InternalSwap :: "NodeInfoList \<Rightarrow> NodeInfoList \<Rightarrow> NodeInfoList \<times> NodeInfoList" where
  "NodeInfoList_InternalSwap this other =
     (this\<lparr>unknown_fields := unknown_fields other,
       NodeInfoList_cpe_list := NodeInfoList_cpe_list other\<rparr>,
      other\<lparr>unknown_fields := unknown_fields this,
       NodeInfoList_cpe_list := NodeInfoList_cpe_list this\<rparr>)"

definition NodeInfoList_known :: "NodeInfoList \<Rightarrow> bool" where
  "NodeInfoList_known m \<longleftrightarrow> unknown_fields m = [] \<and> (\<forall>x\<in>set (NodeInfoList_cpe_list m). NetInfo_known x)"

lemma NodeInfoList_Clear_default: "NodeInfoList_Clear m = NodeInfoList_default"
  by (simp add: NodeInfoList_Clear_def NodeInfoList_default_def)

lemma NodeInfoList_swap: "NodeInfoList_InternalSwap a b = (b, a)"
  by (simp add: NodeInfoList_InternalSwap_def)

lemma NodeInfoList_MergeFrom_default: "NodeInfoList_MergeFrom m NodeInfoList_default = m"
  by (cases m) (simp add: NodeInfoList_MergeFrom_def NodeInfoList_default_def)

lemma NodeInfoList_copy_same: "NodeInfoList_copy m = m"
  by (cases m) (simp add: NodeInfoList_copy_def NodeInfoList_default_def NetInfo_MergeFrom_default)

lemma NodeInfoList_switch_tags:
  "NodeInfoList_switch k data (MakeTag 1 2) m ptr c =
     repeated_field NetInfo_InternalParse NetInfo_default 10 NodeInfoList_cpe_list
         (\<lambda>v m. m\<lparr>NodeInfoList_cpe_list := v\<rparr>) k data m ptr c"
  by (simp_all add: NodeInfoList_switch_def MakeTag_def)

lemma NodeInfoList_switch_ok: "switch_ok 1 NodeInfoList_switch"
proof (rule switch_okI)
  fix k data tag p c and m :: NodeInfoList
  assume c: "ctx_ok data c" and k: "length data - p + 1 < k"
  have "handled_ok data p (repeated_field NetInfo_InternalParse NetInfo_default 10 NodeInfoList_cpe_list
         (\<lambda>v m. m\<lparr>NodeInfoList_cpe_list := v\<rparr>) k data m p c)"
    by (rule handled_ok_repeated [where n = 0]) (use c k in \<open>auto intro: NetInfo_advances\<close>)
  with c show "handled_ok data p (NodeInfoList_switch k data tag m p c)"
    by (simp add: NodeInfoList_switch_def Let_def handled_ok_fields)
qed

lemma NodeInfoList_advances:
  "ctx_ok data c \<Longrightarrow> length data - p + 1 < k \<Longrightarrow> advances data p (NodeInfoList_InternalParse k data m p c)"
  unfolding NodeInfoList_InternalParse_def by (rule InternalParse_advances [OF NodeInfoList_switch_ok])

lemma NodeInfoList_size:
  assumes "length (NodeInfoList_InternalSerialize m) < 2 ^ 31"
  shows "NodeInfoList_ByteSizeLong m = length (NodeInfoList_InternalSerialize m)"
proof -
  let ?w = "concat (map (\<lambda>x. WriteMessage 1 (NetInfo_ByteSizeLong x) (NetInfo_InternalSerialize x)) (NodeInfoList_cpe_list m))"
  have w: "length ?w < 2 ^ 31" using assms by (simp add: NodeInfoList_InternalSerialize_def)
  note r = codec_NetInfo.repeated_size [OF w WriteTag_10]
  show ?thesis
    by (simp add: NodeInfoList_InternalSerialize_def flip: r del: NetInfo_ByteSizeLong.simps length_concat One_nat_def)
qed

lemma NodeInfoList_reads:
  assumes "NodeInfoList_known m" "length (NodeInfoList_InternalSerialize m) < 2 ^ 31"
  shows "reads NodeInfoList_InternalParse (NodeInfoList_InternalSerialize m) NodeInfoList_default m (int 1)"
proof -
  have u: "unknown_fields m = []" using assms(1) by (simp add: NodeInfoList_known_def)
  let ?w = "concat (map (\<lambda>x. WriteMessage 1 (NetInfo_ByteSizeLong x) (NetInfo_InternalSerialize x)) (NodeInfoList_cpe_list m))"
  have w: "length ?w < 2 ^ 31" using assms(2) by (simp add: NodeInfoList_InternalSerialize_def)
  have e: "reads NetInfo_InternalParse (NetInfo_InternalSerialize x) NetInfo_default x (int 0)"
    if "x \<in> set (NodeInfoList_cpe_list m)" for x
    using assms(1) that by (intro codec_NetInfo.parse_serialize codec_NetInfo.element_short [OF w that]) (simp add: NodeInfoList_known_def)
  have "eats NodeInfoList_switch data d NodeInfoList_default (NodeInfoList_InternalSerialize m) m" if "int 1 \<le> d" for data d
    unfolding NodeInfoList_InternalSerialize_def u codec_NetInfo.repeated_written [OF w WriteTag_10] append_Nil2
    by (rule eats_repeated, rule NodeInfoList_switch_tags, rule WriteTag_10, simp, simp, simp, erule e,
        use that in simp, simp, rule NodeInfoList.equality, simp_all add: NodeInfoList_default_def u)
  then show ?thesis
    unfolding NodeInfoList_InternalParse_def [abs_def] by (intro reads_eats)
qed

interpretation codec_NodeInfoList: message_codec NodeInfoList_InternalParse NodeInfoList_InternalSerialize NodeInfoList_ByteSizeLong NodeInfoList_default
    NodeInfoList_MergeFrom NodeInfoList_known 1
  by unfold_locales (assumption | rule NodeInfoList_reads NodeInfoList_size NodeInfoList_MergeFrom_default NodeInfoList_advances | simp)+

section \<open>Login\<close>

record Login = message_lite +
  Login_uid :: bytes
  Login_token :: bytes
  Login_netinfo :: "NetInfo option"
  Login_vender :: bytes
  Login_meta :: bytes

definition Login_default :: Login where
  "Login_default = \<lparr>unknown_fields = [], Login_uid = [], Login_token = [], Login_netinfo = None,
       Login_vender = [], Login_meta = []\<rparr>"

definition Login_Clear :: "Login \<Rightarrow> Login" where
  "Login_Clear m = m\<lparr>Login_uid := [], Login_token := [], Login_netinfo := None, Login_vender := [],
       Login_meta := [], unknown_fields := []\<rparr>"

text \<open>\<open>_internal_mutable_netinfo\<close> creates the message when there is none.\<close>

definition mutable_netinfo :: "Login \<Rightarrow> NetInfo" where
  "mutable_netinfo m = (case Login_netinfo m of None \<Rightarrow> NetInfo_default | Some x \<Rightarrow> x)"

definition Login_switch :: "Login field_switch" where
  "Login_switch k data tag m ptr c =
     (let number = drop_bit 3 tag; low = (ucast tag :: byte) in
      if number = 1 \<and> low = 10
      then bytes_field Login_uid (\<lambda>v m. m\<lparr>Login_uid := v\<rparr>) data m ptr c
      else if number = 2 \<and> low = 18
      then bytes_field Login_token (\<lambda>v m. m\<lparr>Login_token := v\<rparr>) data m ptr c
      else if number = 3 \<and> low = 26
      then message_field NetInfo_InternalParse mutable_netinfo
         (\<lambda>v m. m\<lparr>Login_netinfo := Some v\<rparr>) k data m ptr c
      else if number = 4 \<and> low = 34
      then bytes_field Login_vender (\<lambda>v m. m\<lparr>Login_vender := v\<rparr>) data m ptr c
      else if number = 5 \<and> low = 42
      then bytes_field Login_meta (\<lambda>v m. m\<lparr>Login_meta := v\<rparr>) data m ptr c
      else Unusual)"

definition Login_InternalParse :: "nat \<Rightarrow> bytes \<Rightarrow> Login \<Rightarrow> nat \<Rightarrow> ctx \<Rightarrow> Login parsed" where
  "Login_InternalParse k data m ptr c = InternalParse Login_switch k data m ptr c"

fun Login_ByteSizeLong :: "Login \<Rightarrow> nat" where
  "Login_ByteSizeLong m =
     (if Login_uid m \<noteq> [] then 1 + LengthDelimitedSize (length (Login_uid m)) else 0) +
     (if Login_token m \<noteq> [] then 1 + LengthDelimitedSize (length (Login_token m)) else 0) +
     (if Login_vender m \<noteq> [] then 1 + LengthDelimitedSize (length (Login_vender m)) else 0) +
     (if Login_meta m \<noteq> [] then 1 + LengthDelimitedSize (length (Login_meta m)) else 0) +
     (case Login_netinfo m of None \<Rightarrow> 0 | Some x \<Rightarrow> 1 + LengthDelimitedSize (NetInfo_ByteSizeLong x)) +
     length (unknown_fields m)"

definition Login_InternalSerialize :: "Login \<Rightarrow> bytes" where
  "Login_InternalSerialize m =
     (if Login_uid m \<noteq> [] then WriteBytes 1 (Login_uid m) else []) @
     (if Login_token m \<noteq> [] then WriteBytes 2 (Login_token m) else []) @
     (case Login_netinfo m of None \<Rightarrow> [] | Some x \<Rightarrow> WriteMessage 3 (NetInfo_ByteSizeLong x) (NetInfo_InternalSerialize x)) @
     (if Login_vender m \<noteq> [] then WriteBytes 4 (Login_vender m) else []) @
     (if Login_meta m \<noteq> [] then WriteBytes 5 (Login_meta m) else []) @
     unknown_fields m"

definition Login_MergeFrom :: "Login \<Rightarrow> Login \<Rightarrow> Login" where
  "Login_MergeFrom from this = this\<lparr>
     Login_uid := (if Login_uid from \<noteq> [] then Login_uid from else Login_uid this),
     Login_token := (if Login_token from \<noteq> [] then Login_token from else Login_token this),
     Login_vender := (if Login_vender from \<noteq> [] then Login_vender from else Login_vender this),
     Login_meta := (if Login_meta from \<noteq> [] then Login_meta from else Login_meta this),
     Login_netinfo := (case Login_netinfo from of None \<Rightarrow> Login_netinfo this
       | Some x \<Rightarrow> Some (NetInfo_MergeFrom x (mutable_netinfo this))),
     unknown_fields := unknown_fields this @ unknown_fields from\<rparr>"

definition Login_CopyFrom :: "bool \<Rightarrow> Login \<Rightarrow> Login \<Rightarrow> Login" where
  "Login_CopyFrom same from this = (if same then this else Login_MergeFrom from (Login_Clear this))"

definition Login_copy :: "Login \<Rightarrow> Login" where
  "Login_copy from = Login_default\<lparr>
     Login_uid := (if Login_uid from \<noteq> [] then Login_uid from else []),
     Login_token := (if Login_token from \<noteq> [] then Login_token from else []),
     Login_netinfo := map_option NetInfo_copy (Login_netinfo from),
     Login_vender := (if Login_vender from \<noteq> [] then Login_vender from else []),
     Login_meta := (if Login_meta from \<noteq> [] then Login_meta from else []),
     unknown_fields := unknown_fields from\<rparr>"

definition Login_InternalSwap :: "Login \<Rightarrow> Login \<Rightarrow> Login \<times> Login" where
  "Login_InternalSwap this other =
     (this\<lparr>unknown_fields := unknown_fields other, Login_uid := Login_uid other,
       Login_token := Login_token other, Login_netinfo := Login_netinfo other,
       Login_vender := Login_vender other, Login_meta := Login_meta other\<rparr>,
      other\<lparr>unknown_fields := unknown_fields this, Login_uid := Login_uid this,
       Login_token := Login_token this, Login_netinfo := Login_netinfo this,
       Login_vender := Login_vender this, Login_meta := Login_meta this\<rparr>)"

definition Login_known :: "Login \<Rightarrow> bool" where
  "Login_known m \<longleftrightarrow> unknown_fields m = [] \<and> (\<forall>x. Login_netinfo m = Some x \<longrightarrow> NetInfo_known x)"

lemma Login_Clear_default: "Login_Clear m = Login_default"
  by (simp add: Login_Clear_def Login_default_def)

lemma Login_swap: "Login_InternalSwap a b = (b, a)"
  by (simp add: Login_InternalSwap_def)

lemma Login_MergeFrom_default: "Login_MergeFrom m Login_default = m"
  by (cases m) (simp add: Login_MergeFrom_def Login_default_def mutable_netinfo_def NetInfo_MergeFrom_default split: option.split)

lemma map_NetInfo_copy: "map_option NetInfo_copy x = x"
  by (cases x) (simp_all add: NetInfo_copy_same)

lemma Login_copy_same: "Login_copy m = m"
  by (cases m) (simp add: Login_copy_def Login_default_def map_NetInfo_copy)

lemma Login_switch_tags:
  "Login_switch k data (MakeTag 1 2) m ptr c =
     bytes_field Login_uid (\<lambda>v m. m\<lparr>Login_uid := v\<rparr>) data m ptr c"
  "Login_switch k data (MakeTag 2 2) m ptr c =
     bytes_field Login_token (\<lambda>v m. m\<lparr>Login_token := v\<rparr>) data m ptr c"
  "Login_switch k data (MakeTag 3 2) m ptr c =
     message_field NetInfo_InternalParse mutable_netinfo
         (\<lambda>v m. m\<lparr>Login_netinfo := Some v\<rparr>) k data m ptr c"
  "Login_switch k data (MakeTag 4 2) m ptr c =
     bytes_field Login_vender (\<lambda>v m. m\<lparr>Login_vender := v\<rparr>) data m ptr c"
  "Login_switch k data (MakeTag 5 2) m ptr c =
     bytes_field Login_meta (\<lambda>v m. m\<lparr>Login_meta := v\<rparr>) data m ptr c"
  by (simp_all add: Login_switch_def MakeTag_def)

lemma Login_switch_ok: "switch_ok 1 Login_switch"
proof (rule switch_okI)
  fix k data tag p c and m :: Login
  assume c: "ctx_ok data c" and k: "length data - p + 1 < k"
  have "handled_ok data p (message_field NetInfo_InternalParse mutable_netinfo
         (\<lambda>v m. m\<lparr>Login_netinfo := Some v\<rparr>) k data m p c)"
    using k c by (intro handled_ok_message NetInfo_advances) auto
  with c show "handled_ok data p (Login_switch k data tag m p c)"
    by (simp add: Login_switch_def Let_def handled_ok_fields)
qed

lemma Login_advances:
  "ctx_ok data c \<Longrightarrow> length data - p + 1 < k \<Longrightarrow> advances data p (Login_InternalParse k data m p c)"
  unfolding Login_InternalParse_def by (rule InternalParse_advances [OF Login_switch_ok])

lemma Login_size:
  assumes "length (Login_InternalSerialize m) < 2 ^ 31"
  shows "Login_ByteSizeLong m = length (Login_InternalSerialize m)"
proof -
  have "length (Login_uid m) < 2 ^ 32" "length (Login_token m) < 2 ^ 32"
      "length (Login_vender m) < 2 ^ 32" "length (Login_meta m) < 2 ^ 32"
    using assms length_WriteBytes_ge [of _ _, THEN order.strict_trans1]
    by (auto simp: Login_InternalSerialize_def WriteBytes_def split: if_splits)
  moreover have "length (NetInfo_InternalSerialize x) < 2 ^ 31" if "Login_netinfo m = Some x" for x
    using assms that length_WriteMessage_ge [of "NetInfo_InternalSerialize x" 3 "NetInfo_ByteSizeLong x"]
    by (auto simp: Login_InternalSerialize_def simp del: NetInfo_ByteSizeLong.simps)
  ultimately show ?thesis
    by (auto simp: Login_InternalSerialize_def wire_simps codec_NetInfo.write_field codec_NetInfo.field_size
        length_WriteTag [of 3 2] simp del: NetInfo_ByteSizeLong.simps split: option.split)
qed

lemma Login_reads:
  assumes "Login_known m" "length (Login_InternalSerialize m) < 2 ^ 31"
  shows "reads Login_InternalParse (Login_InternalSerialize m) Login_default m (int 1)"
proof -
  have u: "unknown_fields m = []" using assms(1) by (simp add: Login_known_def)
  have x: "length (NetInfo_InternalSerialize x) < 2 ^ 31" "NetInfo_known x" if "Login_netinfo m = Some x" for x
    using assms that length_WriteMessage_ge [of "NetInfo_InternalSerialize x" 3 "NetInfo_ByteSizeLong x"]
    by (auto simp: Login_InternalSerialize_def Login_known_def simp del: NetInfo_ByteSizeLong.simps)
  have tail: "eats Login_switch data d m1
      ((if Login_vender m \<noteq> [] then WriteBytes 4 (Login_vender m) else []) @
       (if Login_meta m \<noteq> [] then WriteBytes 5 (Login_meta m) else []) @ []) m"
    if "m1 = m\<lparr>Login_vender := [], Login_meta := []\<rparr>" for data d m1
    using that
    by (intro eats_bytes [where sw = Login_switch, OF Login_switch_tags(4)]
        eats_bytes [where sw = Login_switch, OF Login_switch_tags(5)] eats_end) simp_all
  have "eats Login_switch data d Login_default (Login_InternalSerialize m) m" if d: "int 1 \<le> d" for data d
  proof (cases "Login_netinfo m")
    case None
    show ?thesis
      unfolding Login_InternalSerialize_def u None option.case append_Nil
      by (rule eats_bytes, rule Login_switch_tags, simp add: Login_default_def,
          rule eats_bytes, rule Login_switch_tags, simp add: Login_default_def,
          rule tail, rule Login.equality, simp_all add: Login_default_def None u)
  next
    case (Some x)
    have r: "reads NetInfo_InternalParse (NetInfo_InternalSerialize x) (mutable_netinfo m1) x (int 0)"
      if "Login_netinfo m1 = None" for m1
      using codec_NetInfo.parse_serialize x [OF Some] that by (simp add: mutable_netinfo_def)
    show ?thesis
      unfolding Login_InternalSerialize_def u Some option.case codec_NetInfo.write_field [OF x(1) [OF Some]]
      by (rule eats_bytes, rule Login_switch_tags, simp add: Login_default_def,
          rule eats_bytes, rule Login_switch_tags, simp add: Login_default_def,
          rule eats_message, rule Login_switch_tags, rule r, simp add: Login_default_def,
          use d in simp, simp, rule tail, rule Login.equality, simp_all add: Login_default_def Some u)
  qed
  then show ?thesis
    unfolding Login_InternalParse_def [abs_def] by (intro reads_eats)
qed

interpretation codec_Login: message_codec Login_InternalParse Login_InternalSerialize Login_ByteSizeLong Login_default
    Login_MergeFrom Login_known 1
  by unfold_locales (assumption | rule Login_reads Login_size Login_MergeFrom_default Login_advances | simp)+

section \<open>LoginRes\<close>

record LoginRes = message_lite +
  LoginRes_uid :: bytes
  LoginRes_res_code :: u32
  LoginRes_gateway_id :: u32
  LoginRes_public_ip :: bytes
  LoginRes_meta :: bytes

definition LoginRes_default :: LoginRes where
  "LoginRes_default = \<lparr>unknown_fields = [], LoginRes_uid = [], LoginRes_res_code = 0,
       LoginRes_gateway_id = 0, LoginRes_public_ip = [], LoginRes_meta = []\<rparr>"

definition LoginRes_Clear :: "LoginRes \<Rightarrow> LoginRes" where
  "LoginRes_Clear m = m\<lparr>LoginRes_uid := [], LoginRes_res_code := 0, LoginRes_gateway_id := 0,
       LoginRes_public_ip := [], LoginRes_meta := [], unknown_fields := []\<rparr>"

definition LoginRes_switch :: "LoginRes field_switch" where
  "LoginRes_switch k data tag m ptr c =
     (let number = drop_bit 3 tag; low = (ucast tag :: byte) in
      if number = 1 \<and> low = 10
      then bytes_field LoginRes_uid (\<lambda>v m. m\<lparr>LoginRes_uid := v\<rparr>) data m ptr c
      else if number = 2 \<and> low = 16
      then varint32_field (\<lambda>v m. m\<lparr>LoginRes_res_code := v\<rparr>) data m ptr c
      else if number = 3 \<and> low = 24
      then varint32_field (\<lambda>v m. m\<lparr>LoginRes_gateway_id := v\<rparr>) data m ptr c
      else if number = 4 \<and> low = 34
      then bytes_field LoginRes_public_ip (\<lambda>v m. m\<lparr>LoginRes_public_ip := v\<rparr>) data m ptr c
      else if number = 5 \<and> low = 42
      then bytes_field LoginRes_meta (\<lambda>v m. m\<lparr>LoginRes_meta := v\<rparr>) data m ptr c
      else Unusual)"

definition LoginRes_InternalParse :: "nat \<Rightarrow> bytes \<Rightarrow> LoginRes \<Rightarrow> nat \<Rightarrow> ctx \<Rightarrow> LoginRes parsed" where
  "LoginRes_InternalParse k data m ptr c = InternalParse LoginRes_switch k data m ptr c"

fun LoginRes_ByteSizeLong :: "LoginRes \<Rightarrow> nat" where
  "LoginRes_ByteSizeLong m =
     (if LoginRes_uid m \<noteq> [] then 1 + LengthDelimitedSize (length (LoginRes_uid m)) else 0) +
     (if LoginRes_public_ip m \<noteq> [] then 1 + LengthDelimitedSize (length (LoginRes_public_ip m)) else 0) +
     (if LoginRes_meta m \<noteq> [] then 1 + LengthDelimitedSize (length (LoginRes_meta m)) else 0) +
     (if LoginRes_res_code m \<noteq> 0 then Int32Size (LoginRes_res_code m) + 1 else 0) +
     (if LoginRes_gateway_id m \<noteq> 0 then Int32Size (LoginRes_gateway_id m) + 1 else 0) +
     length (unknown_fields m)"

definition LoginRes_InternalSerialize :: "LoginRes \<Rightarrow> bytes" where
  "LoginRes_InternalSerialize m =
     (if LoginRes_uid m \<noteq> [] then WriteBytes 1 (LoginRes_uid m) else []) @
     (if LoginRes_res_code m \<noteq> 0 then WriteInt32 2 (LoginRes_res_code m) else []) @
     (if LoginRes_gateway_id m \<noteq> 0 then WriteInt32 3 (LoginRes_gateway_id m) else []) @
     (if LoginRes_public_ip m \<noteq> [] then WriteBytes 4 (LoginRes_public_ip m) else []) @
     (if LoginRes_meta m \<noteq> [] then WriteBytes 5 (LoginRes_meta m) else []) @
     unknown_fields m"

definition LoginRes_MergeFrom :: "LoginRes \<Rightarrow> LoginRes \<Rightarrow> LoginRes" where
  "LoginRes_MergeFrom from this = this\<lparr>
     LoginRes_uid := (if LoginRes_uid from \<noteq> [] then LoginRes_uid from else LoginRes_uid this),
     LoginRes_public_ip := (if LoginRes_public_ip from \<noteq> [] then LoginRes_public_ip from else LoginRes_public_ip this),
     LoginRes_meta := (if LoginRes_meta from \<noteq> [] then LoginRes_meta from else LoginRes_meta this),
     LoginRes_res_code := (if LoginRes_res_code from \<noteq> 0 then LoginRes_res_code from else LoginRes_res_code this),
     LoginRes_gateway_id := (if LoginRes_gateway_id from \<noteq> 0 then LoginRes_gateway_id from else LoginRes_gateway_id this),
     unknown_fields := unknown_fields this @ unknown_fields from\<rparr>"

definition LoginRes_CopyFrom :: "bool \<Rightarrow> LoginRes \<Rightarrow> LoginRes \<Rightarrow> LoginRes" where
  "LoginRes_CopyFrom same from this = (if same then this else LoginRes_MergeFrom from (LoginRes_Clear this))"

definition LoginRes_copy :: "LoginRes \<Rightarrow> LoginRes" where
  "LoginRes_copy from = LoginRes_default\<lparr>
     LoginRes_uid := (if LoginRes_uid from \<noteq> [] then LoginRes_uid from else []),
     LoginRes_res_code := LoginRes_res_code from,
     LoginRes_gateway_id := LoginRes_gateway_id from,
     LoginRes_public_ip := (if LoginRes_public_ip from \<noteq> [] then LoginRes_public_ip from else []),
     LoginRes_meta := (if LoginRes_meta from \<noteq> [] then LoginRes_meta from else []),
     unknown_fields := unknown_fields from\<rparr>"

definition LoginRes_InternalSwap :: "LoginRes \<Rightarrow> LoginRes \<Rightarrow> LoginRes \<times> LoginRes" where
  "LoginRes_InternalSwap this other =
     (this\<lparr>unknown_fields := unknown_fields other, LoginRes_uid := LoginRes_uid other,
       LoginRes_res_code := LoginRes_res_code other, LoginRes_gateway_id := LoginRes_gateway_id other,
       LoginRes_public_ip := LoginRes_public_ip other, LoginRes_meta := LoginRes_meta other\<rparr>,
      other\<lparr>unknown_fields := unknown_fields this, LoginRes_uid := LoginRes_uid this,
       LoginRes_res_code := LoginRes_res_code this, LoginRes_gateway_id := LoginRes_gateway_id this,
       LoginRes_public_ip := LoginRes_public_ip this, LoginRes_meta := LoginRes_meta this\<rparr>)"

definition LoginRes_known :: "LoginRes \<Rightarrow> bool" where
  "LoginRes_known m \<longleftrightarrow> unknown_fields m = []"

lemma LoginRes_Clear_default: "LoginRes_Clear m = LoginRes_default"
  by (simp add: LoginRes_Clear_def LoginRes_default_def)

lemma LoginRes_swap: "LoginRes_InternalSwap a b = (b, a)"
  by (simp add: LoginRes_InternalSwap_def)

lemma LoginRes_MergeFrom_default: "LoginRes_MergeFrom m LoginRes_default = m"
  by (cases m) (simp add: LoginRes_MergeFrom_def LoginRes_default_def)

lemma LoginRes_copy_same: "LoginRes_copy m = m"
  by (cases m) (simp add: LoginRes_copy_def LoginRes_default_def)

lemma LoginRes_switch_tags:
  "LoginRes_switch k data (MakeTag 1 2) m ptr c =
     bytes_field LoginRes_uid (\<lambda>v m. m\<lparr>LoginRes_uid := v\<rparr>) data m ptr c"
  "LoginRes_switch k data (MakeTag 2 0) m ptr c =
     varint32_field (\<lambda>v m. m\<lparr>LoginRes_res_code := v\<rparr>) data m ptr c"
  "LoginRes_switch k data (MakeTag 3 0) m ptr c =
     varint32_field (\<lambda>v m. m\<lparr>LoginRes_gateway_id := v\<rparr>) data m ptr c"
  "LoginRes_switch k data (MakeTag 4 2) m ptr c =
     bytes_field LoginRes_public_ip (\<lambda>v m. m\<lparr>LoginRes_public_ip := v\<rparr>) data m ptr c"
  "LoginRes_switch k data (MakeTag 5 2) m ptr c =
     bytes_field LoginRes_meta (\<lambda>v m. m\<lparr>LoginRes_meta := v\<rparr>) data m ptr c"
  by (simp_all add: LoginRes_switch_def MakeTag_def)

lemma LoginRes_switch_ok: "switch_ok 0 LoginRes_switch"
proof (rule switch_okI)
  fix k data tag m p c
  assume c: "ctx_ok data c" and k: "length data - p + 0 < k"
  from c show "handled_ok data p (LoginRes_switch k data tag m p c)"
    by (simp add: LoginRes_switch_def Let_def handled_ok_fields)
qed

lemma LoginRes_advances:
  "ctx_ok data c \<Longrightarrow> length data - p + 0 < k \<Longrightarrow> advances data p (LoginRes_InternalParse k data m p c)"
  unfolding LoginRes_InternalParse_def by (rule InternalParse_advances [OF LoginRes_switch_ok])

lemma LoginRes_size:
  assumes "length (LoginRes_InternalSerialize m) < 2 ^ 31"
  shows "LoginRes_ByteSizeLong m = length (LoginRes_InternalSerialize m)"
proof -
  have "length (LoginRes_uid m) < 2 ^ 32" "length (LoginRes_public_ip m) < 2 ^ 32"
      "length (LoginRes_meta m) < 2 ^ 32"
    using assms length_WriteBytes_ge [of _ _, THEN order.strict_trans1]
    by (auto simp: LoginRes_InternalSerialize_def WriteBytes_def split: if_splits)
  then show ?thesis by (simp add: LoginRes_InternalSerialize_def wire_simps)
qed

lemma LoginRes_reads:
  assumes "LoginRes_known m" "length (LoginRes_InternalSerialize m) < 2 ^ 31"
  shows "reads LoginRes_InternalParse (LoginRes_InternalSerialize m) LoginRes_default m (int 0)"
proof -
  have u: "unknown_fields m = []" using assms(1) by (simp add: LoginRes_known_def)
  have "eats LoginRes_switch data d LoginRes_default (LoginRes_InternalSerialize m) m" for data d
    unfolding LoginRes_InternalSerialize_def u
    by (rule eats_bytes, rule LoginRes_switch_tags, simp add: LoginRes_default_def,
        rule eats_int32, rule LoginRes_switch_tags, simp add: LoginRes_default_def,
        rule eats_int32, rule LoginRes_switch_tags, simp add: LoginRes_default_def,
        rule eats_bytes, rule LoginRes_switch_tags, simp add: LoginRes_default_def,
        rule eats_bytes, rule LoginRes_switch_tags, simp add: LoginRes_default_def,
        rule eats_end, rule LoginRes.equality, simp_all add: LoginRes_default_def u)
  then show ?thesis
    unfolding LoginRes_InternalParse_def [abs_def] by (intro reads_eats)
qed

interpretation codec_LoginRes: message_codec LoginRes_InternalParse LoginRes_InternalSerialize LoginRes_ByteSizeLong LoginRes_default
    LoginRes_MergeFrom LoginRes_known 0
  by unfold_locales (assumption | rule LoginRes_reads LoginRes_size LoginRes_MergeFrom_default LoginRes_advances | simp)+

section \<open>CpeNodeChangeNotify\<close>

record CpeNodeChangeNotify = message_lite +
  CpeNodeChangeNotify_uid :: bytes
  CpeNodeChangeNotify_data :: bytes

definition CpeNodeChangeNotify_default :: CpeNodeChangeNotify where
  "CpeNodeChangeNotify_default = \<lparr>unknown_fields = [], CpeNodeChangeNotify_uid = [],
       CpeNodeChangeNotify_data = []\<rparr>"

definition CpeNodeChangeNotify_Clear :: "CpeNodeChangeNotify \<Rightarrow> CpeNodeChangeNotify" where
  "CpeNodeChangeNotify_Clear m = m\<lparr>CpeNodeChangeNotify_uid := [], CpeNodeChangeNotify_data := [],
       unknown_fields := []\<rparr>"

definition CpeNodeChangeNotify_switch :: "CpeNodeChangeNotify field_switch" where
  "CpeNodeChangeNotify_switch k data tag m ptr c =
     (let number = drop_bit 3 tag; low = (ucast tag :: byte) in
      if number = 1 \<and> low = 10
      then bytes_field CpeNodeChangeNotify_uid (\<lambda>v m. m\<lparr>CpeNodeChangeNotify_uid := v\<rparr>) data m ptr c
      else if number = 2 \<and> low = 18
      then bytes_field CpeNodeChangeNotify_data (\<lambda>v m. m\<lparr>CpeNodeChangeNotify_data := v\<rparr>) data m ptr c
      else Unusual)"

definition CpeNodeChangeNotify_InternalParse :: "nat \<Rightarrow> bytes \<Rightarrow> CpeNodeChangeNotify \<Rightarrow> nat \<Rightarrow> ctx \<Rightarrow> CpeNodeChangeNotify parsed" where
  "CpeNodeChangeNotify_InternalParse k data m ptr c = InternalParse CpeNodeChangeNotify_switch k data m ptr c"

fun CpeNodeChangeNotify_ByteSizeLong :: "CpeNodeChangeNotify \<Rightarrow> nat" where
  "CpeNodeChangeNotify_ByteSizeLong m =
     (if CpeNodeChangeNotify_uid m \<noteq> [] then 1 + LengthDelimitedSize (length (CpeNodeChangeNotify_uid m)) else 0) +
     (if CpeNodeChangeNotify_data m \<noteq> [] then 1 + LengthDelimitedSize (length (CpeNodeChangeNotify_data m)) else 0) +
     length (unknown_fields m)"

definition CpeNodeChangeNotify_InternalSerialize :: "CpeNodeChangeNotify \<Rightarrow> bytes" where
  "CpeNodeChangeNotify_InternalSerialize m =
     (if CpeNodeChangeNotify_uid m \<noteq> [] then WriteBytes 1 (CpeNodeChangeNotify_uid m) else []) @
     (if CpeNodeChangeNotify_data m \<noteq> [] then WriteBytes 2 (CpeNodeChangeNotify_data m) else []) @
     unknown_fields m"

definition CpeNodeChangeNotify_MergeFrom :: "CpeNodeChangeNotify \<Rightarrow> CpeNodeChangeNotify \<Rightarrow> CpeNodeChangeNotify" where
  "CpeNodeChangeNotify_MergeFrom from this = this\<lparr>
     CpeNodeChangeNotify_uid := (if CpeNodeChangeNotify_uid from \<noteq> [] then CpeNodeChangeNotify_uid from else CpeNodeChangeNotify_uid this),
     CpeNodeChangeNotify_data := (if CpeNodeChangeNotify_data from \<noteq> [] then CpeNodeChangeNotify_data from else CpeNodeChangeNotify_data this),
     unknown_fields := unknown_fields this @ unknown_fields from\<rparr>"

definition CpeNodeChangeNotify_CopyFrom :: "bool \<Rightarrow> CpeNodeChangeNotify \<Rightarrow> CpeNodeChangeNotify \<Rightarrow> CpeNodeChangeNotify" where
  "CpeNodeChangeNotify_CopyFrom same from this = (if same then this else CpeNodeChangeNotify_MergeFrom from (CpeNodeChangeNotify_Clear this))"

definition CpeNodeChangeNotify_copy :: "CpeNodeChangeNotify \<Rightarrow> CpeNodeChangeNotify" where
  "CpeNodeChangeNotify_copy from = CpeNodeChangeNotify_default\<lparr>
     CpeNodeChangeNotify_uid := (if CpeNodeChangeNotify_uid from \<noteq> [] then CpeNodeChangeNotify_uid from else []),
     CpeNodeChangeNotify_data := (if CpeNodeChangeNotify_data from \<noteq> [] then CpeNodeChangeNotify_data from else []),
     unknown_fields := unknown_fields from\<rparr>"

definition CpeNodeChangeNotify_InternalSwap :: "CpeNodeChangeNotify \<Rightarrow> CpeNodeChangeNotify \<Rightarrow> CpeNodeChangeNotify \<times> CpeNodeChangeNotify" where
  "CpeNodeChangeNotify_InternalSwap this other =
     (this\<lparr>unknown_fields := unknown_fields other,
       CpeNodeChangeNotify_uid := CpeNodeChangeNotify_uid other,
       CpeNodeChangeNotify_data := CpeNodeChangeNotify_data other\<rparr>,
      other\<lparr>unknown_fields := unknown_fields this,
       CpeNodeChangeNotify_uid := CpeNodeChangeNotify_uid this,
       CpeNodeChangeNotify_data := CpeNodeChangeNotify_data this\<rparr>)"

definition CpeNodeChangeNotify_known :: "CpeNodeChangeNotify \<Rightarrow> bool" where
  "CpeNodeChangeNotify_known m \<longleftrightarrow> unknown_fields m = []"

lemma CpeNodeChangeNotify_Clear_default: "CpeNodeChangeNotify_Clear m = CpeNodeChangeNotify_default"
  by (simp add: CpeNodeChangeNotify_Clear_def CpeNodeChangeNotify_default_def)

lemma CpeNodeChangeNotify_swap: "CpeNodeChangeNotify_InternalSwap a b = (b, a)"
  by (simp add: CpeNodeChangeNotify_InternalSwap_def)

lemma CpeNodeChangeNotify_MergeFrom_default: "CpeNodeChangeNotify_MergeFrom m CpeNodeChangeNotify_default = m"
  by (cases m) (simp add: CpeNodeChangeNotify_MergeFrom_def CpeNodeChangeNotify_default_def)

lemma CpeNodeChangeNotify_copy_same: "CpeNodeChangeNotify_copy m = m"
  by (cases m) (simp add: CpeNodeChangeNotify_copy_def CpeNodeChangeNotify_default_def)

lemma CpeNodeChangeNotify_switch_tags:
  "CpeNodeChangeNotify_switch k data (MakeTag 1 2) m ptr c =
     bytes_field CpeNodeChangeNotify_uid (\<lambda>v m. m\<lparr>CpeNodeChangeNotify_uid := v\<rparr>) data m ptr c"
  "CpeNodeChangeNotify_switch k data (MakeTag 2 2) m ptr c =
     bytes_field CpeNodeChangeNotify_data (\<lambda>v m. m\<lparr>CpeNodeChangeNotify_data := v\<rparr>) data m ptr c"
  by (simp_all add: CpeNodeChangeNotify_switch_def MakeTag_def)

lemma CpeNodeChangeNotify_switch_ok: "switch_ok 0 CpeNodeChangeNotify_switch"
proof (rule switch_okI)
  fix k data tag m p c
  assume c: "ctx_ok data c" and k: "length data - p + 0 < k"
  from c show "handled_ok data p (CpeNodeChangeNotify_switch k data tag m p c)"
    by (simp add: CpeNodeChangeNotify_switch_def Let_def handled_ok_fields)
qed

lemma CpeNodeChangeNotify_advances:
  "ctx_ok data c \<Longrightarrow> length data - p + 0 < k \<Longrightarrow> advances data p (CpeNodeChangeNotify_InternalParse k data m p c)"
  unfolding CpeNodeChangeNotify_InternalParse_def by (rule InternalParse_advances [OF CpeNodeChangeNotify_switch_ok])

lemma CpeNodeChangeNotify_size:
  assumes "length (CpeNodeChangeNotify_InternalSerialize m) < 2 ^ 31"
  shows "CpeNodeChangeNotify_ByteSizeLong m = length (CpeNodeChangeNotify_InternalSerialize m)"
proof -
  have "length (CpeNodeChangeNotify_uid m) < 2 ^ 32" "length (CpeNodeChangeNotify_data m) < 2 ^ 32"
    using assms length_WriteBytes_ge [of _ _, THEN order.strict_trans1]
    by (auto simp: CpeNodeChangeNotify_InternalSerialize_def WriteBytes_def split: if_splits)
  then show ?thesis by (simp add: CpeNodeChangeNotify_InternalSerialize_def wire_simps)
qed

lemma CpeNodeChangeNotify_reads:
  assumes "CpeNodeChangeNotify_known m" "length (CpeNodeChangeNotify_InternalSerialize m) < 2 ^ 31"
  shows "reads CpeNodeChangeNotify_InternalParse (CpeNodeChangeNotify_InternalSerialize m) CpeNodeChangeNotify_default m (int 0)"
proof -
  have u: "unknown_fields m = []" using assms(1) by (simp add: CpeNodeChangeNotify_known_def)
  have "eats CpeNodeChangeNotify_switch data d CpeNodeChangeNotify_default (CpeNodeChangeNotify_InternalSerialize m) m" for data d
    unfolding CpeNodeChangeNotify_InternalSerialize_def u
    by (rule eats_bytes, rule CpeNodeChangeNotify_switch_tags, simp add: CpeNodeChangeNotify_default_def,
        rule eats_bytes, rule CpeNodeChangeNotify_switch_tags, simp add: CpeNodeChangeNotify_default_def,
        rule eats_end, rule CpeNodeChangeNotify.equality, simp_all add: CpeNodeChangeNotify_default_def u)
  then show ?thesis
    unfolding CpeNodeChangeNotify_InternalParse_def [abs_def] by (intro reads_eats)
qed

interpretation codec_CpeNodeChangeNotify: message_codec CpeNodeChangeNotify_InternalParse CpeNodeChangeNotify_InternalSerialize CpeNodeChangeNotify_ByteSizeLong CpeNodeChangeNotify_default
    CpeNodeChangeNotify_MergeFrom CpeNodeChangeNotify_known 0
  by unfold_locales (assumption | rule CpeNodeChangeNotify_reads CpeNodeChangeNotify_size CpeNodeChangeNotify_MergeFrom_default CpeNodeChangeNotify_advances | simp)+

section \<open>KeepAlive\<close>

record KeepAlive = message_lite +
  KeepAlive_uid :: bytes
  KeepAlive_seq :: u64
  KeepAlive_tick :: u64
  KeepAlive_meta :: bytes

definition KeepAlive_default :: KeepAlive where
  "KeepAlive_default = \<lparr>unknown_fields = [], KeepAlive_uid = [], KeepAlive_seq = 0,
       KeepAlive_tick = 0, KeepAlive_meta = []\<rparr>"

definition KeepAlive_Clear :: "KeepAlive \<Rightarrow> KeepAlive" where
  "KeepAlive_Clear m = m\<lparr>KeepAlive_uid := [], KeepAlive_seq := 0, KeepAlive_tick := 0,
       KeepAlive_meta := [], unknown_fields := []\<rparr>"

definition KeepAlive_switch :: "KeepAlive field_switch" where
  "KeepAlive_switch k data tag m ptr c =
     (let number = drop_bit 3 tag; low = (ucast tag :: byte) in
      if number = 1 \<and> low = 10
      then bytes_field KeepAlive_uid (\<lambda>v m. m\<lparr>KeepAlive_uid := v\<rparr>) data m ptr c
      else if number = 2 \<and> low = 16
      then varint64_field (\<lambda>v m. m\<lparr>KeepAlive_seq := v\<rparr>) data m ptr c
      else if number = 3 \<and> low = 24
      then varint64_field (\<lambda>v m. m\<lparr>KeepAlive_tick := v\<rparr>) data m ptr c
      else if number = 4 \<and> low = 34
      then bytes_field KeepAlive_meta (\<lambda>v m. m\<lparr>KeepAlive_meta := v\<rparr>) data m ptr c
      else Unusual)"

definition KeepAlive_InternalParse :: "nat \<Rightarrow> bytes \<Rightarrow> KeepAlive \<Rightarrow> nat \<Rightarrow> ctx \<Rightarrow> KeepAlive parsed" where
  "KeepAlive_InternalParse k data m ptr c = InternalParse KeepAlive_switch k data m ptr c"

fun KeepAlive_ByteSizeLong :: "KeepAlive \<Rightarrow> nat" where
  "KeepAlive_ByteSizeLong m =
     (if KeepAlive_uid m \<noteq> [] then 1 + LengthDelimitedSize (length (KeepAlive_uid m)) else 0) +
     (if KeepAlive_meta m \<noteq> [] then 1 + LengthDelimitedSize (length (KeepAlive_meta m)) else 0) +
     (if KeepAlive_seq m \<noteq> 0 then VarintSize64 (KeepAlive_seq m) + 1 else 0) +
     (if KeepAlive_tick m \<noteq> 0 then VarintSize64 (KeepAlive_tick m) + 1 else 0) +
     length (unknown_fields m)"

definition KeepAlive_InternalSerialize :: "KeepAlive \<Rightarrow> bytes" where
  "KeepAlive_InternalSerialize m =
     (if KeepAlive_uid m \<noteq> [] then WriteBytes 1 (KeepAlive_uid m) else []) @
     (if KeepAlive_seq m \<noteq> 0 then WriteUInt64 2 (KeepAlive_seq m) else []) @
     (if KeepAlive_tick m \<noteq> 0 then WriteUInt64 3 (KeepAlive_tick m) else []) @
     (if KeepAlive_meta m \<noteq> [] then WriteBytes 4 (KeepAlive_meta m) else []) @
     unknown_fields m"

definition KeepAlive_MergeFrom :: "KeepAlive \<Rightarrow> KeepAlive \<Rightarrow> KeepAlive" where
  "KeepAlive_MergeFrom from this = this\<lparr>
     KeepAlive_uid := (if KeepAlive_uid from \<noteq> [] then KeepAlive_uid from else KeepAlive_uid this),
     KeepAlive_meta := (if KeepAlive_meta from \<noteq> [] then KeepAlive_meta from else KeepAlive_meta this),
     KeepAlive_seq := (if KeepAlive_seq from \<noteq> 0 then KeepAlive_seq from else KeepAlive_seq this),
     KeepAlive_tick := (if KeepAlive_tick from \<noteq> 0 then KeepAlive_tick from else KeepAlive_tick this),
     unknown_fields := unknown_fields this @ unknown_fields from\<rparr>"

definition KeepAlive_CopyFrom :: "bool \<Rightarrow> KeepAlive \<Rightarrow> KeepAlive \<Rightarrow> KeepAlive" where
  "KeepAlive_CopyFrom same from this = (if same then this else KeepAlive_MergeFrom from (KeepAlive_Clear this))"

definition KeepAlive_copy :: "KeepAlive \<Rightarrow> KeepAlive" where
  "KeepAlive_copy from = KeepAlive_default\<lparr>
     KeepAlive_uid := (if KeepAlive_uid from \<noteq> [] then KeepAlive_uid from else []),
     KeepAlive_seq := KeepAlive_seq from,
     KeepAlive_tick := KeepAlive_tick from,
     KeepAlive_meta := (if KeepAlive_meta from \<noteq> [] then KeepAlive_meta from else []),
     unknown_fields := unknown_fields from\<rparr>"

definition KeepAlive_InternalSwap :: "KeepAlive \<Rightarrow> KeepAlive \<Rightarrow> KeepAlive \<times> KeepAlive" where
  "KeepAlive_InternalSwap this other =
     (this\<lparr>unknown_fields := unknown_fields other, KeepAlive_uid := KeepAlive_uid other,
       KeepAlive_seq := KeepAlive_seq other, KeepAlive_tick := KeepAlive_tick other,
       KeepAlive_meta := KeepAlive_meta other\<rparr>,
      other\<lparr>unknown_fields := unknown_fields this, KeepAlive_uid := KeepAlive_uid this,
       KeepAlive_seq := KeepAlive_seq this, KeepAlive_tick := KeepAlive_tick this,
       KeepAlive_meta := KeepAlive_meta this\<rparr>)"

definition KeepAlive_known :: "KeepAlive \<Rightarrow> bool" where
  "KeepAlive_known m \<longleftrightarrow> unknown_fields m = []"

lemma KeepAlive_Clear_default: "KeepAlive_Clear m = KeepAlive_default"
  by (simp add: KeepAlive_Clear_def KeepAlive_default_def)

lemma KeepAlive_swap: "KeepAlive_InternalSwap a b = (b, a)"
  by (simp add: KeepAlive_InternalSwap_def)

lemma KeepAlive_MergeFrom_default: "KeepAlive_MergeFrom m KeepAlive_default = m"
  by (cases m) (simp add: KeepAlive_MergeFrom_def KeepAlive_default_def)

lemma KeepAlive_copy_same: "KeepAlive_copy m = m"
  by (cases m) (simp add: KeepAlive_copy_def KeepAlive_default_def)

lemma KeepAlive_switch_tags:
  "KeepAlive_switch k data (MakeTag 1 2) m ptr c =
     bytes_field KeepAlive_uid (\<lambda>v m. m\<lparr>KeepAlive_uid := v\<rparr>) data m ptr c"
  "KeepAlive_switch k data (MakeTag 2 0) m ptr c =
     varint64_field (\<lambda>v m. m\<lparr>KeepAlive_seq := v\<rparr>) data m ptr c"
  "KeepAlive_switch k data (MakeTag 3 0) m ptr c =
     varint64_field (\<lambda>v m. m\<lparr>KeepAlive_tick := v\<rparr>) data m ptr c"
  "KeepAlive_switch k data (MakeTag 4 2) m ptr c =
     bytes_field KeepAlive_meta (\<lambda>v m. m\<lparr>KeepAlive_meta := v\<rparr>) data m ptr c"
  by (simp_all add: KeepAlive_switch_def MakeTag_def)

lemma KeepAlive_switch_ok: "switch_ok 0 KeepAlive_switch"
proof (rule switch_okI)
  fix k data tag m p c
  assume c: "ctx_ok data c" and k: "length data - p + 0 < k"
  from c show "handled_ok data p (KeepAlive_switch k data tag m p c)"
    by (simp add: KeepAlive_switch_def Let_def handled_ok_fields)
qed

lemma KeepAlive_advances:
  "ctx_ok data c \<Longrightarrow> length data - p + 0 < k \<Longrightarrow> advances data p (KeepAlive_InternalParse k data m p c)"
  unfolding KeepAlive_InternalParse_def by (rule InternalParse_advances [OF KeepAlive_switch_ok])

lemma KeepAlive_size:
  assumes "length (KeepAlive_InternalSerialize m) < 2 ^ 31"
  shows "KeepAlive_ByteSizeLong m = length (KeepAlive_InternalSerialize m)"
proof -
  have "length (KeepAlive_uid m) < 2 ^ 32" "length (KeepAlive_meta m) < 2 ^ 32"
    using assms length_WriteBytes_ge [of _ _, THEN order.strict_trans1]
    by (auto simp: KeepAlive_InternalSerialize_def WriteBytes_def split: if_splits)
  then show ?thesis by (simp add: KeepAlive_InternalSerialize_def wire_simps)
qed

lemma KeepAlive_reads:
  assumes "KeepAlive_known m" "length (KeepAlive_InternalSerialize m) < 2 ^ 31"
  shows "reads KeepAlive_InternalParse (KeepAlive_InternalSerialize m) KeepAlive_default m (int 0)"
proof -
  have u: "unknown_fields m = []" using assms(1) by (simp add: KeepAlive_known_def)
  have "eats KeepAlive_switch data d KeepAlive_default (KeepAlive_InternalSerialize m) m" for data d
    unfolding KeepAlive_InternalSerialize_def u
    by (rule eats_bytes, rule KeepAlive_switch_tags, simp add: KeepAlive_default_def,
        rule eats_uint64, rule KeepAlive_switch_tags, simp add: KeepAlive_default_def,
        rule eats_uint64, rule KeepAlive_switch_tags, simp add: KeepAlive_default_def,
        rule eats_bytes, rule KeepAlive_switch_tags, simp add: KeepAlive_default_def,
        rule eats_end, rule KeepAlive.equality, simp_all add: KeepAlive_default_def u)
  then show ?thesis
    unfolding KeepAlive_InternalParse_def [abs_def] by (intro reads_eats)
qed

interpretation codec_KeepAlive: message_codec KeepAlive_InternalParse KeepAlive_InternalSerialize KeepAlive_ByteSizeLong KeepAlive_default
    KeepAlive_MergeFrom KeepAlive_known 0
  by unfold_locales (assumption | rule KeepAlive_reads KeepAlive_size KeepAlive_MergeFrom_default KeepAlive_advances | simp)+

section \<open>KeepAliveRes\<close>

record KeepAliveRes = message_lite +
  KeepAliveRes_uid :: bytes
  KeepAliveRes_res_code :: u32
  KeepAliveRes_seq :: u64
  KeepAliveRes_tick :: u64
  KeepAliveRes_meta :: bytes

definition KeepAliveRes_default :: KeepAliveRes where
  "KeepAliveRes_default = \<lparr>unknown_fields = [], KeepAliveRes_uid = [], KeepAliveRes_res_code = 0,
       KeepAliveRes_seq = 0, KeepAliveRes_tick = 0, KeepAliveRes_meta = []\<rparr>"

definition KeepAliveRes_Clear :: "KeepAliveRes \<Rightarrow> KeepAliveRes" where
  "KeepAliveRes_Clear m = m\<lparr>KeepAliveRes_uid := [], KeepAliveRes_res_code := 0,
       KeepAliveRes_seq := 0, KeepAliveRes_tick := 0, KeepAliveRes_meta := [], unknown_fields := []\<rparr>"

definition KeepAliveRes_switch :: "KeepAliveRes field_switch" where
  "KeepAliveRes_switch k data tag m ptr c =
     (let number = drop_bit 3 tag; low = (ucast tag :: byte) in
      if number = 1 \<and> low = 10
      then bytes_field KeepAliveRes_uid (\<lambda>v m. m\<lparr>KeepAliveRes_uid := v\<rparr>) data m ptr c
      else if number = 2 \<and> low = 16
      then varint32_field (\<lambda>v m. m\<lparr>KeepAliveRes_res_code := v\<rparr>) data m ptr c
      else if number = 3 \<and> low = 24
      then varint64_field (\<lambda>v m. m\<lparr>KeepAliveRes_seq := v\<rparr>) data m ptr c
      else if number = 4 \<and> low = 32
      then varint64_field (\<lambda>v m. m\<lparr>KeepAliveRes_tick := v\<rparr>) data m ptr c
      else if number = 5 \<and> low = 42
      then bytes_field KeepAliveRes_meta (\<lambda>v m. m\<lparr>KeepAliveRes_meta := v\<rparr>) data m ptr c
      else Unusual)"

definition KeepAliveRes_InternalParse :: "nat \<Rightarrow> bytes \<Rightarrow> KeepAliveRes \<Rightarrow> nat \<Rightarrow> ctx \<Rightarrow> KeepAliveRes parsed" where
  "KeepAliveRes_InternalParse k data m ptr c = InternalParse KeepAliveRes_switch k data m ptr c"

fun KeepAliveRes_ByteSizeLong :: "KeepAliveRes \<Rightarrow> nat" where
  "KeepAliveRes_ByteSizeLong m =
     (if KeepAliveRes_uid m \<noteq> [] then 1 + LengthDelimitedSize (length (KeepAliveRes_uid m)) else 0) +
     (if KeepAliveRes_meta m \<noteq> [] then 1 + LengthDelimitedSize (length (KeepAliveRes_meta m)) else 0) +
     (if KeepAliveRes_seq m \<noteq> 0 then VarintSize64 (KeepAliveRes_seq m) + 1 else 0) +
     (if KeepAliveRes_tick m \<noteq> 0 then VarintSize64 (KeepAliveRes_tick m) + 1 else 0) +
     (if KeepAliveRes_res_code m \<noteq> 0 then VarintSize32 (KeepAliveRes_res_code m) + 1 else 0) +
     length (unknown_fields m)"

definition KeepAliveRes_InternalSerialize :: "KeepAliveRes \<Rightarrow> bytes" where
  "KeepAliveRes_InternalSerialize m =
     (if KeepAliveRes_uid m \<noteq> [] then WriteBytes 1 (KeepAliveRes_uid m) else []) @
     (if KeepAliveRes_res_code m \<noteq> 0 then WriteUInt32 2 (KeepAliveRes_res_code m) else []) @
     (if KeepAliveRes_seq m \<noteq> 0 then WriteUInt64 3 (KeepAliveRes_seq m) else []) @
     (if KeepAliveRes_tick m \<noteq> 0 then WriteUInt64 4 (KeepAliveRes_tick m) else []) @
     (if KeepAliveRes_meta m \<noteq> [] then WriteBytes 5 (KeepAliveRes_meta m) else []) @
     unknown_fields m"

definition KeepAliveRes_MergeFrom :: "KeepAliveRes \<Rightarrow> KeepAliveRes \<Rightarrow> KeepAliveRes" where
  "KeepAliveRes_MergeFrom from this = this\<lparr>
     KeepAliveRes_uid := (if KeepAliveRes_uid from \<noteq> [] then KeepAliveRes_uid from else KeepAliveRes_uid this),
     KeepAliveRes_meta := (if KeepAliveRes_meta from \<noteq> [] then KeepAliveRes_meta from else KeepAliveRes_meta this),
     KeepAliveRes_seq := (if KeepAliveRes_seq from \<noteq> 0 then KeepAliveRes_seq from else KeepAliveRes_seq this),
     KeepAliveRes_tick := (if KeepAliveRes_tick from \<noteq> 0 then KeepAliveRes_tick from else KeepAliveRes_tick this),
     KeepAliveRes_res_code := (if KeepAliveRes_res_code from \<noteq> 0 then KeepAliveRes_res_code from else KeepAliveRes_res_code this),
     unknown_fields := unknown_fields this @ unknown_fields from\<rparr>"

definition KeepAliveRes_CopyFrom :: "bool \<Rightarrow> KeepAliveRes \<Rightarrow> KeepAliveRes \<Rightarrow> KeepAliveRes" where
  "KeepAliveRes_CopyFrom same from this = (if same then this else KeepAliveRes_MergeFrom from (KeepAliveRes_Clear this))"

definition KeepAliveRes_copy :: "KeepAliveRes \<Rightarrow> KeepAliveRes" where
  "KeepAliveRes_copy from = KeepAliveRes_default\<lparr>
     KeepAliveRes_uid := (if KeepAliveRes_uid from \<noteq> [] then KeepAliveRes_uid from else []),
     KeepAliveRes_res_code := KeepAliveRes_res_code from,
     KeepAliveRes_seq := KeepAliveRes_seq from,
     KeepAliveRes_tick := KeepAliveRes_tick from,
     KeepAliveRes_meta := (if KeepAliveRes_meta from \<noteq> [] then KeepAliveRes_meta from else []),
     unknown_fields := unknown_fields from\<rparr>"

definition KeepAliveRes_InternalSwap :: "KeepAliveRes \<Rightarrow> KeepAliveRes \<Rightarrow> KeepAliveRes \<times> KeepAliveRes" where
  "KeepAliveRes_InternalSwap this other =
     (this\<lparr>unknown_fields := unknown_fields other, KeepAliveRes_uid := KeepAliveRes_uid other,
       KeepAliveRes_res_code := KeepAliveRes_res_code other, KeepAliveRes_seq := KeepAliveRes_seq other,
       KeepAliveRes_tick := KeepAliveRes_tick other, KeepAliveRes_meta := KeepAliveRes_meta other\<rparr>,
      other\<lparr>unknown_fields := unknown_fields this, KeepAliveRes_uid := KeepAliveRes_uid this,
       KeepAliveRes_res_code := KeepAliveRes_res_code this, KeepAliveRes_seq := KeepAliveRes_seq this,
       KeepAliveRes_tick := KeepAliveRes_tick this, KeepAliveRes_meta := KeepAliveRes_meta this\<rparr>)"

definition KeepAliveRes_known :: "KeepAliveRes \<Rightarrow> bool" where
  "KeepAliveRes_known m \<longleftrightarrow> unknown_fields m = []"

lemma KeepAliveRes_Clear_default: "KeepAliveRes_Clear m = KeepAliveRes_default"
  by (simp add: KeepAliveRes_Clear_def KeepAliveRes_default_def)

lemma KeepAliveRes_swap: "KeepAliveRes_InternalSwap a b = (b, a)"
  by (simp add: KeepAliveRes_InternalSwap_def)

lemma KeepAliveRes_MergeFrom_default: "KeepAliveRes_MergeFrom m KeepAliveRes_default = m"
  by (cases m) (simp add: KeepAliveRes_MergeFrom_def KeepAliveRes_default_def)

lemma KeepAliveRes_copy_same: "KeepAliveRes_copy m = m"
  by (cases m) (simp add: KeepAliveRes_copy_def KeepAliveRes_default_def)

lemma KeepAliveRes_switch_tags:
  "KeepAliveRes_switch k data (MakeTag 1 2) m ptr c =
     bytes_field KeepAliveRes_uid (\<lambda>v m. m\<lparr>KeepAliveRes_uid := v\<rparr>) data m ptr c"
  "KeepAliveRes_switch k data (MakeTag 2 0) m ptr c =
     varint32_field (\<lambda>v m. m\<lparr>KeepAliveRes_res_code := v\<rparr>) data m ptr c"
  "KeepAliveRes_switch k data (MakeTag 3 0) m ptr c =
     varint64_field (\<lambda>v m. m\<lparr>KeepAliveRes_seq := v\<rparr>) data m ptr c"
  "KeepAliveRes_switch k data (MakeTag 4 0) m ptr c =
     varint64_field (\<lambda>v m. m\<lparr>KeepAliveRes_tick := v\<rparr>) data m ptr c"
  "KeepAliveRes_switch k data (MakeTag 5 2) m ptr c =
     bytes_field KeepAliveRes_meta (\<lambda>v m. m\<lparr>KeepAliveRes_meta := v\<rparr>) data m ptr c"
  by (simp_all add: KeepAliveRes_switch_def MakeTag_def)

lemma KeepAliveRes_switch_ok: "switch_ok 0 KeepAliveRes_switch"
proof (rule switch_okI)
  fix k data tag m p c
  assume c: "ctx_ok data c" and k: "length data - p + 0 < k"
  from c show "handled_ok data p (KeepAliveRes_switch k data tag m p c)"
    by (simp add: KeepAliveRes_switch_def Let_def handled_ok_fields)
qed

lemma KeepAliveRes_advances:
  "ctx_ok data c \<Longrightarrow> length data - p + 0 < k \<Longrightarrow> advances data p (KeepAliveRes_InternalParse k data m p c)"
  unfolding KeepAliveRes_InternalParse_def by (rule InternalParse_advances [OF KeepAliveRes_switch_ok])

lemma KeepAliveRes_size:
  assumes "length (KeepAliveRes_InternalSerialize m) < 2 ^ 31"
  shows "KeepAliveRes_ByteSizeLong m = length (KeepAliveRes_InternalSerialize m)"
proof -
  have "length (KeepAliveRes_uid m) < 2 ^ 32" "length (KeepAliveRes_meta m) < 2 ^ 32"
    using assms length_WriteBytes_ge [of _ _, THEN order.strict_trans1]
    by (auto simp: KeepAliveRes_InternalSerialize_def WriteBytes_def split: if_splits)
  then show ?thesis by (simp add: KeepAliveRes_InternalSerialize_def wire_simps)
qed

lemma KeepAliveRes_reads:
  assumes "KeepAliveRes_known m" "length (KeepAliveRes_InternalSerialize m) < 2 ^ 31"
  shows "reads KeepAliveRes_InternalParse (KeepAliveRes_InternalSerialize m) KeepAliveRes_default m (int 0)"
proof -
  have u: "unknown_fields m = []" using assms(1) by (simp add: KeepAliveRes_known_def)
  have "eats KeepAliveRes_switch data d KeepAliveRes_default (KeepAliveRes_InternalSerialize m) m" for data d
    unfolding KeepAliveRes_InternalSerialize_def u
    by (rule eats_bytes, rule KeepAliveRes_switch_tags, simp add: KeepAliveRes_default_def,
        rule eats_uint32, rule KeepAliveRes_switch_tags, simp add: KeepAliveRes_default_def,
        rule eats_uint64, rule KeepAliveRes_switch_tags, simp add: KeepAliveRes_default_def,
        rule eats_uint64, rule KeepAliveRes_switch_tags, simp add: KeepAliveRes_default_def,
        rule eats_bytes, rule KeepAliveRes_switch_tags, simp add: KeepAliveRes_default_def,
        rule eats_end, rule KeepAliveRes.equality, simp_all add: KeepAliveRes_default_def u)
  then show ?thesis
    unfolding KeepAliveRes_InternalParse_def [abs_def] by (intro reads_eats)
qed

interpretation codec_KeepAliveRes: message_codec KeepAliveRes_InternalParse KeepAliveRes_InternalSerialize KeepAliveRes_ByteSizeLong KeepAliveRes_default
    KeepAliveRes_MergeFrom KeepAliveRes_known 0
  by unfold_locales (assumption | rule KeepAliveRes_reads KeepAliveRes_size KeepAliveRes_MergeFrom_default KeepAliveRes_advances | simp)+

section \<open>Data\<close>

record Data = message_lite +
  Data_uid :: bytes
  Data_dest :: bytes
  Data_seq :: u64
  Data_crc :: u32
  Data_raw_data :: bytes

definition Data_default :: Data where
  "Data_default = \<lparr>unknown_fields = [], Data_uid = [], Data_dest = [], Data_seq = 0, Data_crc = 0,
       Data_raw_data = []\<rparr>"

definition Data_Clear :: "Data \<Rightarrow> Data" where
  "Data_Clear m = m\<lparr>Data_uid := [], Data_dest := [], Data_seq := 0, Data_crc := 0,
       Data_raw_data := [], unknown_fields := []\<rparr>"

definition Data_switch :: "Data field_switch" where
  "Data_switch k data tag m ptr c =
     (let number = drop_bit 3 tag; low = (ucast tag :: byte) in
      if number = 1 \<and> low = 10
      then bytes_field Data_uid (\<lambda>v m. m\<lparr>Data_uid := v\<rparr>) data m ptr c
      else if number = 2 \<and> low = 18
      then bytes_field Data_dest (\<lambda>v m. m\<lparr>Data_dest := v\<rparr>) data m ptr c
      else if number = 3 \<and> low = 24
      then varint64_field (\<lambda>v m. m\<lparr>Data_seq := v\<rparr>) data m ptr c
      else if number = 4 \<and> low = 32
      then varint32_field (\<lambda>v m. m\<lparr>Data_crc := v\<rparr>) data m ptr c
      else if number = 5 \<and> low = 42
      then bytes_field Data_raw_data (\<lambda>v m. m\<lparr>Data_raw_data := v\<rparr>) data m ptr c
      else Unusual)"

definition Data_InternalParse :: "nat \<Rightarrow> bytes \<Rightarrow> Data \<Rightarrow> nat \<Rightarrow> ctx \<Rightarrow> Data parsed" where
  "Data_InternalParse k data m ptr c = InternalParse Data_switch k data m ptr c"

fun Data_ByteSizeLong :: "Data \<Rightarrow> nat" where
  "Data_ByteSizeLong m =
     (if Data_uid m \<noteq> [] then 1 + LengthDelimitedSize (length (Data_uid m)) else 0) +
     (if Data_dest m \<noteq> [] then 1 + LengthDelimitedSize (length (Data_dest m)) else 0) +
     (if Data_raw_data m \<noteq> [] then 1 + LengthDelimitedSize (length (Data_raw_data m)) else 0) +
     (if Data_seq m \<noteq> 0 then VarintSize64 (Data_seq m) + 1 else 0) +
     (if Data_crc m \<noteq> 0 then Int32Size (Data_crc m) + 1 else 0) +
     length (unknown_fields m)"

definition Data_InternalSerialize :: "Data \<Rightarrow> bytes" where
  "Data_InternalSerialize m =
     (if Data_uid m \<noteq> [] then WriteBytes 1 (Data_uid m) else []) @
     (if Data_dest m \<noteq> [] then WriteBytes 2 (Data_dest m) else []) @
     (if Data_seq m \<noteq> 0 then WriteUInt64 3 (Data_seq m) else []) @
     (if Data_crc m \<noteq> 0 then WriteInt32 4 (Data_crc m) else []) @
     (if Data_raw_data m \<noteq> [] then WriteBytes 5 (Data_raw_data m) else []) @
     unknown_fields m"

definition Data_MergeFrom :: "Data \<Rightarrow> Data \<Rightarrow> Data" where
  "Data_MergeFrom from this = this\<lparr>
     Data_uid := (if Data_uid from \<noteq> [] then Data_uid from else Data_uid this),
     Data_dest := (if Data_dest from \<noteq> [] then Data_dest from else Data_dest this),
     Data_raw_data := (if Data_raw_data from \<noteq> [] then Data_raw_data from else Data_raw_data this),
     Data_seq := (if Data_seq from \<noteq> 0 then Data_seq from else Data_seq this),
     Data_crc := (if Data_crc from \<noteq> 0 then Data_crc from else Data_crc this),
     unknown_fields := unknown_fields this @ unknown_fields from\<rparr>"

definition Data_CopyFrom :: "bool \<Rightarrow> Data \<Rightarrow> Data \<Rightarrow> Data" where
  "Data_CopyFrom same from this = (if same then this else Data_MergeFrom from (Data_Clear this))"

definition Data_copy :: "Data \<Rightarrow> Data" where
  "Data_copy from = Data_default\<lparr>
     Data_uid := (if Data_uid from \<noteq> [] then Data_uid from else []),
     Data_dest := (if Data_dest from \<noteq> [] then Data_dest from else []),
     Data_seq := Data_seq from,
     Data_crc := Data_crc from,
     Data_raw_data := (if Data_raw_data from \<noteq> [] then Data_raw_data from else []),
     unknown_fields := unknown_fields from\<rparr>"

definition Data_InternalSwap :: "Data \<Rightarrow> Data \<Rightarrow> Data \<times> Data" where
  "Data_InternalSwap this other =
     (this\<lparr>unknown_fields := unknown_fields other, Data_uid := Data_uid other,
       Data_dest := Data_dest other, Data_seq := Data_seq other, Data_crc := Data_crc other,
       Data_raw_data := Data_raw_data other\<rparr>,
      other\<lparr>unknown_fields := unknown_fields this, Data_uid := Data_uid this,
       Data_dest := Data_dest this, Data_seq := Data_seq this, Data_crc := Data_crc this,
       Data_raw_data := Data_raw_data this\<rparr>)"

definition Data_known :: "Data \<Rightarrow> bool" where
  "Data_known m \<longleftrightarrow> unknown_fields m = []"

lemma Data_Clear_default: "Data_Clear m = Data_default"
  by (simp add: Data_Clear_def Data_default_def)

lemma Data_swap: "Data_InternalSwap a b = (b, a)"
  by (simp add: Data_InternalSwap_def)

lemma Data_MergeFrom_default: "Data_MergeFrom m Data_default = m"
  by (cases m) (simp add: Data_MergeFrom_def Data_default_def)

lemma Data_copy_same: "Data_copy m = m"
  by (cases m) (simp add: Data_copy_def Data_default_def)

lemma Data_switch_tags:
  "Data_switch k data (MakeTag 1 2) m ptr c =
     bytes_field Data_uid (\<lambda>v m. m\<lparr>Data_uid := v\<rparr>) data m ptr c"
  "Data_switch k data (MakeTag 2 2) m ptr c =
     bytes_field Data_dest (\<lambda>v m. m\<lparr>Data_dest := v\<rparr>) data m ptr c"
  "Data_switch k data (MakeTag 3 0) m ptr c =
     varint64_field (\<lambda>v m. m\<lparr>Data_seq := v\<rparr>) data m ptr c"
  "Data_switch k data (MakeTag 4 0) m ptr c =
     varint32_field (\<lambda>v m. m\<lparr>Data_crc := v\<rparr>) data m ptr c"
  "Data_switch k data (MakeTag 5 2) m ptr c =
     bytes_field Data_raw_data (\<lambda>v m. m\<lparr>Data_raw_data := v\<rparr>) data m ptr c"
  by (simp_all add: Data_switch_def MakeTag_def)

lemma Data_switch_ok: "switch_ok 0 Data_switch"
proof (rule switch_okI)
  fix k data tag m p c
  assume c: "ctx_ok data c" and k: "length data - p + 0 < k"
  from c show "handled_ok data p (Data_switch k data tag m p c)"
    by (simp add: Data_switch_def Let_def handled_ok_fields)
qed

lemma Data_advances:
  "ctx_ok data c \<Longrightarrow> length data - p + 0 < k \<Longrightarrow> advances data p (Data_InternalParse k data m p c)"
  unfolding Data_InternalParse_def by (rule InternalParse_advances [OF Data_switch_ok])

lemma Data_size:
  assumes "length (Data_InternalSerialize m) < 2 ^ 31"
  shows "Data_ByteSizeLong m = length (Data_InternalSerialize m)"
proof -
  have "length (Data_uid m) < 2 ^ 32" "length (Data_dest m) < 2 ^ 32" "length (Data_raw_data m) < 2 ^ 32"
    using assms length_WriteBytes_ge [of _ _, THEN order.strict_trans1]
    by (auto simp: Data_InternalSerialize_def WriteBytes_def split: if_splits)
  then show ?thesis by (simp add: Data_InternalSerialize_def wire_simps)
qed

lemma Data_reads:
  assumes "Data_known m" "length (Data_InternalSerialize m) < 2 ^ 31"
  shows "reads Data_InternalParse (Data_InternalSerialize m) Data_default m (int 0)"
proof -
  have u: "unknown_fields m = []" using assms(1) by (simp add: Data_known_def)
  have "eats Data_switch data d Data_default (Data_InternalSerialize m) m" for data d
    unfolding Data_InternalSerialize_def u
    by (rule eats_bytes, rule Data_switch_tags, simp add: Data_default_def,
        rule eats_bytes, rule Data_switch_tags, simp add: Data_default_def,
        rule eats_uint64, rule Data_switch_tags, simp add: Data_default_def,
        rule eats_int32, rule Data_switch_tags, simp add: Data_default_def,
        rule eats_bytes, rule Data_switch_tags, simp add: Data_default_def,
        rule eats_end, rule Data.equality, simp_all add: Data_default_def u)
  then show ?thesis
    unfolding Data_InternalParse_def [abs_def] by (intro reads_eats)
qed

interpretation codec_Data: message_codec Data_InternalParse Data_InternalSerialize Data_ByteSizeLong Data_default
    Data_MergeFrom Data_known 0
  by unfold_locales (assumption | rule Data_reads Data_size Data_MergeFrom_default Data_advances | simp)+

section \<open>CustemorInfo\<close>

record CustemorInfo = message_lite +
  CustemorInfo_cpe_id :: bytes
  CustemorInfo_cpe_ip :: bytes
  CustemorInfo_cpe_vender :: bytes

definition CustemorInfo_default :: CustemorInfo where
  "CustemorInfo_default = \<lparr>unknown_fields = [], CustemorInfo_cpe_id = [], CustemorInfo_cpe_ip = [],
       CustemorInfo_cpe_vender = []\<rparr>"

definition CustemorInfo_Clear :: "CustemorInfo \<Rightarrow> CustemorInfo" where
  "CustemorInfo_Clear m = m\<lparr>CustemorInfo_cpe_id := [], CustemorInfo_cpe_ip := [],
       CustemorInfo_cpe_vender := [], unknown_fields := []\<rparr>"

definition CustemorInfo_switch :: "CustemorInfo field_switch" where
  "CustemorInfo_switch k data tag m ptr c =
     (let number = drop_bit 3 tag; low = (ucast tag :: byte) in
      if number = 1 \<and> low = 10
      then bytes_field CustemorInfo_cpe_id (\<lambda>v m. m\<lparr>CustemorInfo_cpe_id := v\<rparr>) data m ptr c
      else if number = 2 \<and> low = 18
      then bytes_field CustemorInfo_cpe_ip (\<lambda>v m. m\<lparr>CustemorInfo_cpe_ip := v\<rparr>) data m ptr c
      else if number = 3 \<and> low = 26
      then bytes_field CustemorInfo_cpe_vender (\<lambda>v m. m\<lparr>CustemorInfo_cpe_vender := v\<rparr>) data m ptr c
      else Unusual)"

definition CustemorInfo_InternalParse :: "nat \<Rightarrow> bytes \<Rightarrow> CustemorInfo \<Rightarrow> nat \<Rightarrow> ctx \<Rightarrow> CustemorInfo parsed" where
  "CustemorInfo_InternalParse k data m ptr c = InternalParse CustemorInfo_switch k data m ptr c"

fun CustemorInfo_ByteSizeLong :: "CustemorInfo \<Rightarrow> nat" where
  "CustemorInfo_ByteSizeLong m =
     (if CustemorInfo_cpe_id m \<noteq> [] then 1 + LengthDelimitedSize (length (CustemorInfo_cpe_id m)) else 0) +
     (if CustemorInfo_cpe_ip m \<noteq> [] then 1 + LengthDelimitedSize (length (CustemorInfo_cpe_ip m)) else 0) +
     (if CustemorInfo_cpe_vender m \<noteq> [] then 1 + LengthDelimitedSize (length (CustemorInfo_cpe_vender m)) else 0) +
     length (unknown_fields m)"

definition CustemorInfo_InternalSerialize :: "CustemorInfo \<Rightarrow> bytes" where
  "CustemorInfo_InternalSerialize m =
     (if CustemorInfo_cpe_id m \<noteq> [] then WriteBytes 1 (CustemorInfo_cpe_id m) else []) @
     (if CustemorInfo_cpe_ip m \<noteq> [] then WriteBytes 2 (CustemorInfo_cpe_ip m) else []) @
     (if CustemorInfo_cpe_vender m \<noteq> [] then WriteBytes 3 (CustemorInfo_cpe_vender m) else []) @
     unknown_fields m"

definition CustemorInfo_MergeFrom :: "CustemorInfo \<Rightarrow> CustemorInfo \<Rightarrow> CustemorInfo" where
  "CustemorInfo_MergeFrom from this = this\<lparr>
     CustemorInfo_cpe_id := (if CustemorInfo_cpe_id from \<noteq> [] then CustemorInfo_cpe_id from else CustemorInfo_cpe_id this),
     CustemorInfo_cpe_ip := (if CustemorInfo_cpe_ip from \<noteq> [] then CustemorInfo_cpe_ip from else CustemorInfo_cpe_ip this),
     CustemorInfo_cpe_vender := (if CustemorInfo_cpe_vender from \<noteq> [] then CustemorInfo_cpe_vender from else CustemorInfo_cpe_vender this),
     unknown_fields := unknown_fields this @ unknown_fields from\<rparr>"

definition CustemorInfo_CopyFrom :: "bool \<Rightarrow> CustemorInfo \<Rightarrow> CustemorInfo \<Rightarrow> CustemorInfo" where
  "CustemorInfo_CopyFrom same from this = (if same then this else CustemorInfo_MergeFrom from (CustemorInfo_Clear this))"

definition CustemorInfo_copy :: "CustemorInfo \<Rightarrow> CustemorInfo" where
  "CustemorInfo_copy from = CustemorInfo_default\<lparr>
     CustemorInfo_cpe_id := (if CustemorInfo_cpe_id from \<noteq> [] then CustemorInfo_cpe_id from else []),
     CustemorInfo_cpe_ip := (if CustemorInfo_cpe_ip from \<noteq> [] then CustemorInfo_cpe_ip from else []),
     CustemorInfo_cpe_vender := (if CustemorInfo_cpe_vender from \<noteq> [] then CustemorInfo_cpe_vender from else []),
     unknown_fields := unknown_fields from\<rparr>"

definition CustemorInfo_InternalSwap :: "CustemorInfo \<Rightarrow> CustemorInfo \<Rightarrow> CustemorInfo \<times> CustemorInfo" where
  "CustemorInfo_InternalSwap this other =
     (this\<lparr>unknown_fields := unknown_fields other, CustemorInfo_cpe_id := CustemorInfo_cpe_id other,
       CustemorInfo_cpe_ip := CustemorInfo_cpe_ip other,
       CustemorInfo_cpe_vender := CustemorInfo_cpe_vender other\<rparr>,
      other\<lparr>unknown_fields := unknown_fields this, CustemorInfo_cpe_id := CustemorInfo_cpe_id this,
       CustemorInfo_cpe_ip := CustemorInfo_cpe_ip this,
       CustemorInfo_cpe_vender := CustemorInfo_cpe_vender this\<rparr>)"

definition CustemorInfo_known :: "CustemorInfo \<Rightarrow> bool" where
  "CustemorInfo_known m \<longleftrightarrow> unknown_fields m = []"

lemma CustemorInfo_Clear_default: "CustemorInfo_Clear m = CustemorInfo_default"
  by (simp add: CustemorInfo_Clear_def CustemorInfo_default_def)

lemma CustemorInfo_swap: "CustemorInfo_InternalSwap a b = (b, a)"
  by (simp add: CustemorInfo_InternalSwap_def)

lemma CustemorInfo_MergeFrom_default: "CustemorInfo_MergeFrom m CustemorInfo_default = m"
  by (cases m) (simp add: CustemorInfo_MergeFrom_def CustemorInfo_default_def)

lemma CustemorInfo_copy_same: "CustemorInfo_copy m = m"
  by (cases m) (simp add: CustemorInfo_copy_def CustemorInfo_default_def)

lemma CustemorInfo_switch_tags:
  "CustemorInfo_switch k data (MakeTag 1 2) m ptr c =
     bytes_field CustemorInfo_cpe_id (\<lambda>v m. m\<lparr>CustemorInfo_cpe_id := v\<rparr>) data m ptr c"
  "CustemorInfo_switch k data (MakeTag 2 2) m ptr c =
     bytes_field CustemorInfo_cpe_ip (\<lambda>v m. m\<lparr>CustemorInfo_cpe_ip := v\<rparr>) data m ptr c"
  "CustemorInfo_switch k data (MakeTag 3 2) m ptr c =
     bytes_field CustemorInfo_cpe_vender (\<lambda>v m. m\<lparr>CustemorInfo_cpe_vender := v\<rparr>) data m ptr c"
  by (simp_all add: CustemorInfo_switch_def MakeTag_def)

lemma CustemorInfo_switch_ok: "switch_ok 0 CustemorInfo_switch"
proof (rule switch_okI)
  fix k data tag m p c
  assume c: "ctx_ok data c" and k: "length data - p + 0 < k"
  from c show "handled_ok data p (CustemorInfo_switch k data tag m p c)"
    by (simp add: CustemorInfo_switch_def Let_def handled_ok_fields)
qed

lemma CustemorInfo_advances:
  "ctx_ok data c \<Longrightarrow> length data - p + 0 < k \<Longrightarrow> advances data p (CustemorInfo_InternalParse k data m p c)"
  unfolding CustemorInfo_InternalParse_def by (rule InternalParse_advances [OF CustemorInfo_switch_ok])

lemma CustemorInfo_size:
  assumes "length (CustemorInfo_InternalSerialize m) < 2 ^ 31"
  shows "CustemorInfo_ByteSizeLong m = length (CustemorInfo_InternalSerialize m)"
proof -
  have "length (CustemorInfo_cpe_id m) < 2 ^ 32" "length (CustemorInfo_cpe_ip m) < 2 ^ 32"
      "length (CustemorInfo_cpe_vender m) < 2 ^ 32"
    using assms length_WriteBytes_ge [of _ _, THEN order.strict_trans1]
    by (auto simp: CustemorInfo_InternalSerialize_def WriteBytes_def split: if_splits)
  then show ?thesis by (simp add: CustemorInfo_InternalSerialize_def wire_simps)
qed

lemma CustemorInfo_reads:
  assumes "CustemorInfo_known m" "length (CustemorInfo_InternalSerialize m) < 2 ^ 31"
  shows "reads CustemorInfo_InternalParse (CustemorInfo_InternalSerialize m) CustemorInfo_default m (int 0)"
proof -
  have u: "unknown_fields m = []" using assms(1) by (simp add: CustemorInfo_known_def)
  have "eats CustemorInfo_switch data d CustemorInfo_default (CustemorInfo_InternalSerialize m) m" for data d
    unfolding CustemorInfo_InternalSerialize_def u
    by (rule eats_bytes, rule CustemorInfo_switch_tags, simp add: CustemorInfo_default_def,
        rule eats_bytes, rule CustemorInfo_switch_tags, simp add: CustemorInfo_default_def,
        rule eats_bytes, rule CustemorInfo_switch_tags, simp add: CustemorInfo_default_def,
        rule eats_end, rule CustemorInfo.equality, simp_all add: CustemorInfo_default_def u)
  then show ?thesis
    unfolding CustemorInfo_InternalParse_def [abs_def] by (intro reads_eats)
qed

interpretation codec_CustemorInfo: message_codec CustemorInfo_InternalParse CustemorInfo_InternalSerialize CustemorInfo_ByteSizeLong CustemorInfo_default
    CustemorInfo_MergeFrom CustemorInfo_known 0
  by unfold_locales (assumption | rule CustemorInfo_reads CustemorInfo_size CustemorInfo_MergeFrom_default CustemorInfo_advances | simp)+

section \<open>CustemorPEList\<close>

record CustemorPEList = message_lite +
  CustemorPEList_edge_id :: bytes
  CustemorPEList_edge_ip :: bytes
  CustemorPEList_edge_port :: u32
  CustemorPEList_edge_group :: u32
  CustemorPEList_cpe_list :: "CustemorInfo list"

definition CustemorPEList_default :: CustemorPEList where
  "CustemorPEList_default = \<lparr>unknown_fields = [], CustemorPEList_edge_id = [],
       CustemorPEList_edge_ip = [], CustemorPEList_edge_port = 0, CustemorPEList_edge_group = 0,
       CustemorPEList_cpe_list = []\<rparr>"

definition CustemorPEList_Clear :: "CustemorPEList \<Rightarrow> CustemorPEList" where
  "CustemorPEList_Clear m = m\<lparr>CustemorPEList_edge_id := [], CustemorPEList_edge_ip := [],
       CustemorPEList_edge_port := 0, CustemorPEList_edge_group := 0, CustemorPEList_cpe_list := [],
       unknown_fields := []\<rparr>"

definition CustemorPEList_switch :: "CustemorPEList field_switch" where
  "CustemorPEList_switch k data tag m ptr c =
     (let number = drop_bit 3 tag; low = (ucast tag :: byte) in
      if number = 1 \<and> low = 10
      then bytes_field CustemorPEList_edge_id (\<lambda>v m. m\<lparr>CustemorPEList_edge_id := v\<rparr>) data m ptr c
      else if number = 2 \<and> low = 18
      then bytes_field CustemorPEList_edge_ip (\<lambda>v m. m\<lparr>CustemorPEList_edge_ip := v\<rparr>) data m ptr c
      else if number = 3 \<and> low = 24
      then varint32_field (\<lambda>v m. m\<lparr>CustemorPEList_edge_port := v\<rparr>) data m ptr c
      else if number = 4 \<and> low = 32
      then varint32_field (\<lambda>v m. m\<lparr>CustemorPEList_edge_group := v\<rparr>) data m ptr c
      else if number = 5 \<and> low = 42
      then repeated_field CustemorInfo_InternalParse CustemorInfo_default 42 CustemorPEList_cpe_list
         (\<lambda>v m. m\<lparr>CustemorPEList_cpe_list := v\<rparr>) k data m ptr c
      else Unusual)"

definition CustemorPEList_InternalParse :: "nat \<Rightarrow> bytes \<Rightarrow> CustemorPEList \<Rightarrow> nat \<Rightarrow> ctx \<Rightarrow> CustemorPEList parsed" where
  "CustemorPEList_InternalParse k data m ptr c = InternalParse CustemorPEList_switch k data m ptr c"

fun CustemorPEList_ByteSizeLong :: "CustemorPEList \<Rightarrow> nat" where
  "CustemorPEList_ByteSizeLong m =
     1 * length (CustemorPEList_cpe_list m) + sum_list (map (\<lambda>x. LengthDelimitedSize (CustemorInfo_ByteSizeLong x)) (CustemorPEList_cpe_list m)) +
     (if CustemorPEList_edge_id m \<noteq> [] then 1 + LengthDelimitedSize (length (CustemorPEList_edge_id m)) else 0) +
     (if CustemorPEList_edge_ip m \<noteq> [] then 1 + LengthDelimitedSize (length (CustemorPEList_edge_ip m)) else 0) +
     (if CustemorPEList_edge_port m \<noteq> 0 then Int32Size (CustemorPEList_edge_port m) + 1 else 0) +
     (if CustemorPEList_edge_group m \<noteq> 0 then Int32Size (CustemorPEList_edge_group m) + 1 else 0) +
     length (unknown_fields m)"

definition CustemorPEList_InternalSerialize :: "CustemorPEList \<Rightarrow> bytes" where
  "CustemorPEList_InternalSerialize m =
     (if CustemorPEList_edge_id m \<noteq> [] then WriteBytes 1 (CustemorPEList_edge_id m) else []) @
     (if CustemorPEList_edge_ip m \<noteq> [] then WriteBytes 2 (CustemorPEList_edge_ip m) else []) @
     (if CustemorPEList_edge_port m \<noteq> 0 then WriteInt32 3 (CustemorPEList_edge_port m) else []) @
     (if CustemorPEList_edge_group m \<noteq> 0 then WriteInt32 4 (CustemorPEList_edge_group m) else []) @
     concat (map (\<lambda>x. WriteMessage 5 (CustemorInfo_ByteSizeLong x) (CustemorInfo_InternalSerialize x)) (CustemorPEList_cpe_list m)) @
     unknown_fields m"

definition CustemorPEList_MergeFrom :: "CustemorPEList \<Rightarrow> CustemorPEList \<Rightarrow> CustemorPEList" where
  "CustemorPEList_MergeFrom from this = this\<lparr>
     CustemorPEList_cpe_list := CustemorPEList_cpe_list this @ CustemorPEList_cpe_list from,
     CustemorPEList_edge_id := (if CustemorPEList_edge_id from \<noteq> [] then CustemorPEList_edge_id from else CustemorPEList_edge_id this),
     CustemorPEList_edge_ip := (if CustemorPEList_edge_ip from \<noteq> [] then CustemorPEList_edge_ip from else CustemorPEList_edge_ip this),
     CustemorPEList_edge_port := (if CustemorPEList_edge_port from \<noteq> 0 then CustemorPEList_edge_port from else CustemorPEList_edge_port this),
     CustemorPEList_edge_group := (if CustemorPEList_edge_group from \<noteq> 0 then CustemorPEList_edge_group from else CustemorPEList_edge_group this),
     unknown_fields := unknown_fields this @ unknown_fields from\<rparr>"

definition CustemorPEList_CopyFrom :: "bool \<Rightarrow> CustemorPEList \<Rightarrow> CustemorPEList \<Rightarrow> CustemorPEList" where
  "CustemorPEList_CopyFrom same from this = (if same then this else CustemorPEList_MergeFrom from (CustemorPEList_Clear this))"

definition CustemorPEList_copy :: "CustemorPEList \<Rightarrow> CustemorPEList" where
  "CustemorPEList_copy from = CustemorPEList_default\<lparr>
     CustemorPEList_edge_id := (if CustemorPEList_edge_id from \<noteq> [] then CustemorPEList_edge_id from else []),
     CustemorPEList_edge_ip := (if CustemorPEList_edge_ip from \<noteq> [] then CustemorPEList_edge_ip from else []),
     CustemorPEList_edge_port := CustemorPEList_edge_port from,
     CustemorPEList_edge_group := CustemorPEList_edge_group from,
     CustemorPEList_cpe_list := map (\<lambda>e. CustemorInfo_MergeFrom e CustemorInfo_default) (CustemorPEList_cpe_list from),
     unknown_fields := unknown_fields from\<rparr>"

definition CustemorPEList_InternalSwap :: "CustemorPEList \<Rightarrow> CustemorPEList \<Rightarrow> CustemorPEList \<times> CustemorPEList" where
  "CustemorPEList_InternalSwap this other =
     (this\<lparr>unknown_fields := unknown_fields other,
       CustemorPEList_edge_id := CustemorPEList_edge_id other,
       CustemorPEList_edge_ip := CustemorPEList_edge_ip other,
       CustemorPEList_edge_port := CustemorPEList_edge_port other,
       CustemorPEList_edge_group := CustemorPEList_edge_group other,
       CustemorPEList_cpe_list := CustemorPEList_cpe_list other\<rparr>,
      other\<lparr>unknown_fields := unknown_fields this,
       CustemorPEList_edge_id := CustemorPEList_edge_id this,
       CustemorPEList_edge_ip := CustemorPEList_edge_ip this,
       CustemorPEList_edge_port := CustemorPEList_edge_port this,
       CustemorPEList_edge_group := CustemorPEList_edge_group this,
       CustemorPEList_cpe_list := CustemorPEList_cpe_list this\<rparr>)"

definition CustemorPEList_known :: "CustemorPEList \<Rightarrow> bool" where
  "CustemorPEList_known m \<longleftrightarrow> unknown_fields m = [] \<and> (\<forall>x\<in>set (CustemorPEList_cpe_list m). CustemorInfo_known x)"

lemma CustemorPEList_Clear_default: "CustemorPEList_Clear m = CustemorPEList_default"
  by (simp add: CustemorPEList_Clear_def CustemorPEList_default_def)

lemma CustemorPEList_swap: "CustemorPEList_InternalSwap a b = (b, a)"
  by (simp add: CustemorPEList_InternalSwap_def)

lemma CustemorPEList_MergeFrom_default: "CustemorPEList_MergeFrom m CustemorPEList_default = m"
  by (cases m) (simp add: CustemorPEList_MergeFrom_def CustemorPEList_default_def)

lemma CustemorPEList_copy_same: "CustemorPEList_copy m = m"
  by (cases m) (simp add: CustemorPEList_copy_def CustemorPEList_default_def CustemorInfo_MergeFrom_default)

lemma CustemorPEList_switch_tags:
  "CustemorPEList_switch k data (MakeTag 1 2) m ptr c =
     bytes_field CustemorPEList_edge_id (\<lambda>v m. m\<lparr>CustemorPEList_edge_id := v\<rparr>) data m ptr c"
  "CustemorPEList_switch k data (MakeTag 2 2) m ptr c =
     bytes_field CustemorPEList_edge_ip (\<lambda>v m. m\<lparr>CustemorPEList_edge_ip := v\<rparr>) data m ptr c"
  "CustemorPEList_switch k data (MakeTag 3 0) m ptr c =
     varint32_field (\<lambda>v m. m\<lparr>CustemorPEList_edge_port := v\<rparr>) data m ptr c"
  "CustemorPEList_switch k data (MakeTag 4 0) m ptr c =
     varint32_field (\<lambda>v m. m\<lparr>CustemorPEList_edge_group := v\<rparr>) data m ptr c"
  "CustemorPEList_switch k data (MakeTag 5 2) m ptr c =
     repeated_field CustemorInfo_InternalParse CustemorInfo_default 42 CustemorPEList_cpe_list
         (\<lambda>v m. m\<lparr>CustemorPEList_cpe_list := v\<rparr>) k data m ptr c"
  by (simp_all add: CustemorPEList_switch_def MakeTag_def)

lemma CustemorPEList_switch_ok: "switch_ok 1 CustemorPEList_switch"
proof (rule switch_okI)
  fix k data tag p c and m :: CustemorPEList
  assume c: "ctx_ok data c" and k: "length data - p + 1 < k"
  have "handled_ok data p (repeated_field CustemorInfo_InternalParse CustemorInfo_default 42 CustemorPEList_cpe_list
         (\<lambda>v m. m\<lparr>CustemorPEList_cpe_list := v\<rparr>) k data m p c)"
    by (rule handled_ok_repeated [where n = 0]) (use c k in \<open>auto intro: CustemorInfo_advances\<close>)
  with c show "handled_ok data p (CustemorPEList_switch k data tag m p c)"
    by (simp add: CustemorPEList_switch_def Let_def handled_ok_fields)
qed

lemma CustemorPEList_advances:
  "ctx_ok data c \<Longrightarrow> length data - p + 1 < k \<Longrightarrow> advances data p (CustemorPEList_InternalParse k data m p c)"
  unfolding CustemorPEList_InternalParse_def by (rule InternalParse_advances [OF CustemorPEList_switch_ok])

lemma CustemorPEList_size:
  assumes "length (CustemorPEList_InternalSerialize m) < 2 ^ 31"
  shows "CustemorPEList_ByteSizeLong m = length (CustemorPEList_InternalSerialize m)"
proof -
  let ?w = "concat (map (\<lambda>x. WriteMessage 5 (CustemorInfo_ByteSizeLong x) (CustemorInfo_InternalSerialize x)) (CustemorPEList_cpe_list m))"
  have w: "length ?w < 2 ^ 31" using assms by (simp add: CustemorPEList_InternalSerialize_def)
  note r = codec_CustemorInfo.repeated_size [OF w WriteTag_42]
  have "length (CustemorPEList_edge_id m) < 2 ^ 32" "length (CustemorPEList_edge_ip m) < 2 ^ 32"
    using assms length_WriteBytes_ge [of _ _, THEN order.strict_trans1]
    by (auto simp: CustemorPEList_InternalSerialize_def WriteBytes_def split: if_splits)
  then show ?thesis
    by (simp add: CustemorPEList_InternalSerialize_def wire_simps flip: r del: CustemorInfo_ByteSizeLong.simps length_concat One_nat_def)
qed

lemma CustemorPEList_reads:
  assumes "CustemorPEList_known m" "length (CustemorPEList_InternalSerialize m) < 2 ^ 31"
  shows "reads CustemorPEList_InternalParse (CustemorPEList_InternalSerialize m) CustemorPEList_default m (int 1)"
proof -
  have u: "unknown_fields m = []" using assms(1) by (simp add: CustemorPEList_known_def)
  let ?w = "concat (map (\<lambda>x. WriteMessage 5 (CustemorInfo_ByteSizeLong x) (CustemorInfo_InternalSerialize x)) (CustemorPEList_cpe_list m))"
  have w: "length ?w < 2 ^ 31" using assms(2) by (simp add: CustemorPEList_InternalSerialize_def)
  have e: "reads CustemorInfo_InternalParse (CustemorInfo_InternalSerialize x) CustemorInfo_default x (int 0)"
    if "x \<in> set (CustemorPEList_cpe_list m)" for x
    using assms(1) that by (intro codec_CustemorInfo.parse_serialize codec_CustemorInfo.element_short [OF w that]) (simp add: CustemorPEList_known_def)
  have "eats CustemorPEList_switch data d CustemorPEList_default (CustemorPEList_InternalSerialize m) m" if "int 1 \<le> d" for data d
    unfolding CustemorPEList_InternalSerialize_def u codec_CustemorInfo.repeated_written [OF w WriteTag_42] append_Nil2
    by (rule eats_bytes, rule CustemorPEList_switch_tags, simp add: CustemorPEList_default_def,
        rule eats_bytes, rule CustemorPEList_switch_tags, simp add: CustemorPEList_default_def,
        rule eats_int32, rule CustemorPEList_switch_tags, simp add: CustemorPEList_default_def,
        rule eats_int32, rule CustemorPEList_switch_tags, simp add: CustemorPEList_default_def,
        rule eats_repeated, rule CustemorPEList_switch_tags, rule WriteTag_42, simp, simp, simp, erule e,
        use that in simp, simp, rule CustemorPEList.equality, simp_all add: CustemorPEList_default_def u)
  then show ?thesis
    unfolding CustemorPEList_InternalParse_def [abs_def] by (intro reads_eats)
qed

interpretation codec_CustemorPEList: message_codec CustemorPEList_InternalParse CustemorPEList_InternalSerialize CustemorPEList_ByteSizeLong CustemorPEList_default
    CustemorPEList_MergeFrom CustemorPEList_known 1
  by unfold_locales (assumption | rule CustemorPEList_reads CustemorPEList_size CustemorPEList_MergeFrom_default CustemorPEList_advances | simp)+

section \<open>UserListOnEdge\<close>

record UserListOnEdge = message_lite +
  UserListOnEdge_edge_list :: "CustemorPEList list"

definition UserListOnEdge_default :: UserListOnEdge where
  "UserListOnEdge_default = \<lparr>unknown_fields = [], UserListOnEdge_edge_list = []\<rparr>"

definition UserListOnEdge_Clear :: "UserListOnEdge \<Rightarrow> UserListOnEdge" where
  "UserListOnEdge_Clear m = m\<lparr>UserListOnEdge_edge_list := [], unknown_fields := []\<rparr>"

definition UserListOnEdge_switch :: "UserListOnEdge field_switch" where
  "UserListOnEdge_switch k data tag m ptr c =
     (let number = drop_bit 3 tag; low = (ucast tag :: byte) in
      if number = 1 \<and> low = 10
      then repeated_field CustemorPEList_InternalParse CustemorPEList_default 10 UserListOnEdge_edge_list
         (\<lambda>v m. m\<lparr>UserListOnEdge_edge_list := v\<rparr>) k data m ptr c
      else Unusual)"

definition UserListOnEdge_InternalParse :: "nat \<Rightarrow> bytes \<Rightarrow> UserListOnEdge \<Rightarrow> nat \<Rightarrow> ctx \<Rightarrow> UserListOnEdge parsed" where
  "UserListOnEdge_InternalParse k data m ptr c = InternalParse UserListOnEdge_switch k data m ptr c"

fun UserListOnEdge_ByteSizeLong :: "UserListOnEdge \<Rightarrow> nat" where
  "UserListOnEdge_ByteSizeLong m =
     1 * length (UserListOnEdge_edge_list m) + sum_list (map (\<lambda>x. LengthDelimitedSize (CustemorPEList_ByteSizeLong x)) (UserListOnEdge_edge_list m)) +
     length (unknown_fields m)"

definition UserListOnEdge_InternalSerialize :: "UserListOnEdge \<Rightarrow> bytes" where
  "UserListOnEdge_InternalSerialize m =
     concat (map (\<lambda>x. WriteMessage 1 (CustemorPEList_ByteSizeLong x) (CustemorPEList_InternalSerialize x)) (UserListOnEdge_edge_list m)) @
     unknown_fields m"

definition UserListOnEdge_MergeFrom :: "UserListOnEdge \<Rightarrow> UserListOnEdge \<Rightarrow> UserListOnEdge" where
  "UserListOnEdge_MergeFrom from this = this\<lparr>
     UserListOnEdge_edge_list := UserListOnEdge_edge_list this @ UserListOnEdge_edge_list from,
     unknown_fields := unknown_fields this @ unknown_fields from\<rparr>"

definition UserListOnEdge_CopyFrom :: "bool \<Rightarrow> UserListOnEdge \<Rightarrow> UserListOnEdge \<Rightarrow> UserListOnEdge" where
  "UserListOnEdge_CopyFrom same from this = (if same then this else UserListOnEdge_MergeFrom from (UserListOnEdge_Clear this))"

definition UserListOnEdge_copy :: "UserListOnEdge \<Rightarrow> UserListOnEdge" where
  "UserListOnEdge_copy from = UserListOnEdge_default\<lparr>
     UserListOnEdge_edge_list := map (\<lambda>e. CustemorPEList_MergeFrom e CustemorPEList_default) (UserListOnEdge_edge_list from),
     unknown_fields := unknown_fields from\<rparr>"

definition UserListOnEdge_InternalSwap :: "UserListOnEdge \<Rightarrow> UserListOnEdge \<Rightarrow> UserListOnEdge \<times> UserListOnEdge" where
  "UserListOnEdge_InternalSwap this other =
     (this\<lparr>unknown_fields := unknown_fields other,
       UserListOnEdge_edge_list := UserListOnEdge_edge_list other\<rparr>,
      other\<lparr>unknown_fields := unknown_fields this,
       UserListOnEdge_edge_list := UserListOnEdge_edge_list this\<rparr>)"

definition UserListOnEdge_known :: "UserListOnEdge \<Rightarrow> bool" where
  "UserListOnEdge_known m \<longleftrightarrow> unknown_fields m = [] \<and> (\<forall>x\<in>set (UserListOnEdge_edge_list m). CustemorPEList_known x)"

lemma UserListOnEdge_Clear_default: "UserListOnEdge_Clear m = UserListOnEdge_default"
  by (simp add: UserListOnEdge_Clear_def UserListOnEdge_default_def)

lemma UserListOnEdge_swap: "UserListOnEdge_InternalSwap a b = (b, a)"
  by (simp add: UserListOnEdge_InternalSwap_def)

lemma UserListOnEdge_MergeFrom_default: "UserListOnEdge_MergeFrom m UserListOnEdge_default = m"
  by (cases m) (simp add: UserListOnEdge_MergeFrom_def UserListOnEdge_default_def)

lemma UserListOnEdge_copy_same: "UserListOnEdge_copy m = m"
  by (cases m) (simp add: UserListOnEdge_copy_def UserListOnEdge_default_def CustemorPEList_MergeFrom_default)

lemma UserListOnEdge_switch_tags:
  "UserListOnEdge_switch k data (MakeTag 1 2) m ptr c =
     repeated_field CustemorPEList_InternalParse CustemorPEList_default 10 UserListOnEdge_edge_list
         (\<lambda>v m. m\<lparr>UserListOnEdge_edge_list := v\<rparr>) k data m ptr c"
  by (simp_all add: UserListOnEdge_switch_def MakeTag_def)

lemma UserListOnEdge_switch_ok: "switch_ok 2 UserListOnEdge_switch"
proof (rule switch_okI)
  fix k data tag p c and m :: UserListOnEdge
  assume c: "ctx_ok data c" and k: "length data - p + 2 < k"
  have "handled_ok data p (repeated_field CustemorPEList_InternalParse CustemorPEList_default 10 UserListOnEdge_edge_list
         (\<lambda>v m. m\<lparr>UserListOnEdge_edge_list := v\<rparr>) k data m p c)"
    by (rule handled_ok_repeated [where n = 1]) (use c k in \<open>auto intro: CustemorPEList_advances\<close>)
  with c show "handled_ok data p (UserListOnEdge_switch k data tag m p c)"
    by (simp add: UserListOnEdge_switch_def Let_def handled_ok_fields)
qed

lemma UserListOnEdge_advances:
  "ctx_ok data c \<Longrightarrow> length data - p + 2 < k \<Longrightarrow> advances data p (UserListOnEdge_InternalParse k data m p c)"
  unfolding UserListOnEdge_InternalParse_def by (rule InternalParse_advances [OF UserListOnEdge_switch_ok])

lemma UserListOnEdge_size:
  assumes "length (UserListOnEdge_InternalSerialize m) < 2 ^ 31"
  shows "UserListOnEdge_ByteSizeLong m = length (UserListOnEdge_InternalSerialize m)"
proof -
  let ?w = "concat (map (\<lambda>x. WriteMessage 1 (CustemorPEList_ByteSizeLong x) (CustemorPEList_InternalSerialize x)) (UserListOnEdge_edge_list m))"
  have w: "length ?w < 2 ^ 31" using assms by (simp add: UserListOnEdge_InternalSerialize_def)
  note r = codec_CustemorPEList.repeated_size [OF w WriteTag_10]
  show ?thesis
    by (simp add: UserListOnEdge_InternalSerialize_def flip: r del: CustemorPEList_ByteSizeLong.simps length_concat One_nat_def)
qed

lemma UserListOnEdge_reads:
  assumes "UserListOnEdge_known m" "length (UserListOnEdge_InternalSerialize m) < 2 ^ 31"
  shows "reads UserListOnEdge_InternalParse (UserListOnEdge_InternalSerialize m) UserListOnEdge_default m (int 2)"
proof -
  have u: "unknown_fields m = []" using assms(1) by (simp add: UserListOnEdge_known_def)
  let ?w = "concat (map (\<lambda>x. WriteMessage 1 (CustemorPEList_ByteSizeLong x) (CustemorPEList_InternalSerialize x)) (UserListOnEdge_edge_list m))"
  have w: "length ?w < 2 ^ 31" using assms(2) by (simp add: UserListOnEdge_InternalSerialize_def)
  have e: "reads CustemorPEList_InternalParse (CustemorPEList_InternalSerialize x) CustemorPEList_default x (int 1)"
    if "x \<in> set (UserListOnEdge_edge_list m)" for x
    using assms(1) that by (intro codec_CustemorPEList.parse_serialize codec_CustemorPEList.element_short [OF w that]) (simp add: UserListOnEdge_known_def)
  have "eats UserListOnEdge_switch data d UserListOnEdge_default (UserListOnEdge_InternalSerialize m) m" if "int 2 \<le> d" for data d
    unfolding UserListOnEdge_InternalSerialize_def u codec_CustemorPEList.repeated_written [OF w WriteTag_10] append_Nil2
    by (rule eats_repeated, rule UserListOnEdge_switch_tags, rule WriteTag_10, simp, simp, simp, erule e,
        use that in simp, simp, rule UserListOnEdge.equality, simp_all add: UserListOnEdge_default_def u)
  then show ?thesis
    unfolding UserListOnEdge_InternalParse_def [abs_def] by (intro reads_eats)
qed

interpretation codec_UserListOnEdge: message_codec UserListOnEdge_InternalParse UserListOnEdge_InternalSerialize UserListOnEdge_ByteSizeLong UserListOnEdge_default
    UserListOnEdge_MergeFrom UserListOnEdge_known 2
  by unfold_locales (assumption | rule UserListOnEdge_reads UserListOnEdge_size UserListOnEdge_MergeFrom_default UserListOnEdge_advances | simp)+

section \<open>The messages of the server\<close>

text \<open>The fuel the server's calls of \<open>ParseFromString\<close> carry: one unit per byte and three more.\<close>

definition parse_fuel :: "bytes \<Rightarrow> nat" where
  "parse_fuel data = length data + 3"

definition NodeInfoList_ParseFromString :: "bytes \<Rightarrow> (NodeInfoList \<times> bool) option" where
  "NodeInfoList_ParseFromString data =
     ParseFromString (NodeInfoList_InternalParse (parse_fuel data) data) NodeInfoList_default data"

definition CpeNodeChangeNotify_ParseFromString :: "bytes \<Rightarrow> (CpeNodeChangeNotify \<times> bool) option" where
  "CpeNodeChangeNotify_ParseFromString data =
     ParseFromString (CpeNodeChangeNotify_InternalParse (parse_fuel data) data) CpeNodeChangeNotify_default data"

definition KeepAliveRes_ParseFromString :: "bytes \<Rightarrow> (KeepAliveRes \<times> bool) option" where
  "KeepAliveRes_ParseFromString data =
     ParseFromString (KeepAliveRes_InternalParse (parse_fuel data) data) KeepAliveRes_default data"

definition UserListOnEdge_ParseFromString :: "bytes \<Rightarrow> (UserListOnEdge \<times> bool) option" where
  "UserListOnEdge_ParseFromString data =
     ParseFromString (UserListOnEdge_InternalParse (parse_fuel data) data) UserListOnEdge_default data"

text \<open>
  Property C5: Parsing comes to an end on every input: whatever bytes a peer sends, the parsers of
  the four messages the server reads return, with a message and a verdict.
\<close>

theorem server_parsers_return:
  "NodeInfoList_ParseFromString data \<noteq> None \<and> CpeNodeChangeNotify_ParseFromString data \<noteq> None \<and>
   KeepAliveRes_ParseFromString data \<noteq> None \<and> UserListOnEdge_ParseFromString data \<noteq> None"
  unfolding NodeInfoList_ParseFromString_def CpeNodeChangeNotify_ParseFromString_def
    KeepAliveRes_ParseFromString_def UserListOnEdge_ParseFromString_def
  by (intro conjI codec_NodeInfoList.always_parses codec_CpeNodeChangeNotify.always_parses
      codec_KeepAliveRes.always_parses codec_UserListOnEdge.always_parses) (simp_all add: parse_fuel_def)

text \<open>What a class reads back, with the server's fuel.\<close>

lemma NodeInfoList_reads_back:
  "NodeInfoList_known m \<Longrightarrow> length (NodeInfoList_InternalSerialize m) \<le> 0x7FFFFFEF \<Longrightarrow>
   NodeInfoList_ParseFromString (NodeInfoList_InternalSerialize m) = Some (m, True)"
  unfolding NodeInfoList_ParseFromString_def
  by (rule codec_NodeInfoList.roundtrip) (simp_all add: parse_fuel_def)

lemma UserListOnEdge_reads_back:
  "UserListOnEdge_known m \<Longrightarrow> length (UserListOnEdge_InternalSerialize m) \<le> 0x7FFFFFEF \<Longrightarrow>
   UserListOnEdge_ParseFromString (UserListOnEdge_InternalSerialize m) = Some (m, True)"
  unfolding UserListOnEdge_ParseFromString_def
  by (rule codec_UserListOnEdge.roundtrip) (simp_all add: parse_fuel_def)

lemma CpeNodeChangeNotify_reads_back:
  "CpeNodeChangeNotify_known m \<Longrightarrow> length (CpeNodeChangeNotify_InternalSerialize m) \<le> 0x7FFFFFEF \<Longrightarrow>
   CpeNodeChangeNotify_ParseFromString (CpeNodeChangeNotify_InternalSerialize m) = Some (m, True)"
  unfolding CpeNodeChangeNotify_ParseFromString_def
  by (rule codec_CpeNodeChangeNotify.roundtrip) (simp_all add: parse_fuel_def)

lemma KeepAliveRes_reads_back:
  "KeepAliveRes_known m \<Longrightarrow> length (KeepAliveRes_InternalSerialize m) \<le> 0x7FFFFFEF \<Longrightarrow>
   KeepAliveRes_ParseFromString (KeepAliveRes_InternalSerialize m) = Some (m, True)"
  unfolding KeepAliveRes_ParseFromString_def
  by (rule codec_KeepAliveRes.roundtrip) (simp_all add: parse_fuel_def)

text \<open>
  Property C7: A mesh description of any size below the limit of the format is read back from
  what the generated code writes for it, node by node and field by field; negative numbers, which
  take ten bytes, included.
\<close>

theorem NodeInfoList_roundtrip:
  assumes "NodeInfoList_known m" "length (NodeInfoList_InternalSerialize m) \<le> 0x7FFFFFEF"
  shows "NodeInfoList_ParseFromString (NodeInfoList_InternalSerialize m) = Some (m, True) \<and>
    NodeInfoList_ByteSizeLong m = length (NodeInfoList_InternalSerialize m)"
proof -
  have "length (NodeInfoList_InternalSerialize m) < 2 ^ 31" using assms(2) by simp
  then show ?thesis using NodeInfoList_reads_back [OF assms] codec_NodeInfoList.size_serialize by blast
qed

definition example_mesh :: NodeInfoList where
  "example_mesh = NodeInfoList_default\<lparr>NodeInfoList_cpe_list :=
     [NetInfo_default\<lparr>NetInfo_node_id := 300, NetInfo_virtual_ip := [49]\<rparr>, NetInfo_default]\<rparr>"

lemma example_mesh_bytes:
  "NodeInfoList_InternalSerialize example_mesh =
     [10, 6, 8, 172, 2, 18, 1, 49, 10, 0]"
  by code_simp

theorem NodeInfoList_roundtrip_witness:
  "NodeInfoList_ParseFromString
     [10, 6, 8, 172, 2, 18, 1, 49, 10, 0] = Some (example_mesh, True)"
proof -
  have "NodeInfoList_known example_mesh"
    by (simp add: NodeInfoList_known_def NetInfo_known_def example_mesh_def NodeInfoList_default_def NetInfo_default_def)
  from NodeInfoList_roundtrip [OF this] show ?thesis by (simp add: example_mesh_bytes)
qed

text \<open>
  A list of online nodes, three levels deep, is read back from what the generated
  code writes for it.
\<close>

theorem UserListOnEdge_roundtrip:
  assumes "UserListOnEdge_known m" "length (UserListOnEdge_InternalSerialize m) \<le> 0x7FFFFFEF"
  shows "UserListOnEdge_ParseFromString (UserListOnEdge_InternalSerialize m) = Some (m, True)"
  using assms by (rule UserListOnEdge_reads_back)

definition example_users :: UserListOnEdge where
  "example_users = UserListOnEdge_default\<lparr>UserListOnEdge_edge_list :=
     [CustemorPEList_default\<lparr>CustemorPEList_edge_port := 300, CustemorPEList_cpe_list :=
        [CustemorInfo_default\<lparr>CustemorInfo_cpe_id := [55]\<rparr>]\<rparr>]\<rparr>"

lemma example_users_bytes:
  "UserListOnEdge_InternalSerialize example_users = [10, 8, 24, 172, 2, 42, 3, 10, 1, 55]"
  by code_simp

theorem UserListOnEdge_roundtrip_witness:
  "UserListOnEdge_ParseFromString [10, 8, 24, 172, 2, 42, 3, 10, 1, 55] = Some (example_users, True)"
proof -
  have "UserListOnEdge_known example_users"
    by (simp add: UserListOnEdge_known_def CustemorPEList_known_def CustemorInfo_known_def example_users_def
        UserListOnEdge_default_def CustemorPEList_default_def CustemorInfo_default_def)
  from UserListOnEdge_roundtrip [OF this] show ?thesis by (simp add: example_users_bytes)
qed

text \<open>
  Two messages of one class without unknown fields that are written alike are equal:
  the encoding loses nothing.
\<close>

theorem mesh_encoding_inj:
  assumes "NodeInfoList_known a" "NodeInfoList_known b"
    and "NodeInfoList_InternalSerialize a = NodeInfoList_InternalSerialize b"
    and "length (NodeInfoList_InternalSerialize a) \<le> 0x7FFFFFEF"
  shows "a = b"
  using assms by (rule codec_NodeInfoList.serialize_inj)

theorem mesh_encoding_inj_witness:
  "NodeInfoList_InternalSerialize NodeInfoList_default \<noteq> NodeInfoList_InternalSerialize example_mesh"
proof
  assume e: "NodeInfoList_InternalSerialize NodeInfoList_default = NodeInfoList_InternalSerialize example_mesh"
  have "NodeInfoList_default = example_mesh"
    by (rule mesh_encoding_inj [OF _ _ e])
      (simp_all add: NodeInfoList_known_def NetInfo_known_def example_mesh_def NodeInfoList_default_def
        NetInfo_default_def NodeInfoList_InternalSerialize_def)
  then show False by (simp add: example_mesh_def NodeInfoList_default_def)
qed

end
