(* ===== verification/Session.thy ===== *)
theory Session
  imports Routing Messages
begin

text \<open>
  The session messages of \<open>main/server.cpp\<close>: the framing check and the dispatch on the message
  type, the update of the mesh from a change notification, the update of the online nodes from a
  keep-alive answer, and the signal handler. The theorems follow the routing table, its cache and
  the kernel's routes through any sequence of packets and messages. Signals are no part of these
  runs: the program defines \<open>on_signal\<close>, but the lines that would register it are commented out.
\<close>

section \<open>Handlers\<close>

text \<open>The message types of \<open>server.h\<close>.\<close>

datatype MESSAGETYPE =
    MESSAGE_ROUTE | MESSAGE_LOGIN_TCP | MESSAGE_LOGIN_TCP_RES | MESSAGE_LOGIN_UDP
  | MESSAGE_LOGIN_UDP_RES | MESSAGE_KEEPALIVE_TCP | MESSAGE_KEEPALIVE_TCP_RES
  | MESSAGE_KEEPALIVE_UDP | MESSAGE_KEEPALIVE_UDP_RES | MESSAGE_CPE_CHANGE_NOTIFY

fun message_code :: "MESSAGETYPE \<Rightarrow> u16" where
  "message_code MESSAGE_ROUTE = 0"
| "message_code MESSAGE_LOGIN_TCP = 1"
| "message_code MESSAGE_LOGIN_TCP_RES = 2"
| "message_code MESSAGE_LOGIN_UDP = 3"
| "message_code MESSAGE_LOGIN_UDP_RES = 4"
| "message_code MESSAGE_KEEPALIVE_TCP = 5"
| "message_code MESSAGE_KEEPALIVE_TCP_RES = 6"
| "message_code MESSAGE_KEEPALIVE_UDP = 7"
| "message_code MESSAGE_KEEPALIVE_UDP_RES = 8"
| "message_code MESSAGE_CPE_CHANGE_NOTIFY = 18"

text \<open>A node of the notification; entries whose subnet is \<open>0.0.0.0\<close> are left out.\<close>

definition mesh_entry :: "NetInfo \<Rightarrow> NodeInfo" where
  "mesh_entry info =
     \<lparr>nodeID = NetInfo_node_id info, virtualIP = NetInfo_virtual_ip info,
      subNet = NetInfo_subnet_ip_start info, ni_netMask = NetInfo_net_mask info,
      ni_macAddr = NetInfo_mac_addr info\<rparr>"

fun mesh_entries :: "NetInfo list \<Rightarrow> NodeInfo list" where
  "mesh_entries [] = []"
| "mesh_entries (info # infos) =
     (if NetInfo_subnet_ip_start info = str ''0.0.0.0'' then mesh_entries infos
      else mesh_entry info # mesh_entries infos)"

text \<open>
  \<open>handle_mesh_notify\<close>. The parser always returns (\<open>server_parsers_return\<close>), so the first case of
  each handler below does not occur.
\<close>

definition handle_mesh_notify :: "bytes \<Rightarrow> server \<Rightarrow> server run" where
  "handle_mesh_notify cpes_info st =
     (if cpes_info = [] then Goes st []
      else case NodeInfoList_ParseFromString cpes_info of
        None \<Rightarrow> Goes st []
      | Some (cpes_info_list, ok) \<Rightarrow>
          if \<not> ok then Goes st []
          else
            (let config' = (m_config st)\<lparr>nodeInfoList := mesh_entries (NodeInfoList_cpe_list cpes_info_list)\<rparr>;
                 st1 = st\<lparr>m_ip2nodeid_cache := Map.empty, m_config := config'\<rparr>;
                 st2 = init_mesh_cpes st1
             in Goes st2 (del_route_for_nodes st1 @ add_route_for_nodes st2)))"

text \<open>
  \<open>handle_online_cpes_notify\<close>: the verdict of the parser is not looked at, what was parsed before
  an error is used.
\<close>

definition online_node :: "CustemorInfo \<Rightarrow> cpeNode" where
  "online_node cpe_info =
     \<lparr>node_ID = atoi (c_str (CustemorInfo_cpe_id cpe_info)), node_rea1_IP = None,
      node_virtual_IP = htonl (inet_addr (c_str (CustemorInfo_cpe_ip cpe_info))),
      node_subnet_IP_low = Some 0, node_subnet_IP_high = Some 0,
      node_subnet = [], node_mac_addr = []\<rparr>"

definition handle_online_cpes_notify :: "bytes \<Rightarrow> server \<Rightarrow> server" where
  "handle_online_cpes_notify cpes_info st =
     (case UserListOnEdge_ParseFromString cpes_info of
        None \<Rightarrow> st
      | Some (edgeListMsg, ok) \<Rightarrow>
          st\<lparr>m_cpes := concat (map (\<lambda>edgeInfoMsg. map online_node (CustemorPEList_cpe_list edgeInfoMsg))
               (UserListOnEdge_edge_list edgeListMsg))\<rparr>)"

text \<open>
  \<open>handle_session_data_recv\<close>: two bytes of length, two of type, then the message; the length must
  be that of the message. \<open>len\<close> is the size of the buffer as a 16-bit number.
\<close>

definition handle_session_data_recv :: "bytes \<Rightarrow> u16 \<Rightarrow> server \<Rightarrow> server run" where
  "handle_session_data_recv data len st =
     (if len \<le> 4 then Goes st []
      else
        let pack_len = load_le (take 2 data) :: u16;
            pack_uri = load_le (take 2 (drop 2 data)) :: u16;
            buff = take (unat len - 4) (drop 4 data)
        in if unat len \<noteq> unat pack_len + 4 then Goes st []
           else if pack_uri = message_code MESSAGE_CPE_CHANGE_NOTIFY then
             (case CpeNodeChangeNotify_ParseFromString buff of
                None \<Rightarrow> Goes st []
              | Some (notify, ok) \<Rightarrow>
                  if \<not> ok then Goes st []
                  else handle_mesh_notify (CpeNodeChangeNotify_data notify) st)
           else if pack_uri = message_code MESSAGE_KEEPALIVE_TCP_RES \<or>
                   pack_uri = message_code MESSAGE_KEEPALIVE_UDP_RES then
             (case KeepAliveRes_ParseFromString buff of
                None \<Rightarrow> Goes st []
              | Some (pong, ok) \<Rightarrow>
                  if \<not> ok then Goes st []
                  else if KeepAliveRes_meta pong = [] then Goes st []
                  else Goes (handle_online_cpes_notify (KeepAliveRes_meta pong) st) [])
           else Goes st [])"

text \<open>
  \<open>on_signal\<close>. The signals that end the process run the down command first. \<open>SIGUSR1\<close> (10)
  reloads the configuration, \<open>SIGUSR2\<close> (12) writes the mesh table to a file; \<open>now\<close> is the time
  stamp of its first line. Nothing calls it: its registration in the constructor is commented out.
\<close>

definition mesh_report :: "bytes \<Rightarrow> server \<Rightarrow> bytes" where
  "mesh_report now st =
     now @ str ''print cpe node mesh info, mesh node num:'' @ dec_digits (length (m_cpes st)) @ [10] @
     concat (map (\<lambda>node. str ''[cpes-mesh-info] id:'' @ dec_digits (unat (node_ID node)) @ str '' ip:'' @
       ValueToIP (node_virtual_IP node) @ str '' mac-addr:'' @ hexMacAddr (node_mac_addr node) @ [10]) (m_cpes st)) @
     [10, 10]"

definition on_signal :: "('c, 's) libconfig \<Rightarrow> bytes \<Rightarrow> nat \<Rightarrow> server \<Rightarrow> server run" where
  "on_signal lib now signum st =
     (if signum \<in> {2, 3, 4, 5, 7, 8, 11, 15, 20, 14, 13, 25, 24, 31} then Stops Abort (exec_down_cmd st)
      else if signum = 10 then
        run_then (reload lib (m_config st)) (\<lambda>config'.
          let st' = st\<lparr>m_config := config'\<rparr> in Goes st' (del_route_for_nodes st'))
      else if signum = 12 then Goes st [WriteFile (c_str (meshFile (m_config st))) (mesh_report now st)]
      else Goes st [])"

section \<open>Framing of session messages\<close>

text \<open>The frame of a message, as the sender must build it.\<close>

definition session_frame :: "MESSAGETYPE \<Rightarrow> bytes \<Rightarrow> bytes" where
  "session_frame t body = le16_bytes (word_of_nat (length body)) @ le16_bytes (message_code t) @ body"

lemma message_code_inj: "message_code a = message_code b \<longleftrightarrow> a = b"
  by (cases a; cases b) simp_all

lemma session_frame_parts:
  fixes t :: MESSAGETYPE
  assumes "body \<noteq> []" "length body < 2 ^ 16 - 4"
  defines "len \<equiv> (word_of_nat (length body + 4) :: u16)"
  shows "\<not> len \<le> 4" "unat len = length body + 4" "load_le (take 2 (session_frame t body)) = (word_of_nat (length body) :: u16)"
    "unat (word_of_nat (length body) :: u16) = length body"
    "load_le (take 2 (drop 2 (session_frame t body))) = message_code t"
    "take (unat len - 4) (drop 4 (session_frame t body)) = body"
proof -
  show u: "unat len = length body + 4"
    using assms(2) unfolding len_def by (subst unsigned_of_nat) (simp add: take_bit_nat_eq_self)
  then show "\<not> len \<le> 4" using assms(1) by (simp add: word_le_nat_alt)
  show "unat (word_of_nat (length body) :: u16) = length body"
    using assms(2) by (subst unsigned_of_nat) (simp add: take_bit_nat_eq_self)
  show "take (unat len - 4) (drop 4 (session_frame t body)) = body"
    unfolding u by (simp add: session_frame_def)
qed (simp_all add: session_frame_def)

text \<open>What a well-framed message does.\<close>

lemma handle_framed:
  assumes "body \<noteq> []" "length body < 2 ^ 16 - 4"
  shows "handle_session_data_recv (session_frame t body) (word_of_nat (length body + 4)) st =
    (case t of
       MESSAGE_CPE_CHANGE_NOTIFY \<Rightarrow>
         (case CpeNodeChangeNotify_ParseFromString body of
            None \<Rightarrow> Goes st []
          | Some (notify, ok) \<Rightarrow>
              if ok then handle_mesh_notify (CpeNodeChangeNotify_data notify) st else Goes st [])
     | MESSAGE_KEEPALIVE_TCP_RES \<Rightarrow>
         (case KeepAliveRes_ParseFromString body of
            None \<Rightarrow> Goes st []
          | Some (pong, ok) \<Rightarrow>
              if ok \<and> KeepAliveRes_meta pong \<noteq> []
              then Goes (handle_online_cpes_notify (KeepAliveRes_meta pong) st) [] else Goes st [])
     | MESSAGE_KEEPALIVE_UDP_RES \<Rightarrow>
         (case KeepAliveRes_ParseFromString body of
            None \<Rightarrow> Goes st []
          | Some (pong, ok) \<Rightarrow>
              if ok \<and> KeepAliveRes_meta pong \<noteq> []
              then Goes (handle_online_cpes_notify (KeepAliveRes_meta pong) st) [] else Goes st [])
     | _ \<Rightarrow> Goes st [])"
  unfolding handle_session_data_recv_def Let_def
  using session_frame_parts [OF assms]
  by (cases t) (simp_all del: One_nat_def of_nat_add split: option.split)

text \<open>
  What a message can do to the server: nothing, a new mesh with the routes exchanged, or a new
  list of online nodes.
\<close>

definition with_mesh :: "NodeInfo list \<Rightarrow> server \<Rightarrow> server" where
  "with_mesh nodes st =
     init_mesh_cpes (st\<lparr>m_ip2nodeid_cache := Map.empty, m_config := (m_config st)\<lparr>nodeInfoList := nodes\<rparr>\<rparr>)"

lemma del_route_other_mesh:
  "del_route_for_nodes (st\<lparr>m_ip2nodeid_cache := c, m_config := cfg\<rparr>) = del_route_for_nodes st"
  by (simp add: del_route_for_nodes_def)

lemma handle_mesh_notify_parsed:
  "info \<noteq> [] \<Longrightarrow> NodeInfoList_ParseFromString info = Some (infos, True) \<Longrightarrow>
   handle_mesh_notify info st =
     (let st' = with_mesh (mesh_entries (NodeInfoList_cpe_list infos)) st
      in Goes st' (del_route_for_nodes st @ add_route_for_nodes st'))"
  by (simp add: handle_mesh_notify_def with_mesh_def Let_def del_route_other_mesh)

lemma handle_mesh_notify_cases:
  obtains "handle_mesh_notify info st = Goes st []"
  | nodes where "handle_mesh_notify info st =
      Goes (with_mesh nodes st) (del_route_for_nodes st @ add_route_for_nodes (with_mesh nodes st))"
proof (cases "info = []")
  case True
  then show ?thesis using that(1) by (simp add: handle_mesh_notify_def)
next
  case False
  show ?thesis
  proof (cases "\<exists>infos. NodeInfoList_ParseFromString info = Some (infos, True)")
    case True
    then show ?thesis using that(2) handle_mesh_notify_parsed [OF False] by (metis (no_types, lifting))
  next
    case nonparsed: False
    then have "handle_mesh_notify info st = Goes st []"
      using False by (auto simp: handle_mesh_notify_def split: option.split)
    then show ?thesis by (rule that(1))
  qed
qed

text \<open>The messages that replace the table by the online nodes.\<close>

definition online_answer :: "bytes \<Rightarrow> u16 \<Rightarrow> bool" where
  "online_answer data len \<longleftrightarrow>
     \<not> len \<le> 4 \<and> unat len = unat (load_le (take 2 data) :: u16) + 4 \<and>
     (load_le (take 2 (drop 2 data)) :: u16) \<in>
       {message_code MESSAGE_KEEPALIVE_TCP_RES, message_code MESSAGE_KEEPALIVE_UDP_RES}"

lemma handle_session_cases:
  obtains "handle_session_data_recv data len st = Goes st []"
  | nodes where "handle_session_data_recv data len st =
      Goes (with_mesh nodes st) (del_route_for_nodes st @ add_route_for_nodes (with_mesh nodes st))"
  | info where "online_answer data len"
      "handle_session_data_recv data len st = Goes (handle_online_cpes_notify info st) []"
proof -
  let ?buff = "take (unat len - 4) (drop 4 data)"
  consider "len \<le> 4 \<or> unat len \<noteq> unat (load_le (take 2 data) :: u16) + 4"
    | "\<not> len \<le> 4" "unat len = unat (load_le (take 2 data) :: u16) + 4"
      "(load_le (take 2 (drop 2 data)) :: u16) = message_code MESSAGE_CPE_CHANGE_NOTIFY"
    | "online_answer data len"
    | "\<not> len \<le> 4" "unat len = unat (load_le (take 2 data) :: u16) + 4"
      "(load_le (take 2 (drop 2 data)) :: u16) \<notin> {message_code MESSAGE_CPE_CHANGE_NOTIFY,
         message_code MESSAGE_KEEPALIVE_TCP_RES, message_code MESSAGE_KEEPALIVE_UDP_RES}"
    unfolding online_answer_def by blast
  then show thesis
  proof cases
    case 1
    then show ?thesis using that(1) by (auto simp: handle_session_data_recv_def Let_def)
  next
    case 2
    show ?thesis
    proof (cases "\<exists>notify. CpeNodeChangeNotify_ParseFromString ?buff = Some (notify, True)")
      case True
      then obtain notify where "CpeNodeChangeNotify_ParseFromString ?buff = Some (notify, True)" by blast
      with 2 have h: "handle_session_data_recv data len st = handle_mesh_notify (CpeNodeChangeNotify_data notify) st"
        by (simp add: handle_session_data_recv_def Let_def)
      show ?thesis
        by (rule handle_mesh_notify_cases [of "CpeNodeChangeNotify_data notify" st]) (simp_all add: h that)
    next
      case False
      with 2 have "handle_session_data_recv data len st = Goes st []"
        by (auto simp: handle_session_data_recv_def Let_def split: option.split)
      then show ?thesis by (rule that(1))
    qed
  next
    case 3
    have "handle_session_data_recv data len st = Goes st [] \<or>
      (\<exists>info. handle_session_data_recv data len st = Goes (handle_online_cpes_notify info st) [])"
      using 3 by (auto simp: online_answer_def handle_session_data_recv_def Let_def split: option.split)
    then show ?thesis using 3 that by blast
  next
    case 4
    then show ?thesis using that(1) by (simp add: handle_session_data_recv_def Let_def)
  qed
qed

section \<open>The effect of one message\<close>

lemma with_mesh_frame [frame_simps]:
  "m_cpes (with_mesh nodes st) = map mesh_node nodes" "m_ip2nodeid_cache (with_mesh nodes st) = Map.empty"
  "m_config (with_mesh nodes st) = (m_config st)\<lparr>nodeInfoList := nodes\<rparr>"
  "m_gateway_id (with_mesh nodes st) = m_gateway_id st"
  "m_send_callback (with_mesh nodes st) = m_send_callback st"
  "m_tun_tap_dev_fd (with_mesh nodes st) = m_tun_tap_dev_fd st"
  "m_tun_tap_dev_name (with_mesh nodes st) = m_tun_tap_dev_name st"
  "m_node_id (with_mesh nodes st) = m_node_id st" "m_node (with_mesh nodes st) = m_node st"
  by (simp_all add: with_mesh_def init_mesh_cpes_def)

lemma online_frame [frame_simps]:
  "m_ip2nodeid_cache (handle_online_cpes_notify info st) = m_ip2nodeid_cache st"
  "m_config (handle_online_cpes_notify info st) = m_config st"
  "m_gateway_id (handle_online_cpes_notify info st) = m_gateway_id st"
  "m_send_callback (handle_online_cpes_notify info st) = m_send_callback st"
  "m_tun_tap_dev_fd (handle_online_cpes_notify info st) = m_tun_tap_dev_fd st"
  "m_tun_tap_dev_name (handle_online_cpes_notify info st) = m_tun_tap_dev_name st"
  "m_node_id (handle_online_cpes_notify info st) = m_node_id st"
  "m_node (handle_online_cpes_notify info st) = m_node st"
  by (simp_all add: handle_online_cpes_notify_def split: option.split)

text \<open>
  Property C11: A message whose length field does not match its size, or whose type is not one of the
  three the client handles, changes nothing, and no message stops the process.
\<close>

theorem session_messages_safe:
  "(\<exists>st' es. handle_session_data_recv data len st = Goes st' es) \<and>
   (len \<le> 4 \<or> unat len \<noteq> unat (load_le (take 2 data) :: u16) + 4 \<or>
    (load_le (take 2 (drop 2 data)) :: u16) \<notin> message_code `
      {MESSAGE_CPE_CHANGE_NOTIFY, MESSAGE_KEEPALIVE_TCP_RES, MESSAGE_KEEPALIVE_UDP_RES} \<longrightarrow>
    handle_session_data_recv data len st = Goes st [])"
proof
  show "\<exists>st' es. handle_session_data_recv data len st = Goes st' es"
    by (rule handle_session_cases [of data len st]) blast+
qed (auto simp: handle_session_data_recv_def Let_def)

theorem session_messages_safe_witness:
  "handle_session_data_recv [1, 0, 5, 0, 7] 5 (example_server []) = Goes (example_server []) [] \<and>
   handle_session_data_recv [9, 0, 18, 0, 7] 5 (example_server []) = Goes (example_server []) []"
  by (intro conjI; rule mp [OF conjunct2 [OF session_messages_safe]]) (simp_all add: image_iff)

text \<open>What the edge server sends when the mesh changes.\<close>

definition change_notify :: "NodeInfoList \<Rightarrow> bytes" where
  "change_notify infos = CpeNodeChangeNotify_InternalSerialize
     (CpeNodeChangeNotify_default\<lparr>CpeNodeChangeNotify_data := NodeInfoList_InternalSerialize infos\<rparr>)"

lemma change_notify_length:
  assumes "NodeInfoList_InternalSerialize infos \<noteq> []"
  shows "length (NodeInfoList_InternalSerialize infos) < length (change_notify infos)"
  using assms
  by (simp add: change_notify_def CpeNodeChangeNotify_InternalSerialize_def WriteBytes_def CpeNodeChangeNotify_default_def)

lemma change_notify_empty:
  "NodeInfoList_InternalSerialize infos = [] \<Longrightarrow> change_notify infos = []"
  by (simp add: change_notify_def CpeNodeChangeNotify_InternalSerialize_def CpeNodeChangeNotify_default_def)

text \<open>
  Property C4: A description of the mesh, serialised, wrapped in a change notification and framed, whose
  frame is shorter than 2^16 bytes (of longer ones the handler sees a wrong length and drops them),
  arrives: the table becomes the one it describes, without the entries of subnet \<open>0.0.0.0\<close>, the
  cache is emptied, and the server asks the kernel to delete the routes of the old table and then to
  add those of the new, with which the kernel's routes are exactly exchanged except for
  routes the kernel refused to add or delete. A description that is serialised to nothing, that of
  the empty mesh, changes nothing: the old table stays.
\<close>

theorem mesh_change_applied:
  assumes "NodeInfoList_known infos" "length (change_notify infos) < 2 ^ 16 - 4"
  shows "\<exists>st' es. handle_session_data_recv (session_frame MESSAGE_CPE_CHANGE_NOTIFY (change_notify infos))
      (word_of_nat (length (change_notify infos) + 4)) st = Goes st' es \<and>
    (if NodeInfoList_InternalSerialize infos = [] then st' = st \<and> es = []
     else m_cpes st' = map mesh_node (mesh_entries (NodeInfoList_cpe_list infos)) \<and>
       m_ip2nodeid_cache st' = Map.empty \<and>
       es = del_route_for_nodes st @ add_route_for_nodes st' \<and>
       (let K' = kernel_routes ok K es
        in k_table K' - k_unmet K' = ((k_table K - routes_of st) \<union> routes_of st') - k_unmet K'))"
proof (cases "NodeInfoList_InternalSerialize infos = []")
  case True
  then show ?thesis
    by (simp add: change_notify_empty handle_session_data_recv_def)
next
  case False
  let ?m = "CpeNodeChangeNotify_default\<lparr>CpeNodeChangeNotify_data := NodeInfoList_InternalSerialize infos\<rparr>"
  let ?st' = "with_mesh (mesh_entries (NodeInfoList_cpe_list infos)) st"
  note l = change_notify_length [OF False]
  have "CpeNodeChangeNotify_ParseFromString (change_notify infos) = Some (?m, True)"
    using assms(2) unfolding change_notify_def
    by (intro CpeNodeChangeNotify_reads_back)
       (simp_all add: CpeNodeChangeNotify_known_def CpeNodeChangeNotify_default_def)
  moreover have "NodeInfoList_ParseFromString (NodeInfoList_InternalSerialize infos) = Some (infos, True)"
    using assms(1,2) l by (intro NodeInfoList_reads_back) simp_all
  moreover have "change_notify infos \<noteq> []" using l by auto
  ultimately have "handle_session_data_recv (session_frame MESSAGE_CPE_CHANGE_NOTIFY (change_notify infos))
      (word_of_nat (length (change_notify infos) + 4)) st =
    Goes ?st' (del_route_for_nodes st @ add_route_for_nodes ?st')"
    using assms(2) False by (simp add: handle_framed handle_mesh_notify_parsed Let_def del: of_nat_add)
  moreover from table.exchange [OF refl, of ok K st ?st'] have
    "let K' = kernel_routes ok K (del_route_for_nodes st @ add_route_for_nodes ?st')
     in k_table K' - k_unmet K' = ((k_table K - routes_of st) \<union> routes_of ?st') - k_unmet K'"
    by (simp only: Let_def agree_off_def)
  ultimately show ?thesis using False
    by (intro exI [of _ ?st'] exI [of _ "del_route_for_nodes st @ add_route_for_nodes ?st'"])
       (simp add: with_mesh_frame)
qed

lemma example_change_bytes:
  "change_notify example_mesh = [18, 10, 10, 6, 8, 172, 2, 18, 1, 49, 10, 0]"
  unfolding change_notify_def example_mesh_bytes by code_simp

theorem mesh_change_applied_witness:
  "\<exists>st' es. handle_session_data_recv [12, 0, 18, 0, 18, 10, 10, 6, 8, 172, 2, 18, 1, 49, 10, 0] 16
      (example_server []) = Goes st' es \<and> map node_ID (m_cpes st') = [300, 0]"
proof -
  have f: "session_frame MESSAGE_CPE_CHANGE_NOTIFY (change_notify example_mesh) =
      [12, 0, 18, 0, 18, 10, 10, 6, 8, 172, 2, 18, 1, 49, 10, 0]"
    by (simp add: session_frame_def example_change_bytes le_bytes_def upt_rec)
  have k: "NodeInfoList_known example_mesh"
    by (simp add: NodeInfoList_known_def NetInfo_known_def example_mesh_def NodeInfoList_default_def NetInfo_default_def)
  have n: "map node_ID (map mesh_node (mesh_entries (NodeInfoList_cpe_list example_mesh))) = [300, 0]"
    by (simp add: example_mesh_def NodeInfoList_default_def NetInfo_default_def mesh_entry_def mesh_node_def Let_def)
  obtain st' es where h: "handle_session_data_recv (session_frame MESSAGE_CPE_CHANGE_NOTIFY (change_notify example_mesh))
      (word_of_nat (length (change_notify example_mesh) + 4)) (example_server []) = Goes st' es"
    "m_cpes st' = map mesh_node (mesh_entries (NodeInfoList_cpe_list example_mesh))"
    using mesh_change_applied [OF k, of "example_server []" "\<lambda>_. True" "({}, {})"]
    by (auto simp: example_change_bytes example_mesh_bytes)
  have "word_of_nat (length (change_notify example_mesh) + 4) = (16 :: u16)"
    by (simp add: example_change_bytes)
  with h n show ?thesis unfolding f by (intro exI [of _ st'] exI [of _ es]) (simp only: simp_thms)
qed

text \<open>
  An answer that lists the online nodes keeps the cache, so that an address found
  before keeps its old destination, whatever the new list says.
\<close>

theorem online_answer_keeps_cache:
  assumes "m_ip2nodeid_cache st ip = Some n" "onlyAcc (m_config st) \<noteq> 1"
  shows "getNodeIDFromIP (handle_online_cpes_notify info st) ip mac = n"
  using assms by (simp add: getNodeIDFromIP_def frame_simps)

theorem online_answer_keeps_cache_witness:
  "getNodeIDFromIP (handle_online_cpes_notify [] ((example_server [])\<lparr>m_ip2nodeid_cache := [7 \<mapsto> 3]\<rparr>)) 7 no_mac = 3 \<and>
   m_cpes (handle_online_cpes_notify [] ((example_server [])\<lparr>m_ip2nodeid_cache := [7 \<mapsto> 3]\<rparr>)) = []"
proof
  show "getNodeIDFromIP (handle_online_cpes_notify [] ((example_server [])\<lparr>m_ip2nodeid_cache := [7 \<mapsto> 3]\<rparr>)) 7 no_mac = 3"
    by (rule online_answer_keeps_cache) (simp_all add: example_server_def new_mzConfig_def reset_def)
  have "UserListOnEdge_ParseFromString (UserListOnEdge_InternalSerialize UserListOnEdge_default) =
      Some (UserListOnEdge_default, True)"
    by (rule UserListOnEdge_reads_back)
      (simp_all add: UserListOnEdge_known_def UserListOnEdge_default_def UserListOnEdge_InternalSerialize_def)
  then show "m_cpes (handle_online_cpes_notify [] ((example_server [])\<lparr>m_ip2nodeid_cache := [7 \<mapsto> 3]\<rparr>)) = []"
    by (simp add: UserListOnEdge_default_def UserListOnEdge_InternalSerialize_def handle_online_cpes_notify_def)
qed






section \<open>The running client\<close>

text \<open>
  The server with the packet buffer and the kernel's routes, and what can happen to it: the device
  has a packet (or its read fails), the closed library hands over a packet or a session message
  of a peer, or the client sets the gateway or registers its send callback. What the kernel answers
  to the requests of a step is not determined. No signal reaches the server: the registration of
  \<open>on_signal\<close> is commented out. The model runs the steps one after the other. The code does not ensure that: the library calls back from a thread of
  its own, and neither the callbacks nor the packet handlers take a lock.
\<close>

record world =
  w_server :: server
  w_buffer :: "bytes option"
  w_kernel :: kernel_table

abbreviation w_routes :: "world \<Rightarrow> route set" where
  "w_routes w \<equiv> k_table (w_kernel w)"

abbreviation w_unmet :: "world \<Rightarrow> route set" where
  "w_unmet w \<equiv> k_unmet (w_kernel w)"

datatype stimulus =
    Packet memory "bytes option"
  | PeerData "bytes \<Rightarrow> bool" bytes u16
  | SessionData bytes u16
  | Gateway u32
  | SendCallback

inductive server_step :: "world \<Rightarrow> stimulus \<Rightarrow> world \<Rightarrow> bool" where
  packet: "on_read_tun_tap heap (w_buffer w) rd (w_server w) = Goes (buf, st) es \<Longrightarrow>
    server_step w (Packet heap rd)
      (w\<lparr>w_server := st, w_buffer := buf, w_kernel := kernel_routes ok (w_kernel w) es\<rparr>)"
| peer: "handle_route_data_recv write_ok data len (w_server w) = Goes st es \<Longrightarrow>
    server_step w (PeerData write_ok data len)
      (w\<lparr>w_server := st, w_kernel := kernel_routes ok (w_kernel w) es\<rparr>)"
| session: "handle_session_data_recv data len (w_server w) = Goes st es \<Longrightarrow>
    server_step w (SessionData data len)
      (w\<lparr>w_server := st, w_kernel := kernel_routes ok (w_kernel w) es\<rparr>)"
| gateway: "server_step w (Gateway gid) (w\<lparr>w_server := set_gateway_id gid (w_server w)\<rparr>)"
| callback: "server_step w SendCallback (w\<lparr>w_server := register_send_func_callback (w_server w)\<rparr>)"

inductive_cases server_step_elims:
  "server_step w (Packet heap rd) w'"
  "server_step w (PeerData write_ok data len) w'"
  "server_step w (SessionData data len) w'"
  "server_step w (Gateway gid) w'"
  "server_step w SendCallback w'"

inductive_simps server_step_simps:
  "server_step w (SessionData data len) w'"
  "server_step w (Gateway gid) w'"
  "server_step w SendCallback w'"

inductive server_run :: "world \<Rightarrow> stimulus list \<Rightarrow> world \<Rightarrow> bool" where
  start: "server_run w [] w"
| more: "server_run w ss w' \<Longrightarrow> server_step w' s w'' \<Longrightarrow> server_run w (ss @ [s]) w''"

inductive_simps server_run_Nil: "server_run w [] w'"

text \<open>A client whose server has just been constructed; no packet has been read yet.\<close>

definition started :: "(nat \<Rightarrow> bool) \<Rightarrow> server \<Rightarrow> route set \<Rightarrow> event list \<Rightarrow> bytes option \<Rightarrow> world" where
  "started ok st R es buf = \<lparr>w_server = st, w_buffer = buf, w_kernel = kernel_routes ok (R, {}) es\<rparr>"

text \<open>What no step changes.\<close>

lemma on_read_result:
  assumes "on_read_tun_tap heap buf rd st = Goes (buf', st') es"
  shows "\<exists>dest msg. es = [SendPeer dest msg] \<and>
    (st' = st \<or> (\<exists>ip mac. onlyAcc (m_config st) = 0 \<and> st' = remember ip (getNodeIDFromIP st ip mac) st))"
  using assms
  by (auto simp: on_read_tun_tap_def handle_packet_from_dev_def getDestIDFromTapPacket_def
      getDestIDFromTunPacket_def Let_def run_then_eq_Goes simp del: run_then.simps
      split: option.splits if_splits)

lemma peer_result:
  "handle_route_data_recv write_ok data len st = Goes st' es \<Longrightarrow> st' = st \<and> kernel_routes ok K es = K"
  by (cases K) (auto simp: handle_route_data_recv_def Let_def split: if_splits)

definition same_settings :: "server \<Rightarrow> server \<Rightarrow> bool" where
  "same_settings st st' \<longleftrightarrow>
     m_tun_tap_dev_fd st' = m_tun_tap_dev_fd st \<and> m_tun_tap_dev_name st' = m_tun_tap_dev_name st \<and>
     m_node_id st' = m_node_id st \<and> m_node st' = m_node st \<and>
     (\<exists>nodes. m_config st' = (m_config st)\<lparr>nodeInfoList := nodes\<rparr>)"

lemma same_settings_refl: "same_settings st st"
  unfolding same_settings_def by (intro conjI refl exI [of _ "nodeInfoList (m_config st)"]) simp

lemma same_settings_trans: "same_settings a b \<Longrightarrow> same_settings b c \<Longrightarrow> same_settings a c"
  by (auto simp: same_settings_def)

lemma same_settings_config:
  "same_settings st st' \<Longrightarrow> tapMode (m_config st') = tapMode (m_config st) \<and>
     onlyAcc (m_config st') = onlyAcc (m_config st) \<and> gateWay (m_config st') = gateWay (m_config st)"
  by (auto simp: same_settings_def)

lemma same_config_settings:
  "m_tun_tap_dev_fd st' = m_tun_tap_dev_fd st \<Longrightarrow> m_tun_tap_dev_name st' = m_tun_tap_dev_name st \<Longrightarrow>
   m_node_id st' = m_node_id st \<Longrightarrow> m_node st' = m_node st \<Longrightarrow> m_config st' = m_config st \<Longrightarrow>
   same_settings st st'"
  using same_settings_refl [of st] by (simp add: same_settings_def)

lemma step_settings: "server_step w s w' \<Longrightarrow> same_settings (w_server w) (w_server w')"
proof (induction rule: server_step.induct)
  case (packet heap w rd buf st es)
  then show ?case
    using on_read_result [OF packet] by (auto intro: same_config_settings simp: frame_simps)
next
  case (peer write_ok data len w st es)
  from peer_result [OF this] show ?case by (simp add: same_settings_refl)
next
  case (session data len w st es)
  then show ?case
    by (cases rule: handle_session_cases [of data len "w_server w"])
       (auto intro: same_settings_refl same_config_settings simp: frame_simps,
        auto simp: same_settings_def frame_simps)
qed (auto intro!: same_config_settings simp: set_gateway_id_def register_send_func_callback_def)

lemma run_settings: "server_run w ss w' \<Longrightarrow> same_settings (w_server w) (w_server w')"
  by (induction rule: server_run.induct) (auto intro: same_settings_refl same_settings_trans step_settings)

lemma step_callback: "server_step w s w' \<Longrightarrow> m_send_callback (w_server w) \<Longrightarrow> m_send_callback (w_server w')"
proof (induction rule: server_step.induct)
  case (packet heap w rd buf st es)
  then show ?case using on_read_result [OF packet(1)] by (auto simp: frame_simps)
next
  case (peer write_ok data len w st es)
  then show ?case using peer_result [OF peer(1)] by simp
next
  case (session data len w st es)
  then show ?case
    by (cases rule: handle_session_cases [of data len "w_server w"]) (auto simp: frame_simps)
qed (simp_all add: set_gateway_id_def register_send_func_callback_def)

lemma run_callback: "server_run w ss w' \<Longrightarrow> m_send_callback (w_server w) \<Longrightarrow> m_send_callback (w_server w')"
  by (induction rule: server_run.induct) (auto intro: step_callback)

text \<open>
  No packet and no message changes the settings the client was started with: its device,
  its identity and everything of its configuration but the list of mesh nodes.
\<close>

theorem run_keeps_settings:
  assumes "server_run w ss w'"
  shows "m_tun_tap_dev_fd (w_server w') = m_tun_tap_dev_fd (w_server w) \<and>
    m_tun_tap_dev_name (w_server w') = m_tun_tap_dev_name (w_server w) \<and>
    m_node_id (w_server w') = m_node_id (w_server w) \<and> m_node (w_server w') = m_node (w_server w) \<and>
    (\<exists>nodes. m_config (w_server w') = (m_config (w_server w))\<lparr>nodeInfoList := nodes\<rparr>)"
  using run_settings [OF assms] by (simp add: same_settings_def)

lemma example_step:
  "server_step (started ok (example_server []) {} [] None) (Gateway 4)
     (started ok (set_gateway_id 4 (example_server [])) {} [] None)"
  using server_step.gateway [of "started ok (example_server []) {} [] None" 4] by (simp add: started_def)

theorem run_keeps_settings_witness:
  "\<exists>w. server_run (started (\<lambda>_. True) (example_server []) {} [] None) [Gateway 4] w \<and>
     m_gateway_id (w_server w) = 4 \<and> m_tun_tap_dev_fd (w_server w) = 5"
proof -
  have r: "server_run (started (\<lambda>_. True) (example_server []) {} [] None) [Gateway 4]
      (started (\<lambda>_. True) (set_gateway_id 4 (example_server [])) {} [] None)"
    using server_run.more [OF server_run.start example_step] by simp
  show ?thesis
    using run_keeps_settings [OF r] r by (auto simp: started_def set_gateway_id_def example_server_def)
qed

section \<open>Invariants of a run\<close>

text \<open>
  The runs without an answer that lists online nodes. In them the table is that of the
  configuration, the kernel has its routes and, in tun mode, the cache agrees with it.
\<close>

definition no_online_answer :: "stimulus list \<Rightarrow> bool" where
  "no_online_answer ss \<longleftrightarrow> (\<forall>data len. SessionData data len \<in> set ss \<longrightarrow> \<not> online_answer data len)"

definition in_step :: "route set \<Rightarrow> world \<Rightarrow> bool" where
  "in_step R0 w \<longleftrightarrow>
     table.synced R0 (w_kernel w) (w_server w) \<and>
     m_cpes (w_server w) = map mesh_node (nodeInfoList (m_config (w_server w))) \<and>
     (tapMode (m_config (w_server w)) = 0 \<longrightarrow> cache_sound (w_server w))"

lemma kernel_step_send [simp]: "kernel_step granted K (SendPeer d msg) = K"
  by (cases K) simp

lemma routes_of_cong:
  "m_tun_tap_dev_name st = m_tun_tap_dev_name st' \<Longrightarrow> m_node_id st = m_node_id st' \<Longrightarrow>
   m_cpes st = m_cpes st' \<Longrightarrow> routes_of st = routes_of st'"
  by (simp add: routes_of_def)

lemma remember_routes [frame_simps]: "routes_of (remember ip d st) = routes_of st"
  by (rule routes_of_cong) (simp_all add: frame_simps)

lemma in_step_remember:
  assumes "in_step R0 w" "onlyAcc (m_config (w_server w)) = 0"
    and "st = remember ip (getNodeIDFromIP (w_server w) ip mac) (w_server w)"
  shows "in_step R0 (w\<lparr>w_server := st, w_buffer := buf\<rparr>)"
proof -
  have "cache_sound st" if "tapMode (m_config (w_server w)) = 0"
    using that assms by (auto simp: in_step_def intro!: remember_sound)
  then show ?thesis
    using assms(1) by (simp add: in_step_def assms(3) frame_simps table.synced_def)
qed

lemma in_step_preserved:
  assumes "server_step w s w'" "in_step R0 w" "no_online_answer [s]"
  shows "in_step R0 w'"
  using assms
proof (induction rule: server_step.induct)
  case (packet heap w rd buf st es)
  obtain dest msg where es: "es = [SendPeer dest msg]"
    and "st = w_server w \<or> (\<exists>ip mac. onlyAcc (m_config (w_server w)) = 0 \<and>
      st = remember ip (getNodeIDFromIP (w_server w) ip mac) (w_server w))"
    using on_read_result [OF packet(1)] by blast
  then show ?case
    using in_step_remember [OF packet(2)] packet(2) by (auto simp: in_step_def)
next
  case (peer write_ok data len w st es)
  from peer_result [OF this(1)] peer(2) show ?case by (simp add: in_step_def)
next
  case (session data len w st es)
  then have "\<not> online_answer data len" by (simp add: no_online_answer_def)
  moreover have "in_step R0 (w\<lparr>w_server := with_mesh nodes (w_server w), w_kernel := kernel_routes ok (w_kernel w)
      (del_route_for_nodes (w_server w) @ add_route_for_nodes (with_mesh nodes (w_server w)))\<rparr>)" for nodes ok
    using session(2) table.synced_exchange
    by (simp add: in_step_def cache_sound_empty frame_simps)
  moreover have "w\<lparr>w_server := w_server w, w_kernel := kernel_routes ok (w_kernel w) []\<rparr> = w" by simp
  ultimately show ?case
    using session(1,2) by (cases rule: handle_session_cases [of data len "w_server w"]) auto
next
  case (gateway w gid)
  then show ?case
    using routes_of_cong [of "set_gateway_id gid (w_server w)" "w_server w"]
    by (auto simp: in_step_def set_gateway_id_def table.synced_def cache_sound_def)
next
  case (callback w)
  then show ?case
    using routes_of_cong [of "register_send_func_callback (w_server w)" "w_server w"]
    by (auto simp: in_step_def register_send_func_callback_def table.synced_def cache_sound_def)
qed

lemma in_step_run:
  "server_run w ss w' \<Longrightarrow> in_step R0 w \<Longrightarrow> no_online_answer ss \<Longrightarrow> in_step R0 w'"
proof (induction rule: server_run.induct)
  case (more w ss w' s w'')
  then have "no_online_answer ss" "no_online_answer [s]" by (auto simp: no_online_answer_def)
  then show ?case using more in_step_preserved by blast
qed simp

lemma new_server_in_step:
  assumes "new_server uid tun up_ok mac cfg = Goes st es"
  shows "in_step R (started ok st R es buf) \<and> m_config st = cfg"
proof -
  obtain es' where es: "es = es' @ add_route_for_nodes st" and r: "kernel_routes ok (R, {}) es' = (R, {})"
    and st: "m_config st = cfg" "m_ip2nodeid_cache st = Map.empty" "m_cpes st = map mesh_node (nodeInfoList cfg)"
    using assms
    by (auto simp: new_server_def Let_def init_tap_tun_dev_def init_mesh_cpes_def init_local_node_def
        exec_up_cmd_def exec_down_cmd_def run_then_eq_Goes
        simp del: run_then.simps split: if_splits)
  then show ?thesis
    using table.synced_install
    by (simp add: in_step_def started_def kernel_routes_append cache_sound_empty)
qed

lemma example_new_server:
  obtains st es where "new_server 1 (3, str ''t'') True [] new_mzConfig = Goes st es"
  by (simp add: new_server_def Let_def init_tap_tun_dev_def new_mzConfig_def reset_def
      init_mesh_cpes_def init_local_node_def)

lemma session_step:
  "handle_session_data_recv data len (w_server w) = Goes st es \<Longrightarrow>
   server_run w [SessionData data len] (w\<lparr>w_server := st, w_kernel := kernel_routes ok (w_kernel w) es\<rparr>)"
  using server_run.more [OF server_run.start server_step.session] by simp

lemma in_step_sends:
  assumes "in_step R w" "tapMode (m_config (w_server w)) = 0" "m_send_callback (w_server w)"
    and "20 \<le> length packet" "4 + length packet \<le> length b"
  shows "\<exists>r. on_read_tun_tap heap (Some b) (Some packet) (w_server w) = Goes r [SendPeer
     (if onlyAcc (m_config (w_server w)) \<noteq> 0 then m_gateway_id (w_server w)
      else lookup_spec (w_server w) (htonl (load_le (take 4 (drop 16 packet)))) no_mac)
     (route_frame packet)]"
proof -
  let ?st = "w_server w"
  have m: "load32 (\<lambda>i. msg_memory heap (route_frame packet) (i + 4)) 16 = load_le (take 4 (drop 16 packet))"
    using assms(4)
    by (simp add: load32_def msg_memory_def route_frame_def nth_append take_Suc_conv_app_nth [symmetric]
        flip: Cons_nth_drop_Suc)
  have "getNodeIDFromIP ?st ip no_mac = lookup_spec ?st ip no_mac" for ip
    using assms(1,2) by (intro getNodeIDFromIP_cached) (simp_all add: in_step_def)
  then show ?thesis
    using assms(2,3) m unfolding on_read_frame [OF assms(4,5)]
    by (simp add: handle_packet_from_dev_def Let_def getDestIDFromTunPacket_def frame_simps)
qed

lemma run_tap_mode:
  "server_run (started ok st R es buf) ss w \<Longrightarrow> tapMode (m_config (w_server w)) = tapMode (m_config st) \<and>
     onlyAcc (m_config (w_server w)) = onlyAcc (m_config st) \<and>
     m_tun_tap_dev_fd (w_server w) = m_tun_tap_dev_fd st"
proof -
  assume "server_run (started ok st R es buf) ss w"
  from run_settings [OF this] have s: "same_settings st (w_server w)" by (simp add: started_def)
  with same_settings_config [OF s] show ?thesis by (simp add: same_settings_def)
qed

text \<open>The buffer stays where it is, with its size.\<close>

lemma on_read_buffer:
  "on_read_tun_tap heap (Some b) rd st = Goes (buf, st') es \<Longrightarrow> \<exists>b'. buf = Some b' \<and> length b' = length b"
  by (auto simp: on_read_tun_tap_def Let_def run_then_eq_Goes simp del: run_then.simps
      split: option.splits if_splits)

lemma step_buffer:
  "server_step w s w' \<Longrightarrow> w_buffer w = Some b \<Longrightarrow> \<exists>b'. w_buffer w' = Some b' \<and> length b' = length b"
  by (induction rule: server_step.induct) (auto dest: on_read_buffer)

lemma run_buffer:
  "server_run w ss w' \<Longrightarrow> w_buffer w = Some b \<Longrightarrow> \<exists>b'. w_buffer w' = Some b' \<and> length b' = length b"
  by (induction rule: server_run.induct) (force dest: step_buffer)+

text \<open>
  Property C3: What a read from the device does at any moment of a run from the construction of the
  server, in tun mode, without an answer that lists online nodes, and with the packet buffer
  allocated with room for 1504 bytes (the program as it is never allocates it). A packet of 20 to
  1500 bytes goes out as one message, its length in front, to the node the table of that moment names for the
  destination of its IP header, whatever has been remembered, or to the gateway in only-access mode;
  before the send callback is registered it ends the process instead. A shorter packet, or a failed
  read, closes the device and ends the process.
\<close>

theorem run_sends_by_table:
  assumes "new_server uid tun up_ok mac cfg = Goes st es" "tapMode cfg = 0"
    and "server_run (started ok st R es (Some b)) ss w" "no_online_answer ss"
    and "PACK_MTU + 4 \<le> length b" "length packet \<le> PACK_MTU"
  shows "on_read_tun_tap heap (w_buffer w) None (w_server w) =
      Stops (Exit (-1)) [CloseFd (m_tun_tap_dev_fd st)] \<and>
    (if length packet < 20 then
       on_read_tun_tap heap (w_buffer w) (Some packet) (w_server w) =
         Stops (Exit (-1)) [CloseFd (m_tun_tap_dev_fd st)]
     else if \<not> m_send_callback (w_server w) then
       on_read_tun_tap heap (w_buffer w) (Some packet) (w_server w) = Stops Abort []
     else \<exists>r. on_read_tun_tap heap (w_buffer w) (Some packet) (w_server w) =
       Goes r [SendPeer
         (if onlyAcc cfg \<noteq> 0 then m_gateway_id (w_server w)
          else lookup_spec (w_server w) (htonl (load_le (take 4 (drop 16 packet)))) no_mac)
         (le32_bytes (word_of_nat (length packet)) @ packet)])"
proof -
  have i: "in_step R w" "m_config st = cfg"
    using in_step_run [OF assms(3) _ assms(4)] new_server_in_step [OF assms(1)] by blast+
  then have m: "tapMode (m_config (w_server w)) = 0" "onlyAcc (m_config (w_server w)) = onlyAcc cfg"
    "m_tun_tap_dev_fd (w_server w) = m_tun_tap_dev_fd st"
    using run_tap_mode [OF assms(3)] assms(2) by simp_all
  obtain b' where b': "w_buffer w = Some b'" "length b' = length b"
    using run_buffer [OF assms(3), of b] by (auto simp: started_def)
  then have l: "4 + length packet \<le> length b'" using assms(5,6) by simp
  show ?thesis
  proof (cases "length packet < 20")
    case True
    then show ?thesis using b' l m(3) by (auto simp: on_read_tun_tap_def Let_def)
  next
    case False
    then have p: "20 \<le> length packet" by simp
    show ?thesis
    proof (cases "m_send_callback (w_server w)")
      case True
      from in_step_sends [OF i(1) m(1) True p l, of heap] False True show ?thesis
        by (auto simp: b' m on_read_tun_tap_def route_frame_def)
    next
      case nocb: False
      then have "handle_packet_from_dev heap msg (w_server w) = Stops Abort []" for msg
        by (auto simp: handle_packet_from_dev_def Let_def getDestIDFromTunPacket_def getDestIDFromTapPacket_def frame_simps)
      then show ?thesis using False nocb m(3) on_read_frame [OF p l, of heap "w_server w"]
        by (simp add: b' on_read_tun_tap_def)
    qed
  qed
qed

theorem run_sends_by_table_witness:
  "\<exists>st es w r. server_run (started (\<lambda>_. True) st {} es (Some (replicate 1504 0))) [Gateway 4, SendCallback] w \<and>
     on_read_tun_tap (\<lambda>_. 0) (w_buffer w) (Some (replicate 20 1)) (w_server w) =
       Goes r [SendPeer 4 (le32_bytes 20 @ replicate 20 1)]"
proof -
  let ?b = "replicate 1504 0 :: bytes" and ?p = "replicate 20 1 :: bytes"
  obtain st es where n: "new_server 1 (3, str ''t'') True [] new_mzConfig = Goes st es"
    by (rule example_new_server)
  have c: "m_config st = new_mzConfig" "m_cpes st = []"
    using new_server_in_step [OF n] by (simp_all add: in_step_def started_def new_mzConfig_def reset_def)
  define w where "w = started (\<lambda>_. True) (register_send_func_callback (set_gateway_id 4 st)) {} es (Some ?b)"
  have "server_step (started (\<lambda>_. True) st {} es (Some ?b)) (Gateway 4) (started (\<lambda>_. True) (set_gateway_id 4 st) {} es (Some ?b))"
    "server_step (started (\<lambda>_. True) (set_gateway_id 4 st) {} es (Some ?b)) SendCallback w"
    by (simp_all add: server_step_simps started_def w_def)
  then have r: "server_run (started (\<lambda>_. True) st {} es (Some ?b)) [Gateway 4, SendCallback] w"
    using server_run.more [OF server_run.more [OF server_run.start]] by fastforce
  have s: "m_send_callback (w_server w)" "m_gateway_id (w_server w) = 4" "m_cpes (w_server w) = []"
    "m_config (w_server w) = new_mzConfig"
    using c by (simp_all add: w_def started_def register_send_func_callback_def set_gateway_id_def)
  have z: "tapMode new_mzConfig = 0" "onlyAcc new_mzConfig = 0" "gateWay new_mzConfig = 0"
    by (simp_all add: new_mzConfig_def reset_def)
  have k: "no_online_answer [Gateway 4, SendCallback]" "PACK_MTU + 4 \<le> length ?b" "length ?p \<le> PACK_MTU"
    by (simp_all add: no_online_answer_def PACK_MTU_def)
  from run_sends_by_table [OF n z(1) r k, of "\<lambda>_. 0"] s z
  have "\<exists>q. on_read_tun_tap (\<lambda>_. 0) (w_buffer w) (Some ?p) (w_server w) = Goes q [SendPeer 4 (le32_bytes 20 @ ?p)]"
    by (simp add: lookup_spec_def)
  with r show ?thesis by blast
qed

text \<open>
  Property C14: The packet buffer of the program is a null pointer that no code assigns. A client that
  runs in this state survives no packet from its device: whatever happened before, the first
  one makes the read fail, and the process closes the device and exits.
\<close>

theorem null_buffer_ends_the_client:
  assumes "server_run (started ok st R es None) ss w"
  shows "w_buffer w = None \<and> (\<forall>heap rd. Packet heap rd \<notin> set ss) \<and>
    on_read_tun_tap heap (w_buffer w) rd (w_server w) =
      Stops (Exit (-1)) [CloseFd (m_tun_tap_dev_fd (w_server w))]"
proof -
  have step: "w_buffer w' = None \<Longrightarrow> server_step w' s w'' \<Longrightarrow> w_buffer w'' = None \<and> (\<forall>heap rd. s \<noteq> Packet heap rd)"
    for w' s w''
    by (cases s) (auto elim!: server_step_elims simp: on_read_tun_tap_def)
  have "w_buffer w = None \<and> (\<forall>heap rd. Packet heap rd \<notin> set ss)" if "server_run w0 ss w" "w_buffer w0 = None" for w0
    using that by (induction rule: server_run.induct) (auto dest: step)
  then show ?thesis using assms by (auto simp: started_def on_read_tun_tap_def)
qed

theorem null_buffer_ends_the_client_witness:
  "server_run (started (\<lambda>_. True) (example_server []) {} [] None) [Gateway 4]
     (started (\<lambda>_. True) (set_gateway_id 4 (example_server [])) {} [] None) \<and>
   on_read_tun_tap (\<lambda>_. 0) None (Some (replicate 20 1)) (set_gateway_id 4 (example_server [])) =
     Stops (Exit (-1)) [CloseFd 5]"
proof -
  have r: "server_run (started (\<lambda>_. True) (example_server []) {} [] None) [Gateway 4]
      (started (\<lambda>_. True) (set_gateway_id 4 (example_server [])) {} [] None)"
    using server_run.more [OF server_run.start example_step] by simp
  then show ?thesis
    using null_buffer_ends_the_client [OF r, of "\<lambda>_. 0" "Some (replicate 20 1)"]
    by (simp add: started_def set_gateway_id_def example_server_def)
qed

lemma reload_no_events: "reload lib c = Goes c' es \<Longrightarrow> es = []"
proof -
  assume r: "reload lib c = Goes c' es"
  show "es = []"
  proof (cases "confPath c = []")
    case True
    with r show ?thesis by (simp add: reload_def)
  next
    case False
    with r obtain q where "loadConfig lib (confPath c) (reset c) = Goes q es"
      by (auto simp: reload_def run_then_eq_Goes simp del: run_then.simps)
    then show ?thesis by (rule loadConfig_no_events)
  qed
qed

text \<open>
  On SIGUSR1 the configuration is read again and the routes of the mesh are removed,
  but neither is the table built from the new configuration nor are its routes installed: the
  table keeps networks that the kernel no longer routes.
\<close>

theorem sigusr1_loses_routes:
  assumes "on_signal lib now 10 st = Goes st' es"
  shows "m_cpes st' = m_cpes st \<and> routes_of st' = routes_of st \<and> (\<forall>dev net m. RouteAdd dev net m \<notin> set es) \<and>
    k_table (kernel_routes ok K es) \<inter> routes_of st' \<subseteq> k_unmet (kernel_routes ok K es)"
proof -
  obtain cfg es' where r: "reload lib (m_config st) = Goes cfg es'"
    and st: "st' = st\<lparr>m_config := cfg\<rparr>" "es = es' @ del_route_for_nodes st'"
    using assms by (auto simp: on_signal_def Let_def run_then_eq_Goes simp del: run_then.simps)
  have "routes_of st' = routes_of st" by (simp add: st routes_of_def)
  moreover have "\<forall>dev net m. RouteAdd dev net m \<notin> set es'"
    using reload_no_events [OF r] by simp
  then have "\<forall>dev net m. RouteAdd dev net m \<notin> set es"
    by (auto simp: st del_route_for_nodes_def node_routes_map)
  moreover have "k_table (kernel_routes ok K es) \<inter> routes_of st' \<subseteq> k_unmet (kernel_routes ok K es)"
    using table.uninstall [OF refl, of "\<lambda>i. ok (length es' + i)" "kernel_routes ok K es'" st']
    unfolding st(2) kernel_routes_append agree_off_def by blast
  ultimately show ?thesis by (simp add: st)
qed

theorem sigusr1_loses_routes_witness:
  "\<exists>st' es. on_signal example_lib [] 10 ((example_server [])\<lparr>m_config := new_mzConfig\<lparr>confPath := str ''b''\<rparr>\<rparr>) =
     Goes st' es \<and> (\<forall>dev net m. RouteAdd dev net m \<notin> set es)"
proof -
  let ?st = "(example_server [])\<lparr>m_config := new_mzConfig\<lparr>confPath := str ''b''\<rparr>\<rparr>"
  obtain cfg es' where "reload example_lib (m_config ?st) = Goes cfg es'"
    by (simp add: reload_def loadConfig_def example_lib_def c_str_def)
  then obtain st' es where o: "on_signal example_lib [] 10 ?st = Goes st' es"
    by (simp add: on_signal_def Let_def)
  from sigusr1_loses_routes [OF o] o show ?thesis by blast
qed

end
