(* ===== verification/Tun_Tap.thy ===== *)
theory Tun_Tap
  imports Routing
begin

text \<open>
  The system calls behind the tunnel device: \<open>include/uvpp/tun_tap.hpp\<close> and
  \<open>create_tun_device.hpp\<close>. What the kernel answers is a parameter; each function yields its result
  and the calls it made, in order. A copy that does not fit a fixed array is undefined
  behaviour, the result \<open>None\<close>.
\<close>

section \<open>Requests and answers\<close>

definition IFNAMSIZ :: nat where
  "IFNAMSIZ = 16"

definition IFF_UP :: u16 where "IFF_UP = 1"
definition IFF_TUN :: u16 where "IFF_TUN = 1"
definition IFF_TAP :: u16 where "IFF_TAP = 2"
definition IFF_NO_PI :: u16 where "IFF_NO_PI = 0x1000"
definition RTF_UP :: u16 where "RTF_UP = 1"
definition RTF_HOST :: u16 where "RTF_HOST = 4"

text \<open>
  The members of \<open>struct rtentry\<close> that are set; the others are zero. The family of the mask is
  \<open>None\<close> where the code leaves it indeterminate.
\<close>

record rtentry =
  rt_dst :: u32
  rt_genmask :: u32
  rt_genmask_family :: "u16 option"
  rt_dev :: bytes
  rt_flags :: u16

text \<open>The \<open>ioctl\<close> requests with what the program passes; a name is what the 16 bytes hold.\<close>

datatype request =
    TUNSETIFF bytes u16
  | SIOCGIFFLAGS bytes
  | SIOCSIFFLAGS bytes u16
  | SIOCSIFADDR bytes u32
  | SIOCADDRT rtentry
  | SIOCDELRT rtentry
  | SIOCGIFHWADDR bytes
  | SIOCSIFHWADDR bytes bytes

datatype sockettype = SOCK_STREAM | SOCK_DGRAM

datatype syscall =
    Open int
  | Socket sockettype int
  | Ioctl int request
  | Close int

text \<open>
  The kernel: the descriptors it hands out, negative for an error, the result of a request on a
  descriptor, and what the answering requests write: the name given to the device, its flags and
  the 14 bytes of its hardware address.
\<close>

record kernel =
  k_open :: int
  k_socket :: int
  k_ioctl :: "int \<Rightarrow> request \<Rightarrow> int"
  k_ifname :: bytes
  k_flags :: "bytes \<Rightarrow> u16"
  k_hwaddr :: "bytes \<Rightarrow> bytes"

type_synonym 'a calls = "'a option \<times> syscall list"

text \<open>\<open>strcpy\<close> of a string into an array of \<open>n\<close> bytes.\<close>

definition strcpy_into :: "nat \<Rightarrow> bytes \<Rightarrow> bytes option" where
  "strcpy_into n s = (if length (c_str s) < n then Some (c_str s) else None)"

section \<open>The device\<close>

text \<open>\<open>set_tun_name\<close> on the server's array of 16 bytes.\<close>

definition set_tun_name :: "bytes \<Rightarrow> bytes option" where
  "set_tun_name name = strcpy_into 16 name"

text \<open>
  \<open>tun_create\<close> gives the descriptor with the name the device got; \<open>strncpy\<close> copies at most 16
  bytes. \<open>create_tun_device\<close> assigns the flags it is given where \<open>tun_create\<close> adds them to the
  zeroed ones.
\<close>

definition tun_create :: "kernel \<Rightarrow> bytes \<Rightarrow> u16 \<Rightarrow> (int \<times> bytes) calls" where
  "tun_create k dev flags =
     (let fd = k_open k in
      if fd < 0 then (Some (fd, dev), [Open fd])
      else
        let ifr_flags = 0 OR flags;
            req = TUNSETIFF (if dev \<noteq> [] then take IFNAMSIZ dev else []) ifr_flags;
            err = k_ioctl k fd req
        in if err < 0 then (Some (err, dev), [Open fd, Ioctl fd req, Close fd])
           else (map_option (\<lambda>name. (fd, name)) (strcpy_into 16 (k_ifname k)), [Open fd, Ioctl fd req]))"

definition create_tun_device :: "kernel \<Rightarrow> bytes \<Rightarrow> u16 \<Rightarrow> (int \<times> bytes) calls" where
  "create_tun_device k dev flags =
     (let fd = k_open k in
      if fd < 0 then (Some (fd, dev), [Open fd])
      else
        let req = TUNSETIFF (if dev \<noteq> [] then take IFNAMSIZ dev else []) flags;
            err = k_ioctl k fd req
        in if err < 0 then (Some (err, dev), [Open fd, Ioctl fd req, Close fd])
           else (map_option (\<lambda>name. (fd, name)) (strcpy_into 16 (k_ifname k)), [Open fd, Ioctl fd req]))"

definition set_if_flags :: "kernel \<Rightarrow> bytes \<Rightarrow> u16 \<Rightarrow> int calls" where
  "set_if_flags k ifname flags =
     (let sockfd = k_socket k; opened = [Socket SOCK_DGRAM sockfd] in
      if sockfd < 0 then (Some (- 1), opened)
      else case strcpy_into IFNAMSIZ ifname of
        None \<Rightarrow> (None, opened)
      | Some name \<Rightarrow>
          (let get = SIOCGIFFLAGS name;
               set = SIOCSIFFLAGS name (k_flags k name OR flags)
           in if k_ioctl k sockfd get < 0
              then (Some (- 1), opened @ [Ioctl sockfd get, Close sockfd])
              else if k_ioctl k sockfd set < 0
              then (Some (- 1), opened @ [Ioctl sockfd get, Ioctl sockfd set, Close sockfd])
              else (Some 0, opened @ [Ioctl sockfd get, Ioctl sockfd set, Close sockfd])))"

text \<open>
  \<open>set_if_addr\<close>: \<open>inet_pton\<close> accepts only the dotted form; \<open>pton\<close> is its result, and when it fails
  the address stays 0.
\<close>

definition set_if_addr :: "kernel \<Rightarrow> (bytes \<Rightarrow> u32 option) \<Rightarrow> bytes \<Rightarrow> bytes \<Rightarrow> int calls" where
  "set_if_addr k pton ifname ipaddr =
     (let sockfd = k_socket k; opened = [Socket SOCK_DGRAM sockfd] in
      if sockfd < 0 then (Some (- 1), opened)
      else case strcpy_into IFNAMSIZ ifname of
        None \<Rightarrow> (None, opened)
      | Some name \<Rightarrow>
          (let req = SIOCSIFADDR name (case pton (c_str ipaddr) of None \<Rightarrow> 0 | Some a \<Rightarrow> a)
           in (Some (if k_ioctl k sockfd req < 0 then - 1 else 0),
               opened @ [Ioctl sockfd req, Close sockfd])))"

definition init_tap_interface :: "kernel \<Rightarrow> int calls" where
  "init_tap_interface k =
     (case tun_create k [] (IFF_TAP OR IFF_NO_PI) of
        (None, cs) \<Rightarrow> (None, cs)
      | (Some (tun, tun_name), cs) \<Rightarrow>
          if tun < 0 then (Some (- 1), cs)
          else case set_if_flags k tun_name IFF_UP of
            (None, cs') \<Rightarrow> (None, cs @ cs')
          | (Some _, cs') \<Rightarrow> (Some tun, cs @ cs'))"

section \<open>Routes\<close>

text \<open>The descriptor of a failed \<open>socket\<close> is used, and closed, like any other.\<close>

definition route_ioctl :: "kernel \<Rightarrow> request \<Rightarrow> int calls" where
  "route_ioctl k req =
     (let skfd = k_socket k
      in (Some (if k_ioctl k skfd req < 0 then - 1 else 0),
          [Socket SOCK_DGRAM skfd, Ioctl skfd req, Close skfd]))"

definition route_add :: "kernel \<Rightarrow> bytes \<Rightarrow> int calls" where
  "route_add k interface_name =
     route_ioctl k (SIOCADDRT \<lparr>rt_dst = inet_addr (str ''10.0.0.1''),
       rt_genmask = inet_addr (str ''255.255.255.255''), rt_genmask_family = None,
       rt_dev = c_str interface_name, rt_flags = RTF_UP OR RTF_HOST\<rparr>)"

definition net_entry :: "bytes \<Rightarrow> bytes \<Rightarrow> bytes \<Rightarrow> rtentry" where
  "net_entry interface_name target dst_mask =
     \<lparr>rt_dst = inet_addr (c_str target), rt_genmask = inet_addr (c_str dst_mask),
      rt_genmask_family = Some 2, rt_dev = c_str interface_name, rt_flags = RTF_UP\<rparr>"

definition route_add_net :: "kernel \<Rightarrow> bytes \<Rightarrow> bytes \<Rightarrow> bytes \<Rightarrow> int calls" where
  "route_add_net k interface_name target dst_mask =
     route_ioctl k (SIOCADDRT (net_entry interface_name target dst_mask))"

definition route_del_net :: "kernel \<Rightarrow> bytes \<Rightarrow> bytes \<Rightarrow> bytes \<Rightarrow> int calls" where
  "route_del_net k interface_name target dst_mask =
     route_ioctl k (SIOCDELRT (net_entry interface_name target dst_mask))"

section \<open>Hardware addresses\<close>

text \<open>\<open>get_mac\<close> closes the descriptor also when there is none.\<close>

definition get_mac :: "kernel \<Rightarrow> bytes \<Rightarrow> nat \<Rightarrow> (int \<times> bytes option) calls" where
  "get_mac k interface_name len_limit =
     (let sock = k_socket k; opened = [Socket SOCK_STREAM sock] in
      if sock < 0 then (Some (- 1, None), opened @ [Close sock])
      else case strcpy_into IFNAMSIZ interface_name of
        None \<Rightarrow> (None, opened)
      | Some name \<Rightarrow>
          (let req = SIOCGIFHWADDR name in
           if k_ioctl k sock req < 0 then (Some (- 1, None), opened @ [Ioctl sock req, Close sock])
           else (Some (0, Some (take len_limit (k_hwaddr k name))), opened @ [Ioctl sock req, Close sock])))"

definition set_mac :: "kernel \<Rightarrow> bytes \<Rightarrow> bytes \<Rightarrow> int calls" where
  "set_mac k interface_name mac =
     (let fd = k_socket k; opened = [Socket SOCK_DGRAM fd] in
      if fd < 0 then (Some (- 1), opened)
      else case strcpy_into IFNAMSIZ interface_name of
        None \<Rightarrow> (None, opened)
      | Some name \<Rightarrow>
          (let req = SIOCSIFHWADDR name (take 6 mac)
           in (Some (k_ioctl k fd req), opened @ [Ioctl fd req, Close fd])))"

section \<open>Descriptors\<close>

text \<open>
  The descriptors open after a sequence of calls; \<open>None\<close> when one is used or closed that is not
  open.
\<close>

fun fds_after :: "int list \<Rightarrow> syscall list \<Rightarrow> int list option" where
  "fds_after fds [] = Some fds"
| "fds_after fds (Open fd # cs) = fds_after (if fd < 0 then fds else fd # fds) cs"
| "fds_after fds (Socket _ fd # cs) = fds_after (if fd < 0 then fds else fd # fds) cs"
| "fds_after fds (Ioctl fd _ # cs) = (if fd \<in> set fds then fds_after fds cs else None)"
| "fds_after fds (Close fd # cs) = (if fd \<in> set fds then fds_after (remove1 fd fds) cs else None)"

lemma fds_after_append:
  "fds_after fds (cs @ ds) = (case fds_after fds cs of None \<Rightarrow> None | Some fds' \<Rightarrow> fds_after fds' ds)"
  by (induction fds cs rule: fds_after.induct) auto

lemma tun_create_fds:
  "tun_create k dev flags = (Some (r, name), cs) \<Longrightarrow> fds_after [] cs = Some (if r < 0 then [] else [r])"
  by (auto simp: tun_create_def Let_def split: if_splits)

lemma set_if_flags_fds:
  "set_if_flags k name flags = (Some r, cs) \<Longrightarrow> fds_after fds cs = Some fds"
  by (auto simp: set_if_flags_def Let_def split: if_splits option.splits)

text \<open>
  Property C19: The functions that set up an interface close every descriptor they open on every
  path, errors included; only the device's own descriptor stays open, and only when it is
  returned.
\<close>

theorem setup_closes_descriptors:
  "(tun_create k dev flags = (Some (r, name), cs) \<longrightarrow> fds_after [] cs = Some (if r < 0 then [] else [r])) \<and>
   (create_tun_device k dev flags = (Some (r, name), cs) \<longrightarrow> fds_after [] cs = Some (if r < 0 then [] else [r])) \<and>
   (set_if_flags k dev flags = (Some r, cs) \<longrightarrow> fds_after [] cs = Some []) \<and>
   (set_if_addr k pton dev ip = (Some r, cs) \<longrightarrow> fds_after [] cs = Some []) \<and>
   (set_mac k dev mac = (Some r, cs) \<longrightarrow> fds_after [] cs = Some []) \<and>
   (init_tap_interface k = (Some r, cs) \<longrightarrow> fds_after [] cs = Some (if r < 0 then [] else [r]))"
proof (intro conjI)
  show "tun_create k dev flags = (Some (r, name), cs) \<longrightarrow> fds_after [] cs = Some (if r < 0 then [] else [r])"
    using tun_create_fds by blast
  show "create_tun_device k dev flags = (Some (r, name), cs) \<longrightarrow> fds_after [] cs = Some (if r < 0 then [] else [r])"
    by (auto simp: create_tun_device_def Let_def split: if_splits)
  show "set_if_flags k dev flags = (Some r, cs) \<longrightarrow> fds_after [] cs = Some []"
    using set_if_flags_fds by blast
  show "init_tap_interface k = (Some r, cs) \<longrightarrow> fds_after [] cs = Some (if r < 0 then [] else [r])"
    by (auto simp: init_tap_interface_def fds_after_append dest!: tun_create_fds set_if_flags_fds
        split: option.splits prod.splits if_splits)
qed (auto simp: set_if_addr_def set_mac_def Let_def split: if_splits option.splits)

definition example_kernel :: kernel where
  "example_kernel = \<lparr>k_open = 3, k_socket = 4, k_ioctl = (\<lambda>_ _. 0), k_ifname = [116], k_flags = (\<lambda>_. 0x1002),
     k_hwaddr = (\<lambda>_. replicate 14 7)\<rparr>"

theorem setup_closes_descriptors_witness:
  "tun_create example_kernel [] 1 = (Some (3, [116]), [Open 3, Ioctl 3 (TUNSETIFF [] 1)]) \<and>
   fds_after [] [Open 3, Ioctl 3 (TUNSETIFF [] 1)] = Some [3] \<and>
   set_if_flags example_kernel [116] 1 = (Some 0, [Socket SOCK_DGRAM 4, Ioctl 4 (SIOCGIFFLAGS [116]),
     Ioctl 4 (SIOCSIFFLAGS [116] 0x1003), Close 4])"
proof -
  have t: "tun_create example_kernel [] 1 = (Some (3, [116]), [Open 3, Ioctl 3 (TUNSETIFF [] 1)])"
    by (simp add: tun_create_def example_kernel_def strcpy_into_def c_str_def)
  then have "fds_after [] [Open 3, Ioctl 3 (TUNSETIFF [] 1)] = Some [3]"
    using conjunct1 [OF setup_closes_descriptors [of example_kernel "[]" 1 3 "[116]"]] by simp
  moreover have "(0x1002 :: u16) OR 1 = 0x1003" by simp
  ultimately show ?thesis using t
    by (simp add: set_if_flags_def example_kernel_def strcpy_into_def c_str_def IFNAMSIZ_def)
qed

text \<open>
  When no socket can be opened, the route functions and \<open>get_mac\<close> use and close the
  error code as if it were a descriptor; when there is one they close it.
\<close>

theorem failed_socket_is_used:
  assumes "length (c_str dev) < IFNAMSIZ"
  shows "fds_after [] (snd (route_add_net k dev net m)) = (if k_socket k < 0 then None else Some []) \<and>
    fds_after [] (snd (route_del_net k dev net m)) = (if k_socket k < 0 then None else Some []) \<and>
    fds_after [] (snd (get_mac k dev n)) = (if k_socket k < 0 then None else Some [])"
  using assms
  by (auto simp: route_add_net_def route_del_net_def route_ioctl_def get_mac_def strcpy_into_def Let_def)

theorem failed_socket_is_used_witness:
  "fds_after [] (snd (get_mac (example_kernel\<lparr>k_socket := - 1\<rparr>) [116] 6)) = None"
  using failed_socket_is_used [of "[116]" "example_kernel\<lparr>k_socket := - 1\<rparr>"]
  by (simp add: IFNAMSIZ_def c_str_def)

section \<open>The kernel's table\<close>

text \<open>What the calls of the route functions do to the table the server's events describe.\<close>

definition route_calls :: "kernel \<Rightarrow> event \<Rightarrow> syscall list" where
  "route_calls k e =
     (case e of
        RouteAdd dev net m \<Rightarrow> snd (route_add_net k dev net m)
      | RouteDel dev net m \<Rightarrow> snd (route_del_net k dev net m)
      | _ \<Rightarrow> [])"

text \<open>
  A request for a route takes effect exactly when it is made on a socket and the kernel's answer is
  no error: Linux adds or removes the entry, or answers with an error and changes nothing.
\<close>

definition succeeds :: "kernel \<Rightarrow> int \<Rightarrow> request \<Rightarrow> bool" where
  "succeeds k fd req \<longleftrightarrow> 0 \<le> fd \<and> 0 \<le> k_ioctl k fd req"

definition entry_route :: "rtentry \<Rightarrow> route" where
  "entry_route e = (rt_dev e, rt_dst e, rt_genmask e)"

fun table_step :: "kernel \<Rightarrow> route set \<Rightarrow> syscall \<Rightarrow> route set" where
  "table_step k R (Ioctl fd (SIOCADDRT e)) =
     (if succeeds k fd (SIOCADDRT e) then insert (entry_route e) R else R)"
| "table_step k R (Ioctl fd (SIOCDELRT e)) =
     (if succeeds k fd (SIOCDELRT e) then R - {entry_route e} else R)"
| "table_step k R c = R"

text \<open>The answer a request of the server gets.\<close>

definition route_answer :: "kernel \<Rightarrow> event \<Rightarrow> bool" where
  "route_answer k e =
     (case e of
        RouteAdd dev net m \<Rightarrow> succeeds k (k_socket k) (SIOCADDRT (net_entry dev net m))
      | RouteDel dev net m \<Rightarrow> succeeds k (k_socket k) (SIOCDELRT (net_entry dev net m))
      | _ \<Rightarrow> True)"

text \<open>
  The result of the route functions says so, which their callers do not look at: on a kernel that
  refuses a request on an error code, as every Unix does, it is 0 exactly for the requests that took
  effect.
\<close>

lemma route_result:
  assumes "\<forall>fd req. fd < 0 \<longrightarrow> k_ioctl k fd req < 0"
  shows "fst (route_add_net k dev net m) = Some 0 \<longleftrightarrow> route_answer k (RouteAdd dev net m)"
    "fst (route_del_net k dev net m) = Some 0 \<longleftrightarrow> route_answer k (RouteDel dev net m)"
  using assms by (auto simp: route_add_net_def route_del_net_def route_ioctl_def route_answer_def succeeds_def Let_def
      not_less [symmetric])

lemma route_of_net_entry: "entry_route (net_entry dev net m) = route_of dev net m"
  by (simp add: entry_route_def net_entry_def route_of_def)

lemma route_calls_step:
  "foldl (table_step k) (k_table K) (route_calls k e) = k_table (kernel_step (route_answer k e) K e)"
  by (cases K; cases e)
     (simp_all add: route_calls_def route_add_net_def route_del_net_def route_ioctl_def route_answer_def
      route_of_net_entry Let_def)

text \<open>
  The system calls behind a sequence of events, each made to the kernel as it is then, do to the table
  what the events with the answers of these kernels do.
\<close>

fun calls_of :: "(nat \<Rightarrow> kernel) \<Rightarrow> route set \<Rightarrow> event list \<Rightarrow> route set" where
  "calls_of ks R [] = R"
| "calls_of ks R (e # es) = calls_of (\<lambda>i. ks (Suc i)) (foldl (table_step (ks 0)) R (route_calls (ks 0) e)) es"

fun answers_of :: "(nat \<Rightarrow> kernel) \<Rightarrow> event list \<Rightarrow> nat \<Rightarrow> bool" where
  "answers_of ks [] i = True"
| "answers_of ks (e # es) 0 = route_answer (ks 0) e"
| "answers_of ks (e # es) (Suc i) = answers_of (\<lambda>j. ks (Suc j)) es i"

lemma route_calls_refine:
  "calls_of ks (k_table K) es = k_table (kernel_routes (answers_of ks es) K es)"
  by (induction es arbitrary: ks K) (simp_all add: route_calls_step)

text \<open>
  The entry a request carries says which route it is about, and nothing else. On a kernel that
  answers each request as it does throughout, the effect of the server's calls is exact.
\<close>

definition route_entry :: "route \<Rightarrow> rtentry" where
  "route_entry = (\<lambda>(dev, net, m).
     \<lparr>rt_dst = net, rt_genmask = m, rt_genmask_family = Some 2, rt_dev = dev, rt_flags = RTF_UP\<rparr>)"

definition grants :: "kernel \<Rightarrow> (rtentry \<Rightarrow> request) \<Rightarrow> route \<Rightarrow> bool" where
  "grants k req r \<longleftrightarrow> succeeds k (k_socket k) (req (route_entry r))"

lemma net_entry_route: "net_entry dev net m = route_entry (route_of dev net m)"
  by (simp add: net_entry_def route_entry_def route_of_def)

lemma route_call_steps:
  "foldl (table_step k) R (route_calls k (RouteAdd dev net m)) =
     (if grants k SIOCADDRT (route_of dev net m) then insert (route_of dev net m) R else R)"
  "foldl (table_step k) R (route_calls k (RouteDel dev net m)) =
     (if grants k SIOCDELRT (route_of dev net m) then R - {route_of dev net m} else R)"
  using route_calls_step [of k "(R, {})" "RouteAdd dev net m"] route_calls_step [of k "(R, {})" "RouteDel dev net m"]
  by (auto simp: Let_def route_answer_def grants_def net_entry_route)

lemma calls_add:
  "foldl (table_step k) R (concat (map (\<lambda>(net, m). route_calls k (RouteAdd dev net m)) ns)) =
     R \<union> {r \<in> (\<lambda>(net, m). route_of dev net m) ` set ns. grants k SIOCADDRT r}"
proof (induction ns arbitrary: R)
  case (Cons n ns)
  obtain net m where n: "n = (net, m)" by fastforce
  show ?case
    by (cases "grants k SIOCADDRT (route_of dev net m)") (auto simp: n Cons route_call_steps)
qed simp

lemma calls_del:
  "foldl (table_step k) R (concat (map (\<lambda>(net, m). route_calls k (RouteDel dev net m)) ns)) =
     R - {r \<in> (\<lambda>(net, m). route_of dev net m) ` set ns. grants k SIOCDELRT r}"
proof (induction ns arbitrary: R)
  case (Cons n ns)
  obtain net m where n: "n = (net, m)" by fastforce
  show ?case
    by (cases "grants k SIOCDELRT (route_of dev net m)") (auto simp: n Cons route_call_steps)
qed simp

text \<open>
  Property C10: The system calls behind the server's route events implement the table it wants, as far as
  the kernel lets them: adding the routes of a table installs on the device exactly those subnets
  of other nodes, with the network address and the mask of the prefix in network byte order, whose
  request the kernel answers without an error on an open socket, and deleting removes exactly those.
  Without a socket nothing changes.
\<close>

theorem route_calls_implement_table:
  "foldl (table_step k) R (concat (map (route_calls k) (add_route_for_nodes st))) =
     R \<union> {(c_str (m_devname st), htonl base, htonl (netmask_bits n)) | base n.
       (\<exists>node \<in> set (m_cpes st). node_ID node \<noteq> atoi (m_node_id st) \<and> (base, n) \<in> set (node_prefixes node)) \<and>
       0 \<le> k_socket k \<and> 0 \<le> k_ioctl k (k_socket k) (SIOCADDRT
         \<lparr>rt_dst = htonl base, rt_genmask = htonl (netmask_bits n), rt_genmask_family = Some 2,
          rt_dev = c_str (m_devname st), rt_flags = RTF_UP\<rparr>)} \<and>
   foldl (table_step k) R (concat (map (route_calls k) (del_route_for_nodes st))) =
     R - {(c_str (m_devname st), htonl base, htonl (netmask_bits n)) | base n.
       (\<exists>node \<in> set (m_cpes st). node_ID node \<noteq> atoi (m_node_id st) \<and> (base, n) \<in> set (node_prefixes node)) \<and>
       0 \<le> k_socket k \<and> 0 \<le> k_ioctl k (k_socket k) (SIOCDELRT
         \<lparr>rt_dst = htonl base, rt_genmask = htonl (netmask_bits n), rt_genmask_family = Some 2,
          rt_dev = c_str (m_devname st), rt_flags = RTF_UP\<rparr>)}"
proof -
  let ?ns = "table_nets (atoi (m_node_id st)) (m_cpes st)"
  have r: "(\<lambda>(net, m). route_of (m_devname st) net m) ` set ?ns = routes_of st"
    by (simp add: table_nets_routes routes_of_def)
  have f: "map (route_calls k) (add_route_for_nodes st) =
      map (\<lambda>(net, m). route_calls k (RouteAdd (m_devname st) net m)) ?ns"
    "map (route_calls k) (del_route_for_nodes st) =
      map (\<lambda>(net, m). route_calls k (RouteDel (m_devname st) net m)) ?ns"
    by (auto simp: add_route_for_nodes_def del_route_for_nodes_def node_routes_map)
  have "{r \<in> routes_of st. grants k req r} = {(c_str (m_devname st), htonl base, htonl (netmask_bits n)) | base n.
       (\<exists>node \<in> set (m_cpes st). node_ID node \<noteq> atoi (m_node_id st) \<and> (base, n) \<in> set (node_prefixes node)) \<and>
       0 \<le> k_socket k \<and> 0 \<le> k_ioctl k (k_socket k) (req
         \<lparr>rt_dst = htonl base, rt_genmask = htonl (netmask_bits n), rt_genmask_family = Some 2,
          rt_dev = c_str (m_devname st), rt_flags = RTF_UP\<rparr>)}" for req
    by (auto simp: routes_of_def grants_def succeeds_def route_entry_def)
  then show ?thesis unfolding f calls_add calls_del r by blast
qed

text \<open>
  A kernel like Linux, which refuses a network with bits its mask clears and any device but the
  server's: of two subnets only the aligned one gets its route.
\<close>

definition strict_kernel :: "bytes \<Rightarrow> kernel" where
  "strict_kernel dev = example_kernel\<lparr>k_ioctl := (\<lambda>fd req.
     case req of
       SIOCADDRT e \<Rightarrow> if fd < 0 \<or> rt_dst e AND NOT (rt_genmask e) \<noteq> 0 \<or> rt_dev e \<noteq> dev then - 1 else 0
     | _ \<Rightarrow> if fd < 0 then - 1 else 0)\<rparr>"

lemma route_calls_implement_table_witness:
  "foldl (table_step (strict_kernel (str ''tunUDP''))) {}
     (concat (map (route_calls (strict_kernel (str ''tunUDP''))) (add_route_for_nodes (example_server subnet_nodes)))) =
   {(str ''tunUDP'', 0x0005000A, 0x00FFFFFF)}"
proof -
  let ?st = "example_server subnet_nodes" and ?k = "strict_kernel (str ''tunUDP'')"
  have nm: "netmask_bits 24 = 0xFFFFFF00" by (simp add: netmask_bits_mask mask_eq_exp_minus_1)
  have h: "htonl 0x0A000500 = 0x0005000A" "htonl 0x0A000601 = 0x0106000A" "htonl 0xFFFFFF00 = 0x00FFFFFF"
    by (simp_all add: htonl_def le_bytes_def upt_rec)
  have "atoi (str ''1'') = 1"
    by (simp add: atoi_def strtol_def c_str_def is_space_def is_digit_def digit_of_def digits_value_def)
  then have s: "m_cpes ?st = subnet_nodes" "atoi (m_node_id ?st) = 1" "m_devname ?st = str ''tunUDP''"
    by (simp_all add: example_server_def)
  have d: "c_str (str ''tunUDP'') = str ''tunUDP''" by (simp add: c_str_def)
  have p: "(\<exists>node \<in> set subnet_nodes. node_ID node \<noteq> 1 \<and> (base, n) \<in> set (node_prefixes node)) \<longleftrightarrow>
      (base, n) = (0x0A000500, 24) \<or> (base, n) = (0x0A000601, 24)" for base n
  proof -
    have "node_ID (example_node i ip net) = i" for i ip net by (simp add: example_node_def mesh_node_def Let_def)
    then show ?thesis by (simp add: subnet_nodes_def example_prefixes del: str_Cons)
  qed
  have a: "k_socket ?k = 4" by (simp add: strict_kernel_def example_kernel_def)
  have k: "0 \<le> k_ioctl ?k 4 (SIOCADDRT \<lparr>rt_dst = net, rt_genmask = m, rt_genmask_family = Some 2,
      rt_dev = str ''tunUDP'', rt_flags = RTF_UP\<rparr>) \<longleftrightarrow> net AND NOT m = 0" for net m
    by (simp add: strict_kernel_def)
  have b: "(0x0005000A :: u32) AND NOT 0x00FFFFFF = 0" "(0x0106000A :: u32) AND NOT 0x00FFFFFF \<noteq> 0" by simp_all
  have "{(str ''tunUDP'', htonl base, htonl (netmask_bits n)) | base n.
       ((base, n) = (0x0A000500, 24) \<or> (base, n) = (0x0A000601, 24)) \<and> (0 :: int) \<le> 4 \<and>
       htonl base AND NOT (htonl (netmask_bits n)) = 0} = {(str ''tunUDP'', 0x0005000A, 0x00FFFFFF)}"
    using b by (auto simp: nm h intro!: exI [of _ "0x0A000500 :: u32"] exI [of _ "24 :: nat"])
  then show ?thesis
    using conjunct1 [OF route_calls_implement_table [of ?k "{}" ?st]] unfolding s d a k p by simp
qed

end
