(* ===== verification/Client.thy ===== *)
theory Client
  imports Tun_Tap Session
begin

text \<open>
  The client program, \<open>main/main.cpp\<close>: the callbacks it registers with the transport library, the
  start and the stop of the network thread, and the main function. The transport library is
  closed; of it only the calls the client makes are visible.
\<close>

section \<open>State\<close>

text \<open>The global pointers, as whether they are set; the server instance with its value.\<close>

record client =
  g_tun_instance :: "server option"
  g_network_thread :: bool
  g_wormhole_connected :: bool

definition new_client :: client where
  "new_client = \<lparr>g_tun_instance = None, g_network_thread = False, g_wormhole_connected = False\<rparr>"

text \<open>
  The calls of the transport library in the order they are made, with the arguments converted to
  the types of its header, and the thread that runs it.
\<close>

datatype api_call =
    FancyJingMsgVersion
  | FancyJingMsgInit u32 u32 u32
  | FancyJingMsgAddConnAddr bytes bytes u16 u16 u16 byte
  | FancyJingMsgRegisterRecvSessionDataCallback
  | FancyJingMsgRegisterRecvRouteDataCallback
  | FancyJingMsgRegisterConnCallback
  | ThreadStart
  | FancyJingMsgStop
  | ThreadJoin
  | FancyJingMsgRelease

section \<open>Callbacks\<close>

text \<open>
  The library passes an \<open>int\<close> as length, the handlers take 16 bits. \<open>ConnTunnelCallback\<close> only prints.
\<close>

definition RecvSessionMsgCallback :: "bytes \<Rightarrow> u32 \<Rightarrow> client \<Rightarrow> client run" where
  "RecvSessionMsgCallback data len g =
     (case g_tun_instance g of
        None \<Rightarrow> Goes g []
      | Some st \<Rightarrow>
          run_then (handle_session_data_recv data (ucast len) st) (\<lambda>st'. Goes (g\<lparr>g_tun_instance := Some st'\<rparr>) []))"

definition RecvRouteMsgCallback :: "(bytes \<Rightarrow> bool) \<Rightarrow> bytes \<Rightarrow> u32 \<Rightarrow> client \<Rightarrow> client run" where
  "RecvRouteMsgCallback write_ok data len g =
     (case g_tun_instance g of
        None \<Rightarrow> Goes g []
      | Some st \<Rightarrow>
          run_then (handle_route_data_recv write_ok data (ucast len) st)
            (\<lambda>st'. Goes (g\<lparr>g_tun_instance := Some st'\<rparr>) []))"

section \<open>The network thread\<close>

definition add_conn_addr :: "TunnelInfo \<Rightarrow> api_call" where
  "add_conn_addr t =
     FancyJingMsgAddConnAddr (c_str (local_ip t)) (c_str (server_ip t))
       (ucast (atoi (c_str (server_port t)))) (ucast (atoi (c_str (up_bw t))))
       (ucast (atoi (c_str (down_bw t)))) (ucast (atoi (c_str (priority t))))"

text \<open>\<open>start\<close> and \<open>destroy\<close> hold the lock from their first to their last line: each is one step.\<close>

definition start :: "mzConfig \<Rightarrow> client \<Rightarrow> int \<times> client \<times> api_call list" where
  "start config g =
     (if g_network_thread g then (- 1, g, [])
      else
        (0, g\<lparr>g_network_thread := True, g_wormhole_connected := True\<rparr>,
         [FancyJingMsgVersion,
          FancyJingMsgInit (userID config) (htonl (inet_addr (c_str (userIP config))))
            (ucast (ucast (connectMode config) :: u16))] @
         map add_conn_addr (tunnelList config) @
         [FancyJingMsgRegisterRecvSessionDataCallback, FancyJingMsgRegisterRecvRouteDataCallback,
          FancyJingMsgRegisterConnCallback, ThreadStart]))"

definition destroy :: "client \<Rightarrow> int \<times> client \<times> api_call list" where
  "destroy g =
     (if g_wormhole_connected g then
        (0, g\<lparr>g_network_thread := False, g_wormhole_connected := False\<rparr>,
         [FancyJingMsgStop] @ (if g_network_thread g then [ThreadJoin] else []) @ [FancyJingMsgRelease])
      else (0, g, []))"

section \<open>The main function\<close>

text \<open>
  The device name goes through an array of 128 bytes and then, in the server's constructor, into
  one of 16; a name that does not fit overwrites what lies behind, which is \<open>Fault\<close>.
\<close>

definition device_name :: "mzConfig \<Rightarrow> bytes option" where
  "device_name config =
     (if devName config \<noteq> [] then strcpy_into 128 (devName config) else Some (str ''tunUDP''))"

definition device_flags :: "mzConfig \<Rightarrow> u16" where
  "device_flags config =
     (if tapMode config = 0 then IFF_TUN OR IFF_NO_PI else IFF_TAP OR IFF_NO_PI)"

text \<open>What the constructor of the server is told by the kernel.\<close>

definition device_up :: "kernel \<Rightarrow> bytes \<Rightarrow> bool" where
  "device_up k name \<longleftrightarrow> fst (set_if_flags k name IFF_UP) \<noteq> Some (- 1)"

definition device_mac :: "kernel \<Rightarrow> mzConfig \<Rightarrow> bytes" where
  "device_mac k config =
     (case fst (get_mac k (c_str (devName config)) 6) of
        Some (_, Some m) \<Rightarrow> m
      | _ \<Rightarrow> replicate 6 0)"

definition construct_server :: "kernel \<Rightarrow> bytes \<Rightarrow> mzConfig \<Rightarrow> server run" where
  "construct_server k name config =
     (case set_tun_name name of
        None \<Rightarrow> Stops Fault []
      | Some dev \<Rightarrow>
          (case fst (tun_create k dev (device_flags config)) of
             None \<Rightarrow> Stops Fault []
           | Some tun \<Rightarrow>
               new_server (userID config) tun (device_up k (snd tun)) (device_mac k config) config))"

text \<open>
  \<open>main\<close> up to its event loop. A configuration that cannot be read ends it with status 0.
\<close>

definition boot :: "u32 \<Rightarrow> mzConfig \<Rightarrow> server \<Rightarrow> (client \<times> api_call list) run" where
  "boot gateway_id config st =
     (let (r, g, calls) = start config (new_client\<lparr>g_tun_instance := Some st\<rparr>)
      in Goes (g\<lparr>g_tun_instance := map_option
           (\<lambda>st. set_gateway_id gateway_id (register_send_func_callback st)) (g_tun_instance g)\<rparr>, calls) [])"

definition configured :: "kernel \<Rightarrow> u32 \<Rightarrow> int \<times> mzConfig \<Rightarrow> (client \<times> api_call list) run" where
  "configured k gateway_id = (\<lambda>(ret, config).
     if ret \<noteq> 0 then Stops (Exit 0) []
     else case device_name config of
       None \<Rightarrow> Stops Fault []
     | Some name \<Rightarrow> run_then (construct_server k name config) (boot gateway_id config))"

definition main_setup :: "('c, 's) libconfig \<Rightarrow> kernel \<Rightarrow> bytes list \<Rightarrow> (client \<times> api_call list) run" where
  "main_setup lib k argv =
     (let gateway_id = (if 2 \<le> length argv then atoi (c_str (argv ! 1)) else 0)
      in run_then (loadConfig lib (str ''mingzhui.cfg'') new_mzConfig) (configured k gateway_id))"

section \<open>The protocol of the transport library\<close>

text \<open>
  The order in which the library may be used: it is initialised and given its addresses, the three
  callbacks are registered, its thread is started; it is stopped, the thread is joined, and it is
  released, after which it can be initialised again. \<open>None\<close> is a violation.
\<close>

datatype transport = Idle | Ready nat | Running | Stopping | Joined

fun transport_step :: "api_call \<Rightarrow> transport \<Rightarrow> transport option" where
  "transport_step FancyJingMsgVersion t = Some t"
| "transport_step (FancyJingMsgInit uid ip mode) t = (if t = Idle then Some (Ready 0) else None)"
| "transport_step (FancyJingMsgAddConnAddr l s p u d pr) t = (if t = Ready 0 then Some t else None)"
| "transport_step FancyJingMsgRegisterRecvSessionDataCallback t = (if t = Ready 0 then Some (Ready 1) else None)"
| "transport_step FancyJingMsgRegisterRecvRouteDataCallback t = (if t = Ready 1 then Some (Ready 2) else None)"
| "transport_step FancyJingMsgRegisterConnCallback t = (if t = Ready 2 then Some (Ready 3) else None)"
| "transport_step ThreadStart t = (if t = Ready 3 then Some Running else None)"
| "transport_step FancyJingMsgStop t = (if t = Running then Some Stopping else None)"
| "transport_step ThreadJoin t = (if t = Stopping then Some Joined else None)"
| "transport_step FancyJingMsgRelease t = (if t = Joined then Some Idle else None)"

fun transport_run :: "api_call list \<Rightarrow> transport \<Rightarrow> transport option" where
  "transport_run [] t = Some t"
| "transport_run (c # cs) t = (case transport_step c t of None \<Rightarrow> None | Some t' \<Rightarrow> transport_run cs t')"

lemma transport_run_append:
  "transport_run (cs @ ds) t = (case transport_run cs t of None \<Rightarrow> None | Some t' \<Rightarrow> transport_run ds t')"
  by (induction cs arbitrary: t) (auto split: option.split)

lemma transport_run_addrs: "transport_run (map add_conn_addr ts) (Ready 0) = Some (Ready 0)"
  by (induction ts) (simp_all add: add_conn_addr_def)

text \<open>Any sequence of calls of \<open>start\<close> and \<open>destroy\<close>, from any threads, in the order the lock gives.\<close>

datatype lifecycle_op = Start mzConfig | Destroy

fun lifecycle :: "lifecycle_op list \<Rightarrow> client \<Rightarrow> client \<times> api_call list" where
  "lifecycle [] g = (g, [])"
| "lifecycle (op # ops) g =
     (let (_, g', cs) = (case op of Start config \<Rightarrow> start config g | Destroy \<Rightarrow> destroy g);
          (g'', cs') = lifecycle ops g'
      in (g'', cs @ cs'))"

definition transport_of :: "client \<Rightarrow> transport" where
  "transport_of g = (if g_network_thread g then Running else Idle)"

lemma start_step:
  assumes "start config g = (r, g', cs)" "g_wormhole_connected g = g_network_thread g"
  shows "transport_run cs (transport_of g) = Some (transport_of g') \<and> g_network_thread g' \<and>
    g_wormhole_connected g' = g_network_thread g' \<and> g_tun_instance g' = g_tun_instance g \<and>
    (r = 0 \<longleftrightarrow> \<not> g_network_thread g)"
  using assms by (auto simp: start_def transport_of_def transport_run_append transport_run_addrs split: if_splits)

lemma destroy_step:
  assumes "destroy g = (r, g', cs)" "g_wormhole_connected g = g_network_thread g"
  shows "transport_run cs (transport_of g) = Some (transport_of g') \<and> \<not> g_network_thread g' \<and>
    g_wormhole_connected g' = g_network_thread g' \<and> g_tun_instance g' = g_tun_instance g"
  using assms by (auto simp: destroy_def transport_of_def split: if_splits)

lemma lifecycle_run:
  assumes "lifecycle ops g = (g', cs)" "g_wormhole_connected g = g_network_thread g"
  shows "transport_run cs (transport_of g) = Some (transport_of g') \<and>
    g_wormhole_connected g' = g_network_thread g'"
  using assms
proof (induction ops arbitrary: g g' cs)
  case (Cons op ops)
  obtain r g1 cs1 where s: "(case op of Start config \<Rightarrow> start config g | Destroy \<Rightarrow> destroy g) = (r, g1, cs1)"
    by (metis prod_cases3)
  obtain g2 cs2 where l: "lifecycle ops g1 = (g2, cs2)" by fastforce
  have g1: "transport_run cs1 (transport_of g) = Some (transport_of g1) \<and> g_wormhole_connected g1 = g_network_thread g1"
    using s start_step [of _ g r g1 cs1] destroy_step [of g r g1 cs1] Cons.prems(2) by (cases op) auto
  have "transport_run cs2 (transport_of g1) = Some (transport_of g2) \<and> g_wormhole_connected g2 = g_network_thread g2"
    using Cons.IH [OF l] g1 by simp
  moreover have "g' = g2" "cs = cs1 @ cs2" using Cons.prems(1) s l by auto
  ultimately show ?case using g1 by (simp add: transport_run_append)
qed simp

text \<open>
  Property C13: Whatever sequence of starts and stops the client performs, the transport library is
  used in order: never initialised twice, started only with its addresses and its three callbacks,
  its thread joined before it is released, and it runs exactly when there is a thread.
\<close>

theorem lifecycle_follows_protocol:
  assumes "lifecycle ops new_client = (g, cs)"
  shows "transport_run cs Idle = Some (if g_network_thread g then Running else Idle) \<and>
    g_wormhole_connected g = g_network_thread g"
  using lifecycle_run [OF assms] by (simp add: new_client_def transport_of_def)

theorem lifecycle_follows_protocol_witness:
  "\<exists>g cs. lifecycle [Start new_mzConfig, Start new_mzConfig, Destroy, Destroy, Start new_mzConfig] new_client = (g, cs) \<and>
     transport_run cs Idle = Some Running"
proof -
  let ?ops = "[Start new_mzConfig, Start new_mzConfig, Destroy, Destroy, Start new_mzConfig]"
  obtain g cs where l: "lifecycle ?ops new_client = (g, cs)" by fastforce
  moreover have "g_network_thread g"
    using l by (auto simp: start_def destroy_def new_client_def)
  ultimately show ?thesis using lifecycle_follows_protocol [OF l] by auto
qed

section \<open>Lengths\<close>

lemma ucast_length: "ucast (word_of_nat n :: u32) = (word_of_nat n :: u16)"
  by (rule bit_word_eqI) (simp add: bit_simps)

text \<open>
  A session message whose body has 65532 bytes or more is lost: the length the library
  passes does not fit the 16 bits of the handler, which sees at most three bytes.
\<close>

theorem long_session_message_lost:
  assumes "65532 \<le> length body" "length body \<le> 65535"
  shows "RecvSessionMsgCallback (session_frame t body) (word_of_nat (length (session_frame t body))) g = Goes g []"
proof -
  define k where "k = length body - 65532"
  then have k: "length body = 65532 + k" "k < 4" using assms by auto
  have "length (session_frame t body) = 65536 + k" using k(1) by (simp add: session_frame_def)
  then have "unat (word_of_nat (length (session_frame t body)) :: u16) = (65536 + k) mod 2 ^ 16"
    by (simp only: unat_of_nat len_num1 len_num0 len_bit0 len_of_numeral_defs) simp
  then have "unat (word_of_nat (length (session_frame t body)) :: u16) = k" using k(2) by simp
  then have "(ucast (word_of_nat (length (session_frame t body)) :: u32) :: u16) \<le> 4"
    using k(2) by (simp add: ucast_length word_le_nat_alt)
  then show ?thesis
    by (auto simp: RecvSessionMsgCallback_def handle_session_data_recv_def split: option.split)
qed

theorem long_session_message_lost_witness:
  "RecvSessionMsgCallback (session_frame MESSAGE_CPE_CHANGE_NOTIFY (replicate 65532 0))
     (word_of_nat (length (session_frame MESSAGE_CPE_CHANGE_NOTIFY (replicate 65532 0)))) new_client = Goes new_client []"
  by (rule long_session_message_lost) simp_all

section \<open>Starting up\<close>

text \<open>
  A configuration file that is missing or malformed ends the program with the status of
  success.
\<close>

theorem main_without_configuration:
  assumes "\<nexists>cfg. readFile lib (str ''mingzhui.cfg'') = ReadOk cfg"
  shows "main_setup lib k argv = Stops (Exit 0) []"
proof -
  have "c_str (str ''mingzhui.cfg'') = str ''mingzhui.cfg''" by (simp add: c_str_def)
  then show ?thesis
    using assms loadConfig_error [of lib "str ''mingzhui.cfg''" new_mzConfig]
    by (simp add: main_setup_def configured_def Let_def)
qed

theorem main_without_configuration_witness:
  "main_setup example_lib example_kernel [] = Stops (Exit 0) []"
  by (rule main_without_configuration) (simp add: example_lib_def)

text \<open>
  The configured device name is copied into 16 bytes unchecked: a name of 16 characters
  or more, which the configuration accepts, overruns the array.
\<close>

theorem long_device_name_overruns:
  assumes "loadConfig lib (str ''mingzhui.cfg'') new_mzConfig = Goes (0, config) []"
    and "16 \<le> length (c_str (devName config))"
  shows "main_setup lib k argv = Stops Fault []"
proof -
  have "devName config \<noteq> []" using assms(2) by (auto simp: c_str_def)
  then show ?thesis
    using assms by (auto simp: main_setup_def configured_def device_name_def construct_server_def set_tun_name_def
        strcpy_into_def Let_def)
qed

text \<open>A library whose file has no setting but the device name.\<close>

definition plain_lib :: "bytes \<Rightarrow> (unit, unit) libconfig" where
  "plain_lib dev = \<lparr>readFile = (\<lambda>_. ReadOk ()), lookup = (\<lambda>_ _. NotFound),
     lookupValue_string = (\<lambda>_ name. if name = str ''devName'' then Some dev else None),
     lookupValue_uint = (\<lambda>_ _. None), tunnel_settings = (\<lambda>_. None), field = (\<lambda>_ _. None),
     set_string = (\<lambda>cfg _ _. cfg), writeFile = (\<lambda>_ _. True)\<rparr>"

lemma plain_load:
  "loadConfig (plain_lib dev) (str ''mingzhui.cfg'') new_mzConfig =
     Goes (0, new_mzConfig\<lparr>confPath := c_str (str ''mingzhui.cfg''), devName := dev\<rparr>) []"
proof -
  have "confPath new_mzConfig = []" by (simp add: new_mzConfig_def reset_def)
  then show ?thesis
    by (subst loadConfig_ok [of _ _ "()"])
       (simp_all add: plain_lib_def read_tunnel_list_def mode_settings_def net_settings_def file_settings_def)
qed

theorem long_device_name_overruns_witness:
  "main_setup (plain_lib (replicate 16 97)) example_kernel [] = Stops Fault []"
proof -
  have "c_str (replicate 16 97) = replicate 16 97" by (rule c_str_id) simp
  then show ?thesis
    by (intro long_device_name_overruns [OF plain_load]) simp
qed

text \<open>The world in which the event loop starts.\<close>

lemma construct_server_new:
  "construct_server k name config = Goes st es \<Longrightarrow>
   \<exists>tun up_ok mac. new_server (userID config) tun up_ok mac config = Goes st es"
  by (auto simp: construct_server_def split: option.splits)

lemma main_setup_result:
  assumes "main_setup lib k argv = Goes (g, calls) es"
  obtains config st es0 es1 tun up_ok mac gid where
    "loadConfig lib (str ''mingzhui.cfg'') new_mzConfig = Goes (0, config) es0" "es = es0 @ es1"
    "new_server (userID config) tun up_ok mac config = Goes st es1"
    "g_tun_instance g = Some (set_gateway_id gid (register_send_func_callback st))"
    "calls = snd (snd (start config new_client))"
proof -
  define gid where "gid = (if 2 \<le> length argv then atoi (c_str (argv ! 1)) else 0)"
  obtain r es0 es1 where l: "loadConfig lib (str ''mingzhui.cfg'') new_mzConfig = Goes r es0"
    and m: "configured k gid r = Goes (g, calls) es1" and es: "es = es0 @ es1"
    using assms unfolding main_setup_def Let_def gid_def [symmetric] run_then_eq_Goes by blast
  obtain ret config where r: "r = (ret, config)" by fastforce
  with m obtain name where "ret = 0" "run_then (construct_server k name config) (boot gid config) = Goes (g, calls) es1"
    by (auto simp: configured_def simp del: run_then.simps split: if_splits option.splits)
  moreover from this(2) obtain st where c: "construct_server k name config = Goes st es1"
    and g: "g_tun_instance g = Some (set_gateway_id gid (register_send_func_callback st))"
      "calls = snd (snd (start config new_client))"
    unfolding run_then_eq_Goes by (auto simp: boot_def start_def new_client_def)
  moreover obtain tun up_ok mac where "new_server (userID config) tun up_ok mac config = Goes st es1"
    using construct_server_new [OF c] by blast
  ultimately show thesis using that l r es g by blast
qed

lemma main_setup_in_step:
  assumes "main_setup lib k argv = Goes (g, calls) es" "g_tun_instance g = Some st"
  shows "in_step R (started ok st R es buf)"
proof -
  obtain config st0 es0 es1 tun up_ok mac gid
    where l: "loadConfig lib (str ''mingzhui.cfg'') new_mzConfig = Goes (0, config) es0"
    and es: "es = es0 @ es1" and n: "new_server (userID config) tun up_ok mac config = Goes st0 es1"
    and g: "g_tun_instance g = Some (set_gateway_id gid (register_send_func_callback st0))"
    by (rule main_setup_result [OF assms(1)])
  have "es0 = []" by (rule loadConfig_no_events [OF l])
  then have i: "in_step R (started ok st0 R es buf)" using new_server_in_step [OF n] es by simp
  have "in_step R (started ok (register_send_func_callback st0) R es buf)"
    using in_step_preserved [OF server_step.callback i] by (simp add: no_online_answer_def started_def)
  from in_step_preserved [OF server_step.gateway this, of gid] show ?thesis
    using g assms(2) by (simp add: no_online_answer_def started_def)
qed

text \<open>
  Property C2: From the start of \<open>main\<close> on, through any sequence of packets and messages without a list
  of online nodes, and whatever the kernel answers to each request, the kernel's routes are those
  of the current mesh besides what it routed before: every network of the mesh is routed and no
  other network is left behind, except for routes the kernel at some time of the run refused
  to add while they were missing or to delete while they were there. The transport library has been
  set up in order and its thread runs, and the send callback is registered.
\<close>

theorem client_keeps_routes:
  assumes "main_setup lib k argv = Goes (g, calls) es" "g_tun_instance g = Some st"
    and "server_run (started ok st R es buf) ss w" "no_online_answer ss"
  shows "routes_of (w_server w) \<subseteq> w_routes w \<union> w_unmet w \<and>
    w_routes w \<subseteq> R \<union> routes_of (w_server w) \<union> w_unmet w \<and>
    transport_run calls Idle = Some Running \<and> m_send_callback (w_server w)"
proof -
  have "in_step R w" by (rule in_step_run [OF assms(3) main_setup_in_step [OF assms(1,2)] assms(4)])
  moreover have "transport_run calls Idle = Some Running" "m_send_callback st"
    by (rule main_setup_result [OF assms(1)]; use assms(2) in
      \<open>simp add: start_def new_client_def transport_run_append transport_run_addrs set_gateway_id_def
        register_send_func_callback_def\<close>)+
  moreover from this(2) have "m_send_callback (w_server w)" using run_callback [OF assms(3)] by (simp add: started_def)
  ultimately show ?thesis by (simp add: in_step_def table.synced_def)
qed

lemma plain_client:
  obtains g calls es st where "main_setup (plain_lib []) example_kernel [str ''cpe'', str ''7''] = Goes (g, calls) es"
    "g_tun_instance g = Some st" "m_gateway_id st = 7" "m_cpes st = []" "m_send_callback st"
    "tapMode (m_config st) = 0" "onlyAcc (m_config st) = 0" "gateWay (m_config st) = 0"
proof -
  let ?c = "new_mzConfig\<lparr>confPath := c_str (str ''mingzhui.cfg''), devName := []\<rparr>"
  have t: "fst (tun_create example_kernel (str ''tunUDP'') (device_flags ?c)) = Some (3, [116])"
    by (simp add: tun_create_def example_kernel_def strcpy_into_def c_str_def)
  have u: "device_up example_kernel [116]"
    by (simp add: device_up_def set_if_flags_def example_kernel_def strcpy_into_def c_str_def IFNAMSIZ_def)
  have "tapMode ?c = 0" by (simp add: new_mzConfig_def reset_def)
  then obtain st es where n: "new_server (userID ?c) (3, [116]) True (device_mac example_kernel ?c) ?c = Goes st es"
    by (auto simp: new_server_def init_tap_tun_dev_def init_mesh_cpes_def init_local_node_def Let_def)
  have "set_tun_name (str ''tunUDP'') = Some (str ''tunUDP'')" by (simp add: set_tun_name_def strcpy_into_def c_str_def)
  then have c: "construct_server example_kernel (str ''tunUDP'') ?c = Goes st es"
    using t u n by (simp only: construct_server_def option.case snd_conv simp_thms)
  have s: "m_cpes st = []" "m_config st = ?c"
    using new_server_in_step [OF n] by (simp_all add: in_step_def started_def new_mzConfig_def reset_def)
  have z: "tapMode ?c = 0" "onlyAcc ?c = 0" "gateWay ?c = 0" by (simp_all add: new_mzConfig_def reset_def)
  have "atoi (str ''7'') = 7"
    by (simp add: atoi_def strtol_def c_str_def is_space_def is_digit_def digit_of_def digits_value_def)
  moreover have "c_str (str ''7'') = str ''7''" by (simp add: c_str_def)
  ultimately show ?thesis
    using that c s z
    by (simp add: main_setup_def configured_def boot_def plain_load device_name_def start_def new_client_def Let_def
        set_gateway_id_def register_send_func_callback_def del: str_Cons)
qed

text \<open>The kernel grants every request, and the mesh is the one of the message.\<close>

lemma granted_unmet:
  "k_unmet (kernel_routes (\<lambda>_. True) K es) = k_unmet K"
proof (induction "\<lambda>_ :: nat. True" K es rule: kernel_routes.induct)
  case (2 K e es)
  moreover have "k_unmet (kernel_step True K e) = k_unmet K" by (cases K; cases e) (simp_all add: Let_def)
  ultimately show ?case by simp
qed simp

theorem client_keeps_routes_witness:
  "\<exists>g calls es st w. main_setup (plain_lib []) example_kernel [str ''cpe'', str ''7''] = Goes (g, calls) es \<and>
     g_tun_instance g = Some st \<and>
     server_run (started (\<lambda>_. True) st {} es None) [SessionData [12, 0, 18, 0, 18, 10, 10, 6, 8, 172, 2, 18, 1, 49, 10, 0] 16] w \<and>
     w_routes w = routes_of (w_server w)"
proof -
  let ?data = "[12, 0, 18, 0, 18, 10, 10, 6, 8, 172, 2, 18, 1, 49, 10, 0] :: bytes"
  obtain g calls es st where m: "main_setup (plain_lib []) example_kernel [str ''cpe'', str ''7''] = Goes (g, calls) es"
    "g_tun_instance g = Some st" by (rule plain_client)
  let ?w0 = "started (\<lambda>_. True) st {} es None"
  obtain st' es' where h: "handle_session_data_recv ?data 16 (w_server ?w0) = Goes st' es'"
    by (rule handle_session_cases [of ?data 16 "w_server ?w0"])
  define w where "w = ?w0\<lparr>w_server := st', w_kernel := kernel_routes (\<lambda>_. True) (w_kernel ?w0) es'\<rparr>"
  have r: "server_run ?w0 [SessionData ?data 16] w" using session_step [OF h] unfolding w_def .
  moreover have "no_online_answer [SessionData ?data 16]" by (simp add: no_online_answer_def online_answer_def)
  moreover have "w_unmet w = {}" by (simp add: w_def started_def granted_unmet)
  ultimately have "w_routes w = routes_of (w_server w)" using client_keeps_routes [OF m r] by auto
  with m r show ?thesis by blast
qed

text \<open>
  Property C1: Two clients deliver. Let one of them run from its start in \<open>main\<close> in tun mode, through
  any sequence of packets and messages without a list of online nodes (which leaves destinations
  in the cache that the new list contradicts), and let its packet buffer be allocated with room for
  1504 bytes, unlike in the program as it is. Let the other have an open device
  whose writes succeed. Then a packet of 20 to 1500 bytes that the first reads from its device and that
  its table of that moment, or in only-access mode its gateway, assigns to the other, goes out as one message to
  the other's node, and the other's callback, given this message by the transport, writes exactly
  the packet to its device.
\<close>

theorem mesh_delivers:
  assumes "main_setup lib k argv = Goes (g, calls) es" "g_tun_instance g = Some st"
    and "server_run (started ok st R es (Some b)) ss w" "no_online_answer ss"
    and "tapMode (m_config st) = 0" "PACK_MTU + 4 \<le> length b"
    and "20 \<le> length packet" "length packet \<le> PACK_MTU"
    and "g_tun_instance peer = Some pst" "m_tun_tap_dev_fd pst \<noteq> 0" "write_ok packet"
    and "(if onlyAcc (m_config st) \<noteq> 0 then m_gateway_id (w_server w)
          else lookup_spec (w_server w) (htonl (load_le (take 4 (drop 16 packet)))) no_mac) = atoi (m_node_id pst)"
  shows "(\<exists>r. on_read_tun_tap heap (w_buffer w) (Some packet) (w_server w) =
      Goes r [SendPeer (atoi (m_node_id pst)) (route_frame packet)]) \<and>
    RecvRouteMsgCallback write_ok (route_frame packet) (word_of_nat (length (route_frame packet))) peer =
      Goes peer [DevWrite (m_tun_tap_dev_fd pst) packet]"
proof
  have i: "in_step R w" by (rule in_step_run [OF assms(3) main_setup_in_step [OF assms(1,2)] assms(4)])
  have m: "tapMode (m_config (w_server w)) = 0" "onlyAcc (m_config (w_server w)) = onlyAcc (m_config st)"
    using run_tap_mode [OF assms(3)] assms(5) by simp_all
  have "m_send_callback st"
    by (rule main_setup_result [OF assms(1)]) (use assms(2) in \<open>simp add: set_gateway_id_def register_send_func_callback_def\<close>)
  then have c: "m_send_callback (w_server w)" using run_callback [OF assms(3)] by (simp add: started_def)
  obtain b' where b': "w_buffer w = Some b'" "length b' = length b"
    using run_buffer [OF assms(3), of b] by (auto simp: started_def)
  then have l: "4 + length packet \<le> length b'" using assms(6,8) by simp
  from in_step_sends [OF i m(1) c assms(7) l, of heap] show "\<exists>r. on_read_tun_tap heap (w_buffer w) (Some packet) (w_server w) =
      Goes r [SendPeer (atoi (m_node_id pst)) (route_frame packet)]"
    unfolding b' m(2) assms(12) .
  have "handle_route_data_recv write_ok (route_frame packet)
      (ucast (word_of_nat (length (route_frame packet)) :: u32)) pst = Goes pst [DevWrite (m_tun_tap_dev_fd pst) packet]"
    using frame_written [where peer = pst and write_ok = write_ok, OF assms(7,8,10,11)] by (simp only: ucast_length)
  then show "RecvRouteMsgCallback write_ok (route_frame packet) (word_of_nat (length (route_frame packet))) peer =
      Goes peer [DevWrite (m_tun_tap_dev_fd pst) packet]"
    using assms(9) by (cases peer) (simp add: RecvRouteMsgCallback_def)
qed

theorem mesh_delivers_witness:
  "\<exists>g calls es st r. main_setup (plain_lib []) example_kernel [str ''cpe'', str ''7''] = Goes (g, calls) es \<and>
     g_tun_instance g = Some st \<and>
     on_read_tun_tap (\<lambda>_. 0) (Some (replicate 1504 0)) (Some (replicate 20 1)) st = Goes r [SendPeer 7 (route_frame (replicate 20 1))] \<and>
     RecvRouteMsgCallback (\<lambda>_. True) (route_frame (replicate 20 1)) 24
       (new_client\<lparr>g_tun_instance := Some ((example_server [])\<lparr>m_node_id := str ''7''\<rparr>)\<rparr>) =
     Goes (new_client\<lparr>g_tun_instance := Some ((example_server [])\<lparr>m_node_id := str ''7''\<rparr>)\<rparr>) [DevWrite 5 (replicate 20 1)]"
proof -
  let ?pst = "(example_server [])\<lparr>m_node_id := str ''7''\<rparr>"
  let ?peer = "new_client\<lparr>g_tun_instance := Some ?pst\<rparr>"
  let ?packet = "replicate 20 1 :: bytes" and ?b = "replicate 1504 0 :: bytes"
  obtain g calls es st where m: "main_setup (plain_lib []) example_kernel [str ''cpe'', str ''7''] = Goes (g, calls) es"
      "g_tun_instance g = Some st"
    and s: "m_gateway_id st = 7" "m_cpes st = []"
      "tapMode (m_config st) = 0" "onlyAcc (m_config st) = 0" "gateWay (m_config st) = 0" by (rule plain_client)
  define w where "w = started (\<lambda>_. True) st {} es (Some ?b)"
  have r: "server_run (started (\<lambda>_. True) st {} es (Some ?b)) [] w" by (simp add: w_def server_run_Nil)
  have ws: "w_server w = st" "w_buffer w = Some ?b" by (simp_all add: w_def started_def)
  have p: "PACK_MTU + 4 \<le> length ?b" "20 \<le> length ?packet" "length ?packet \<le> PACK_MTU" by (simp_all add: PACK_MTU_def)
  have a: "atoi (str ''7'') = 7"
    by (simp add: atoi_def strtol_def c_str_def is_space_def is_digit_def digit_of_def digits_value_def)
  have "(if onlyAcc (m_config st) \<noteq> 0 then m_gateway_id (w_server w) else lookup_spec (w_server w) ip no_mac) =
      atoi (m_node_id ?pst)" for ip
    using s a by (simp add: lookup_spec_def ws)
  note l = this [of "htonl (load_le (take 4 (drop 16 ?packet)))"]
  have pr: "g_tun_instance ?peer = Some ?pst" "m_tun_tap_dev_fd ?pst \<noteq> 0" "(\<lambda>_. True) ?packet" "no_online_answer []"
    by (simp_all add: example_server_def no_online_answer_def)
  have "length (route_frame ?packet) = 24" by (simp add: route_frame_def)
  with mesh_delivers [where write_ok = "\<lambda>_. True" and heap = "\<lambda>_. 0", OF m r pr(4) s(3) p pr(1-3) l] m a
  show ?thesis by (auto simp: ws example_server_def)
qed

end
