(* ===== verification/Callbacks.thy ===== *)
theory Callbacks
  imports Prelude
begin

text \<open>
  The table of callbacks that every handle and request of the libuv wrappers carries,
  \<open>include/uvpp/callback.hpp\<close>. A callback object remembers the C++ type it was stored with; it is
  taken out with a \<open>dynamic_cast\<close> to the type the reader names, and a mismatch fails an
  assertion.
\<close>

section \<open>Outcomes\<close>

text \<open>A wrapper function ends normally, or in a failed assertion or undefined behaviour.\<close>

datatype 'a outcome = Ok 'a | Crash stop

fun and_then :: "'a outcome \<Rightarrow> ('a \<Rightarrow> 'b outcome) \<Rightarrow> 'b outcome" where
  "and_then (Ok a) f = f a"
| "and_then (Crash s) f = Crash s"

lemma and_then_eq_Ok: "and_then r f = Ok b \<longleftrightarrow> (\<exists>a. r = Ok a \<and> f a = Ok b)"
  by (cases r) auto

definition deref :: "'a option \<Rightarrow> 'a outcome" where
  "deref x = (case x of None \<Rightarrow> Crash Fault | Some a \<Rightarrow> Ok a)"

lemma deref_simps [simp]: "deref None = Crash Fault" "deref (Some a) = Ok a"
  by (simp_all add: deref_def)

lemma deref_Ok: "deref x = Ok a \<longleftrightarrow> x = Some a"
  by (cases x) simp_all

section \<open>The slots\<close>

datatype uv_callback_id =
    uv_cid_close | uv_cid_listen | uv_cid_read_start | uv_cid_write | uv_cid_shutdown
  | uv_cid_connect | uv_cid_connect6 | uv_cid_udp_read_start | uv_cid_udp_write
  | uv_cid_udp_shutdown | uv_cid_udp_close | uv_cid_work | uv_cid_after_work | uv_cid_timer
  | uv_cid_poll | uv_cid_signal | uv_cid_async | uv_cid_idle | uv_cid_fs_open | uv_cid_fs_read
  | uv_cid_fs_write | uv_cid_fs_close | uv_cid_fs_unlink | uv_cid_fs_stats | uv_cid_fs_fsync
  | uv_cid_fs_rename | uv_cid_fs_sendfile | uv_cid_fs_poll | uv_cid_fs_event | uv_cid_fs_scandir
  | uv_cid_resolve

fun cid :: "uv_callback_id \<Rightarrow> nat" where
  "cid uv_cid_close = 0" | "cid uv_cid_listen = 1" | "cid uv_cid_read_start = 2"
| "cid uv_cid_write = 3" | "cid uv_cid_shutdown = 4" | "cid uv_cid_connect = 5"
| "cid uv_cid_connect6 = 6" | "cid uv_cid_udp_read_start = 7" | "cid uv_cid_udp_write = 8"
| "cid uv_cid_udp_shutdown = 9" | "cid uv_cid_udp_close = 10" | "cid uv_cid_work = 11"
| "cid uv_cid_after_work = 12" | "cid uv_cid_timer = 13" | "cid uv_cid_poll = 14"
| "cid uv_cid_signal = 15" | "cid uv_cid_async = 16" | "cid uv_cid_idle = 17"
| "cid uv_cid_fs_open = 18" | "cid uv_cid_fs_read = 19" | "cid uv_cid_fs_write = 20"
| "cid uv_cid_fs_close = 21" | "cid uv_cid_fs_unlink = 22" | "cid uv_cid_fs_stats = 23"
| "cid uv_cid_fs_fsync = 24" | "cid uv_cid_fs_rename = 25" | "cid uv_cid_fs_sendfile = 26"
| "cid uv_cid_fs_poll = 27" | "cid uv_cid_fs_event = 28" | "cid uv_cid_fs_scandir = 29"
| "cid uv_cid_resolve = 30"

definition uv_cid_max :: nat where
  "uv_cid_max = 31"

text \<open>The identifiers are ordered as the enumeration is.\<close>

lemma cid_inj: "cid a = cid b \<longleftrightarrow> a = b"
  by (cases a; cases b) simp_all

instantiation uv_callback_id :: linorder
begin

definition less_eq_uv_callback_id :: "uv_callback_id \<Rightarrow> uv_callback_id \<Rightarrow> bool" where
  "less_eq_uv_callback_id a b \<longleftrightarrow> cid a \<le> cid b"

definition less_uv_callback_id :: "uv_callback_id \<Rightarrow> uv_callback_id \<Rightarrow> bool" where
  "less_uv_callback_id a b \<longleftrightarrow> cid a < cid b"

instance
  by standard (auto simp: less_eq_uv_callback_id_def less_uv_callback_id_def cid_inj intro: antisym)

end

lemma cid_le_resolve: "c \<le> uv_cid_resolve"
  by (cases c) (simp_all add: less_eq_uv_callback_id_def)

lemma cid_less_max [simp]: "cid c < uv_cid_max"
  using cid_le_resolve [of c] by (simp add: less_eq_uv_callback_id_def uv_cid_max_def)

section \<open>Callback objects\<close>

text \<open>
  The types callbacks are stored with: the \<open>std::function\<close> types of the interface, named by their
  arguments, and the closures some methods build, each of a type of its own.
\<close>

datatype callback_t =
    Callback
  | CallbackWithResult
  | CallbackBufLen
  | CallbackBufLenAddr
  | CallbackDataResult
  | CallbackStatusEvents
  | CallbackSignum
  | CallbackResultStats
  | CallbackPollStats
  | CallbackResolved
  | OpenClosure
  | ReadClosure
  | ScandirClosure
  | FsEventClosure

record 'f callback_object =
  co_type :: callback_t
  co_fun :: 'f
  co_data :: "nat option"

type_synonym 'f callbacks = "'f callback_object option list"

definition callbacks_of :: "nat \<Rightarrow> 'f callbacks" where
  "callbacks_of n = replicate n None"

definition new_callbacks :: "'f callbacks" where
  "new_callbacks = callbacks_of uv_cid_max"

text \<open>An identifier beyond the size of the vector indexes behind it.\<close>

definition store :: "uv_callback_id \<Rightarrow> callback_t \<Rightarrow> 'f \<Rightarrow> nat option \<Rightarrow> 'f callbacks \<Rightarrow> 'f callbacks outcome" where
  "store c t f data lut =
     (if cid c < length lut then Ok (lut[cid c := Some \<lparr>co_type = t, co_fun = f, co_data = data\<rparr>])
      else Crash Fault)"

definition slot :: "'f callbacks \<Rightarrow> uv_callback_id \<Rightarrow> 'f callback_object option outcome" where
  "slot lut c = (if cid c < length lut then Ok (lut ! cid c) else Crash Fault)"

definition get_data :: "uv_callback_id \<Rightarrow> 'f callbacks \<Rightarrow> nat option outcome" where
  "get_data c lut = and_then (slot lut c) (\<lambda>x. and_then (deref x) (\<lambda>co. Ok (co_data co)))"

text \<open>\<open>invoke\<close>: the function that is called.\<close>

definition invoke :: "uv_callback_id \<Rightarrow> callback_t \<Rightarrow> 'f callbacks \<Rightarrow> 'f outcome" where
  "invoke c t lut = and_then (slot lut c) (\<lambda>x.
     case x of
       None \<Rightarrow> Crash Abort
     | Some co \<Rightarrow> if co_type co = t then Ok (co_fun co) else Crash Abort)"

section \<open>Laws\<close>

text \<open>
  What the users of the table rely on. \<open>valid\<close> tables have a slot for every identifier; what was
  stored last in a slot is what is found there.
\<close>

locale callback_slots =
  fixes empty :: 't and put :: "'i \<Rightarrow> 'o \<Rightarrow> 't \<Rightarrow> 't" and get :: "'t \<Rightarrow> 'i \<Rightarrow> 'o option"
    and valid :: "'t \<Rightarrow> bool"
  assumes valid_empty: "valid empty" and get_empty: "get empty c = None"
    and valid_put: "valid t \<Longrightarrow> valid (put c x t)"
    and get_put: "valid t \<Longrightarrow> get (put c x t) d = (if d = c then Some x else get t d)"
begin

definition puts :: "('i \<times> 'o) list \<Rightarrow> 't \<Rightarrow> 't" where
  "puts xs t = fold (\<lambda>(c, x). put c x) xs t"

lemma valid_puts: "valid t \<Longrightarrow> valid (puts xs t)"
  unfolding puts_def by (induction xs arbitrary: t) (auto intro: valid_put)

lemma get_puts:
  "valid t \<Longrightarrow> get (puts xs t) c = (case map_of (rev xs) c of None \<Rightarrow> get t c | Some x \<Rightarrow> Some x)"
proof (induction xs arbitrary: t)
  case Nil
  then show ?case by (simp add: puts_def)
next
  case (Cons x xs)
  obtain i v where x: "x = (i, v)" by fastforce
  have "get (puts (x # xs) t) c = get (puts xs (put i v t)) c" by (simp add: puts_def x)
  also have "\<dots> = (case map_of (rev xs) c of None \<Rightarrow> get (put i v t) c | Some y \<Rightarrow> Some y)"
    using Cons by (simp add: valid_put)
  also have "\<dots> = (case map_of (rev (x # xs)) c of None \<Rightarrow> get t c | Some y \<Rightarrow> Some y)"
    using Cons.prems by (auto simp: x get_put map_add_def split: option.splits)
  finally show ?case .
qed

lemma last_put_found: "valid t \<Longrightarrow> map_of (rev xs) c = Some x \<Longrightarrow> get (puts xs t) c = Some x"
  by (simp add: get_puts)

end

definition put_object :: "uv_callback_id \<Rightarrow> 'f callback_object \<Rightarrow> 'f callbacks \<Rightarrow> 'f callbacks" where
  "put_object c co lut = lut[cid c := Some co]"

definition get_object :: "'f callbacks \<Rightarrow> uv_callback_id \<Rightarrow> 'f callback_object option" where
  "get_object lut c = lut ! cid c"

definition full_table :: "'f callbacks \<Rightarrow> bool" where
  "full_table lut \<longleftrightarrow> length lut = uv_cid_max"

interpretation slots: callback_slots new_callbacks put_object get_object full_table
  by unfold_locales
     (auto simp: new_callbacks_def callbacks_of_def put_object_def get_object_def full_table_def
       nth_list_update cid_inj)

lemma store_put:
  "full_table lut \<Longrightarrow> store c t f data lut = Ok (put_object c \<lparr>co_type = t, co_fun = f, co_data = data\<rparr> lut)"
  by (simp add: store_def put_object_def full_table_def)

lemma invoke_get:
  "full_table lut \<Longrightarrow> invoke c t lut =
     (case get_object lut c of
        None \<Rightarrow> Crash Abort
      | Some co \<Rightarrow> if co_type co = t then Ok (co_fun co) else Crash Abort)"
  by (simp add: invoke_def slot_def get_object_def full_table_def)

lemma get_data_get:
  "full_table lut \<Longrightarrow> get_data c lut = (case get_object lut c of None \<Rightarrow> Crash Fault | Some co \<Rightarrow> Ok (co_data co))"
  by (simp add: get_data_def slot_def get_object_def full_table_def split: option.split)

text \<open>A sequence of stores.\<close>

fun stores :: "(uv_callback_id \<times> callback_t \<times> 'f \<times> nat option) list \<Rightarrow> 'f callbacks \<Rightarrow> 'f callbacks outcome" where
  "stores [] lut = Ok lut"
| "stores ((c, t, f, data) # xs) lut = and_then (store c t f data lut) (stores xs)"

lemma stores_puts:
  "full_table lut \<Longrightarrow>
   stores xs lut = Ok (slots.puts (map (\<lambda>(c, t, f, data). (c, \<lparr>co_type = t, co_fun = f, co_data = data\<rparr>)) xs) lut)"
  by (induction xs lut rule: stores.induct)
     (simp_all add: slots.puts_def store_put slots.valid_put)

text \<open>
  Property C40: after any sequence of stores into a new table, a slot calls the function stored last in
  it when it is asked for by the type of that store; asked for by another type, or never stored
  into, it fails the assertion.
\<close>

theorem last_store_is_called:
  "\<exists>lut. stores xs new_callbacks = Ok lut \<and>
     invoke c t lut =
       (case map_of (rev xs) c of
          None \<Rightarrow> Crash Abort
        | Some (t', f, data) \<Rightarrow> if t' = t then Ok f else Crash Abort)"
proof -
  let ?obj = "\<lambda>(t, f, data). \<lparr>co_type = t, co_fun = f, co_data = data\<rparr>"
  let ?lut = "slots.puts (map (\<lambda>(c, t, f, data). (c, \<lparr>co_type = t, co_fun = f, co_data = data\<rparr>)) xs) new_callbacks"
  have v: "full_table ?lut" by (intro slots.valid_puts slots.valid_empty)
  have m: "map (\<lambda>(c, t, f, data). (c, \<lparr>co_type = t, co_fun = f, co_data = data\<rparr>)) xs = map (\<lambda>(c, y). (c, ?obj y)) xs"
    by auto
  have "get_object ?lut c = map_option ?obj (map_of (rev xs) c)"
    unfolding m slots.get_puts [OF slots.valid_empty]
    by (simp add: map_of_map slots.get_empty rev_map split: option.split)
  then have "invoke c t ?lut = (case map_of (rev xs) c of
      None \<Rightarrow> Crash Abort | Some (t', f, data) \<Rightarrow> if t' = t then Ok f else Crash Abort)"
    by (auto simp: invoke_get [OF v] split: option.split)
  then show ?thesis using stores_puts [OF slots.valid_empty, of xs] by blast
qed

end
