(* ===== verification/Handles.thy ===== *)
theory Handles
  imports Callbacks
begin

text \<open>
  The ownership of handles, \<open>include/uvpp/handle.hpp\<close>: a wrapper
  object holds a pointer to the structure it allocated for libuv, which holds a pointer to its
  table of callbacks. Both are freed by the destructor or, after \<open>close\<close>, by the callback that
  libuv makes later. Of libuv only what it documents is modelled: the type that an
  initialisation writes, the closing flag that \<open>uv_close\<close> sets and \<open>uv_is_closing\<close> reads, and the queue
  of its loop, which an initialised structure is linked into until libuv has closed it; its
  functions read the structure they are given. libuv requires that a structure is closed before its memory
  is released: one that is freed without that stays linked, and is dangling.
\<close>

section \<open>The heap\<close>

text \<open>\<open>UV_HANDLE_TYPE_MAP\<close> of \<open>uv.h\<close>; a structure that was not initialised has type 0.\<close>

datatype uv_handle_type =
    UV_UNKNOWN_HANDLE | UV_ASYNC | UV_CHECK | UV_FS_EVENT | UV_FS_POLL | UV_HANDLE | UV_IDLE
  | UV_NAMED_PIPE | UV_POLL | UV_PREPARE | UV_PROCESS | UV_STREAM | UV_TCP | UV_TIMER | UV_TTY
  | UV_UDP | UV_SIGNAL

record uv_handle =
  h_type :: uv_handle_type
  h_data :: "nat option"
  h_closing :: bool

text \<open>
  Addresses are given out once; an address that is freed leaves the map. \<open>linked\<close> is the loop's
  queue of handles (\<open>handle_queue\<close> of \<open>uv.h\<close>).
\<close>

record 'f heap =
  handles :: "nat \<rightharpoonup> uv_handle"
  tables :: "nat \<rightharpoonup> 'f callbacks"
  next_addr :: nat
  linked :: "nat set"

record wrapper =
  m_uv_handle :: "nat option"
  m_will_close :: bool

definition empty_heap :: "'f heap" where
  "empty_heap = \<lparr>handles = Map.empty, tables = Map.empty, next_addr = 1, linked = {}\<rparr>"

definition dangling :: "'f heap \<Rightarrow> nat set" where
  "dangling H = {a \<in> linked H. handles H a = None}"

section \<open>Operations\<close>

text \<open>
  \<open>free_handle\<close>: the table first, then the structure by its type; a type that is not among the ten
  fails the assertion. Deleting an address that is not allocated is undefined.
\<close>

definition freeable :: "uv_handle_type \<Rightarrow> bool" where
  "freeable ty \<longleftrightarrow>
     ty \<in> {UV_TCP, UV_UDP, UV_NAMED_PIPE, UV_TTY, UV_TIMER, UV_SIGNAL, UV_POLL, UV_ASYNC, UV_IDLE, UV_FS_EVENT}"

definition delete_table :: "nat option \<Rightarrow> 'f heap \<Rightarrow> 'f heap outcome" where
  "delete_table data H =
     (case data of
        None \<Rightarrow> Ok H
      | Some d \<Rightarrow> and_then (deref (tables H d)) (\<lambda>_. Ok (H\<lparr>tables := (tables H)(d := None)\<rparr>)))"

definition free_handle :: "nat option \<Rightarrow> 'f heap \<Rightarrow> 'f heap outcome" where
  "free_handle p H =
     (case p of
        None \<Rightarrow> Ok H
      | Some a \<Rightarrow>
          and_then (deref (handles H a)) (\<lambda>h.
          and_then (delete_table (h_data h) H) (\<lambda>H1.
            if freeable (h_type h) then Ok (H1\<lparr>handles := (handles H1)(a := None)\<rparr>) else Crash Abort)))"

text \<open>
  Allocation of a structure with its table; \<open>uv_init\<close> writes the type and links the structure.
\<close>

definition new_handle :: "'f heap \<Rightarrow> nat \<times> 'f heap" where
  "new_handle H =
     (let a = next_addr H; d = a + 1
      in (a, \<lparr>handles = (handles H)(a \<mapsto> \<lparr>h_type = UV_UNKNOWN_HANDLE, h_data = Some d, h_closing = False\<rparr>),
              tables = (tables H)(d \<mapsto> new_callbacks), next_addr = a + 2, linked = linked H\<rparr>))"

definition uv_init :: "uv_handle_type \<Rightarrow> nat \<Rightarrow> 'f heap \<Rightarrow> 'f heap" where
  "uv_init ty a H =
     H\<lparr>handles := (handles H)(a := map_option (\<lambda>h. h\<lparr>h_type := ty\<rparr>) (handles H a)), linked := insert a (linked H)\<rparr>"

definition handle_ctor :: "'f heap \<Rightarrow> wrapper \<times> 'f heap" where
  "handle_ctor H = (let (a, H') = new_handle H in (\<lparr>m_uv_handle = Some a, m_will_close = False\<rparr>, H'))"

text \<open>
  A class derived from \<open>handle\<close> constructs it and initialises the structure; a failed
  initialisation, whose result no class looks at, leaves the type unknown and the structure unlinked.
\<close>

definition construct :: "uv_handle_type \<Rightarrow> 'f heap \<Rightarrow> wrapper \<times> 'f heap" where
  "construct ty H =
     (let (w, H') = handle_ctor H
      in (w, case m_uv_handle w of
               None \<Rightarrow> H'
             | Some a \<Rightarrow> if ty = UV_UNKNOWN_HANDLE then H' else uv_init ty a H'))"

definition handle_move_ctor :: "wrapper \<Rightarrow> wrapper \<times> wrapper" where
  "handle_move_ctor other = (other, \<lparr>m_uv_handle = None, m_will_close = False\<rparr>)"

definition handle_move_assign :: "bool \<Rightarrow> wrapper \<Rightarrow> wrapper \<Rightarrow> wrapper \<times> wrapper" where
  "handle_move_assign same this other =
     (if same then (this, other)
      else (\<lparr>m_uv_handle = m_uv_handle other, m_will_close = m_will_close other\<rparr>,
            \<lparr>m_uv_handle = None, m_will_close = False\<rparr>))"

text \<open>
  The destructor frees a structure that was not closed, linked or not: libuv does not see it.
\<close>

definition handle_dtor :: "wrapper \<Rightarrow> 'f heap \<Rightarrow> 'f heap outcome" where
  "handle_dtor w H = (if m_will_close w then Ok H else free_handle (m_uv_handle w) H)"

text \<open>The destructor of \<open>Udp\<close> first stops receiving, whatever became of its handle.\<close>

definition uv_udp_recv_stop :: "nat option \<Rightarrow> 'f heap \<Rightarrow> unit outcome" where
  "uv_udp_recv_stop p H = and_then (deref p) (\<lambda>a. and_then (deref (handles H a)) (\<lambda>_. Ok ()))"

definition udp_dtor :: "wrapper \<Rightarrow> 'f heap \<Rightarrow> 'f heap outcome" where
  "udp_dtor w H = and_then (uv_udp_recv_stop (m_uv_handle w) H) (\<lambda>_. handle_dtor w H)"

text \<open>
  The destructor of \<open>FsEvent\<close> stops watching if it was ever started: \<open>stop\<close> and \<open>close\<close> leave the flag
  \<open>started_\<close>.
\<close>

definition uv_fs_event_stop :: "nat option \<Rightarrow> 'f heap \<Rightarrow> unit outcome" where
  "uv_fs_event_stop p H = and_then (deref p) (\<lambda>a. and_then (deref (handles H a)) (\<lambda>_. Ok ()))"

definition fs_event_dtor :: "bool \<Rightarrow> wrapper \<Rightarrow> 'f heap \<Rightarrow> 'f heap outcome" where
  "fs_event_dtor started w H =
     and_then (if started then uv_fs_event_stop (m_uv_handle w) H else Ok ()) (\<lambda>_. handle_dtor w H)"

definition handle_reset :: "wrapper \<Rightarrow> 'f heap \<Rightarrow> wrapper \<times> 'f heap" where
  "handle_reset w H = (let (a, H') = new_handle H in (w\<lparr>m_uv_handle := Some a, m_will_close := False\<rparr>, H'))"

text \<open>Storing a callback in the table of a handle, and calling one from it.\<close>

definition store_on :: "nat option \<Rightarrow> uv_callback_id \<Rightarrow> callback_t \<Rightarrow> 'f \<Rightarrow> 'f heap \<Rightarrow> 'f heap outcome" where
  "store_on p c t f H =
     and_then (deref p) (\<lambda>a.
     and_then (deref (handles H a)) (\<lambda>h.
     and_then (deref (h_data h)) (\<lambda>d.
     and_then (deref (tables H d)) (\<lambda>lut.
     and_then (store c t f None lut) (\<lambda>lut'. Ok (H\<lparr>tables := (tables H)(d \<mapsto> lut')\<rparr>))))))"

definition invoke_on :: "nat \<Rightarrow> uv_callback_id \<Rightarrow> callback_t \<Rightarrow> 'f heap \<Rightarrow> 'f outcome" where
  "invoke_on a c t H =
     and_then (deref (handles H a)) (\<lambda>h.
     and_then (deref (h_data h)) (\<lambda>d.
     and_then (deref (tables H d)) (invoke c t)))"

text \<open>
  \<open>close\<close>, and the callback libuv makes once the handle is closed and unlinked: it calls what \<open>close\<close>
  was given and frees the handle.
\<close>

definition uv_is_closing :: "nat option \<Rightarrow> 'f heap \<Rightarrow> bool outcome" where
  "uv_is_closing p H = and_then (deref p) (\<lambda>a. and_then (deref (handles H a)) (\<lambda>h. Ok (h_closing h)))"

definition uv_close :: "nat option \<Rightarrow> 'f heap \<Rightarrow> 'f heap outcome" where
  "uv_close p H =
     and_then (deref p) (\<lambda>a. and_then (deref (handles H a)) (\<lambda>h.
       Ok (H\<lparr>handles := (handles H)(a \<mapsto> h\<lparr>h_closing := True\<rparr>)\<rparr>)))"

definition handle_close :: "'f \<Rightarrow> wrapper \<Rightarrow> 'f heap \<Rightarrow> (wrapper \<times> 'f heap) outcome" where
  "handle_close callback w H =
     and_then (uv_is_closing (m_uv_handle w) H) (\<lambda>closing.
       if closing then Ok (w, H)
       else
         and_then (store_on (m_uv_handle w) uv_cid_close Callback callback H) (\<lambda>H1.
         and_then (uv_close (m_uv_handle w) H1) (\<lambda>H2.
           Ok (w\<lparr>m_will_close := True, m_uv_handle := None\<rparr>, H2))))"

definition on_closed :: "nat \<Rightarrow> 'f heap \<Rightarrow> ('f \<times> 'f heap) outcome" where
  "on_closed a H =
     (let H1 = H\<lparr>linked := linked H - {a}\<rparr>
      in and_then (invoke_on a uv_cid_close Callback H1) (\<lambda>f.
         and_then (free_handle (Some a) H1) (\<lambda>H'. Ok (f, H'))))"

section \<open>One wrapper\<close>

text \<open>A heap in which nothing is allocated at the addresses to come.\<close>

definition fresh :: "'f heap \<Rightarrow> bool" where
  "fresh H \<longleftrightarrow> (\<forall>a \<ge> next_addr H. handles H a = None \<and> tables H a = None)"

lemma fresh_next: "fresh H \<Longrightarrow> next_addr H \<le> a \<Longrightarrow> handles H a = None"
  and fresh_next_table: "fresh H \<Longrightarrow> next_addr H \<le> a \<Longrightarrow> tables H a = None"
  by (simp_all add: fresh_def)

lemma construct_eq:
  "construct ty H =
     (\<lparr>m_uv_handle = Some (next_addr H), m_will_close = False\<rparr>,
      \<lparr>handles = (handles H)(next_addr H \<mapsto> \<lparr>h_type = ty, h_data = Some (next_addr H + 1), h_closing = False\<rparr>),
       tables = (tables H)(next_addr H + 1 \<mapsto> new_callbacks), next_addr = next_addr H + 2,
       linked = (if ty = UV_UNKNOWN_HANDLE then linked H else insert (next_addr H) (linked H))\<rparr>)"
  by (simp add: construct_def handle_ctor_def new_handle_def uv_init_def Let_def)

lemma full_new [simp]: "full_table new_callbacks"
  by (rule slots.valid_empty)

text \<open>The operations on a handle that is allocated with its table.\<close>

definition table_at :: "nat \<Rightarrow> uv_handle \<Rightarrow> nat \<Rightarrow> 'f callbacks \<Rightarrow> 'f heap \<Rightarrow> bool" where
  "table_at a h d lut H \<longleftrightarrow>
     handles H a = Some h \<and> h_data h = Some d \<and> tables H d = Some lut \<and> full_table lut"

lemma store_on_eq:
  "table_at a h d lut H \<Longrightarrow>
   store_on (Some a) c t f H =
     Ok (H\<lparr>tables := (tables H)(d \<mapsto> put_object c \<lparr>co_type = t, co_fun = f, co_data = None\<rparr> lut)\<rparr>)"
  by (simp add: store_on_def table_at_def store_put)

lemma invoke_on_eq:
  "table_at a h d lut H \<Longrightarrow>
   invoke_on a c t H =
     (case get_object lut c of
        None \<Rightarrow> Crash Abort
      | Some co \<Rightarrow> if co_type co = t then Ok (co_fun co) else Crash Abort)"
  by (simp add: invoke_on_def table_at_def invoke_get)

lemma handle_close_eq:
  assumes "table_at a h d lut H" "\<not> h_closing h" "m_uv_handle w = Some a"
  shows "handle_close f w H = Ok (\<lparr>m_uv_handle = None, m_will_close = True\<rparr>,
    H\<lparr>tables := (tables H)(d \<mapsto> put_object uv_cid_close \<lparr>co_type = Callback, co_fun = f, co_data = None\<rparr> lut),
      handles := (handles H)(a \<mapsto> h\<lparr>h_closing := True\<rparr>)\<rparr>)"
  using assms store_on_eq [OF assms(1)]
  by (cases w) (simp add: handle_close_def uv_is_closing_def uv_close_def table_at_def)

lemma on_closed_eq:
  assumes "table_at a h d lut H" "freeable (h_type h)"
    and "get_object lut uv_cid_close = Some co" "co_type co = Callback"
  shows "on_closed a H =
    Ok (co_fun co, H\<lparr>tables := (tables H)(d := None), handles := (handles H)(a := None), linked := linked H - {a}\<rparr>)"
proof -
  have "table_at a h d lut (H\<lparr>linked := linked H - {a}\<rparr>)" using assms(1) by (simp add: table_at_def)
  with assms invoke_on_eq [OF this] show ?thesis
    by (simp add: on_closed_def free_handle_def delete_table_def table_at_def)
qed

lemma free_handle_eq:
  assumes "table_at a h d lut H" "freeable (h_type h)"
  shows "free_handle (Some a) H = Ok (H\<lparr>tables := (tables H)(d := None), handles := (handles H)(a := None)\<rparr>)"
  using assms by (simp add: free_handle_def delete_table_def table_at_def)

lemma construct_table:
  "construct ty H = (w, H') \<Longrightarrow>
   table_at (next_addr H) \<lparr>h_type = ty, h_data = Some (next_addr H + 1), h_closing = False\<rparr> (next_addr H + 1)
     new_callbacks H' \<and> w = \<lparr>m_uv_handle = Some (next_addr H), m_will_close = False\<rparr>"
  by (auto simp: construct_eq table_at_def)

text \<open>
  The contract of the classes derived from \<open>handle\<close>: the type their initialisation writes is one
  \<open>free_handle\<close> knows.
\<close>

locale handle_class =
  fixes ty :: uv_handle_type
  assumes known: "freeable ty"
begin

lemma dtor_frees:
  assumes "fresh H" "construct ty H = (w, H1)"
  shows "\<exists>H2. handle_dtor w H1 = Ok H2 \<and> handles H2 = handles H \<and> tables H2 = tables H \<and>
    next_addr H \<in> dangling H2"
  using assms known
  by (auto simp: construct_eq handle_dtor_def free_handle_def delete_table_def fun_upd_idem fresh_def dangling_def
      freeable_def)

lemma close_frees:
  assumes "fresh H" "construct ty H = (w, H1)"
  shows "\<exists>w' H2 H3. handle_close f w H1 = Ok (w', H2) \<and> handle_dtor w' H2 = Ok H2 \<and>
    on_closed (next_addr H) H2 = Ok (f, H3) \<and> handles H3 = handles H \<and> tables H3 = tables H \<and>
    next_addr H \<notin> dangling H3"
proof -
  let ?h = "\<lparr>h_type = ty, h_data = Some (next_addr H + 1), h_closing = False\<rparr>"
  let ?co = "\<lparr>co_type = Callback, co_fun = f, co_data = None\<rparr>"
  let ?lut = "put_object uv_cid_close ?co new_callbacks"
  define H2 where "H2 = H1\<lparr>tables := (tables H1)(next_addr H + 1 \<mapsto> ?lut),
    handles := (handles H1)(next_addr H \<mapsto> ?h\<lparr>h_closing := True\<rparr>)\<rparr>"
  have t: "table_at (next_addr H) ?h (next_addr H + 1) new_callbacks H1" "m_uv_handle w = Some (next_addr H)"
    using construct_table [OF assms(2)] by simp_all
  then have c: "handle_close f w H1 = Ok (\<lparr>m_uv_handle = None, m_will_close = True\<rparr>, H2)"
    unfolding H2_def by (intro handle_close_eq) simp_all
  have "full_table ?lut" by (simp add: slots.valid_put)
  then have "table_at (next_addr H) (?h\<lparr>h_closing := True\<rparr>) (next_addr H + 1) ?lut H2"
    by (simp add: H2_def table_at_def)
  then have "on_closed (next_addr H) H2 =
      Ok (f, H2\<lparr>tables := (tables H2)(next_addr H + 1 := None), handles := (handles H2)(next_addr H := None),
        linked := linked H2 - {next_addr H}\<rparr>)"
    using known on_closed_eq [of "next_addr H" "?h\<lparr>h_closing := True\<rparr>" "next_addr H + 1" ?lut H2 ?co]
    by (simp add: slots.get_put)
  moreover have "handles H1 = (handles H)(next_addr H \<mapsto> ?h)" "tables H1 = (tables H)(next_addr H + 1 \<mapsto> new_callbacks)"
    using assms(2) by (auto simp: construct_eq)
  then have "(handles H2)(next_addr H := None) = handles H" "(tables H2)(next_addr H + 1 := None) = tables H"
    using assms(1) by (auto simp: H2_def fresh_def)
  ultimately show ?thesis using c by (auto simp: handle_dtor_def dangling_def)
qed

end

interpretation tcp: handle_class UV_TCP by unfold_locales (simp add: freeable_def)
interpretation udp: handle_class UV_UDP by unfold_locales (simp add: freeable_def)
interpretation pipe: handle_class UV_NAMED_PIPE by unfold_locales (simp add: freeable_def)
interpretation tty: handle_class UV_TTY by unfold_locales (simp add: freeable_def)
interpretation timer: handle_class UV_TIMER by unfold_locales (simp add: freeable_def)
interpretation signal: handle_class UV_SIGNAL by unfold_locales (simp add: freeable_def)
interpretation poll: handle_class UV_POLL by unfold_locales (simp add: freeable_def)
interpretation async: handle_class UV_ASYNC by unfold_locales (simp add: freeable_def)
interpretation idle: handle_class UV_IDLE by unfold_locales (simp add: freeable_def)
interpretation fs_event: handle_class UV_FS_EVENT by unfold_locales (simp add: freeable_def)

end
