(* ===== verification/Lifetime.thy ===== *)
theory Lifetime
  imports Handles
begin

text \<open>
  Programs over the handle wrappers of \<open>include/uvpp/handle.hpp\<close>: objects are constructed, moved,
  assigned, reset, started, closed and destroyed, and the loop makes the close callbacks it owes. The
  states such a program reaches, what it may do in them without a crash, which structures it
  loses, and which it frees while the loop still links them.
\<close>

section \<open>Programs\<close>

record 'f objects =
  mem :: "'f heap"
  objs :: "nat \<rightharpoonup> wrapper"
  class_of :: "nat \<Rightarrow> uv_handle_type"
  started :: "nat \<Rightarrow> bool"
  closing :: "nat set"

text \<open>
  One operation. \<open>Reset\<close> is \<open>Tcp::reset\<close> and \<open>Udp::reset\<close>, which initialise what \<open>handle_reset\<close>
  allocated; \<open>Watch\<close> is \<open>FsEvent::start\<close>, which stores a callback and sets \<open>started_\<close>; \<open>Closed\<close> is the
  callback of \<open>close\<close>, made by the loop for a handle it was given. Objects of a class that declares a
  destructor cannot be moved in C++; the model lets them.
\<close>

datatype 'f operation =
    New nat uv_handle_type
  | Move nat nat
  | Assign nat nat
  | Reset nat uv_handle_type
  | Watch nat 'f
  | Close nat 'f
  | Destroy nat
  | Closed nat

definition reset_init :: "uv_handle_type \<Rightarrow> wrapper \<Rightarrow> 'f heap \<Rightarrow> wrapper \<times> 'f heap" where
  "reset_init ty w H =
     (let (w', H') = handle_reset w H
      in (w', case m_uv_handle w' of
                None \<Rightarrow> H'
              | Some a \<Rightarrow> if ty = UV_UNKNOWN_HANDLE then H' else uv_init ty a H'))"

text \<open>The destructor of the object's class: \<open>Udp\<close> and \<open>FsEvent\<close> have one of their own.\<close>

definition destroy :: "uv_handle_type \<Rightarrow> bool \<Rightarrow> wrapper \<Rightarrow> 'f heap \<Rightarrow> 'f heap outcome" where
  "destroy ty is_started w H =
     (if ty = UV_UDP then udp_dtor w H
      else if ty = UV_FS_EVENT then fs_event_dtor is_started w H
      else handle_dtor w H)"

fun perform :: "'f operation \<Rightarrow> 'f objects \<Rightarrow> 'f objects outcome" where
  "perform (New x ty) W =
     (let (w, H) = construct ty (mem W) in Ok (W\<lparr>mem := H, objs := (objs W)(x \<mapsto> w), class_of := (class_of W)(x := ty),
        started := (started W)(x := False)\<rparr>))"
| "perform (Move x y) W =
     and_then (deref (objs W y)) (\<lambda>o2.
       let (n, o2') = handle_move_ctor o2
       in Ok (W\<lparr>objs := (objs W)(y \<mapsto> o2', x \<mapsto> n), class_of := (class_of W)(x := class_of W y),
                started := (started W)(x := started W y)\<rparr>))"
| "perform (Assign x y) W =
     and_then (deref (objs W x)) (\<lambda>o1. and_then (deref (objs W y)) (\<lambda>o2.
       let (o1', o2') = handle_move_assign (x = y) o1 o2
       in Ok (W\<lparr>objs := (objs W)(y \<mapsto> o2', x \<mapsto> o1'), started := (started W)(x := started W y)\<rparr>)))"
| "perform (Reset x ty) W =
     and_then (deref (objs W x)) (\<lambda>w.
       let (w', H) = reset_init ty w (mem W) in Ok (W\<lparr>mem := H, objs := (objs W)(x \<mapsto> w')\<rparr>))"
| "perform (Watch x f) W =
     and_then (deref (objs W x)) (\<lambda>w. and_then (store_on (m_uv_handle w) uv_cid_fs_event FsEventClosure f (mem W)) (\<lambda>H.
       Ok (W\<lparr>mem := H, started := (started W)(x := True)\<rparr>)))"
| "perform (Close x f) W =
     and_then (deref (objs W x)) (\<lambda>w. and_then (handle_close f w (mem W)) (\<lambda>(w', H).
       Ok (W\<lparr>mem := H, objs := (objs W)(x \<mapsto> w'),
              closing := (if m_will_close w' then closing W \<union> set_option (m_uv_handle w) else closing W)\<rparr>)))"
| "perform (Destroy x) W =
     and_then (deref (objs W x)) (\<lambda>w. and_then (destroy (class_of W x) (started W x) w (mem W)) (\<lambda>H.
       Ok (W\<lparr>mem := H, objs := (objs W)(x := None)\<rparr>)))"
| "perform (Closed a) W =
     and_then (on_closed a (mem W)) (\<lambda>(_, H). Ok (W\<lparr>mem := H, closing := closing W - {a}\<rparr>))"

definition no_objects :: "'f objects" where
  "no_objects = \<lparr>mem = empty_heap, objs = Map.empty, class_of = (\<lambda>_. UV_UNKNOWN_HANDLE),
     started = (\<lambda>_. False), closing = {}\<rparr>"

text \<open>
  What C++ and libuv ask of a program: objects are constructed in fresh storage, of a class whose
  type \<open>free_handle\<close> knows, used while they exist and as objects of one class, and closed once; a
  \<open>Udp\<close> object, and an \<open>FsEvent\<close> that was started, is destroyed while it has its handle; the loop
  calls back what it was given. That a handle is closed before its object is destroyed, as libuv
  also asks, is not required here: it is what \<open>closes_all\<close> says below.
\<close>

definition owned :: "'f objects \<Rightarrow> nat \<Rightarrow> nat option" where
  "owned W x = (case objs W x of None \<Rightarrow> None | Some w \<Rightarrow> m_uv_handle w)"

fun legal :: "'f operation \<Rightarrow> 'f objects \<Rightarrow> bool" where
  "legal (New x ty) W \<longleftrightarrow> objs W x = None \<and> freeable ty"
| "legal (Move x y) W \<longleftrightarrow> objs W x = None \<and> objs W y \<noteq> None"
| "legal (Assign x y) W \<longleftrightarrow> objs W x \<noteq> None \<and> objs W y \<noteq> None \<and> class_of W x = class_of W y"
| "legal (Reset x ty) W \<longleftrightarrow> objs W x \<noteq> None \<and> class_of W x = ty \<and> freeable ty"
| "legal (Watch x f) W \<longleftrightarrow> owned W x \<noteq> None \<and> class_of W x = UV_FS_EVENT"
| "legal (Close x f) W \<longleftrightarrow> owned W x \<noteq> None"
| "legal (Destroy x) W \<longleftrightarrow> objs W x \<noteq> None \<and>
     (class_of W x = UV_UDP \<or> class_of W x = UV_FS_EVENT \<and> started W x \<longrightarrow> owned W x \<noteq> None)"
| "legal (Closed a) W \<longleftrightarrow> a \<in> closing W"

inductive reached :: "'f objects \<Rightarrow> bool" where
  start: "reached no_objects"
| next_op: "reached W \<Longrightarrow> legal op W \<Longrightarrow> perform op W = Ok W' \<Longrightarrow> reached W'"

text \<open>What a program has allocated and can no longer name.\<close>

definition lost :: "'f objects \<Rightarrow> nat set" where
  "lost W = dom (handles (mem W)) - {a. \<exists>x. owned W x = Some a} - closing W"

fun forgets :: "'f operation \<Rightarrow> 'f objects \<Rightarrow> nat set" where
  "forgets (Assign x y) W = (if x = y then {} else set_option (owned W x))"
| "forgets (Reset x ty) W = set_option (owned W x)"
| "forgets _ W = {}"

text \<open>What it frees unclosed.\<close>

fun frees_linked :: "'f operation \<Rightarrow> 'f objects \<Rightarrow> nat set" where
  "frees_linked (Destroy x) W = set_option (owned W x)"
| "frees_linked _ W = {}"

section \<open>The invariant\<close>

text \<open>
  Every structure is followed by its table, and there are no other tables; an object owns its
  structure alone and open; the structures the loop was given are closing and hold the callback.
  The loop links every structure.
\<close>

definition links_ok :: "'f heap \<Rightarrow> bool" where
  "links_ok H \<longleftrightarrow> dom (handles H) \<subseteq> linked H \<and> (\<forall>a \<in> linked H. a < next_addr H)"

definition cell_ok :: "'f heap \<Rightarrow> nat \<Rightarrow> bool" where
  "cell_ok H a \<longleftrightarrow>
     (case handles H a of
        None \<Rightarrow> tables H (Suc a) = None
      | Some h \<Rightarrow> (\<exists>lut. table_at a h (Suc a) lut H) \<and> freeable (h_type h) \<and> Suc a < next_addr H)"

definition heap_ok :: "'f heap \<Rightarrow> bool" where
  "heap_ok H \<longleftrightarrow> tables H 0 = None \<and> (\<forall>a. cell_ok H a)"

definition closing_ok :: "nat \<Rightarrow> 'f heap \<Rightarrow> bool" where
  "closing_ok a H \<longleftrightarrow>
     (\<exists>h lut co. table_at a h (Suc a) lut H \<and> h_closing h \<and> get_object lut uv_cid_close = Some co \<and> co_type co = Callback)"

definition open_ok :: "nat \<Rightarrow> 'f heap \<Rightarrow> bool" where
  "open_ok a H \<longleftrightarrow> (\<exists>h. handles H a = Some h \<and> \<not> h_closing h)"

definition objects_ok :: "'f objects \<Rightarrow> bool" where
  "objects_ok W \<longleftrightarrow>
     heap_ok (mem W) \<and>
     (\<forall>x a. owned W x = Some a \<longrightarrow> open_ok a (mem W)) \<and>
     (\<forall>x y a. owned W x = Some a \<and> owned W y = Some a \<longrightarrow> x = y) \<and>
     (\<forall>x w. objs W x = Some w \<and> m_will_close w \<longrightarrow> m_uv_handle w = None) \<and>
     (\<forall>a \<in> closing W. closing_ok a (mem W)) \<and> links_ok (mem W)"

lemma heap_okD:
  assumes "heap_ok H" "handles H a = Some h"
  obtains lut where "table_at a h (Suc a) lut H" "freeable (h_type h)" "Suc a < next_addr H"
proof -
  have "cell_ok H a" using assms(1) by (simp add: heap_ok_def)
  with assms(2) that show thesis by (auto simp: cell_ok_def)
qed

lemma heap_ok_fresh:
  assumes "heap_ok H"
  shows "fresh H"
proof (unfold fresh_def, intro allI impI conjI)
  fix a assume a: "next_addr H \<le> a"
  show "handles H a = None"
    using assms a by (cases "handles H a") (auto elim!: heap_okD)
  show "tables H a = None"
  proof (cases a)
    case 0
    with assms show ?thesis by (simp add: heap_ok_def)
  next
    case (Suc b)
    with assms a have "cell_ok H b" "handles H b = None"
      by (auto simp: heap_ok_def elim!: heap_okD) (metis assms heap_okD leD option.exhaust)
    with Suc show ?thesis by (simp add: cell_ok_def)
  qed
qed

lemma heap_ok_empty: "heap_ok empty_heap"
  by (simp add: heap_ok_def cell_ok_def empty_heap_def)

text \<open>The three effects on the heap: allocation, closing, and freeing.\<close>

definition alloc :: "uv_handle_type \<Rightarrow> 'f heap \<Rightarrow> 'f heap" where
  "alloc ty H =
     \<lparr>handles = (handles H)(next_addr H \<mapsto> \<lparr>h_type = ty, h_data = Some (Suc (next_addr H)), h_closing = False\<rparr>),
      tables = (tables H)(Suc (next_addr H) \<mapsto> new_callbacks), next_addr = next_addr H + 2,
      linked = insert (next_addr H) (linked H)\<rparr>"

definition mark :: "nat \<Rightarrow> uv_handle \<Rightarrow> 'f \<Rightarrow> 'f callbacks \<Rightarrow> 'f heap \<Rightarrow> 'f heap" where
  "mark a h f lut H =
     H\<lparr>tables := (tables H)(Suc a \<mapsto> put_object uv_cid_close \<lparr>co_type = Callback, co_fun = f, co_data = None\<rparr> lut),
       handles := (handles H)(a \<mapsto> h\<lparr>h_closing := True\<rparr>)\<rparr>"

definition freed :: "nat \<Rightarrow> 'f heap \<Rightarrow> 'f heap" where
  "freed a H = H\<lparr>tables := (tables H)(Suc a := None), handles := (handles H)(a := None)\<rparr>"

text \<open>A structure that is freed once libuv has closed it leaves the queue.\<close>

definition released :: "nat \<Rightarrow> 'f heap \<Rightarrow> 'f heap" where
  "released a H = (freed a H)\<lparr>linked := linked H - {a}\<rparr>"

text \<open>A callback stored in the table of an open structure.\<close>

definition stored :: "nat \<Rightarrow> uv_callback_id \<Rightarrow> 'f callback_object \<Rightarrow> 'f callbacks \<Rightarrow> 'f heap \<Rightarrow> 'f heap" where
  "stored a c co lut H = H\<lparr>tables := (tables H)(Suc a \<mapsto> put_object c co lut)\<rparr>"

lemma known_type: "freeable ty \<Longrightarrow> ty \<noteq> UV_UNKNOWN_HANDLE"
  by (auto simp: freeable_def)

lemma construct_alloc:
  "ty \<noteq> UV_UNKNOWN_HANDLE \<Longrightarrow>
   construct ty H = (\<lparr>m_uv_handle = Some (next_addr H), m_will_close = False\<rparr>, alloc ty H)"
  by (simp add: construct_eq alloc_def)

lemma reset_alloc: "ty \<noteq> UV_UNKNOWN_HANDLE \<Longrightarrow> reset_init ty w H = (\<lparr>m_uv_handle = Some (next_addr H), m_will_close = False\<rparr>, alloc ty H)"
  by (cases w) (simp add: reset_init_def handle_reset_def new_handle_def uv_init_def alloc_def Let_def)

lemma handles_alloc:
  "handles (alloc ty H) = (handles H)(next_addr H \<mapsto> \<lparr>h_type = ty, h_data = Some (Suc (next_addr H)), h_closing = False\<rparr>)"
  and handles_mark: "handles (mark a h f lut H) = (handles H)(a \<mapsto> h\<lparr>h_closing := True\<rparr>)"
  and handles_freed: "handles (freed a H) = (handles H)(a := None)"
  and handles_released: "handles (released a H) = (handles H)(a := None)"
  and handles_stored: "handles (stored a c co lut H) = handles H"
  by (simp_all add: alloc_def mark_def freed_def released_def stored_def)

text \<open>What the effects do to the queue.\<close>

lemma links_effects:
  assumes "links_ok H"
  shows "links_ok (alloc ty H)" "dangling (alloc ty H) = dangling H"
    "handles H a = Some h \<Longrightarrow> links_ok (mark a h f lut H)"
    "handles H a = Some h \<Longrightarrow> dangling (mark a h f lut H) = dangling H"
    "links_ok (freed a H)" "a \<in> dom (handles H) \<Longrightarrow> dangling (freed a H) = insert a (dangling H)"
    "links_ok (released a H)" "a \<in> dom (handles H) \<Longrightarrow> dangling (released a H) = dangling H"
    "links_ok (stored a c co lut H)" "dangling (stored a c co lut H) = dangling H"
  using assms
  by (auto simp: links_ok_def dangling_def alloc_def mark_def freed_def released_def stored_def split: if_splits)

text \<open>An effect at one address keeps the other cells.\<close>

lemma cell_ok_frame:
  assumes "cell_ok H a" "handles H' a = handles H a" "tables H' (Suc a) = tables H (Suc a)" "next_addr H \<le> next_addr H'"
  shows "cell_ok H' a"
  using assms by (auto simp: cell_ok_def table_at_def split: option.splits)

lemma heap_ok_change:
  assumes "heap_ok H" "tables H' 0 = None" "cell_ok H' a" "next_addr H \<le> next_addr H'"
    and "\<And>b. b \<noteq> a \<Longrightarrow> handles H' b = handles H b \<and> tables H' (Suc b) = tables H (Suc b)"
  shows "heap_ok H'"
proof -
  have "cell_ok H' b" for b
    using assms by (cases "b = a") (auto simp: heap_ok_def intro: cell_ok_frame)
  with assms(2) show ?thesis by (simp add: heap_ok_def)
qed

lemma heap_ok_alloc: "heap_ok H \<Longrightarrow> freeable ty \<Longrightarrow> heap_ok (alloc ty H)"
  by (rule heap_ok_change [where a = "next_addr H"])
     (auto simp: alloc_def cell_ok_def table_at_def heap_ok_def)

lemma heap_ok_mark:
  assumes "heap_ok H" "handles H a = Some h" "table_at a h (Suc a) lut H"
  shows "heap_ok (mark a h f lut H)"
proof -
  have "freeable (h_type h)" "Suc a < next_addr H" using heap_okD [OF assms(1,2)] by blast+
  moreover have "tables H 0 = None" using assms(1) by (simp add: heap_ok_def)
  ultimately show ?thesis
    using assms by (intro heap_ok_change [OF assms(1), where a = a])
      (auto simp: mark_def cell_ok_def table_at_def slots.valid_put)
qed

lemma heap_ok_freed: "heap_ok H \<Longrightarrow> heap_ok (freed a H)"
  by (rule heap_ok_change [where a = a]) (auto simp: freed_def cell_ok_def heap_ok_def)

lemma heap_ok_released: "heap_ok H \<Longrightarrow> heap_ok (released a H)"
  by (rule heap_ok_change [where a = a]) (auto simp: freed_def released_def cell_ok_def heap_ok_def)

lemma heap_ok_stored:
  assumes "heap_ok H" "handles H a = Some h" "table_at a h (Suc a) lut H"
  shows "heap_ok (stored a c co lut H)"
proof -
  have "freeable (h_type h)" "Suc a < next_addr H" using heap_okD [OF assms(1,2)] by blast+
  moreover have "tables H 0 = None" using assms(1) by (simp add: heap_ok_def)
  ultimately show ?thesis
    using assms by (intro heap_ok_change [OF assms(1), where a = a])
      (auto simp: stored_def cell_ok_def table_at_def slots.valid_put)
qed

lemma close_marks:
  assumes "heap_ok H" "open_ok a H" "m_uv_handle w = Some a"
  obtains h lut where "handles H a = Some h" "table_at a h (Suc a) lut H"
    "handle_close f w H = Ok (\<lparr>m_uv_handle = None, m_will_close = True\<rparr>, mark a h f lut H)"
proof -
  from assms(2) obtain h where h: "handles H a = Some h" "\<not> h_closing h" by (auto simp: open_ok_def)
  then obtain lut where "table_at a h (Suc a) lut H" using assms(1) by (blast elim: heap_okD)
  with h assms(3) show thesis by (intro that) (simp_all add: handle_close_eq mark_def)
qed

lemma free_frees:
  assumes "heap_ok H" "handles H a = Some h"
  shows "free_handle (Some a) H = Ok (freed a H)"
  using assms by (auto elim!: heap_okD simp: free_handle_eq freed_def)

lemma on_closed_frees:
  assumes "heap_ok H" "closing_ok a H"
  obtains f where "on_closed a H = Ok (f, released a H)"
proof -
  from assms(2) obtain h lut co where c: "table_at a h (Suc a) lut H"
      "get_object lut uv_cid_close = Some co" "co_type co = Callback"
    by (auto simp: closing_ok_def)
  then have "freeable (h_type h)" using assms(1) by (auto simp: table_at_def elim!: heap_okD)
  with c show thesis by (intro that) (simp add: on_closed_eq freed_def released_def)
qed

text \<open>What the effects leave alone.\<close>

lemma open_ok_frames:
  assumes "open_ok a H"
  shows "heap_ok H \<Longrightarrow> open_ok a (alloc ty H)"
    and "b \<noteq> a \<Longrightarrow> open_ok a (mark b h f lut H)"
    and "b \<noteq> a \<Longrightarrow> open_ok a (freed b H)"
    and "b \<noteq> a \<Longrightarrow> open_ok a (released b H)"
    and "open_ok a (stored b c co lut H)"
  using assms
  by (auto simp: open_ok_def handles_alloc handles_mark handles_freed handles_released handles_stored elim!: heap_okD)

lemma open_ok_alloc: "open_ok (next_addr H) (alloc ty H)"
  by (simp add: open_ok_def handles_alloc)

lemma closing_ok_frames:
  assumes "closing_ok a H"
  shows "heap_ok H \<Longrightarrow> closing_ok a (alloc ty H)"
    and "b \<noteq> a \<Longrightarrow> closing_ok a (mark b h' f lut' H)"
    and "b \<noteq> a \<Longrightarrow> closing_ok a (freed b H)"
    and "b \<noteq> a \<Longrightarrow> closing_ok a (released b H)"
    and "b \<noteq> a \<Longrightarrow> closing_ok a (stored b cb co' lut' H)"
proof -
  from assms obtain h lut co where c: "table_at a h (Suc a) lut H" "h_closing h"
      "get_object lut uv_cid_close = Some co" "co_type co = Callback"
    by (auto simp: closing_ok_def)
  show "heap_ok H \<Longrightarrow> closing_ok a (alloc ty H)"
  proof -
    assume "heap_ok H"
    with c(1) have "Suc a < next_addr H" by (auto simp: table_at_def elim!: heap_okD)
    with c show ?thesis by (auto simp: closing_ok_def table_at_def alloc_def)
  qed
  show "b \<noteq> a \<Longrightarrow> closing_ok a (mark b h' f lut' H)" "b \<noteq> a \<Longrightarrow> closing_ok a (freed b H)"
    "b \<noteq> a \<Longrightarrow> closing_ok a (released b H)" "b \<noteq> a \<Longrightarrow> closing_ok a (stored b cb co' lut' H)"
    using c by (auto simp: closing_ok_def table_at_def mark_def freed_def released_def stored_def)
qed

lemma closing_ok_mark: "table_at a h (Suc a) lut H \<Longrightarrow> closing_ok a (mark a h f lut H)"
  by (auto simp: closing_ok_def mark_def table_at_def slots.valid_put slots.get_put)

lemma closing_not_open: "closing_ok a H \<Longrightarrow> \<not> open_ok a H"
  by (auto simp: closing_ok_def open_ok_def table_at_def)

section \<open>Preservation\<close>

text \<open>
  What an operation is to show: it does not crash, keeps the invariant, loses what it forgets and
  leaves dangling what it frees unclosed.
\<close>

definition performs :: "'f operation \<Rightarrow> 'f objects \<Rightarrow> bool" where
  "performs op W \<longleftrightarrow> (\<exists>W'. perform op W = Ok W' \<and> objects_ok W' \<and> lost W' = lost W \<union> forgets op W \<and>
     dangling (mem W') = dangling (mem W) \<union> frees_linked op W)"

lemma performsI:
  "perform op W = Ok W' \<Longrightarrow> objects_ok W' \<and> lost W' = lost W \<union> F \<Longrightarrow>
   dangling (mem W') = dangling (mem W) \<union> D \<Longrightarrow> F = forgets op W \<Longrightarrow> D = frees_linked op W \<Longrightarrow> performs op W"
  by (auto simp: performs_def)

lemma owned_some: "objs W x = Some w \<Longrightarrow> owned W x = m_uv_handle w"
  by (simp add: owned_def)

lemma owned_put:
  "objs W' = (objs W)(x \<mapsto> w) \<Longrightarrow> owned W' = (owned W)(x := m_uv_handle w)"
  and owned_drop: "objs W' = (objs W)(x := None) \<Longrightarrow> owned W' = (owned W)(x := None)"
  by (auto simp: owned_def fun_eq_iff)

lemma objects_okD:
  assumes "objects_ok W"
  shows "heap_ok (mem W)" "owned W x = Some a \<Longrightarrow> open_ok a (mem W)"
    "owned W x = Some a \<Longrightarrow> owned W y = Some a \<Longrightarrow> x = y"
    "objs W x = Some w \<Longrightarrow> m_will_close w \<Longrightarrow> m_uv_handle w = None"
    "b \<in> closing W \<Longrightarrow> closing_ok b (mem W)"
    "owned W x = Some a \<Longrightarrow> a \<notin> closing W" "links_ok (mem W)"
proof -
  show "links_ok (mem W)" using assms unfolding objects_ok_def by blast
  show "heap_ok (mem W)" and o: "owned W x = Some a \<Longrightarrow> open_ok a (mem W)"
    and "owned W x = Some a \<Longrightarrow> owned W y = Some a \<Longrightarrow> x = y"
    and "objs W x = Some w \<Longrightarrow> m_will_close w \<Longrightarrow> m_uv_handle w = None"
    and "b \<in> closing W \<Longrightarrow> closing_ok b (mem W)"
    using assms unfolding objects_ok_def by blast+
  show "a \<notin> closing W" if "owned W x = Some a"
    using assms that closing_not_open unfolding objects_ok_def by blast
qed

lemma open_dom: "open_ok a H \<Longrightarrow> a \<in> dom (handles H)"
  and closing_dom: "closing_ok a H \<Longrightarrow> a \<in> dom (handles H)"
  by (auto simp: open_ok_def closing_ok_def table_at_def)

lemma next_unused:
  assumes "objects_ok W"
  shows "owned W x \<noteq> Some (next_addr (mem W))" "next_addr (mem W) \<notin> closing W" "handles (mem W) (next_addr (mem W)) = None"
proof -
  show n: "handles (mem W) (next_addr (mem W)) = None"
    using heap_ok_fresh [OF objects_okD(1) [OF assms]] by (simp add: fresh_def)
  show "owned W x \<noteq> Some (next_addr (mem W))" using n open_dom objects_okD(2) [OF assms] by fastforce
  show "next_addr (mem W) \<notin> closing W" using n closing_dom objects_okD(5) [OF assms] by fastforce
qed

text \<open>An object, new or not, that takes a fresh structure.\<close>

lemma take_fresh:
  assumes W: "objects_ok W" and ty: "freeable ty"
    and W': "mem W' = alloc ty (mem W)" "closing W' = closing W"
      "objs W' = (objs W)(x \<mapsto> \<lparr>m_uv_handle = Some (next_addr (mem W)), m_will_close = False\<rparr>)"
  shows "objects_ok W' \<and> lost W' = lost W \<union> set_option (owned W x)"
proof
  note d = objects_okD [OF W] and n = next_unused [OF W]
  have o: "owned W' = (owned W)(x \<mapsto> next_addr (mem W))" using owned_put [OF W'(3)] by simp
  have "heap_ok (mem W')" using d(1) ty by (simp add: W' heap_ok_alloc)
  moreover have "open_ok a (mem W')" if "owned W' y = Some a" for y a
    using that d(1,2) by (auto simp: W'(1) o open_ok_alloc intro: open_ok_frames split: if_splits)
  moreover have "y = z" if "owned W' y = Some a" "owned W' z = Some a" for y z a
    using that d(3) n(1) by (auto simp: o split: if_splits)
  moreover have "m_uv_handle w = None" if "objs W' y = Some w" "m_will_close w" for y w
    using that d(4) by (auto simp: W'(3) split: if_splits)
  moreover have "closing_ok a (mem W')" if "a \<in> closing W'" for a
    using that d(1,5) by (auto simp: W' intro: closing_ok_frames)
  moreover have "links_ok (mem W')" unfolding W' by (rule links_effects [OF d(7)])
  ultimately show "objects_ok W'" unfolding objects_ok_def by blast
  have "dom (handles (mem W')) = insert (next_addr (mem W)) (dom (handles (mem W)))"
    by (simp add: W' handles_alloc)
  moreover have "{a. \<exists>y. owned W' y = Some a} =
      insert (next_addr (mem W)) ({a. \<exists>y. owned W y = Some a} - set_option (owned W x))"
    using d(3) [of _ _ x] by (auto simp: o) metis
  moreover have "set_option (owned W x) \<subseteq> dom (handles (mem W)) - closing W"
    using d(2,6) open_dom by fastforce
  moreover have "next_addr (mem W) \<notin> dom (handles (mem W))" using n(3) by auto
  ultimately show "lost W' = lost W \<union> set_option (owned W x)" unfolding lost_def W'(2) by auto
qed

text \<open>An object, new or not, that takes over the structure of another.\<close>

lemma take_over:
  assumes W: "objects_ok W" and y: "objs W y = Some w" "x \<noteq> y"
    and W': "mem W' = mem W" "closing W' = closing W"
      "objs W' = (objs W)(y \<mapsto> \<lparr>m_uv_handle = None, m_will_close = False\<rparr>, x \<mapsto> w)"
  shows "objects_ok W' \<and> lost W' = lost W \<union> set_option (owned W x)"
proof
  note d = objects_okD [OF W]
  have o: "owned W' = (owned W)(y := None, x := owned W y)"
    using y W'(3) by (auto simp: owned_def fun_eq_iff)
  have "open_ok a (mem W')" if "owned W' z = Some a" for z a
    using that d(2) by (auto simp: W'(1) o split: if_splits)
  moreover have "u = z" if "owned W' u = Some a" "owned W' z = Some a" for u z a
    using that d(3) by (auto simp: o split: if_splits)
  moreover have "m_uv_handle v = None" if "objs W' z = Some v" "m_will_close v" for z v
    using that d(4) y by (auto simp: W'(3) split: if_splits)
  ultimately show "objects_ok W'" using d(1,5,7) unfolding objects_ok_def W'(1,2) by blast
  have "(\<exists>z. owned W' z = Some a) \<longleftrightarrow> (\<exists>z. owned W z = Some a) \<and> owned W x \<noteq> Some a" for a
    unfolding o using d(3) [of _ a x] y(2) by (metis fun_upd_apply option.distinct(1))
  then have "{a. \<exists>z. owned W' z = Some a} = {a. \<exists>z. owned W z = Some a} - set_option (owned W x)"
    by auto
  moreover have "set_option (owned W x) \<subseteq> dom (handles (mem W)) - closing W"
    using d(2,6) open_dom by fastforce
  ultimately show "lost W' = lost W \<union> set_option (owned W x)" unfolding lost_def W'(1,2) by auto
qed

text \<open>An object that gives its structure up, to the loop or to the allocator.\<close>

lemma give_up:
  assumes W: "objects_ok W" and x: "owned W x = Some a"
    and L: "links_ok (mem W')"
    and W': "heap_ok (mem W')" "owned W' = (owned W)(x := None)"
      "\<And>b. b \<noteq> a \<Longrightarrow> open_ok b (mem W) \<Longrightarrow> open_ok b (mem W')"
      "\<And>y w. objs W' y = Some w \<Longrightarrow> m_will_close w \<Longrightarrow> m_uv_handle w = None"
      "\<And>b. b \<in> closing W' \<Longrightarrow> closing_ok b (mem W')"
      "dom (handles (mem W')) - closing W' = dom (handles (mem W)) - insert a (closing W)"
  shows "objects_ok W' \<and> lost W' = lost W"
proof
  note d = objects_okD [OF W]
  have own: "owned W' y = Some b \<longleftrightarrow> owned W y = Some b \<and> b \<noteq> a" for y b
    unfolding W'(2) using d(3) [of y a x] x by (metis fun_upd_apply option.distinct(1) option.inject)
  have "open_ok b (mem W')" if "owned W' y = Some b" for y b
    using that W'(3) d(2) by (auto simp: own)
  moreover have "y = z" if "owned W' y = Some b" "owned W' z = Some b" for y z b
    using that d(3) by (simp add: own)
  ultimately show "objects_ok W'" using W'(1,4,5) L unfolding objects_ok_def by blast
  have "lost W' = (dom (handles (mem W')) - closing W') - {b. \<exists>y. owned W' y = Some b}"
    by (auto simp: lost_def)
  also have "\<dots> = lost W" unfolding W'(6) lost_def using x by (auto simp: own)
  finally show "lost W' = lost W" .
qed

section \<open>The operations\<close>

lemma performs_New:
  assumes "objects_ok W" "legal (New x ty) W"
  shows "performs (New x ty) W"
proof (rule performsI)
  let ?W = "W\<lparr>mem := alloc ty (mem W), objs := (objs W)(x \<mapsto> \<lparr>m_uv_handle = Some (next_addr (mem W)), m_will_close = False\<rparr>),
    class_of := (class_of W)(x := ty), started := (started W)(x := False)\<rparr>"
  have ty: "ty \<noteq> UV_UNKNOWN_HANDLE" using assms by (auto simp: freeable_def)
  then show "perform (New x ty) W = Ok ?W" by (simp add: construct_alloc)
  show "objects_ok ?W \<and> lost ?W = lost W \<union> set_option (owned W x)"
    using assms by (intro take_fresh) simp_all
  show "dangling (mem ?W) = dangling (mem W) \<union> {}"
    using links_effects(2) [OF objects_okD(7) [OF assms(1)]] by simp
qed (use assms in \<open>simp_all add: owned_def\<close>)

lemma performs_Reset:
  assumes "objects_ok W" "legal (Reset x ty) W"
  shows "performs (Reset x ty) W"
proof (rule performsI)
  let ?W = "W\<lparr>mem := alloc ty (mem W), objs := (objs W)(x \<mapsto> \<lparr>m_uv_handle = Some (next_addr (mem W)), m_will_close = False\<rparr>)\<rparr>"
  show "perform (Reset x ty) W = Ok ?W" using assms known_type [of ty] by (auto simp: reset_alloc)
  show "objects_ok ?W \<and> lost ?W = lost W \<union> set_option (owned W x)"
    using assms by (intro take_fresh) simp_all
  show "dangling (mem ?W) = dangling (mem W) \<union> {}"
    using links_effects(2) [OF objects_okD(7) [OF assms(1)]] by simp
qed simp_all

lemma performs_Move:
  assumes "objects_ok W" "legal (Move x y) W"
  shows "performs (Move x y) W"
proof -
  from assms obtain w where y: "objs W y = Some w" by auto
  have xy: "x \<noteq> y" using assms by auto
  let ?W = "W\<lparr>objs := (objs W)(y \<mapsto> \<lparr>m_uv_handle = None, m_will_close = False\<rparr>, x \<mapsto> w),
    class_of := (class_of W)(x := class_of W y), started := (started W)(x := started W y)\<rparr>"
  show ?thesis
  proof (rule performsI)
    show "perform (Move x y) W = Ok ?W" using y by (simp add: handle_move_ctor_def)
    show "objects_ok ?W \<and> lost ?W = lost W \<union> set_option (owned W x)"
      using assms(1) y xy by (intro take_over) simp_all
    show "dangling (mem ?W) = dangling (mem W) \<union> {}" by simp
  qed (use assms in \<open>simp_all add: owned_def\<close>)
qed

lemma performs_Assign:
  assumes "objects_ok W" "legal (Assign x y) W"
  shows "performs (Assign x y) W"
proof (cases "x = y")
  case True
  with assms obtain w where y: "objs W y = Some w" by auto
  then have "W\<lparr>objs := (objs W)(y \<mapsto> w), started := started W\<rparr> = W" by (simp add: fun_upd_idem)
  with True y assms show ?thesis by (intro performsI [of _ _ W "{}" "{}"]) (simp_all add: handle_move_assign_def)
next
  case False
  from assms obtain v w where y: "objs W x = Some v" "objs W y = Some w" by auto
  let ?W = "W\<lparr>objs := (objs W)(y \<mapsto> \<lparr>m_uv_handle = None, m_will_close = False\<rparr>, x \<mapsto> w),
    started := (started W)(x := started W y)\<rparr>"
  show ?thesis
  proof (rule performsI)
    show "perform (Assign x y) W = Ok ?W" using y False by (cases w) (simp add: handle_move_assign_def)
    show "objects_ok ?W \<and> lost ?W = lost W \<union> set_option (owned W x)"
      using assms(1) y(2) False by (intro take_over) simp_all
    show "dangling (mem ?W) = dangling (mem W) \<union> {}" by simp
  qed (use False in simp_all)
qed

lemma performs_Close:
  assumes W: "objects_ok W" and l: "legal (Close x f) W"
  shows "performs (Close x f) W"
proof -
  note d = objects_okD [OF W]
  from l obtain a where a: "owned W x = Some a" by auto
  then obtain w where x: "objs W x = Some w" "m_uv_handle w = Some a" by (auto simp: owned_def split: option.splits)
  from close_marks [OF d(1) d(2) [OF a] x(2), of f] obtain h lut where c: "handles (mem W) a = Some h"
      "table_at a h (Suc a) lut (mem W)"
      "handle_close f w (mem W) = Ok (\<lparr>m_uv_handle = None, m_will_close = True\<rparr>, mark a h f lut (mem W))"
    by blast
  let ?W = "W\<lparr>mem := mark a h f lut (mem W), objs := (objs W)(x \<mapsto> \<lparr>m_uv_handle = None, m_will_close = True\<rparr>),
    closing := insert a (closing W)\<rparr>"
  show ?thesis
  proof (rule performsI)
    show "perform (Close x f) W = Ok ?W" using x c(3) by simp
    have "objects_ok ?W \<and> lost ?W = lost W"
    proof (rule give_up [OF W a])
      show "links_ok (mem ?W)" using links_effects(3) [OF d(7) c(1)] by simp
      show "heap_ok (mem ?W)" using heap_ok_mark [OF d(1) c(1,2)] by simp
      show "owned ?W = (owned W)(x := None)"
        using owned_put [of ?W W x "\<lparr>m_uv_handle = None, m_will_close = True\<rparr>"] by simp
      show "open_ok b (mem ?W)" if "b \<noteq> a" "open_ok b (mem W)" for b
        using that by (auto intro: open_ok_frames)
      show "m_uv_handle v = None" if "objs ?W y = Some v" "m_will_close v" for y v
        using that d(4) by (auto split: if_splits)
      show "closing_ok b (mem ?W)" if "b \<in> closing ?W" for b
        using that c(2) d(5) by (cases "b = a") (auto intro: closing_ok_mark closing_ok_frames)
      show "dom (handles (mem ?W)) - closing ?W = dom (handles (mem W)) - insert a (closing W)"
        using c(1) by (auto simp: handles_mark)
    qed
    then show "objects_ok ?W \<and> lost ?W = lost W \<union> {}" by simp
    show "dangling (mem ?W) = dangling (mem W) \<union> {}" using links_effects(4) [OF d(7) c(1)] by simp
  qed simp_all
qed

lemma performs_Watch:
  assumes W: "objects_ok W" and l: "legal (Watch x f) W"
  shows "performs (Watch x f) W"
proof -
  note d = objects_okD [OF W]
  from l obtain a where a: "owned W x = Some a" by auto
  then obtain w where x: "objs W x = Some w" "m_uv_handle w = Some a" by (auto simp: owned_def split: option.splits)
  from d(2) [OF a] obtain h where h: "handles (mem W) a = Some h" by (auto simp: open_ok_def)
  then obtain lut where t: "table_at a h (Suc a) lut (mem W)" using d(1) by (blast elim: heap_okD)
  let ?H = "stored a uv_cid_fs_event \<lparr>co_type = FsEventClosure, co_fun = f, co_data = None\<rparr> lut (mem W)"
  let ?W = "W\<lparr>mem := ?H, started := (started W)(x := True)\<rparr>"
  have o: "owned ?W = owned W" by (simp add: owned_def fun_eq_iff)
  show ?thesis
  proof (rule performsI)
    show "perform (Watch x f) W = Ok ?W" using x store_on_eq [OF t] by (simp add: stored_def)
    have c: "closing_ok b ?H" if "b \<in> closing W" for b
    proof -
      have "b \<noteq> a" using that d(6) [OF a] by blast
      then have "a \<noteq> b" by simp
      from closing_ok_frames(5) [OF d(5) [OF that] this] show ?thesis .
    qed
    have "objects_ok ?W" unfolding objects_ok_def o
      using d(1-4) h t links_effects(9) [OF d(7)] c
      by (auto intro: heap_ok_stored open_ok_frames)
    moreover have "lost ?W = lost W" by (simp add: lost_def o handles_stored)
    ultimately show "objects_ok ?W \<and> lost ?W = lost W \<union> {}" by simp
    show "dangling (mem ?W) = dangling (mem W) \<union> {}" using links_effects(10) [OF d(7)] by simp
  qed simp_all
qed

lemma performs_Destroy:
  assumes W: "objects_ok W" and l: "legal (Destroy x) W"
  shows "performs (Destroy x) W"
proof -
  note d = objects_okD [OF W]
  from l obtain w where x: "objs W x = Some w" by auto
  show ?thesis
  proof (cases "m_uv_handle w")
    case None
    let ?W = "W\<lparr>objs := (objs W)(x := None)\<rparr>"
    have o: "owned ?W = owned W" using x None by (auto simp: owned_def fun_eq_iff)
    show ?thesis
    proof (rule performsI)
      show "perform (Destroy x) W = Ok ?W" using x None l
        by (auto simp: destroy_def fs_event_dtor_def handle_dtor_def free_handle_def owned_def)
      have "objects_ok ?W" using d(1-5,7) unfolding objects_ok_def o by (auto split: if_splits)
      then show "objects_ok ?W \<and> lost ?W = lost W \<union> {}" by (simp add: lost_def o)
      show "dangling (mem ?W) = dangling (mem W) \<union> {}" by simp
    qed (use x None in \<open>simp_all add: owned_def\<close>)
  next
    case (Some a)
    then have a: "owned W x = Some a" and "\<not> m_will_close w" using x d(4) [OF x] by (auto simp: owned_def)
    from d(2) [OF a] obtain h where h: "handles (mem W) a = Some h" by (auto simp: open_ok_def)
    let ?W = "W\<lparr>mem := freed a (mem W), objs := (objs W)(x := None)\<rparr>"
    show ?thesis
    proof (rule performsI)
      show "perform (Destroy x) W = Ok ?W"
        using x Some \<open>\<not> m_will_close w\<close> free_frees [OF d(1) h] h
        by (simp add: destroy_def udp_dtor_def uv_udp_recv_stop_def fs_event_dtor_def uv_fs_event_stop_def handle_dtor_def)
      have "objects_ok ?W \<and> lost ?W = lost W"
      proof (rule give_up [OF W a])
        show "links_ok (mem ?W)" using links_effects(5) [OF d(7)] by simp
        show "heap_ok (mem ?W)" using heap_ok_freed [OF d(1)] by simp
        show "owned ?W = (owned W)(x := None)" by (subst owned_drop) simp_all
        show "open_ok b (mem ?W)" if "b \<noteq> a" "open_ok b (mem W)" for b
          using that by (auto intro: open_ok_frames)
        show "m_uv_handle v = None" if "objs ?W y = Some v" "m_will_close v" for y v
          using that d(4) by (auto split: if_splits)
        show "closing_ok b (mem ?W)" if "b \<in> closing ?W" for b
          using that d(5) d(6) [OF a] by (auto intro: closing_ok_frames)
        show "dom (handles (mem ?W)) - closing ?W = dom (handles (mem W)) - insert a (closing W)"
          by (auto simp: handles_freed)
      qed
      then show "objects_ok ?W \<and> lost ?W = lost W \<union> {}" by simp
      show "dangling (mem ?W) = dangling (mem W) \<union> {a}"
        using links_effects(6) [OF d(7), of a] h by auto
    qed (simp_all add: a)
  qed
qed

lemma performs_Closed:
  assumes W: "objects_ok W" and l: "legal (Closed a) W"
  shows "performs (Closed a) W"
proof -
  note d = objects_okD [OF W]
  have c: "closing_ok a (mem W)" using l d(5) by simp
  from on_closed_frees [OF d(1) c] obtain f where f: "on_closed a (mem W) = Ok (f, released a (mem W))" by blast
  let ?W = "W\<lparr>mem := released a (mem W), closing := closing W - {a}\<rparr>"
  have o: "owned ?W = owned W" by (simp add: owned_def fun_eq_iff)
  show ?thesis
  proof (rule performsI)
    show "perform (Closed a) W = Ok ?W" using f by simp
    have na: "a \<noteq> b" if "owned W y = Some b" for y b using that d(2) closing_not_open [OF c] by blast
    have "objects_ok ?W" unfolding objects_ok_def o
      using d(1-5) na links_effects(7) [OF d(7)]
      by (auto intro: heap_ok_released closing_ok_frames) (metis na open_ok_frames(4))
    moreover have "lost ?W = lost W" using l na by (auto simp: lost_def o handles_released)
    ultimately show "objects_ok ?W \<and> lost ?W = lost W \<union> {}" by simp
    show "dangling (mem ?W) = dangling (mem W) \<union> {}"
      using links_effects(8) [OF d(7) closing_dom [OF c]] by simp
  qed simp_all
qed

lemma performs_legal: "objects_ok W \<Longrightarrow> legal op W \<Longrightarrow> performs op W"
  by (cases op)
     (blast intro: performs_New performs_Move performs_Assign performs_Reset performs_Watch performs_Close performs_Destroy performs_Closed)+

lemma objects_ok_start: "objects_ok no_objects"
  using heap_ok_empty by (simp add: objects_ok_def no_objects_def owned_def links_ok_def empty_heap_def)

lemma reached_ok: "reached W \<Longrightarrow> objects_ok W"
  by (induction rule: reached.induct) (use performs_legal in \<open>force simp: performs_def objects_ok_start\<close>)+

lemma reached_step:
  assumes "reached W" "legal op W"
  obtains W' where "perform op W = Ok W'" "reached W'" "lost W' = lost W \<union> forgets op W"
    "dangling (mem W') = dangling (mem W) \<union> frees_linked op W"
  using performs_legal [OF reached_ok [OF assms(1)] assms(2)] assms unfolding performs_def
  by (blast intro: next_op)

lemma tables_follow:
  assumes "heap_ok H" "handles H = Map.empty"
  shows "tables H = Map.empty"
proof
  fix d
  show "tables H d = None"
    using assms by (cases d) (simp_all add: heap_ok_def cell_ok_def)
qed

section \<open>Runs\<close>

fun run_all :: "'f operation list \<Rightarrow> 'f objects \<Rightarrow> 'f objects outcome" where
  "run_all [] W = Ok W"
| "run_all (op # ops) W = and_then (perform op W) (run_all ops)"

text \<open>A run every operation of which is legal where it happens, and one that also forgets nothing.\<close>

fun legal_run :: "'f operation list \<Rightarrow> 'f objects \<Rightarrow> bool" where
  "legal_run [] W \<longleftrightarrow> True"
| "legal_run (op # ops) W \<longleftrightarrow>
     legal op W \<and> (case perform op W of Ok W' \<Rightarrow> legal_run ops W' | Crash s \<Rightarrow> True)"

fun keeps_all :: "'f operation list \<Rightarrow> 'f objects \<Rightarrow> bool" where
  "keeps_all [] W \<longleftrightarrow> True"
| "keeps_all (op # ops) W \<longleftrightarrow>
     forgets op W = {} \<and> (case perform op W of Ok W' \<Rightarrow> keeps_all ops W' | Crash s \<Rightarrow> True)"

text \<open>A run that destroys no object that still holds its handle.\<close>

fun closes_all :: "'f operation list \<Rightarrow> 'f objects \<Rightarrow> bool" where
  "closes_all [] W \<longleftrightarrow> True"
| "closes_all (op # ops) W \<longleftrightarrow>
     frees_linked op W = {} \<and> (case perform op W of Ok W' \<Rightarrow> closes_all ops W' | Crash s \<Rightarrow> True)"

lemma run_all_reaches:
  "reached W \<Longrightarrow> legal_run ops W \<Longrightarrow> \<exists>W'. run_all ops W = Ok W' \<and> reached W'"
proof (induction ops arbitrary: W)
  case (Cons op ops)
  then obtain V where "perform op W = Ok V" "reached V"
    using reached_step by (metis legal_run.simps(2))
  with Cons show ?case by simp
qed simp

lemma run_all_keeps:
  "reached W \<Longrightarrow> legal_run ops W \<Longrightarrow> keeps_all ops W \<Longrightarrow> run_all ops W = Ok W' \<Longrightarrow> lost W' = lost W"
proof (induction ops arbitrary: W)
  case (Cons op ops)
  then obtain V where V: "perform op W = Ok V" "reached V" "lost V = lost W \<union> forgets op W"
    using reached_step by (metis legal_run.simps(2))
  with Cons show ?case by simp
qed simp

lemma run_all_dangling:
  "reached W \<Longrightarrow> legal_run ops W \<Longrightarrow> run_all ops W = Ok W' \<Longrightarrow>
   dangling (mem W) \<subseteq> dangling (mem W') \<and> (dangling (mem W) = {} \<longrightarrow> (dangling (mem W') = {} \<longleftrightarrow> closes_all ops W))"
proof (induction ops arbitrary: W)
  case (Cons op ops)
  then obtain V where V: "perform op W = Ok V" "reached V" "dangling (mem V) = dangling (mem W) \<union> frees_linked op W"
    using reached_step by (metis legal_run.simps(2))
  have "legal_run ops V" "run_all ops V = Ok W'" using Cons.prems V(1) by simp_all
  then have i: "dangling (mem V) \<subseteq> dangling (mem W') \<and>
      (dangling (mem V) = {} \<longrightarrow> (dangling (mem W') = {} \<longleftrightarrow> closes_all ops V))"
    by (rule Cons.IH [OF V(2)])
  show ?case
  proof (cases "frees_linked op W = {}")
    case True
    with i V(1,3) show ?thesis by simp
  next
    case False
    with i V(1,3) show ?thesis by auto
  qed
qed simp

lemma close_clears:
  assumes "reached W" "legal (Close x f) W"
  obtains W' where "perform (Close x f) W = Ok W'" "class_of W' = class_of W" "started W' = started W"
    "objs W' x = Some \<lparr>m_uv_handle = None, m_will_close = True\<rparr>"
proof -
  note d = objects_okD [OF reached_ok [OF assms(1)]]
  from assms(2) obtain a w where x: "owned W x = Some a" "objs W x = Some w" "m_uv_handle w = Some a"
    by (auto simp: owned_def split: option.splits)
  from close_marks [OF d(1) d(2) [OF x(1)] x(3), of f] obtain h lut where
    "handle_close f w (mem W) = Ok (\<lparr>m_uv_handle = None, m_will_close = True\<rparr>, mark a h f lut (mem W))"
    by blast
  with x(2) that show thesis by simp
qed

section \<open>Properties\<close>

text \<open>
  Property C34: a program over the wrappers of the classes that \<open>free_handle\<close> knows (not \<open>FsPoll\<close>) that
  constructs objects in fresh storage, uses them while they exist, closes each handle at most once, and
  destroys a \<open>Udp\<close> object or a started \<open>FsEvent\<close> only while it has its handle, never fails an assertion
  and never reads a structure or table that is freed, whatever the order of its
  operations and of the loop's callbacks. When all objects are destroyed and all callbacks made,
  every structure and every table is freed, if it neither move-assigned nor reset an
  object that held a handle. And it leaves no freed structure linked in the loop's queue if and only if it
  destroyed no object that still held its handle.
\<close>

theorem wrappers_release_all:
  assumes "legal_run ops no_objects"
  shows "\<exists>W. run_all ops no_objects = Ok W \<and>
    (keeps_all ops no_objects \<longrightarrow> objs W = Map.empty \<longrightarrow> closing W = {} \<longrightarrow>
       handles (mem W) = Map.empty \<and> tables (mem W) = Map.empty) \<and>
    (dangling (mem W) = {} \<longleftrightarrow> closes_all ops no_objects)"
proof -
  from run_all_reaches [OF reached.start assms] obtain W where W: "run_all ops no_objects = Ok W" "reached W"
    by blast
  have "handles (mem W) = Map.empty" if "keeps_all ops no_objects" "objs W = Map.empty" "closing W = {}"
  proof -
    have "lost W = {}"
      using run_all_keeps [OF reached.start assms that(1) W(1)] by (simp add: lost_def no_objects_def empty_heap_def)
    then show ?thesis using that by (simp add: lost_def owned_def)
  qed
  moreover have "dangling (mem no_objects) = {}" by (simp add: dangling_def no_objects_def empty_heap_def)
  with run_all_dangling [OF reached.start assms W(1)]
  have "dangling (mem W) = {} \<longleftrightarrow> closes_all ops no_objects" by blast
  ultimately show ?thesis using W tables_follow objects_okD(1) [OF reached_ok [OF W(2)]] by blast
qed

lemma wrappers_release_all_witness:
  "\<exists>W. run_all [New 1 UV_TIMER, Move 2 1, Close 2 (), Destroy 1, Closed 1, Destroy 2] no_objects = Ok W \<and>
    handles (mem W) = Map.empty \<and> tables (mem W) = Map.empty \<and> dangling (mem W) = {}"
proof -
  let ?ops = "[New 1 UV_TIMER, Move 2 1, Close 2 (), Destroy 1, Closed 1, Destroy 2]"
  note ev = no_objects_def empty_heap_def construct_alloc alloc_def freeable_def owned_def handle_move_ctor_def
    handle_close_def uv_is_closing_def store_on_def uv_close_def store_put slots.valid_put slots.get_put
    on_closed_def invoke_on_def invoke_get free_handle_def delete_table_def destroy_def handle_dtor_def Let_def
  have r: "legal_run ?ops no_objects" "keeps_all ?ops no_objects" "closes_all ?ops no_objects"
    by (simp_all add: ev)
  have "\<exists>W. run_all ?ops no_objects = Ok W \<and> objs W = Map.empty \<and> closing W = {}"
    by (simp add: ev)
  with wrappers_release_all [OF r(1)] r(2,3) show ?thesis by auto
qed

text \<open>
  Property C36: move-assigning to an object, or resetting one, loses the structure it held: nothing
  frees it later. No other operation loses one.
\<close>

theorem operation_loses:
  assumes "reached W" "legal op W"
  shows "\<exists>W'. perform op W = Ok W' \<and> lost W' = lost W \<union> forgets op W"
  by (rule reached_step [OF assms]) blast

lemma operation_loses_witness:
  "\<exists>W W'. run_all [New 1 UV_TCP] no_objects = Ok W \<and> perform (Reset 1 UV_TCP :: unit operation) W = Ok W' \<and> lost W' = {1}"
proof -
  let ?W = "no_objects\<lparr>mem := alloc UV_TCP empty_heap, objs := [1 \<mapsto> \<lparr>m_uv_handle = Some 1, m_will_close = False\<rparr>],
    class_of := (\<lambda>_. UV_UNKNOWN_HANDLE)(1 := UV_TCP), started := (\<lambda>_. False)(1 := False)\<rparr> :: unit objects"
  have p: "perform (New 1 UV_TCP) no_objects = Ok ?W" by (simp add: construct_alloc no_objects_def empty_heap_def)
  then have "reached ?W" by (rule next_op [OF reached.start, rotated]) (simp add: no_objects_def freeable_def)
  moreover have "legal (Reset 1 UV_TCP) ?W" by (simp add: freeable_def)
  moreover have "lost ?W = {}" by (auto simp: lost_def owned_def alloc_def no_objects_def empty_heap_def)
  moreover have "forgets (Reset 1 UV_TCP) ?W = {1}" by (simp add: owned_def)
  ultimately have "\<exists>W'. perform (Reset 1 UV_TCP) ?W = Ok W' \<and> lost W' = {1}"
    using operation_loses [of ?W "Reset 1 UV_TCP"] by simp
  moreover have "run_all [New 1 UV_TCP] no_objects = Ok ?W" using p by simp
  ultimately show ?thesis by blast
qed

text \<open>
  \<open>close\<close> on an object that holds no handle, because it was closed before or moved
  from, dereferences a null pointer: the test for a handle that is closing reads through the
  pointer the first \<open>close\<close> has cleared.
\<close>

theorem second_close_faults:
  assumes "reached W" "legal (Close x f) W"
  shows "\<exists>W'. perform (Close x f) W = Ok W' \<and> perform (Close x g) W' = Crash Fault"
  using close_clears [OF assms] by (force simp: handle_close_def uv_is_closing_def)

lemma second_close_faults_witness:
  "\<exists>W. run_all [New 1 UV_TIMER, Close 1 ()] no_objects = Ok W \<and> perform (Close 1 ()) W = Crash Fault"
proof -
  let ?W = "\<lparr>mem = alloc UV_TIMER empty_heap, objs = [1 \<mapsto> \<lparr>m_uv_handle = Some 1, m_will_close = False\<rparr>],
    class_of = (\<lambda>_. UV_UNKNOWN_HANDLE)(1 := UV_TIMER), started = (\<lambda>_. False)(1 := False), closing = {}\<rparr> :: unit objects"
  have p: "perform (New 1 UV_TIMER) no_objects = Ok ?W" by (simp add: construct_alloc no_objects_def empty_heap_def)
  then have "reached ?W" by (rule next_op [OF reached.start, rotated]) (simp add: no_objects_def freeable_def)
  moreover have "legal (Close 1 ()) ?W" by (simp add: owned_def)
  ultimately have "\<exists>W'. perform (Close 1 ()) ?W = Ok W' \<and> perform (Close 1 ()) W' = Crash Fault"
    by (rule second_close_faults)
  with p show ?thesis by auto
qed

text \<open>
  A \<open>Udp\<close> object that was closed cannot be destroyed: its destructor stops receiving on
  the handle that \<open>close\<close> gave to the loop, through a null pointer.
\<close>

theorem closed_udp_destructor_faults:
  assumes "reached W" "legal (Close x f) W" "class_of W x = UV_UDP"
  shows "\<exists>W'. perform (Close x f) W = Ok W' \<and> perform (Destroy x) W' = Crash Fault"
  using close_clears [OF assms(1,2)] assms(3) by (force simp: destroy_def udp_dtor_def uv_udp_recv_stop_def)

lemma closed_udp_destructor_faults_witness:
  "\<exists>W. run_all [New 1 UV_UDP, Close 1 ()] no_objects = Ok W \<and> perform (Destroy 1) W = Crash Fault"
proof -
  let ?W = "\<lparr>mem = alloc UV_UDP empty_heap, objs = [1 \<mapsto> \<lparr>m_uv_handle = Some 1, m_will_close = False\<rparr>],
    class_of = (\<lambda>_. UV_UNKNOWN_HANDLE)(1 := UV_UDP), started = (\<lambda>_. False)(1 := False), closing = {}\<rparr> :: unit objects"
  have p: "perform (New 1 UV_UDP) no_objects = Ok ?W" by (simp add: construct_alloc no_objects_def empty_heap_def)
  then have "reached ?W" by (rule next_op [OF reached.start, rotated]) (simp add: no_objects_def freeable_def)
  moreover have "legal (Close 1 ()) ?W" by (simp add: owned_def)
  ultimately have "\<exists>W'. perform (Close 1 ()) ?W = Ok W' \<and> perform (Destroy 1) W' = Crash Fault"
    by (rule closed_udp_destructor_faults) simp
  with p show ?thesis by auto
qed

text \<open>
  Property C35: there is no right way to destroy a \<open>Udp\<close> object or an \<open>FsEvent\<close> that was started. Once its
  handle is closed, the destructor stops the handle through a null pointer; while it is not, the
  destructor frees a structure that libuv still has in the queue of its loop.
\<close>

theorem no_clean_end:
  assumes "reached W" "objs W x \<noteq> None"
    and "class_of W x = UV_UDP \<or> class_of W x = UV_FS_EVENT \<and> started W x"
  shows "(owned W x = None \<longrightarrow> perform (Destroy x) W = Crash Fault) \<and>
    (\<forall>a. owned W x = Some a \<longrightarrow> (\<exists>W'. perform (Destroy x) W = Ok W' \<and> a \<in> dangling (mem W')))"
proof (intro conjI allI impI)
  assume "owned W x = None"
  then show "perform (Destroy x) W = Crash Fault"
    using assms(2,3)
    by (auto simp: owned_def destroy_def udp_dtor_def uv_udp_recv_stop_def fs_event_dtor_def uv_fs_event_stop_def)
next
  fix a assume a: "owned W x = Some a"
  then have "legal (Destroy x) W" using assms(2) by simp
  then obtain W' where
    "perform (Destroy x) W = Ok W'" "dangling (mem W') = dangling (mem W) \<union> frees_linked (Destroy x) W"
    by (rule reached_step [OF assms(1)])
  then show "\<exists>W'. perform (Destroy x) W = Ok W' \<and> a \<in> dangling (mem W')" using a by simp
qed

lemma no_clean_end_witness:
  "\<exists>W. run_all [New 1 UV_FS_EVENT, Watch 1 (), Close 1 ()] no_objects = Ok W \<and> perform (Destroy 1) W = Crash Fault"
proof -
  let ?ops = "[New 1 UV_FS_EVENT, Watch 1 (), Close 1 ()]"
  note ev = no_objects_def empty_heap_def construct_alloc alloc_def freeable_def owned_def
    handle_close_def uv_is_closing_def store_on_def uv_close_def store_put slots.valid_put slots.get_put
  have r: "legal_run ?ops no_objects" by (simp add: ev)
  from run_all_reaches [OF reached.start r] obtain W where W: "run_all ?ops no_objects = Ok W" "reached W" by blast
  have "\<exists>V. run_all ?ops no_objects = Ok V \<and> objs V 1 \<noteq> None \<and> class_of V 1 = UV_FS_EVENT \<and> started V 1 \<and> owned V 1 = None"
    by (simp add: ev)
  with W have "objs W 1 \<noteq> None" "class_of W 1 = UV_FS_EVENT" "started W 1" "owned W 1 = None" by auto
  with no_clean_end [OF W(2), of 1] W(1) show ?thesis by blast
qed

text \<open>
  An object whose structure has a type that \<open>free_handle\<close> does not know, such as
  \<open>FsPoll\<close>'s or one whose initialisation failed, cannot be given up: its destructor fails the
  assertion, and so does the callback of its \<open>close\<close>.
\<close>

theorem unknown_type_aborts:
  assumes "\<not> freeable ty"
  shows "case construct ty H of (w, H1) \<Rightarrow>
    handle_dtor w H1 = Crash Abort \<and>
    (\<exists>w' H2. handle_close f w H1 = Ok (w', H2) \<and> on_closed (next_addr H) H2 = Crash Abort)"
  using assms
  by (simp add: construct_eq handle_dtor_def free_handle_def delete_table_def handle_close_def
      uv_is_closing_def store_on_def uv_close_def store_put on_closed_def invoke_on_def invoke_get
      slots.valid_put slots.get_put Let_def)

lemma unknown_type_aborts_witness:
  "case construct UV_FS_POLL empty_heap of (w, H1) \<Rightarrow>
    handle_dtor w H1 = Crash Abort \<and>
    (\<exists>w' H2. handle_close () w H1 = Ok (w', H2) \<and> on_closed 1 H2 = Crash Abort)"
  using unknown_type_aborts [where ty = UV_FS_POLL and H = empty_heap and f = "()"] by (simp add: freeable_def empty_heap_def)

end
