(* ===== verification/Methods.thy ===== *)
theory Methods
  imports Handles CLib
begin

text \<open>
  The methods of the handle classes: \<open>stream.hpp\<close>, \<open>tcp.hpp\<close>, \<open>udp.hpp\<close>, \<open>pipe.hpp\<close>, \<open>timer.hpp\<close>,
  \<open>signal.hpp\<close>, \<open>poll.hpp\<close>, \<open>idle.hpp\<close>, \<open>async.hpp\<close>, \<open>fsevent.hpp\<close> and \<open>fspoll.hpp\<close> of \<open>include/uvpp\<close>. A method that starts something
  stores the callback in the table of its handle and calls libuv with a function of its own, which
  libuv calls when the thing has happened and which takes the callback out again. Libuv is a
  parameter: \<open>uv call\<close> is what it returns for a call.
\<close>

section \<open>Calls of libuv\<close>

text \<open>Each names the structure it is called with; addresses of sockets are the bytes of the \<open>sockaddr\<close>.\<close>

datatype uv_call =
    UvListen nat int
  | UvAccept nat nat
  | UvReadStart nat
  | UvReadStop nat
  | UvWrite nat bytes "nat option"
  | UvShutdown nat
  | UvTcpNodelay nat bool
  | UvTcpKeepalive nat bool u32
  | UvTcpSimultaneousAccepts nat bool
  | UvTcpBind nat bytes
  | UvTcpConnect nat bytes
  | UvPipeBind nat bytes
  | UvPipeConnect nat bytes
  | UvUdpSetTtl nat int
  | UvUdpBind nat bytes
  | UvUdpRecvStart nat
  | UvUdpRecvStop nat
  | UvUdpSend nat bytes "nat option" bytes
  | UvTimerStart nat u64 u64
  | UvTimerStop nat
  | UvTimerAgain nat
  | UvSignalStart nat int
  | UvSignalStop nat
  | UvPollStart nat int
  | UvPollStop nat
  | UvIdleStart nat
  | UvIdleStop nat
  | UvAsyncSend nat
  | UvFsEventStart nat bytes u32
  | UvFsEventStop nat
  | UvFsPollStart nat bytes u32
  | UvFsPollStop nat

type_synonym libuv = "uv_call \<Rightarrow> int"

text \<open>
  What a method gives back: its result, the calls it made and the heap. An exception of
  \<open>net.hpp\<close> leaves the method early.
\<close>

datatype 'r ret = Ret 'r | Throws

type_synonym ('r, 'f) uv_method = "libuv \<Rightarrow> nat option \<Rightarrow> 'f heap \<Rightarrow> ('r \<times> uv_call list \<times> 'f heap) outcome"

definition call_uv :: "(nat \<Rightarrow> uv_call) \<Rightarrow> (int, 'f) uv_method" where
  "call_uv k uv p H = and_then (deref p) (\<lambda>a. Ok (uv (k a), [k a], H))"

definition start_uv :: "uv_callback_id \<Rightarrow> callback_t \<Rightarrow> 'f \<Rightarrow> (nat \<Rightarrow> uv_call) \<Rightarrow> (int, 'f) uv_method" where
  "start_uv c t f k uv p H = and_then (store_on p c t f H) (\<lambda>H'. call_uv k uv p H')"

definition succeeds :: "(int, 'f) uv_method \<Rightarrow> (bool, 'f) uv_method" where
  "succeeds m uv p H = and_then (m uv p H) (\<lambda>(rc, calls, H'). Ok (rc = 0, calls, H'))"

text \<open>A callback that is called, with its arguments.\<close>

datatype arg =
    Err int
  | Len int
  | Buffer "bytes option"
  | Data "nat option"
  | Peer bytes
  | Number int

definition call_back :: "uv_callback_id \<Rightarrow> callback_t \<Rightarrow> arg list \<Rightarrow> nat \<Rightarrow> 'f heap \<Rightarrow> ('f \<times> arg list) outcome" where
  "call_back c t args a H = and_then (invoke_on a c t H) (\<lambda>f. Ok (f, args))"

section \<open>Streams\<close>

definition listen :: "'f \<Rightarrow> int \<Rightarrow> (bool, 'f) uv_method" where
  "listen callback backlog = succeeds (start_uv uv_cid_listen CallbackWithResult callback (\<lambda>a. UvListen a backlog))"

definition on_listen :: "int \<Rightarrow> nat \<Rightarrow> 'f heap \<Rightarrow> ('f \<times> arg list) outcome" where
  "on_listen status = call_back uv_cid_listen CallbackWithResult [Err status]"

text \<open>The pointer of the accepting client goes to libuv unread.\<close>

definition accept :: "nat \<Rightarrow> (bool, 'f) uv_method" where
  "accept client = succeeds (call_uv (\<lambda>a. UvAccept a client))"

definition read_start :: "'f \<Rightarrow> (bool, 'f) uv_method" where
  "read_start callback = succeeds (start_uv uv_cid_read_start CallbackBufLen callback UvReadStart)"

definition read_alloc :: "nat \<Rightarrow> nat \<Rightarrow> nat" where
  "read_alloc max_alloc_size suggested_size = max suggested_size max_alloc_size"

definition on_read :: "int \<Rightarrow> bytes \<Rightarrow> nat \<Rightarrow> 'f heap \<Rightarrow> ('f \<times> arg list) outcome" where
  "on_read nread buf =
     (if nread < 0 then call_back uv_cid_read_start CallbackBufLen [Buffer None, Len nread]
      else call_back uv_cid_read_start CallbackBufLen [Buffer (Some buf), Len nread])"

definition read_stop :: "(bool, 'f) uv_method" where
  "read_stop = succeeds (call_uv UvReadStop)"

text \<open>
  The overload with a data pointer stores a callback of another type; the data travels with the
  request. The overloads for strings and vectors differ in how they say where the bytes are.
\<close>

definition write_data :: "bytes \<Rightarrow> nat option \<Rightarrow> 'f \<Rightarrow> (bool, 'f) uv_method" where
  "write_data buf data callback = succeeds (start_uv uv_cid_write CallbackDataResult callback (\<lambda>a. UvWrite a buf data))"

definition on_write_data :: "nat option \<Rightarrow> int \<Rightarrow> nat \<Rightarrow> 'f heap \<Rightarrow> ('f \<times> arg list) outcome" where
  "on_write_data data status = call_back uv_cid_write CallbackDataResult [Data data, Err status]"

definition stream_write :: "bytes \<Rightarrow> 'f \<Rightarrow> (bool, 'f) uv_method" where
  "stream_write buf callback = succeeds (start_uv uv_cid_write CallbackWithResult callback (\<lambda>a. UvWrite a buf None))"

definition on_write :: "int \<Rightarrow> nat \<Rightarrow> 'f heap \<Rightarrow> ('f \<times> arg list) outcome" where
  "on_write status = call_back uv_cid_write CallbackWithResult [Err status]"

definition shutdown :: "'f \<Rightarrow> (bool, 'f) uv_method" where
  "shutdown callback = succeeds (start_uv uv_cid_shutdown CallbackWithResult callback UvShutdown)"

definition on_shutdown :: "int \<Rightarrow> nat \<Rightarrow> 'f heap \<Rightarrow> ('f \<times> arg list) outcome" where
  "on_shutdown status = call_back uv_cid_shutdown CallbackWithResult [Err status]"

section \<open>Sockets and pipes\<close>

text \<open>\<open>uv_ip4_addr\<close> and \<open>uv_ip6_addr\<close> as the parameter \<open>addr_of\<close>: None where they return an error.\<close>

definition to_ip_addr :: "(bytes \<Rightarrow> int \<Rightarrow> bytes option) \<Rightarrow> bytes \<Rightarrow> int \<Rightarrow> bytes ret" where
  "to_ip_addr addr_of ip port = (case addr_of ip port of None \<Rightarrow> Throws | Some addr \<Rightarrow> Ret addr)"

definition with_addr :: "bytes ret \<Rightarrow> (bytes \<Rightarrow> (bool, 'f) uv_method) \<Rightarrow> (bool ret, 'f) uv_method" where
  "with_addr r m uv p H =
     (case r of
        Throws \<Rightarrow> Ok (Throws, [], H)
      | Ret addr \<Rightarrow> and_then (m addr uv p H) (\<lambda>(b, calls, H'). Ok (Ret b, calls, H')))"

definition nodelay :: "bool \<Rightarrow> (bool, 'f) uv_method" where
  "nodelay enable = succeeds (call_uv (\<lambda>a. UvTcpNodelay a enable))"

definition keepalive :: "bool \<Rightarrow> u32 \<Rightarrow> (bool, 'f) uv_method" where
  "keepalive enable delay = succeeds (call_uv (\<lambda>a. UvTcpKeepalive a enable delay))"

definition simultanious_accepts :: "bool \<Rightarrow> (bool, 'f) uv_method" where
  "simultanious_accepts enable = succeeds (call_uv (\<lambda>a. UvTcpSimultaneousAccepts a enable))"

definition tcp_bind :: "(bytes \<Rightarrow> int \<Rightarrow> bytes option) \<Rightarrow> bytes \<Rightarrow> int \<Rightarrow> (bool ret, 'f) uv_method" where
  "tcp_bind addr_of ip port =
     with_addr (to_ip_addr addr_of ip port) (\<lambda>addr. succeeds (call_uv (\<lambda>a. UvTcpBind a addr)))"

text \<open>The callback is stored before the address is converted.\<close>

definition connect_to ::
  "uv_callback_id \<Rightarrow> (bytes \<Rightarrow> int \<Rightarrow> bytes option) \<Rightarrow> bytes \<Rightarrow> int \<Rightarrow> 'f \<Rightarrow> (bool ret, 'f) uv_method"
where
  "connect_to c addr_of ip port callback uv p H =
     and_then (store_on p c CallbackWithResult callback H) (\<lambda>H'.
       with_addr (to_ip_addr addr_of ip port) (\<lambda>addr. succeeds (call_uv (\<lambda>a. UvTcpConnect a addr))) uv p H')"

definition tcp_connect :: "(bytes \<Rightarrow> int \<Rightarrow> bytes option) \<Rightarrow> bytes \<Rightarrow> int \<Rightarrow> 'f \<Rightarrow> (bool ret, 'f) uv_method" where
  "tcp_connect = connect_to uv_cid_connect"

definition tcp_connect6 :: "(bytes \<Rightarrow> int \<Rightarrow> bytes option) \<Rightarrow> bytes \<Rightarrow> int \<Rightarrow> 'f \<Rightarrow> (bool ret, 'f) uv_method" where
  "tcp_connect6 = connect_to uv_cid_connect6"

definition on_connect :: "int \<Rightarrow> nat \<Rightarrow> 'f heap \<Rightarrow> ('f \<times> arg list) outcome" where
  "on_connect status = call_back uv_cid_connect CallbackWithResult [Err status]"

definition on_connect6 :: "int \<Rightarrow> nat \<Rightarrow> 'f heap \<Rightarrow> ('f \<times> arg list) outcome" where
  "on_connect6 status = call_back uv_cid_connect6 CallbackWithResult [Err status]"

definition pipe_bind :: "bytes \<Rightarrow> (bool, 'f) uv_method" where
  "pipe_bind name = succeeds (call_uv (\<lambda>a. UvPipeBind a name))"

text \<open>\<open>Pipe::connect\<close> returns nothing: what libuv says about the start is not seen.\<close>

definition pipe_connect :: "bytes \<Rightarrow> 'f \<Rightarrow> (unit, 'f) uv_method" where
  "pipe_connect name callback uv p H =
     and_then (start_uv uv_cid_connect CallbackWithResult callback (\<lambda>a. UvPipeConnect a name) uv p H)
       (\<lambda>(rc, calls, H'). Ok ((), calls, H'))"

text \<open>
  The name of a pipe's end. \<open>uv_pipe_getsockname\<close> is the parameter \<open>lib\<close>: for the size of the buffer,
  its result, the bytes it wrote and the size it left; the second call has the size it asked for.
\<close>

definition UV_ENOBUFS :: int where
  "UV_ENOBUFS = - 105"

definition pipe_name :: "(nat \<Rightarrow> int \<times> bytes \<times> nat) \<Rightarrow> bytes option" where
  "pipe_name lib =
     (let (r, buf, buf_size) = lib 100;
          (r', buf', buf_size') = (if r = UV_ENOBUFS then lib buf_size else (r, buf, buf_size))
      in if r' = 0 then Some (take buf_size' buf') else None)"

text \<open>
  The name of a socket's end. \<open>name_of\<close> is \<open>uv_ip4_name\<close> or \<open>uv_ip6_name\<close> on the address, \<open>lib\<close> what
  \<open>uv_tcp_getsockname\<close> or \<open>uv_tcp_getpeername\<close> gives: its result, whether the family is \<open>AF_INET\<close>, and
  the address. The port is in both kinds of address at offset 2, in network order.
\<close>

definition from_ip_addr :: "(bytes \<Rightarrow> bytes option) \<Rightarrow> bytes \<Rightarrow> (bytes \<times> int) option" where
  "from_ip_addr name_of src =
     (case name_of src of
        None \<Rightarrow> None
      | Some dest \<Rightarrow> Some (c_str dest, uint (htons (load_le (take 2 (drop 2 src))))))"

definition tcp_name ::
  "(bytes \<Rightarrow> bytes option) \<Rightarrow> (bytes \<Rightarrow> bytes option) \<Rightarrow> int \<times> bool \<times> bytes \<Rightarrow> (bool \<times> bytes \<times> int) option"
where
  "tcp_name name4 name6 lib =
     (case lib of (rc, ip4, addr) \<Rightarrow>
        if rc = 0 then map_option (Pair ip4) (from_ip_addr (if ip4 then name4 else name6) addr) else None)"

section \<open>Datagrams\<close>

definition set_ttl :: "int \<Rightarrow> (int, 'f) uv_method" where
  "set_ttl ttl = call_uv (\<lambda>a. UvUdpSetTtl a ttl)"

text \<open>The destination of a \<open>Udp\<close> object, from a text or copied; a bad text leaves it as it was.\<close>

definition set_dest :: "(bytes \<Rightarrow> int \<Rightarrow> bytes option) \<Rightarrow> bytes \<Rightarrow> int \<Rightarrow> bytes \<Rightarrow> unit ret \<times> bytes" where
  "set_dest addr_of ip port m_dest_addr =
     (case to_ip_addr addr_of ip port of Throws \<Rightarrow> (Throws, m_dest_addr) | Ret addr \<Rightarrow> (Ret (), addr))"

definition set_dest_addr :: "bytes \<Rightarrow> bytes \<Rightarrow> bytes" where
  "set_dest_addr addr m_dest_addr = addr"

definition udp_bind :: "(bytes \<Rightarrow> int \<Rightarrow> bytes option) \<Rightarrow> bytes \<Rightarrow> int \<Rightarrow> (bool ret, 'f) uv_method" where
  "udp_bind addr_of ip port =
     with_addr (to_ip_addr addr_of ip port) (\<lambda>addr. succeeds (call_uv (\<lambda>a. UvUdpBind a addr)))"

definition udp_read_start :: "'f \<Rightarrow> (bool, 'f) uv_method" where
  "udp_read_start callback = succeeds (start_uv uv_cid_udp_read_start CallbackBufLenAddr callback UvUdpRecvStart)"

definition on_udp_read :: "int \<Rightarrow> bytes \<Rightarrow> bytes \<Rightarrow> nat \<Rightarrow> 'f heap \<Rightarrow> ('f \<times> arg list) outcome" where
  "on_udp_read nread buf addr =
     (if nread < 0 then call_back uv_cid_udp_read_start CallbackBufLenAddr [Buffer None, Len nread, Peer addr]
      else call_back uv_cid_udp_read_start CallbackBufLenAddr [Buffer (Some buf), Len nread, Peer addr])"

definition udp_read_stop :: "(bool, 'f) uv_method" where
  "udp_read_stop = succeeds (call_uv UvUdpRecvStop)"

definition udp_write_data :: "bytes \<Rightarrow> bytes \<Rightarrow> nat option \<Rightarrow> 'f \<Rightarrow> (bool, 'f) uv_method" where
  "udp_write_data dest buf data callback =
     succeeds (start_uv uv_cid_udp_write CallbackDataResult callback (\<lambda>a. UvUdpSend a buf data dest))"

definition on_udp_write_data :: "nat option \<Rightarrow> int \<Rightarrow> nat \<Rightarrow> 'f heap \<Rightarrow> ('f \<times> arg list) outcome" where
  "on_udp_write_data data status = call_back uv_cid_udp_write CallbackDataResult [Data data, Err status]"

definition udp_write :: "bytes \<Rightarrow> bytes \<Rightarrow> 'f \<Rightarrow> (bool, 'f) uv_method" where
  "udp_write dest buf callback =
     succeeds (start_uv uv_cid_udp_write CallbackWithResult callback (\<lambda>a. UvUdpSend a buf None dest))"

definition on_udp_write :: "int \<Rightarrow> nat \<Rightarrow> 'f heap \<Rightarrow> ('f \<times> arg list) outcome" where
  "on_udp_write status = call_back uv_cid_udp_write CallbackWithResult [Err status]"

section \<open>Timers, signals, polls, idle and async handles\<close>

definition timer_start :: "'f \<Rightarrow> u64 \<Rightarrow> u64 \<Rightarrow> (int, 'f) uv_method" where
  "timer_start callback timeout repeat = start_uv uv_cid_timer Callback callback (\<lambda>a. UvTimerStart a timeout repeat)"

definition timer_start_once :: "'f \<Rightarrow> u64 \<Rightarrow> (int, 'f) uv_method" where
  "timer_start_once callback timeout = start_uv uv_cid_timer Callback callback (\<lambda>a. UvTimerStart a timeout 0)"

definition on_timer :: "nat \<Rightarrow> 'f heap \<Rightarrow> ('f \<times> arg list) outcome" where
  "on_timer = call_back uv_cid_timer Callback []"

definition timer_stop :: "(int, 'f) uv_method" where
  "timer_stop = call_uv UvTimerStop"

definition timer_again :: "(int, 'f) uv_method" where
  "timer_again = call_uv UvTimerAgain"

definition signal_start :: "int \<Rightarrow> 'f \<Rightarrow> (int, 'f) uv_method" where
  "signal_start signum callback = start_uv uv_cid_signal CallbackSignum callback (\<lambda>a. UvSignalStart a signum)"

definition on_signal_event :: "int \<Rightarrow> nat \<Rightarrow> 'f heap \<Rightarrow> ('f \<times> arg list) outcome" where
  "on_signal_event signum = call_back uv_cid_signal CallbackSignum [Number signum]"

definition signal_stop :: "(int, 'f) uv_method" where
  "signal_stop = call_uv UvSignalStop"

definition poll_start :: "int \<Rightarrow> 'f \<Rightarrow> (int, 'f) uv_method" where
  "poll_start events callback = start_uv uv_cid_poll CallbackStatusEvents callback (\<lambda>a. UvPollStart a events)"

definition on_poll :: "int \<Rightarrow> int \<Rightarrow> nat \<Rightarrow> 'f heap \<Rightarrow> ('f \<times> arg list) outcome" where
  "on_poll status events = call_back uv_cid_poll CallbackStatusEvents [Number status, Number events]"

definition poll_stop :: "(int, 'f) uv_method" where
  "poll_stop = call_uv UvPollStop"

text \<open>An idle handle takes its callback when it is constructed, before it is initialised.\<close>

definition idle_ctor :: "'f \<Rightarrow> 'f heap \<Rightarrow> (wrapper \<times> 'f heap) outcome" where
  "idle_ctor callback H =
     (let (w, H1) = handle_ctor H
      in and_then (store_on (m_uv_handle w) uv_cid_idle Callback callback H1) (\<lambda>H2.
         and_then (deref (m_uv_handle w)) (\<lambda>a. Ok (w, uv_init UV_IDLE a H2))))"

definition idle_start :: "(int, 'f) uv_method" where
  "idle_start = call_uv UvIdleStart"

definition on_idle :: "nat \<Rightarrow> 'f heap \<Rightarrow> ('f \<times> arg list) outcome" where
  "on_idle = call_back uv_cid_idle Callback []"

definition idle_stop :: "(int, 'f) uv_method" where
  "idle_stop = call_uv UvIdleStop"

text \<open>The same for an async handle; the result of its initialisation is not looked at.\<close>

definition async_ctor :: "'f \<Rightarrow> 'f heap \<Rightarrow> (wrapper \<times> 'f heap) outcome" where
  "async_ctor callback H =
     (let (w, H1) = handle_ctor H
      in and_then (store_on (m_uv_handle w) uv_cid_async Callback callback H1) (\<lambda>H2.
         and_then (deref (m_uv_handle w)) (\<lambda>a. Ok (w, uv_init UV_ASYNC a H2))))"

definition async_send :: "(int, 'f) uv_method" where
  "async_send = call_uv UvAsyncSend"

definition on_async :: "nat \<Rightarrow> 'f heap \<Rightarrow> ('f \<times> arg list) outcome" where
  "on_async = call_back uv_cid_async Callback []"

section \<open>File events and file polls\<close>

datatype fs_event_type = NONE | CHANGED | CREATED | DELETED

definition UV_RENAME :: int where
  "UV_RENAME = 1"

definition UV_CHANGE :: int where
  "UV_CHANGE = 2"

definition fs_event_start :: "bytes \<Rightarrow> u32 \<Rightarrow> 'f \<Rightarrow> (int, 'f) uv_method" where
  "fs_event_start path flags callback = start_uv uv_cid_fs_event FsEventClosure callback (\<lambda>a. UvFsEventStart a path flags)"

text \<open>
  The closure of \<open>FsEvent::start\<close>: the calls it makes of the callback for one event, with the status,
  the name and the kind. The name libuv passes can be null; \<open>file_exists\<close> is \<open>stat\<close>.
\<close>

definition fs_event_calls ::
  "(bytes \<Rightarrow> bool) \<Rightarrow> bytes \<Rightarrow> bytes option \<Rightarrow> int \<Rightarrow> int \<Rightarrow> (int \<times> bytes \<times> fs_event_type) list outcome"
where
  "fs_event_calls file_exists path filename events status =
     (if status < 0 then and_then (deref filename) (\<lambda>n. Ok [(status, n, NONE)])
      else
        and_then (if events AND UV_CHANGE \<noteq> 0 then and_then (deref filename) (\<lambda>n. Ok [(status, n, CHANGED)]) else Ok [])
          (\<lambda>changed.
        and_then
          (if events AND UV_RENAME \<noteq> 0
           then and_then (deref filename) (\<lambda>n. Ok [(status, n, if file_exists (path @ n) then CREATED else DELETED)])
           else Ok [])
          (\<lambda>renamed. Ok (changed @ renamed))))"

definition on_fs_event ::
  "(bytes \<Rightarrow> bool) \<Rightarrow> bytes \<Rightarrow> bytes option \<Rightarrow> int \<Rightarrow> int \<Rightarrow> nat \<Rightarrow> 'f heap \<Rightarrow>
   ('f \<times> (int \<times> bytes \<times> fs_event_type) list) outcome"
where
  "on_fs_event file_exists path filename events status a H =
     and_then (invoke_on a uv_cid_fs_event FsEventClosure H) (\<lambda>f.
     and_then (fs_event_calls file_exists path filename events status) (\<lambda>calls. Ok (f, calls)))"

definition fs_event_stop :: "(int, 'f) uv_method" where
  "fs_event_stop = call_uv UvFsEventStop"

definition fs_poll_start :: "bytes \<Rightarrow> u32 \<Rightarrow> 'f \<Rightarrow> (int, 'f) uv_method" where
  "fs_poll_start path interval callback = start_uv uv_cid_fs_poll CallbackPollStats callback (\<lambda>a. UvFsPollStart a path interval)"

text \<open>\<open>none\<close> is a \<open>Stats\<close> with its default values, \<open>prev\<close> and \<open>current\<close> the converted results.\<close>

definition on_fs_poll :: "int \<Rightarrow> 's \<Rightarrow> 's \<Rightarrow> 's \<Rightarrow> nat \<Rightarrow> 'f heap \<Rightarrow> ('f \<times> int \<times> int \<times> 's \<times> 's) outcome" where
  "on_fs_poll status none prev current a H =
     and_then (invoke_on a uv_cid_fs_poll CallbackPollStats H) (\<lambda>f.
       Ok (if status < 0 then (f, status, status, none, none) else (f, 0, status, prev, current)))"

definition fs_poll_stop :: "(int, 'f) uv_method" where
  "fs_poll_stop = call_uv UvFsPollStop"

lemma nameless_event_faults: "status < 0 \<Longrightarrow> fs_event_calls file_exists path None events status = Crash Fault"
  by (simp add: fs_event_calls_def)

section \<open>What a start does\<close>

lemma start_uv_eq:
  "table_at a h d lut H \<Longrightarrow>
   start_uv c t f k uv (Some a) H =
     Ok (uv (k a), [k a], H\<lparr>tables := (tables H)(d \<mapsto> put_object c \<lparr>co_type = t, co_fun = f, co_data = None\<rparr> lut)\<rparr>)"
  by (simp add: start_uv_def store_on_eq call_uv_def)

lemma table_at_put:
  "table_at a h d lut H \<Longrightarrow> table_at a h d (put_object c co lut) (H\<lparr>tables := (tables H)(d \<mapsto> put_object c co lut)\<rparr>)"
  by (simp add: table_at_def slots.valid_put)

lemma call_back_eq:
  "table_at a h d lut H \<Longrightarrow>
   call_back c t args a H =
     (case get_object lut c of
        None \<Rightarrow> Crash Abort
      | Some co \<Rightarrow> if co_type co = t then Ok (co_fun co, args) else Crash Abort)"
  by (simp add: call_back_def invoke_on_eq split: option.split)

lemmas stored = store_on_eq start_uv_eq call_back_eq table_at_put slots.get_put slots.valid_put

section \<open>Writes under way\<close>

text \<open>The writes a stream has been asked for, by their overload.\<close>

datatype 'f write_op = WriteData bytes "nat option" 'f | Write bytes 'f

fun start_write :: "'f write_op \<Rightarrow> (bool, 'f) uv_method" where
  "start_write (WriteData buf data f) = write_data buf data f"
| "start_write (Write buf f) = stream_write buf f"

fun finish_write :: "'f write_op \<Rightarrow> int \<Rightarrow> nat \<Rightarrow> 'f heap \<Rightarrow> ('f \<times> arg list) outcome" where
  "finish_write (WriteData buf data f) status = on_write_data data status"
| "finish_write (Write buf f) status = on_write status"

fun callback_of :: "'f write_op \<Rightarrow> 'f" where
  "callback_of (WriteData buf data f) = f"
| "callback_of (Write buf f) = f"

fun with_data :: "'f write_op \<Rightarrow> bool" where
  "with_data (WriteData buf data f) \<longleftrightarrow> True"
| "with_data (Write buf f) \<longleftrightarrow> False"

fun finish_args :: "'f write_op \<Rightarrow> int \<Rightarrow> arg list" where
  "finish_args (WriteData buf data f) status = [Data data, Err status]"
| "finish_args (Write buf f) status = [Err status]"

fun start_writes :: "'f write_op list \<Rightarrow> libuv \<Rightarrow> nat option \<Rightarrow> 'f heap \<Rightarrow> 'f heap outcome" where
  "start_writes [] uv p H = Ok H"
| "start_writes (w # ws) uv p H = and_then (start_write w uv p H) (\<lambda>(_, _, H'). start_writes ws uv p H')"

definition write_object :: "'f write_op \<Rightarrow> 'f callback_object" where
  "write_object w = \<lparr>co_type = (if with_data w then CallbackDataResult else CallbackWithResult),
     co_fun = callback_of w, co_data = None\<rparr>"

lemma start_write_eq:
  "table_at a h d lut H \<Longrightarrow>
   \<exists>rc calls. start_write w uv (Some a) H =
     Ok (rc, calls, H\<lparr>tables := (tables H)(d \<mapsto> put_object uv_cid_write (write_object w) lut)\<rparr>)"
  by (cases w) (simp_all add: write_data_def stream_write_def succeeds_def start_uv_eq write_object_def)

lemma finish_write_eq:
  "table_at a h d lut H \<Longrightarrow> get_object lut uv_cid_write = Some (write_object v) \<Longrightarrow>
   finish_write w status a H =
     (if with_data w \<longleftrightarrow> with_data v then Ok (callback_of v, finish_args w status) else Crash Abort)"
  by (cases w; cases v) (simp_all add: on_write_data_def on_write_def call_back_eq write_object_def)

lemma start_writes_last:
  "table_at a h d lut H \<Longrightarrow> get_object lut uv_cid_write = Some (write_object v) \<Longrightarrow>
   \<exists>H' lut'. start_writes ws uv (Some a) H = Ok H' \<and> table_at a h d lut' H' \<and>
     get_object lut' uv_cid_write = Some (write_object (last (v # ws)))"
proof (induction ws arbitrary: H lut v)
  case (Cons w ws)
  let ?lut = "put_object uv_cid_write (write_object w) lut"
  let ?H = "H\<lparr>tables := (tables H)(d \<mapsto> ?lut)\<rparr>"
  have "full_table lut" using Cons.prems(1) by (simp add: table_at_def)
  then have "get_object ?lut uv_cid_write = Some (write_object w)" by (simp add: slots.get_put)
  with Cons.IH [OF table_at_put [OF Cons.prems(1)], of uv_cid_write "write_object w" w]
  obtain H' lut' where "start_writes ws uv (Some a) ?H = Ok H'" "table_at a h d lut' H'"
      "get_object lut' uv_cid_write = Some (write_object (last (w # ws)))"
    by blast
  then show ?case using start_write_eq [OF Cons.prems(1), of w uv] by auto
qed auto

text \<open>
  Property C38: a stream remembers one write callback. When several writes are under way, each of them
  calls, when it finishes, the callback of the write started last; if that write was started with
  the other overload, the assertion on the callback's type fails. So the last write is always
  answered by its own callback, and the earlier ones never are.
\<close>

theorem writes_under_way:
  assumes "construct UV_TCP H = (s, H1)" "w \<in> set ws"
  shows "\<exists>H2. start_writes ws uv (m_uv_handle s) H1 = Ok H2 \<and>
    finish_write w status (next_addr H) H2 =
      (if with_data w = with_data (last ws) then Ok (callback_of (last ws), finish_args w status) else Crash Abort)"
proof -
  note t = conjunct1 [OF construct_table [OF assms(1)]] conjunct2 [OF construct_table [OF assms(1)]]
  from assms(2) obtain v vs where ws: "ws = v # vs" by (cases ws) auto
  let ?lut = "put_object uv_cid_write (write_object v) new_callbacks"
  have "get_object ?lut uv_cid_write = Some (write_object v)" by (simp add: slots.get_put)
  from start_writes_last [OF table_at_put [OF t(1)] this, of vs uv] start_write_eq [OF t(1), of v uv]
  obtain H2 lut' where "start_writes ws uv (m_uv_handle s) H1 = Ok H2"
      "table_at (next_addr H) \<lparr>h_type = UV_TCP, h_data = Some (next_addr H + 1), h_closing = False\<rparr> (next_addr H + 1) lut' H2"
      "get_object lut' uv_cid_write = Some (write_object (last ws))"
    by (auto simp: t(2) ws)
  then show ?thesis by (auto simp: finish_write_eq)
qed

lemma writes_under_way_witness:
  "\<exists>H2. start_writes [Write [1] ''first'', Write [2] ''second''] (\<lambda>_. 0) (Some 1) (snd (construct UV_TCP empty_heap)) = Ok H2 \<and>
    finish_write (Write [1] ''first'') 0 1 H2 = Ok (''second'', [Err 0])"
  using writes_under_way [where H = empty_heap and ws = "[Write [1] ''first'', Write [2] ''second'']"
      and w = "Write [1] ''first''" and status = 0 and uv = "\<lambda>_. 0"
      and s = "fst (construct UV_TCP empty_heap)" and ?H1.0 = "snd (construct UV_TCP empty_heap)"]
  by (simp add: construct_eq empty_heap_def)

section \<open>Connecting\<close>

text \<open>
  \<open>connect\<close> with a text that is no address throws, but it has replaced the callback
  before: a connection that was under way reports its result to the callback of the failed call.
\<close>

theorem bad_address_replaces_callback:
  assumes "addr_of ip port = Some addr" "addr_of bad port' = None" "construct UV_TCP H = (s, H1)"
  shows "\<exists>rc H2 H3.
    tcp_connect addr_of ip port f uv (m_uv_handle s) H1 = Ok (Ret rc, [UvTcpConnect (next_addr H) addr], H2) \<and>
    tcp_connect addr_of bad port' g uv (m_uv_handle s) H2 = Ok (Throws, [], H3) \<and>
    on_connect status (next_addr H) H3 = Ok (g, [Err status])"
proof -
  let ?h = "\<lparr>h_type = UV_TCP, h_data = Some (next_addr H + 1), h_closing = False\<rparr>"
  let ?lut = "\<lambda>c lut. put_object uv_cid_connect \<lparr>co_type = CallbackWithResult, co_fun = c, co_data = None\<rparr> lut"
  have t1: "table_at (next_addr H) ?h (next_addr H + 1) new_callbacks H1"
    and s: "s = \<lparr>m_uv_handle = Some (next_addr H), m_will_close = False\<rparr>"
    using construct_table [OF assms(3)] by simp_all
  let ?H2 = "H1\<lparr>tables := (tables H1)(next_addr H + 1 \<mapsto> ?lut f new_callbacks)\<rparr>"
  have t2: "table_at (next_addr H) ?h (next_addr H + 1) (?lut f new_callbacks) ?H2" by (rule table_at_put [OF t1])
  let ?H3 = "?H2\<lparr>tables := (tables ?H2)(next_addr H + 1 \<mapsto> ?lut g (?lut f new_callbacks))\<rparr>"
  have t3: "table_at (next_addr H) ?h (next_addr H + 1) (?lut g (?lut f new_callbacks)) ?H3" by (rule table_at_put [OF t2])
  note defs = tcp_connect_def connect_to_def to_ip_addr_def with_addr_def succeeds_def call_uv_def s
  have "\<exists>rc. tcp_connect addr_of ip port f uv (m_uv_handle s) H1 = Ok (Ret rc, [UvTcpConnect (next_addr H) addr], ?H2)"
    using assms(1) by (simp add: defs store_on_eq [OF t1])
  moreover have "tcp_connect addr_of bad port' g uv (m_uv_handle s) ?H2 = Ok (Throws, [], ?H3)"
    using assms(2) store_on_eq [OF t2, of uv_cid_connect CallbackWithResult g] by (simp add: defs)
  moreover have "on_connect status (next_addr H) ?H3 = Ok (g, [Err status])"
    using call_back_eq [OF t3, of uv_cid_connect] by (simp add: on_connect_def slots.get_put slots.valid_put)
  ultimately show ?thesis by blast
qed

text \<open>An address converter that accepts one text, for the example.\<close>

definition localhost_only :: "bytes \<Rightarrow> int \<Rightarrow> bytes option" where
  "localhost_only ip port = (if ip = str ''127.0.0.1'' then Some [2, 0, 0, 80, 127, 0, 0, 1] else None)"

lemma bad_address_replaces_callback_witness:
  "\<exists>rc H2 H3.
    tcp_connect localhost_only (str ''127.0.0.1'') 80 ''first'' (\<lambda>_. 0) (Some 1) (snd (construct UV_TCP empty_heap)) =
      Ok (Ret rc, [UvTcpConnect 1 [2, 0, 0, 80, 127, 0, 0, 1]], H2) \<and>
    tcp_connect localhost_only (str ''local'') 80 ''second'' (\<lambda>_. 0) (Some 1) H2 = Ok (Throws, [], H3) \<and>
    on_connect 0 1 H3 = Ok (''second'', [Err 0])"
proof -
  have "localhost_only (str ''127.0.0.1'') 80 = Some [2, 0, 0, 80, 127, 0, 0, 1]"
    and "localhost_only (str ''local'') 80 = None"
    by (simp_all add: localhost_only_def)
  from bad_address_replaces_callback [where addr_of = localhost_only, OF this, where H = empty_heap
      and s = "fst (construct UV_TCP empty_heap)" and ?H1.0 = "snd (construct UV_TCP empty_heap)"
      and f = "''first''" and g = "''second''" and uv = "\<lambda>_. 0" and status = 0]
  show ?thesis by (simp add: construct_eq empty_heap_def)
qed

section \<open>The name of a pipe\<close>

text \<open>
  What libuv documents of the two calls: the whole name and its length where the buffer is large
  enough, and otherwise the error and the length needed.
\<close>

definition pipe_lib :: "bytes \<Rightarrow> nat \<Rightarrow> int \<times> bytes \<times> nat" where
  "pipe_lib name n =
     (if length name \<le> n then (0, name @ replicate (n - length name) 0, length name)
      else (UV_ENOBUFS, replicate n 0, length name))"

lemma pipe_name_whole: "pipe_name (pipe_lib name) = Some name"
  by (simp add: pipe_name_def pipe_lib_def UV_ENOBUFS_def)

section \<open>The handles of the server\<close>

text \<open>
  The server has a poll handle for the device and a signal handle, constructed in this order; the
  body of its constructor starts the poll, with \<open>Server::on_read_tun_tap\<close> as the callback.
\<close>

datatype server_callback = On_read_tun_tap | On_signal

definition UV_READABLE :: int where
  "UV_READABLE = 1"

definition server_handles ::
  "libuv \<Rightarrow> server_callback heap \<Rightarrow> ((wrapper \<times> wrapper) \<times> uv_call list \<times> server_callback heap) outcome"
where
  "server_handles uv H =
     (let (m_poll, H1) = construct UV_POLL H;
          (m_signal, H2) = construct UV_SIGNAL H1
      in and_then (poll_start UV_READABLE On_read_tun_tap uv (m_uv_handle m_poll) H2) (\<lambda>(_, calls, H3).
           Ok ((m_poll, m_signal), calls, H3)))"

text \<open>
  The constructor of the server asks libuv for one thing, to poll the device for
  readability, and every event libuv reports for it, errors included, runs \<open>on_read_tun_tap\<close>. The
  signal handle is not started and holds no callback, so \<open>on_signal\<close> is never run.
\<close>

theorem server_polls_device:
  "\<exists>m_poll m_signal a b H3.
     server_handles uv H = Ok ((m_poll, m_signal), [UvPollStart a UV_READABLE], H3) \<and>
     m_uv_handle m_poll = Some a \<and> m_uv_handle m_signal = Some b \<and> a \<noteq> b \<and>
     (\<forall>status events. on_poll status events a H3 = Ok (On_read_tun_tap, [Number status, Number events])) \<and>
     get_data uv_cid_signal (the (tables H3 (Suc b))) = Crash Fault"
proof -
  obtain m_poll H1 where p: "construct UV_POLL H = (m_poll, H1)" by fastforce
  obtain m_signal H2 where s: "construct UV_SIGNAL H1 = (m_signal, H2)" by fastforce
  let ?a = "next_addr H" and ?b = "next_addr H + 2"
  let ?h = "\<lparr>h_type = UV_POLL, h_data = Some (?a + 1), h_closing = False\<rparr>"
  let ?lut = "put_object uv_cid_poll \<lparr>co_type = CallbackStatusEvents, co_fun = On_read_tun_tap, co_data = None\<rparr> new_callbacks"
  let ?H3 = "H2\<lparr>tables := (tables H2)(?a + 1 \<mapsto> ?lut)\<rparr>"
  have n: "next_addr H1 = ?b" using p by (auto simp: construct_eq)
  have t: "table_at ?a ?h (?a + 1) new_callbacks H2"
    using construct_table [OF p] s by (auto simp: construct_eq table_at_def n)
  have "server_handles uv H = Ok ((m_poll, m_signal), [UvPollStart ?a UV_READABLE], ?H3)"
    using construct_table [OF p] start_uv_eq [OF t] by (simp add: server_handles_def p s poll_start_def)
  moreover have "on_poll status events ?a ?H3 = Ok (On_read_tun_tap, [Number status, Number events])" for status events
    using call_back_eq [OF table_at_put [OF t], where c = uv_cid_poll]
    by (simp add: on_poll_def slots.get_put)
  moreover have "get_data uv_cid_signal (the (tables ?H3 (Suc ?b))) = Crash Fault"
    using s by (auto simp: construct_eq n get_data_get slots.get_empty)
  ultimately show ?thesis
    using construct_table [OF p] construct_table [OF s] n by fastforce
qed

end
