(* ===== verification/Files.thy ===== *)
theory Files
  imports Callbacks "HOL-Library.Monad_Syntax"
begin

text \<open>
  Requests and files, \<open>include/uvpp/request.hpp\<close> and \<open>file.hpp\<close>, with the worker and resolver
  requests. A \<open>File\<close> is one request structure, a path and a descriptor; its methods store a callback
  and start a libuv operation on the descriptor or the path. What libuv and the kernel answer is a
  parameter; a small kernel with the names of a directory and a descriptor table says what the
  calls mean.
\<close>

section \<open>Requests\<close>

text \<open>The request types the code names; a structure no operation was started with has type 0.\<close>

datatype uv_req_type = UV_UNKNOWN_REQ | UV_FS | UV_WORK | UV_GETADDRINFO

record 'f request =
  req_type :: uv_req_type
  req_data :: "'f callbacks option"

definition request_ctor :: "'f request" where
  "request_ctor = \<lparr>req_type = UV_UNKNOWN_REQ, req_data = Some new_callbacks\<rparr>"

text \<open>
  \<open>free_request\<close>, which the destructor calls; \<open>m_will_close\<close> is never set for a request. The
  argument is None for a moved-from object.
\<close>

definition free_request :: "'f request option \<Rightarrow> unit outcome" where
  "free_request r =
     (case r of
        None \<Rightarrow> Ok ()
      | Some q \<Rightarrow> if req_type q \<in> {UV_WORK, UV_FS, UV_GETADDRINFO} then Ok () else Crash Abort)"

text \<open>
  Objects of the class: a move takes the structure, and so does an assignment, which forgets the one
  that was held. A request can be cancelled while it has a structure.
\<close>

definition request_move_ctor :: "'f request option \<Rightarrow> 'f request option \<times> 'f request option" where
  "request_move_ctor other = (other, None)"

definition request_move_assign ::
    "bool \<Rightarrow> 'f request option \<Rightarrow> 'f request option \<Rightarrow> 'f request option \<times> 'f request option" where
  "request_move_assign same this other = (if same then (this, other) else (other, None))"

definition request_dtor :: "bool \<Rightarrow> 'f request option \<Rightarrow> unit outcome" where
  "request_dtor will_close r = (if \<not> will_close then free_request r else Ok ())"

definition request_cancel :: "int \<Rightarrow> 'f request option \<Rightarrow> int outcome" where
  "request_cancel rc r = and_then (deref r) (\<lambda>_. Ok rc)"

definition store_req :: "uv_callback_id \<Rightarrow> callback_t \<Rightarrow> 'f \<Rightarrow> 'f request \<Rightarrow> 'f request outcome" where
  "store_req c t f q =
     and_then (deref (req_data q)) (\<lambda>lut. and_then (store c t f None lut) (\<lambda>lut'. Ok (q\<lparr>req_data := Some lut'\<rparr>)))"

definition invoke_req :: "uv_callback_id \<Rightarrow> callback_t \<Rightarrow> 'f request \<Rightarrow> 'f outcome" where
  "invoke_req c t q = and_then (deref (req_data q)) (invoke c t)"

text \<open>\<open>Work::execute\<close>: the work and what comes after it, both stored before it is queued.\<close>

definition work_execute :: "int \<Rightarrow> 'f \<Rightarrow> 'f \<Rightarrow> 'f request \<Rightarrow> (bool \<times> 'f request) outcome" where
  "work_execute rc callback afterCallback q =
     and_then (store_req uv_cid_work Callback callback q) (\<lambda>q1.
     and_then (store_req uv_cid_after_work CallbackWithResult afterCallback q1) (\<lambda>q2.
       Ok (rc = 0, q2\<lparr>req_type := UV_WORK\<rparr>)))"

definition on_work :: "'f request \<Rightarrow> 'f outcome" where
  "on_work = invoke_req uv_cid_work Callback"

definition on_after_work :: "int \<Rightarrow> 'f request \<Rightarrow> ('f \<times> int) outcome" where
  "on_after_work status q = and_then (invoke_req uv_cid_after_work CallbackWithResult q) (\<lambda>f. Ok (f, status))"

text \<open>
  \<open>Resolver::resolve\<close> and its answer. \<open>res\<close> is the first entry of the answer, None for a null
  pointer: its family and the text \<open>uv_ip4_name\<close> or \<open>uv_ip6_name\<close> writes for it.
\<close>

datatype ai_family = AF_INET | AF_INET6 | AF_OTHER

definition EAI_ADDRFAMILY :: int where
  "EAI_ADDRFAMILY = - 9"

definition resolve :: "int \<Rightarrow> 'f \<Rightarrow> 'f request \<Rightarrow> (bool \<times> 'f request) outcome" where
  "resolve rc callback q =
     and_then (store_req uv_cid_resolve CallbackResolved callback q) (\<lambda>q1.
       Ok (rc = 0, q1\<lparr>req_type := UV_GETADDRINFO\<rparr>))"

definition on_resolved :: "int \<Rightarrow> (ai_family \<times> bytes) option \<Rightarrow> 'f request \<Rightarrow> ('f \<times> int \<times> bool \<times> bytes) outcome" where
  "on_resolved status res q =
     (if status = 0 then
        and_then (deref res) (\<lambda>(family, name).
        and_then (invoke_req uv_cid_resolve CallbackResolved q) (\<lambda>f.
          case family of
            AF_OTHER \<Rightarrow> Ok (f, EAI_ADDRFAMILY, False, [])
          | AF_INET6 \<Rightarrow> Ok (f, status, False, name)
          | AF_INET \<Rightarrow> Ok (f, status, True, name)))
      else
        and_then (invoke_req uv_cid_resolve CallbackResolved q) (\<lambda>f.
          Ok (f, status, (case res of None \<Rightarrow> False | Some (family, _) \<Rightarrow> family = AF_INET), [])))"

section \<open>Files\<close>

record 'f file_object =
  req :: "'f request"
  file_path :: bytes
  fd_no :: int

definition new_file :: "bytes \<Rightarrow> 'f file_object" where
  "new_file path = \<lparr>req = request_ctor, file_path = path, fd_no = 0\<rparr>"

text \<open>
  The event loop a \<open>File\<close> runs on. Its member \<open>loop_\<close> is constructed from a pointer, which converts
  to the \<open>bool\<close> that the constructor of \<open>loop\<close> takes.
\<close>

datatype uv_loop = DefaultLoop | NewLoop

definition loop_ctor :: "bool \<Rightarrow> uv_loop" where
  "loop_ctor use_default = (if use_default then DefaultLoop else NewLoop)"

definition file_loop :: "nat option \<Rightarrow> uv_loop" where
  "file_loop l = loop_ctor (l \<noteq> None)"

datatype fs_call =
    FsOpen bytes int int
  | FsRead int int int
  | FsWrite int bytes int
  | FsClose int
  | FsStat bytes
  | FsFsync int
  | FsRename bytes bytes
  | FsSendfile int int int nat
  | FsScandir bytes

definition UV_EIO :: int where
  "UV_EIO = - 5"

text \<open>
  The shape the methods share: a callback is stored, the call is made and its result returned. The
  methods that need a descriptor first test whether it is zero.
\<close>

type_synonym 'f started = "(int \<times> fs_call list \<times> 'f file_object) outcome"

definition fs_start :: "uv_callback_id \<Rightarrow> callback_t \<Rightarrow> 'f \<Rightarrow> fs_call \<Rightarrow> (fs_call \<Rightarrow> int) \<Rightarrow> 'f file_object \<Rightarrow> 'f started" where
  "fs_start c t f k fs F =
     and_then (store_req c t f (req F)) (\<lambda>q. Ok (fs k, [k], F\<lparr>req := q\<lparr>req_type := UV_FS\<rparr>\<rparr>))"

definition fs_now :: "fs_call \<Rightarrow> (fs_call \<Rightarrow> int) \<Rightarrow> 'f file_object \<Rightarrow> 'f started" where
  "fs_now k fs F = Ok (fs k, [k], F\<lparr>req := (req F)\<lparr>req_type := UV_FS\<rparr>\<rparr>)"

definition if_open :: "('f file_object \<Rightarrow> 'f started) \<Rightarrow> 'f file_object \<Rightarrow> 'f started" where
  "if_open m F = (if fd_no F = 0 then Ok (UV_EIO, [], F) else m F)"

text \<open>The result passed to a callback: the error, or success for anything not negative.\<close>

definition result_of :: "int \<Rightarrow> int" where
  "result_of result = (if result < 0 then result else 0)"

definition on_result :: "uv_callback_id \<Rightarrow> int \<Rightarrow> 'f file_object \<Rightarrow> ('f \<times> int) outcome" where
  "on_result c result F = and_then (invoke_req c CallbackWithResult (req F)) (\<lambda>f. Ok (f, result_of result))"

subsection \<open>Opening, reading and writing\<close>

definition file_open :: "int \<Rightarrow> int \<Rightarrow> 'f \<Rightarrow> (fs_call \<Rightarrow> int) \<Rightarrow> 'f file_object \<Rightarrow> 'f started" where
  "file_open flags mode callback fs F =
     fs_start uv_cid_fs_open OpenClosure callback (FsOpen (file_path F) flags mode) fs F"

definition on_open :: "int \<Rightarrow> 'f file_object \<Rightarrow> (('f \<times> int) \<times> 'f file_object) outcome" where
  "on_open result F =
     and_then (invoke_req uv_cid_fs_open OpenClosure (req F)) (\<lambda>f.
       Ok ((f, result_of result), if result_of result = 0 then F\<lparr>fd_no := result\<rparr> else F))"

definition file_read :: "int \<Rightarrow> int \<Rightarrow> 'f \<Rightarrow> (fs_call \<Rightarrow> int) \<Rightarrow> 'f file_object \<Rightarrow> 'f started" where
  "file_read len offset callback fs =
     if_open (\<lambda>F. fs_start uv_cid_fs_read ReadClosure callback (FsRead (fd_no F) len offset) fs F)"

definition on_fs_read :: "int \<Rightarrow> bytes \<Rightarrow> 'f file_object \<Rightarrow> ('f \<times> bytes option \<times> int) outcome" where
  "on_fs_read result buffer F =
     and_then (invoke_req uv_cid_fs_read ReadClosure (req F)) (\<lambda>f.
       Ok (f, if result = 0 then None else Some buffer, result))"

definition file_write :: "bytes \<Rightarrow> int \<Rightarrow> 'f \<Rightarrow> (fs_call \<Rightarrow> int) \<Rightarrow> 'f file_object \<Rightarrow> 'f started" where
  "file_write buf offset callback fs =
     if_open (\<lambda>F. fs_start uv_cid_fs_write CallbackWithResult callback (FsWrite (fd_no F) buf offset) fs F)"

definition on_fs_write :: "int \<Rightarrow> 'f file_object \<Rightarrow> ('f \<times> int) outcome" where
  "on_fs_write = on_result uv_cid_fs_write"

subsection \<open>Closing and unlinking\<close>

definition file_close :: "'f \<Rightarrow> (fs_call \<Rightarrow> int) \<Rightarrow> 'f file_object \<Rightarrow> 'f started" where
  "file_close callback fs = if_open (\<lambda>F. fs_start uv_cid_fs_close Callback callback (FsClose (fd_no F)) fs F)"

definition on_fs_close :: "'f file_object \<Rightarrow> 'f outcome" where
  "on_fs_close F = invoke_req uv_cid_fs_close Callback (req F)"

definition file_close_now :: "(fs_call \<Rightarrow> int) \<Rightarrow> 'f file_object \<Rightarrow> 'f started" where
  "file_close_now fs = if_open (\<lambda>F. fs_now (FsClose (fd_no F)) fs F)"

definition file_unlink :: "'f \<Rightarrow> (fs_call \<Rightarrow> int) \<Rightarrow> 'f file_object \<Rightarrow> 'f started" where
  "file_unlink callback fs =
     if_open (\<lambda>F. fs_start uv_cid_fs_unlink CallbackWithResult callback (FsClose (fd_no F)) fs F)"

definition on_fs_unlink :: "int \<Rightarrow> 'f file_object \<Rightarrow> ('f \<times> int) outcome" where
  "on_fs_unlink = on_result uv_cid_fs_unlink"

definition file_unlink_now :: "(fs_call \<Rightarrow> int) \<Rightarrow> 'f file_object \<Rightarrow> 'f started" where
  "file_unlink_now fs = if_open (\<lambda>F. fs_now (FsClose (fd_no F)) fs F)"

subsection \<open>The other operations\<close>

definition file_stats :: "'f \<Rightarrow> (fs_call \<Rightarrow> int) \<Rightarrow> 'f file_object \<Rightarrow> 'f started" where
  "file_stats callback fs F = fs_start uv_cid_fs_stats CallbackResultStats callback (FsStat (file_path F)) fs F"

definition on_fs_stats :: "int \<Rightarrow> 's \<Rightarrow> 's \<Rightarrow> 'f file_object \<Rightarrow> ('f \<times> int \<times> 's) outcome" where
  "on_fs_stats result stat no_stats F =
     and_then (invoke_req uv_cid_fs_stats CallbackResultStats (req F)) (\<lambda>f.
       Ok (f, result_of result, if result < 0 then no_stats else stat))"

definition file_fsync :: "'f \<Rightarrow> (fs_call \<Rightarrow> int) \<Rightarrow> 'f file_object \<Rightarrow> 'f started" where
  "file_fsync callback fs =
     if_open (\<lambda>F. fs_start uv_cid_fs_fsync CallbackWithResult callback (FsFsync (fd_no F)) fs F)"

definition on_fs_fsync :: "int \<Rightarrow> 'f file_object \<Rightarrow> ('f \<times> int) outcome" where
  "on_fs_fsync = on_result uv_cid_fs_fsync"

definition file_rename :: "bytes \<Rightarrow> 'f \<Rightarrow> (fs_call \<Rightarrow> int) \<Rightarrow> 'f file_object \<Rightarrow> 'f started" where
  "file_rename newName callback fs F =
     fs_start uv_cid_fs_rename CallbackWithResult callback (FsRename (file_path F) newName) fs F"

definition on_fs_rename :: "int \<Rightarrow> 'f file_object \<Rightarrow> ('f \<times> int) outcome" where
  "on_fs_rename = on_result uv_cid_fs_rename"

definition file_sendfile :: "'g file_object \<Rightarrow> int \<Rightarrow> nat \<Rightarrow> 'f \<Rightarrow> (fs_call \<Rightarrow> int) \<Rightarrow> 'f file_object \<Rightarrow> 'f started" where
  "file_sendfile out in_offset len callback fs =
     if_open (\<lambda>F. if fd_no out = 0 then Ok (UV_EIO, [], F)
       else fs_start uv_cid_fs_sendfile CallbackWithResult callback (FsSendfile (fd_no F) (fd_no out) in_offset len) fs F)"

definition on_fs_sendfile :: "int \<Rightarrow> 'f file_object \<Rightarrow> ('f \<times> int) outcome" where
  "on_fs_sendfile = on_result uv_cid_fs_sendfile"

text \<open>The synchronous \<open>stats\<close>: an exception where the call failed.\<close>

definition file_stats_now :: "'s \<Rightarrow> (fs_call \<Rightarrow> int) \<Rightarrow> 'f file_object \<Rightarrow> (int + 's) \<times> 'f file_object" where
  "file_stats_now stat fs F =
     (let err = fs (FsStat (file_path F))
      in (if err \<ge> 0 then Inr stat else Inl err, F\<lparr>req := (req F)\<lparr>req_type := UV_FS\<rparr>\<rparr>))"

section \<open>Directories\<close>

datatype dirent_type =
    UV_DIRENT_UNKNOWN | UV_DIRENT_FILE | UV_DIRENT_DIR | UV_DIRENT_LINK | UV_DIRENT_FIFO
  | UV_DIRENT_SOCKET | UV_DIRENT_CHAR | UV_DIRENT_BLOCK

record dirent =
  d_name :: bytes
  d_type :: dirent_type

record entry =
  e_ent :: dirent
  e_name :: bytes
  e_fullPath :: bytes

definition new_entry :: "'f file_object \<Rightarrow> dirent \<Rightarrow> entry" where
  "new_entry F ent =
     \<lparr>e_ent = ent, e_name = d_name ent,
      e_fullPath = (if d_type ent = UV_DIRENT_DIR then file_path F @ d_name ent @ str ''/'' else file_path F @ d_name ent)\<rparr>"

definition entry_file :: "entry \<Rightarrow> 'f file_object" where
  "entry_file e = new_file (e_fullPath e)"

definition typeString :: "entry \<Rightarrow> string" where
  "typeString e =
     (case d_type (e_ent e) of
        UV_DIRENT_FILE \<Rightarrow> ''FILE''
      | UV_DIRENT_DIR \<Rightarrow> ''DIR''
      | UV_DIRENT_LINK \<Rightarrow> ''LINK''
      | UV_DIRENT_FIFO \<Rightarrow> ''FIFO''
      | UV_DIRENT_SOCKET \<Rightarrow> ''SOCKET''
      | UV_DIRENT_CHAR \<Rightarrow> ''CHAR''
      | UV_DIRENT_BLOCK \<Rightarrow> ''CHAR''
      | UV_DIRENT_UNKNOWN \<Rightarrow> ''UNKNONW'')"

text \<open>
  The answers of \<open>uv_fs_scandir_next\<close>, in order: its result and the entry it writes. Where the
  result is an error the entry keeps what the call before wrote, \<open>ent\<close>.
\<close>

type_synonym scan = "nat \<Rightarrow> int \<times> dirent"

definition UV_EOF :: int where
  "UV_EOF = - 4095"

definition file_scandir :: "'f \<Rightarrow> (fs_call \<Rightarrow> int) \<Rightarrow> 'f file_object \<Rightarrow> 'f started" where
  "file_scandir callback fs F = fs_start uv_cid_fs_scandir ScandirClosure callback (FsScandir (file_path F)) fs F"

text \<open>The asynchronous scan asks as often as the result of the call says and keeps what is no error.\<close>

definition on_scandir :: "int \<Rightarrow> scan \<Rightarrow> 'f file_object \<Rightarrow> ('f \<times> int \<times> entry list) outcome" where
  "on_scandir result next F =
     and_then (invoke_req uv_cid_fs_scandir ScandirClosure (req F)) (\<lambda>f.
       if result < 0 then Ok (f, result, [])
       else Ok (f, 0, concat (map (\<lambda>i. if fst (next i) = 0 then [new_entry F (snd (next i))] else []) [0..<nat result])))"

text \<open>The synchronous one asks until the end is reported, and keeps every other answer.\<close>

partial_function (option) scan_from :: "scan \<Rightarrow> 'f file_object \<Rightarrow> nat \<Rightarrow> entry list option" where
  "scan_from next F i =
     (if fst (next i) = UV_EOF then Some []
      else do { es \<leftarrow> scan_from next F (Suc i); Some (new_entry F (snd (next i)) # es) })"

definition file_scandir_now :: "scan \<Rightarrow> (fs_call \<Rightarrow> int) \<Rightarrow> 'f file_object \<Rightarrow> (int + entry list) option" where
  "file_scandir_now next fs F =
     (let err = fs (FsScandir (file_path F))
      in if err \<ge> 0 then map_option Inr (scan_from next F 0) else Some (Inl err))"

section \<open>Kernel\<close>

text \<open>
  The names of the files there are and the open descriptors, the last opened first. A descriptor is
  the lowest number that is free; \<open>other\<close> answers the calls that change neither.
\<close>

record disk =
  names :: "bytes list"
  fds :: "(int \<times> bytes) list"

definition lowest_free :: "(int \<times> bytes) list \<Rightarrow> int" where
  "lowest_free t = int (hd (filter (\<lambda>n. map_of t (int n) = None) [0..<Suc (length t)]))"

definition O_CREAT :: int where
  "O_CREAT = 64"

definition ENOENT :: int where
  "ENOENT = 2"

definition EBADF :: int where
  "EBADF = 9"

fun kernel :: "(fs_call \<Rightarrow> int) \<Rightarrow> fs_call \<Rightarrow> disk \<Rightarrow> int \<times> disk" where
  "kernel other (FsOpen path flags mode) D =
     (if path \<in> set (names D) \<or> flags AND O_CREAT \<noteq> 0
      then (lowest_free (fds D), D\<lparr>names := List.insert path (names D), fds := (lowest_free (fds D), path) # fds D\<rparr>)
      else (- ENOENT, D))"
| "kernel other (FsClose fd) D =
     (if map_of (fds D) fd = None then (- EBADF, D)
      else (0, D\<lparr>fds := filter (\<lambda>(k, _). k \<noteq> fd) (fds D)\<rparr>))"
| "kernel other (FsRename old new) D =
     (if old \<in> set (names D) then (0, D\<lparr>names := List.insert new (removeAll old (names D))\<rparr>) else (- ENOENT, D))"
| "kernel other k D = (other k, D)"

lemma lowest_free_is_free: "map_of t (lowest_free t) = None"
proof -
  let ?free = "\<lambda>n. map_of t (int n) = None"
  have "\<not> {0..<Suc (length t)} \<subseteq> nat ` (fst ` set t)"
  proof
    assume "{0..<Suc (length t)} \<subseteq> nat ` (fst ` set t)"
    then have "Suc (length t) \<le> card (nat ` (fst ` set t))"
      using card_mono [of "nat ` (fst ` set t)" "{0..<Suc (length t)}"] by simp
    also have "\<dots> \<le> card (set t)" by (metis card_image_le finite_imageI finite_set le_trans)
    also have "\<dots> \<le> length t" by (rule card_length)
    finally show False by simp
  qed
  then obtain n where "n \<in> {0..<Suc (length t)}" and nn: "n \<notin> nat ` (fst ` set t)" by blast
  then have n: "n < Suc (length t)" by simp
  from nn have "?free n" by (force simp: map_of_eq_None_iff image_iff)
  then have "filter ?free [0..<Suc (length t)] \<noteq> []" using n(1) by (auto simp: filter_empty_conv simp del: upt_Suc)
  then have "hd (filter ?free [0..<Suc (length t)]) \<in> set (filter ?free [0..<Suc (length t)])" by (rule hd_in_set)
  then show ?thesis unfolding lowest_free_def by (simp del: upt_Suc)
qed

lemma close_drops: "map_of (filter (\<lambda>(k, _). k \<noteq> fd) t) fd = None"
  by (induction t) auto

lemma filter_absent: "map_of t fd = None \<Longrightarrow> filter (\<lambda>(k, _). k \<noteq> fd) t = t"
  by (induction t) (auto split: if_splits)

section \<open>Requests in order\<close>

definition request_ok :: "'f request \<Rightarrow> bool" where
  "request_ok q \<longleftrightarrow> (\<exists>lut. req_data q = Some lut \<and> full_table lut)"

lemma request_ok_ctor [simp]: "request_ok request_ctor"
  by (simp add: request_ok_def request_ctor_def full_table_def new_callbacks_def callbacks_of_def)

text \<open>A start stores its callback, and its completion finds it.\<close>

lemma store_invoke_req:
  assumes "request_ok q"
  obtains q' where "store_req c t f q = Ok q'" "request_ok q'" "req_type q' = req_type q"
    "\<And>ty. invoke_req c t (q'\<lparr>req_type := ty\<rparr>) = Ok f" "invoke_req c t q' = Ok f"
proof -
  from assms obtain lut where l: "req_data q = Some lut" "full_table lut" by (auto simp: request_ok_def)
  let ?q = "q\<lparr>req_data := Some (put_object c \<lparr>co_type = t, co_fun = f, co_data = None\<rparr> lut)\<rparr>"
  show thesis
    using l by (intro that [of ?q])
      (simp_all add: store_req_def store_put request_ok_def slots.valid_put invoke_req_def invoke_get slots.get_put)
qed

lemma fs_start_ok:
  assumes "request_ok (req F)"
  obtains F' where "fs_start c t f k fs F = Ok (fs k, [k], F')" "request_ok (req F')"
    "fd_no F' = fd_no F" "file_path F' = file_path F" "req_type (req F') = UV_FS" "invoke_req c t (req F') = Ok f"
proof -
  obtain q' where q: "store_req c t f (req F) = Ok q'" "request_ok q'"
      "\<And>ty. invoke_req c t (q'\<lparr>req_type := ty\<rparr>) = Ok f"
    by (rule store_invoke_req [OF assms, of c t f]) blast
  show thesis
    by (rule that [of "F\<lparr>req := q'\<lparr>req_type := UV_FS\<rparr>\<rparr>"]) (use q in \<open>simp_all add: fs_start_def request_ok_def\<close>)
qed

lemma new_file_simps [simp]:
  "req (new_file path) = request_ctor" "file_path (new_file path) = path" "fd_no (new_file path) = 0"
  by (simp_all add: new_file_def)

section \<open>Properties\<close>

text \<open>
  \<open>unlink\<close> does not unlink: it closes the descriptor, reports success to its callback,
  and the name of the file is still there.
\<close>

theorem unlink_keeps_file:
  assumes "request_ok (req F)" "fd_no F \<noteq> 0" "map_of (fds D) (fd_no F) \<noteq> None"
  shows "\<exists>rc F' D'. file_unlink callback fs F = Ok (rc, [FsClose (fd_no F)], F') \<and>
    kernel other (FsClose (fd_no F)) D = (0, D') \<and> names D' = names D \<and> map_of (fds D') (fd_no F) = None \<and>
    on_fs_unlink 0 F' = Ok (callback, 0)"
proof -
  from fs_start_ok [OF assms(1), of uv_cid_fs_unlink CallbackWithResult callback "FsClose (fd_no F)" fs]
  obtain F' where "fs_start uv_cid_fs_unlink CallbackWithResult callback (FsClose (fd_no F)) fs F =
        Ok (fs (FsClose (fd_no F)), [FsClose (fd_no F)], F')"
      "invoke_req uv_cid_fs_unlink CallbackWithResult (req F') = Ok callback"
    by blast
  with assms show ?thesis
    by (auto simp: file_unlink_def if_open_def on_fs_unlink_def on_result_def result_of_def close_drops)
qed

lemma unlink_keeps_file_witness:
  "\<exists>rc F' D'. file_unlink ''done'' (\<lambda>_. 0) ((new_file (str ''a''))\<lparr>fd_no := 3\<rparr>) = Ok (rc, [FsClose 3], F') \<and>
    kernel (\<lambda>_. 0) (FsClose 3) \<lparr>names = [str ''a''], fds = [(3, str ''a'')]\<rparr> = (0, D') \<and> names D' = [str ''a''] \<and>
    on_fs_unlink 0 F' = Ok (''done'', 0)"
  using unlink_keeps_file [of "(new_file (str ''a''))\<lparr>fd_no := 3\<rparr>" "\<lparr>names = [str ''a''], fds = [(3, str ''a'')]\<rparr>"
      "''done''" "\<lambda>_. 0" "\<lambda>_. 0"]
  by auto

text \<open>Opening a file and waiting for the answer; closing it, without a callback.\<close>

definition open_wait :: "int \<Rightarrow> int \<Rightarrow> 'f \<Rightarrow> 'f file_object \<times> disk \<Rightarrow> (('f \<times> int) \<times> 'f file_object \<times> disk) outcome" where
  "open_wait flags mode callback FD =
     (let (F, D) = FD
      in and_then (file_open flags mode callback (\<lambda>_. 0) F) (\<lambda>(rc, calls, F1).
         let (result, D') = kernel (\<lambda>_. 0) (FsOpen (file_path F) flags mode) D
         in and_then (on_open result F1) (\<lambda>(called, F2). Ok (called, F2, D'))))"

definition close_wait :: "'f file_object \<times> disk \<Rightarrow> (int \<times> 'f file_object \<times> disk) outcome" where
  "close_wait FD =
     (let (F, D) = FD
      in and_then (file_close_now (\<lambda>k. fst (kernel (\<lambda>_. 0) k D)) F) (\<lambda>(rc, calls, F').
         Ok (rc, F', fold (\<lambda>k D. snd (kernel (\<lambda>_. 0) k D)) calls D)))"

lemma open_wait_existing:
  assumes "request_ok (req F)" "file_path F \<in> set (names D)"
  obtains F' where
    "open_wait flags mode f (F, D) =
       Ok ((f, 0), F', D\<lparr>fds := (lowest_free (fds D), file_path F) # fds D\<rparr>)"
    "fd_no F' = lowest_free (fds D)" "request_ok (req F')" "file_path F' = file_path F"
proof -
  let ?k = "FsOpen (file_path F) flags mode"
  obtain F' where F': "fs_start uv_cid_fs_open OpenClosure f ?k (\<lambda>_. 0) F = Ok (0, [?k], F')"
      "request_ok (req F')" "file_path F' = file_path F"
      "invoke_req uv_cid_fs_open OpenClosure (req F') = Ok f"
    by (rule fs_start_ok [OF assms(1), of uv_cid_fs_open OpenClosure f ?k "\<lambda>_. 0"]) blast
  have "0 \<le> lowest_free (fds D)" by (simp add: lowest_free_def)
  then have "open_wait flags mode f (F, D) =
      Ok ((f, 0), F'\<lparr>fd_no := lowest_free (fds D)\<rparr>, D\<lparr>fds := (lowest_free (fds D), file_path F) # fds D\<rparr>)"
    using F' assms(2) by (simp add: open_wait_def file_open_def on_open_def result_of_def List.insert_def)
  then show thesis using F' by (intro that [of "F'\<lparr>fd_no := lowest_free (fds D)\<rparr>"]) simp_all
qed

lemma close_wait_open:
  assumes "fd_no F \<noteq> 0" "map_of (fds D) (fd_no F) \<noteq> None"
  obtains F' where "close_wait (F, D) = Ok (0, F', D\<lparr>fds := filter (\<lambda>(k, _). k \<noteq> fd_no F) (fds D)\<rparr>)"
    "fd_no F' = fd_no F"
  using assms by (simp add: close_wait_def file_close_now_def if_open_def fs_now_def)

text \<open>
  A \<open>File\<close> that was closed keeps its descriptor. When another file is opened it gets the
  same number, and closing the first file a second time succeeds and closes the second file.
\<close>

theorem second_close_closes_another:
  assumes "request_ok (req F)" "request_ok (req G)" "file_path F \<in> set (names D)" "file_path G \<in> set (names D)"
    and "lowest_free (fds D) \<noteq> 0"
  shows "\<exists>F1 D1 F2 D2 G1 D3 F3 D4.
    open_wait flags mode f (F, D) = Ok ((f, 0), F1, D1) \<and>
    close_wait (F1, D1) = Ok (0, F2, D2) \<and>
    open_wait flags mode g (G, D2) = Ok ((g, 0), G1, D3) \<and> map_of (fds D3) (fd_no G1) = Some (file_path G) \<and>
    close_wait (F2, D3) = Ok (0, F3, D4) \<and> map_of (fds D4) (fd_no G1) = None"
proof -
  let ?n = "lowest_free (fds D)"
  let ?D1 = "D\<lparr>fds := (?n, file_path F) # fds D\<rparr>"
  obtain F1 where o_F: "open_wait flags mode f (F, D) = Ok ((f, 0), F1, ?D1)" "fd_no F1 = ?n"
    by (rule open_wait_existing [OF assms(1,3)])
  have "map_of (fds ?D1) (fd_no F1) \<noteq> None" using o_F(2) by simp
  moreover have again: "filter (\<lambda>(k, _). k \<noteq> ?n) (fds ?D1) = fds D" by (simp add: filter_absent lowest_free_is_free)
  ultimately obtain F2 where c1: "close_wait (F1, ?D1) = Ok (0, F2, D)" "fd_no F2 = ?n"
    using close_wait_open [of F1 ?D1] o_F(2) assms(5) by auto
  let ?D3 = "D\<lparr>fds := (?n, file_path G) # fds D\<rparr>"
  obtain G1 where o_G: "open_wait flags mode g (G, D) = Ok ((g, 0), G1, ?D3)" "fd_no G1 = ?n"
    by (rule open_wait_existing [OF assms(2,4)])
  obtain F3 where c2: "close_wait (F2, ?D3) = Ok (0, F3, ?D3\<lparr>fds := filter (\<lambda>(k, _). k \<noteq> ?n) (fds ?D3)\<rparr>)"
    using close_wait_open [of F2 ?D3] c1(2) assms(5) by auto
  have "map_of (fds (?D3\<lparr>fds := filter (\<lambda>(k, _). k \<noteq> ?n) (fds ?D3)\<rparr>)) (fd_no G1) = None"
    by (simp add: o_G(2) close_drops)
  moreover have "map_of (fds ?D3) (fd_no G1) = Some (file_path G)" by (simp add: o_G(2))
  ultimately show ?thesis using o_F(1) c1(1) o_G(1) c2 by blast
qed

lemma second_close_closes_another_witness:
  "\<exists>F1 D1 F2 D2 G1 D3 F3 D4.
    open_wait 0 0 ''f'' (new_file (str ''a''), \<lparr>names = [str ''a'', str ''b''], fds = [(0, str ''tty'')]\<rparr>) = Ok ((''f'', 0), F1, D1) \<and>
    close_wait (F1, D1) = Ok (0, F2, D2) \<and>
    open_wait 0 0 ''g'' (new_file (str ''b''), D2) = Ok ((''g'', 0), G1, D3) \<and> map_of (fds D3) (fd_no G1) = Some (str ''b'') \<and>
    close_wait (F2, D3) = Ok (0, F3, D4) \<and> map_of (fds D4) (fd_no G1) = None"
proof -
  have "lowest_free [(0, str ''tty'')] = 1" by (simp add: lowest_free_def)
  then show ?thesis
    using second_close_closes_another [of "new_file (str ''a'')" "new_file (str ''b'')"
        "\<lparr>names = [str ''a'', str ''b''], fds = [(0, str ''tty'')]\<rparr>" 0 0 "''f''" "''g''"]
    by simp
qed

section \<open>Scanning a directory\<close>

text \<open>What libuv documents: the entries one by one, then the end.\<close>

definition lists_dir :: "scan \<Rightarrow> dirent list \<Rightarrow> bool" where
  "lists_dir next ents \<longleftrightarrow>
     (\<forall>i < length ents. next i = (0, ents ! i)) \<and> fst (next (length ents)) = UV_EOF"

lemma scan_from_dir:
  "lists_dir next ents \<Longrightarrow> i \<le> length ents \<Longrightarrow> scan_from next F i = Some (map (new_entry F) (drop i ents))"
proof (induction "length ents - i" arbitrary: i)
  case 0
  then show ?case by (subst scan_from.simps) (simp add: lists_dir_def)
next
  case (Suc n)
  then have i: "i < length ents" by simp
  with Suc.prems(1) have "next i = (0, ents ! i)" by (simp add: lists_dir_def)
  moreover have "scan_from next F (Suc i) = Some (map (new_entry F) (drop (Suc i) ents))"
    using Suc i by simp
  ultimately show ?case
    by (subst scan_from.simps) (simp add: UV_EOF_def Cons_nth_drop_Suc [OF i, symmetric])
qed

lemma concat_singletons: "concat (map (\<lambda>i. [f i]) xs) = map f xs"
  by (induction xs) simp_all

lemma asked_entries:
  assumes "lists_dir next ents"
  shows "concat (map (\<lambda>i. if fst (next i) = 0 then [new_entry F (snd (next i))] else []) [0..<length ents]) =
    map (new_entry F) ents"
proof -
  have "map (\<lambda>i. if fst (next i) = 0 then [new_entry F (snd (next i))] else []) [0..<length ents] =
      map (\<lambda>i. [new_entry F (ents ! i)]) [0..<length ents]"
    using assms by (intro map_cong) (simp_all add: lists_dir_def)
  moreover have "map (\<lambda>i. new_entry F (ents ! i)) [0..<length ents] = map (new_entry F) ents"
    by (rule nth_equalityI) simp_all
  ultimately show ?thesis by (simp only: concat_singletons)
qed

text \<open>
  Both ways to list a directory return, and they give the same entries, those of the
  directory in its order, when the results of libuv are what it documents.
\<close>

theorem scandir_agree:
  assumes "lists_dir next ents" "fs (FsScandir (file_path F)) = int (length ents)" "request_ok (req F)"
  shows "file_scandir_now next fs F = Some (Inr (map (new_entry F) ents)) \<and>
    (\<exists>rc F'. file_scandir callback fs F = Ok (rc, [FsScandir (file_path F)], F') \<and>
       on_scandir (int (length ents)) next F' = Ok (callback, 0, map (new_entry F) ents))"
proof
  show "file_scandir_now next fs F = Some (Inr (map (new_entry F) ents))"
    using scan_from_dir [OF assms(1), of 0 F] assms(2) by (simp add: file_scandir_now_def)
  obtain F' where F': "file_scandir callback fs F = Ok (fs (FsScandir (file_path F)), [FsScandir (file_path F)], F')"
      "file_path F' = file_path F" "invoke_req uv_cid_fs_scandir ScandirClosure (req F') = Ok callback"
    unfolding file_scandir_def
    by (rule fs_start_ok [OF assms(3), of uv_cid_fs_scandir ScandirClosure callback "FsScandir (file_path F)" fs]) blast
  have n: "new_entry F' = new_entry F" using F'(2) by (simp add: new_entry_def fun_eq_iff)
  have "on_scandir (int (length ents)) next F' = Ok (callback, 0, map (new_entry F) ents)"
    using F'(3) asked_entries [OF assms(1), of F'] by (simp add: on_scandir_def n)
  with F'(1) show "\<exists>rc F'. file_scandir callback fs F = Ok (rc, [FsScandir (file_path F)], F') \<and>
      on_scandir (int (length ents)) next F' = Ok (callback, 0, map (new_entry F) ents)"
    by blast
qed

definition two_entries :: scan where
  "two_entries i =
     (if i = 0 then (0, \<lparr>d_name = str ''sub'', d_type = UV_DIRENT_DIR\<rparr>)
      else if i = 1 then (0, \<lparr>d_name = str ''a'', d_type = UV_DIRENT_FILE\<rparr>)
      else (UV_EOF, \<lparr>d_name = [], d_type = UV_DIRENT_UNKNOWN\<rparr>))"

lemma scandir_agree_witness:
  "\<exists>es. file_scandir_now two_entries (\<lambda>_. 2) (new_file (str ''/tmp/'') :: string file_object) = Some (Inr es) \<and>
     map e_fullPath es = [str ''/tmp/sub/'', str ''/tmp/a''] \<and>
     (\<exists>rc F'. file_scandir ''done'' (\<lambda>_. 2) (new_file (str ''/tmp/'')) = Ok (rc, [FsScandir (str ''/tmp/'')], F') \<and>
        on_scandir 2 two_entries F' = Ok (''done'', 0, es))"
proof -
  let ?ents = "[\<lparr>d_name = str ''sub'', d_type = UV_DIRENT_DIR\<rparr>, \<lparr>d_name = str ''a'', d_type = UV_DIRENT_FILE\<rparr>]"
  let ?F = "new_file (str ''/tmp/'') :: string file_object"
  have l: "lists_dir two_entries ?ents" by (auto simp: lists_dir_def two_entries_def less_Suc_eq)
  have two: "(\<lambda>_. 2) (FsScandir (file_path ?F)) = int (length ?ents)" by simp
  have ok: "request_ok (req ?F)" by simp
  note a = scandir_agree [OF l two ok, of "''done''"]
  have n: "int (length ?ents) = 2" "file_path ?F = str ''/tmp/''" by simp_all
  have m: "map e_fullPath (map (new_entry ?F) ?ents) = [str ''/tmp/sub/'', str ''/tmp/a'']"
    by (simp add: new_entry_def)
  show ?thesis
    by (rule exI, rule conjI [OF conjunct1 [OF a] conjI [OF m conjunct2 [OF a, unfolded n]]])
qed

section \<open>Objects that cannot be given up, descriptors that cannot be used\<close>

text \<open>
  A \<open>File\<close> no operation was started with has a request of unknown type, and its destructor fails
  the assertion in \<open>free_request\<close>; one that was opened is freed.
\<close>

lemma unused_file_aborts:
  "free_request (Some (req (new_file path))) = Crash Abort \<and>
   (\<exists>rc calls F'. file_open flags mode callback fs (new_file path) = Ok (rc, calls, F') \<and>
      free_request (Some (req F')) = Ok ())"
proof -
  have "request_ok (req (new_file path))" by simp
  from fs_start_ok [OF this, of uv_cid_fs_open OpenClosure callback "FsOpen path flags mode" fs]
  obtain F' where "fs_start uv_cid_fs_open OpenClosure callback (FsOpen path flags mode) fs (new_file path) =
      Ok (fs (FsOpen path flags mode), [FsOpen path flags mode], F')" "req_type (req F') = UV_FS"
    by blast
  then show ?thesis by (simp add: file_open_def free_request_def request_ctor_def)
qed

text \<open>
  A file that gets the descriptor 0, because standard input is closed, reports that it was opened
  and then refuses every operation on it.
\<close>

lemma descriptor_zero_refused:
  assumes "request_ok (req F)" "invoke_req uv_cid_fs_open OpenClosure (req F) = Ok callback"
  shows "\<exists>F'. on_open 0 F = Ok ((callback, 0), F') \<and>
    file_read len offset c fs F' = Ok (UV_EIO, [], F') \<and> file_write buf offset c fs F' = Ok (UV_EIO, [], F') \<and>
    file_close c fs F' = Ok (UV_EIO, [], F')"
  using assms
  by (simp add: on_open_def result_of_def file_read_def file_write_def file_close_def if_open_def)

text \<open>Every \<open>File\<close> runs on the default loop, whichever loop it was given.\<close>

lemma file_loop_default: "l \<noteq> None \<Longrightarrow> file_loop l = DefaultLoop"
  by (simp add: file_loop_def loop_ctor_def)

end
