(* ===== verification/Stats.thy ===== *)
theory Stats
  imports Files
begin

text \<open>
  The file statistics of \<open>include/uvpp/file.hpp\<close>: what libuv reports in integers of 64 bits becomes
  integers of 32 bits and floating-point numbers. All the floating-point numbers that occur are whole
  and far below the largest one, so a \<^verbatim>\<open>double\<close> is modelled by its value, a whole number that has been
  rounded to 53 binary digits, to the nearest and to the even one of two.
\<close>

section \<open>Doubles with whole values\<close>

text \<open>The number of binary digits beyond 53.\<close>

fun excess_digits :: "nat \<Rightarrow> nat" where
  "excess_digits n = (if n < 2 ^ 53 then 0 else Suc (excess_digits (n div 2)))"

declare excess_digits.simps [simp del]

definition round53 :: "nat \<Rightarrow> nat" where
  "round53 n =
     (let k = excess_digits n; q = n div 2 ^ k; r = n mod 2 ^ k
      in (if 2 * r > 2 ^ k \<or> 2 * r = 2 ^ k \<and> k \<noteq> 0 \<and> odd q then q + 1 else q) * 2 ^ k)"

definition to_double :: "int \<Rightarrow> int" where
  "to_double x = (if x < 0 then - int (round53 (nat (- x))) else int (round53 (nat x)))"

section \<open>The structures\<close>

record uv_timespec =
  tv_sec :: "64 word"
  tv_nsec :: "64 word"

record uv_stat =
  st_dev :: u64
  st_mode :: u64
  st_nlink :: u64
  st_uid :: u64
  st_gid :: u64
  st_rdev :: u64
  st_ino :: u64
  st_size :: u64
  st_atim :: uv_timespec
  st_mtim :: uv_timespec
  st_ctim :: uv_timespec

text \<open>Integers are words, read with their sign; doubles are their values. A new object is zero.\<close>

record Stats =
  dev :: u32
  st_mode32 :: u32
  nlink :: u32
  uid :: u32
  gid :: u32
  rdev :: u32
  st_bytes :: int
  ino :: int
  atime :: int
  mtime :: int
  ctime :: int

definition no_Stats :: Stats where
  "no_Stats = \<lparr> dev = 0, st_mode32 = 0, nlink = 0, uid = 0, gid = 0, rdev = 0, st_bytes = 0, ino = 0,
     atime = 0, mtime = 0, ctime = 0 \<rparr>"

text \<open>\<^verbatim>\<open>STAT_GET_DOUBLE\<close> and \<^verbatim>\<open>STAT_GET_DATE\<close>: milliseconds. The division of integers truncates.\<close>

definition STAT_GET_DOUBLE :: "u64 \<Rightarrow> int" where
  "STAT_GET_DOUBLE v = to_double (uint v)"

definition STAT_GET_DATE :: "uv_timespec \<Rightarrow> int" where
  "STAT_GET_DATE t =
     (let ms = sgn (sint (tv_nsec t)) * (\<bar>sint (tv_nsec t)\<bar> div 1000000)
      in to_double (to_double (to_double (sint (tv_sec t)) * 1000) + to_double ms))"

definition statsFromUV :: "uv_stat \<Rightarrow> Stats" where
  "statsFromUV s =
     \<lparr> dev = ucast (st_dev s), st_mode32 = ucast (st_mode s), nlink = ucast (st_nlink s), uid = ucast (st_uid s),
       gid = ucast (st_gid s), rdev = ucast (st_rdev s), st_bytes = STAT_GET_DOUBLE (st_size s),
       ino = STAT_GET_DOUBLE (st_ino s), atime = STAT_GET_DATE (st_atim s), mtime = STAT_GET_DATE (st_mtim s),
       ctime = STAT_GET_DATE (st_ctim s) \<rparr>"

text \<open>What \<open>File::stats\<close> hands on, in its two forms.\<close>

definition stats_reported :: "int \<Rightarrow> uv_stat \<Rightarrow> 'f file_object \<Rightarrow> ('f \<times> int \<times> Stats) outcome" where
  "stats_reported result s = on_fs_stats result (statsFromUV s) no_Stats"

definition stats_now :: "uv_stat \<Rightarrow> (fs_call \<Rightarrow> int) \<Rightarrow> 'f file_object \<Rightarrow> (int + Stats) \<times> 'f file_object" where
  "stats_now s = file_stats_now (statsFromUV s)"

section \<open>What is exact\<close>

lemma excess_small: "n < 2 ^ 53 \<Longrightarrow> excess_digits n = 0"
  by (simp add: excess_digits.simps)

lemma excess_bound: "n < 2 ^ (53 + excess_digits n)" "excess_digits n \<noteq> 0 \<Longrightarrow> 2 ^ (52 + excess_digits n) \<le> n"
proof -
  have "n < 2 ^ (53 + excess_digits n) \<and> (excess_digits n \<noteq> 0 \<longrightarrow> 2 ^ (52 + excess_digits n) \<le> n)"
  proof (induction n rule: excess_digits.induct)
    case (1 n)
    show ?case
    proof (cases "n < 2 ^ 53")
      case True
      then show ?thesis by (simp add: excess_small)
    next
      case False
      let ?k = "excess_digits (n div 2)"
      have e: "excess_digits n = Suc ?k" using False by (subst excess_digits.simps) simp
      have "n < 2 * 2 ^ (53 + ?k)" using "1.IH" [OF False] by linarith
      moreover have "2 ^ (53 + ?k) \<le> n"
      proof (cases "?k = 0")
        case True
        with False show ?thesis by simp
      next
        case k: False
        with "1.IH" [OF False] have "2 ^ (52 + ?k) \<le> n div 2" by blast
        then have "2 * 2 ^ (52 + ?k) \<le> n" by linarith
        then show ?thesis by (simp add: power_add)
      qed
      ultimately show ?thesis unfolding e by (simp add: power_add)
    qed
  qed
  then show "n < 2 ^ (53 + excess_digits n)" "excess_digits n \<noteq> 0 \<Longrightarrow> 2 ^ (52 + excess_digits n) \<le> n" by blast+
qed

lemma round53_exact: "n < 2 ^ 53 \<Longrightarrow> round53 n = n"
  by (simp add: round53_def excess_small)

lemma to_double_exact: "\<bar>x\<bar> < 2 ^ 53 \<Longrightarrow> to_double x = x"
  by (simp add: to_double_def round53_exact nat_less_iff)

text \<open>A value is off by no more than one part in \<open>2 ^ 53\<close>.\<close>

lemma round53_close: "\<bar>int (round53 n) - int n\<bar> * 2 ^ 53 \<le> int n"
proof (cases "n < 2 ^ 53")
  case True
  then show ?thesis by (simp add: round53_exact)
next
  case False
  define k where "k = excess_digits n"
  have k: "0 < k" using False by (simp add: k_def excess_digits.simps [of n])
  then obtain j where j: "k = Suc j" by (cases k) auto
  define q r where "q = n div 2 ^ k" and "r = n mod 2 ^ k"
  define t P where "t = q * 2 ^ k" and "P = (2::nat) ^ j"
  have P: "2 ^ k = 2 * P" by (simp add: P_def j)
  have n: "n = t + r" unfolding t_def q_def r_def by (rule div_mult_mod_eq [symmetric])
  have r: "r < 2 * P" unfolding r_def P [symmetric] by simp
  have rd: "round53 n = t + (if P < r \<or> r = P \<and> odd q then 2 * P else 0)"
    unfolding round53_def Let_def k_def [symmetric] q_def [symmetric] r_def [symmetric] t_def
    using k unfolding P by (cases "P < r"; cases "r = P"; cases "odd q") simp_all
  have "\<bar>int (round53 n) - int n\<bar> \<le> int P"
    using r unfolding n rd [unfolded n] by (auto split: if_splits)
  then have close: "\<bar>int (round53 n) - int n\<bar> \<le> 2 ^ j" by (simp add: P_def)
  have "2 ^ (52 + k) \<le> n" using excess_bound(2) [of n] k by (simp add: k_def)
  moreover have "(2::nat) ^ (52 + k) = 2 ^ j * 2 ^ 53" by (simp add: j power_add)
  ultimately have "2 ^ j * 2 ^ 53 \<le> n" by (simp only:)
  then have "int (2 ^ j * 2 ^ 53) \<le> int n" by (simp only: of_nat_le_iff)
  moreover have "\<bar>int (round53 n) - int n\<bar> * 2 ^ 53 \<le> 2 ^ j * 2 ^ 53"
    by (rule mult_right_mono [OF close]) simp
  ultimately show ?thesis by simp
qed

lemma to_double_close: "\<bar>to_double x - x\<bar> * 2 ^ 53 \<le> \<bar>x\<bar>"
proof (cases "x < 0")
  case True
  have e: "\<bar>- int m - x\<bar> = \<bar>int m - (- x)\<bar>" for m by linarith
  from round53_close [of "nat (- x)"] True show ?thesis by (simp add: to_double_def e)
next
  case False
  with round53_close [of "nat x"] show ?thesis by (simp add: to_double_def)
qed

text \<open>
  Sizes and node numbers below \<open>2 ^ 53\<close>, and times within nine million million seconds of
  1970, are reported exactly, the times in milliseconds; numbers that do not fit 32 bits lose
  their upper half.
\<close>

theorem statsFromUV_exact:
  assumes "uint (st_size s) < 2 ^ 53" "uint (st_ino s) < 2 ^ 53"
    "\<bar>sint (tv_sec (st_mtim s))\<bar> \<le> 9000000000000" "0 \<le> sint (tv_nsec (st_mtim s))" "sint (tv_nsec (st_mtim s)) < 1000000000"
  shows "st_bytes (statsFromUV s) = uint (st_size s) \<and> ino (statsFromUV s) = uint (st_ino s) \<and>
    mtime (statsFromUV s) = sint (tv_sec (st_mtim s)) * 1000 + sint (tv_nsec (st_mtim s)) div 1000000 \<and>
    uint (dev (statsFromUV s)) = uint (st_dev s) mod 2 ^ 32"
proof -
  let ?sec = "sint (tv_sec (st_mtim s))" and ?ns = "sint (tv_nsec (st_mtim s))"
  have ms: "sgn ?ns * (\<bar>?ns\<bar> div 1000000) = ?ns div 1000000" using assms(4) by (auto simp: sgn_if)
  have "?ns div 1000000 < 1000" "0 \<le> ?ns div 1000000" using assms(4,5) by auto
  with assms(3) have "\<bar>?sec\<bar> < 2 ^ 53" "\<bar>?sec * 1000\<bar> < 2 ^ 53" "\<bar>?ns div 1000000\<bar> < 2 ^ 53"
    "\<bar>?sec * 1000 + ?ns div 1000000\<bar> < 2 ^ 53" by simp_all
  note this [THEN to_double_exact]
  then have "mtime (statsFromUV s) = ?sec * 1000 + ?ns div 1000000"
    by (simp add: statsFromUV_def STAT_GET_DATE_def ms Let_def)
  moreover have "uint (dev (statsFromUV s)) = uint (st_dev s) mod 2 ^ 32"
    by (simp add: statsFromUV_def unsigned_ucast_eq take_bit_eq_mod)
  ultimately show ?thesis using assms(1,2) by (simp add: statsFromUV_def STAT_GET_DOUBLE_def to_double_exact)
qed

text \<open>Time stamps of the year 2023 and a size of five gigabytes.\<close>

theorem statsFromUV_exact_witness:
  "let s = \<lparr> st_dev = 0x100000803, st_mode = 0, st_nlink = 1, st_uid = 0, st_gid = 0, st_rdev = 0, st_ino = 12,
      st_size = 5000000000, st_atim = \<lparr> tv_sec = 0, tv_nsec = 0 \<rparr>,
      st_mtim = \<lparr> tv_sec = 1700000000, tv_nsec = 999999999 \<rparr>, st_ctim = \<lparr> tv_sec = 0, tv_nsec = 0 \<rparr> \<rparr>
   in st_bytes (statsFromUV s) = uint (st_size s) \<and> ino (statsFromUV s) = uint (st_ino s) \<and>
      mtime (statsFromUV s) = sint (tv_sec (st_mtim s)) * 1000 + sint (tv_nsec (st_mtim s)) div 1000000 \<and>
      uint (dev (statsFromUV s)) = uint (st_dev s) mod 2 ^ 32"
  unfolding Let_def by (rule statsFromUV_exact) simp_all

end
