(* ===== verification/Loops.thy ===== *)
theory Loops
  imports Callbacks "HOL-Library.Monad_Syntax"
begin

text \<open>
  The class \<^verbatim>\<open>loop\<close> of \<open>include/uvpp/loop.hpp\<close>: a pointer that owns the event loop, with a deleter that
  calls a member function of the object that was constructed, wherever the pointer has been moved
  since. Programs construct, move, assign, run and destroy such objects; a loop is freed exactly once in
  every program that keeps two rules: it does not destroy an object while another holds the loop it was
  constructed with, and it neither runs nor destroys an object of the default loop after another one
  has closed it. There is no way around them.
\<close>

section \<open>State\<close>

text \<open>
  Loops have addresses; the default loop is at 0, in static storage. An object says whether its loop is
  the default one (nothing when the member was not initialised), where its loop is, and which object
  the deleter calls.
\<close>

datatype loop_state = Raw | Open | Closed

record loop_object =
  default_loop :: "bool option"
  m_uv_loop :: "nat option"
  deleter :: "nat option"

record loop_world =
  uv_loops :: "nat \<rightharpoonup> loop_state"
  next_loop :: nat
  loop_objs :: "nat \<rightharpoonup> loop_object"

definition no_loops :: loop_world where
  "no_loops = \<lparr> uv_loops = [0 \<mapsto> Raw], next_loop = 1, loop_objs = Map.empty \<rparr>"

section \<open>Operations\<close>

text \<open>
  The deleter: \<open>destroy\<close> on the object that was captured, which must exist and whose flag must have been
  initialised. Calling an empty deleter ends the process.
\<close>

definition delete_loop :: "nat \<Rightarrow> loop_world \<Rightarrow> loop_world outcome" where
  "delete_loop a W =
     (if a = 0 then Crash Fault
      else and_then (deref (uv_loops W a)) (\<lambda>_. Ok (W\<lparr> uv_loops := (uv_loops W)(a := None) \<rparr>)))"

definition run_deleter :: "nat option \<Rightarrow> nat \<Rightarrow> loop_world \<Rightarrow> loop_world outcome" where
  "run_deleter d a W =
     (case d of
        None \<Rightarrow> Crash Abort
      | Some t \<Rightarrow>
          and_then (deref (loop_objs W t)) (\<lambda>ob.
          and_then (deref (default_loop ob)) (\<lambda>def.
            if \<not> def then delete_loop a W else Ok W)))"

text \<open>
  Construction. A failed initialisation throws, and the loop is freed with the member that holds it;
  the result says whether there is an object.
\<close>

definition loop_ctor :: "nat \<Rightarrow> bool \<Rightarrow> int \<Rightarrow> loop_world \<Rightarrow> (bool \<times> loop_world) outcome" where
  "loop_ctor this use_default rc W =
     (let a = (if use_default then 0 else next_loop W);
          W1 = (if use_default then W\<lparr> uv_loops := (uv_loops W)(0 \<mapsto> Open) \<rparr>
                else W\<lparr> uv_loops := (uv_loops W)(a \<mapsto> Raw), next_loop := Suc a \<rparr>);
          ob = \<lparr> default_loop = Some use_default, m_uv_loop = Some a, deleter = Some this \<rparr>;
          W2 = W1\<lparr> loop_objs := (loop_objs W1)(this \<mapsto> ob) \<rparr>
      in if \<not> use_default \<and> rc \<noteq> 0 then
           and_then (run_deleter (Some this) a W2) (\<lambda>W3.
             Ok (False, W3\<lparr> loop_objs := (loop_objs W3)(this := None) \<rparr>))
         else Ok (True, W2\<lparr> uv_loops := (uv_loops W2)(a \<mapsto> Open) \<rparr>))"

text \<open>
  libuv works on a loop that is open: to run or to close one that has been closed, or never
  initialised, is undefined.
\<close>

definition use_loop :: "nat \<Rightarrow> loop_world \<Rightarrow> unit outcome" where
  "use_loop a W = and_then (deref (uv_loops W a)) (\<lambda>s. if s = Open then Ok () else Crash Fault)"

text \<open>
  Destruction: libuv closes the loop, or says that it is busy, which is not looked at; then the pointer
  frees it, unless it is the default loop, which stays closed until \<open>uv_default_loop\<close> is called again.
\<close>

definition loop_dtor :: "int \<Rightarrow> nat \<Rightarrow> loop_world \<Rightarrow> loop_world outcome" where
  "loop_dtor rc this W =
     and_then (deref (loop_objs W this)) (\<lambda>ob.
     and_then
       (case m_uv_loop ob of
          None \<Rightarrow> Ok W
        | Some a \<Rightarrow>
            and_then (use_loop a W) (\<lambda>_.
              run_deleter (deleter ob) a
                (if rc = 0 then W\<lparr> uv_loops := (uv_loops W)(a \<mapsto> Closed) \<rparr> else W)))
       (\<lambda>W1. Ok (W1\<lparr> loop_objs := (loop_objs W1)(this := None) \<rparr>)))"

text \<open>Moving takes the pointer with its deleter; the flag of the new object is not initialised.\<close>

definition loop_move_ctor :: "nat \<Rightarrow> nat \<Rightarrow> loop_world \<Rightarrow> loop_world outcome" where
  "loop_move_ctor this other W =
     and_then (deref (loop_objs W other)) (\<lambda>ob.
       Ok (W\<lparr> loop_objs := (loop_objs W)
         (other \<mapsto> ob\<lparr> m_uv_loop := None, deleter := None \<rparr>,
          this \<mapsto> \<lparr> default_loop = None, m_uv_loop = m_uv_loop ob, deleter = deleter ob \<rparr>) \<rparr>))"

text \<open>Assignment frees the loop held before, without closing it, and leaves the flag.\<close>

definition loop_move_assign :: "nat \<Rightarrow> nat \<Rightarrow> loop_world \<Rightarrow> loop_world outcome" where
  "loop_move_assign this other W =
     (if this = other then Ok W
      else
        and_then (deref (loop_objs W this)) (\<lambda>o1.
        and_then (deref (loop_objs W other)) (\<lambda>o2.
        and_then (case m_uv_loop o1 of None \<Rightarrow> Ok W | Some a \<Rightarrow> run_deleter (deleter o1) a W) (\<lambda>W1.
          Ok (W1\<lparr> loop_objs := (loop_objs W1)
            (other \<mapsto> o2\<lparr> m_uv_loop := None, deleter := None \<rparr>,
             this \<mapsto> o1\<lparr> m_uv_loop := m_uv_loop o2, deleter := deleter o2 \<rparr>) \<rparr>)))))"

text \<open>
  \<open>run\<close>, \<open>run_once\<close>, \<open>run_nowait\<close>, \<open>update_time\<close>, \<open>now\<close> and \<open>stop\<close> hand the pointer to libuv; the first
  three say whether the answer was zero.
\<close>

definition loop_get :: "nat \<Rightarrow> loop_world \<Rightarrow> nat option outcome" where
  "loop_get this W = and_then (deref (loop_objs W this)) (\<lambda>ob. Ok (m_uv_loop ob))"

definition loop_pass :: "nat \<Rightarrow> loop_world \<Rightarrow> unit outcome" where
  "loop_pass this W =
     and_then (loop_get this W) (\<lambda>p. and_then (deref p) (\<lambda>a. use_loop a W))"

definition loop_run :: "int \<Rightarrow> nat \<Rightarrow> loop_world \<Rightarrow> bool outcome" where
  "loop_run rc this W = and_then (loop_pass this W) (\<lambda>_. Ok (rc = 0))"

section \<open>Programs\<close>

datatype loop_op =
    New nat bool int
  | Move nat nat
  | Assign nat nat
  | Destroy nat int
  | Run nat int

fun loop_perform :: "loop_op \<Rightarrow> loop_world \<Rightarrow> loop_world outcome" where
  "loop_perform (New x use_default rc) W = and_then (loop_ctor x use_default rc W) (\<lambda>r. Ok (snd r))"
| "loop_perform (Move x y) W = loop_move_ctor x y W"
| "loop_perform (Assign x y) W = loop_move_assign x y W"
| "loop_perform (Destroy x rc) W = loop_dtor rc x W"
| "loop_perform (Run x rc) W = and_then (loop_run rc x W) (\<lambda>_. Ok W)"

text \<open>
  What is asked of a program: new objects in fresh storage, objects used while they exist, no object
  destroyed while another holds a loop that was constructed with it, and no object of the default loop
  destroyed or run while that loop is closed.
\<close>

definition holds :: "loop_world \<Rightarrow> nat \<Rightarrow> nat \<Rightarrow> bool" where
  "holds W x a \<longleftrightarrow> (\<exists>ob. loop_objs W x = Some ob \<and> m_uv_loop ob = Some a)"

definition deleted_by :: "loop_world \<Rightarrow> nat \<Rightarrow> nat \<Rightarrow> bool" where
  "deleted_by W x d \<longleftrightarrow> (\<exists>ob. loop_objs W x = Some ob \<and> m_uv_loop ob \<noteq> None \<and> deleter ob = Some d)"

fun loop_legal :: "loop_op \<Rightarrow> loop_world \<Rightarrow> bool" where
  "loop_legal (New x use_default rc) W \<longleftrightarrow> loop_objs W x = None"
| "loop_legal (Move x y) W \<longleftrightarrow> loop_objs W x = None \<and> loop_objs W y \<noteq> None"
| "loop_legal (Assign x y) W \<longleftrightarrow> loop_objs W x \<noteq> None \<and> loop_objs W y \<noteq> None"
| "loop_legal (Destroy x rc) W \<longleftrightarrow> loop_objs W x \<noteq> None \<and> (\<forall>y. y \<noteq> x \<longrightarrow> \<not> deleted_by W y x) \<and>
     (holds W x 0 \<longrightarrow> uv_loops W 0 = Some Open)"
| "loop_legal (Run x rc) W \<longleftrightarrow> (\<exists>a. holds W x a \<and> (a = 0 \<longrightarrow> uv_loops W 0 = Some Open))"

inductive loops_reached :: "loop_world \<Rightarrow> bool" where
  none: "loops_reached no_loops"
| step: "loops_reached W \<Longrightarrow> loop_legal op W \<Longrightarrow> loop_perform op W = Ok W' \<Longrightarrow> loops_reached W'"

section \<open>The invariant\<close>

definition flag :: "loop_world \<Rightarrow> nat \<Rightarrow> bool option" where
  "flag W d = Option.bind (loop_objs W d) default_loop"

text \<open>
  The loop an object holds exists, and its deleter calls an object that knows whether the loop is the
  default one. Every other loop is open and held by exactly one object.
\<close>

definition object_ok :: "loop_world \<Rightarrow> loop_object \<Rightarrow> bool" where
  "object_ok W ob \<longleftrightarrow>
     (\<forall>a. m_uv_loop ob = Some a \<longrightarrow> uv_loops W a \<noteq> None \<and>
       (\<exists>d. deleter ob = Some d \<and> flag W d = Some (a = 0)))"

definition loops_ok :: "loop_world \<Rightarrow> bool" where
  "loops_ok W \<longleftrightarrow> uv_loops W 0 \<noteq> None \<and> 0 < next_loop W \<and> (\<forall>a \<ge> next_loop W. uv_loops W a = None) \<and>
     (\<forall>x ob. loop_objs W x = Some ob \<longrightarrow> object_ok W ob) \<and>
     (\<forall>a. a \<noteq> 0 \<longrightarrow> uv_loops W a \<noteq> None \<longrightarrow> uv_loops W a = Some Open) \<and>
     (\<forall>a. a \<noteq> 0 \<longrightarrow> uv_loops W a \<noteq> None \<longrightarrow> (\<exists>x. holds W x a)) \<and>
     (\<forall>x y a. a \<noteq> 0 \<longrightarrow> holds W x a \<longrightarrow> holds W y a \<longrightarrow> x = y)"

lemma loops_okD:
  assumes "loops_ok W"
  shows "uv_loops W 0 \<noteq> None" "0 < next_loop W" "next_loop W \<le> a \<Longrightarrow> uv_loops W a = None"
    "loop_objs W x = Some ob \<Longrightarrow> object_ok W ob"
    "a \<noteq> 0 \<Longrightarrow> uv_loops W a \<noteq> None \<Longrightarrow> \<exists>x. holds W x a"
    "a \<noteq> 0 \<Longrightarrow> holds W x a \<Longrightarrow> holds W y a \<Longrightarrow> x = y"
    "a \<noteq> 0 \<Longrightarrow> uv_loops W a \<noteq> None \<Longrightarrow> uv_loops W a = Some Open"
  using assms unfolding loops_ok_def by blast+

lemma loops_okI:
  assumes "uv_loops W 0 \<noteq> None" "0 < next_loop W" "\<And>a. next_loop W \<le> a \<Longrightarrow> uv_loops W a = None"
    "\<And>x ob. loop_objs W x = Some ob \<Longrightarrow> object_ok W ob"
    "\<And>a. a \<noteq> 0 \<Longrightarrow> uv_loops W a \<noteq> None \<Longrightarrow> \<exists>x. holds W x a"
    "\<And>x y a. a \<noteq> 0 \<Longrightarrow> holds W x a \<Longrightarrow> holds W y a \<Longrightarrow> x = y"
    "\<And>a. a \<noteq> 0 \<Longrightarrow> uv_loops W a \<noteq> None \<Longrightarrow> uv_loops W a = Some Open"
  shows "loops_ok W"
  using assms unfolding loops_ok_def by blast

lemma run_deleter_frees:
  assumes "loops_ok W" "loop_objs W x = Some ob" "m_uv_loop ob = Some a" "uv_loops W' a \<noteq> None"
    "loop_objs W' = loop_objs W"
  shows "run_deleter (deleter ob) a W' =
    Ok (if a = 0 then W' else W'\<lparr> uv_loops := (uv_loops W')(a := None) \<rparr>)"
proof -
  from loops_okD(4) [OF assms(1,2)] assms(3) obtain d where "deleter ob = Some d" "flag W d = Some (a = 0)"
    by (auto simp: object_ok_def)
  with assms(4,5) show ?thesis
    by (auto simp: run_deleter_def flag_def delete_loop_def bind_eq_Some_conv)
qed

lemma New_ok:
  assumes W: "loops_ok W" and x: "loop_objs W x = None"
  shows "\<exists>b W'. loop_ctor x def rc W = Ok (b, W') \<and> loops_ok W' \<and> (b \<longleftrightarrow> def \<or> rc = 0)"
proof -
  let ?a = "if def then 0 else next_loop W"
  let ?ob = "\<lparr> default_loop = Some def, m_uv_loop = Some ?a, deleter = Some x \<rparr>"
  let ?W = "W\<lparr> uv_loops := (uv_loops W)(?a \<mapsto> Open), next_loop := (if def then next_loop W else Suc ?a),
    loop_objs := (loop_objs W)(x \<mapsto> ?ob) \<rparr>"
  have nx: "flag W d = Some b \<Longrightarrow> d \<noteq> x" for d b using x by (auto simp: flag_def)
  show ?thesis
  proof (cases "def \<or> rc = 0")
    case True
    then have "loop_ctor x def rc W = Ok (True, ?W)" by (auto simp: loop_ctor_def Let_def)
    moreover have "loops_ok ?W"
    proof (rule loops_okI)
      have h: "holds ?W y a \<longleftrightarrow> (if y = x then a = ?a else holds W y a)" for y a
        by (auto simp: holds_def)
      have fresh: "\<not> holds W y (next_loop W)" for y
        using loops_okD(3,4) [OF W] by (fastforce simp: holds_def object_ok_def)
      show "uv_loops ?W 0 \<noteq> None" "0 < next_loop ?W" using loops_okD(1,2) [OF W] by auto
      show "uv_loops ?W a = None" if "next_loop ?W \<le> a" for a
        using loops_okD(2,3) [OF W] that by (auto split: if_splits)
      show "object_ok ?W ob" if "loop_objs ?W y = Some ob" for y ob
      proof (cases "y = x")
        case True
        with that loops_okD(2) [OF W] show ?thesis by (auto simp: object_ok_def flag_def)
      next
        case False
        with that loops_okD(4) [OF W, of y ob] nx show ?thesis
          by (fastforce simp: object_ok_def flag_def)
      qed
      show "\<exists>y. holds ?W y a" if "a \<noteq> 0" "uv_loops ?W a \<noteq> None" for a
      proof (cases "a = ?a")
        case True
        then show ?thesis unfolding h by (intro exI [of _ x]) simp
      next
        case False
        with that loops_okD(5) [OF W, of a] obtain y where "holds W y a" by (auto split: if_splits)
        moreover from this x have "y \<noteq> x" by (auto simp: holds_def)
        ultimately show ?thesis unfolding h by (intro exI [of _ y]) simp
      qed
      show "y = z" if "a \<noteq> 0" "holds ?W y a" "holds ?W z a" for y z a
        using that loops_okD(6) [OF W, of a y z] fresh unfolding h by (auto split: if_splits)
      show "uv_loops ?W a = Some Open" if "a \<noteq> 0" "uv_loops ?W a \<noteq> None" for a
        using that loops_okD(7) [OF W, of a] by (auto split: if_splits)
    qed
    ultimately show ?thesis using True by auto
  next
    case False
    let ?V = "W\<lparr> next_loop := Suc (next_loop W) \<rparr>"
    have "(uv_loops W)(next_loop W := None) = uv_loops W" using loops_okD(3) [OF W] by (auto simp: fun_eq_iff)
    moreover have "(loop_objs W)(x := None) = loop_objs W" using x by (auto simp: fun_eq_iff)
    ultimately have "loop_ctor x def rc W = Ok (False, ?V)"
      using False loops_okD(2) [OF W] by (simp add: loop_ctor_def Let_def run_deleter_def delete_loop_def)
    moreover have "loops_ok ?V"
      using W by (auto simp: loops_ok_def object_ok_def holds_def flag_def)
    ultimately show ?thesis using False by auto
  qed
qed

lemma Move_ok:
  assumes W: "loops_ok W" and x: "loop_objs W x = None" and y: "loop_objs W y = Some ob"
  shows "\<exists>W'. loop_move_ctor x y W = Ok W' \<and> loops_ok W'"
proof -
  let ?o = "ob\<lparr> m_uv_loop := None, deleter := None \<rparr>"
  let ?n = "\<lparr> default_loop = None, m_uv_loop = m_uv_loop ob, deleter = deleter ob \<rparr>"
  let ?W = "W\<lparr> loop_objs := (loop_objs W)(y \<mapsto> ?o, x \<mapsto> ?n) \<rparr>"
  have xy: "x \<noteq> y" using x y by auto
  have h: "holds ?W z a \<longleftrightarrow> (if z = x then holds W y a else z \<noteq> y \<and> holds W z a)" for z a
    using xy y by (auto simp: holds_def)
  have f: "flag ?W d = Some b" if "flag W d = Some b" for d b using that x y by (auto simp: flag_def)
  have "loops_ok ?W"
  proof (rule loops_okI)
    show "object_ok ?W o1" if "loop_objs ?W z = Some o1" for z o1
      using that loops_okD(4) [OF W, of z o1] loops_okD(4) [OF W y] f xy
      by (fastforce simp: object_ok_def split: if_splits)
    show "\<exists>z. holds ?W z a" if "a \<noteq> 0" "uv_loops ?W a \<noteq> None" for a
    proof -
      from that loops_okD(5) [OF W, of a] obtain z where z: "holds W z a" by auto
      show ?thesis
      proof (cases "z = y")
        case True
        with z show ?thesis unfolding h by (intro exI [of _ x]) simp
      next
        case False
        moreover have "z \<noteq> x" using z x by (auto simp: holds_def)
        ultimately show ?thesis using z unfolding h by (intro exI [of _ z]) simp
      qed
    qed
    show "z = v" if "a \<noteq> 0" "holds ?W z a" "holds ?W v a" for z v a
      using that loops_okD(6) [OF W that(1)] unfolding h by (auto split: if_splits)
    show "uv_loops ?W a = Some Open" if "a \<noteq> 0" "uv_loops ?W a \<noteq> None" for a
      using that loops_okD(7) [OF W, of a] by simp
  qed (use loops_okD(1-3) [OF W] in auto)
  then show ?thesis using x y xy by (simp add: loop_move_ctor_def)
qed

lemma Assign_ok:
  assumes W: "loops_ok W" and x: "loop_objs W x = Some o1" and y: "loop_objs W y = Some o2"
  shows "\<exists>W'. loop_move_assign x y W = Ok W' \<and> loops_ok W'"
proof (cases "x = y")
  case True
  with W show ?thesis by (simp add: loop_move_assign_def)
next
  case xy: False
  let ?y = "o2\<lparr> m_uv_loop := None, deleter := None \<rparr>" and ?x = "o1\<lparr> m_uv_loop := m_uv_loop o2, deleter := deleter o2 \<rparr>"
  define L where "L = (case m_uv_loop o1 of None \<Rightarrow> uv_loops W
    | Some a \<Rightarrow> if a = 0 then uv_loops W else (uv_loops W)(a := None))"
  let ?W = "W\<lparr> uv_loops := L, loop_objs := (loop_objs W)(y \<mapsto> ?y, x \<mapsto> ?x) \<rparr>"
  have h: "holds ?W z a \<longleftrightarrow> (if z = x then holds W y a else z \<noteq> y \<and> holds W z a)" for z a
    using xy x y by (auto simp: holds_def)
  have f: "flag ?W d = flag W d" for d using x y by (auto simp: flag_def)
  have L: "L a \<noteq> None \<longleftrightarrow> uv_loops W a \<noteq> None \<and> (a = 0 \<or> \<not> holds W x a)" for a
    using x loops_okD(1) [OF W] by (auto simp: L_def holds_def split: option.splits)
  have "(case m_uv_loop o1 of None \<Rightarrow> Ok W | Some a \<Rightarrow> run_deleter (deleter o1) a W) = Ok (W\<lparr> uv_loops := L \<rparr>)"
  proof (cases "m_uv_loop o1")
    case (Some a)
    with loops_okD(4) [OF W x] have "uv_loops W a \<noteq> None" by (auto simp: object_ok_def)
    from run_deleter_frees [OF W x Some this refl] Some show ?thesis by (auto simp: L_def)
  qed (simp add: L_def)
  then have "loop_move_assign x y W = Ok ?W" using xy x y by (simp add: loop_move_assign_def)
  moreover have "loops_ok ?W"
  proof (rule loops_okI)
    show "uv_loops ?W 0 \<noteq> None" using L [of 0] loops_okD(1) [OF W] by simp
    show "uv_loops ?W a = None" if "next_loop ?W \<le> a" for a
      using L [of a] loops_okD(3) [OF W, of a] that by auto
    show "object_ok ?W ob" if z: "loop_objs ?W z = Some ob" for z ob
    proof -
      define v where "v = (if z = x then y else z)"
      have ok: "object_ok W ob'" if "loop_objs W v = Some ob'" for ob' using loops_okD(4) [OF W that] .
      have live: "L a \<noteq> None" if "m_uv_loop ob = Some a" for a
      proof -
        have a: "holds W v a" "v \<noteq> x" using that z xy y by (auto simp: holds_def v_def split: if_splits)
        then have "uv_loops W a \<noteq> None" using loops_okD(4) [OF W] by (fastforce simp: holds_def object_ok_def)
        with a loops_okD(6) [OF W, of a x v] L show ?thesis by auto
      qed
      show ?thesis using z ok y live f xy
        by (auto simp: object_ok_def v_def split: if_splits)
    qed
    show "\<exists>z. holds ?W z a" if "a \<noteq> 0" "uv_loops ?W a \<noteq> None" for a
    proof -
      from that L have "uv_loops W a \<noteq> None" "\<not> holds W x a" by auto
      with that(1) loops_okD(5) [OF W] obtain z where z: "holds W z a" by auto
      with \<open>\<not> holds W x a\<close> have "z \<noteq> x" by auto
      with z show ?thesis unfolding h by (cases "z = y") auto
    qed
    show "z = v" if "a \<noteq> 0" "holds ?W z a" "holds ?W v a" for z v a
      using that loops_okD(6) [OF W that(1)] unfolding h by (auto split: if_splits)
    show "uv_loops ?W a = Some Open" if "a \<noteq> 0" "uv_loops ?W a \<noteq> None" for a
      using that loops_okD(7) [OF W, of a] by (auto simp: L_def split: option.splits if_splits)
  qed (use loops_okD(2) [OF W] in auto)
  ultimately show ?thesis by blast
qed

text \<open>The loop an object holds is one libuv can work on, unless it is the closed default loop.\<close>

lemma use_loop_ok:
  assumes "loops_ok W" "loop_objs W x = Some ob" "m_uv_loop ob = Some a" "a = 0 \<Longrightarrow> uv_loops W 0 = Some Open"
  shows "use_loop a W = Ok ()"
proof -
  have "uv_loops W a \<noteq> None" using loops_okD(4) [OF assms(1,2)] assms(3) by (auto simp: object_ok_def)
  then show ?thesis using loops_okD(7) [OF assms(1), of a] assms(4) by (cases "a = 0") (simp_all add: use_loop_def)
qed

lemma Destroy_ok:
  assumes W: "loops_ok W" and x: "loop_objs W x = Some ob" and leg: "\<And>y. y \<noteq> x \<Longrightarrow> \<not> deleted_by W y x"
    and open0: "holds W x 0 \<Longrightarrow> uv_loops W 0 = Some Open"
  shows "\<exists>W'. loop_dtor rc x W = Ok W' \<and> loops_ok W'"
proof -
  define V where "V = (case m_uv_loop ob of None \<Rightarrow> W
    | Some a \<Rightarrow> if rc = 0 then W\<lparr> uv_loops := (uv_loops W)(a \<mapsto> Closed) \<rparr> else W)"
  define L where "L = (case m_uv_loop ob of None \<Rightarrow> uv_loops W
    | Some a \<Rightarrow> if a = 0 then uv_loops V else (uv_loops W)(a := None))"
  let ?W = "W\<lparr> uv_loops := L, loop_objs := (loop_objs W)(x := None) \<rparr>"
  have h: "holds ?W z a \<longleftrightarrow> z \<noteq> x \<and> holds W z a" for z a by (auto simp: holds_def)
  have L: "L a \<noteq> None \<longleftrightarrow> uv_loops W a \<noteq> None \<and> (a = 0 \<or> \<not> holds W x a)" for a
    using x loops_okD(1) [OF W] by (auto simp: L_def V_def holds_def split: option.splits)
  have "loop_dtor rc x W = Ok ?W"
  proof (cases "m_uv_loop ob")
    case None
    with x show ?thesis by (simp add: loop_dtor_def L_def)
  next
    case (Some a)
    with loops_okD(4) [OF W x] have a: "uv_loops W a \<noteq> None" by (auto simp: object_ok_def)
    have "uv_loops V a \<noteq> None" "loop_objs V = loop_objs W" using a Some by (simp_all add: V_def)
    moreover have "use_loop a W = Ok ()"
      using x Some open0 by (intro use_loop_ok [OF W x Some]) (simp add: holds_def)
    ultimately show ?thesis using run_deleter_frees [OF W x Some, of V] a x Some
      by (auto simp: loop_dtor_def V_def L_def)
  qed
  moreover have "loops_ok ?W"
  proof (rule loops_okI)
    show "uv_loops ?W 0 \<noteq> None" using L [of 0] loops_okD(1) [OF W] by simp
    show "uv_loops ?W a = None" if "next_loop ?W \<le> a" for a
      using L [of a] loops_okD(3) [OF W, of a] that by auto
    show "object_ok ?W o1" if z: "loop_objs ?W z = Some o1" for z o1
    proof -
      have zx: "z \<noteq> x" "loop_objs W z = Some o1" using z by (auto split: if_splits)
      note ok = loops_okD(4) [OF W zx(2)]
      have live: "L a \<noteq> None" if "m_uv_loop o1 = Some a" for a
      proof -
        have "holds W z a" using that zx by (auto simp: holds_def)
        with that zx(1) ok loops_okD(6) [OF W, of a x z] L show ?thesis by (auto simp: object_ok_def)
      qed
      have "deleter o1 \<noteq> Some x" if "m_uv_loop o1 \<noteq> None"
        using leg [OF zx(1)] zx(2) that by (auto simp: deleted_by_def)
      with ok live show ?thesis by (auto simp: object_ok_def flag_def)
    qed
    show "\<exists>z. holds ?W z a" if "a \<noteq> 0" "uv_loops ?W a \<noteq> None" for a
      using that L loops_okD(5) [OF W, of a] unfolding h by simp metis
    show "z = v" if "a \<noteq> 0" "holds ?W z a" "holds ?W v a" for z v a
      using that loops_okD(6) [OF W that(1)] unfolding h by auto
    show "uv_loops ?W a = Some Open" if "a \<noteq> 0" "uv_loops ?W a \<noteq> None" for a
      using that loops_okD(7) [OF W, of a] by (auto simp: L_def V_def split: option.splits if_splits)
  qed (use loops_okD(2) [OF W] in auto)
  ultimately show ?thesis by blast
qed





lemma perform_ok:
  assumes "loops_ok W" "loop_legal op W"
  shows "\<exists>W'. loop_perform op W = Ok W' \<and> loops_ok W'"
proof (cases op)
  case (New x def rc)
  with assms(2) have "loop_objs W x = None" by simp
  from New_ok [OF assms(1) this, of def rc] New show ?thesis by auto
next
  case (Destroy x rc)
  with Destroy_ok [OF assms(1)] assms(2) show ?thesis by fastforce
next
  case (Run x rc)
  with assms obtain ob a where o: "loop_objs W x = Some ob" "m_uv_loop ob = Some a" "a = 0 \<Longrightarrow> uv_loops W 0 = Some Open"
    by (auto simp: holds_def)
  from use_loop_ok [OF assms(1) this] o Run assms(1) show ?thesis
    by (simp add: loop_run_def loop_pass_def loop_get_def)
qed (use assms Move_ok Assign_ok in fastforce)+

lemma loops_reached_ok: "loops_reached W \<Longrightarrow> loops_ok W"
proof (induction rule: loops_reached.induct)
  case none
  show ?case by (auto simp: loops_ok_def no_loops_def holds_def)
next
  case (step W op W')
  with perform_ok [of W op] show ?case by auto
qed

section \<open>Properties\<close>


text \<open>A loop is constructed with the object 5 and moved to the object 6.\<close>

definition moved_loop :: loop_world where
  "moved_loop = \<lparr> uv_loops = [0 \<mapsto> Raw, 1 \<mapsto> Open], next_loop = 2, loop_objs =
     [5 \<mapsto> \<lparr> default_loop = Some False, m_uv_loop = None, deleter = None \<rparr>,
      6 \<mapsto> \<lparr> default_loop = None, m_uv_loop = Some 1, deleter = Some 5 \<rparr>] \<rparr>"





text \<open>There the rule can be broken: the object 5 may be destroyed first.\<close>

lemma moved_loop_dangles:
  "deleted_by moved_loop 6 5 \<and>
     (\<exists>W1. loop_dtor 0 5 moved_loop = Ok W1 \<and> loop_dtor 0 6 W1 = Crash Fault)"
  by (simp add: deleted_by_def moved_loop_def loop_dtor_def run_deleter_def use_loop_def)

text \<open>Assignment frees a loop that is still open, with the handles that run on it.\<close>

lemma assign_frees_open:
  assumes "loops_reached W" "x \<noteq> y" "holds W x a" "a \<noteq> 0" "loop_objs W y \<noteq> None" "uv_loops W a = Some Open"
  shows "\<exists>W'. loop_move_assign x y W = Ok W' \<and> uv_loops W' a = None"
proof -
  have W: "loops_ok W" using assms(1) by (rule loops_reached_ok)
  from assms(3,5) obtain o1 o2 where o: "loop_objs W x = Some o1" "m_uv_loop o1 = Some a" "loop_objs W y = Some o2"
    by (auto simp: holds_def)
  have "uv_loops W a \<noteq> None" using assms(6) by simp
  from run_deleter_frees [OF W o(1,2) this refl] assms(2,4) o show ?thesis
    by (simp add: loop_move_assign_def)
qed

end
