(* ===== verification/Utf8.thy ===== *)
theory Utf8
  imports Prelude
begin

text \<open>
  The check of text for UTF-8 of the vendored protocol buffers, \<^verbatim>\<open>stubs/structurally_valid.cc\<close>: the
  state table as the source has it, the scanner that runs it with its fast paths and its back-up
  over partial characters, and the three functions built on it.

  Positions are offsets from the start of the text, which an \<open>int\<close> holds. Because the fast paths
  depend on the alignment of the text, the address of its first byte is an argument.
  \<open>UTF8GenericScan\<close> may go round for ever on a table with the exit code \<open>kExitDoAgain\<close>, so it is a
  partial function; on the table of the source it always returns. A read behind the start of the
  text, which the do loop of the back-up could do on other tables, has no value either.

  What the scanner must compute is stated with an encoder of the Unicode scalar values: text is
  accepted exactly if it is the encoding of a sequence of scalar values.
\<close>

section \<open>The state table\<close>

definition kExitDstSpaceFull :: byte where "kExitDstSpaceFull = 239"
definition kExitIllegalStructure :: byte where "kExitIllegalStructure = 240"
definition kExitOK :: byte where "kExitOK = 241"
definition kExitReject :: byte where "kExitReject = 242"
definition kExitDoAgain :: byte where "kExitDoAgain = 253"

abbreviation XX :: byte where "XX \<equiv> kExitIllegalStructure"
abbreviation RJ :: byte where "RJ \<equiv> kExitReject"

record UTF8ScanObj =
  state0 :: nat
  state0_size :: nat
  total_size :: nat
  max_expand :: int
  entry_shift :: nat
  bytes_per_entry :: int
  losub :: u32
  hiadd :: u32
  state_table :: bytes
  fast_state :: bytes

definition utf8_state0 :: bytes where
  "utf8_state0 = [
   0, 0, 0, 0, 0, 0, 0, 0, 0, 0, 0, 0, 0, 0, 0, 0,
   0, 0, 0, 0, 0, 0, 0, 0, 0, 0, 0, 0, 0, 0, 0, 0,
   0, 0, 0, 0, 0, 0, 0, 0, 0, 0, 0, 0, 0, 0, 0, 0,
   0, 0, 0, 0, 0, 0, 0, 0, 0, 0, 0, 0, 0, 0, 0, 0,
   0, 0, 0, 0, 0, 0, 0, 0, 0, 0, 0, 0, 0, 0, 0, 0,
   0, 0, 0, 0, 0, 0, 0, 0, 0, 0, 0, 0, 0, 0, 0, 0,
   0, 0, 0, 0, 0, 0, 0, 0, 0, 0, 0, 0, 0, 0, 0, 0,
   0, 0, 0, 0, 0, 0, 0, 0, 0, 0, 0, 0, 0, 0, 0, 0,
   XX, XX, XX, XX, XX, XX, XX, XX, XX, XX, XX, XX, XX, XX, XX, XX,
   XX, XX, XX, XX, XX, XX, XX, XX, XX, XX, XX, XX, XX, XX, XX, XX,
   XX, XX, XX, XX, XX, XX, XX, XX, XX, XX, XX, XX, XX, XX, XX, XX,
   XX, XX, XX, XX, XX, XX, XX, XX, XX, XX, XX, XX, XX, XX, XX, XX,
   XX, XX, 1, 1, 1, 1, 1, 1, 1, 1, 1, 1, 1, 1, 1, 1,
   1, 1, 1, 1, 1, 1, 1, 1, 1, 1, 1, 1, 1, 1, 1, 1,
   2, 3, 3, 3, 3, 3, 3, 3, 3, 3, 3, 3, 3, 7, 3, 3,
   4, 5, 5, 5, 6, XX, XX, XX, XX, XX, XX, XX, XX, XX, XX, XX]"

definition utf8_state1 :: bytes where
  "utf8_state1 = [
   XX, XX, XX, XX, XX, XX, XX, XX, XX, XX, XX, XX, XX, XX, XX, XX,
   XX, XX, XX, XX, XX, XX, XX, XX, XX, XX, XX, XX, XX, XX, XX, XX,
   XX, XX, XX, XX, XX, XX, XX, XX, XX, XX, XX, XX, XX, XX, XX, XX,
   XX, XX, XX, XX, XX, XX, XX, XX, XX, XX, XX, XX, XX, XX, XX, XX,
   XX, XX, XX, XX, XX, XX, XX, XX, XX, XX, XX, XX, XX, XX, XX, XX,
   XX, XX, XX, XX, XX, XX, XX, XX, XX, XX, XX, XX, XX, XX, XX, XX,
   XX, XX, XX, XX, XX, XX, XX, XX, XX, XX, XX, XX, XX, XX, XX, XX,
   XX, XX, XX, XX, XX, XX, XX, XX, XX, XX, XX, XX, XX, XX, XX, XX,
   0, 0, 0, 0, 0, 0, 0, 0, 0, 0, 0, 0, 0, 0, 0, 0,
   0, 0, 0, 0, 0, 0, 0, 0, 0, 0, 0, 0, 0, 0, 0, 0,
   0, 0, 0, 0, 0, 0, 0, 0, 0, 0, 0, 0, 0, 0, 0, 0,
   0, 0, 0, 0, 0, 0, 0, 0, 0, 0, 0, 0, 0, 0, 0, 0,
   XX, XX, XX, XX, XX, XX, XX, XX, XX, XX, XX, XX, XX, XX, XX, XX,
   XX, XX, XX, XX, XX, XX, XX, XX, XX, XX, XX, XX, XX, XX, XX, XX,
   XX, XX, XX, XX, XX, XX, XX, XX, XX, XX, XX, XX, XX, XX, XX, XX,
   XX, XX, XX, XX, XX, XX, XX, XX, XX, XX, XX, XX, XX, XX, XX, XX]"

definition utf8_state2 :: bytes where
  "utf8_state2 = [
   XX, XX, XX, XX, XX, XX, XX, XX, XX, XX, XX, XX, XX, XX, XX, XX,
   XX, XX, XX, XX, XX, XX, XX, XX, XX, XX, XX, XX, XX, XX, XX, XX,
   XX, XX, XX, XX, XX, XX, XX, XX, XX, XX, XX, XX, XX, XX, XX, XX,
   XX, XX, XX, XX, XX, XX, XX, XX, XX, XX, XX, XX, XX, XX, XX, XX,
   XX, XX, XX, XX, XX, XX, XX, XX, XX, XX, XX, XX, XX, XX, XX, XX,
   XX, XX, XX, XX, XX, XX, XX, XX, XX, XX, XX, XX, XX, XX, XX, XX,
   XX, XX, XX, XX, XX, XX, XX, XX, XX, XX, XX, XX, XX, XX, XX, XX,
   XX, XX, XX, XX, XX, XX, XX, XX, XX, XX, XX, XX, XX, XX, XX, XX,
   XX, XX, XX, XX, XX, XX, XX, XX, XX, XX, XX, XX, XX, XX, XX, XX,
   XX, XX, XX, XX, XX, XX, XX, XX, XX, XX, XX, XX, XX, XX, XX, XX,
   1, 1, 1, 1, 1, 1, 1, 1, 1, 1, 1, 1, 1, 1, 1, 1,
   1, 1, 1, 1, 1, 1, 1, 1, 1, 1, 1, 1, 1, 1, 1, 1,
   XX, XX, XX, XX, XX, XX, XX, XX, XX, XX, XX, XX, XX, XX, XX, XX,
   XX, XX, XX, XX, XX, XX, XX, XX, XX, XX, XX, XX, XX, XX, XX, XX,
   XX, XX, XX, XX, XX, XX, XX, XX, XX, XX, XX, XX, XX, XX, XX, XX,
   XX, XX, XX, XX, XX, XX, XX, XX, XX, XX, XX, XX, XX, XX, XX, XX]"

definition utf8_state3 :: bytes where
  "utf8_state3 = [
   XX, XX, XX, XX, XX, XX, XX, XX, XX, XX, XX, XX, XX, XX, XX, XX,
   XX, XX, XX, XX, XX, XX, XX, XX, XX, XX, XX, XX, XX, XX, XX, XX,
   XX, XX, XX, XX, XX, XX, XX, XX, XX, XX, XX, XX, XX, XX, XX, XX,
   XX, XX, XX, XX, XX, XX, XX, XX, XX, XX, XX, XX, XX, XX, XX, XX,
   XX, XX, XX, XX, XX, XX, XX, XX, XX, XX, XX, XX, XX, XX, XX, XX,
   XX, XX, XX, XX, XX, XX, XX, XX, XX, XX, XX, XX, XX, XX, XX, XX,
   XX, XX, XX, XX, XX, XX, XX, XX, XX, XX, XX, XX, XX, XX, XX, XX,
   XX, XX, XX, XX, XX, XX, XX, XX, XX, XX, XX, XX, XX, XX, XX, XX,
   1, 1, 1, 1, 1, 1, 1, 1, 1, 1, 1, 1, 1, 1, 1, 1,
   1, 1, 1, 1, 1, 1, 1, 1, 1, 1, 1, 1, 1, 1, 1, 1,
   1, 1, 1, 1, 1, 1, 1, 1, 1, 1, 1, 1, 1, 1, 1, 1,
   1, 1, 1, 1, 1, 1, 1, 1, 1, 1, 1, 1, 1, 1, 1, 1,
   XX, XX, XX, XX, XX, XX, XX, XX, XX, XX, XX, XX, XX, XX, XX, XX,
   XX, XX, XX, XX, XX, XX, XX, XX, XX, XX, XX, XX, XX, XX, XX, XX,
   XX, XX, XX, XX, XX, XX, XX, XX, XX, XX, XX, XX, XX, XX, XX, XX,
   XX, XX, XX, XX, XX, XX, XX, XX, XX, XX, XX, XX, XX, XX, XX, XX]"

definition utf8_state4 :: bytes where
  "utf8_state4 = [
   XX, XX, XX, XX, XX, XX, XX, XX, XX, XX, XX, XX, XX, XX, XX, XX,
   XX, XX, XX, XX, XX, XX, XX, XX, XX, XX, XX, XX, XX, XX, XX, XX,
   XX, XX, XX, XX, XX, XX, XX, XX, XX, XX, XX, XX, XX, XX, XX, XX,
   XX, XX, XX, XX, XX, XX, XX, XX, XX, XX, XX, XX, XX, XX, XX, XX,
   XX, XX, XX, XX, XX, XX, XX, XX, XX, XX, XX, XX, XX, XX, XX, XX,
   XX, XX, XX, XX, XX, XX, XX, XX, XX, XX, XX, XX, XX, XX, XX, XX,
   XX, XX, XX, XX, XX, XX, XX, XX, XX, XX, XX, XX, XX, XX, XX, XX,
   XX, XX, XX, XX, XX, XX, XX, XX, XX, XX, XX, XX, XX, XX, XX, XX,
   XX, XX, XX, XX, XX, XX, XX, XX, XX, XX, XX, XX, XX, XX, XX, XX,
   3, 3, 3, 3, 3, 3, 3, 3, 3, 3, 3, 3, 3, 3, 3, 3,
   3, 3, 3, 3, 3, 3, 3, 3, 3, 3, 3, 3, 3, 3, 3, 3,
   3, 3, 3, 3, 3, 3, 3, 3, 3, 3, 3, 3, 3, 3, 3, 3,
   XX, XX, XX, XX, XX, XX, XX, XX, XX, XX, XX, XX, XX, XX, XX, XX,
   XX, XX, XX, XX, XX, XX, XX, XX, XX, XX, XX, XX, XX, XX, XX, XX,
   XX, XX, XX, XX, XX, XX, XX, XX, XX, XX, XX, XX, XX, XX, XX, XX,
   XX, XX, XX, XX, XX, XX, XX, XX, XX, XX, XX, XX, XX, XX, XX, XX]"

definition utf8_state5 :: bytes where
  "utf8_state5 = [
   XX, XX, XX, XX, XX, XX, XX, XX, XX, XX, XX, XX, XX, XX, XX, XX,
   XX, XX, XX, XX, XX, XX, XX, XX, XX, XX, XX, XX, XX, XX, XX, XX,
   XX, XX, XX, XX, XX, XX, XX, XX, XX, XX, XX, XX, XX, XX, XX, XX,
   XX, XX, XX, XX, XX, XX, XX, XX, XX, XX, XX, XX, XX, XX, XX, XX,
   XX, XX, XX, XX, XX, XX, XX, XX, XX, XX, XX, XX, XX, XX, XX, XX,
   XX, XX, XX, XX, XX, XX, XX, XX, XX, XX, XX, XX, XX, XX, XX, XX,
   XX, XX, XX, XX, XX, XX, XX, XX, XX, XX, XX, XX, XX, XX, XX, XX,
   XX, XX, XX, XX, XX, XX, XX, XX, XX, XX, XX, XX, XX, XX, XX, XX,
   3, 3, 3, 3, 3, 3, 3, 3, 3, 3, 3, 3, 3, 3, 3, 3,
   3, 3, 3, 3, 3, 3, 3, 3, 3, 3, 3, 3, 3, 3, 3, 3,
   3, 3, 3, 3, 3, 3, 3, 3, 3, 3, 3, 3, 3, 3, 3, 3,
   3, 3, 3, 3, 3, 3, 3, 3, 3, 3, 3, 3, 3, 3, 3, 3,
   XX, XX, XX, XX, XX, XX, XX, XX, XX, XX, XX, XX, XX, XX, XX, XX,
   XX, XX, XX, XX, XX, XX, XX, XX, XX, XX, XX, XX, XX, XX, XX, XX,
   XX, XX, XX, XX, XX, XX, XX, XX, XX, XX, XX, XX, XX, XX, XX, XX,
   XX, XX, XX, XX, XX, XX, XX, XX, XX, XX, XX, XX, XX, XX, XX, XX]"

definition utf8_state6 :: bytes where
  "utf8_state6 = [
   XX, XX, XX, XX, XX, XX, XX, XX, XX, XX, XX, XX, XX, XX, XX, XX,
   XX, XX, XX, XX, XX, XX, XX, XX, XX, XX, XX, XX, XX, XX, XX, XX,
   XX, XX, XX, XX, XX, XX, XX, XX, XX, XX, XX, XX, XX, XX, XX, XX,
   XX, XX, XX, XX, XX, XX, XX, XX, XX, XX, XX, XX, XX, XX, XX, XX,
   XX, XX, XX, XX, XX, XX, XX, XX, XX, XX, XX, XX, XX, XX, XX, XX,
   XX, XX, XX, XX, XX, XX, XX, XX, XX, XX, XX, XX, XX, XX, XX, XX,
   XX, XX, XX, XX, XX, XX, XX, XX, XX, XX, XX, XX, XX, XX, XX, XX,
   XX, XX, XX, XX, XX, XX, XX, XX, XX, XX, XX, XX, XX, XX, XX, XX,
   3, 3, 3, 3, 3, 3, 3, 3, 3, 3, 3, 3, 3, 3, 3, 3,
   XX, XX, XX, XX, XX, XX, XX, XX, XX, XX, XX, XX, XX, XX, XX, XX,
   XX, XX, XX, XX, XX, XX, XX, XX, XX, XX, XX, XX, XX, XX, XX, XX,
   XX, XX, XX, XX, XX, XX, XX, XX, XX, XX, XX, XX, XX, XX, XX, XX,
   XX, XX, XX, XX, XX, XX, XX, XX, XX, XX, XX, XX, XX, XX, XX, XX,
   XX, XX, XX, XX, XX, XX, XX, XX, XX, XX, XX, XX, XX, XX, XX, XX,
   XX, XX, XX, XX, XX, XX, XX, XX, XX, XX, XX, XX, XX, XX, XX, XX,
   XX, XX, XX, XX, XX, XX, XX, XX, XX, XX, XX, XX, XX, XX, XX, XX]"

definition utf8_state7 :: bytes where
  "utf8_state7 = [
   XX, XX, XX, XX, XX, XX, XX, XX, XX, XX, XX, XX, XX, XX, XX, XX,
   XX, XX, XX, XX, XX, XX, XX, XX, XX, XX, XX, XX, XX, XX, XX, XX,
   XX, XX, XX, XX, XX, XX, XX, XX, XX, XX, XX, XX, XX, XX, XX, XX,
   XX, XX, XX, XX, XX, XX, XX, XX, XX, XX, XX, XX, XX, XX, XX, XX,
   XX, XX, XX, XX, XX, XX, XX, XX, XX, XX, XX, XX, XX, XX, XX, XX,
   XX, XX, XX, XX, XX, XX, XX, XX, XX, XX, XX, XX, XX, XX, XX, XX,
   XX, XX, XX, XX, XX, XX, XX, XX, XX, XX, XX, XX, XX, XX, XX, XX,
   XX, XX, XX, XX, XX, XX, XX, XX, XX, XX, XX, XX, XX, XX, XX, XX,
   1, 1, 1, 1, 1, 1, 1, 1, 1, 1, 1, 1, 1, 1, 1, 1,
   1, 1, 1, 1, 1, 1, 1, 1, 1, 1, 1, 1, 1, 1, 1, 1,
   8, 8, 8, 8, 8, 8, 8, 8, 8, 8, 8, 8, 8, 8, 8, 8,
   8, 8, 8, 8, 8, 8, 8, 8, 8, 8, 8, 8, 8, 8, 8, 8,
   XX, XX, XX, XX, XX, XX, XX, XX, XX, XX, XX, XX, XX, XX, XX, XX,
   XX, XX, XX, XX, XX, XX, XX, XX, XX, XX, XX, XX, XX, XX, XX, XX,
   XX, XX, XX, XX, XX, XX, XX, XX, XX, XX, XX, XX, XX, XX, XX, XX,
   XX, XX, XX, XX, XX, XX, XX, XX, XX, XX, XX, XX, XX, XX, XX, XX]"

definition utf8_state8 :: bytes where
  "utf8_state8 = [
   XX, XX, XX, XX, XX, XX, XX, XX, XX, XX, XX, XX, XX, XX, XX, XX,
   XX, XX, XX, XX, XX, XX, XX, XX, XX, XX, XX, XX, XX, XX, XX, XX,
   XX, XX, XX, XX, XX, XX, XX, XX, XX, XX, XX, XX, XX, XX, XX, XX,
   XX, XX, XX, XX, XX, XX, XX, XX, XX, XX, XX, XX, XX, XX, XX, XX,
   XX, XX, XX, XX, XX, XX, XX, XX, XX, XX, XX, XX, XX, XX, XX, XX,
   XX, XX, XX, XX, XX, XX, XX, XX, XX, XX, XX, XX, XX, XX, XX, XX,
   XX, XX, XX, XX, XX, XX, XX, XX, XX, XX, XX, XX, XX, XX, XX, XX,
   XX, XX, XX, XX, XX, XX, XX, XX, XX, XX, XX, XX, XX, XX, XX, XX,
   RJ, RJ, RJ, RJ, RJ, RJ, RJ, RJ, RJ, RJ, RJ, RJ, RJ, RJ, RJ, RJ,
   RJ, RJ, RJ, RJ, RJ, RJ, RJ, RJ, RJ, RJ, RJ, RJ, RJ, RJ, RJ, RJ,
   RJ, RJ, RJ, RJ, RJ, RJ, RJ, RJ, RJ, RJ, RJ, RJ, RJ, RJ, RJ, RJ,
   RJ, RJ, RJ, RJ, RJ, RJ, RJ, RJ, RJ, RJ, RJ, RJ, RJ, RJ, RJ, RJ,
   XX, XX, XX, XX, XX, XX, XX, XX, XX, XX, XX, XX, XX, XX, XX, XX,
   XX, XX, XX, XX, XX, XX, XX, XX, XX, XX, XX, XX, XX, XX, XX, XX,
   XX, XX, XX, XX, XX, XX, XX, XX, XX, XX, XX, XX, XX, XX, XX, XX,
   XX, XX, XX, XX, XX, XX, XX, XX, XX, XX, XX, XX, XX, XX, XX, XX]"

definition utf8_fast :: bytes where
  "utf8_fast = [
   0, 0, 0, 0, 0, 0, 0, 0, 0, 0, 0, 0, 0, 0, 0, 0,
   0, 0, 0, 0, 0, 0, 0, 0, 0, 0, 0, 0, 0, 0, 0, 0,
   0, 0, 0, 0, 0, 0, 0, 0, 0, 0, 0, 0, 0, 0, 0, 0,
   0, 0, 0, 0, 0, 0, 0, 0, 0, 0, 0, 0, 0, 0, 0, 0,
   0, 0, 0, 0, 0, 0, 0, 0, 0, 0, 0, 0, 0, 0, 0, 0,
   0, 0, 0, 0, 0, 0, 0, 0, 0, 0, 0, 0, 0, 0, 0, 0,
   0, 0, 0, 0, 0, 0, 0, 0, 0, 0, 0, 0, 0, 0, 0, 0,
   0, 0, 0, 0, 0, 0, 0, 0, 0, 0, 0, 0, 0, 0, 0, 0,
   1, 1, 1, 1, 1, 1, 1, 1, 1, 1, 1, 1, 1, 1, 1, 1,
   1, 1, 1, 1, 1, 1, 1, 1, 1, 1, 1, 1, 1, 1, 1, 1,
   1, 1, 1, 1, 1, 1, 1, 1, 1, 1, 1, 1, 1, 1, 1, 1,
   1, 1, 1, 1, 1, 1, 1, 1, 1, 1, 1, 1, 1, 1, 1, 1,
   1, 1, 1, 1, 1, 1, 1, 1, 1, 1, 1, 1, 1, 1, 1, 1,
   1, 1, 1, 1, 1, 1, 1, 1, 1, 1, 1, 1, 1, 1, 1, 1,
   1, 1, 1, 1, 1, 1, 1, 1, 1, 1, 1, 1, 1, 1, 1, 1,
   1, 1, 1, 1, 1, 1, 1, 1, 1, 1, 1, 1, 1, 1, 1, 1]"

definition utf8acceptnonsurrogates :: bytes where
  "utf8acceptnonsurrogates = utf8_state0 @ utf8_state1 @ utf8_state2 @ utf8_state3 @ utf8_state4 @
     utf8_state5 @ utf8_state6 @ utf8_state7 @ utf8_state8"

definition utf8acceptnonsurrogates_obj :: UTF8ScanObj where
  "utf8acceptnonsurrogates_obj = \<lparr> state0 = 0, state0_size = 256, total_size = 2304,
     max_expand = 0, entry_shift = 8, bytes_per_entry = 1, losub = 0x20202020, hiadd = 0,
     state_table = utf8acceptnonsurrogates, fast_state = utf8_fast \<rparr>"

section \<open>The scanner\<close>

text \<open>A pointer into the state table is an offset.\<close>

definition InStateZero :: "UTF8ScanObj \<Rightarrow> nat \<Rightarrow> bool" where
  "InStateZero st Tbl \<longleftrightarrow>
     unat (word_of_int (int Tbl - int (state0 st)) :: u32) < state0_size st"

abbreviation fast_at :: "UTF8ScanObj \<Rightarrow> bytes \<Rightarrow> nat \<Rightarrow> byte" where
  "fast_at st bs i \<equiv> fast_state st ! unat (bs ! i)"

text \<open>One byte at a time, until the address is a multiple of eight.\<close>

function skip_to_aligned :: "UTF8ScanObj \<Rightarrow> nat \<Rightarrow> bytes \<Rightarrow> nat \<Rightarrow> nat" where
  "skip_to_aligned st addr bs src =
     (if (addr + src) mod 8 \<noteq> 0 \<and> src < length bs \<and> fast_at st bs src = 0
      then skip_to_aligned st addr bs (Suc src) else src)"
  by auto
termination by (relation "measure (\<lambda>(st, addr, bs, src). length bs - src)") auto

text \<open>The end of the text less seven bytes, or its start if it is shorter.\<close>

definition srclimit8 :: "bytes \<Rightarrow> nat" where
  "srclimit8 bs = (if length bs < 7 then 0 else length bs - 7)"

definition load32 :: "bytes \<Rightarrow> nat \<Rightarrow> u32" where
  "load32 bs i = load_le (take 4 (drop i bs))"

text \<open>Eight bytes at a time.\<close>

function skip_eights :: "UTF8ScanObj \<Rightarrow> bytes \<Rightarrow> nat \<Rightarrow> nat" where
  "skip_eights st bs src =
     (if src < srclimit8 bs then
        (let s0123 = load32 bs src; s4567 = load32 bs (src + 4);
             temp = (s0123 - losub st) OR (s0123 + hiadd st) OR
                    (s4567 - losub st) OR (s4567 + hiadd st)
         in if temp AND 0x80808080 \<noteq> 0 then
              (if (fast_at st bs src OR fast_at st bs (src + 1)) OR
                  (fast_at st bs (src + 2) OR fast_at st bs (src + 3)) \<noteq> 0 then src
               else if (fast_at st bs (src + 4) OR fast_at st bs (src + 5)) OR
                  (fast_at st bs (src + 6) OR fast_at st bs (src + 7)) \<noteq> 0 then src + 4
               else skip_eights st bs (src + 8))
            else skip_eights st bs (src + 8))
      else src)"
  by auto
termination by (relation "measure (\<lambda>(st, bs, src). length bs - src)")
  (auto simp: srclimit8_def split: if_splits)

text \<open>Byte by byte through the table: the last entry, the position behind it, and the state.\<close>

function byte_scan :: "UTF8ScanObj \<Rightarrow> bytes \<Rightarrow> nat \<Rightarrow> nat \<Rightarrow> byte \<Rightarrow> byte \<times> nat \<times> nat" where
  "byte_scan st bs src Tbl e =
     (if src < length bs then
        (let e' = state_table st ! (Tbl + unat (bs ! src))
         in if kExitIllegalStructure \<le> e' then (e', Suc src, Tbl)
            else byte_scan st bs (Suc src) (state0 st + push_bit (entry_shift st) (unat e')) e')
      else (e, src, Tbl))"
  by auto
termination by (relation "measure (\<lambda>(st, bs, src, Tbl, e). length bs - src)") auto

text \<open>
  \<open>do src--; while (src > isrc && continuation)\<close>, which steps before the start of the text when it
  is called there.
\<close>

fun back_up :: "bytes \<Rightarrow> nat \<Rightarrow> int" where
  "back_up bs 0 = -1"
| "back_up bs (Suc k) =
     (if 0 < k \<and> (bs ! k) AND 0xC0 = 0x80 then back_up bs k else int k)"

text \<open>The exit of the byte-wise scan: back up over a rejected or truncated character.\<close>

definition scan_exit :: "UTF8ScanObj \<Rightarrow> bytes \<Rightarrow> byte \<times> nat \<times> nat \<Rightarrow> byte \<times> int" where
  "scan_exit st bs r =
     (case r of (e, src, Tbl) \<Rightarrow>
        if kExitIllegalStructure \<le> e then
          (e, if InStateZero st Tbl then int (src - 1) else back_up bs (src - 1))
        else if \<not> InStateZero st Tbl then (kExitIllegalStructure, back_up bs src)
        else (kExitOK, int src))"

definition scan_step :: "UTF8ScanObj \<Rightarrow> nat \<Rightarrow> bytes \<Rightarrow> nat \<Rightarrow> byte \<times> int" where
  "scan_step st addr bs src =
     (let src1 = skip_to_aligned st addr bs src;
          src2 = (if (addr + src1) mod 8 = 0 then skip_eights st bs src1 else src1)
      in scan_exit st bs (byte_scan st bs src2 (state0 st) 0))"

partial_function (option) scan_again ::
    "UTF8ScanObj \<Rightarrow> nat \<Rightarrow> bytes \<Rightarrow> nat \<Rightarrow> (byte \<times> int) option" where
  "scan_again st addr bs src =
     (let r = scan_step st addr bs src
      in if fst r = kExitDoAgain then
           (if snd r < 0 then None else scan_again st addr bs (nat (snd r)))
         else Some r)"

text \<open>The reason for the end of the scan, and the number of bytes consumed.\<close>

definition UTF8GenericScan :: "UTF8ScanObj \<Rightarrow> nat \<Rightarrow> bytes \<Rightarrow> (byte \<times> int) option" where
  "UTF8GenericScan st addr bs =
     (if bs = [] then Some (kExitOK, 0) else scan_again st addr bs 0)"

function ascii_to_aligned :: "nat \<Rightarrow> bytes \<Rightarrow> nat \<Rightarrow> nat" where
  "ascii_to_aligned addr bs src =
     (if (addr + src) mod 8 \<noteq> 0 \<and> src < length bs \<and> bs ! src < 0x80
      then ascii_to_aligned addr bs (Suc src) else src)"
  by auto
termination by (relation "measure (\<lambda>(addr, bs, src). length bs - src)") auto

function ascii_eights :: "bytes \<Rightarrow> nat \<Rightarrow> nat" where
  "ascii_eights bs src =
     (if src < srclimit8 bs \<and> (load32 bs src OR load32 bs (src + 4)) AND 0x80808080 = 0
      then ascii_eights bs (src + 8) else src)"
  by auto
termination by (relation "measure (\<lambda>(bs, src). length bs - src)")
  (auto simp: srclimit8_def split: if_splits)

function ascii_rest :: "bytes \<Rightarrow> nat \<Rightarrow> nat" where
  "ascii_rest bs src =
     (if src < length bs \<and> bs ! src < 0x80 then ascii_rest bs (Suc src) else src)"
  by auto
termination by (relation "measure (\<lambda>(bs, src). length bs - src)") auto

definition skip_ascii :: "nat \<Rightarrow> bytes \<Rightarrow> nat \<Rightarrow> nat" where
  "skip_ascii addr bs src =
     (let src1 = ascii_to_aligned addr bs src;
          src2 = (if (addr + src1) mod 8 = 0 then ascii_eights bs src1 else src1)
      in ascii_rest bs src2)"

partial_function (option) ascii_then_scan ::
    "UTF8ScanObj \<Rightarrow> nat \<Rightarrow> bytes \<Rightarrow> nat \<Rightarrow> (byte \<times> int) option" where
  "ascii_then_scan st addr bs src =
     (let n = skip_ascii addr bs src
      in Option.bind (UTF8GenericScan st (addr + n) (drop n bs)) (\<lambda>r.
           let p = int n + snd r
           in if fst r = kExitDoAgain then
                (if p < 0 then None else ascii_then_scan st addr bs (nat p))
              else Some (fst r, p)))"

definition UTF8GenericScanFastAscii ::
    "UTF8ScanObj \<Rightarrow> nat \<Rightarrow> bytes \<Rightarrow> (byte \<times> int) option" where
  "UTF8GenericScanFastAscii st addr bs =
     (if bs = [] then Some (kExitOK, 0) else ascii_then_scan st addr bs 0)"

section \<open>The functions of the interface\<close>

text \<open>
  The first argument is \<^verbatim>\<open>module_initialized_\<close>, which is false only while static objects are
  constructed.
\<close>

definition IsStructurallyValidUTF8 :: "bool \<Rightarrow> nat \<Rightarrow> bytes \<Rightarrow> bool option" where
  "IsStructurallyValidUTF8 module_initialized addr bs =
     (if \<not> module_initialized then Some True
      else map_option (\<lambda>r. snd r = int (length bs))
        (UTF8GenericScanFastAscii utf8acceptnonsurrogates_obj addr bs))"

definition UTF8SpnStructurallyValid :: "bool \<Rightarrow> nat \<Rightarrow> bytes \<Rightarrow> int option" where
  "UTF8SpnStructurallyValid module_initialized addr bs =
     (if \<not> module_initialized then Some (int (length bs))
      else map_option snd (UTF8GenericScanFastAscii utf8acceptnonsurrogates_obj addr bs))"

text \<open>The pointer that comes back is that of the source, or of the copy with what was put there.\<close>

datatype coerced = Isrc | Idst bytes

function coerce_loop :: "bool \<Rightarrow> nat \<Rightarrow> byte \<Rightarrow> bytes \<Rightarrow> nat \<Rightarrow> bytes \<Rightarrow> bytes option" where
  "coerce_loop ini addr replace_char bs src dst =
     (if src < length bs then
        (case UTF8SpnStructurallyValid ini (addr + Suc src) (drop (Suc src) bs) of
           None \<Rightarrow> None
         | Some n \<Rightarrow>
             if n < 0 then None
             else coerce_loop ini addr replace_char bs (Suc src + nat n)
                    (dst @ [replace_char] @ take (nat n) (drop (Suc src) bs)))
      else Some dst)"
  by auto
termination by (relation "measure (\<lambda>(ini, addr, c, bs, src, dst). length bs - src)") auto

definition UTF8CoerceToStructurallyValid ::
    "bool \<Rightarrow> nat \<Rightarrow> bytes \<Rightarrow> byte \<Rightarrow> coerced option" where
  "UTF8CoerceToStructurallyValid ini addr src_str replace_char =
     (case UTF8SpnStructurallyValid ini addr src_str of
        None \<Rightarrow> None
      | Some n \<Rightarrow>
          if n = int (length src_str) then Some Isrc
          else if n < 0 then None
          else map_option Idst
            (coerce_loop ini addr replace_char src_str (nat n) (take (nat n) src_str)))"

section \<open>What is to be computed\<close>

text \<open>The encoding of the Unicode scalar values, with which the scanner is compared.\<close>

definition scalar :: "nat \<Rightarrow> bool" where
  "scalar c \<longleftrightarrow> c < 0x110000 \<and> \<not> (0xD800 \<le> c \<and> c < 0xE000)"

definition utf8_encode :: "nat \<Rightarrow> bytes" where
  "utf8_encode c =
     (if c < 0x80 then [of_nat c]
      else if c < 0x800 then [of_nat (0xC0 + c div 64), of_nat (0x80 + c mod 64)]
      else if c < 0x10000 then
        [of_nat (0xE0 + c div 4096), of_nat (0x80 + c div 64 mod 64), of_nat (0x80 + c mod 64)]
      else
        [of_nat (0xF0 + c div 262144), of_nat (0x80 + c div 4096 mod 64),
         of_nat (0x80 + c div 64 mod 64), of_nat (0x80 + c mod 64)])"

definition utf8_text :: "bytes \<Rightarrow> bool" where
  "utf8_text bs \<longleftrightarrow> (\<exists>cs. list_all scalar cs \<and> bs = concat (map utf8_encode cs))"

section \<open>The table as ranges of bytes\<close>

lemma utf8_blocks:
  "utf8_state0 = replicate 128 0 @ replicate 66 XX @ replicate 30 1 @ replicate 1 2 @
     replicate 12 3 @ replicate 1 7 @ replicate 2 3 @ replicate 1 4 @ replicate 3 5 @
     replicate 1 6 @ replicate 11 XX"
  "utf8_state1 = replicate 128 XX @ replicate 64 0 @ replicate 64 XX"
  "utf8_state2 = replicate 160 XX @ replicate 32 1 @ replicate 64 XX"
  "utf8_state3 = replicate 128 XX @ replicate 64 1 @ replicate 64 XX"
  "utf8_state4 = replicate 144 XX @ replicate 48 3 @ replicate 64 XX"
  "utf8_state5 = replicate 128 XX @ replicate 64 3 @ replicate 64 XX"
  "utf8_state6 = replicate 128 XX @ replicate 16 3 @ replicate 112 XX"
  "utf8_state7 = replicate 128 XX @ replicate 32 1 @ replicate 32 8 @ replicate 64 XX"
  "utf8_state8 = replicate 128 XX @ replicate 64 RJ @ replicate 64 XX"
  "utf8_fast = replicate 128 0 @ replicate 128 1"
  by (simp_all add: utf8_state0_def utf8_state1_def utf8_state2_def utf8_state3_def utf8_state4_def
      utf8_state5_def utf8_state6_def utf8_state7_def utf8_state8_def utf8_fast_def eval_nat_numeral
      del: append_Cons)

lemma length_utf8_blocks:
  "length utf8_state0 = 256" "length utf8_state1 = 256" "length utf8_state2 = 256"
  "length utf8_state3 = 256" "length utf8_state4 = 256" "length utf8_state5 = 256"
  "length utf8_state6 = 256" "length utf8_state7 = 256" "length utf8_state8 = 256"
  by (simp_all add: utf8_blocks)

definition entry :: "nat \<Rightarrow> byte \<Rightarrow> byte" where
  "entry s c = utf8acceptnonsurrogates ! (256 * s + unat c)"

lemma unat_byte: "unat (c :: byte) < 256"
  using unsigned_less [of c] by simp

lemma entry_block:
  "entry 0 c = utf8_state0 ! unat c" "entry 1 c = utf8_state1 ! unat c"
  "entry 2 c = utf8_state2 ! unat c" "entry 3 c = utf8_state3 ! unat c"
  "entry 4 c = utf8_state4 ! unat c" "entry 5 c = utf8_state5 ! unat c"
  "entry 6 c = utf8_state6 ! unat c" "entry 7 c = utf8_state7 ! unat c"
  "entry 8 c = utf8_state8 ! unat c"
  using unat_byte [of c]
  by (simp_all add: entry_def utf8acceptnonsurrogates_def nth_append length_utf8_blocks)

text \<open>Continuation bytes, and the entries of the table by ranges.\<close>

definition cont :: "byte \<Rightarrow> bool" where
  "cont b \<longleftrightarrow> 128 \<le> unat b \<and> unat b < 192"

lemma entry_range:
  "entry 0 c = (if unat c < 128 then 0 else if unat c < 194 then XX else if unat c < 224 then 1
     else if unat c = 224 then 2 else if unat c = 237 then 7 else if unat c < 240 then 3
     else if unat c = 240 then 4 else if unat c < 244 then 5 else if unat c = 244 then 6 else XX)"
  "entry 1 c = (if cont c then 0 else XX)"
  "entry 2 c = (if cont c \<and> 160 \<le> unat c then 1 else XX)"
  "entry 3 c = (if cont c then 1 else XX)"
  "entry 4 c = (if cont c \<and> 144 \<le> unat c then 3 else XX)"
  "entry 5 c = (if cont c then 3 else XX)"
  "entry 6 c = (if cont c \<and> unat c < 144 then 3 else XX)"
  "entry 7 c = (if cont c then if unat c < 160 then 1 else 8 else XX)"
  "entry 8 c = (if cont c then RJ else XX)"
  using unat_byte [of c]
  by (auto simp: entry_block [unfolded One_nat_def] utf8_blocks nth_append nth_Cons' cont_def)

lemma fast_range: "utf8_fast ! unat (c :: byte) = (if unat c < 128 then 0 else 1)"
  using unat_byte [of c] by (auto simp: utf8_blocks nth_append)

lemma byte_cases: "list_all (\<lambda>n. P (word_of_nat n :: byte)) [0..<256] \<Longrightarrow> P b"
  using unat_byte [of b] by (auto simp: list_all_iff dest!: bspec [of _ _ "unat b"])

lemma cont_mask: "b AND 0xC0 = 0x80 \<longleftrightarrow> cont b"
  by (rule byte_cases [where P = "\<lambda>b. b AND 0xC0 = 0x80 \<longleftrightarrow> cont b"])
    (simp add: cont_def, code_simp)

section \<open>The scan of one character\<close>

abbreviation nonsurr :: UTF8ScanObj where
  "nonsurr \<equiv> utf8acceptnonsurrogates_obj"

lemma nonsurr_sel [simp]:
  "state0 nonsurr = 0" "state0_size nonsurr = 256" "entry_shift nonsurr = 8"
  "losub nonsurr = 0x20202020" "hiadd nonsurr = 0" "state_table nonsurr = utf8acceptnonsurrogates"
  "fast_state nonsurr = utf8_fast"
  by (simp_all add: utf8acceptnonsurrogates_obj_def)

lemma InStateZero_nonsurr [simp]: "s < 9 \<Longrightarrow> InStateZero nonsurr (256 * s) \<longleftrightarrow> s = 0"
proof -
  assume "s < 9"
  then have "s \<in> {0, 1, 2, 3, 4, 5, 6, 7, 8}" by auto
  then show ?thesis by (auto simp: InStateZero_def)
qed

text \<open>What the scan from state \<open>s\<close> at position \<open>m\<close> leads to.\<close>

definition scan_at :: "bytes \<Rightarrow> nat \<Rightarrow> nat \<Rightarrow> byte \<Rightarrow> byte \<times> int" where
  "scan_at bs m s e = scan_exit nonsurr bs (byte_scan nonsurr bs m (256 * s) e)"

declare byte_scan.simps [simp del] skip_to_aligned.simps [simp del] skip_eights.simps [simp del]
  ascii_to_aligned.simps [simp del] ascii_eights.simps [simp del] ascii_rest.simps [simp del]
  coerce_loop.simps [simp del]

lemma scan_at_go:
  assumes "m < length bs" "entry s (bs ! m) = of_nat t" "t < 9"
  shows "scan_at bs m s e = scan_at bs (Suc m) t (of_nat t)"
proof -
  have "\<not> XX \<le> of_nat t" and t: "unat (of_nat t :: byte) = t"
    using assms(3) by (simp_all add: kExitIllegalStructure_def word_le_nat_alt unsigned_of_nat take_bit_nat_eq_self)
  then show ?thesis
    using assms unfolding scan_at_def entry_def
    by (subst byte_scan.simps) (simp add: Let_def push_bit_eq_mult mult.commute)
qed

lemma scan_at_stop:
  assumes "m < length bs" "XX \<le> entry s (bs ! m)" "s < 9"
  shows "scan_at bs m s e = (entry s (bs ! m), if s = 0 then int m else back_up bs m)"
  using assms unfolding scan_at_def
  by (subst byte_scan.simps) (simp add: entry_def Let_def scan_exit_def)

lemma scan_at_end:
  assumes "length bs \<le> m" "e < XX" "s < 9"
  shows "scan_at bs m s e = (if s = 0 then (kExitOK, int m) else (XX, back_up bs m))"
proof -
  have "\<not> XX \<le> e" using assms(2) by simp
  moreover have "byte_scan nonsurr bs m (256 * s) e = (e, m, 256 * s)"
    using assms(1) by (subst byte_scan.simps) simp
  ultimately show ?thesis
    using InStateZero_nonsurr [OF assms(3)] by (simp add: scan_at_def scan_exit_def del: InStateZero_nonsurr)
qed

text \<open>A character begun at \<open>p\<close>, with a lead byte and continuation bytes up to \<open>m\<close>.\<close>

definition begun :: "bytes \<Rightarrow> nat \<Rightarrow> nat \<Rightarrow> bool" where
  "begun bs p m \<longleftrightarrow> p < m \<and> m \<le> length bs \<and> \<not> cont (bs ! p) \<and> (\<forall>i. p < i \<and> i < m \<longrightarrow> cont (bs ! i))"

lemma begun_start: "p < length bs \<Longrightarrow> \<not> cont (bs ! p) \<Longrightarrow> begun bs p (Suc p)"
  by (auto simp: begun_def)

lemma begun_Suc: "begun bs p m \<Longrightarrow> m < length bs \<Longrightarrow> cont (bs ! m) \<Longrightarrow> begun bs p (Suc m)"
  by (auto simp: begun_def less_Suc_eq)

lemma back_up_begun: "begun bs p m \<Longrightarrow> back_up bs m = int p"
proof (induction m)
  case 0
  then show ?case by (simp add: begun_def)
next
  case (Suc m)
  show ?case
  proof (cases "m = p")
    case True
    with Suc.prems show ?thesis by (simp add: begun_def cont_mask)
  next
    case False
    with Suc.prems have "begun bs p m" "cont (bs ! m)" "0 < m" by (auto simp: begun_def)
    with Suc.IH show ?thesis by (simp add: cont_mask)
  qed
qed

text \<open>The scan has ended in the middle of the character begun at \<open>p\<close>.\<close>

definition stuck :: "nat \<Rightarrow> byte \<times> int \<Rightarrow> bool" where
  "stuck p r \<longleftrightarrow> snd r = int p \<and> fst r \<in> {XX, RJ}"

lemma stuck_entry:
  assumes "begun bs p m" "0 < s" "s < 9" "e < XX"
    and "m < length bs \<Longrightarrow> entry s (bs ! m) \<in> {XX, RJ}"
  shows "stuck p (scan_at bs m s e)"
proof (cases "m < length bs")
  case True
  with assms(5) have "XX \<le> entry s (bs ! m)" by (auto simp: kExitIllegalStructure_def kExitReject_def)
  from scan_at_stop [OF True this assms(3)] True assms show ?thesis
    by (simp add: stuck_def back_up_begun)
next
  case False
  with assms show ?thesis by (simp add: scan_at_end stuck_def back_up_begun)
qed

lemma small_entry [simp]: "n < 240 \<Longrightarrow> of_nat n < XX"
  by (simp add: kExitIllegalStructure_def word_less_nat_alt unsigned_of_nat take_bit_nat_eq_self)

text \<open>The ends of characters: one, two or three continuation bytes to come.\<close>

lemma scan_entry_go:
  assumes "m < length bs" "entry s (bs ! m) = of_nat t" "t < 9"
  shows "scan_at bs m s e = scan_at bs (Suc m) t (of_nat t)"
  using scan_at_go [OF assms] .

lemma tail_last:
  assumes "begun bs p m" "e < XX"
  shows "if m < length bs \<and> cont (bs ! m) then scan_at bs m 1 e = scan_at bs (Suc m) 0 0
         else stuck p (scan_at bs m 1 e)"
  using assms scan_at_go [of m bs 1 0 e] stuck_entry [OF assms(1), of 1 e]
  by (auto simp: entry_range [unfolded One_nat_def])

lemma tail_surrogate: "begun bs p m \<Longrightarrow> e < XX \<Longrightarrow> stuck p (scan_at bs m 8 e)"
  by (rule stuck_entry) (auto simp: entry_range)

lemma small_of_nat [simp]: "of_nat 1 < XX" "of_nat 3 < XX" 
  "(0::byte) < XX" "(1::byte) < XX" "(2::byte) < XX" "(3::byte) < XX" "(4::byte) < XX"
  "(5::byte) < XX" "(6::byte) < XX" "(7::byte) < XX" "(8::byte) < XX"
  by (simp_all add: kExitIllegalStructure_def)

text \<open>A state in which a byte of the set \<open>B\<close> leads to state \<open>t\<close>, and any other byte is an error.\<close>

lemma tail_step:
  assumes b: "begun bs p m" "e < XX" "0 < s" "s < 9" "t < 9"
    and ent: "\<And>c. entry s c = (if cont c \<and> B c then of_nat t else XX)"
  shows "if m < length bs \<and> cont (bs ! m) \<and> B (bs ! m)
         then scan_at bs m s e = scan_at bs (Suc m) t (of_nat t) \<and> begun bs p (Suc m)
         else stuck p (scan_at bs m s e)"
  using b scan_at_go [of m bs s t e] stuck_entry [OF b(1), of s e] begun_Suc [OF b(1)]
  by (auto simp: ent)

lemma tail_two:
  assumes "begun bs p m" "e < XX" "0 < s" "s < 9"
    and "\<And>c. entry s c = (if cont c \<and> B c then 1 else XX)"
  shows "if m + 1 < length bs \<and> cont (bs ! m) \<and> B (bs ! m) \<and> cont (bs ! (m + 1))
         then scan_at bs m s e = scan_at bs (m + 2) 0 0
         else stuck p (scan_at bs m s e)"
  using tail_step [OF assms(1-4), of 1 B] tail_last [of bs p "Suc m" 1] assms(5)
  by (cases "m < length bs \<and> cont (bs ! m) \<and> B (bs ! m)") auto

lemma add_3: "n + 4 = Suc (Suc (Suc (Suc n)))" "n + 3 = Suc (Suc (Suc n))" "3 + n = Suc (Suc (Suc n))"
  by simp_all

lemma tail_three:
  assumes "begun bs p m" "e < XX" "0 < s" "s < 9"
    and "\<And>c. entry s c = (if cont c \<and> B c then 3 else XX)"
  shows "if m + 2 < length bs \<and> cont (bs ! m) \<and> B (bs ! m) \<and> cont (bs ! (m + 1)) \<and> cont (bs ! (m + 2))
         then scan_at bs m s e = scan_at bs (m + 3) 0 0
         else stuck p (scan_at bs m s e)"
proof (cases "m < length bs \<and> cont (bs ! m) \<and> B (bs ! m)")
  case True
  with tail_step [OF assms(1-4), of 3 B] assms(5)
  have "scan_at bs m s e = scan_at bs (Suc m) 3 3" and m: "begun bs p (Suc m)" by auto
  with tail_two [OF m, of 3 3 "\<lambda>_. True"] True show ?thesis
    by (simp add: entry_range add_3)
next
  case False
  with tail_step [OF assms(1-4), of 3 B] assms(5) show ?thesis by auto
qed

lemma tail_seven:
  assumes "begun bs p m" "e < XX"
  shows "if m + 1 < length bs \<and> cont (bs ! m) \<and> unat (bs ! m) < 160 \<and> cont (bs ! (m + 1))
         then scan_at bs m 7 e = scan_at bs (m + 2) 0 0
         else stuck p (scan_at bs m 7 e)"
proof (cases "m < length bs \<and> cont (bs ! m)")
  case True
  then have m: "begun bs p (Suc m)" using assms begun_Suc by blast
  show ?thesis
  proof (cases "unat (bs ! m) < 160")
    case T: True
    then have "scan_at bs m 7 e = scan_at bs (Suc m) 1 1"
      using True scan_at_go [of m bs 7 1 e] by (simp add: entry_range)
    with tail_last [OF m, of 1] True T show ?thesis by (auto simp: kExitIllegalStructure_def)
  next
    case False
    then have "scan_at bs m 7 e = scan_at bs (Suc m) 8 8"
      using True scan_at_go [of m bs 7 8 e] by (simp add: entry_range)
    with tail_surrogate [OF m, of 8] False show ?thesis by simp
  qed
next
  case False
  with stuck_entry [OF assms(1), of 7 e] assms(2) show ?thesis by (auto simp: entry_range)
qed

text \<open>The length of the well-formed character that a text begins with; 0 if there is none.\<close>

definition char_len :: "bytes \<Rightarrow> nat" where
  "char_len xs =
     (if xs = [] then 0
      else let a = unat (xs ! 0); ok = (\<lambda>i. i < length xs \<and> cont (xs ! i)); b = unat (xs ! 1)
      in if a < 128 then 1
         else if 194 \<le> a \<and> a < 224 then (if ok 1 then 2 else 0)
         else if 224 \<le> a \<and> a < 240 then
           (if ok 1 \<and> ok 2 \<and> (a = 224 \<longrightarrow> 160 \<le> b) \<and> (a = 237 \<longrightarrow> b < 160) then 3 else 0)
         else if 240 \<le> a \<and> a < 245 then
           (if ok 1 \<and> ok 2 \<and> ok 3 \<and> (a = 240 \<longrightarrow> 144 \<le> b) \<and> (a = 244 \<longrightarrow> b < 144) then 4 else 0)
         else 0)"

lemma char_len_pos: "0 < char_len xs \<Longrightarrow> xs \<noteq> []"
  by (auto simp: char_len_def)

lemma char_len_le: "char_len xs \<le> length xs"
  by (auto simp: char_len_def Let_def Suc_le_eq)

lemma scan_char:
  assumes p: "p < length bs"
  shows "if char_len (drop p bs) = 0 then stuck p (scan_at bs p 0 e)
         else scan_at bs p 0 e = scan_at bs (p + char_len (drop p bs)) 0 0"
proof -
  let ?a = "unat (bs ! p)"
  have nc: "128 \<le> ?a \<Longrightarrow> 194 \<le> ?a \<Longrightarrow> begun bs p (Suc p)"
    using p by (intro begun_start) (auto simp: cont_def)
  note go = scan_at_go [OF p, of 0 _ e]
  consider "?a < 128" | "128 \<le> ?a" "?a < 194" | "194 \<le> ?a" "?a < 224" | "?a = 224" | "?a = 237"
    | "224 < ?a" "?a < 240" "?a \<noteq> 237" | "?a = 240" | "240 < ?a" "?a < 244" | "?a = 244" | "244 < ?a"
    by linarith
  then show ?thesis
  proof cases
    case 1
    with p go [of 0] show ?thesis by (simp add: char_len_def entry_range)
  next
    case 2
    with p scan_at_stop [OF p, of 0 e] show ?thesis by (simp add: char_len_def entry_range stuck_def)
  next
    case 3
    with p go [of 1] tail_last [OF nc, of 1, unfolded One_nat_def] show ?thesis
      by (auto simp: char_len_def entry_range less_diff_conv add_3)
  next
    case 4
    with p go [of 2] tail_two [OF nc, of 2 2 "\<lambda>b. 160 \<le> unat b"] show ?thesis
      by (auto simp: char_len_def entry_range less_diff_conv add_3)
  next
    case 5
    with p go [of 7] tail_seven [OF nc, of 7] show ?thesis
      by (auto simp: char_len_def entry_range less_diff_conv add_3)
  next
    case 6
    with p go [of 3] tail_two [OF nc, of 3 3 "\<lambda>b. True"] show ?thesis
      by (auto simp: char_len_def entry_range less_diff_conv add_3)
  next
    case 7
    with p go [of 4] tail_three [OF nc, of 4 4 "\<lambda>b. 144 \<le> unat b"] show ?thesis
      by (auto simp: char_len_def entry_range less_diff_conv add_3)
  next
    case 8
    with p go [of 5] tail_three [OF nc, of 5 5 "\<lambda>b. True"] show ?thesis
      by (auto simp: char_len_def entry_range less_diff_conv add_3)
  next
    case 9
    with p go [of 6] tail_three [OF nc, of 6 6 "\<lambda>b. unat b < 144"] show ?thesis
      by (auto simp: char_len_def entry_range less_diff_conv add_3)
  next
    case 10
    with p scan_at_stop [OF p, of 0 e] show ?thesis by (simp add: char_len_def entry_range stuck_def)
  qed
qed

section \<open>The longest prefix of whole characters\<close>

function text_len :: "bytes \<Rightarrow> nat" where
  "text_len xs =
     (if char_len xs = 0 then 0 else char_len xs + text_len (drop (char_len xs) xs))"
  by auto
termination
  by (relation "measure length") (auto intro!: diff_less char_len_pos)

declare text_len.simps [simp del]

lemma text_len_stop: "char_len xs = 0 \<Longrightarrow> text_len xs = 0"
  by (subst text_len.simps) simp

lemma text_len_go: "char_len xs \<noteq> 0 \<Longrightarrow> text_len xs = char_len xs + text_len (drop (char_len xs) xs)"
  by (subst text_len.simps) simp

lemma text_len_Nil [simp]: "text_len [] = 0"
  by (rule text_len_stop) (simp add: char_len_def)

lemma text_len_le: "text_len xs \<le> length xs"
proof (induction xs rule: text_len.induct)
  case (1 xs)
  then show ?case
    using char_len_le [of xs] by (subst text_len.simps) auto
qed

text \<open>Where a scan from the start of a character ends, and why.\<close>

lemma scan_at_text_len:
  "p \<le> length bs \<Longrightarrow>
     snd (scan_at bs p 0 0) = int (p + text_len (drop p bs)) \<and>
     fst (scan_at bs p 0 0) \<in> {kExitOK, XX, RJ}"
proof (induction "length bs - p" arbitrary: p rule: less_induct)
  case less
  let ?k = "char_len (drop p bs)"
  show ?case
  proof (cases "p = length bs")
    case True
    then show ?thesis by (simp add: scan_at_end)
  next
    case False
    with less.prems have p: "p < length bs" by simp
    note sc = scan_char [OF p, of 0]
    show ?thesis
    proof (cases "?k = 0")
      case True
      with sc have "stuck p (scan_at bs p 0 0)" by simp
      then show ?thesis using True by (auto simp: stuck_def text_len_stop)
    next
      case k: False
      have le: "p + ?k \<le> length bs" using char_len_le [of "drop p bs"] p by simp
      have "text_len (drop p bs) = ?k + text_len (drop (p + ?k) bs)"
        using text_len_go [OF k] by (simp add: add.commute)
      with less.hyps [of "p + ?k"] le k p sc show ?thesis by simp
    qed
  qed
qed

text \<open>The fast paths skip only bytes below 128, which are characters of their own.\<close>

lemma char_len_ascii: "xs \<noteq> [] \<Longrightarrow> unat (xs ! 0) < 128 \<Longrightarrow> char_len xs = 1"
  by (simp add: char_len_def)

lemma text_len_ascii:
  assumes "p \<le> q" "q \<le> length bs" "\<And>i. p \<le> i \<Longrightarrow> i < q \<Longrightarrow> unat (bs ! i) < 128"
  shows "p + text_len (drop p bs) = q + text_len (drop q bs)"
  using assms
proof (induction q)
  case (Suc q)
  show ?case
  proof (cases "p = Suc q")
    case False
    with Suc have "p + text_len (drop p bs) = q + text_len (drop q bs)" by simp
    moreover have "char_len (drop q bs) = 1"
      using Suc.prems False by (intro char_len_ascii) auto
    then have "text_len (drop q bs) = 1 + text_len (drop 1 (drop q bs))"
      using text_len_go [of "drop q bs"] by simp
    ultimately show ?thesis by simp
  qed simp
qed simp

text \<open>A position the fast paths may reach from \<open>p\<close>.\<close>

definition ascii_to :: "bytes \<Rightarrow> nat \<Rightarrow> nat \<Rightarrow> bool" where
  "ascii_to bs p q \<longleftrightarrow> p \<le> q \<and> q \<le> length bs \<and> (\<forall>i. p \<le> i \<and> i < q \<longrightarrow> unat (bs ! i) < 128)"

lemma ascii_to_refl: "p \<le> length bs \<Longrightarrow> ascii_to bs p p"
  by (simp add: ascii_to_def)

lemma ascii_to_trans: "ascii_to bs p q \<Longrightarrow> ascii_to bs q r \<Longrightarrow> ascii_to bs p r"
  by (meson ascii_to_def le_trans linorder_not_less)

lemma ascii_to_Suc: "p < length bs \<Longrightarrow> unat (bs ! p) < 128 \<Longrightarrow> ascii_to bs p (Suc p)"
  by (auto simp: ascii_to_def less_Suc_eq_le dest: antisym)

lemma ascii_to_le: "ascii_to bs p q \<Longrightarrow> q \<le> length bs"
  by (simp add: ascii_to_def)

lemma ascii_to_text_len: "ascii_to bs p q \<Longrightarrow> p + text_len (drop p bs) = q + text_len (drop q bs)"
  by (auto simp: ascii_to_def intro: text_len_ascii)

lemma fast_at_0: "fast_at nonsurr bs i = 0 \<longleftrightarrow> unat (bs ! i) < 128"
  by (simp add: fast_range)

lemma byte_high_bit: "bit (b :: byte) 7 \<longleftrightarrow> \<not> unat b < 128"
  by (rule byte_cases [where P = "\<lambda>b. bit b 7 \<longleftrightarrow> \<not> unat b < 128"]) code_simp

lemma load32_high:
  assumes "load32 bs i AND 0x80808080 = 0" "i + 4 \<le> length bs"
  shows "ascii_to bs i (i + 4)"
proof -
  have "unat (bs ! (i + k)) < 128" if "k < 4" for k
  proof -
    have "bit (0x80808080 :: u32) (8 * k + 7)" using that by (auto simp: less_Suc_eq numeral_eq_Suc)
    then have "\<not> bit (load32 bs i) (8 * k + 7)"
      using assms(1) by (metis bit_and_iff bit_0_eq bot_apply bot_bool_def)
    moreover have "(8 * k + 7) div 8 = k" "(8 * k + 7) mod 8 = 7" by simp_all
    ultimately have "\<not> bit (bs ! (i + k)) 7"
      using that assms(2) by (simp add: load32_def bit_load_le)
    then show ?thesis by (simp add: byte_high_bit)
  qed
  then have "unat (bs ! j) < 128" if "i \<le> j" "j < i + 4" for j
    using that by (metis le_add_diff_inverse nat_add_left_cancel_less)
  then show ?thesis using assms(2) by (auto simp: ascii_to_def)
qed

lemma load32_pair:
  assumes "load32 bs i AND 0x80808080 = 0" "load32 bs (i + 4) AND 0x80808080 = 0" "i + 8 \<le> length bs"
  shows "ascii_to bs i (i + 8)"
proof -
  have "ascii_to bs i (i + 4)" using assms by (intro load32_high) auto
  moreover have "ascii_to bs (i + 4) (i + 4 + 4)" using assms by (intro load32_high) auto
  moreover have "i + 4 + 4 = i + 8" by simp
  ultimately show ?thesis by (metis ascii_to_trans)
qed

lemma or_zero_byte: "(a :: byte) OR b = 0 \<longleftrightarrow> a = 0 \<and> b = 0"
  by (auto simp: bit_eq_iff bit_simps)

lemma srclimit8_le: "src < srclimit8 bs \<Longrightarrow> src + 8 \<le> length bs"
  by (auto simp: srclimit8_def split: if_splits)

lemma ascii_to_4:
  assumes "unat (bs ! p) < 128" "unat (bs ! (p + 1)) < 128" "unat (bs ! (p + 2)) < 128"
    "unat (bs ! (p + 3)) < 128" "p + 4 \<le> length bs"
  shows "ascii_to bs p (p + 4)"
proof -
  have "unat (bs ! i) < 128" if "p \<le> i" "i < p + 4" for i
  proof -
    from that have "i = p \<or> i = p + 1 \<or> i = p + 2 \<or> i = p + 3" by auto
    with assms show ?thesis by auto
  qed
  with assms show ?thesis by (simp add: ascii_to_def)
qed

lemma ascii_to_8:
  assumes "ascii_to bs p (p + 4)" "unat (bs ! (p + 4)) < 128" "unat (bs ! (p + 5)) < 128"
    "unat (bs ! (p + 6)) < 128" "unat (bs ! (p + 7)) < 128" "p + 8 \<le> length bs"
  shows "ascii_to bs p (p + 8)"
proof -
  have "unat (bs ! i) < 128" if "p \<le> i" "i < p + 8" for i
  proof -
    from that have "i < p + 4 \<or> i = p + 4 \<or> i = p + 5 \<or> i = p + 6 \<or> i = p + 7" by auto
    with assms that show ?thesis by (auto simp: ascii_to_def)
  qed
  with assms show ?thesis by (simp add: ascii_to_def)
qed

lemma skip_to_aligned_ascii: "src \<le> length bs \<Longrightarrow> ascii_to bs src (skip_to_aligned nonsurr addr bs src)"
proof (induction nonsurr addr bs src rule: skip_to_aligned.induct)
  case (1 addr bs src)
  then show ?case
    by (subst skip_to_aligned.simps)
      (auto simp: fast_at_0 ascii_to_refl simp del: nonsurr_sel intro: ascii_to_trans ascii_to_Suc)
qed


lemma skip_eights_ascii: "src \<le> length bs \<Longrightarrow> ascii_to bs src (skip_eights nonsurr bs src)"
proof (induction "length bs - src" arbitrary: src rule: less_induct)
  case less
  show ?case
  proof (cases "src < srclimit8 bs")
    case False
    with less.prems show ?thesis by (subst skip_eights.simps) (simp add: ascii_to_refl)
  next
    case True
    then have le: "src + 8 \<le> length bs" by (rule srclimit8_le)
    let ?s = "load32 bs src" and ?t = "load32 bs (src + 4)"
    let ?z = "\<lambda>i. fast_at nonsurr bs (src + i)"
    let ?temp = "(?s - 0x20202020) OR ?s OR (?t - 0x20202020) OR ?t"
    have go: "ascii_to bs src (skip_eights nonsurr bs (src + 8))"
      if "ascii_to bs src (src + 8)"
      using less.hyps [of "src + 8"] le that by (auto intro: ascii_to_trans)
    have eq: "skip_eights nonsurr bs src =
        (if ?temp AND 0x80808080 \<noteq> 0 then
           (if (?z 0 OR ?z 1) OR (?z 2 OR ?z 3) \<noteq> 0 then src
            else if (?z 4 OR ?z 5) OR (?z 6 OR ?z 7) \<noteq> 0 then src + 4
            else skip_eights nonsurr bs (src + 8))
         else skip_eights nonsurr bs (src + 8))"
      using True by (subst skip_eights.simps) (simp add: Let_def)
    consider (fast) "?temp AND 0x80808080 = 0"
      | (stop) "?temp AND 0x80808080 \<noteq> 0" "(?z 0 OR ?z 1) OR (?z 2 OR ?z 3) \<noteq> 0"
      | (half) "?temp AND 0x80808080 \<noteq> 0" "(?z 0 OR ?z 1) OR (?z 2 OR ?z 3) = 0"
          "(?z 4 OR ?z 5) OR (?z 6 OR ?z 7) \<noteq> 0"
      | (slow) "?temp AND 0x80808080 \<noteq> 0" "(?z 0 OR ?z 1) OR (?z 2 OR ?z 3) = 0"
          "(?z 4 OR ?z 5) OR (?z 6 OR ?z 7) = 0" by blast
    then show ?thesis
    proof cases
      case fast
      then have "?s AND 0x80808080 = 0" "?t AND 0x80808080 = 0"
        by (auto simp: bit_eq_iff bit_simps)
      then have "ascii_to bs src (src + 8)"
        using le by (rule load32_pair)
      then show ?thesis using go fast by (simp add: eq)
    next
      case stop
      then show ?thesis using less.prems by (simp add: eq ascii_to_refl)
    next
      case half
      then have "ascii_to bs src (src + 4)"
        using le by (intro ascii_to_4) (auto simp: or_zero_byte fast_at_0 simp del: nonsurr_sel)
      then show ?thesis using half by (simp add: eq)
    next
      case slow
      then have "ascii_to bs src (src + 4)"
        using le by (intro ascii_to_4) (auto simp: or_zero_byte fast_at_0 simp del: nonsurr_sel)
      then have "ascii_to bs src (src + 8)"
        using slow le by (intro ascii_to_8) (auto simp: or_zero_byte fast_at_0 simp del: nonsurr_sel)
      then show ?thesis using go slow by (simp add: eq)
    qed
  qed
qed


lemma ascii_to_aligned_ascii: "src \<le> length bs \<Longrightarrow> ascii_to bs src (ascii_to_aligned addr bs src)"
proof (induction addr bs src rule: ascii_to_aligned.induct)
  case (1 addr bs src)
  then show ?case
    by (subst ascii_to_aligned.simps)
      (auto simp: ascii_to_refl word_less_nat_alt intro: ascii_to_trans ascii_to_Suc)
qed

lemma ascii_rest_ascii: "src \<le> length bs \<Longrightarrow> ascii_to bs src (ascii_rest bs src)"
proof (induction bs src rule: ascii_rest.induct)
  case (1 bs src)
  then show ?case
    by (subst ascii_rest.simps)
      (auto simp: ascii_to_refl word_less_nat_alt intro: ascii_to_trans ascii_to_Suc)
qed

lemma ascii_eights_ascii: "src \<le> length bs \<Longrightarrow> ascii_to bs src (ascii_eights bs src)"
proof (induction bs src rule: ascii_eights.induct)
  case (1 bs src)
  let ?s = "load32 bs src" and ?t = "load32 bs (src + 4)"
  show ?case
  proof (cases "src < srclimit8 bs \<and> (?s OR ?t) AND 0x80808080 = 0")
    case True
    then have le: "src + 8 \<le> length bs" by (simp add: srclimit8_le)
    from True have "?s AND 0x80808080 = 0" "?t AND 0x80808080 = 0"
      by (auto simp: bit_eq_iff bit_simps)
    then have "ascii_to bs src (src + 8)" using le by (rule load32_pair)
    with 1 True le show ?thesis
      by (subst ascii_eights.simps) (auto intro: ascii_to_trans)
  next
    case False
    with 1 show ?thesis by (subst ascii_eights.simps) (auto simp: ascii_to_refl)
  qed
qed

lemma skip_ascii_ascii:
  assumes "src \<le> length bs"
  shows "ascii_to bs src (skip_ascii addr bs src)"
proof -
  let ?p = "ascii_to_aligned addr bs src"
  let ?q = "if (addr + ?p) mod 8 = 0 then ascii_eights bs ?p else ?p"
  have p: "ascii_to bs src ?p" using assms by (rule ascii_to_aligned_ascii)
  then have "ascii_to bs ?p ?q" by (auto intro: ascii_eights_ascii ascii_to_refl dest: ascii_to_le)
  moreover from this have "ascii_to bs ?q (ascii_rest bs ?q)"
    by (blast intro: ascii_rest_ascii dest: ascii_to_le)
  ultimately show ?thesis using p unfolding skip_ascii_def Let_def by (meson ascii_to_trans)
qed

section \<open>The scan as a whole\<close>

lemma scan_step_text_len:
  assumes "src \<le> length bs"
  shows "snd (scan_step nonsurr addr bs src) = int (src + text_len (drop src bs)) \<and>
     fst (scan_step nonsurr addr bs src) \<in> {kExitOK, XX, RJ}"
proof -
  let ?p = "skip_to_aligned nonsurr addr bs src"
  let ?q = "if (addr + ?p) mod 8 = 0 then skip_eights nonsurr bs ?p else ?p"
  have p: "ascii_to bs src ?p" using assms by (rule skip_to_aligned_ascii)
  then have "?p \<le> length bs" by (rule ascii_to_le)
  then have "ascii_to bs ?p ?q" by (auto intro: skip_eights_ascii ascii_to_refl)
  with p have q: "ascii_to bs src ?q" by (rule ascii_to_trans)
  have "scan_step nonsurr addr bs src = scan_at bs ?q 0 0"
    by (simp add: scan_step_def scan_at_def Let_def)
  with scan_at_text_len [OF ascii_to_le [OF q]] ascii_to_text_len [OF q] show ?thesis by simp
qed

lemma not_again: "e \<in> {kExitOK, XX, RJ} \<Longrightarrow> e \<noteq> kExitDoAgain"
  by (auto simp: kExitOK_def kExitIllegalStructure_def kExitReject_def kExitDoAgain_def)

lemma UTF8GenericScan_text_len:
  "\<exists>e. UTF8GenericScan nonsurr addr bs = Some (e, int (text_len bs)) \<and> e \<in> {kExitOK, XX, RJ}"
proof (cases "bs = []")
  case True
  then show ?thesis by (simp add: UTF8GenericScan_def)
next
  case False
  with scan_step_text_len [of 0 bs addr] not_again show ?thesis
    by (cases "scan_step nonsurr addr bs 0")
      (simp add: UTF8GenericScan_def scan_again.simps [of nonsurr addr bs 0])
qed

lemma UTF8GenericScanFastAscii_text_len:
  "\<exists>e. UTF8GenericScanFastAscii nonsurr addr bs = Some (e, int (text_len bs)) \<and> e \<in> {kExitOK, XX, RJ}"
proof (cases "bs = []")
  case True
  then show ?thesis by (simp add: UTF8GenericScanFastAscii_def)
next
  case False
  let ?n = "skip_ascii addr bs 0"
  have "ascii_to bs 0 ?n" by (simp add: skip_ascii_ascii)
  from ascii_to_text_len [OF this] have n: "text_len bs = ?n + text_len (drop ?n bs)" by simp
  obtain e where "UTF8GenericScan nonsurr (addr + ?n) (drop ?n bs) = Some (e, int (text_len (drop ?n bs)))"
    "e \<in> {kExitOK, XX, RJ}"
    using UTF8GenericScan_text_len by blast
  with not_again [of e] n False show ?thesis
    by (simp add: UTF8GenericScanFastAscii_def ascii_then_scan.simps [of nonsurr addr bs 0] Let_def)
qed

lemma Spn_text_len: "UTF8SpnStructurallyValid True addr bs = Some (int (text_len bs))"
  using UTF8GenericScanFastAscii_text_len [of addr bs] by (auto simp: UTF8SpnStructurallyValid_def)

section \<open>The characters are the encodings of the scalar values\<close>

lemma unat_of_nat_byte: "n < 256 \<Longrightarrow> unat (of_nat n :: byte) = n"
  by (simp add: unsigned_of_nat take_bit_nat_eq_self)

lemma mod_below:
  assumes "n div 64 = k" "n < 64 * k + m"
  shows "n mod 64 < (m :: nat)"
  using div_mult_mod_eq [of n 64] assms by linarith

lemma char_len_digits:
  "2 \<le> x \<Longrightarrow> x < 32 \<Longrightarrow> z < 64 \<Longrightarrow> char_len (of_nat (192 + x) # of_nat (128 + z) # r) = 2"
  "x < 16 \<Longrightarrow> y < 64 \<Longrightarrow> z < 64 \<Longrightarrow> (x = 0 \<Longrightarrow> 32 \<le> y) \<Longrightarrow> (x = 13 \<Longrightarrow> y < 32) \<Longrightarrow>
    char_len (of_nat (224 + x) # of_nat (128 + y) # of_nat (128 + z) # r) = 3"
  "x < 5 \<Longrightarrow> y < 64 \<Longrightarrow> z < 64 \<Longrightarrow> v < 64 \<Longrightarrow> (x = 0 \<Longrightarrow> 16 \<le> y) \<Longrightarrow> (x = 4 \<Longrightarrow> y < 16) \<Longrightarrow>
    char_len (of_nat (240 + x) # of_nat (128 + y) # of_nat (128 + z) # of_nat (128 + v) # r) = 4"
  by (auto simp: char_len_def unat_of_nat_byte cont_def Let_def simp del: of_nat_add)

lemma char_len_encode:
  assumes "scalar c"
  shows "char_len (utf8_encode c @ r) = length (utf8_encode c)"
proof -
  have c: "c < 1114112" "c < 55296 \<or> 57344 \<le> c" using assms by (auto simp: scalar_def)
  consider "c < 128" | "128 \<le> c" "c < 2048" | "2048 \<le> c" "c < 65536" | "65536 \<le> c" by linarith
  then show ?thesis
  proof cases
    case 1
    then show ?thesis by (simp add: utf8_encode_def char_len_def unat_of_nat_byte Let_def)
  next
    case 2
    then have "c div 64 < 32" "2 \<le> c div 64" by auto
    then show ?thesis using 2 by (simp add: utf8_encode_def char_len_digits del: of_nat_add)
  next
    case 3
    have "c div 4096 < 16" "c div 4096 = 0 \<Longrightarrow> 32 \<le> c div 64 mod 64" using 3 by auto
    moreover have "c div 4096 \<noteq> 13" if "57344 \<le> c" using that by auto
    then have "c div 4096 = 13 \<Longrightarrow> c div 64 mod 64 < 32"
      using c(2) by (intro mod_below [of _ 13]) (auto simp flip: div_mult2_eq)
    ultimately show ?thesis using 3 by (simp add: utf8_encode_def char_len_digits del: of_nat_add)
  next
    case 4
    have "c div 262144 < 5" using c by auto
    moreover have "c div 262144 = 0 \<Longrightarrow> 16 \<le> c div 4096 mod 64" using 4 by auto
    moreover have "c div 262144 = 4 \<Longrightarrow> c div 4096 mod 64 < 16"
      using c(1) by (intro mod_below [of _ 4]) (auto simp flip: div_mult2_eq)
    ultimately show ?thesis using 4 by (simp add: utf8_encode_def char_len_digits del: of_nat_add)
  qed
qed

text \<open>The scalar value a character encodes, from its digits to the base 64.\<close>

definition char_value :: "bytes \<Rightarrow> nat" where
  "char_value xs =
     (let b = (\<lambda>i. unat (xs ! i) - 128); a = unat (xs ! 0)
      in if a < 128 then a
         else if a < 224 then (a - 192) * 64 + b 1
         else if a < 240 then ((a - 224) * 64 + b 1) * 64 + b 2
         else (((a - 240) * 64 + b 1) * 64 + b 2) * 64 + b 3)"

lemma of_nat_unat_byte: "unat b = n \<Longrightarrow> of_nat n = (b :: byte)"
  by auto

lemma digits2:
  fixes x y :: nat
  assumes "y < 64"
  shows "(x * 64 + y) div 64 = x" "(x * 64 + y) mod 64 = y"
  using assms by simp_all

lemma encode_value_2:
  assumes "2 \<le> x" "x < 32" "y < 64"
  shows "scalar (x * 64 + y)" "utf8_encode (x * 64 + y) = [of_nat (192 + x), of_nat (128 + y)]"
proof -
  have "128 \<le> x * 64 + y" "x * 64 + y < 2048" using assms by linarith+
  then show "scalar (x * 64 + y)" "utf8_encode (x * 64 + y) = [of_nat (192 + x), of_nat (128 + y)]"
    by (simp_all add: scalar_def utf8_encode_def digits2 [OF assms(3)] assms(3) del: of_nat_add)
qed

lemma encode_value_3:
  assumes "x < 16" "y < 64" "z < 64" "x = 0 \<Longrightarrow> 32 \<le> y" "x = 13 \<Longrightarrow> y < 32"
  shows "scalar ((x * 64 + y) * 64 + z)"
    "utf8_encode ((x * 64 + y) * 64 + z) = [of_nat (224 + x), of_nat (128 + y), of_nat (128 + z)]"
proof -
  define c where "c = (x * 64 + y) * 64 + z"
  have e: "c div 64 = x * 64 + y" unfolding c_def by (rule digits2 [OF assms(3)])
  have f: "c div 4096 = c div 64 div 64" by (simp flip: div_mult2_eq)
  have d: "c div 4096 = x" "c div 64 mod 64 = y" unfolding f e by (rule digits2 [OF assms(2)])+
  have d': "c mod 64 = z" unfolding c_def by (rule digits2 [OF assms(3)])
  have "32 \<le> x * 64 + y" using assms(4) by (cases "x = 0") linarith+
  then have c: "2048 \<le> c" "c < 65536" unfolding c_def using assms(1-3) by simp_all
  then show "utf8_encode c = [of_nat (224 + x), of_nat (128 + y), of_nat (128 + z)]"
    unfolding utf8_encode_def d d' by simp
  consider "x < 13" | "x = 13" | "13 < x" by linarith
  then have "c < 55296 \<or> 57344 \<le> c" unfolding c_def using assms(2,3,5) by cases auto
  with c show "scalar c" by (auto simp: scalar_def)
qed

lemma encode_value_4:
  assumes "x < 5" "y < 64" "z < 64" "v < 64" "x = 0 \<Longrightarrow> 16 \<le> y" "x = 4 \<Longrightarrow> y < 16"
  shows "scalar (((x * 64 + y) * 64 + z) * 64 + v)"
    "utf8_encode (((x * 64 + y) * 64 + z) * 64 + v) =
       [of_nat (240 + x), of_nat (128 + y), of_nat (128 + z), of_nat (128 + v)]"
proof -
  define c where "c = ((x * 64 + y) * 64 + z) * 64 + v"
  have e: "c div 64 = (x * 64 + y) * 64 + z" unfolding c_def by (rule digits2 [OF assms(4)])
  have f: "c div 4096 = c div 64 div 64" "c div 262144 = c div 4096 div 64"
    by (simp_all flip: div_mult2_eq)
  have g: "c div 4096 = x * 64 + y" unfolding f e by (rule digits2 [OF assms(3)])
  have d: "c div 262144 = x" "c div 4096 mod 64 = y" unfolding f(2) g by (rule digits2 [OF assms(2)])+
  have d': "c div 64 mod 64 = z" unfolding e by (rule digits2 [OF assms(3)])
  have d'': "c mod 64 = v" unfolding c_def by (rule digits2 [OF assms(4)])
  have "16 \<le> x * 64 + y" using assms(5) by (cases "x = 0") linarith+
  then have c: "65536 \<le> c" unfolding c_def by simp
  then show "utf8_encode c = [of_nat (240 + x), of_nat (128 + y), of_nat (128 + z), of_nat (128 + v)]"
    unfolding utf8_encode_def d d' d'' by simp
  have "x * 64 + y < 272" using assms(1,2,6) by (cases "x = 4") linarith+
  then have "c < 1114112" unfolding c_def using assms(3,4) by simp
  with c show "scalar c" by (auto simp: scalar_def)
qed

lemma take_positions:
  "0 < length xs \<Longrightarrow> take 1 xs = [xs ! 0]"
  "1 < length xs \<Longrightarrow> take 2 xs = [xs ! 0, xs ! 1]"
  "2 < length xs \<Longrightarrow> take 3 xs = [xs ! 0, xs ! 1, xs ! 2]"
  "3 < length xs \<Longrightarrow> take 4 xs = [xs ! 0, xs ! 1, xs ! 2, xs ! 3]"
proof -
  have S: "n < length xs \<Longrightarrow> take (n + 1) xs = take n xs @ [xs ! n]" for n
    by (simp add: take_Suc_conv_app_nth)
  show one: "take 1 xs = [xs ! 0]" if "0 < length xs" using S [of 0] that by simp
  show two: "take 2 xs = [xs ! 0, xs ! 1]" if "1 < length xs"
  proof -
    from that have "0 < length xs" by (cases xs) auto
    from one [OF this] S [of 1] that show ?thesis by (simp add: numeral_2_eq_2)
  qed
  show three: "take 3 xs = [xs ! 0, xs ! 1, xs ! 2]" if "2 < length xs"
    using S [of 2] two that by (auto simp: numeral_3_eq_3)
  show "take 4 xs = [xs ! 0, xs ! 1, xs ! 2, xs ! 3]" if "3 < length xs"
    using S [of 3] three that by auto
qed

lemma lead_digit:
  fixes b :: byte
  assumes "k \<le> unat b"
  obtains x where "unat b = k + x" "b = of_nat (k + x)"
proof -
  from assms have "unat b = k + (unat b - k)" by simp
  from that [OF this of_nat_unat_byte [OF this, symmetric]] show thesis .
qed

lemma cont_digit:
  assumes "cont b"
  obtains y where "unat b = 128 + y" "y < 64" "b = of_nat (128 + y)"
proof -
  from assms have "128 \<le> unat b" "unat b < 192" by (simp_all add: cont_def)
  from this(1) obtain y where "unat b = 128 + y" "b = of_nat (128 + y)" by (rule lead_digit)
  with \<open>unat b < 192\<close> that show thesis by simp
qed

lemma char_value_encode:
  assumes "char_len xs \<noteq> 0"
  shows "scalar (char_value xs) \<and> take (char_len xs) xs = utf8_encode (char_value xs)"
proof -
  let ?a = "unat (xs ! 0)"
  let ?b = "\<lambda>i. unat (xs ! i) - 128"
  have ne: "xs \<noteq> []" using assms char_len_pos by blast
  consider "?a < 128" | "128 \<le> ?a" "?a < 224" | "224 \<le> ?a" "?a < 240" | "240 \<le> ?a" by linarith
  then show ?thesis
  proof cases
    case 1
    then show ?thesis using ne
      by (simp add: char_len_def char_value_def scalar_def utf8_encode_def take_positions [unfolded One_nat_def] Let_def)
  next
    case 2
    with assms ne have c: "194 \<le> ?a" "1 < length xs" "cont (xs ! 1)" "char_len xs = 2"
      by (auto simp: char_len_def Let_def split: if_splits)
    from c(1) have "192 \<le> ?a" by simp
    then obtain x where x: "?a = 192 + x" "xs ! 0 = of_nat (192 + x)" by (rule lead_digit)
    from c(3) obtain y where y: "unat (xs ! 1) = 128 + y" "y < 64" "xs ! 1 = of_nat (128 + y)"
      by (rule cont_digit)
    have "char_value xs = x * 64 + y" using 2 x(1) y(1) by (simp add: char_value_def Let_def)
    moreover have "2 \<le> x" "x < 32" using 2 c(1) x(1) by auto
    ultimately show ?thesis
      using encode_value_2 [of x y] y(2) x(2) y(3) c(4) take_positions(2) [OF c(2)] by simp
  next
    case 3
    with assms ne have c: "2 < length xs" "cont (xs ! 1)" "cont (xs ! 2)" "char_len xs = 3"
        "?a = 224 \<Longrightarrow> 160 \<le> unat (xs ! 1)" "?a = 237 \<Longrightarrow> unat (xs ! 1) < 160"
      by (auto simp: char_len_def Let_def split: if_splits)
    from 3(1) obtain x where x: "?a = 224 + x" "xs ! 0 = of_nat (224 + x)" by (rule lead_digit)
    from c(2) obtain y where y: "unat (xs ! 1) = 128 + y" "y < 64" "xs ! 1 = of_nat (128 + y)"
      by (rule cont_digit)
    from c(3) obtain z where z: "unat (xs ! 2) = 128 + z" "z < 64" "xs ! 2 = of_nat (128 + z)"
      by (rule cont_digit)
    have v: "char_value xs = (x * 64 + y) * 64 + z"
      using 3 x(1) y(1) z(1) by (simp add: char_value_def Let_def)
    have b: "x < 16" "x = 0 \<Longrightarrow> 32 \<le> y" "x = 13 \<Longrightarrow> y < 32" using 3 c(5,6) x(1) y(1) by auto
    note e = encode_value_3 [OF b(1) y(2) z(2) b(2,3)]
    show ?thesis unfolding v c(4) take_positions(3) [OF c(1)] x(2) y(3) z(3) using e by simp
  next
    case 4
    with assms ne have c: "?a < 245" "3 < length xs" "cont (xs ! 1)" "cont (xs ! 2)" "cont (xs ! 3)"
        "char_len xs = 4" "?a = 240 \<Longrightarrow> 144 \<le> unat (xs ! 1)" "?a = 244 \<Longrightarrow> unat (xs ! 1) < 144"
      by (auto simp: char_len_def Let_def split: if_splits)
    from 4(1) obtain x where x: "?a = 240 + x" "xs ! 0 = of_nat (240 + x)" by (rule lead_digit)
    from c(3) obtain y where y: "unat (xs ! 1) = 128 + y" "y < 64" "xs ! 1 = of_nat (128 + y)"
      by (rule cont_digit)
    from c(4) obtain z where z: "unat (xs ! 2) = 128 + z" "z < 64" "xs ! 2 = of_nat (128 + z)"
      by (rule cont_digit)
    from c(5) obtain u where u: "unat (xs ! 3) = 128 + u" "u < 64" "xs ! 3 = of_nat (128 + u)"
      by (rule cont_digit)
    have v: "char_value xs = ((x * 64 + y) * 64 + z) * 64 + u"
      using 4 x(1) y(1) z(1) u(1) by (simp add: char_value_def Let_def)
    have b: "x < 5" "x = 0 \<Longrightarrow> 16 \<le> y" "x = 4 \<Longrightarrow> y < 16" using 4 c(1,7,8) x(1) y(1) by auto
    note e = encode_value_4 [OF b(1) y(2) z(2) u(2) b(2,3)]
    show ?thesis unfolding v c(6) take_positions(4) [OF c(2)] x(2) y(3) z(3) u(3) using e by simp
  qed
qed

text \<open>The longest prefix of whole characters is text, and is the longest prefix that is.\<close>

lemma utf8_text_Nil: "utf8_text []"
  unfolding utf8_text_def by (intro exI [of _ "[]"]) simp

lemma utf8_text_encode: "scalar c \<Longrightarrow> utf8_text xs \<Longrightarrow> utf8_text (utf8_encode c @ xs)"
  unfolding utf8_text_def by (metis concat.simps(2) list.simps(9) list.pred_inject(2))

lemma utf8_text_append:
  assumes "utf8_text xs" "utf8_text ys"
  shows "utf8_text (xs @ ys)"
proof -
  from assms obtain cs ds where "list_all scalar cs" "xs = concat (map utf8_encode cs)"
    "list_all scalar ds" "ys = concat (map utf8_encode ds)" by (auto simp: utf8_text_def)
  then show ?thesis by (auto simp: utf8_text_def intro!: exI [of _ "cs @ ds"])
qed

lemma utf8_text_prefix: "utf8_text (take (text_len xs) xs)"
proof (induction xs rule: text_len.induct)
  case (1 xs)
  show ?case
  proof (cases "char_len xs = 0")
    case True
    then show ?thesis by (simp add: text_len_stop utf8_text_Nil)
  next
    case False
    with char_value_encode [OF False] 1 show ?thesis
      by (simp add: text_len_go take_add utf8_text_encode)
  qed
qed

lemma encode_not_Nil: "utf8_encode c \<noteq> []"
  by (simp add: utf8_encode_def)

lemma text_len_encoded:
  "list_all scalar cs \<Longrightarrow> text_len (concat (map utf8_encode cs) @ r) = length (concat (map utf8_encode cs)) + text_len r"
proof (induction cs)
  case (Cons c cs)
  then have l: "char_len (utf8_encode c @ concat (map utf8_encode cs) @ r) = length (utf8_encode c)"
    by (simp add: char_len_encode)
  with Cons text_len_go [of "utf8_encode c @ concat (map utf8_encode cs) @ r"] encode_not_Nil [of c]
  show ?case by simp
qed simp

lemma text_len_text: "utf8_text xs \<Longrightarrow> text_len (xs @ r) = length xs + text_len r"
  by (auto simp: utf8_text_def text_len_encoded)

lemma utf8_text_iff: "utf8_text xs \<longleftrightarrow> text_len xs = length xs"
  using text_len_text [of xs "[]"] utf8_text_prefix [of xs] by auto

lemma text_len_Max: "text_len xs = Max {m. m \<le> length xs \<and> utf8_text (take m xs)}"
proof (rule Max_eqI [symmetric])
  show "finite {m. m \<le> length xs \<and> utf8_text (take m xs)}" by simp
  show "text_len xs \<in> {m. m \<le> length xs \<and> utf8_text (take m xs)}"
    by (simp add: text_len_le utf8_text_prefix)
  fix m assume "m \<in> {m. m \<le> length xs \<and> utf8_text (take m xs)}"
  then have m: "m \<le> length xs" "utf8_text (take m xs)" by auto
  from text_len_text [OF m(2), of "drop m xs"] m(1) show "m \<le> text_len xs" by simp
qed

section \<open>Properties\<close>

text \<open>
  Property C15: The table scanner accepts exactly the text that is the encoding of a sequence of Unicode
  scalar values, that is neither overlong forms, nor surrogates, nor values beyond 0x10ffff, nor
  truncated characters; it returns on every text, whatever its alignment.
\<close>

theorem IsStructurallyValidUTF8_iff: "IsStructurallyValidUTF8 True addr bs = Some (utf8_text bs)"
  using UTF8GenericScanFastAscii_text_len [of addr bs]
  by (auto simp: IsStructurallyValidUTF8_def utf8_text_iff)

text \<open>
  The number of bytes \<open>UTF8SpnStructurallyValid\<close> reports is the length of the longest
  prefix that is UTF-8: the fast paths over groups of eight bytes skip nothing, and the back-up
  gives back exactly a character that is not complete.
\<close>

theorem UTF8SpnStructurallyValid_Max:
  "UTF8SpnStructurallyValid True addr bs =
     Some (int (Max {m. m \<le> length bs \<and> utf8_text (take m bs)}))"
  unfolding Spn_text_len text_len_Max ..


text \<open>Coercion: what the loop appends to text is text, as long as what is left of the source.\<close>

definition coerced_bytes :: "bytes \<Rightarrow> coerced \<Rightarrow> bytes" where
  "coerced_bytes src r = (case r of Isrc \<Rightarrow> src | Idst d \<Rightarrow> d)"

lemma utf8_text_ascii: "unat c < 128 \<Longrightarrow> utf8_text [c]"
  by (simp add: utf8_text_iff text_len_go char_len_ascii)

lemma coerce_loop_text:
  assumes "unat rc < 128" "utf8_text dst" "length dst = src" "src \<le> length bs"
    "\<forall>i < src. dst ! i = bs ! i \<or> dst ! i = rc"
  shows "\<exists>d. coerce_loop True addr rc bs src dst = Some d \<and> utf8_text d \<and> length d = length bs \<and>
    (\<forall>i<length bs. d ! i = bs ! i \<or> d ! i = rc)"
  using assms
proof (induction "length bs - src" arbitrary: src dst rule: less_induct)
  case less
  show ?case
  proof (cases "src < length bs")
    case False
    with less.prems show ?thesis by (subst coerce_loop.simps) auto
  next
    case True
    let ?r = "drop (Suc src) bs"
    let ?n = "text_len ?r"
    let ?d = "dst @ [rc] @ take ?n ?r"
    have n: "Suc src + ?n \<le> length bs" using text_len_le [of ?r] True by simp
    have "coerce_loop True addr rc bs src dst = coerce_loop True addr rc bs (Suc src + ?n) ?d"
      using True by (subst coerce_loop.simps) (simp add: Spn_text_len)
    moreover have "utf8_text ?d"
      using less.prems by (intro utf8_text_append utf8_text_ascii utf8_text_prefix)
    moreover have "length ?d = Suc src + ?n" using less.prems n by simp
    moreover have "\<forall>i<Suc src + ?n. ?d ! i = bs ! i \<or> ?d ! i = rc"
    proof (intro allI impI)
      fix i assume i: "i < Suc src + ?n"
      consider "i < src" | "i = src" | "src < i" by linarith
      then show "?d ! i = bs ! i \<or> ?d ! i = rc"
      proof cases
        case 1 then show ?thesis using less.prems by (simp add: nth_append)
      next
        case 2 then show ?thesis using less.prems by (simp add: nth_append)
      next
        case 3
        then obtain j where j: "i = Suc src + j" using less_iff_Suc_add by auto
        then show ?thesis using less.prems i n by (simp add: nth_append)
      qed
    qed
    ultimately show ?thesis using less.hyps [of "Suc src + ?n" ?d] less.prems(1) True n by simp
  qed
qed

text \<open>
  Coercion to UTF-8 always returns text of the same length, which differs from the source
  only where it has the replacement character, and it returns the source itself exactly if that is
  UTF-8 already.
\<close>

theorem UTF8CoerceToStructurallyValid_text:
  assumes "unat rc < 128"
  shows "\<exists>r. UTF8CoerceToStructurallyValid True addr bs rc = Some r \<and>
    utf8_text (coerced_bytes bs r) \<and> length (coerced_bytes bs r) = length bs \<and>
    (\<forall>i<length bs. coerced_bytes bs r ! i \<in> {bs ! i, rc}) \<and> (r = Isrc \<longleftrightarrow> utf8_text bs)"
proof (cases "text_len bs = length bs")
  case True
  then show ?thesis
    by (simp add: UTF8CoerceToStructurallyValid_def Spn_text_len utf8_text_iff coerced_bytes_def)
next
  case False
  let ?n = "text_len bs"
  from coerce_loop_text [OF assms utf8_text_prefix, of bs ?n bs addr] text_len_le [of bs]
  obtain d where "coerce_loop True addr rc bs ?n (take ?n bs) = Some d" "utf8_text d"
    "length d = length bs" "\<forall>i<length bs. d ! i = bs ! i \<or> d ! i = rc" by auto
  with False show ?thesis
    by (auto simp: UTF8CoerceToStructurallyValid_def Spn_text_len utf8_text_iff coerced_bytes_def)
qed

theorem UTF8CoerceToStructurallyValid_text_witness:
  "\<exists>r. UTF8CoerceToStructurallyValid True 3 [0x61, 0xE2, 0x82, 0xC3] 0x20 = Some r \<and>
    utf8_text (coerced_bytes [0x61, 0xE2, 0x82, 0xC3] r) \<and>
    length (coerced_bytes [0x61, 0xE2, 0x82, 0xC3] r) = length [0x61, 0xE2, 0x82, 0xC3 :: byte] \<and>
    (\<forall>i<length [0x61, 0xE2, 0x82, 0xC3 :: byte].
       coerced_bytes [0x61, 0xE2, 0x82, 0xC3] r ! i \<in> {[0x61, 0xE2, 0x82, 0xC3] ! i, 0x20}) \<and>
    (r = Isrc \<longleftrightarrow> utf8_text [0x61, 0xE2, 0x82, 0xC3])"
  by (rule UTF8CoerceToStructurallyValid_text) simp

end
