(* ===== verification/Streams.thy ===== *)
theory Streams
  imports Prelude
begin

text \<open>
  The output streams of the vendored protocol buffers that hand out their memory,
  \<^verbatim>\<open>io/zero_copy_stream.h\<close> and \<^verbatim>\<open>io/zero_copy_stream_impl_lite.cc\<close>: the interface
  \<^verbatim>\<open>ZeroCopyOutputStream\<close> as a record of operations with its documented contract as a locale, and the
  two streams that write to memory, \<^verbatim>\<open>ArrayOutputStream\<close> and \<^verbatim>\<open>StringOutputStream\<close>, as providers of it.

  A caller of \<open>Next\<close> gets a pointer and a size. The pointer is the start of the buffer that was handed
  out last; \<open>store\<close> writes at an offset from it, and has no value where the write would leave the
  buffer. An operation without a value stands for a failed check, which ends the process, or for a
  write out of bounds. The state of a stream includes the size of the buffer the caller still holds.
\<close>

section \<open>The interface\<close>

record 's ops =
  zc_Next :: "'s \<Rightarrow> nat option \<times> 's"
  zc_BackUp :: "nat \<Rightarrow> 's \<Rightarrow> 's option"
  zc_ByteCount :: "'s \<Rightarrow> nat"
  zc_store :: "nat \<Rightarrow> bytes \<Rightarrow> 's \<Rightarrow> 's option"
  zc_content :: "'s \<Rightarrow> bytes"
  zc_held :: "'s \<Rightarrow> nat"

text \<open>
  \<open>content\<close> is what the stream holds up to the end of the buffer handed out last, \<open>held\<close> the size of
  that buffer. \<open>patched\<close> is the contents with bytes stored at an offset into the last buffer.
\<close>

definition patched :: "bytes \<Rightarrow> nat \<Rightarrow> bytes \<Rightarrow> bytes" where
  "patched xs i bs = take i xs @ bs @ drop (i + length bs) xs"

lemma length_patched [simp]: "i + length bs \<le> length xs \<Longrightarrow> length (patched xs i bs) = length xs"
  by (simp add: patched_def)

lemma patched_Nil [simp]: "patched xs i [] = xs"
  by (simp add: patched_def)

lemma take_patched:
  "i + length bs \<le> length xs \<Longrightarrow> take (i + length bs) (patched xs i bs) = take i xs @ bs"
  by (simp add: patched_def)

lemma take_patched_le: "k \<le> i \<Longrightarrow> i \<le> length xs \<Longrightarrow> take k (patched xs i bs) = take k xs"
  by (simp add: patched_def)

lemma drop_patched_ge:
  "i + length bs \<le> k \<Longrightarrow> i + length bs \<le> length xs \<Longrightarrow> drop k (patched xs i bs) = drop k xs"
  by (simp add: patched_def)

lemma patched_take:
  assumes "i + length bs \<le> n" "n \<le> length xs"
  shows "take n (patched xs i bs) = patched (take n xs) i bs"
proof -
  have "take (n - (i + length bs)) (drop (i + length bs) xs) = drop (i + length bs) (take n xs)"
    by (simp add: drop_take)
  moreover have "min i n = i" "n - i - length bs = n - (i + length bs)" using assms by simp_all
  ultimately show ?thesis using assms by (simp add: patched_def)
qed

text \<open>
  The contract. \<open>Next\<close> hands out a buffer behind what the stream has, or refuses; a buffer may be
  empty, but not for ever. \<open>BackUp\<close> gives back the end of the buffer handed out last.
\<close>

locale zero_copy_output =
  fixes Z :: "'s ops" and ok :: "'s \<Rightarrow> bool" and empties :: "'s \<Rightarrow> nat"
  assumes held: "ok s \<Longrightarrow> zc_held Z s \<le> length (zc_content Z s)"
    and count: "ok s \<Longrightarrow> zc_ByteCount Z s = length (zc_content Z s)"
    and next_some: "\<lbrakk>ok s; zc_Next Z s = (Some n, s')\<rbrakk> \<Longrightarrow>
          ok s' \<and> zc_held Z s' = n \<and> length (zc_content Z s') = length (zc_content Z s) + n \<and>
          take (length (zc_content Z s)) (zc_content Z s') = zc_content Z s"
    and next_empty: "\<lbrakk>ok s; zc_Next Z s = (Some 0, s')\<rbrakk> \<Longrightarrow> empties s' < empties s"
    and next_none: "\<lbrakk>ok s; zc_Next Z s = (None, s')\<rbrakk> \<Longrightarrow> ok s' \<and> zc_content Z s' = zc_content Z s"
    and back_up: "\<lbrakk>ok s; k \<le> zc_held Z s\<rbrakk> \<Longrightarrow>
          \<exists>s'. zc_BackUp Z k s = Some s' \<and> ok s' \<and> zc_content Z s' = take (length (zc_content Z s) - k) (zc_content Z s)"
    and store: "\<lbrakk>ok s; i + length bs \<le> zc_held Z s\<rbrakk> \<Longrightarrow>
          \<exists>s'. zc_store Z i bs s = Some s' \<and> ok s' \<and> zc_held Z s' = zc_held Z s \<and>
            zc_content Z s' = patched (zc_content Z s) (length (zc_content Z s) - zc_held Z s + i) bs"

section \<open>An array\<close>

record array_stream =
  aos_data :: bytes
  aos_size :: nat
  aos_block_size :: nat
  aos_position :: nat
  aos_last_returned_size :: nat

definition ArrayOutputStream :: "bytes \<Rightarrow> nat \<Rightarrow> int \<Rightarrow> array_stream" where
  "ArrayOutputStream arr sz block_size =
     \<lparr> aos_data = arr, aos_size = sz,
       aos_block_size = (if block_size > 0 then nat block_size else sz),
       aos_position = 0, aos_last_returned_size = 0 \<rparr>"

definition aos_Next :: "array_stream \<Rightarrow> nat option \<times> array_stream" where
  "aos_Next s =
     (if aos_position s < aos_size s then
        (let n = min (aos_block_size s) (aos_size s - aos_position s)
         in (Some n, s\<lparr> aos_last_returned_size := n, aos_position := aos_position s + n \<rparr>))
      else (None, s\<lparr> aos_last_returned_size := 0 \<rparr>))"

text \<open>The checks of \<open>BackUp\<close>; a count is not negative here.\<close>

definition aos_BackUp :: "nat \<Rightarrow> array_stream \<Rightarrow> array_stream option" where
  "aos_BackUp count s =
     (if count \<le> aos_last_returned_size s then
        Some (s\<lparr> aos_position := aos_position s - count,
          aos_last_returned_size := aos_last_returned_size s - count \<rparr>)
      else None)"

definition aos_store :: "nat \<Rightarrow> bytes \<Rightarrow> array_stream \<Rightarrow> array_stream option" where
  "aos_store i bs s =
     (if i + length bs \<le> aos_last_returned_size s then
        Some (s\<lparr> aos_data := patched (aos_data s) (aos_position s - aos_last_returned_size s + i) bs \<rparr>)
      else None)"

definition array_ops :: "array_stream ops" where
  "array_ops = \<lparr> zc_Next = aos_Next, zc_BackUp = aos_BackUp, zc_ByteCount = aos_position, zc_store = aos_store,
     zc_content = (\<lambda>s. take (aos_position s) (aos_data s)), zc_held = aos_last_returned_size \<rparr>"

text \<open>The size of the array is fixed, and so is the memory behind it.\<close>

definition array_ok :: "nat \<Rightarrow> bytes \<Rightarrow> array_stream \<Rightarrow> bool" where
  "array_ok n rest s \<longleftrightarrow> aos_size s = n \<and> drop n (aos_data s) = rest \<and> aos_size s \<le> length (aos_data s) \<and> aos_position s \<le> aos_size s \<and>
     aos_last_returned_size s \<le> aos_position s \<and> (0 < aos_size s \<longrightarrow> 0 < aos_block_size s)"

lemma array_ok_new: "n \<le> length arr \<Longrightarrow> array_ok n (drop n arr) (ArrayOutputStream arr n b)"
  by (simp add: array_ok_def ArrayOutputStream_def)

lemma array_ops_sel [simp]:
  "zc_Next array_ops = aos_Next" "zc_BackUp array_ops = aos_BackUp" "zc_ByteCount array_ops = aos_position"
  "zc_store array_ops = aos_store" "zc_content array_ops s = take (aos_position s) (aos_data s)"
  "zc_held array_ops = aos_last_returned_size"
  by (simp_all add: array_ops_def)

interpretation array_stream: zero_copy_output array_ops "array_ok n rest" "\<lambda>_. 0"
proof unfold_locales
  fix s i and bs :: bytes assume s: "array_ok n rest s" and b: "i + length bs \<le> zc_held array_ops s"
  let ?p = "aos_position s - aos_last_returned_size s + i"
  have "take (aos_position s) (patched (aos_data s) ?p bs) = patched (take (aos_position s) (aos_data s)) ?p bs"
    using s b by (intro patched_take) (auto simp: array_ok_def)
  moreover have "drop n (patched (aos_data s) ?p bs) = drop n (aos_data s)"
    using s b by (intro drop_patched_ge) (auto simp: array_ok_def)
  moreover have "min (length (aos_data s)) (aos_position s) = aos_position s"
    using s by (simp add: array_ok_def)
  ultimately show "\<exists>s'. zc_store array_ops i bs s = Some s' \<and> array_ok n rest s' \<and> zc_held array_ops s' = zc_held array_ops s \<and>
      zc_content array_ops s' = patched (zc_content array_ops s) (length (zc_content array_ops s) - zc_held array_ops s + i) bs"
    using s b by (auto simp: aos_store_def array_ok_def)
next
  fix s k assume s: "array_ok n rest s" and "k \<le> zc_held array_ops s"
  moreover from s have "min (length (aos_data s)) (aos_position s) = aos_position s"
    by (simp add: array_ok_def)
  ultimately show "\<exists>s'. zc_BackUp array_ops k s = Some s' \<and> array_ok n rest s' \<and>
      zc_content array_ops s' = take (length (zc_content array_ops s) - k) (zc_content array_ops s)"
    by (auto simp: aos_BackUp_def array_ok_def min_def)
qed (auto simp: array_ok_def aos_Next_def Let_def split: if_splits)

section \<open>A string\<close>

text \<open>
  The stream grows the string to its capacity, or doubles it. The capacity after a string had to
  grow is the allocator's, a parameter.
\<close>

definition kMinimumSize :: nat where "kMinimumSize = 16"

record string_stream =
  sos_target :: bytes
  sos_capacity :: nat
  sos_held :: nat

definition StringOutputStream :: "bytes \<Rightarrow> nat \<Rightarrow> string_stream" where
  "StringOutputStream target capacity =
     \<lparr> sos_target = target, sos_capacity = capacity, sos_held = 0 \<rparr>"

text \<open>\<open>std::string::resize\<close>.\<close>

definition resize :: "nat \<Rightarrow> bytes \<Rightarrow> bytes" where
  "resize n xs = take n xs @ replicate (n - length xs) 0"

definition sos_Next :: "(nat \<Rightarrow> nat) \<Rightarrow> string_stream \<Rightarrow> nat option \<times> string_stream" where
  "sos_Next allocate s =
     (let old_size = length (sos_target s);
          wanted = (if old_size < sos_capacity s then sos_capacity s else old_size * 2);
          new_size = max (min wanted (old_size + (2 ^ 31 - 1))) kMinimumSize;
          target = resize new_size (sos_target s)
      in (Some (length target - old_size),
          s\<lparr> sos_target := target,
             sos_capacity := (if new_size \<le> sos_capacity s then sos_capacity s else allocate new_size),
             sos_held := length target - old_size \<rparr>))"

definition sos_BackUp :: "nat \<Rightarrow> string_stream \<Rightarrow> string_stream option" where
  "sos_BackUp count s =
     (if count \<le> length (sos_target s) then
        Some (s\<lparr> sos_target := resize (length (sos_target s) - count) (sos_target s),
                 sos_held := sos_held s - count \<rparr>)
      else None)"

definition sos_store :: "nat \<Rightarrow> bytes \<Rightarrow> string_stream \<Rightarrow> string_stream option" where
  "sos_store i bs s =
     (if i + length bs \<le> sos_held s then
        Some (s\<lparr> sos_target := patched (sos_target s) (length (sos_target s) - sos_held s + i) bs \<rparr>)
      else None)"

definition string_ops :: "(nat \<Rightarrow> nat) \<Rightarrow> string_stream ops" where
  "string_ops allocate = \<lparr> zc_Next = sos_Next allocate, zc_BackUp = sos_BackUp,
     zc_ByteCount = (\<lambda>s. length (sos_target s)), zc_store = sos_store, zc_content = sos_target, zc_held = sos_held \<rparr>"

definition string_ok :: "string_stream \<Rightarrow> bool" where
  "string_ok s \<longleftrightarrow> sos_held s \<le> length (sos_target s)"

lemma string_ok_new: "string_ok (StringOutputStream t c)"
  by (simp add: string_ok_def StringOutputStream_def)

lemma string_ops_sel [simp]:
  "zc_Next (string_ops a) = sos_Next a" "zc_BackUp (string_ops a) = sos_BackUp"
  "zc_ByteCount (string_ops a) s = length (sos_target s)"
  "zc_store (string_ops a) = sos_store" "zc_content (string_ops a) = sos_target"
  "zc_held (string_ops a) = sos_held"
  by (simp_all add: string_ops_def)

lemma length_resize [simp]: "length (resize n xs) = n"
  by (simp add: resize_def)

lemma take_resize: "k \<le> length xs \<Longrightarrow> k \<le> n \<Longrightarrow> take k (resize n xs) = take k xs"
  by (simp add: resize_def min_def)

text \<open>A string stream never refuses, and never hands out an empty buffer.\<close>

lemma sos_Next_grows:
  "\<exists>n s'. sos_Next a s = (Some n, s') \<and> 0 < n \<and> sos_held s' = n \<and>
     sos_target s' = resize (length (sos_target s) + n) (sos_target s)"
proof -
  let ?o = "length (sos_target s)"
  define w where "w = (if ?o < sos_capacity s then sos_capacity s else ?o * 2)"
  define k where "k = max (min w (?o + (2 ^ 31 - 1))) kMinimumSize"
  have "?o < k"
    by (cases "?o = 0") (auto simp: k_def w_def kMinimumSize_def)
  moreover have "sos_Next a s = (Some (k - ?o), s\<lparr> sos_target := resize k (sos_target s),
      sos_capacity := (if k \<le> sos_capacity s then sos_capacity s else a k), sos_held := k - ?o \<rparr>)"
    by (simp add: sos_Next_def Let_def w_def k_def)
  ultimately show ?thesis by auto
qed

interpretation string_stream: zero_copy_output "string_ops a" string_ok "\<lambda>_. 0"
proof unfold_locales
  fix s n s' assume "string_ok s" "zc_Next (string_ops a) s = (Some n, s')"
  with sos_Next_grows [of a s] show "string_ok s' \<and> zc_held (string_ops a) s' = n \<and>
      length (zc_content (string_ops a) s') = length (zc_content (string_ops a) s) + n \<and>
      take (length (zc_content (string_ops a) s)) (zc_content (string_ops a) s') = zc_content (string_ops a) s"
    by (auto simp: string_ok_def take_resize)
next
  fix s s' assume "zc_Next (string_ops a) s = (Some 0, s')"
  with sos_Next_grows [of a s] show "(0 :: nat) < 0" by auto
next
  fix s s' assume "zc_Next (string_ops a) s = (None, s')"
  with sos_Next_grows [of a s] show "string_ok s' \<and> zc_content (string_ops a) s' = zc_content (string_ops a) s"
    by auto
qed (auto simp: string_ok_def sos_BackUp_def sos_store_def resize_def)

end
