(* ===== verification/Outstream.thy ===== *)
theory Outstream
  imports Streams Codec "HOL-Library.Monad_Syntax"
begin

text \<open>
  The output stream the generated serializers write to, \<^verbatim>\<open>EpsCopyOutputStream\<close> of
  \<^verbatim>\<open>io/coded_stream.h\<close> and \<^verbatim>\<open>io/coded_stream.cc\<close>. It lets its user write sixteen bytes behind a
  pointer without a check: near the end of a buffer of the underlying stream it redirects the
  writes to a patch buffer of 32 bytes, and copies what was written when the next buffer arrives.

  Memory is explicit. A pointer is null, or points into the patch buffer, into a buffer of the
  underlying stream, or into the caller's array. Buffers of the stream are numbered; only the last
  one may be used. An operation without a value (\<open>None\<close>) has read or written out of bounds, used a
  buffer that is gone, compared pointers into different buffers, or failed a check of the stream.

  The section on representation says what has been written when the stream is in a state, and shows
  each operation to keep it: writes append, \<open>Trim\<close> leaves exactly what was written, and nothing is
  accessed out of bounds.
\<close>

section \<open>State and memory\<close>

abbreviation kSlopBytes :: nat where "kSlopBytes \<equiv> 16"

datatype ptr = Null | Patch nat | Buf nat nat | Arr nat

record 's eos =
  eos_end :: ptr
  eos_buffer_end :: ptr
  eos_buffer :: bytes
  eos_stream :: "'s option"
  had_error :: bool
  buffers :: nat
  array :: bytes

text \<open>\<open>p + n\<close>, \<open>p - q\<close> and \<open>p \<ge> q\<close>.\<close>

fun ptr_add :: "ptr \<Rightarrow> nat \<Rightarrow> ptr" where
  "ptr_add Null n = Null"
| "ptr_add (Patch i) n = Patch (i + n)"
| "ptr_add (Buf g i) n = Buf g (i + n)"
| "ptr_add (Arr i) n = Arr (i + n)"

fun ptr_diff :: "ptr \<Rightarrow> ptr \<Rightarrow> int option" where
  "ptr_diff (Patch i) (Patch j) = Some (int i - int j)"
| "ptr_diff (Buf g i) (Buf h j) = (if g = h then Some (int i - int j) else None)"
| "ptr_diff (Arr i) (Arr j) = Some (int i - int j)"
| "ptr_diff _ _ = None"

text \<open>\<open>memcpy\<close> to and from a pointer; nothing is accessed when there is nothing to copy.\<close>

fun store_at :: "'s ops \<Rightarrow> ptr \<Rightarrow> bytes \<Rightarrow> 's eos \<Rightarrow> 's eos option" where
  "store_at Z p bs s =
     (if bs = [] then Some s
      else case p of
        Null \<Rightarrow> None
      | Patch i \<Rightarrow> if i + length bs \<le> length (eos_buffer s)
          then Some (s\<lparr> eos_buffer := patched (eos_buffer s) i bs \<rparr>) else None
      | Buf g i \<Rightarrow> (case eos_stream s of None \<Rightarrow> None
          | Some z \<Rightarrow> if g = buffers s
              then map_option (\<lambda>z. s\<lparr> eos_stream := Some z \<rparr>) (zc_store Z i bs z) else None)
      | Arr i \<Rightarrow> if i + length bs \<le> length (array s)
          then Some (s\<lparr> array := patched (array s) i bs \<rparr>) else None)"

fun load_at :: "'s ops \<Rightarrow> ptr \<Rightarrow> nat \<Rightarrow> 's eos \<Rightarrow> bytes option" where
  "load_at Z p n s =
     (if n = 0 then Some []
      else case p of
        Null \<Rightarrow> None
      | Patch i \<Rightarrow> if i + n \<le> length (eos_buffer s) then Some (take n (drop i (eos_buffer s))) else None
      | Buf g i \<Rightarrow> (case eos_stream s of None \<Rightarrow> None
          | Some z \<Rightarrow> if g = buffers s \<and> i + n \<le> zc_held Z z
              then Some (take n (drop (length (zc_content Z z) - zc_held Z z + i) (zc_content Z z)))
              else None)
      | Arr i \<Rightarrow> if i + n \<le> length (array s) then Some (take n (drop i (array s))) else None)"

declare store_at.simps [simp del] load_at.simps [simp del]

section \<open>Construction\<close>

text \<open>
  On a stream, on an array (whose size is known to suffice), and on a stream whose first buffer has
  been handed out already. The patch buffer is not initialised.
\<close>

definition eos_new :: "bytes \<Rightarrow> 's \<Rightarrow> ptr \<times> 's eos" where
  "eos_new junk stream =
     (Patch 0, \<lparr> eos_end = Patch 0, eos_buffer_end = Patch 0, eos_buffer = junk,
        eos_stream = Some stream, had_error = False, buffers = 0, array = [] \<rparr>)"

definition eos_new_array :: "bytes \<Rightarrow> bytes \<Rightarrow> nat \<Rightarrow> nat \<Rightarrow> 's eos" where
  "eos_new_array junk arr data sz =
     \<lparr> eos_end = Arr (data + sz), eos_buffer_end = Null, eos_buffer = junk,
       eos_stream = None, had_error = False, buffers = 0, array = arr \<rparr>"

definition SetInitialBuffer :: "ptr \<Rightarrow> nat \<Rightarrow> 's eos \<Rightarrow> ptr \<times> 's eos" where
  "SetInitialBuffer data sz s =
     (if sz > kSlopBytes then
        (data, s\<lparr> eos_end := ptr_add data (sz - kSlopBytes), eos_buffer_end := Null \<rparr>)
      else (Patch 0, s\<lparr> eos_end := Patch sz, eos_buffer_end := data \<rparr>))"

section \<open>Buffers\<close>

definition eos_Error :: "'s eos \<Rightarrow> ptr \<times> 's eos" where
  "eos_Error s = (Patch 0, s\<lparr> had_error := True, eos_end := Patch kSlopBytes \<rparr>)"

text \<open>The loop over \<open>stream_->Next\<close>, until it refuses or hands out a buffer that is not empty.\<close>

partial_function (option) next_nonempty :: "'s ops \<Rightarrow> 's eos \<Rightarrow> (nat option \<times> 's eos) option" where
  "next_nonempty Z s =
     (case eos_stream s of None \<Rightarrow> None
      | Some z \<Rightarrow>
          (case zc_Next Z z of
             (None, z') \<Rightarrow> Some (None, s\<lparr> eos_stream := Some z', buffers := Suc (buffers s) \<rparr>)
           | (Some n, z') \<Rightarrow>
               (let s' = s\<lparr> eos_stream := Some z', buffers := Suc (buffers s) \<rparr>
                in if n = 0 then next_nonempty Z s' else Some (Some n, s'))))"

definition eos_Next :: "'s ops \<Rightarrow> 's eos \<Rightarrow> (ptr \<times> 's eos) option" where
  "eos_Next Z s =
     (if eos_stream s = None then Some (eos_Error s)
      else if eos_buffer_end s \<noteq> Null then do {
        n \<leftarrow> ptr_diff (eos_end s) (Patch 0);
        bs \<leftarrow> load_at Z (Patch 0) (nat n) s;
        s \<leftarrow> store_at Z (eos_buffer_end s) bs s;
        (r, s) \<leftarrow> next_nonempty Z s;
        (case r of
           None \<Rightarrow> Some (eos_Error s)
         | Some sz \<Rightarrow> do {
             bs \<leftarrow> load_at Z (eos_end s) kSlopBytes s;
             let ptr = Buf (buffers s) 0;
             if sz > kSlopBytes then do {
               s \<leftarrow> store_at Z ptr bs s;
               Some (ptr, s\<lparr> eos_end := ptr_add ptr (sz - kSlopBytes), eos_buffer_end := Null \<rparr>)
             } else do {
               s \<leftarrow> store_at Z (Patch 0) bs s;
               Some (Patch 0, s\<lparr> eos_buffer_end := ptr, eos_end := Patch sz \<rparr>)
             }
           })
      } else do {
        bs \<leftarrow> load_at Z (eos_end s) kSlopBytes s;
        s \<leftarrow> store_at Z (Patch 0) bs s;
        Some (Patch 0, s\<lparr> eos_buffer_end := eos_end s, eos_end := Patch kSlopBytes \<rparr>)
      })"

partial_function (option) EnsureSpaceFallback :: "'s ops \<Rightarrow> ptr \<Rightarrow> 's eos \<Rightarrow> (ptr \<times> 's eos) option" where
  "EnsureSpaceFallback Z ptr s =
     (if had_error s then Some (Patch 0, s)
      else do {
        overrun \<leftarrow> ptr_diff ptr (eos_end s);
        (p, s) \<leftarrow> eos_Next Z s;
        let ptr = ptr_add p (nat overrun);
        d \<leftarrow> ptr_diff ptr (eos_end s);
        if d \<ge> 0 then EnsureSpaceFallback Z ptr s else Some (ptr, s)
      })"

definition EnsureSpace :: "'s ops \<Rightarrow> ptr \<Rightarrow> 's eos \<Rightarrow> (ptr \<times> 's eos) option" where
  "EnsureSpace Z ptr s = do {
     d \<leftarrow> ptr_diff ptr (eos_end s);
     if d \<ge> 0 then EnsureSpaceFallback Z ptr s else Some (ptr, s)
   }"

text \<open>\<open>end_ + kSlopBytes - ptr\<close>.\<close>

definition GetSize :: "ptr \<Rightarrow> 's eos \<Rightarrow> int option" where
  "GetSize ptr s = ptr_diff (ptr_add (eos_end s) kSlopBytes) ptr"

text \<open>
  The bytes to write are a list. While the room is less than what is left, as much as fits is copied;
  a negative room would copy a negative number of bytes, which has no value.
\<close>

partial_function (option) WriteRawFallback ::
    "'s ops \<Rightarrow> bytes \<Rightarrow> ptr \<Rightarrow> 's eos \<Rightarrow> (ptr \<times> 's eos) option" where
  "WriteRawFallback Z bs ptr s = do {
     n \<leftarrow> GetSize ptr s;
     if n < int (length bs) then
       (if n < 0 then None else do {
          s \<leftarrow> store_at Z ptr (take (nat n) bs) s;
          (ptr, s) \<leftarrow> EnsureSpaceFallback Z (ptr_add ptr (nat n)) s;
          WriteRawFallback Z (drop (nat n) bs) ptr s
        })
     else do {
       s \<leftarrow> store_at Z ptr bs s;
       Some (ptr_add ptr (length bs), s)
     }
   }"

definition eos_WriteRaw :: "'s ops \<Rightarrow> bytes \<Rightarrow> ptr \<Rightarrow> 's eos \<Rightarrow> (ptr \<times> 's eos) option" where
  "eos_WriteRaw Z bs ptr s = do {
     d \<leftarrow> ptr_diff (eos_end s) ptr;
     if d < int (length bs) then WriteRawFallback Z bs ptr s
     else do {
       s \<leftarrow> store_at Z ptr bs s;
       Some (ptr_add ptr (length bs), s)
     }
   }"

text \<open>
  \<open>Flush\<close> returns the room that is left in the buffer of the stream, and sets \<open>buffer_end_\<close> to its
  start.
\<close>

partial_function (option) eos_Flush :: "'s ops \<Rightarrow> ptr \<Rightarrow> 's eos \<Rightarrow> (int \<times> 's eos) option" where
  "eos_Flush Z ptr s =
     (if eos_buffer_end s \<noteq> Null then do {
        overrun \<leftarrow> ptr_diff ptr (eos_end s);
        if overrun > 0 then do {
          (p, s) \<leftarrow> eos_Next Z s;
          if had_error s then Some (0, s) else eos_Flush Z (ptr_add p (nat overrun)) s
        } else do {
          n \<leftarrow> ptr_diff ptr (Patch 0);
          bs \<leftarrow> load_at Z (Patch 0) (nat n) s;
          s \<leftarrow> store_at Z (eos_buffer_end s) bs s;
          let s = s\<lparr> eos_buffer_end := ptr_add (eos_buffer_end s) (nat n) \<rparr>;
          Some (- overrun, s)
        }
      } else do {
        d \<leftarrow> GetSize ptr s;
        Some (d, s\<lparr> eos_buffer_end := ptr \<rparr>)
      })"

definition back_up_stream :: "'s ops \<Rightarrow> int \<Rightarrow> 's eos \<Rightarrow> 's eos option" where
  "back_up_stream Z n s =
     (case eos_stream s of None \<Rightarrow> None
      | Some z \<Rightarrow> if n < 0 then None
          else map_option (\<lambda>z. s\<lparr> eos_stream := Some z \<rparr>) (zc_BackUp Z (nat n) z))"

definition eos_Trim :: "'s ops \<Rightarrow> ptr \<Rightarrow> 's eos \<Rightarrow> (ptr \<times> 's eos) option" where
  "eos_Trim Z ptr s =
     (if had_error s then Some (ptr, s)
      else do {
        (n, s) \<leftarrow> eos_Flush Z ptr s;
        s \<leftarrow> back_up_stream Z n s;
        Some (Patch 0, s\<lparr> eos_end := Patch 0, eos_buffer_end := Patch 0 \<rparr>)
      })"

definition FlushAndResetBuffer :: "'s ops \<Rightarrow> ptr \<Rightarrow> 's eos \<Rightarrow> (ptr \<times> 's eos) option" where
  "FlushAndResetBuffer Z ptr s =
     (if had_error s then Some (Patch 0, s)
      else do {
        (n, s) \<leftarrow> eos_Flush Z ptr s;
        if had_error s then Some (Patch 0, s)
        else Some (SetInitialBuffer (eos_buffer_end s) (nat n) s)
      })"

definition eos_ByteCount :: "'s ops \<Rightarrow> ptr \<Rightarrow> 's eos \<Rightarrow> int option" where
  "eos_ByteCount Z ptr s = do {
     d \<leftarrow> ptr_diff (eos_end s) ptr;
     z \<leftarrow> eos_stream s;
     Some (int (zc_ByteCount Z z) - (d + (if eos_buffer_end s \<noteq> Null then 0 else int kSlopBytes)))
   }"

section \<open>What has been written\<close>

text \<open>
  \<open>represents Z ok s ptr out\<close>: the caller holds \<open>ptr\<close>, and what has been written is \<open>out\<close>.
  \<^item> \<open>in_patch\<close>: the writes go to the patch buffer; the last \<open>e\<close> bytes of the stream are to be filled
    from it.
  \<^item> \<open>in_stream\<close>: they go to the buffer of the stream, whose last sixteen bytes are behind \<open>end_\<close>.
  \<^item> \<open>broken\<close>: the stream has refused a buffer; it has the first part of what was written.
\<close>

definition hole :: "'s ops \<Rightarrow> 's eos \<Rightarrow> 's \<Rightarrow> nat \<Rightarrow> bool" where
  "hole Z s z e \<longleftrightarrow> (eos_buffer_end s = Patch 0 \<and> e = 0) \<or>
     (\<exists>b. eos_buffer_end s = Buf (buffers s) b \<and> zc_held Z z = b + e)"

definition short :: "'s ops \<Rightarrow> 's eos \<Rightarrow> bytes \<Rightarrow> bool" where
  "short Z s out \<longleftrightarrow> (\<exists>z. eos_stream s = Some z \<and> length (zc_content Z z) < length out)"

definition refused :: "'s ops \<Rightarrow> ('s \<Rightarrow> bool) \<Rightarrow> bytes \<Rightarrow> bytes \<Rightarrow> bool" where
  "refused Z ok D out \<longleftrightarrow> take (length D) out = D \<and> 
     (\<exists>z z'. ok z \<and> zc_Next Z z = (None, z') \<and> zc_content Z z = D)"

text \<open>A position with no bytes behind \<open>end_\<close>.\<close>

definition inside :: "'s eos \<Rightarrow> ptr \<Rightarrow> bool" where
  "inside s ptr \<longleftrightarrow> (\<exists>d. ptr_diff ptr (eos_end s) = Some d \<and> d \<le> 0)"

inductive represents :: "'s ops \<Rightarrow> ('s \<Rightarrow> bool) \<Rightarrow> 's eos \<Rightarrow> ptr \<Rightarrow> bytes \<Rightarrow> bool" for Z ok where
  in_patch: "\<lbrakk>eos_stream s = Some z; ok z; length (eos_buffer s) = 32; \<not> had_error s;
     eos_end s = Patch e; e \<le> 16; p \<le> e + 16; hole Z s z e;
     out = take (length (zc_content Z z) - e) (zc_content Z z) @ take p (eos_buffer s)\<rbrakk>
     \<Longrightarrow> represents Z ok s (Patch p) out"
| in_stream: "\<lbrakk>eos_stream s = Some z; ok z; length (eos_buffer s) = 32; \<not> had_error s;
     eos_end s = Buf (buffers s) e; eos_buffer_end s = Null; zc_held Z z = e + 16; p \<le> e + 16;
     out = take (length (zc_content Z z) - zc_held Z z + p) (zc_content Z z)\<rbrakk>
     \<Longrightarrow> represents Z ok s (Buf (buffers s) p) out"
| broken: "\<lbrakk>eos_stream s = Some z; ok z; length (eos_buffer s) = 32; had_error s;
     eos_end s = Patch e; e \<le> 16; p \<le> e + 16; refused Z ok (zc_content Z z) out\<rbrakk>
     \<Longrightarrow> represents Z ok s (Patch p) out"

lemma refused_length: "refused Z ok D out \<Longrightarrow> length D \<le> length out"
  unfolding refused_def by (metis length_take min.cobounded1 min_def nat_le_linear)

lemma refused_append: "refused Z ok D out \<Longrightarrow> refused Z ok D (out @ bs)"
  using refused_length [of Z ok D out] by (simp add: refused_def)

lemma represents_new:
  "ok z \<Longrightarrow> length junk = 32 \<Longrightarrow> eos_new junk z = (ptr, s) \<Longrightarrow> represents Z ok s ptr (zc_content Z z)"
  by (auto simp: eos_new_def hole_def intro!: in_patch)

text \<open>The room behind the pointer.\<close>

lemma represents_room:
  assumes "represents Z ok s ptr out"
  obtains k where "GetSize ptr s = Some (int k)" "ptr_diff ptr (eos_end s) = Some (16 - int k)"
    "ptr_diff (eos_end s) ptr = Some (int k - 16)" "eos_stream s \<noteq> None"
  using assms
proof cases
  case (in_patch z e p)
  with that [of "e + 16 - p"] show ?thesis by (simp add: GetSize_def of_nat_diff)
next
  case (in_stream z e p)
  with that [of "e + 16 - p"] show ?thesis by (simp add: GetSize_def of_nat_diff)
next
  case (broken z e p)
  with that [of "e + 16 - p"] show ?thesis by (simp add: GetSize_def of_nat_diff)
qed

lemma represents_broken:
  assumes "represents Z ok s ptr out" "had_error s"
  obtains z e where "eos_stream s = Some z" "ok z" "length (eos_buffer s) = 32" "eos_end s = Patch e"
    "refused Z ok (zc_content Z z) out" "represents Z ok s (Patch 0) out"
  using assms(1)
proof cases
  case (broken z e p)
  then have "represents Z ok s (Patch 0) out" by (intro represents.broken) auto
  with broken that show thesis by blast
qed (use assms(2) in simp_all)

context zero_copy_output
begin

text \<open>A write of no more than the room appends.\<close>

lemma store_appends:
  assumes r: "represents Z ok s ptr out" and k: "GetSize ptr s = Some k" "int (length bs) \<le> k"
  shows "\<exists>s'. store_at Z ptr bs s = Some s' \<and> represents Z ok s' (ptr_add ptr (length bs)) (out @ bs) \<and>
    eos_end s' = eos_end s \<and> had_error s' = had_error s \<and>
    (had_error s \<and> bs \<noteq> [] \<longrightarrow> short Z s' (out @ bs))"
proof (cases "bs = []")
  case True
  with r show ?thesis by (cases ptr) (simp_all add: store_at.simps)
next
  case False
  from r show ?thesis
  proof cases
    case (in_patch z e p)
    then have "p + length bs \<le> e + 16" using k by (simp add: GetSize_def)
    with in_patch False show ?thesis
      by (auto simp: store_at.simps hole_def take_patched intro!: represents.in_patch)
  next
    case (in_stream z e p)
    then have le: "p + length bs \<le> zc_held Z z" using k by (simp add: GetSize_def)
    from store [OF in_stream(3) this] obtain z' where z': "zc_store Z p bs z = Some z'" "ok z'"
      "zc_held Z z' = zc_held Z z"
      "zc_content Z z' = patched (zc_content Z z) (length (zc_content Z z) - zc_held Z z + p) bs" by blast
    have "length (zc_content Z z) - zc_held Z z + p + length bs \<le> length (zc_content Z z)"
      using le held [OF in_stream(3)] by linarith
    then have "out @ bs = take (length (zc_content Z z') - zc_held Z z' + (p + length bs)) (zc_content Z z')"
      using take_patched [of "length (zc_content Z z) - zc_held Z z + p" bs "zc_content Z z"] in_stream z'
      by (simp add: add.assoc)
    then have "represents Z ok (s\<lparr>eos_stream := Some z'\<rparr>)
        (Buf (buffers (s\<lparr>eos_stream := Some z'\<rparr>)) (p + length bs)) (out @ bs)"
      using in_stream z' le by (intro represents.in_stream [where z = z' and e = e]) simp_all
    with in_stream z' False show ?thesis by (simp add: store_at.simps)
  next
    case (broken z e p)
    then have "p + length bs \<le> e + 16" using k by (simp add: GetSize_def)
    moreover have "length (zc_content Z z) < length out + length bs"
      using refused_length [of Z ok "zc_content Z z" out] broken False by (cases bs) auto
    ultimately show ?thesis using broken False
      by (auto simp: store_at.simps refused_append short_def intro!: represents.broken)
  qed
qed

text \<open>The next buffer that is not empty.\<close>

lemma next_nonempty_some:
  assumes "eos_stream s = Some z" "ok z"
  shows "\<exists>r z' g. next_nonempty Z s = Some (r, s\<lparr> eos_stream := Some z', buffers := g \<rparr>) \<and> ok z' \<and>
    (case r of
       None \<Rightarrow> (\<exists>z0 z1. ok z0 \<and> zc_Next Z z0 = (None, z1) \<and> zc_content Z z0 = zc_content Z z) \<and>
         zc_content Z z' = zc_content Z z
     | Some n \<Rightarrow> 0 < n \<and> zc_held Z z' = n \<and> length (zc_content Z z') = length (zc_content Z z) + n \<and>
         take (length (zc_content Z z)) (zc_content Z z') = zc_content Z z)"
  using assms
proof (induction "empties z" arbitrary: s z rule: less_induct)
  case less
  obtain r z' where n: "zc_Next Z z = (r, z')" by (cases "zc_Next Z z")
  show ?case
  proof (cases r)
    case None
    with n next_none [OF less.prems(2)] less.prems show ?thesis
      by (subst next_nonempty.simps) (fastforce intro: exI [of _ z'] exI [of _ "Suc (buffers s)"])
  next
    case (Some k)
    note z' = next_some [OF less.prems(2) n [unfolded Some]]
    show ?thesis
    proof (cases "k = 0")
      case True
      let ?s = "s\<lparr> eos_stream := Some z', buffers := Suc (buffers s) \<rparr>"
      have eq: "zc_content Z z' = zc_content Z z" using z' True by (metis add_0_right order_refl take_all)
      have "next_nonempty Z s = next_nonempty Z ?s"
        using less.prems n Some True by (subst next_nonempty.simps) simp
      moreover have "empties z' < empties z" using next_empty [OF less.prems(2)] n Some True by simp
      from less.hyps [OF this, of ?s] z' obtain r2 z2 g2 where
        "next_nonempty Z ?s = Some (r2, ?s\<lparr> eos_stream := Some z2, buffers := g2 \<rparr>)" "ok z2"
        "case r2 of
           None \<Rightarrow> (\<exists>z0 z1. ok z0 \<and> zc_Next Z z0 = (None, z1) \<and> zc_content Z z0 = zc_content Z z') \<and>
             zc_content Z z2 = zc_content Z z'
         | Some n \<Rightarrow> 0 < n \<and> zc_held Z z2 = n \<and> length (zc_content Z z2) = length (zc_content Z z') + n \<and>
             take (length (zc_content Z z')) (zc_content Z z2) = zc_content Z z'"
        by auto
      ultimately show ?thesis unfolding eq by (intro exI [of _ r2] exI [of _ z2] exI [of _ g2]) simp
    next
      case False
      with z' n Some less.prems show ?thesis
        by (subst next_nonempty.simps) (auto intro!: exI [of _ "Some k"] exI [of _ z'] exI [of _ "Suc (buffers s)"])
    qed
  qed
qed

text \<open>
  \<open>Next\<close> gives room for the bytes behind \<open>end_\<close> at the start of the new buffer, keeps what has been
  written, and brings the pointer nearer to the end.
\<close>

lemma next_from_stream:
  assumes r: "eos_stream s = Some z" "ok z" "length (eos_buffer s) = 32" "\<not> had_error s"
    "eos_end s = Buf (buffers s) e" "eos_buffer_end s = Null" "zc_held Z z = e + 16" "x \<le> 16"
  shows "\<exists>s'. eos_Next Z s = Some (Patch 0, s') \<and> eos_end s' = Patch 16 \<and> \<not> had_error s' \<and>
    represents Z ok s' (Patch x) (take (length (zc_content Z z) - zc_held Z z + (e + x)) (zc_content Z z))"
proof -
  let ?D = "zc_content Z z"
  let ?b = "take 16 (drop (length ?D - zc_held Z z + e) ?D)"
  have L: "e + 16 \<le> length ?D" using held [OF r(2)] r(7) by simp
  then have b: "length ?b = 16" using r(7) by simp
  let ?s = "s\<lparr> eos_buffer := patched (eos_buffer s) 0 ?b, eos_buffer_end := eos_end s, eos_end := Patch 16 \<rparr>"
  have "?b \<noteq> []" using b by auto
  with r b have "eos_Next Z s = Some (Patch 0, ?s)"
    by (simp add: eos_Next_def load_at.simps store_at.simps)
  moreover have "take x (patched (eos_buffer s) 0 ?b) = take x ?b"
    using r(8) b by (simp add: patched_def)
  then have "take (length ?D - zc_held Z z + (e + x)) ?D = take (length ?D - 16) ?D @ take x (patched (eos_buffer s) 0 ?b)"
  proof -
    have "length ?D - zc_held Z z + (e + x) = (length ?D - 16) + x" "length ?D - zc_held Z z + e = length ?D - 16"
      using L r(7) by simp_all
    with \<open>take x (patched (eos_buffer s) 0 ?b) = take x ?b\<close> r(8) show ?thesis
      by (simp only: take_add) (simp add: min_absorb1)
  qed
  then have "represents Z ok ?s (Patch x) (take (length ?D - zc_held Z z + (e + x)) ?D)"
    using r b L by (intro in_patch [where z = z and e = 16]) (auto simp: hole_def)
  ultimately show ?thesis using r(4) by (intro exI [of _ ?s]) simp
qed

text \<open>The patch buffer is copied into the hole at the end of the stream.\<close>

lemma fill_hole:
  assumes r: "eos_stream s = Some z" "ok z" "hole Z s z e" "length bs \<le> e"
  shows "\<exists>z'. store_at Z (eos_buffer_end s) bs s = Some (s\<lparr> eos_stream := Some z' \<rparr>) \<and> ok z' \<and>
    zc_held Z z' = zc_held Z z \<and> length (zc_content Z z') = length (zc_content Z z) \<and>
    take (length (zc_content Z z) - e + length bs) (zc_content Z z') =
      take (length (zc_content Z z) - e) (zc_content Z z) @ bs"
proof (cases "bs = []")
  case True
  with r show ?thesis by (intro exI [of _ z]) (simp add: store_at.simps)
next
  case False
  with r obtain b where b: "eos_buffer_end s = Buf (buffers s) b" "zc_held Z z = b + e"
    by (cases "e = 0") (auto simp: hole_def)
  have i: "b + length bs \<le> zc_held Z z" using b r(4) by simp
  from store [OF r(2) this] obtain z' where z': "zc_store Z b bs z = Some z'" "ok z'"
    "zc_held Z z' = zc_held Z z"
    "zc_content Z z' = patched (zc_content Z z) (length (zc_content Z z) - zc_held Z z + b) bs" by blast
  have h: "length (zc_content Z z) - zc_held Z z + b = length (zc_content Z z) - e"
    using held [OF r(2)] b by simp
  have "length (zc_content Z z) - e + length bs \<le> length (zc_content Z z)"
    using held [OF r(2)] b r(4) by simp
  with z' h b r(1) False show ?thesis
    by (intro exI [of _ z']) (simp add: store_at.simps take_patched)
qed

lemma next_from_patch:
  assumes r: "eos_stream s = Some z" "ok z" "length (eos_buffer s) = 32" "\<not> had_error s"
    "eos_end s = Patch e" "e \<le> 16" "hole Z s z e" "x \<le> 16"
    and out: "out = take (length (zc_content Z z) - e) (zc_content Z z) @ take (e + x) (eos_buffer s)"
  shows "\<exists>p' s' d. eos_Next Z s = Some (p', s') \<and> represents Z ok s' (ptr_add p' x) out \<and>
    ptr_diff (ptr_add p' x) (eos_end s') = Some d \<and> d < int x \<and>
    (had_error s' \<and> 0 < x \<longrightarrow> short Z s' out)"
proof -
  let ?D = "zc_content Z z" and ?B = "eos_buffer s"
  define D1 where "D1 = take (length ?D - e) ?D @ take e ?B"
  have eL: "e \<le> length ?D" using r(7) held [OF r(2)] by (auto simp: hole_def)
  have B: "length (take e ?B) = e" "length (take 16 (drop e ?B)) = 16" using r(3,6) by simp_all
  have out1: "out = D1 @ take x (drop e ?B)" using out by (simp add: D1_def take_add)
  have ld: "load_at Z (Patch 0) e s = Some (take e ?B)" using r(3,6) by (simp add: load_at.simps)
  have le: "length (take e ?B) \<le> e" using B by simp
  from fill_hole [OF r(1,2,7) le] obtain z1
    where st: "store_at Z (eos_buffer_end s) (take e ?B) s = Some (s\<lparr> eos_stream := Some z1 \<rparr>)"
      and z1: "ok z1" "length (zc_content Z z1) = length ?D" "take (length ?D) (zc_content Z z1) = D1"
    using B(1) eL by (auto simp: D1_def)
  then have D1: "zc_content Z z1 = D1" "length D1 = length ?D" by auto
  let ?s1 = "s\<lparr> eos_stream := Some z1 \<rparr>"
  obtain n z2 g where nx: "next_nonempty Z ?s1 = Some (n, ?s1\<lparr> eos_stream := Some z2, buffers := g \<rparr>)"
      and z2: "ok z2"
      and c: "case n of
         None \<Rightarrow> (\<exists>z0 z1. ok z0 \<and> zc_Next Z z0 = (None, z1) \<and> zc_content Z z0 = D1) \<and> zc_content Z z2 = D1
       | Some n \<Rightarrow> 0 < n \<and> zc_held Z z2 = n \<and> length (zc_content Z z2) = length D1 + n \<and>
           take (length D1) (zc_content Z z2) = D1"
    using next_nonempty_some [of ?s1 z1] z1(1) unfolding D1 by auto
  let ?s2 = "s\<lparr> eos_stream := Some z2, buffers := g \<rparr>"
  have bn: "eos_buffer_end s \<noteq> Null" using r(7) by (auto simp: hole_def)
  show ?thesis
  proof (cases n)
    case None
    with r bn ld st nx have "eos_Next Z s = Some (eos_Error ?s2)" by (simp add: eos_Next_def)
    moreover from c None obtain z0 z1 where "ok z0" "zc_Next Z z0 = (None, z1)" "zc_content Z z0 = D1"
      "zc_content Z z2 = D1" by auto
    then have "refused Z ok (zc_content Z z2) out"
      unfolding refused_def out1 by (intro conjI exI [of _ z0] exI [of _ z1]) simp_all
    then have "represents Z ok (snd (eos_Error ?s2)) (Patch x) out" "0 < x \<longrightarrow> short Z (snd (eos_Error ?s2)) out"
      using z2 r \<open>zc_content Z z2 = D1\<close> out1 by (auto simp: eos_Error_def short_def intro!: represents.broken [where z = z2])
    ultimately show ?thesis by (auto simp: eos_Error_def)
  next
    case (Some m)
    let ?b = "take 16 (drop e ?B)"
    have ld2: "load_at Z (Patch e) 16 ?s2 = Some ?b" using r(3,6) by (simp add: load_at.simps)
    have bne: "?b \<noteq> []" using B(2) by auto
    have tx: "take x ?b = take x (drop e ?B)" using r(8) by (simp add: min_absorb1)
    show ?thesis
    proof (cases "m > 16")
      case True
      have "0 + length ?b \<le> zc_held Z z2" using c Some True B(2) by simp
      from store [OF z2 this] obtain z3 where z3: "zc_store Z 0 ?b z2 = Some z3" "ok z3"
        "zc_held Z z3 = zc_held Z z2" "zc_content Z z3 = patched (zc_content Z z2) (length D1) ?b"
        using c Some by auto
      let ?s3 = "?s2\<lparr> eos_stream := Some z3, eos_end := Buf g (m - 16), eos_buffer_end := Null \<rparr>"
      have "eos_Next Z s = Some (Buf g 0, ?s3)"
        using r bn ld st nx Some True ld2 z3 bne by (simp add: eos_Next_def store_at.simps)
      moreover have "take (length D1 + x) (zc_content Z z3) = out"
        using z3(4) c Some True out1 tx r(8) B(2) by (simp add: patched_def min_absorb1)
      then have "represents Z ok ?s3 (Buf (buffers ?s3) x) out"
        using r z3 c Some True B(2) by (intro represents.in_stream [where z = z3 and e = "m - 16"]) auto
      ultimately show ?thesis
        using True r(4,8) by (intro exI [of _ "Buf g 0"] exI [of _ ?s3] exI [of _ "int x - int (m - 16)"]) simp
    next
      case False
      let ?s3 = "?s2\<lparr> eos_buffer := patched ?B 0 ?b, eos_buffer_end := Buf g 0, eos_end := Patch m \<rparr>"
      have "eos_Next Z s = Some (Patch 0, ?s3)"
        using r bn ld st nx Some False ld2 bne B(2) by (simp add: eos_Next_def store_at.simps)
      moreover have "take x (patched ?B 0 ?b) = take x ?b" using r(8) B(2) by (simp add: patched_def)
      then have "represents Z ok ?s3 (Patch x) out"
        using r z2 c Some False B(2) out1 tx by (intro represents.in_patch [where z = z2 and e = m]) (auto simp: hole_def)
      ultimately show ?thesis using c Some r(4)
        by (intro exI [of _ "Patch 0"] exI [of _ ?s3] exI [of _ "int x - int m"]) simp
    qed
  qed
qed

lemma next_buffer:
  assumes r: "represents Z ok s ptr out" "\<not> had_error s" "ptr_diff ptr (eos_end s) = Some (int x)"
  shows "\<exists>p' s' d. eos_Next Z s = Some (p', s') \<and> represents Z ok s' (ptr_add p' x) out \<and>
    ptr_diff (ptr_add p' x) (eos_end s') = Some d \<and> d < int x \<and>
    (had_error s' \<and> 0 < x \<longrightarrow> short Z s' out)"
  using r(1)
proof cases
  case (in_patch z e p)
  then have "p = e + x" "x \<le> 16" using r(3) by auto
  with in_patch show ?thesis by (intro next_from_patch) auto
next
  case (in_stream z e p)
  then have p: "p = e + x" "x \<le> 16" using r(3) by auto
  with next_from_stream [of s z e x] in_stream obtain s' where "eos_Next Z s = Some (Patch 0, s')"
    "eos_end s' = Patch 16" "\<not> had_error s'" "represents Z ok s' (Patch x) out" by auto
  with p show ?thesis by (intro exI [of _ "Patch 0"] exI [of _ s'] exI [of _ "int x - 16"]) simp
next
  case (broken z e p)
  with r(2) show ?thesis by simp
qed

lemma EnsureSpaceFallback_room:
  assumes "represents Z ok s ptr out" "ptr_diff ptr (eos_end s) = Some (int x)"
  shows "\<exists>ptr' s' k. EnsureSpaceFallback Z ptr s = Some (ptr', s') \<and> represents Z ok s' ptr' out \<and>
    GetSize ptr' s' = Some k \<and> 16 \<le> k"
  using assms
proof (induction x arbitrary: s ptr rule: less_induct)
  case (less x)
  show ?case
  proof (cases "had_error s")
    case True
    from represents_broken [OF less.prems(1) True] obtain z e where b: "represents Z ok s (Patch 0) out"
      "eos_end s = Patch e" by blast
    with True show ?thesis by (subst EnsureSpaceFallback.simps) (simp add: GetSize_def)
  next
    case False
    from next_buffer [OF less.prems(1) False less.prems(2)] obtain p' s' d
      where n: "eos_Next Z s = Some (p', s')" "represents Z ok s' (ptr_add p' x) out"
        "ptr_diff (ptr_add p' x) (eos_end s') = Some d" "d < int x" by blast
    show ?thesis
    proof (cases "d \<ge> 0")
      case True
      then have "ptr_diff (ptr_add p' x) (eos_end s') = Some (int (nat d))" "nat d < x" using n by auto
      from less.IH [OF this(2) n(2) this(1)] show ?thesis
        using False True less.prems n by (subst EnsureSpaceFallback.simps) simp
    next
      case neg: False
      from represents_room [OF n(2)] obtain k where "GetSize (ptr_add p' x) s' = Some (int k)"
        "ptr_diff (ptr_add p' x) (eos_end s') = Some (16 - int k)" by blast
      with neg n(3) have "GetSize (ptr_add p' x) s' = Some (int k)" "16 \<le> int k" by auto
      with False neg less.prems n show ?thesis by (subst EnsureSpaceFallback.simps) auto
    qed
  qed
qed

text \<open>After \<open>EnsureSpace\<close> sixteen bytes may be written, whatever happened.\<close>

lemma EnsureSpace_room:
  assumes "represents Z ok s ptr out"
  shows "\<exists>ptr' s' k. EnsureSpace Z ptr s = Some (ptr', s') \<and> represents Z ok s' ptr' out \<and>
    GetSize ptr' s' = Some k \<and> 16 \<le> k"
proof -
  from represents_room [OF assms] obtain k where k: "GetSize ptr s = Some (int k)"
    "ptr_diff ptr (eos_end s) = Some (16 - int k)" by blast
  show ?thesis
  proof (cases "k \<le> 16")
    case True
    then have "ptr_diff ptr (eos_end s) = Some (int (16 - k))" using k by auto
    from EnsureSpaceFallback_room [OF assms this] True k show ?thesis by (simp add: EnsureSpace_def)
  next
    case False
    with k assms show ?thesis by (simp add: EnsureSpace_def)
  qed
qed

lemma GetSize_represents: "represents Z ok s ptr out \<Longrightarrow> GetSize ptr s = Some k \<Longrightarrow> 0 \<le> k"
  by (metis of_nat_0_le_iff option.inject represents_room)

lemma had_error_store: "store_at Z p bs s = Some s' \<Longrightarrow> had_error s' = had_error s"
  by (auto simp: store_at.simps split: if_splits ptr.splits option.splits)

text \<open>One round of the loop of \<open>WriteRawFallback\<close>: the room is filled, and there is room again.\<close>

lemma WriteRaw_round:
  assumes r: "represents Z ok s ptr out" and k: "GetSize ptr s = Some k" "k < int (length bs)"
  shows "\<exists>ptr' s' k'. WriteRawFallback Z bs ptr s = WriteRawFallback Z (drop (nat k) bs) ptr' s' \<and>
    represents Z ok s' ptr' (out @ take (nat k) bs) \<and> GetSize ptr' s' = Some k' \<and> 16 \<le> k'"
proof -
  have k0: "0 \<le> k" using r k(1) by (rule GetSize_represents)
  have l: "length (take (nat k) bs) = nat k" using k(2) k0 by simp
  from store_appends [OF r k(1), of "take (nat k) bs"] k0 l obtain s1 where
    s1: "store_at Z ptr (take (nat k) bs) s = Some s1"
      "represents Z ok s1 (ptr_add ptr (nat k)) (out @ take (nat k) bs)" "eos_end s1 = eos_end s" by auto
  have "ptr_diff (ptr_add ptr (nat k)) (eos_end s1) = Some (int 16)"
    using r k(1) k0 s1(3) by cases (auto simp: GetSize_def)
  from EnsureSpaceFallback_room [OF s1(2) this] obtain p' s' k' where
    "EnsureSpaceFallback Z (ptr_add ptr (nat k)) s1 = Some (p', s')"
    "represents Z ok s' p' (out @ take (nat k) bs)" "GetSize p' s' = Some k'" "16 \<le> k'" by blast
  with k k0 s1 show ?thesis by (subst WriteRawFallback.simps) auto
qed

lemma WriteRaw_last:
  assumes r: "represents Z ok s ptr out" and k: "GetSize ptr s = Some k" "int (length bs) \<le> k"
  shows "\<exists>ptr' s'. WriteRawFallback Z bs ptr s = Some (ptr', s') \<and> represents Z ok s' ptr' (out @ bs) \<and>
    (bs = [] \<longrightarrow> s' = s) \<and> (had_error s' \<and> bs \<noteq> [] \<longrightarrow> short Z s' (out @ bs))"
  using store_appends [OF r k] k by (subst WriteRawFallback.simps) (auto simp: store_at.simps)

lemma WriteRaw_spacious:
  assumes "represents Z ok s ptr out" "GetSize ptr s = Some k" "16 \<le> k"
  shows "\<exists>ptr' s'. WriteRawFallback Z bs ptr s = Some (ptr', s') \<and> represents Z ok s' ptr' (out @ bs) \<and>
    (bs = [] \<longrightarrow> s' = s) \<and> (had_error s' \<and> bs \<noteq> [] \<longrightarrow> short Z s' (out @ bs))"
  using assms
proof (induction "length bs" arbitrary: bs s ptr out k rule: less_induct)
  case less
  show ?case
  proof (cases "k < int (length bs)")
    case True
    from WriteRaw_round [OF less.prems(1,2) True] obtain p' s' k' where
      w: "WriteRawFallback Z bs ptr s = WriteRawFallback Z (drop (nat k) bs) p' s'"
        "represents Z ok s' p' (out @ take (nat k) bs)" "GetSize p' s' = Some k'" "16 \<le> k'" by blast
    have d: "length (drop (nat k) bs) < length bs" "drop (nat k) bs \<noteq> []" "bs \<noteq> []"
      "(out @ take (nat k) bs) @ drop (nat k) bs = out @ bs" using True less.prems(3) by auto
    from less.hyps [OF d(1) w(2-4)] show ?thesis unfolding w(1) d(4) using d(2,3) by blast
  next
    case False
    with WriteRaw_last [OF less.prems(1,2)] show ?thesis by simp
  qed
qed

lemma WriteRaw_appends:
  assumes r: "represents Z ok s ptr out"
  shows "\<exists>ptr' s'. eos_WriteRaw Z bs ptr s = Some (ptr', s') \<and> represents Z ok s' ptr' (out @ bs) \<and>
    (bs = [] \<longrightarrow> s' = s) \<and> (had_error s' \<and> bs \<noteq> [] \<longrightarrow> short Z s' (out @ bs))"
proof -
  from represents_room [OF r] obtain k where k: "GetSize ptr s = Some (int k)"
    "ptr_diff (eos_end s) ptr = Some (int k - 16)" by blast
  show ?thesis
  proof (cases "int k - 16 < int (length bs)")
    case fb: True
    show ?thesis
    proof (cases "int k < int (length bs)")
      case True
      from WriteRaw_round [OF r k(1) True] obtain p' s' k' where
        w: "WriteRawFallback Z bs ptr s = WriteRawFallback Z (drop k bs) p' s'"
          "represents Z ok s' p' (out @ take k bs)" "GetSize p' s' = Some k'" "16 \<le> k'" by auto
      have "drop k bs \<noteq> []" "bs \<noteq> []" using True by auto
      with WriteRaw_spacious [OF w(2-4), of "drop k bs"] w(1) fb k show ?thesis
        by (simp add: eos_WriteRaw_def)
    next
      case False
      with WriteRaw_last [OF r k(1), of bs] fb k show ?thesis by (simp add: eos_WriteRaw_def)
    qed
  next
    case False
    then have "int (length bs) \<le> int k" by simp
    from store_appends [OF r k(1) this] False k show ?thesis
      by (auto simp: eos_WriteRaw_def store_at.simps [of Z ptr "[]"])
  qed
qed

section \<open>Flushing\<close>

text \<open>
  After \<open>Flush\<close>, without an error, the stream holds what has been written, and behind it the room
  that is reported, at the end of its last buffer.
\<close>

definition flushed :: "'s eos \<Rightarrow> bytes \<Rightarrow> int \<Rightarrow> bool" where
  "flushed s out n \<longleftrightarrow> (\<exists>z. eos_stream s = Some z \<and> ok z \<and> length (eos_buffer s) = 32 \<and> \<not> had_error s \<and>
     0 \<le> n \<and> n \<le> int (zc_held Z z) \<and> take (length (zc_content Z z) - nat n) (zc_content Z z) = out \<and>
     (eos_buffer_end s = Patch 0 \<and> n = 0 \<or> eos_buffer_end s = Buf (buffers s) (zc_held Z z - nat n)))"

lemma Flush_patch:
  assumes "eos_stream s = Some z" "ok z" "length (eos_buffer s) = 32" "\<not> had_error s"
    "eos_end s = Patch e" "p \<le> e" "e \<le> 16" "hole Z s z e"
    "out = take (length (zc_content Z z) - e) (zc_content Z z) @ take p (eos_buffer s)"
  shows "\<exists>n s'. eos_Flush Z (Patch p) s = Some (n, s') \<and> flushed s' out n"
proof -
  have l: "length (take p (eos_buffer s)) = p" using assms by simp
  have bn: "eos_buffer_end s \<noteq> Null" using assms by (auto simp: hole_def)
  have eL: "e \<le> zc_held Z z" using assms by (auto simp: hole_def)
  from fill_hole [OF assms(1,2,8), of "take p (eos_buffer s)"] l assms(6) obtain z' where
    z': "store_at Z (eos_buffer_end s) (take p (eos_buffer s)) s = Some (s\<lparr> eos_stream := Some z' \<rparr>)"
      "ok z'" "zc_held Z z' = zc_held Z z" "length (zc_content Z z') = length (zc_content Z z)"
      "take (length (zc_content Z z) - e + p) (zc_content Z z') = out" using assms(9) by auto
  have "length (zc_content Z z) - e + p = length (zc_content Z z') - (e - p)"
    using eL held [OF assms(2)] assms(6) z'(4) by simp
  with z' have c: "take (length (zc_content Z z') - (e - p)) (zc_content Z z') = out" by simp
  let ?s = "s\<lparr> eos_stream := Some z', eos_buffer_end := ptr_add (eos_buffer_end s) p \<rparr>"
  have "load_at Z (Patch 0) p s = Some (take p (eos_buffer s))" using assms by (simp add: load_at.simps)
  then have "eos_Flush Z (Patch p) s = Some (int e - int p, ?s)"
    using assms(5,6) z'(1) bn by (subst eos_Flush.simps) simp
  moreover have "flushed ?s out (int e - int p)"
    using assms z' c eL by (auto simp: flushed_def hole_def nat_diff_distrib)
  ultimately show ?thesis by blast
qed

lemma Flush_inside:
  assumes "represents Z ok s ptr out" "\<not> had_error s" "ptr_diff ptr (eos_end s) = Some d" "d \<le> 0 \<or> eos_buffer_end s = Null"
  shows "\<exists>n s'. eos_Flush Z ptr s = Some (n, s') \<and> flushed s' out n"
  using assms(1)
proof cases
  case (in_patch z e p)
  then have "p \<le> e" using assms(3,4) by (auto simp: hole_def)
  from Flush_patch [OF in_patch(2-6) this in_patch(7,9,10)] in_patch(1) show ?thesis by simp
next
  case (in_stream z e p)
  let ?s = "s\<lparr> eos_buffer_end := ptr \<rparr>"
  have "eos_Flush Z ptr s = Some (int (e + 16 - p), ?s)"
    using in_stream by (subst eos_Flush.simps) (simp add: GetSize_def of_nat_diff)
  moreover have "length (zc_content Z z) - (e + 16 - p) = length (zc_content Z z) - (e + 16) + p"
    using in_stream held [of z] by simp
  then have "flushed ?s out (int (e + 16 - p))"
    using in_stream by (simp add: flushed_def del: of_nat_diff)
  ultimately show ?thesis by auto
next
  case broken
  with assms(2) show ?thesis by simp
qed

lemma flushed_no_error: "flushed s out n \<Longrightarrow> \<not> had_error s"
  by (auto simp: flushed_def)

lemma Flush_flushed:
  assumes "represents Z ok s ptr out" "\<not> had_error s" "ptr_diff ptr (eos_end s) = Some d" "d \<le> int x"
  shows "\<exists>n s'. eos_Flush Z ptr s = Some (n, s') \<and>
    (if had_error s' then n = 0 \<and> (\<exists>ptr'. represents Z ok s' ptr' out) \<and> short Z s' out else flushed s' out n)"
  using assms
proof (induction x arbitrary: s ptr d rule: less_induct)
  case (less x)
  show ?case
  proof (cases "d \<le> 0 \<or> eos_buffer_end s = Null")
    case True
    from Flush_inside [OF less.prems(1-3) this] show ?thesis using flushed_no_error by fastforce
  next
    case False
    then have d: "ptr_diff ptr (eos_end s) = Some (int (nat d))" "0 < nat d" and bn: "eos_buffer_end s \<noteq> Null"
      using less.prems(3) by auto
    from next_buffer [OF less.prems(1,2) d(1)] obtain p' s' d' where
      n: "eos_Next Z s = Some (p', s')" "represents Z ok s' (ptr_add p' (nat d)) out"
        "ptr_diff (ptr_add p' (nat d)) (eos_end s') = Some d'" "d' < int (nat d)"
        "had_error s' \<longrightarrow> short Z s' out" using d(2) by blast
    show ?thesis
    proof (cases "had_error s'")
      case True
      with n d bn less.prems(3) show ?thesis by (subst eos_Flush.simps) auto
    next
      case err: False
      have "nat d - 1 < x" "d' \<le> int (nat d - 1)" using n(4) d(2) less.prems(4) by auto
      from less.IH [OF this(1) n(2) err n(3) this(2)]
      show ?thesis using n(1) d bn err less.prems(3) by (subst eos_Flush.simps) simp
    qed
  qed
qed

lemma represents_overrun:
  assumes "represents Z ok s ptr out"
  obtains d x where "ptr_diff ptr (eos_end s) = Some d" "d \<le> int x"
  using represents_room [OF assms] by (metis int_ops(1) zle_iff_zadd of_nat_0_le_iff le_cases nonneg_int_cases)

lemma Flush_result:
  assumes r: "represents Z ok s ptr out" "\<not> had_error s"
  obtains n s1 where "eos_Flush Z ptr s = Some (n, s1)"
    "if had_error s1 then n = 0 \<and> represents Z ok s1 (Patch 0) out \<and> short Z s1 out else flushed s1 out n"
proof -
  from represents_overrun [OF r(1)] obtain d x where d: "ptr_diff ptr (eos_end s) = Some d" "d \<le> int x" by blast
  from Flush_flushed [OF r d] obtain n s1 where f: "eos_Flush Z ptr s = Some (n, s1)"
    "if had_error s1 then n = 0 \<and> (\<exists>ptr'. represents Z ok s1 ptr' out) \<and> short Z s1 out else flushed s1 out n"
    by blast
  have "represents Z ok s1 (Patch 0) out" if e: "had_error s1"
  proof -
    from f(2) e obtain ptr' where "represents Z ok s1 ptr' out" by auto
    from represents_broken [OF this e] show ?thesis by blast
  qed
  with f that show thesis by auto
qed

text \<open>\<open>Trim\<close> leaves the stream with exactly what was written, unless it was or is refused a buffer.\<close>

lemma Trim_represents:
  assumes r: "represents Z ok s ptr out"
  shows "\<exists>ptr' s' z. eos_Trim Z ptr s = Some (ptr', s') \<and> represents Z ok s' ptr' out \<and>
    eos_stream s' = Some z \<and>
    (if had_error s' then refused Z ok (zc_content Z z) out else zc_content Z z = out) \<and>
    (had_error s' \<and> (had_error s \<longrightarrow> short Z s out) \<longrightarrow> length (zc_content Z z) < length out)"
proof (cases "had_error s")
  case True
  from represents_broken [OF r True] obtain z where z: "eos_stream s = Some z"
    "refused Z ok (zc_content Z z) out" by blast
  with r True show ?thesis
    by (intro exI [of _ ptr] exI [of _ s] exI [of _ z]) (auto simp: eos_Trim_def short_def)
next
  case False
  from Flush_result [OF r False] obtain n s1 where f: "eos_Flush Z ptr s = Some (n, s1)"
    "if had_error s1 then n = 0 \<and> represents Z ok s1 (Patch 0) out \<and> short Z s1 out else flushed s1 out n" .
  show ?thesis
  proof (cases "had_error s1")
    case True
    with f(2) have "n = 0" "represents Z ok s1 (Patch 0) out" and sh: "short Z s1 out" by auto
    from represents_broken [OF this(2) True] obtain z where z: "eos_stream s1 = Some z" "ok z"
      "length (eos_buffer s1) = 32" "refused Z ok (zc_content Z z) out" by blast
    from back_up [OF z(2), of 0] obtain z' where z': "zc_BackUp Z 0 z = Some z'" "ok z'"
      "zc_content Z z' = zc_content Z z" by auto
    let ?s = "s1\<lparr> eos_stream := Some z', eos_end := Patch 0, eos_buffer_end := Patch 0 \<rparr>"
    have "eos_Trim Z ptr s = Some (Patch 0, ?s)"
      using False f(1) z z' \<open>n = 0\<close> by (simp add: eos_Trim_def back_up_stream_def)
    moreover have "represents Z ok ?s (Patch 0) out" using True z z' by (intro represents.broken [where z = z' and e = 0]) auto
    ultimately show ?thesis using True z(1,4) z'(3) sh
      by (intro exI [of _ "Patch 0"] exI [of _ ?s] exI [of _ z']) (simp add: short_def)
  next
    case err: False
    with f(2) obtain z where z: "eos_stream s1 = Some z" "ok z" "length (eos_buffer s1) = 32" "0 \<le> n"
      "n \<le> int (zc_held Z z)" "take (length (zc_content Z z) - nat n) (zc_content Z z) = out"
      by (auto simp: flushed_def)
    then have "nat n \<le> zc_held Z z" by simp
    from back_up [OF z(2) this] obtain z' where z': "zc_BackUp Z (nat n) z = Some z'" "ok z'"
      "zc_content Z z' = out" using z(6) by auto
    let ?s = "s1\<lparr> eos_stream := Some z', eos_end := Patch 0, eos_buffer_end := Patch 0 \<rparr>"
    have "eos_Trim Z ptr s = Some (Patch 0, ?s)"
      using False f(1) z z' by (simp add: eos_Trim_def back_up_stream_def)
    moreover have "represents Z ok ?s (Patch 0) out"
      using err z z' by (intro represents.in_patch [where z = z' and e = 0]) (auto simp: hole_def)
    ultimately show ?thesis using err z'(3) by (intro exI [of _ "Patch 0"] exI [of _ ?s] exI [of _ z']) simp
  qed
qed

lemma SetInitialBuffer_flushed:
  assumes "flushed s out n"
  shows "case SetInitialBuffer (eos_buffer_end s) (nat n) s of (ptr', s') \<Rightarrow>
    represents Z ok s' ptr' out \<and> \<not> had_error s' \<and> inside s' ptr'"
proof -
  from assms obtain z where z: "eos_stream s = Some z" "ok z" "length (eos_buffer s) = 32" "\<not> had_error s"
    "0 \<le> n" "n \<le> int (zc_held Z z)" "take (length (zc_content Z z) - nat n) (zc_content Z z) = out"
    "eos_buffer_end s = Patch 0 \<and> n = 0 \<or> eos_buffer_end s = Buf (buffers s) (zc_held Z z - nat n)"
    by (auto simp: flushed_def)
  show ?thesis
  proof (cases "nat n > 16")
    case True
    let ?p = "zc_held Z z - nat n"
    let ?s = "s\<lparr> eos_end := Buf (buffers s) (zc_held Z z - 16), eos_buffer_end := Null \<rparr>"
    have n: "nat n \<le> zc_held Z z" "zc_held Z z \<le> length (zc_content Z z)" using z(6) held [OF z(2)] by auto
    then have "length (zc_content Z z) - nat n = length (zc_content Z z) - zc_held Z z + ?p" by simp
    then have "represents Z ok ?s (Buf (buffers ?s) ?p) out"
      using z True n by (intro represents.in_stream [where z = z and e = "zc_held Z z - 16"]) auto
    moreover have "eos_buffer_end s = Buf (buffers s) ?p" using z(8) True by auto
    moreover have "16 \<le> n" using True by simp
    ultimately show ?thesis using True n z(4,5) by (simp add: SetInitialBuffer_def inside_def)
  next
    case False
    with z show ?thesis
      by (auto simp: SetInitialBuffer_def hole_def inside_def intro!: represents.in_patch [where z = z])
  qed
qed

lemma FlushAndResetBuffer_represents:
  assumes r: "represents Z ok s ptr out"
  shows "\<exists>ptr' s'. FlushAndResetBuffer Z ptr s = Some (ptr', s') \<and> represents Z ok s' ptr' out \<and>
    (if had_error s' then (had_error s \<longrightarrow> short Z s out) \<longrightarrow> short Z s' out else inside s' ptr')"
proof (cases "had_error s")
  case True
  from represents_broken [OF r True] have "represents Z ok s (Patch 0) out" by blast
  with True show ?thesis by (simp add: FlushAndResetBuffer_def)
next
  case False
  from Flush_result [OF r False] obtain n s1 where f: "eos_Flush Z ptr s = Some (n, s1)"
    "if had_error s1 then n = 0 \<and> represents Z ok s1 (Patch 0) out \<and> short Z s1 out else flushed s1 out n" .
  show ?thesis
  proof (cases "had_error s1")
    case True
    with False f show ?thesis by (simp add: FlushAndResetBuffer_def)
  next
    case err: False
    with f(2) have "flushed s1 out n" by simp
    from SetInitialBuffer_flushed [OF this] show ?thesis
      using False err f(1) by (auto simp: FlushAndResetBuffer_def split: prod.splits)
  qed
qed

text \<open>Trimming from inside asks for no buffer, so it cannot be refused one.\<close>

lemma Trim_inside:
  assumes r: "represents Z ok s ptr out" "\<not> had_error s" "inside s ptr"
  obtains ptr' s' z where "eos_Trim Z ptr s = Some (ptr', s')" "represents Z ok s' ptr' out" "\<not> had_error s'"
    "eos_stream s' = Some z" "ok z" "zc_content Z z = out"
proof -
  from r(3) obtain d where d: "ptr_diff ptr (eos_end s) = Some d" "d \<le> 0" by (auto simp: inside_def)
  from Flush_inside [OF r(1,2) d(1)] d(2) obtain n s1 where f: "eos_Flush Z ptr s = Some (n, s1)" "flushed s1 out n"
    by auto
  from Trim_represents [OF r(1)] obtain ptr' s' z where t: "eos_Trim Z ptr s = Some (ptr', s')"
    "represents Z ok s' ptr' out" "eos_stream s' = Some z"
    "if had_error s' then refused Z ok (zc_content Z z) out else zc_content Z z = out" by blast
  have "\<not> had_error s'" using t(1) f r(2) flushed_no_error [OF f(2)]
    by (auto simp: eos_Trim_def back_up_stream_def split: option.splits bind_splits if_splits)
  moreover have "ok z" using t(2,3) by cases auto
  ultimately show thesis using t that by simp
qed

text \<open>The byte count is the number of bytes the stream had and has been given.\<close>

lemma ByteCount_represents:
  assumes "represents Z ok s ptr out" "\<not> had_error s"
  shows "eos_ByteCount Z ptr s = Some (int (length out))"
  using assms
proof cases
  case (in_patch z e p)
  then have "e \<le> length (zc_content Z z)" using held [of z] by (auto simp: hole_def)
  with in_patch count [of z] show ?thesis by (auto simp: eos_ByteCount_def hole_def min_def of_nat_diff)
next
  case (in_stream z e p)
  then have "e + 16 \<le> length (zc_content Z z)" using held [of z] by simp
  then have "length out = length (zc_content Z z) + p - (e + 16)" using in_stream by simp
  with in_stream \<open>e + 16 \<le> length (zc_content Z z)\<close> count [of z] show ?thesis
    by (simp add: eos_ByteCount_def of_nat_diff)
next
  case broken
  with assms(2) show ?thesis by simp
qed

end

section \<open>String fields\<close>

text \<open>The size of a tag. The low three bits of a tag, its wire type, are not given here.\<close>

definition TagSize :: "u32 \<Rightarrow> nat" where
  "TagSize tag =
     (if tag < 2 ^ 7 then 1 else if tag < 2 ^ 14 then 2 else if tag < 2 ^ 21 then 3
      else if tag < 2 ^ 28 then 4 else 5)"

definition WriteLengthDelim :: "nat \<Rightarrow> nat \<Rightarrow> bytes" where
  "WriteLengthDelim num n = WriteTag (MakeTag num 2) @ WriteVarint (ucast (word_of_nat n :: u32))"

text \<open>
  The size of the string becomes an \<open>int\<close>; a string of two gigabytes would be copied with a
  negative size, and has no value here.
\<close>

definition WriteStringOutline ::
    "'s ops \<Rightarrow> nat \<Rightarrow> bytes \<Rightarrow> ptr \<Rightarrow> 's eos \<Rightarrow> (ptr \<times> 's eos) option" where
  "WriteStringOutline Z num dat ptr s =
     (if length dat < 2 ^ 31 then do {
        (ptr, s) \<leftarrow> EnsureSpace Z ptr s;
        let head = WriteLengthDelim num (length dat);
        s \<leftarrow> store_at Z ptr head s;
        eos_WriteRaw Z dat (ptr_add ptr (length head)) s
      } else None)"

text \<open>
  A string of less than 128 bytes for which there is room behind the pointer, with the sixteen bytes
  behind \<open>end_\<close>, is written at once: tag, one byte for the size, and the bytes.
\<close>

definition eos_WriteString ::
    "'s ops \<Rightarrow> nat \<Rightarrow> bytes \<Rightarrow> ptr \<Rightarrow> 's eos \<Rightarrow> (ptr \<times> 's eos) option" where
  "eos_WriteString Z num dat ptr s = do {
     d \<leftarrow> ptr_diff (eos_end s) ptr;
     if 128 \<le> length dat \<or> d + 16 - int (TagSize (MakeTag num 0)) - 1 < int (length dat) then
       WriteStringOutline Z num dat ptr s
     else do {
       let tag = WriteTag (MakeTag num 2);
       s \<leftarrow> store_at Z ptr tag s;
       let ptr = ptr_add ptr (length tag);
       s \<leftarrow> store_at Z ptr [of_nat (length dat)] s;
       let ptr = ptr_add ptr 1;
       s \<leftarrow> store_at Z ptr dat s;
       Some (ptr_add ptr (length dat), s)
     }
   }"

section \<open>Sequences of writes\<close>

text \<open>
  What a generated serializer does to the stream: \<open>EnsureSpace\<close> and up to sixteen bytes, a run of
  bytes, or a string field.
\<close>

datatype wr = Put bytes | Raw bytes | Str nat bytes

fun run_write :: "'s ops \<Rightarrow> wr \<Rightarrow> ptr \<Rightarrow> 's eos \<Rightarrow> (ptr \<times> 's eos) option" where
  "run_write Z (Put bs) ptr s = do {
     (ptr, s) \<leftarrow> EnsureSpace Z ptr s;
     s \<leftarrow> store_at Z ptr bs s;
     Some (ptr_add ptr (length bs), s)
   }"
| "run_write Z (Raw bs) ptr s = eos_WriteRaw Z bs ptr s"
| "run_write Z (Str num dat) ptr s = eos_WriteString Z num dat ptr s"

fun run_writes :: "'s ops \<Rightarrow> wr list \<Rightarrow> ptr \<Rightarrow> 's eos \<Rightarrow> (ptr \<times> 's eos) option" where
  "run_writes Z [] ptr s = Some (ptr, s)"
| "run_writes Z (w # ws) ptr s = do {
     (ptr, s) \<leftarrow> run_write Z w ptr s;
     run_writes Z ws ptr s
   }"

fun wr_bytes :: "wr \<Rightarrow> bytes" where
  "wr_bytes (Put bs) = bs"
| "wr_bytes (Raw bs) = bs"
| "wr_bytes (Str num dat) = WriteBytes num dat"

definition written :: "wr list \<Rightarrow> bytes" where
  "written ws = concat (map wr_bytes ws)"

fun wr_ok :: "wr \<Rightarrow> bool" where
  "wr_ok (Put bs) \<longleftrightarrow> bs \<noteq> [] \<and> length bs \<le> 16"
| "wr_ok (Raw bs) \<longleftrightarrow> True"
| "wr_ok (Str num dat) \<longleftrightarrow> 0 < num \<and> num < 2 ^ 29 \<and> length dat < 2 ^ 31"

lemma written_Nil [simp]: "written [] = []"
  and written_Cons [simp]: "written (w # ws) = wr_bytes w @ written ws"
  and written_append [simp]: "written (ws @ vs) = written ws @ written vs"
  by (simp_all add: written_def)

text \<open>The lengths of the heads of string fields.\<close>

lemma length_varint_le: "length (WriteVarint v) \<le> Suc i \<longleftrightarrow> unat v < 128 ^ Suc i"
  using length_varint_digits [of i "unat v"] by (metis length_WriteVarint linorder_not_less)

lemma length_varint_10: "length (WriteVarint v) \<le> 10"
proof -
  have "unat v < 2 ^ LENGTH(64)" by (rule unsigned_less)
  then show ?thesis using length_varint_le [of v 9] by simp
qed

lemma length_varint_5: "length (WriteVarint (ucast (w :: u32))) \<le> 5"
proof -
  have "unat w < 2 ^ LENGTH(32)" by (rule unsigned_less)
  then show ?thesis using length_varint_le [of "ucast w" 4] by (simp add: unat_ucast_32_64)
qed

lemma unat_MakeTag: "num < 2 ^ 29 \<Longrightarrow> t < 8 \<Longrightarrow> unat (MakeTag num t) = 8 * num + t"
  by (simp add: MakeTag_def unsigned_of_nat take_bit_nat_eq_self del: of_nat_add)

lemma length_WriteTag_size: "length (WriteTag t) = TagSize t"
proof -
  define n where "n = length (WriteTag t)"
  have n: "0 < n" "n \<le> 5" using length_varint_5 [of t] by (simp_all add: WriteTag_def n_def)
  have le: "n \<le> Suc i \<longleftrightarrow> unat t < 128 ^ Suc i" for i
    using length_varint_le [of "ucast t" i] by (simp add: WriteTag_def unat_ucast_32_64 n_def)
  from le [of 0] le [of 1] le [of 2] le [of 3] n show ?thesis
    unfolding n_def [symmetric] by (auto simp: TagSize_def word_less_nat_alt)
qed

lemma TagSize_type: "num < 2 ^ 29 \<Longrightarrow> TagSize (MakeTag num 2) = TagSize (MakeTag num 0)"
  by (auto simp: TagSize_def word_less_nat_alt unat_MakeTag)

lemma TagSize_le: "TagSize t \<le> 5"
  by (simp add: TagSize_def)

lemma size_byte: "n < 128 \<Longrightarrow> WriteVarint (word_of_nat n) = [of_nat n]"
  by (subst WriteVarint.simps) (simp add: word_le_nat_alt unsigned_of_nat take_bit_nat_eq_self)

lemma WriteLengthDelim_eq:
  "n < 2 ^ 32 \<Longrightarrow> WriteLengthDelim num n = WriteTag (MakeTag num 2) @ WriteVarint (word_of_nat n)"
  by (simp add: WriteLengthDelim_def ucast_small)

lemma length_WriteLengthDelim: "length (WriteLengthDelim num n) \<le> 10"
  using length_WriteTag_size [of "MakeTag num 2"] TagSize_le [of "MakeTag num 2"]
    length_varint_5 [of "word_of_nat n"] by (simp add: WriteLengthDelim_def)

lemma GetSize_add:
  assumes "represents Z ok s ptr out" "GetSize ptr s = Some k" "eos_end s' = eos_end s"
  shows "GetSize (ptr_add ptr n) s' = Some (k - int n)"
  using assms by cases (auto simp: GetSize_def)

context zero_copy_output
begin

lemma WriteStringOutline_appends:
  assumes r: "represents Z ok s ptr out" and dat: "length dat < 2 ^ 31"
  shows "\<exists>ptr' s'. WriteStringOutline Z num dat ptr s = Some (ptr', s') \<and>
    represents Z ok s' ptr' (out @ WriteBytes num dat) \<and> (had_error s' \<longrightarrow> short Z s' (out @ WriteBytes num dat))"
proof -
  let ?h = "WriteLengthDelim num (length dat)"
  have h: "out @ WriteBytes num dat = (out @ ?h) @ dat" "?h \<noteq> []"
    using dat by (simp_all add: WriteBytes_def WriteLengthDelim_eq)
  from EnsureSpace_room [OF r] obtain p1 s1 k where e: "EnsureSpace Z ptr s = Some (p1, s1)"
    "represents Z ok s1 p1 out" "GetSize p1 s1 = Some k" "16 \<le> k" by blast
  have l: "int (length ?h) \<le> k" using length_WriteLengthDelim [of num "length dat"] e(4) by linarith
  from store_appends [OF e(2,3) l] h(2) obtain s2 where st: "store_at Z p1 ?h s1 = Some s2"
    "represents Z ok s2 (ptr_add p1 (length ?h)) (out @ ?h)" "had_error s2 \<longrightarrow> short Z s2 (out @ ?h)" by auto
  from WriteRaw_appends [OF st(2), of dat] obtain p3 s3 where w:
    "eos_WriteRaw Z dat (ptr_add p1 (length ?h)) s2 = Some (p3, s3)" "represents Z ok s3 p3 ((out @ ?h) @ dat)"
    "dat = [] \<longrightarrow> s3 = s2" "had_error s3 \<and> dat \<noteq> [] \<longrightarrow> short Z s3 ((out @ ?h) @ dat)" by blast
  with st e dat show ?thesis unfolding h(1)
    by (cases "dat = []") (auto simp: WriteStringOutline_def Let_def)
qed

text \<open>Three stores in a row, within the room.\<close>

lemma store_three:
  assumes r: "represents Z ok s ptr out" "GetSize ptr s = Some k" "int (length a + length b + length c) \<le> k"
    "b \<noteq> []"
  shows "\<exists>s1 s2 s3. store_at Z ptr a s = Some s1 \<and> store_at Z (ptr_add ptr (length a)) b s1 = Some s2 \<and>
    store_at Z (ptr_add (ptr_add ptr (length a)) (length b)) c s2 = Some s3 \<and>
    represents Z ok s3 (ptr_add (ptr_add (ptr_add ptr (length a)) (length b)) (length c)) (out @ a @ b @ c) \<and>
    (had_error s3 \<longrightarrow> short Z s3 (out @ a @ b @ c))"
proof -
  from store_appends [OF r(1,2), of a] r(3) obtain s1 where s1: "store_at Z ptr a s = Some s1"
    "represents Z ok s1 (ptr_add ptr (length a)) (out @ a)" "eos_end s1 = eos_end s" by auto
  note g1 = GetSize_add [OF r(1,2) s1(3), of "length a"]
  from store_appends [OF s1(2) g1, of b] r(3,4) obtain s2 where
    s2: "store_at Z (ptr_add ptr (length a)) b s1 = Some s2"
    "represents Z ok s2 (ptr_add (ptr_add ptr (length a)) (length b)) ((out @ a) @ b)" "eos_end s2 = eos_end s1"
    "had_error s2 \<longrightarrow> short Z s2 ((out @ a) @ b)" by auto
  note g2 = GetSize_add [OF s1(2) g1 s2(3), of "length b"]
  from store_appends [OF s2(2) g2, of c] r(3) obtain s3 where
    s3: "store_at Z (ptr_add (ptr_add ptr (length a)) (length b)) c s2 = Some s3"
    "represents Z ok s3 (ptr_add (ptr_add (ptr_add ptr (length a)) (length b)) (length c)) (((out @ a) @ b) @ c)"
    "had_error s3 = had_error s2" "had_error s2 \<and> c \<noteq> [] \<longrightarrow> short Z s3 (((out @ a) @ b) @ c)" by auto
  have "had_error s3 \<longrightarrow> short Z s3 (out @ a @ b @ c)"
  proof (cases "c = []")
    case True
    then have "s3 = s2" using s3(1) by (simp add: store_at.simps)
    with s2(4) True show ?thesis by simp
  next
    case False
    with s3(3,4) show ?thesis by simp
  qed
  with s1(1) s2(1) s3(1,2) show ?thesis by (intro exI [of _ s1] exI [of _ s2] exI [of _ s3]) simp
qed

lemma WriteString_appends:
  assumes r: "represents Z ok s ptr out" and dat: "length dat < 2 ^ 31" and num: "num < 2 ^ 29"
  shows "\<exists>ptr' s'. eos_WriteString Z num dat ptr s = Some (ptr', s') \<and>
    represents Z ok s' ptr' (out @ WriteBytes num dat) \<and> (had_error s' \<longrightarrow> short Z s' (out @ WriteBytes num dat))"
proof -
  from represents_room [OF r] obtain k where k: "GetSize ptr s = Some (int k)"
    "ptr_diff (eos_end s) ptr = Some (int k - 16)" by blast
  let ?t = "WriteTag (MakeTag num 2)"
  show ?thesis
  proof (cases "128 \<le> length dat \<or> int k - 16 + 16 - int (TagSize (MakeTag num 0)) - 1 < int (length dat)")
    case True
    then have "eos_WriteString Z num dat ptr s = WriteStringOutline Z num dat ptr s"
      using k(2) by (auto simp: eos_WriteString_def)
    with WriteStringOutline_appends [OF r dat] show ?thesis by simp
  next
    case False
    have "int (length ?t + length [of_nat (length dat) :: byte] + length dat) \<le> int k"
      using False num by (simp add: length_WriteTag_size TagSize_type)
    from store_three [OF r k(1) this] obtain s1 s2 s3 where
      "store_at Z ptr ?t s = Some s1" "store_at Z (ptr_add ptr (length ?t)) [of_nat (length dat)] s1 = Some s2"
      "store_at Z (ptr_add (ptr_add ptr (length ?t)) 1) dat s2 = Some s3"
      "represents Z ok s3 (ptr_add (ptr_add (ptr_add ptr (length ?t)) 1) (length dat)) (out @ ?t @ [of_nat (length dat)] @ dat)"
      "had_error s3 \<longrightarrow> short Z s3 (out @ ?t @ [of_nat (length dat)] @ dat)" by auto
    moreover have "WriteBytes num dat = ?t @ [of_nat (length dat)] @ dat"
      using False by (simp add: WriteBytes_def size_byte)
    ultimately show ?thesis using False k(2) by (simp add: eos_WriteString_def Let_def)
  qed
qed

text \<open>Writes append, and whoever was refused a buffer has less than was written.\<close>

lemma run_write_appends:
  assumes r: "represents Z ok s ptr out" and "wr_ok w" and sh: "had_error s \<longrightarrow> short Z s out"
  shows "\<exists>ptr' s'. run_write Z w ptr s = Some (ptr', s') \<and> represents Z ok s' ptr' (out @ wr_bytes w) \<and>
    (had_error s' \<longrightarrow> short Z s' (out @ wr_bytes w))"
proof (cases w)
  case (Put bs)
  from EnsureSpace_room [OF r] obtain p1 s1 k where e: "EnsureSpace Z ptr s = Some (p1, s1)"
    "represents Z ok s1 p1 out" "GetSize p1 s1 = Some k" "16 \<le> k" by blast
  moreover have "int (length bs) \<le> k" "bs \<noteq> []" using assms(2) Put e(4) by auto
  ultimately show ?thesis using store_appends [OF e(2,3), of bs] Put by auto
next
  case (Raw bs)
  with WriteRaw_appends [OF r, of bs] sh show ?thesis by (cases "bs = []") auto
next
  case (Str num dat)
  with WriteString_appends [OF r] assms(2) show ?thesis by auto
qed

lemma run_writes_appends:
  assumes "represents Z ok s ptr out" "list_all wr_ok ws" "had_error s \<longrightarrow> short Z s out"
  shows "\<exists>ptr' s'. run_writes Z ws ptr s = Some (ptr', s') \<and> represents Z ok s' ptr' (out @ written ws) \<and>
    (had_error s' \<longrightarrow> short Z s' (out @ written ws))"
  using assms
proof (induction ws arbitrary: s ptr out)
  case Nil
  then show ?case by simp
next
  case (Cons w ws)
  from run_write_appends [OF Cons.prems(1) _ Cons.prems(3), of w] Cons.prems(2) obtain p1 s1 where
    "run_write Z w ptr s = Some (p1, s1)" "represents Z ok s1 p1 (out @ wr_bytes w)"
    "had_error s1 \<longrightarrow> short Z s1 (out @ wr_bytes w)" by auto
  with Cons.IH [OF this(2) _ this(3)] Cons.prems(2) show ?case by simp
qed

end

text \<open>An array refuses when it is full.\<close>

lemma array_refused:
  assumes "refused array_ops (array_ok n rest) D out"
  shows "length D = n"
proof -
  from assms obtain y y' where y: "array_ok n rest y" "aos_Next y = (None, y')"
    "take (aos_position y) (aos_data y) = D" by (auto simp: refused_def)
  then have "aos_position y = n" "n \<le> length (aos_data y)"
    by (auto simp: aos_Next_def array_ok_def Let_def split: if_splits)
  with y(3) show ?thesis by (metis length_take min_absorb2)
qed

end
