(* ===== verification/Coded.thy ===== *)
theory Coded
  imports Outstream
begin

text \<open>
  The class \<^verbatim>\<open>CodedOutputStream\<close> of \<^verbatim>\<open>io/coded_stream.h\<close>: a write position together with the stream of
  \<open>Outstream\<close>, and the operations of that stream that only this class calls, \<^verbatim>\<open>Skip\<close> and the two that
  hand out the memory of the underlying stream to write into it directly.

  A program over a coded stream is a list of operations. Whatever it does, and whatever the
  underlying stream does within its contract, nothing is accessed out of bounds, \<open>HadError\<close> says
  truthfully whether all that was written can reach the stream, and destroying the object leaves the
  stream with exactly that.
\<close>

section \<open>Skipping and direct access\<close>

text \<open>
  The loop of \<open>Skip\<close>: whole buffers are passed over. The result is the position and the room behind
  it, or nothing when the stream refuses a buffer.
\<close>

partial_function (option) skip_loop ::
    "'s ops \<Rightarrow> nat \<Rightarrow> nat \<Rightarrow> ptr \<Rightarrow> 's eos \<Rightarrow> ((ptr \<times> nat) option \<times> 's eos) option" where
  "skip_loop Z count sz dat s =
     (if count > sz then
        (case eos_stream s of None \<Rightarrow> None
         | Some z \<Rightarrow>
             (case zc_Next Z z of
                (None, z') \<Rightarrow> Some (None, s\<lparr> eos_stream := Some z', buffers := Suc (buffers s) \<rparr>)
              | (Some n, z') \<Rightarrow>
                  (let s' = s\<lparr> eos_stream := Some z', buffers := Suc (buffers s) \<rparr>
                   in skip_loop Z (count - sz) n (Buf (buffers s') 0) s')))
      else Some (Some (ptr_add dat count, sz - count), s))"

definition eos_Skip :: "'s ops \<Rightarrow> int \<Rightarrow> ptr \<Rightarrow> 's eos \<Rightarrow> (bool \<times> ptr \<times> 's eos) option" where
  "eos_Skip Z count ptr s =
     (if count < 0 then Some (False, ptr, s)
      else if had_error s then Some (False, Patch 0, s)
      else do {
        (n, s) \<leftarrow> eos_Flush Z ptr s;
        if had_error s then Some (False, Patch 0, s)
        else do {
          (r, s) \<leftarrow> skip_loop Z (nat count) (nat n) (eos_buffer_end s) s;
          Some (case r of
            None \<Rightarrow> (case eos_Error s of (ptr, s) \<Rightarrow> (False, ptr, s))
          | Some (dat, k) \<Rightarrow> (case SetInitialBuffer dat k s of (ptr, s) \<Rightarrow> (True, ptr, s)))
        }
      })"

text \<open>
  The rest of the current buffer, or the next one that is not empty. A loop while the size is zero
  is one over \<open>next_nonempty\<close> when it is zero at the start.
\<close>

definition GetDirectBufferPointer ::
    "'s ops \<Rightarrow> ptr \<Rightarrow> 's eos \<Rightarrow> ((ptr \<times> nat) option \<times> ptr \<times> 's eos) option" where
  "GetDirectBufferPointer Z ptr s =
     (if had_error s then Some (None, Patch 0, s)
      else do {
        (n, s) \<leftarrow> eos_Flush Z ptr s;
        if had_error s then Some (None, Patch 0, s)
        else do {
          (r, s) \<leftarrow> (if n = 0 then do {
                (r, s) \<leftarrow> next_nonempty Z s;
                Some (map_option (\<lambda>m. (Buf (buffers s) 0, m)) r, s)
              } else Some (Some (eos_buffer_end s, nat n), s));
          Some (case r of
            None \<Rightarrow> (case eos_Error s of (ptr, s) \<Rightarrow> (None, ptr, s))
          | Some (dat, k) \<Rightarrow> (case SetInitialBuffer dat k s of (ptr, s) \<Rightarrow> (Some (dat, k), ptr, s)))
        }
      })"

text \<open>A pointer to \<open>n\<close> bytes if the current buffer has as many, which the position then passes over.\<close>

definition GetDirectBufferForNBytesAndAdvance ::
    "'s ops \<Rightarrow> nat \<Rightarrow> ptr \<Rightarrow> 's eos \<Rightarrow> (ptr \<times> ptr \<times> 's eos) option" where
  "GetDirectBufferForNBytesAndAdvance Z n ptr s =
     (if had_error s then Some (Null, Patch 0, s)
      else do {
        (r, s) \<leftarrow> eos_Flush Z ptr s;
        if had_error s then Some (Null, Patch 0, s)
        else if r \<ge> int n then
          (case SetInitialBuffer (ptr_add (eos_buffer_end s) n) (nat (r - int n)) s of
             (ptr, s') \<Rightarrow> Some (eos_buffer_end s, ptr, s'))
        else (case SetInitialBuffer (eos_buffer_end s) (nat r) s of (ptr, s') \<Rightarrow> Some (Null, ptr, s'))
      })"

section \<open>The class\<close>

record 's coded =
  cos_impl :: "'s eos"
  cos_cur :: ptr
  cos_start_count :: int

text \<open>
  Construction may ask the stream for its first buffer at once; a refusal or an empty buffer is not an
  error.
\<close>

definition InitEagerly :: "'s ops \<Rightarrow> ptr \<Rightarrow> 's eos \<Rightarrow> (ptr \<times> 's eos) option" where
  "InitEagerly Z p s = do {
     z \<leftarrow> eos_stream s;
     let (r, z') = zc_Next Z z;
     let s' = s\<lparr> eos_stream := Some z', buffers := Suc (buffers s) \<rparr>;
     Some (case r of
       Some n \<Rightarrow> if n > 0 then SetInitialBuffer (Buf (buffers s') 0) n s' else (p, s')
     | None \<Rightarrow> (p, s'))
   }"

definition CodedOutputStream :: "'s ops \<Rightarrow> bytes \<Rightarrow> bool \<Rightarrow> 's \<Rightarrow> 's coded option" where
  "CodedOutputStream Z junk eager_init stream = do {
     let (p, s) = eos_new junk stream;
     (p, s) \<leftarrow> (if eager_init then InitEagerly Z p s else Some (p, s));
     Some \<lparr> cos_impl = s, cos_cur = p, cos_start_count = int (zc_ByteCount Z stream) \<rparr>
   }"

text \<open>Most operations are one of the stream, which moves the position.\<close>

definition on_impl :: "(ptr \<Rightarrow> 's eos \<Rightarrow> (ptr \<times> 's eos) option) \<Rightarrow> 's coded \<Rightarrow> 's coded option" where
  "on_impl f c = do {
     (p, s) \<leftarrow> f (cos_cur c) (cos_impl c);
     Some (c\<lparr> cos_impl := s, cos_cur := p \<rparr>)
   }"

definition coded_HadError :: "'s ops \<Rightarrow> 's coded \<Rightarrow> (bool \<times> 's coded) option" where
  "coded_HadError Z c = do {
     c \<leftarrow> on_impl (FlushAndResetBuffer Z) c;
     Some (had_error (cos_impl c), c)
   }"

definition coded_Trim :: "'s ops \<Rightarrow> 's coded \<Rightarrow> 's coded option" where
  "coded_Trim Z = on_impl (eos_Trim Z)"

definition coded_dtor :: "'s ops \<Rightarrow> 's coded \<Rightarrow> 's option" where
  "coded_dtor Z c = do {
     c \<leftarrow> coded_Trim Z c;
     eos_stream (cos_impl c)
   }"

definition coded_Skip :: "'s ops \<Rightarrow> int \<Rightarrow> 's coded \<Rightarrow> (bool \<times> 's coded) option" where
  "coded_Skip Z count c = do {
     (b, p, s) \<leftarrow> eos_Skip Z count (cos_cur c) (cos_impl c);
     Some (b, c\<lparr> cos_impl := s, cos_cur := p \<rparr>)
   }"

text \<open>The bytes written since the object was created, as an \<open>int\<close>.\<close>

definition coded_ByteCount :: "'s ops \<Rightarrow> 's coded \<Rightarrow> int option" where
  "coded_ByteCount Z c =
     map_option (\<lambda>n. sint (word_of_int (n - cos_start_count c) :: u32)) (eos_ByteCount Z (cos_cur c) (cos_impl c))"

definition coded_WriteRaw :: "'s ops \<Rightarrow> bytes \<Rightarrow> 's coded \<Rightarrow> 's coded option" where
  "coded_WriteRaw Z bs = on_impl (eos_WriteRaw Z bs)"

text \<open>The size of a string is cast to \<open>int\<close>; from two gigabytes on it is negative.\<close>

definition coded_WriteString :: "'s ops \<Rightarrow> bytes \<Rightarrow> 's coded \<Rightarrow> 's coded option" where
  "coded_WriteString Z bs c = (if length bs < 2 ^ 31 then coded_WriteRaw Z bs c else None)"

definition WriteLittleEndian32ToArray :: "u32 \<Rightarrow> bytes" where
  "WriteLittleEndian32ToArray v =
     [ucast v, ucast (drop_bit 8 v), ucast (drop_bit 16 v), ucast (drop_bit 24 v)]"

definition WriteLittleEndian64ToArray :: "u64 \<Rightarrow> bytes" where
  "WriteLittleEndian64ToArray v =
     (let part0 = ucast v :: u32; part1 = ucast (drop_bit 32 v) :: u32
      in [ucast part0, ucast (drop_bit 8 part0), ucast (drop_bit 16 part0), ucast (drop_bit 24 part0),
          ucast part1, ucast (drop_bit 8 part1), ucast (drop_bit 16 part1), ucast (drop_bit 24 part1)])"

definition WriteLittleEndian32 :: "'s ops \<Rightarrow> u32 \<Rightarrow> 's coded \<Rightarrow> 's coded option" where
  "WriteLittleEndian32 Z v = on_impl (run_write Z (Put (WriteLittleEndian32ToArray v)))"

definition WriteLittleEndian64 :: "'s ops \<Rightarrow> u64 \<Rightarrow> 's coded \<Rightarrow> 's coded option" where
  "WriteLittleEndian64 Z v = on_impl (run_write Z (Put (WriteLittleEndian64ToArray v)))"

definition coded_WriteVarint32 :: "'s ops \<Rightarrow> u32 \<Rightarrow> 's coded \<Rightarrow> 's coded option" where
  "coded_WriteVarint32 Z v = on_impl (run_write Z (Put (WriteVarint (ucast v))))"

definition coded_WriteVarint64 :: "'s ops \<Rightarrow> u64 \<Rightarrow> 's coded \<Rightarrow> 's coded option" where
  "coded_WriteVarint64 Z v = on_impl (run_write Z (Put (WriteVarint v)))"

definition WriteVarint32SignExtended :: "'s ops \<Rightarrow> u32 \<Rightarrow> 's coded \<Rightarrow> 's coded option" where
  "WriteVarint32SignExtended Z v = coded_WriteVarint64 Z (scast v)"

definition coded_WriteTag :: "'s ops \<Rightarrow> u32 \<Rightarrow> 's coded \<Rightarrow> 's coded option" where
  "coded_WriteTag = coded_WriteVarint32"

text \<open>
  What the comment of the class recommends: write into the memory of the stream if there is enough,
  and through the stream if not.
\<close>

definition write_direct :: "'s ops \<Rightarrow> bytes \<Rightarrow> 's coded \<Rightarrow> 's coded option" where
  "write_direct Z bs c = do {
     (buffer, p, s) \<leftarrow> GetDirectBufferForNBytesAndAdvance Z (length bs) (cos_cur c) (cos_impl c);
     let c = c\<lparr> cos_impl := s, cos_cur := p \<rparr>;
     if buffer \<noteq> Null then do {
       s \<leftarrow> store_at Z buffer bs (cos_impl c);
       Some (c\<lparr> cos_impl := s \<rparr>)
     } else coded_WriteRaw Z bs c
   }"

section \<open>Programs\<close>

datatype cop = CRaw bytes | CString bytes | CLittleEndian32 u32 | CLittleEndian64 u64 | CVarint32 u32
  | CVarint64 u64 | CSignExtended u32 | CTag u32 | CDirect bytes | CHadError | CTrim

fun run_cop :: "'s ops \<Rightarrow> cop \<Rightarrow> 's coded \<Rightarrow> 's coded option" where
  "run_cop Z (CRaw bs) c = coded_WriteRaw Z bs c"
| "run_cop Z (CString bs) c = coded_WriteString Z bs c"
| "run_cop Z (CLittleEndian32 v) c = WriteLittleEndian32 Z v c"
| "run_cop Z (CLittleEndian64 v) c = WriteLittleEndian64 Z v c"
| "run_cop Z (CVarint32 v) c = coded_WriteVarint32 Z v c"
| "run_cop Z (CVarint64 v) c = coded_WriteVarint64 Z v c"
| "run_cop Z (CSignExtended v) c = WriteVarint32SignExtended Z v c"
| "run_cop Z (CTag v) c = coded_WriteTag Z v c"
| "run_cop Z (CDirect bs) c = write_direct Z bs c"
| "run_cop Z CHadError c = map_option snd (coded_HadError Z c)"
| "run_cop Z CTrim c = coded_Trim Z c"

fun run_cops :: "'s ops \<Rightarrow> cop list \<Rightarrow> 's coded \<Rightarrow> 's coded option" where
  "run_cops Z [] c = Some c"
| "run_cops Z (p # ps) c = do {
     c \<leftarrow> run_cop Z p c;
     run_cops Z ps c
   }"

text \<open>What an operation adds, and how long its bytes may be.\<close>

fun cop_bytes :: "cop \<Rightarrow> bytes" where
  "cop_bytes (CRaw bs) = bs"
| "cop_bytes (CString bs) = bs"
| "cop_bytes (CLittleEndian32 v) = WriteLittleEndian32ToArray v"
| "cop_bytes (CLittleEndian64 v) = WriteLittleEndian64ToArray v"
| "cop_bytes (CVarint32 v) = WriteVarint (ucast v)"
| "cop_bytes (CVarint64 v) = WriteVarint v"
| "cop_bytes (CSignExtended v) = WriteVarint (scast v)"
| "cop_bytes (CTag v) = WriteVarint (ucast v)"
| "cop_bytes (CDirect bs) = bs"
| "cop_bytes CHadError = []"
| "cop_bytes CTrim = []"

definition all_bytes :: "cop list \<Rightarrow> bytes" where
  "all_bytes ps = concat (map cop_bytes ps)"

lemma all_bytes_simps [simp]: "all_bytes [] = []" "all_bytes (p # ps) = cop_bytes p @ all_bytes ps"
  by (simp_all add: all_bytes_def)

text \<open>A session: construct, run, ask for errors, destroy.\<close>

definition coded_session :: "'s ops \<Rightarrow> bytes \<Rightarrow> bool \<Rightarrow> cop list \<Rightarrow> 's \<Rightarrow> (bool \<times> 's) option" where
  "coded_session Z junk eager_init ps stream = do {
     c \<leftarrow> CodedOutputStream Z junk eager_init stream;
     c \<leftarrow> run_cops Z ps c;
     (err, c) \<leftarrow> coded_HadError Z c;
     z \<leftarrow> coded_dtor Z c;
     Some (err, z)
   }"

section \<open>What a program leaves\<close>

definition follows :: "'s ops \<Rightarrow> ('s \<Rightarrow> bool) \<Rightarrow> 's coded \<Rightarrow> bytes \<Rightarrow> bool" where
  "follows Z ok c out \<longleftrightarrow> represents Z ok (cos_impl c) (cos_cur c) out \<and>
     (had_error (cos_impl c) \<longrightarrow> short Z (cos_impl c) out)"

fun cop_ok :: "cop \<Rightarrow> bool" where
  "cop_ok (CString bs) \<longleftrightarrow> length bs < 2 ^ 31"
| "cop_ok _ \<longleftrightarrow> True"

lemma SetInitialBuffer_data [simp]:
  "SetInitialBuffer d k (s\<lparr> eos_buffer_end := b \<rparr>) = SetInitialBuffer d k s"
  by (simp add: SetInitialBuffer_def)

lemma SetInitialBuffer_stream:
  "SetInitialBuffer d k s = (p, s') \<Longrightarrow>
     SetInitialBuffer d k (s\<lparr> eos_stream := z \<rparr>) = (p, s'\<lparr> eos_stream := z \<rparr>)"
  by (auto simp: SetInitialBuffer_def split: if_splits)

lemma ptr_add_0 [simp]: "ptr_add p 0 = p"
  by (cases p) simp_all

context zero_copy_output
begin

lemma SetInitialBuffer_at:
  assumes "flushed (s\<lparr> eos_buffer_end := d \<rparr>) out n"
  obtains p s' where "SetInitialBuffer d (nat n) s = (p, s')" "represents Z ok s' p out" "\<not> had_error s'" "inside s' p"
  using SetInitialBuffer_flushed [OF assms] by (auto split: prod.splits)

text \<open>Construction, with or without a first buffer.\<close>

lemma constructed:
  assumes "ok z" "length junk = 32"
  shows "\<exists>c. CodedOutputStream Z junk eager z = Some c \<and> follows Z ok c (zc_content Z z) \<and>
    cos_start_count c = int (length (zc_content Z z)) \<and> \<not> had_error (cos_impl c)"
proof -
  define s where "s = snd (eos_new junk z)"
  have n: "eos_new junk z = (Patch 0, s)" "\<not> had_error s" "eos_stream s = Some z" "length (eos_buffer s) = 32"
    "eos_end s = Patch 0" "eos_buffer_end s = Patch 0"
    using assms by (auto simp: s_def eos_new_def)
  have r: "represents Z ok s (Patch 0) (zc_content Z z)" using represents_new [where ok = ok and z = z] assms n(1) by blast
  obtain x z' where x: "zc_Next Z z = (x, z')" by (cases "zc_Next Z z")
  let ?s = "s\<lparr> eos_stream := Some z', buffers := Suc (buffers s) \<rparr>"
  have same: "represents Z ok ?s (Patch 0) (zc_content Z z)" if "ok z'" "zc_content Z z' = zc_content Z z"
    using that n by (intro represents.in_patch [where z = z' and e = 0]) (auto simp: hole_def)
  have "\<exists>p' s'. InitEagerly Z (Patch 0) s = Some (p', s') \<and> represents Z ok s' p' (zc_content Z z) \<and> \<not> had_error s'"
  proof (cases x)
    case None
    with x next_none [OF assms(1)] same n show ?thesis by (simp add: InitEagerly_def)
  next
    case (Some k)
    note z' = next_some [OF assms(1) x [unfolded Some]]
    show ?thesis
    proof (cases "k = 0")
      case True
      then have "zc_content Z z' = zc_content Z z" using z' by (metis add_0_right order_refl take_all)
      with x Some z' True n same show ?thesis by (simp add: InitEagerly_def)
    next
      case False
      have "flushed (?s\<lparr> eos_buffer_end := Buf (buffers ?s) 0 \<rparr>) (zc_content Z z) (int k)"
        using n z' False by (auto simp: flushed_def)
      from SetInitialBuffer_at [OF this] obtain p' s' where
        "SetInitialBuffer (Buf (buffers ?s) 0) (nat (int k)) ?s = (p', s')"
        "represents Z ok s' p' (zc_content Z z)" "\<not> had_error s'" .
      with x Some False n show ?thesis by (simp add: InitEagerly_def)
    qed
  qed
  with n r count [OF assms(1)] show ?thesis by (auto simp: CodedOutputStream_def follows_def)
qed

text \<open>Writing into the memory of the stream, or through it.\<close>

lemma written_raw:
  assumes "follows Z ok c out"
  shows "\<exists>c'. coded_WriteRaw Z bs c = Some c' \<and> follows Z ok c' (out @ bs) \<and> cos_start_count c' = cos_start_count c"
  using WriteRaw_appends [of "cos_impl c" "cos_cur c" out bs] assms
  by (cases "bs = []") (auto simp: coded_WriteRaw_def on_impl_def follows_def)

lemma stored_direct:
  assumes f: "flushed s out r" and n: "int (length bs) \<le> r" "bs \<noteq> []"
  obtains p s1 s2 where
    "SetInitialBuffer (ptr_add (eos_buffer_end s) (length bs)) (nat (r - int (length bs))) s = (p, s1)"
    "store_at Z (eos_buffer_end s) bs s1 = Some s2" "represents Z ok s2 p (out @ bs)" "\<not> had_error s2"
    "eos_buffer_end s \<noteq> Null"
proof -
  let ?n = "length bs"
  from f n obtain z where z: "eos_stream s = Some z" "ok z" "length (eos_buffer s) = 32" "\<not> had_error s"
    "0 \<le> r" "r \<le> int (zc_held Z z)" "take (length (zc_content Z z) - nat r) (zc_content Z z) = out"
    "eos_buffer_end s = Buf (buffers s) (zc_held Z z - nat r)"
    by (auto simp: flushed_def)
  have i: "zc_held Z z - nat r + ?n \<le> zc_held Z z" using z(5,6) n(1) by linarith
  from store [OF z(2) i] obtain z' where z': "zc_store Z (zc_held Z z - nat r) bs z = Some z'" "ok z'"
    "zc_held Z z' = zc_held Z z"
    "zc_content Z z' = patched (zc_content Z z) (length (zc_content Z z) - zc_held Z z + (zc_held Z z - nat r)) bs"
    by blast
  have h: "length (zc_content Z z) - zc_held Z z + (zc_held Z z - nat r) = length (zc_content Z z) - nat r"
    "nat r \<le> length (zc_content Z z)" using held [OF z(2)] z(5,6) by linarith+
  have le: "length (zc_content Z z) - nat r + ?n \<le> length (zc_content Z z)" using h(2) z(5) n(1) by linarith
  have "length (zc_content Z z) - nat (r - int ?n) = length (zc_content Z z) - nat r + ?n" using h(2) n(1) by linarith
  then have c: "take (length (zc_content Z z') - nat (r - int ?n)) (zc_content Z z') = out @ bs"
    using take_patched [OF le] le z(7) by (simp add: z'(4) h(1))
  let ?s = "s\<lparr> eos_stream := Some z' \<rparr>" and ?d = "ptr_add (eos_buffer_end s) ?n"
  have "zc_held Z z - nat r + ?n = zc_held Z z' - nat (r - int ?n)" using z(5,6) z'(3) n(1) by linarith
  then have "flushed (?s\<lparr> eos_buffer_end := ?d \<rparr>) (out @ bs) (r - int ?n)"
    using z z' c n(1) by (auto simp: flushed_def)
  from SetInitialBuffer_at [OF this] obtain p s2 where
    s2: "SetInitialBuffer ?d (nat (r - int ?n)) ?s = (p, s2)" "represents Z ok s2 p (out @ bs)" "\<not> had_error s2" .
  obtain p1 s1 where s1: "SetInitialBuffer ?d (nat (r - int ?n)) s = (p1, s1)"
    by (cases "SetInitialBuffer ?d (nat (r - int ?n)) s")
  have "eos_stream s1 = Some z" "buffers s1 = buffers s" using s1 z(1) by (auto simp: SetInitialBuffer_def split: if_splits)
  with s1 s2 SetInitialBuffer_stream [OF s1, of "Some z'"] z(8) z'(1) n(2) show thesis
    by (intro that [of p s1 s2]) (auto simp: store_at.simps)
qed

lemma written_direct:
  assumes "follows Z ok c out"
  shows "\<exists>c'. write_direct Z bs c = Some c' \<and> follows Z ok c' (out @ bs) \<and> cos_start_count c' = cos_start_count c"
proof -
  let ?s = "cos_impl c" and ?p = "cos_cur c"
  have r: "represents Z ok ?s ?p out" and sh: "had_error ?s \<longrightarrow> short Z ?s out"
    using assms by (simp_all add: follows_def)
  have raw: "\<exists>c'. coded_WriteRaw Z bs (c\<lparr> cos_impl := s, cos_cur := p \<rparr>) = Some c' \<and> follows Z ok c' (out @ bs) \<and>
      cos_start_count c' = cos_start_count c"
    if "represents Z ok s p out" "had_error s \<longrightarrow> short Z s out" for s p
    using that written_raw [of "c\<lparr> cos_impl := s, cos_cur := p \<rparr>" out bs] by (simp add: follows_def)
  show ?thesis
  proof (cases "had_error ?s")
    case True
    from represents_broken [OF r True] have "represents Z ok ?s (Patch 0) out" by blast
    from raw [OF this sh] True show ?thesis by (simp add: write_direct_def GetDirectBufferForNBytesAndAdvance_def)
  next
    case False
    from Flush_result [OF r False] obtain n s1 where f: "eos_Flush Z ?p ?s = Some (n, s1)"
      "if had_error s1 then n = 0 \<and> represents Z ok s1 (Patch 0) out \<and> short Z s1 out else flushed s1 out n" .
    show ?thesis
    proof (cases "had_error s1")
      case True
      with raw [of s1 "Patch 0"] f False show ?thesis
        by (simp add: write_direct_def GetDirectBufferForNBytesAndAdvance_def)
    next
      case err: False
      then have fl: "flushed s1 out n" using f(2) by simp
      show ?thesis
      proof (cases "bs \<noteq> [] \<and> int (length bs) \<le> n")
        case True
        from stored_direct [OF fl] True obtain p s2 s3 where
          "SetInitialBuffer (ptr_add (eos_buffer_end s1) (length bs)) (nat (n - int (length bs))) s1 = (p, s2)"
          "store_at Z (eos_buffer_end s1) bs s2 = Some s3" "represents Z ok s3 p (out @ bs)" "\<not> had_error s3"
          "eos_buffer_end s1 \<noteq> Null" by metis
        with False err f(1) True show ?thesis
          by (auto simp: write_direct_def GetDirectBufferForNBytesAndAdvance_def follows_def)
      next
        case no: False
        have "flushed (s1\<lparr> eos_buffer_end := eos_buffer_end s1 \<rparr>) out n" using fl by simp
        from SetInitialBuffer_at [OF this] obtain p s2 where
          s2: "SetInitialBuffer (eos_buffer_end s1) (nat n) s1 = (p, s2)" "represents Z ok s2 p out" "\<not> had_error s2" .
        have b: "eos_buffer_end s1 \<noteq> Null" "0 \<le> n" using fl by (auto simp: flushed_def)
        show ?thesis
        proof (cases "bs = []")
          case True
          with False err f(1) s2 b show ?thesis
            by (auto simp: write_direct_def GetDirectBufferForNBytesAndAdvance_def follows_def store_at.simps)
        next
          case ne: False
          with no have "\<not> int (length bs) \<le> n" by simp
          with False err f(1) s2 raw [of s2 p] show ?thesis
            by (auto simp: write_direct_def GetDirectBufferForNBytesAndAdvance_def)
        qed
      qed
    qed
  qed
qed

text \<open>Every operation writes its bytes, and nothing else.\<close>

lemma on_impl_write:
  assumes "follows Z ok c out" "wr_ok w"
  shows "\<exists>c'. on_impl (run_write Z w) c = Some c' \<and> follows Z ok c' (out @ wr_bytes w) \<and>
    cos_start_count c' = cos_start_count c"
  using run_write_appends [of "cos_impl c" "cos_cur c" out w] assms by (auto simp: on_impl_def follows_def)

lemma trimmed:
  assumes "follows Z ok c out"
  shows "\<exists>c'. coded_Trim Z c = Some c' \<and> follows Z ok c' out \<and> cos_start_count c' = cos_start_count c"
  using Trim_represents [of "cos_impl c" "cos_cur c" out] assms
  by (fastforce simp: coded_Trim_def on_impl_def follows_def short_def)

lemma asked:
  assumes "follows Z ok c out"
  shows "\<exists>b c'. coded_HadError Z c = Some (b, c') \<and> follows Z ok c' out \<and> cos_start_count c' = cos_start_count c \<and>
    b = had_error (cos_impl c') \<and> (\<not> b \<longrightarrow> inside (cos_impl c') (cos_cur c'))"
proof -
  have "represents Z ok (cos_impl c) (cos_cur c) out" "had_error (cos_impl c) \<longrightarrow> short Z (cos_impl c) out"
    using assms by (simp_all add: follows_def)
  with FlushAndResetBuffer_represents [OF this(1)] show ?thesis
    by (fastforce simp: coded_HadError_def on_impl_def follows_def split: if_splits)
qed

lemma run_cop_follows:
  assumes f: "follows Z ok c out" and ok: "cop_ok p"
  shows "\<exists>c'. run_cop Z p c = Some c' \<and> follows Z ok c' (out @ cop_bytes p) \<and> cos_start_count c' = cos_start_count c"
proof -
  have put: "\<exists>c'. on_impl (run_write Z (Put bs)) c = Some c' \<and> follows Z ok c' (out @ bs) \<and>
      cos_start_count c' = cos_start_count c" if "bs \<noteq> []" "length bs \<le> 16" for bs
    using on_impl_write [OF f, of "Put bs"] that by simp
  have v: "length (WriteVarint x) \<le> 16" for x using length_varint_10 [of x] by simp
  show ?thesis
  proof (cases p)
    case CHadError
    with asked [OF f] show ?thesis by auto
  qed (use f ok put v written_raw [OF f] written_direct [OF f] trimmed [OF f] in
    \<open>auto simp: coded_WriteString_def WriteLittleEndian32_def WriteLittleEndian64_def coded_WriteVarint32_def
      coded_WriteVarint64_def WriteVarint32SignExtended_def coded_WriteTag_def WriteLittleEndian32ToArray_def
      WriteLittleEndian64ToArray_def Let_def\<close>)
qed

lemma run_cops_follows:
  "follows Z ok c out \<Longrightarrow> list_all cop_ok ps \<Longrightarrow>
     \<exists>c'. run_cops Z ps c = Some c' \<and> follows Z ok c' (out @ all_bytes ps) \<and> cos_start_count c' = cos_start_count c"
proof (induction ps arbitrary: c out)
  case (Cons p ps)
  then have "cop_ok p" by simp
  from run_cop_follows [OF Cons.prems(1) this] obtain c1 where "run_cop Z p c = Some c1"
    "follows Z ok c1 (out @ cop_bytes p)" "cos_start_count c1 = cos_start_count c" by blast
  with Cons.IH [OF this(2)] Cons.prems(2) show ?case by simp
qed simp

text \<open>
  What \<open>HadError\<close> says at the end decides: either the stream has all that was written, or a first part
  of it and has refused more.
\<close>

lemma session_truthful:
  assumes "ok z" "length junk = 32" "list_all cop_ok ps"
  shows "\<exists>err z'. coded_session Z junk eager ps z = Some (err, z') \<and> ok z' \<and>
    (let out = zc_content Z z @ all_bytes ps
     in if err then refused Z ok (zc_content Z z') out \<and> length (zc_content Z z') < length out
        else zc_content Z z' = out)"
proof -
  let ?out = "zc_content Z z @ all_bytes ps"
  from constructed [OF assms(1,2)] obtain c0 where c0: "CodedOutputStream Z junk eager z = Some c0"
    "follows Z ok c0 (zc_content Z z)" by blast
  from run_cops_follows [OF c0(2) assms(3)] obtain c1 where c1: "run_cops Z ps c0 = Some c1"
    "follows Z ok c1 ?out" by blast
  from asked [OF c1(2)] obtain b c2 where c2: "coded_HadError Z c1 = Some (b, c2)" "follows Z ok c2 ?out"
    "b = had_error (cos_impl c2)" "\<not> b \<longrightarrow> inside (cos_impl c2) (cos_cur c2)" by blast
  have r: "represents Z ok (cos_impl c2) (cos_cur c2) ?out" using c2(2) by (simp add: follows_def)
  show ?thesis
  proof (cases b)
    case True
    then have e: "had_error (cos_impl c2)" "short Z (cos_impl c2) ?out" using c2(2,3) by (simp_all add: follows_def)
    from represents_broken [OF r e(1)] obtain z' where z': "eos_stream (cos_impl c2) = Some z'" "ok z'"
      "refused Z ok (zc_content Z z') ?out" by blast
    have "length (zc_content Z z') < length ?out" using e(2) z'(1) by (auto simp: short_def)
    moreover have "coded_dtor Z c2 = Some z'" using e(1) z'(1)
      by (simp add: coded_dtor_def coded_Trim_def on_impl_def eos_Trim_def)
    ultimately show ?thesis using c0(1) c1(1) c2(1) z' True
      by (intro exI [of _ True] exI [of _ z']) (simp add: coded_session_def)
  next
    case False
    then have "\<not> had_error (cos_impl c2)" "inside (cos_impl c2) (cos_cur c2)" using c2(3,4) by simp_all
    from Trim_inside [OF r this] obtain p' s' z' where "eos_Trim Z (cos_cur c2) (cos_impl c2) = Some (p', s')"
      "eos_stream s' = Some z'" "ok z'" "zc_content Z z' = ?out" by metis
    then show ?thesis using c0(1) c1(1) c2(1) False
      by (intro exI [of _ False] exI [of _ z'])
        (simp add: coded_session_def coded_dtor_def coded_Trim_def on_impl_def)
  qed
qed

text \<open>The byte count is that of the bytes written, while it fits an \<open>int\<close>.\<close>

lemma counted:
  assumes "follows Z ok c (start @ out)" "cos_start_count c = int (length start)" "\<not> had_error (cos_impl c)"
    "length out < 2 ^ 31"
  shows "coded_ByteCount Z c = Some (int (length out))"
proof -
  have "eos_ByteCount Z (cos_cur c) (cos_impl c) = Some (int (length (start @ out)))"
    using assms(1,3) ByteCount_represents by (simp add: follows_def)
  moreover have "sint (word_of_int (int (length out)) :: u32) = int (length out)"
    using assms(4) by (simp add: signed_of_nat signed_take_bit_int_eq_self)
  ultimately show ?thesis using assms(2) by (simp add: coded_ByteCount_def)
qed

text \<open>
  Skipping: the bytes passed over are those of the buffers, as many as asked for unless the stream
  refuses a buffer.
\<close>

lemma skip_loop_passes:
  assumes "eos_stream s = Some z" "ok z" "n \<le> zc_held Z z"
    "n = 0 \<and> d = Patch 0 \<or> d = Buf (buffers s) (zc_held Z z - n)"
  shows "\<exists>r z' g. skip_loop Z count n d s = Some (r, s\<lparr> eos_stream := Some z', buffers := g \<rparr>) \<and> ok z' \<and>
    take (length (zc_content Z z) - n) (zc_content Z z') = take (length (zc_content Z z) - n) (zc_content Z z) \<and>
    length (zc_content Z z) - n \<le> length (zc_content Z z') \<and>
    (case r of
       None \<Rightarrow> length (zc_content Z z') < length (zc_content Z z) - n + count \<and>
         (\<exists>z0 z1. ok z0 \<and> zc_Next Z z0 = (None, z1) \<and> zc_content Z z0 = zc_content Z z')
     | Some (d', k) \<Rightarrow> k \<le> zc_held Z z' \<and> length (zc_content Z z') - k = length (zc_content Z z) - n + count \<and>
         (k = 0 \<and> d' = Patch 0 \<or> d' = Buf g (zc_held Z z' - k)))"
  using assms
proof (induction "(count, n, z)" arbitrary: count n z s d
    rule: wf_induct_rule [OF wf_measures [of "[\<lambda>(c, n, z). c, \<lambda>(c, n, z). if n = 0 then 1 else 0, \<lambda>(c, n, z). empties z]"]])
  case 1
  note prems = "1.prems"
  have hl: "zc_held Z z \<le> length (zc_content Z z)" using held [OF prems(2)] .
  show ?case
  proof (cases "count > n")
    case False
    then have "skip_loop Z count n d s = Some (Some (ptr_add d count, n - count), s)"
      by (subst skip_loop.simps) simp
    moreover have "s = s\<lparr> eos_stream := Some z, buffers := buffers s \<rparr>" using prems(1) by simp
    moreover have "length (zc_content Z z) - (n - count) = length (zc_content Z z) - n + count"
      using hl prems(3) False by linarith
    moreover have "zc_held Z z - n + count = zc_held Z z - (n - count)" using prems(3) False by linarith
    ultimately show ?thesis using prems False
      by (intro exI [of _ "Some (ptr_add d count, n - count)"] exI [of _ z] exI [of _ "buffers s"]) auto
  next
    case True
    obtain x z1 where x: "zc_Next Z z = (x, z1)" by (cases "zc_Next Z z")
    show ?thesis
    proof (cases x)
      case None
      note n = next_none [OF prems(2) x [unfolded None]]
      have "skip_loop Z count n d s = Some (None, s\<lparr> eos_stream := Some z1, buffers := Suc (buffers s) \<rparr>)"
        using prems(1) x None True by (subst skip_loop.simps) simp
      moreover have "\<exists>z0 z2. ok z0 \<and> zc_Next Z z0 = (None, z2) \<and> zc_content Z z0 = zc_content Z z1"
        using x None prems(2) n by auto
      moreover have "length (zc_content Z z) < length (zc_content Z z) - n + count" using True hl prems(3) by linarith
      ultimately show ?thesis using n
        by (intro exI [of _ None] exI [of _ z1] exI [of _ "Suc (buffers s)"]) simp
    next
      case (Some m)
      note z1 = next_some [OF prems(2) x [unfolded Some]]
      let ?s = "s\<lparr> eos_stream := Some z1, buffers := Suc (buffers s) \<rparr>"
      have step: "skip_loop Z count n d s = skip_loop Z (count - n) m (Buf (buffers ?s) 0) ?s"
        using prems(1) x Some True by (subst skip_loop.simps) simp
      have "((count - n, m, z1), count, n, z) \<in>
          measures [\<lambda>(c, n, z). c, \<lambda>(c, n, z). if n = 0 then 1 else 0, \<lambda>(c, n, z). empties z]"
        using True next_empty [OF prems(2), of z1] x Some by (cases "n = 0"; cases "m = 0") auto
      from "1.hyps" [OF this, of ?s "Buf (buffers ?s) 0"] z1 obtain r z' g where
        w: "skip_loop Z (count - n) m (Buf (buffers ?s) 0) ?s = Some (r, ?s\<lparr> eos_stream := Some z', buffers := g \<rparr>)"
          "ok z'" "take (length (zc_content Z z1) - m) (zc_content Z z') = take (length (zc_content Z z1) - m) (zc_content Z z1)"
          "length (zc_content Z z1) - m \<le> length (zc_content Z z')"
          "case r of
             None \<Rightarrow> length (zc_content Z z') < length (zc_content Z z1) - m + (count - n) \<and>
               (\<exists>z0 z1. ok z0 \<and> zc_Next Z z0 = (None, z1) \<and> zc_content Z z0 = zc_content Z z')
           | Some (d', k) \<Rightarrow> k \<le> zc_held Z z' \<and> length (zc_content Z z') - k = length (zc_content Z z1) - m + (count - n) \<and>
               (k = 0 \<and> d' = Patch 0 \<or> d' = Buf g (zc_held Z z' - k))"
        by auto
      have l: "length (zc_content Z z1) - m = length (zc_content Z z)" using z1 by simp
      have t: "take (length (zc_content Z z)) (zc_content Z z') = zc_content Z z" using w(3) z1 by (simp add: l)
      have "take (length (zc_content Z z) - n) (zc_content Z z') =
          take (length (zc_content Z z) - n) (take (length (zc_content Z z)) (zc_content Z z'))" by simp
      then have "take (length (zc_content Z z) - n) (zc_content Z z') = take (length (zc_content Z z) - n) (zc_content Z z)"
        by (simp only: t)
      moreover have "length (zc_content Z z) + (count - n) = length (zc_content Z z) - n + count"
        using True hl prems(3) by linarith
      ultimately show ?thesis using w l step
        by (intro exI [of _ r] exI [of _ z'] exI [of _ g]) (auto split: option.splits)
    qed
  qed
qed

lemma Skip_passes:
  assumes r: "represents Z ok s ptr out" and n: "0 \<le> count" and e: "\<not> had_error s"
  shows "\<exists>b ptr' s' gap. eos_Skip Z count ptr s = Some (b, ptr', s') \<and> represents Z ok s' ptr' (out @ gap) \<and>
    (if b then \<not> had_error s' \<and> int (length gap) = count else had_error s' \<and> int (length gap) \<le> count)"
proof -
  from Flush_result [OF r e] obtain n s1 where f: "eos_Flush Z ptr s = Some (n, s1)"
    "if had_error s1 then n = 0 \<and> represents Z ok s1 (Patch 0) out \<and> short Z s1 out else flushed s1 out n" .
  show ?thesis
  proof (cases "had_error s1")
    case True
    with f e n show ?thesis
      by (intro exI [of _ False] exI [of _ "Patch 0"] exI [of _ s1] exI [of _ "[]"]) (simp add: eos_Skip_def)
  next
    case False
    with f(2) obtain z where z: "eos_stream s1 = Some z" "ok z" "length (eos_buffer s1) = 32" "0 \<le> n"
      "n \<le> int (zc_held Z z)" "take (length (zc_content Z z) - nat n) (zc_content Z z) = out"
      "nat n = 0 \<and> eos_buffer_end s1 = Patch 0 \<or> eos_buffer_end s1 = Buf (buffers s1) (zc_held Z z - nat n)"
      by (auto simp: flushed_def)
    have nl: "nat n \<le> zc_held Z z" using z(5) by simp
    from skip_loop_passes [OF z(1,2) nl z(7), of "nat count"] obtain x z' g where
      w: "skip_loop Z (nat count) (nat n) (eos_buffer_end s1) s1 = Some (x, s1\<lparr> eos_stream := Some z', buffers := g \<rparr>)"
        "ok z'" "take (length (zc_content Z z) - nat n) (zc_content Z z') = out"
        "length (zc_content Z z) - nat n \<le> length (zc_content Z z')"
        "case x of
           None \<Rightarrow> length (zc_content Z z') < length (zc_content Z z) - nat n + nat count \<and>
             (\<exists>z0 z1. ok z0 \<and> zc_Next Z z0 = (None, z1) \<and> zc_content Z z0 = zc_content Z z')
         | Some (d', k) \<Rightarrow> k \<le> zc_held Z z' \<and> length (zc_content Z z') - k = length (zc_content Z z) - nat n + nat count \<and>
             (k = 0 \<and> d' = Patch 0 \<or> d' = Buf g (zc_held Z z' - k))"
      unfolding z(6) by blast
    let ?s = "s1\<lparr> eos_stream := Some z', buffers := g \<rparr>" and ?m = "length (zc_content Z z) - nat n"
    have lo: "length out = ?m" using w(3,4) by (metis length_take min_absorb2)
    show ?thesis
    proof (cases x)
      case None
      let ?gap = "drop ?m (zc_content Z z')"
      have c: "out @ ?gap = zc_content Z z'" using w(3) by (metis append_take_drop_id)
      have "refused Z ok (zc_content Z z') (out @ ?gap)" using w(5) None unfolding c refused_def by auto
      then have "represents Z ok (snd (eos_Error ?s)) (Patch 0) (out @ ?gap)"
        using w(2) z(3) by (intro represents.broken [where z = z' and e = 16]) (simp_all add: eos_Error_def)
      moreover have "length (zc_content Z z') < ?m + nat count" using w(5) None by simp
      then have "int (length ?gap) \<le> count" using n by simp
      ultimately show ?thesis using None f(1) w(1) False e n
        by (intro exI [of _ False] exI [of _ "Patch 0"] exI [of _ "snd (eos_Error ?s)"] exI [of _ ?gap])
          (simp add: eos_Skip_def eos_Error_def)
    next
      case (Some y)
      obtain d' k where y: "y = (d', k)" by (cases y)
      let ?gap = "take (nat count) (drop ?m (zc_content Z z'))"
      have k: "length (zc_content Z z') - k = ?m + nat count" using w(5) Some y by simp
      have "take (length (zc_content Z z') - k) (zc_content Z z') = out @ ?gap"
        using w(3) unfolding k take_add by simp
      then have "flushed (?s\<lparr> eos_buffer_end := d' \<rparr>) (out @ ?gap) (int k)"
        using w(2,5) z(3) False Some y by (auto simp: flushed_def)
      from SetInitialBuffer_at [OF this] obtain p' s2 where
        "SetInitialBuffer d' (nat (int k)) ?s = (p', s2)" "represents Z ok s2 p' (out @ ?gap)" "\<not> had_error s2" .
      moreover have "length ?gap = nat count" using k by simp
      ultimately show ?thesis using Some y f(1) w(1) False e n
        by (intro exI [of _ True] exI [of _ p'] exI [of _ s2] exI [of _ ?gap]) (simp add: eos_Skip_def)
    qed
  qed
qed

text \<open>A direct pointer leads to a buffer that is not empty, and nothing is written.\<close>

lemma GetDirectBufferPointer_represents:
  assumes r: "represents Z ok s ptr out" and e: "\<not> had_error s"
  shows "\<exists>b ptr' s'. GetDirectBufferPointer Z ptr s = Some (b, ptr', s') \<and> represents Z ok s' ptr' out \<and>
    (case b of None \<Rightarrow> had_error s' | Some (d, k) \<Rightarrow> \<not> had_error s' \<and> 0 < k)"
proof -
  from Flush_result [OF r e] obtain n s1 where f: "eos_Flush Z ptr s = Some (n, s1)"
    "if had_error s1 then n = 0 \<and> represents Z ok s1 (Patch 0) out \<and> short Z s1 out else flushed s1 out n" .
  show ?thesis
  proof (cases "had_error s1")
    case True
    with f e show ?thesis by (simp add: GetDirectBufferPointer_def)
  next
    case False
    then have fl: "flushed s1 out n" using f(2) by simp
    then obtain z where z: "eos_stream s1 = Some z" "ok z" "length (eos_buffer s1) = 32" "0 \<le> n"
      "take (length (zc_content Z z) - nat n) (zc_content Z z) = out" by (auto simp: flushed_def)
    show ?thesis
    proof (cases "n = 0")
      case True
      from next_nonempty_some [OF z(1,2)] obtain x z' g where
        w: "next_nonempty Z s1 = Some (x, s1\<lparr> eos_stream := Some z', buffers := g \<rparr>)" "ok z'"
          "case x of
             None \<Rightarrow> (\<exists>z0 z1. ok z0 \<and> zc_Next Z z0 = (None, z1) \<and> zc_content Z z0 = zc_content Z z) \<and>
               zc_content Z z' = zc_content Z z
           | Some n \<Rightarrow> 0 < n \<and> zc_held Z z' = n \<and> length (zc_content Z z') = length (zc_content Z z) + n \<and>
               take (length (zc_content Z z)) (zc_content Z z') = zc_content Z z" by blast
      let ?s = "s1\<lparr> eos_stream := Some z', buffers := g \<rparr>"
      have out: "out = zc_content Z z" using z(5) True by simp
      show ?thesis
      proof (cases x)
        case None
        with w have "refused Z ok (zc_content Z z') out" by (auto simp: refused_def out)
        then have "represents Z ok (snd (eos_Error ?s)) (Patch 0) out"
          using w(2) z(3) by (intro represents.broken [where z = z' and e = 16]) (simp_all add: eos_Error_def)
        with None f(1) w(1) False e True show ?thesis
          by (simp add: GetDirectBufferPointer_def) (simp add: eos_Error_def)
      next
        case (Some k)
        with w z(3) False have "flushed (?s\<lparr> eos_buffer_end := Buf g 0 \<rparr>) out (int k)"
          by (auto simp: flushed_def out)
        from SetInitialBuffer_at [OF this] obtain p' s2 where
          "SetInitialBuffer (Buf g 0) (nat (int k)) ?s = (p', s2)" "represents Z ok s2 p' out" "\<not> had_error s2" .
        with Some f(1) w(1,3) False e True show ?thesis by (simp add: GetDirectBufferPointer_def)
      qed
    next
      case no: False
      from SetInitialBuffer_flushed [OF fl] obtain p' s2 where
        "SetInitialBuffer (eos_buffer_end s1) (nat n) s1 = (p', s2)" "represents Z ok s2 p' out" "\<not> had_error s2"
        by (auto split: prod.splits)
      with no f(1) False e z(4) show ?thesis by (simp add: GetDirectBufferPointer_def)
    qed
  qed
qed

end

section \<open>Little-endian numbers\<close>

lemma LittleEndian32_le_bytes: "WriteLittleEndian32ToArray v = le32_bytes v"
  by (simp add: WriteLittleEndian32ToArray_def le_bytes_def upt_rec)

lemma LittleEndian64_le_bytes: "WriteLittleEndian64ToArray v = le64_bytes v"
proof -
  have low: "ucast (drop_bit n (ucast v :: u32)) = (ucast (drop_bit n v) :: byte)" if "n \<le> 24" for n
    using that by (intro bit_word_eqI) (auto simp: bit_simps)
  have high: "ucast (drop_bit n (ucast (drop_bit 32 v) :: u32)) = (ucast (drop_bit (32 + n) v) :: byte)" if "n \<le> 24" for n
    using that by (intro bit_word_eqI) (auto simp: bit_simps ac_simps)
  show ?thesis using low [of 0] high [of 0]
    by (simp add: WriteLittleEndian64ToArray_def le_bytes_def upt_rec Let_def low high)
qed

section \<open>Properties\<close>

text \<open>
  Property C17: a program may write to a coded stream over an array, in blocks of any size, by copying or
  directly into the memory, and trim or ask for errors in between as often as it likes. At the
  end \<open>HadError\<close> says whether it was too much. If it was not, the destroyed stream is positioned
  behind exactly the bytes written; if it was, the array holds their first part. The memory behind
  the array is not touched.
\<close>

theorem coded_session_exact:
  assumes "length junk = 32" "n \<le> length memory" "list_all cop_ok ps"
  shows "\<exists>z. coded_session array_ops junk eager ps (ArrayOutputStream memory n block) =
      Some (n < length (all_bytes ps), z) \<and>
    take (aos_position z) (aos_data z) = take (if n < length (all_bytes ps) then n else length (all_bytes ps)) (all_bytes ps) \<and>
    drop n (aos_data z) = drop n memory"
proof -
  let ?z = "ArrayOutputStream memory n block" and ?w = "all_bytes ps"
  have c: "take (aos_position ?z) (aos_data ?z) = []" by (simp add: ArrayOutputStream_def)
  from array_stream.session_truthful [OF array_ok_new [OF assms(2)] assms(1,3), of eager block,
      unfolded array_ops_sel c append_Nil Let_def]
  obtain e z where r: "coded_session array_ops junk eager ps ?z = Some (e, z)"
    "array_ok n (drop n memory) z"
    "if e then refused array_ops (array_ok n (drop n memory)) (take (aos_position z) (aos_data z)) ?w \<and>
       length (take (aos_position z) (aos_data z)) < length ?w
     else take (aos_position z) (aos_data z) = ?w" by blast
  have l: "length (take (aos_position z) (aos_data z)) \<le> n" using r(2) by (auto simp: array_ok_def)
  show ?thesis
  proof (cases e)
    case True
    then have f: "refused array_ops (array_ok n (drop n memory)) (take (aos_position z) (aos_data z)) ?w"
      "length (take (aos_position z) (aos_data z)) < length ?w" using r(3) by simp_all
    from array_refused [OF f(1)] have "length (take (aos_position z) (aos_data z)) = n" .
    with f r(1,2) True show ?thesis by (auto simp: refused_def array_ok_def)
  next
    case False
    with r l show ?thesis by (auto simp: array_ok_def)
  qed
qed

theorem coded_session_exact_witness:
  "\<exists>z. coded_session array_ops (replicate 32 0) True [CVarint32 300, CHadError, CDirect [1, 2], CTrim, CLittleEndian32 7]
        (ArrayOutputStream [0, 0, 0, 0, 0, 9] 5 3) =
      Some (5 < length (all_bytes [CVarint32 300, CHadError, CDirect [1, 2], CTrim, CLittleEndian32 7]), z) \<and>
    take (aos_position z) (aos_data z) =
      take (if 5 < length (all_bytes [CVarint32 300, CHadError, CDirect [1, 2], CTrim, CLittleEndian32 7]) then 5
            else length (all_bytes [CVarint32 300, CHadError, CDirect [1, 2], CTrim, CLittleEndian32 7]))
        (all_bytes [CVarint32 300, CHadError, CDirect [1, 2], CTrim, CLittleEndian32 7]) \<and>
    drop 5 (aos_data z) = drop 5 [0, 0, 0, 0, 0, 9]"
  by (rule coded_session_exact) simp_all

end
