(* ===== verification/Output.thy ===== *)
theory Output
  imports Messages Coded
begin

text \<open>
  Serialization from the message classes down to memory: the generated \<open>_InternalSerialize\<close> as the
  writes it makes to an output stream, and the entry points of \<^verbatim>\<open>message_lite.cc\<close> that serialize to
  an array, a string, a stream that hands out its buffers, and a coded stream.

  \<open>Messages\<close> describes what a class writes as one string of bytes; here the writes are run on the
  stream of \<open>Outstream\<close>, and shown to leave exactly that string. The checks of debug builds are left
  out. A result without a value has accessed memory out of bounds.
\<close>

section \<open>The writes of the generated classes\<close>

definition put_int32 :: "nat \<Rightarrow> u32 \<Rightarrow> wr list" where
  "put_int32 n v = (if v \<noteq> 0 then [Put (WriteInt32 n v)] else [])"

definition put_uint32 :: "nat \<Rightarrow> u32 \<Rightarrow> wr list" where
  "put_uint32 n v = (if v \<noteq> 0 then [Put (WriteUInt32 n v)] else [])"

definition put_uint64 :: "nat \<Rightarrow> u64 \<Rightarrow> wr list" where
  "put_uint64 n v = (if v \<noteq> 0 then [Put (WriteUInt64 n v)] else [])"

definition put_bytes :: "nat \<Rightarrow> bytes \<Rightarrow> wr list" where
  "put_bytes n bs = (if bs \<noteq> [] then [Str n bs] else [])"

text \<open>\<open>WireFormatLite::InternalWriteMessage\<close>: the head, then the writes of the message.\<close>

definition put_message :: "nat \<Rightarrow> nat \<Rightarrow> wr list \<Rightarrow> wr list" where
  "put_message n cached_size ws = Put (WriteLengthDelim n cached_size) # ws"

definition put_unknown :: "'a message_lite_scheme \<Rightarrow> wr list" where
  "put_unknown m = (if unknown_fields m \<noteq> [] then [Raw (unknown_fields m)] else [])"

definition NetInfo_writes :: "NetInfo \<Rightarrow> wr list" where
  "NetInfo_writes m =
     put_int32 1 (NetInfo_node_id m) @
     put_bytes 2 (NetInfo_virtual_ip m) @
     put_bytes 3 (NetInfo_subnet_ip_start m) @
     put_int32 4 (NetInfo_net_mask m) @
     put_bytes 5 (NetInfo_mac_addr m) @
     put_bytes 6 (NetInfo_meta m) @ put_unknown m"

definition NodeInfoList_writes :: "NodeInfoList \<Rightarrow> wr list" where
  "NodeInfoList_writes m =
     concat (map (\<lambda>x. put_message 1 (NetInfo_ByteSizeLong x) (NetInfo_writes x)) (NodeInfoList_cpe_list m)) @ put_unknown m"

definition Login_writes :: "Login \<Rightarrow> wr list" where
  "Login_writes m =
     put_bytes 1 (Login_uid m) @
     put_bytes 2 (Login_token m) @
     (case Login_netinfo m of None \<Rightarrow> [] | Some x \<Rightarrow> put_message 3 (NetInfo_ByteSizeLong x) (NetInfo_writes x)) @
     put_bytes 4 (Login_vender m) @
     put_bytes 5 (Login_meta m) @ put_unknown m"

definition LoginRes_writes :: "LoginRes \<Rightarrow> wr list" where
  "LoginRes_writes m =
     put_bytes 1 (LoginRes_uid m) @
     put_int32 2 (LoginRes_res_code m) @
     put_int32 3 (LoginRes_gateway_id m) @
     put_bytes 4 (LoginRes_public_ip m) @
     put_bytes 5 (LoginRes_meta m) @ put_unknown m"

definition CpeNodeChangeNotify_writes :: "CpeNodeChangeNotify \<Rightarrow> wr list" where
  "CpeNodeChangeNotify_writes m =
     put_bytes 1 (CpeNodeChangeNotify_uid m) @
     put_bytes 2 (CpeNodeChangeNotify_data m) @ put_unknown m"

definition KeepAlive_writes :: "KeepAlive \<Rightarrow> wr list" where
  "KeepAlive_writes m =
     put_bytes 1 (KeepAlive_uid m) @
     put_uint64 2 (KeepAlive_seq m) @
     put_uint64 3 (KeepAlive_tick m) @
     put_bytes 4 (KeepAlive_meta m) @ put_unknown m"

definition KeepAliveRes_writes :: "KeepAliveRes \<Rightarrow> wr list" where
  "KeepAliveRes_writes m =
     put_bytes 1 (KeepAliveRes_uid m) @
     put_uint32 2 (KeepAliveRes_res_code m) @
     put_uint64 3 (KeepAliveRes_seq m) @
     put_uint64 4 (KeepAliveRes_tick m) @
     put_bytes 5 (KeepAliveRes_meta m) @ put_unknown m"

definition Data_writes :: "Data \<Rightarrow> wr list" where
  "Data_writes m =
     put_bytes 1 (Data_uid m) @
     put_bytes 2 (Data_dest m) @
     put_uint64 3 (Data_seq m) @
     put_int32 4 (Data_crc m) @
     put_bytes 5 (Data_raw_data m) @ put_unknown m"

definition CustemorInfo_writes :: "CustemorInfo \<Rightarrow> wr list" where
  "CustemorInfo_writes m =
     put_bytes 1 (CustemorInfo_cpe_id m) @
     put_bytes 2 (CustemorInfo_cpe_ip m) @
     put_bytes 3 (CustemorInfo_cpe_vender m) @ put_unknown m"

definition CustemorPEList_writes :: "CustemorPEList \<Rightarrow> wr list" where
  "CustemorPEList_writes m =
     put_bytes 1 (CustemorPEList_edge_id m) @
     put_bytes 2 (CustemorPEList_edge_ip m) @
     put_int32 3 (CustemorPEList_edge_port m) @
     put_int32 4 (CustemorPEList_edge_group m) @
     concat (map (\<lambda>x. put_message 5 (CustemorInfo_ByteSizeLong x) (CustemorInfo_writes x)) (CustemorPEList_cpe_list m)) @ put_unknown m"

definition UserListOnEdge_writes :: "UserListOnEdge \<Rightarrow> wr list" where
  "UserListOnEdge_writes m =
     concat (map (\<lambda>x. put_message 1 (CustemorPEList_ByteSizeLong x) (CustemorPEList_writes x)) (UserListOnEdge_edge_list m)) @ put_unknown m"

section \<open>The entry points of \<^verbatim>\<open>MessageLite\<close>\<close>

text \<open>What the entry points use of a class.\<close>

record 'm message_api =
  api_size :: "'m \<Rightarrow> nat"
  api_writes :: "'m \<Rightarrow> wr list"

abbreviation INT_MAX :: nat where "INT_MAX \<equiv> 2147483647"

text \<open>
  The stream over an array consults no underlying stream; the operations it is given are of no
  account. The result is the pointer behind what was written, and the memory.
\<close>

definition SerializeToArrayImpl ::
    "bytes \<Rightarrow> wr list \<Rightarrow> bytes \<Rightarrow> nat \<Rightarrow> nat \<Rightarrow> (ptr \<times> bytes) option" where
  "SerializeToArrayImpl junk ws memory target sz = do {
     (ptr, s) \<leftarrow> run_writes array_ops ws (Arr target) (eos_new_array junk memory target sz);
     Some (ptr, array s)
   }"

definition SerializeWithCachedSizesToArray ::
    "bytes \<Rightarrow> 'm message_api \<Rightarrow> 'm \<Rightarrow> bytes \<Rightarrow> nat \<Rightarrow> (ptr \<times> bytes) option" where
  "SerializeWithCachedSizesToArray junk api m memory target =
     SerializeToArrayImpl junk (api_writes api m) memory target (api_size api m)"

definition AppendPartialToString ::
    "bytes \<Rightarrow> 'm message_api \<Rightarrow> 'm \<Rightarrow> bytes \<Rightarrow> (bool \<times> bytes) option" where
  "AppendPartialToString junk api m output =
     (let old_size = length output; byte_size = api_size api m
      in if byte_size > INT_MAX then Some (False, output)
         else do {
           (ptr, out) \<leftarrow> SerializeToArrayImpl junk (api_writes api m)
             (resize (old_size + byte_size) output) old_size byte_size;
           Some (True, out)
         })"

text \<open>
  Without the checks of debug builds, the functions that require all fields are those that do not.
\<close>

definition AppendToString :: "bytes \<Rightarrow> 'm message_api \<Rightarrow> 'm \<Rightarrow> bytes \<Rightarrow> (bool \<times> bytes) option" where
  "AppendToString = AppendPartialToString"

definition SerializeToString :: "bytes \<Rightarrow> 'm message_api \<Rightarrow> 'm \<Rightarrow> (bool \<times> bytes) option" where
  "SerializeToString junk api m = AppendToString junk api m []"

definition SerializeAsString :: "bytes \<Rightarrow> 'm message_api \<Rightarrow> 'm \<Rightarrow> bytes option" where
  "SerializeAsString junk api m =
     map_option (\<lambda>(ok, out). if ok then out else []) (AppendToString junk api m [])"

definition SerializePartialToString :: "bytes \<Rightarrow> 'm message_api \<Rightarrow> 'm \<Rightarrow> (bool \<times> bytes) option" where
  "SerializePartialToString junk api m = AppendPartialToString junk api m []"

definition SerializePartialAsString :: "bytes \<Rightarrow> 'm message_api \<Rightarrow> 'm \<Rightarrow> bytes option" where
  "SerializePartialAsString junk api m =
     map_option (\<lambda>(ok, out). if ok then out else []) (AppendPartialToString junk api m [])"

definition SerializePartialToArray ::
    "bytes \<Rightarrow> 'm message_api \<Rightarrow> 'm \<Rightarrow> bytes \<Rightarrow> int \<Rightarrow> (bool \<times> bytes) option" where
  "SerializePartialToArray junk api m data sz =
     (let byte_size = api_size api m
      in if byte_size > INT_MAX then Some (False, data)
         else if sz < int byte_size then Some (False, data)
         else do {
           (ptr, out) \<leftarrow> SerializeToArrayImpl junk (api_writes api m) data 0 byte_size;
           Some (True, out)
         })"

definition SerializeToArray ::
    "bytes \<Rightarrow> 'm message_api \<Rightarrow> 'm \<Rightarrow> bytes \<Rightarrow> int \<Rightarrow> (bool \<times> bytes) option" where
  "SerializeToArray = SerializePartialToArray"

definition SerializePartialToZeroCopyStream ::
    "'s ops \<Rightarrow> bytes \<Rightarrow> 'm message_api \<Rightarrow> 'm \<Rightarrow> 's \<Rightarrow> (bool \<times> 's) option" where
  "SerializePartialToZeroCopyStream Z junk api m output =
     (if api_size api m > INT_MAX then Some (False, output)
      else do {
        let (target, s) = eos_new junk output;
        (target, s) \<leftarrow> run_writes Z (api_writes api m) target s;
        (target, s) \<leftarrow> eos_Trim Z target s;
        z \<leftarrow> eos_stream s;
        Some (\<not> had_error s, z)
      })"

text \<open>
  The byte counts of a coded stream before and after are compared, as numbers of type \<open>int\<close>; if they do
  not differ by the size that was computed, the process is ended (\<open>Fatal\<close>). A difference that does not
  fit an \<open>int\<close> has no value.
\<close>

datatype coded_result = Done_with bool | Fatal

definition SerializeWithCachedSizes :: "'s ops \<Rightarrow> 'm message_api \<Rightarrow> 'm \<Rightarrow> 's coded \<Rightarrow> 's coded option" where
  "SerializeWithCachedSizes Z api m output = on_impl (run_writes Z (api_writes api m)) output"

definition SerializePartialToCodedStream ::
    "'s ops \<Rightarrow> 'm message_api \<Rightarrow> 'm \<Rightarrow> 's coded \<Rightarrow> (coded_result \<times> 's coded) option" where
  "SerializePartialToCodedStream Z api m output =
     (let sz = api_size api m
      in if sz > INT_MAX then Some (Done_with False, output)
         else do {
           original_byte_count \<leftarrow> coded_ByteCount Z output;
           output \<leftarrow> SerializeWithCachedSizes Z api m output;
           (err, output) \<leftarrow> coded_HadError Z output;
           if err then Some (Done_with False, output)
           else do {
             final_byte_count \<leftarrow> coded_ByteCount Z output;
             let d = final_byte_count - original_byte_count;
             if d > int INT_MAX \<or> d < - int INT_MAX - 1 then None
             else if d \<noteq> int sz then Some (Fatal, output)
             else Some (Done_with True, output)
           }
         })"

section \<open>Writing to an array\<close>

text \<open>
  The stream over an array of \<open>sz\<close> bytes at \<open>data\<close>: what has been written is in place, and the memory
  around it is as it was.
\<close>

definition in_array :: "bytes \<Rightarrow> nat \<Rightarrow> nat \<Rightarrow> 's eos \<Rightarrow> ptr \<Rightarrow> bytes \<Rightarrow> bool" where
  "in_array memory data sz s ptr out \<longleftrightarrow> eos_end s = Arr (data + sz) \<and> ptr = Arr (data + length out) \<and>
     length out \<le> sz \<and> data + sz \<le> length memory \<and> array s = patched memory data out"

lemma patched_patched:
  "i + length bs + length cs \<le> length xs \<Longrightarrow> patched (patched xs i bs) (i + length bs) cs = patched xs i (bs @ cs)"
  by (simp add: patched_def add.assoc add.left_commute add.commute [of "length cs"])

lemma in_array_new: "data + sz \<le> length memory \<Longrightarrow> in_array memory data sz (eos_new_array junk memory data sz) (Arr data) []"
  by (simp add: in_array_def eos_new_array_def)

lemma in_array_store:
  assumes a: "in_array memory data sz s ptr out" and l: "length out + length bs \<le> sz"
  shows "\<exists>s'. store_at Z ptr bs s = Some s' \<and> in_array memory data sz s' (ptr_add ptr (length bs)) (out @ bs)"
proof (cases "bs = []")
  case True
  with a show ?thesis by (simp add: store_at.simps in_array_def)
next
  case False
  have l': "data + length out + length bs \<le> length memory" using a l by (simp add: in_array_def)
  then have "length (patched memory data out) = length memory" by simp
  with a l' False l show ?thesis
    by (simp add: store_at.simps in_array_def patched_patched add.assoc)
qed

lemma in_array_EnsureSpace:
  assumes "in_array memory data sz s ptr out" "length out < sz"
  shows "EnsureSpace Z ptr s = Some (ptr, s)"
  using assms by (simp add: EnsureSpace_def in_array_def)

lemma in_array_WriteRaw:
  assumes "in_array memory data sz s ptr out" "length out + length bs \<le> sz"
  shows "\<exists>s'. eos_WriteRaw Z bs ptr s = Some (ptr_add ptr (length bs), s') \<and>
    in_array memory data sz s' (ptr_add ptr (length bs)) (out @ bs)"
proof -
  have "ptr_diff (eos_end s) ptr = Some (int sz - int (length out))" using assms(1) by (simp add: in_array_def)
  with in_array_store [OF assms, of Z] assms(2) show ?thesis by (auto simp: eos_WriteRaw_def)
qed

lemma in_array_WriteString:
  assumes a: "in_array memory data sz s ptr out" and l: "length out + length (WriteBytes num dat) \<le> sz"
    and dat: "length dat < 2 ^ 31"
  shows "\<exists>ptr' s'. eos_WriteString Z num dat ptr s = Some (ptr', s') \<and>
    in_array memory data sz s' ptr' (out @ WriteBytes num dat)"
proof -
  let ?h = "WriteLengthDelim num (length dat)" and ?t = "WriteTag (MakeTag num 2)"
  have h: "WriteBytes num dat = ?h @ dat" "?h \<noteq> []" using dat by (simp_all add: WriteBytes_def WriteLengthDelim_eq)
  have h0: "0 < length ?h" using h(2) by blast
  have d: "ptr_diff (eos_end s) ptr = Some (int sz - int (length out))" using a by (simp add: in_array_def)
  show ?thesis
  proof (cases "128 \<le> length dat \<or> int sz - int (length out) + 16 - int (TagSize (MakeTag num 0)) - 1 < int (length dat)")
    case True
    have e: "EnsureSpace Z ptr s = Some (ptr, s)" using l h0 unfolding h(1) length_append
      by (intro in_array_EnsureSpace [OF a]) linarith
    from in_array_store [OF a, of ?h Z] l h(1) obtain s1 where s1: "store_at Z ptr ?h s = Some s1"
      "in_array memory data sz s1 (ptr_add ptr (length ?h)) (out @ ?h)" by auto
    from in_array_WriteRaw [OF s1(2), of dat Z] l h(1) obtain s2 where
      "eos_WriteRaw Z dat (ptr_add ptr (length ?h)) s1 = Some (ptr_add (ptr_add ptr (length ?h)) (length dat), s2)"
      "in_array memory data sz s2 (ptr_add (ptr_add ptr (length ?h)) (length dat)) (out @ ?h @ dat)" by auto
    moreover have "eos_WriteString Z num dat ptr s = WriteStringOutline Z num dat ptr s"
      using True d by (auto simp: eos_WriteString_def)
    ultimately show ?thesis using e s1 dat h by (simp add: WriteStringOutline_def Let_def)
  next
    case False
    have w: "WriteBytes num dat = ?t @ [of_nat (length dat)] @ dat"
      using False by (simp add: WriteBytes_def size_byte)
    from in_array_store [OF a, of ?t Z] l w obtain s1 where s1: "store_at Z ptr ?t s = Some s1"
      "in_array memory data sz s1 (ptr_add ptr (length ?t)) (out @ ?t)" by auto
    from in_array_store [OF s1(2), of "[of_nat (length dat)]" Z] l w obtain s2 where
      s2: "store_at Z (ptr_add ptr (length ?t)) [of_nat (length dat)] s1 = Some s2"
      "in_array memory data sz s2 (ptr_add (ptr_add ptr (length ?t)) 1) ((out @ ?t) @ [of_nat (length dat)])" by auto
    from in_array_store [OF s2(2), of dat Z] l w obtain s3 where
      "store_at Z (ptr_add (ptr_add ptr (length ?t)) 1) dat s2 = Some s3"
      "in_array memory data sz s3 (ptr_add (ptr_add (ptr_add ptr (length ?t)) 1) (length dat))
         (((out @ ?t) @ [of_nat (length dat)]) @ dat)" by auto
    with False d s1 s2 w show ?thesis by (simp add: eos_WriteString_def Let_def)
  qed
qed

lemma in_array_run_writes:
  assumes "in_array memory data sz s ptr out" "length out + length (written ws) \<le> sz" "list_all wr_ok ws"
  shows "\<exists>ptr' s'. run_writes Z ws ptr s = Some (ptr', s') \<and> in_array memory data sz s' ptr' (out @ written ws)"
  using assms
proof (induction ws arbitrary: s ptr out)
  case Nil
  then show ?case by simp
next
  case (Cons w ws)
  have "\<exists>ptr' s'. run_write Z w ptr s = Some (ptr', s') \<and> in_array memory data sz s' ptr' (out @ wr_bytes w)"
  proof (cases w)
    case (Put bs)
    with Cons.prems have "bs \<noteq> []" "length out + length bs \<le> sz" by auto
    moreover from this have "length out < sz" by (cases bs) auto
    ultimately show ?thesis
      using Put in_array_EnsureSpace [OF Cons.prems(1), of Z] in_array_store [OF Cons.prems(1), of bs Z] by auto
  next
    case (Raw bs)
    with in_array_WriteRaw [OF Cons.prems(1), of bs Z] Cons.prems(2) show ?thesis by auto
  next
    case (Str num dat)
    with in_array_WriteString [OF Cons.prems(1), of num dat Z] Cons.prems(2,3) show ?thesis by auto
  qed
  then obtain p1 s1 where "run_write Z w ptr s = Some (p1, s1)" "in_array memory data sz s1 p1 (out @ wr_bytes w)" by blast
  with Cons.IH [OF this(2)] Cons.prems show ?case by simp
qed

lemma SerializeToArrayImpl_writes:
  assumes "list_all wr_ok ws" "data + length (written ws) \<le> length memory"
  shows "SerializeToArrayImpl junk ws memory data (length (written ws)) =
    Some (Arr (data + length (written ws)), patched memory data (written ws))"
proof -
  from in_array_run_writes [OF in_array_new [OF assms(2)], of ws array_ops junk] assms(1) obtain p s where
    "run_writes array_ops ws (Arr data) (eos_new_array junk memory data (length (written ws))) = Some (p, s)"
    "in_array memory data (length (written ws)) s p (written ws)" by auto
  then show ?thesis by (simp add: SerializeToArrayImpl_def in_array_def)
qed

section \<open>What a class promises of its writes\<close>

text \<open>
  The form of writes, without the bound on the length of a string, which follows from the length of
  all that is written.
\<close>

fun wr_form :: "wr \<Rightarrow> bool" where
  "wr_form (Put bs) \<longleftrightarrow> bs \<noteq> [] \<and> length bs \<le> 16"
| "wr_form (Raw bs) \<longleftrightarrow> True"
| "wr_form (Str num dat) \<longleftrightarrow> 0 < num \<and> num < 2 ^ 29"

lemma wr_ok_form: "list_all wr_form ws \<Longrightarrow> length (written ws) < 2 ^ 31 \<Longrightarrow> list_all wr_ok ws"
proof (induction ws)
  case (Cons w ws)
  then have "wr_ok w" by (cases w) (auto simp: WriteBytes_def)
  with Cons show ?case by simp
qed simp

declare NetInfo_ByteSizeLong.simps [simp del] CustemorInfo_ByteSizeLong.simps [simp del]
  CustemorPEList_ByteSizeLong.simps [simp del]

named_theorems put_simps "what the writes of a field leave, and their form"

lemma length_tag_varint: "length (WriteTag t @ WriteVarint v) \<le> 16"
  using length_WriteTag_size [of t] TagSize_le [of t] length_varint_10 [of v] by simp

lemma written_put [put_simps]:
  "written (put_int32 n v) = (if v \<noteq> 0 then WriteInt32 n v else [])"
  "written (put_uint32 n v) = (if v \<noteq> 0 then WriteUInt32 n v else [])"
  "written (put_uint64 n u) = (if u \<noteq> 0 then WriteUInt64 n u else [])"
  "written (put_bytes n bs) = (if bs \<noteq> [] then WriteBytes n bs else [])"
  "written (put_unknown m) = unknown_fields m"
  "written (put_message n k ws) = WriteMessage n k (written ws)"
  by (simp_all add: put_int32_def put_uint32_def put_uint64_def put_bytes_def put_unknown_def put_message_def
      WriteMessage_def WriteLengthDelim_def)

lemma written_concat [put_simps]: "written (concat xss) = concat (map written xss)"
  by (induction xss) simp_all

lemma form_put [put_simps]:
  "list_all wr_form (put_int32 n v)" "list_all wr_form (put_uint32 n v)" "list_all wr_form (put_uint64 n u)"
  "list_all wr_form (put_bytes n bs) \<longleftrightarrow> (bs \<noteq> [] \<longrightarrow> 0 < n \<and> n < 2 ^ 29)"
  "list_all wr_form (put_unknown m)"
  "list_all wr_form (put_message n k ws) \<longleftrightarrow> list_all wr_form ws"
  using length_tag_varint length_WriteLengthDelim [of n k]
  by (simp_all add: put_int32_def put_uint32_def put_uint64_def put_bytes_def put_unknown_def put_message_def
      WriteInt32_def WriteUInt32_def WriteUInt64_def WriteTag_def WriteLengthDelim_def)

lemma form_concat [put_simps]: "list_all wr_form (concat xss) \<longleftrightarrow> list_all (list_all wr_form) xss"
  by (induction xss) simp_all

locale message_output = message_codec +
  fixes writes :: "'a \<Rightarrow> wr list"
  assumes written_writes: "written (writes m) = serialize m"
    and form_writes: "list_all wr_form (writes m)"
begin

abbreviation api :: "'a message_api" where
  "api \<equiv> \<lparr> api_size = byte_size, api_writes = writes \<rparr>"

lemma writes_ok: "length (serialize m) < 2 ^ 31 \<Longrightarrow> list_all wr_ok (writes m)"
  using wr_ok_form [OF form_writes] by (simp add: written_writes)

lemma append_to_string:
  assumes "length (serialize m) < 2 ^ 31"
  shows "AppendPartialToString junk api m output = Some (True, output @ serialize m)"
proof -
  have n: "\<not> length (serialize m) > INT_MAX" using assms by simp
  have "SerializeToArrayImpl junk (writes m) (resize (length output + length (serialize m)) output)
      (length output) (length (serialize m)) =
    Some (Arr (length output + length (serialize m)),
      patched (resize (length output + length (serialize m)) output) (length output) (serialize m))"
    using SerializeToArrayImpl_writes [OF writes_ok [OF assms], of "length output"
        "resize (length output + length (serialize m)) output" junk] by (simp add: written_writes)
  with n assms show ?thesis
    by (simp add: AppendPartialToString_def Let_def size_serialize patched_def resize_def)
qed

lemma to_array:
  assumes "length (serialize m) < 2 ^ 31" "sz \<le> int (length memory)"
  shows "SerializePartialToArray junk api m memory sz =
    (if sz < int (length (serialize m)) then Some (False, memory)
     else Some (True, serialize m @ drop (length (serialize m)) memory))"
proof (cases "sz < int (length (serialize m))")
  case True
  with assms show ?thesis by (simp add: SerializePartialToArray_def Let_def size_serialize)
next
  case False
  with SerializeToArrayImpl_writes [OF writes_ok [OF assms(1)], of 0 memory junk] assms show ?thesis
    by (simp add: SerializePartialToArray_def Let_def size_serialize written_writes patched_def)
qed

lemma string_roundtrip:
  assumes "known m" "length (serialize m) \<le> 0x7FFFFFEF" "length (serialize m) < k"
  shows "\<exists>out. SerializeToString junk api m = Some (True, out) \<and> SerializeAsString junk api m = Some out \<and>
    ParseFromString (parse k out) cleared out = Some (m, True)"
  using append_to_string [of m junk "[]"] roundtrip [OF assms] assms(2)
  by (simp add: SerializeToString_def SerializeAsString_def AppendToString_def)

end

lemma written_NetInfo [put_simps]: "written (NetInfo_writes m) = NetInfo_InternalSerialize m"
  by (simp add: NetInfo_writes_def NetInfo_InternalSerialize_def put_simps comp_def)

lemma form_NetInfo [put_simps]: "list_all wr_form (NetInfo_writes m)"
  by (simp add: NetInfo_writes_def put_simps list.pred_map list.pred_True comp_def)

interpretation output_NetInfo: message_output NetInfo_InternalParse NetInfo_InternalSerialize NetInfo_ByteSizeLong NetInfo_default NetInfo_MergeFrom NetInfo_known 0 NetInfo_writes
  by unfold_locales (simp_all add: put_simps)

lemma written_NodeInfoList [put_simps]: "written (NodeInfoList_writes m) = NodeInfoList_InternalSerialize m"
  by (simp add: NodeInfoList_writes_def NodeInfoList_InternalSerialize_def put_simps comp_def)

lemma form_NodeInfoList [put_simps]: "list_all wr_form (NodeInfoList_writes m)"
  by (simp add: NodeInfoList_writes_def put_simps list.pred_map list.pred_True comp_def)

interpretation output_NodeInfoList: message_output NodeInfoList_InternalParse NodeInfoList_InternalSerialize NodeInfoList_ByteSizeLong NodeInfoList_default NodeInfoList_MergeFrom NodeInfoList_known 1 NodeInfoList_writes
  by unfold_locales (simp_all add: put_simps)

lemma written_Login [put_simps]: "written (Login_writes m) = Login_InternalSerialize m"
  by (simp add: Login_writes_def Login_InternalSerialize_def put_simps comp_def split: option.split)

lemma form_Login [put_simps]: "list_all wr_form (Login_writes m)"
  by (simp add: Login_writes_def put_simps list.pred_map list.pred_True comp_def split: option.split)

interpretation output_Login: message_output Login_InternalParse Login_InternalSerialize Login_ByteSizeLong Login_default Login_MergeFrom Login_known 1 Login_writes
  by unfold_locales (simp_all add: put_simps)

lemma written_LoginRes [put_simps]: "written (LoginRes_writes m) = LoginRes_InternalSerialize m"
  by (simp add: LoginRes_writes_def LoginRes_InternalSerialize_def put_simps comp_def)

lemma form_LoginRes [put_simps]: "list_all wr_form (LoginRes_writes m)"
  by (simp add: LoginRes_writes_def put_simps list.pred_map list.pred_True comp_def)

interpretation output_LoginRes: message_output LoginRes_InternalParse LoginRes_InternalSerialize LoginRes_ByteSizeLong LoginRes_default LoginRes_MergeFrom LoginRes_known 0 LoginRes_writes
  by unfold_locales (simp_all add: put_simps)

lemma written_CpeNodeChangeNotify [put_simps]: "written (CpeNodeChangeNotify_writes m) = CpeNodeChangeNotify_InternalSerialize m"
  by (simp add: CpeNodeChangeNotify_writes_def CpeNodeChangeNotify_InternalSerialize_def put_simps comp_def)

lemma form_CpeNodeChangeNotify [put_simps]: "list_all wr_form (CpeNodeChangeNotify_writes m)"
  by (simp add: CpeNodeChangeNotify_writes_def put_simps list.pred_map list.pred_True comp_def)

interpretation output_CpeNodeChangeNotify: message_output CpeNodeChangeNotify_InternalParse CpeNodeChangeNotify_InternalSerialize CpeNodeChangeNotify_ByteSizeLong CpeNodeChangeNotify_default CpeNodeChangeNotify_MergeFrom CpeNodeChangeNotify_known 0 CpeNodeChangeNotify_writes
  by unfold_locales (simp_all add: put_simps)

lemma written_KeepAlive [put_simps]: "written (KeepAlive_writes m) = KeepAlive_InternalSerialize m"
  by (simp add: KeepAlive_writes_def KeepAlive_InternalSerialize_def put_simps comp_def)

lemma form_KeepAlive [put_simps]: "list_all wr_form (KeepAlive_writes m)"
  by (simp add: KeepAlive_writes_def put_simps list.pred_map list.pred_True comp_def)

interpretation output_KeepAlive: message_output KeepAlive_InternalParse KeepAlive_InternalSerialize KeepAlive_ByteSizeLong KeepAlive_default KeepAlive_MergeFrom KeepAlive_known 0 KeepAlive_writes
  by unfold_locales (simp_all add: put_simps)

lemma written_KeepAliveRes [put_simps]: "written (KeepAliveRes_writes m) = KeepAliveRes_InternalSerialize m"
  by (simp add: KeepAliveRes_writes_def KeepAliveRes_InternalSerialize_def put_simps comp_def)

lemma form_KeepAliveRes [put_simps]: "list_all wr_form (KeepAliveRes_writes m)"
  by (simp add: KeepAliveRes_writes_def put_simps list.pred_map list.pred_True comp_def)

interpretation output_KeepAliveRes: message_output KeepAliveRes_InternalParse KeepAliveRes_InternalSerialize KeepAliveRes_ByteSizeLong KeepAliveRes_default KeepAliveRes_MergeFrom KeepAliveRes_known 0 KeepAliveRes_writes
  by unfold_locales (simp_all add: put_simps)

lemma written_Data [put_simps]: "written (Data_writes m) = Data_InternalSerialize m"
  by (simp add: Data_writes_def Data_InternalSerialize_def put_simps comp_def)

lemma form_Data [put_simps]: "list_all wr_form (Data_writes m)"
  by (simp add: Data_writes_def put_simps list.pred_map list.pred_True comp_def)

interpretation output_Data: message_output Data_InternalParse Data_InternalSerialize Data_ByteSizeLong Data_default Data_MergeFrom Data_known 0 Data_writes
  by unfold_locales (simp_all add: put_simps)

lemma written_CustemorInfo [put_simps]: "written (CustemorInfo_writes m) = CustemorInfo_InternalSerialize m"
  by (simp add: CustemorInfo_writes_def CustemorInfo_InternalSerialize_def put_simps comp_def)

lemma form_CustemorInfo [put_simps]: "list_all wr_form (CustemorInfo_writes m)"
  by (simp add: CustemorInfo_writes_def put_simps list.pred_map list.pred_True comp_def)

interpretation output_CustemorInfo: message_output CustemorInfo_InternalParse CustemorInfo_InternalSerialize CustemorInfo_ByteSizeLong CustemorInfo_default CustemorInfo_MergeFrom CustemorInfo_known 0 CustemorInfo_writes
  by unfold_locales (simp_all add: put_simps)

lemma written_CustemorPEList [put_simps]: "written (CustemorPEList_writes m) = CustemorPEList_InternalSerialize m"
  by (simp add: CustemorPEList_writes_def CustemorPEList_InternalSerialize_def put_simps comp_def)

lemma form_CustemorPEList [put_simps]: "list_all wr_form (CustemorPEList_writes m)"
  by (simp add: CustemorPEList_writes_def put_simps list.pred_map list.pred_True comp_def)

interpretation output_CustemorPEList: message_output CustemorPEList_InternalParse CustemorPEList_InternalSerialize CustemorPEList_ByteSizeLong CustemorPEList_default CustemorPEList_MergeFrom CustemorPEList_known 1 CustemorPEList_writes
  by unfold_locales (simp_all add: put_simps)

lemma written_UserListOnEdge [put_simps]: "written (UserListOnEdge_writes m) = UserListOnEdge_InternalSerialize m"
  by (simp add: UserListOnEdge_writes_def UserListOnEdge_InternalSerialize_def put_simps comp_def)

lemma form_UserListOnEdge [put_simps]: "list_all wr_form (UserListOnEdge_writes m)"
  by (simp add: UserListOnEdge_writes_def put_simps list.pred_map list.pred_True comp_def)

interpretation output_UserListOnEdge: message_output UserListOnEdge_InternalParse UserListOnEdge_InternalSerialize UserListOnEdge_ByteSizeLong UserListOnEdge_default UserListOnEdge_MergeFrom UserListOnEdge_known 2 UserListOnEdge_writes
  by unfold_locales (simp_all add: put_simps)

section \<open>Writing to a stream\<close>

context zero_copy_output
begin

text \<open>
  The stream ends with exactly what was written, or has refused a buffer, and then it holds the first
  part of it, and less than all.
\<close>

lemma zero_copy_writes:
  assumes "ok z" "length junk = 32" "list_all wr_ok (api_writes api m)" "api_size api m \<le> INT_MAX"
  shows "\<exists>r z'. SerializePartialToZeroCopyStream Z junk api m z = Some (r, z') \<and> ok z' \<and>
    (let out = zc_content Z z @ written (api_writes api m)
     in if r then zc_content Z z' = out
        else refused Z ok (zc_content Z z') out \<and> length (zc_content Z z') < length out)"
proof -
  obtain p0 s0 where n: "eos_new junk z = (p0, s0)" by (cases "eos_new junk z")
  have r0: "represents Z ok s0 p0 (zc_content Z z)" using represents_new [of ok z junk p0 s0 Z] assms n by simp
  have e0: "\<not> had_error s0" using n by (auto simp: eos_new_def)
  let ?out = "zc_content Z z @ written (api_writes api m)"
  from run_writes_appends [OF r0 assms(3)] e0 obtain p1 s1 where w:
    "run_writes Z (api_writes api m) p0 s0 = Some (p1, s1)" "represents Z ok s1 p1 ?out"
    "had_error s1 \<longrightarrow> short Z s1 ?out" by auto
  from Trim_represents [OF w(2)] obtain p2 s2 z2 where t: "eos_Trim Z p1 s1 = Some (p2, s2)"
    "represents Z ok s2 p2 ?out" "eos_stream s2 = Some z2"
    "if had_error s2 then refused Z ok (zc_content Z z2) ?out else zc_content Z z2 = ?out"
    "had_error s2 \<and> (had_error s1 \<longrightarrow> short Z s1 ?out) \<longrightarrow> length (zc_content Z z2) < length ?out" by blast
  have "ok z2" using t(2,3) by cases auto
  moreover have "SerializePartialToZeroCopyStream Z junk api m z = Some (\<not> had_error s2, z2)"
    using assms(4) n w(1) t(1,3) by (simp add: SerializePartialToZeroCopyStream_def)
  ultimately show ?thesis using t(4,5) w(3) by (auto simp: Let_def)
qed

text \<open>
  The coded stream: the byte counts agree with the size that was computed, so the process is not
  ended, while all that was written since the stream was created is less than two gigabytes.
\<close>

lemma coded_writes:
  assumes c: "follows Z ok c (start @ out)" "cos_start_count c = int (length start)"
    and e: "\<not> had_error (cos_impl c)"
    and w: "list_all wr_ok (api_writes api m)" "api_size api m = length (written (api_writes api m))"
    and l: "length out + api_size api m \<le> INT_MAX"
  shows "\<exists>c'. SerializePartialToCodedStream Z api m c = Some (Done_with (\<not> had_error (cos_impl c')), c') \<and>
    follows Z ok c' (start @ out @ written (api_writes api m)) \<and>
    (\<not> had_error (cos_impl c') \<longrightarrow> inside (cos_impl c') (cos_cur c'))"
proof -
  let ?w = "written (api_writes api m)"
  from c(1) have r: "represents Z ok (cos_impl c) (cos_cur c) (start @ out)" by (simp add: follows_def)
  have "\<exists>c1. SerializeWithCachedSizes Z api m c = Some c1 \<and> follows Z ok c1 ((start @ out) @ ?w) \<and>
      cos_start_count c1 = cos_start_count c"
    using run_writes_appends [OF r w(1)] e by (auto simp: SerializeWithCachedSizes_def on_impl_def follows_def)
  then obtain c1 where c1: "SerializeWithCachedSizes Z api m c = Some c1" "follows Z ok c1 ((start @ out) @ ?w)"
    "cos_start_count c1 = cos_start_count c" by blast
  from asked [OF c1(2)] obtain b c2 where c2: "coded_HadError Z c1 = Some (b, c2)"
    "follows Z ok c2 ((start @ out) @ ?w)" "cos_start_count c2 = cos_start_count c1" "b = had_error (cos_impl c2)"
    "\<not> b \<longrightarrow> inside (cos_impl c2) (cos_cur c2)" by blast
  have before: "coded_ByteCount Z c = Some (int (length out))"
    using counted [OF c e] l by simp
  have after: "coded_ByteCount Z c2 = Some (int (length (out @ ?w)))" if "\<not> b"
    using counted [of c2 start "out @ ?w"] c2 c(2) c1(3) w(2) l that by simp
  show ?thesis
    using c1 c2 before after w(2) l by (cases b) (simp_all add: SerializePartialToCodedStream_def Let_def)
qed

end

section \<open>Properties\<close>

lemma never_refused: "\<not> refused (string_ops a) string_ok D out"
proof
  assume "refused (string_ops a) string_ok D out"
  then obtain z z' where "sos_Next a z = (None, z')" by (auto simp: refused_def)
  with sos_Next_grows [of a z] show False by auto
qed

text \<open>
  Property C21: Serializing to an array that hands out its memory in blocks of any size succeeds exactly
  if the array is large enough; then the bytes of the message are at its start and the stream is
  positioned behind them. The memory behind the array is never touched.
\<close>

theorem array_stream_exact:
  assumes "length junk = 32" "n \<le> length memory" "list_all wr_ok (api_writes api m)" "api_size api m \<le> INT_MAX"
  shows "\<exists>z. SerializePartialToZeroCopyStream array_ops junk api m (ArrayOutputStream memory n block) =
      Some (length (written (api_writes api m)) \<le> n, z) \<and> drop n (aos_data z) = drop n memory \<and>
    (length (written (api_writes api m)) \<le> n \<longrightarrow>
       aos_position z = length (written (api_writes api m)) \<and>
       take (aos_position z) (aos_data z) = written (api_writes api m))"
proof -
  let ?z = "ArrayOutputStream memory n block" and ?w = "written (api_writes api m)"
  have c: "take (aos_position ?z) (aos_data ?z) = []" by (simp add: ArrayOutputStream_def)
  from array_stream.zero_copy_writes [OF array_ok_new [OF assms(2)] assms(1,3,4), of block,
      unfolded array_ops_sel c append_Nil Let_def]
  obtain r z where r: "SerializePartialToZeroCopyStream array_ops junk api m ?z = Some (r, z)"
    "array_ok n (drop n memory) z"
    "if r then take (aos_position z) (aos_data z) = ?w
     else refused array_ops (array_ok n (drop n memory)) (take (aos_position z) (aos_data z)) ?w \<and>
       length (take (aos_position z) (aos_data z)) < length ?w"
    by blast
  have l: "length (take (aos_position z) (aos_data z)) = aos_position z" "aos_position z \<le> n"
    using r(2) by (auto simp: array_ok_def)
  have "r \<longleftrightarrow> length ?w \<le> n"
  proof
    assume r
    with r(3) l show "length ?w \<le> n" by metis
  next
    assume le: "length ?w \<le> n"
    show r
    proof (rule ccontr)
      assume "\<not> r"
      with r(3) have "refused array_ops (array_ok n (drop n memory)) (take (aos_position z) (aos_data z)) ?w"
        "length (take (aos_position z) (aos_data z)) < length ?w" by simp_all
      with array_refused [OF this(1)] le show False by simp
    qed
  qed
  moreover have "aos_position z = length ?w" if r using r(3) l(1) that by simp
  ultimately show ?thesis using r l(2) by (auto simp: array_ok_def split: if_splits)
qed

theorem array_stream_exact_witness:
  "\<exists>z. SerializePartialToZeroCopyStream array_ops (replicate 32 0)
        \<lparr> api_size = (\<lambda>m. 3), api_writes = (\<lambda>m. [Put [8], Raw m]) \<rparr> [1, 2]
        (ArrayOutputStream [0, 0, 0, 9] 3 2) =
      Some (length (written (api_writes \<lparr> api_size = (\<lambda>m. 3), api_writes = (\<lambda>m. [Put [8], Raw m]) \<rparr> [1, 2])) \<le> 3, z) \<and>
    drop 3 (aos_data z) = drop 3 [0, 0, 0, 9] \<and>
    (length (written (api_writes \<lparr> api_size = (\<lambda>m. 3), api_writes = (\<lambda>m. [Put [8], Raw m]) \<rparr> [1, 2])) \<le> 3 \<longrightarrow>
       aos_position z = length (written (api_writes \<lparr> api_size = (\<lambda>m. 3), api_writes = (\<lambda>m. [Put [8], Raw m]) \<rparr> [1, 2])) \<and>
       take (aos_position z) (aos_data z) =
         written (api_writes \<lparr> api_size = (\<lambda>m. 3), api_writes = (\<lambda>m. [Put [8], Raw m]) \<rparr> [1, 2]))"
  by (rule array_stream_exact) simp_all

text \<open>
  A mesh description serialized to a string is appended to what the string has, whatever
  capacity it has and however it grows; both ways to do so, over the array of the string and over a
  stream that hands out its memory, give the same, and a parser reads the message back.
\<close>

theorem string_output_agrees:
  assumes "length junk = 32" "NodeInfoList_known m" "length (NodeInfoList_InternalSerialize m) \<le> 0x7FFFFFEF"
    "length (NodeInfoList_InternalSerialize m) < k"
  shows "\<exists>z. AppendPartialToString junk output_NodeInfoList.api m start = Some (True, sos_target z) \<and>
    SerializePartialToZeroCopyStream (string_ops allocate) junk output_NodeInfoList.api m
      (StringOutputStream start capacity) = Some (True, z) \<and>
    take (length start) (sos_target z) = start \<and>
    ParseFromString (NodeInfoList_InternalParse k (drop (length start) (sos_target z))) NodeInfoList_default
      (drop (length start) (sos_target z)) = Some (m, True)"
proof -
  let ?e = "NodeInfoList_InternalSerialize m"
  have l: "length ?e < 2 ^ 31" using assms(3) by simp
  have ok: "list_all wr_ok (api_writes output_NodeInfoList.api m)" "api_size output_NodeInfoList.api m \<le> INT_MAX"
    using output_NodeInfoList.writes_ok [OF l] codec_NodeInfoList.size_serialize [OF l] assms(3) by simp_all
  from string_stream.zero_copy_writes [OF string_ok_new assms(1) ok, of allocate start capacity]
  obtain r z where r: "SerializePartialToZeroCopyStream (string_ops allocate) junk output_NodeInfoList.api m
      (StringOutputStream start capacity) = Some (r, z)"
    "if r then sos_target z = start @ ?e
     else refused (string_ops allocate) string_ok (sos_target z) (start @ ?e)"
    by (auto simp: StringOutputStream_def Let_def output_NodeInfoList.written_writes split: if_splits)
  have "r" using r(2) never_refused by (auto split: if_splits)
  with r output_NodeInfoList.append_to_string [OF l, of junk start]
    codec_NodeInfoList.roundtrip [OF assms(2-4)] show ?thesis by simp
qed

theorem string_output_agrees_witness:
  "\<exists>z. AppendPartialToString (replicate 32 0) output_NodeInfoList.api NodeInfoList_default [1, 2] = Some (True, sos_target z) \<and>
    SerializePartialToZeroCopyStream (string_ops (\<lambda>n. n)) (replicate 32 0) output_NodeInfoList.api NodeInfoList_default
      (StringOutputStream [1, 2] 2) = Some (True, z) \<and>
    take (length [1, 2 :: byte]) (sos_target z) = [1, 2] \<and>
    ParseFromString (NodeInfoList_InternalParse 5 (drop (length [1, 2 :: byte]) (sos_target z))) NodeInfoList_default
      (drop (length [1, 2 :: byte]) (sos_target z)) = Some (NodeInfoList_default, True)"
  by (rule string_output_agrees)
    (simp_all add: NodeInfoList_known_def NodeInfoList_default_def NodeInfoList_InternalSerialize_def)

text \<open>On an array, whether there was an error is whether what was written does not fit.\<close>

lemma array_error:
  assumes "follows array_ops (array_ok n rest) c out"
    "\<not> had_error (cos_impl c) \<Longrightarrow> inside (cos_impl c) (cos_cur c)"
  shows "had_error (cos_impl c) \<longleftrightarrow> n < length out"
proof -
  have r: "represents array_ops (array_ok n rest) (cos_impl c) (cos_cur c) out"
    and sh: "had_error (cos_impl c) \<longrightarrow> short array_ops (cos_impl c) out"
    using assms(1) by (simp_all add: follows_def)
  show ?thesis
  proof (cases "had_error (cos_impl c)")
    case True
    from represents_broken [OF r True] obtain z where "eos_stream (cos_impl c) = Some z"
      "refused array_ops (array_ok n rest) (zc_content array_ops z) out" by blast
    with array_refused [OF this(2)] sh True show ?thesis by (simp add: short_def)
  next
    case False
    from array_stream.Trim_inside [OF r False assms(2) [OF False]] obtain z where "array_ok n rest z"
      "zc_content array_ops z = out" by metis
    then have "length out \<le> n" by (auto simp: array_ok_def)
    with False show ?thesis by simp
  qed
qed

text \<open>
  Property C37: a keep-alive message may follow any sequence of writes to a coded stream over an array, as
  long as what was written before it fits the array and all is below two gigabytes. The process is
  never ended over the bytes counted; whether the message still fits is what is reported, and if it
  does it then stands behind the rest.
\<close>

theorem coded_output_consistent:
  assumes "length junk = 32" "n \<le> length memory" "list_all cop_ok ps" "length (all_bytes ps) \<le> n"
    "length (all_bytes ps @ KeepAlive_InternalSerialize m) \<le> INT_MAX"
  shows "\<exists>c c'. CodedOutputStream array_ops junk eager (ArrayOutputStream memory n block) \<bind>
      run_cops array_ops ps = Some c \<and>
    SerializePartialToCodedStream array_ops output_KeepAlive.api m c =
      Some (Done_with (length (all_bytes ps @ KeepAlive_InternalSerialize m) \<le> n), c') \<and>
    (length (all_bytes ps @ KeepAlive_InternalSerialize m) \<le> n \<longrightarrow>
      (\<exists>z. coded_dtor array_ops c' = Some z \<and>
        take (aos_position z) (aos_data z) = all_bytes ps @ KeepAlive_InternalSerialize m))"
proof -
  let ?z = "ArrayOutputStream memory n block" and ?ok = "array_ok n (drop n memory)"
  let ?out = "all_bytes ps @ KeepAlive_InternalSerialize m"
  have start: "zc_content array_ops ?z = []" by (simp add: ArrayOutputStream_def)
  have l: "length (KeepAlive_InternalSerialize m) < 2 ^ 31" using assms(5) by simp
  have w: "list_all wr_ok (api_writes output_KeepAlive.api m)"
    "api_size output_KeepAlive.api m = length (written (api_writes output_KeepAlive.api m))"
    "written (api_writes output_KeepAlive.api m) = KeepAlive_InternalSerialize m"
    using output_KeepAlive.writes_ok [OF l] codec_KeepAlive.size_serialize [OF l] by (simp_all add: put_simps)
  from array_stream.constructed [where z = ?z and eager = eager, OF array_ok_new [OF assms(2)] assms(1)] obtain c0 where
    c0: "CodedOutputStream array_ops junk eager ?z = Some c0" "follows array_ops ?ok c0 []" "cos_start_count c0 = 0"
    unfolding start by auto
  from array_stream.run_cops_follows [OF c0(2) assms(3)] obtain c where c: "run_cops array_ops ps c0 = Some c"
    "follows array_ops ?ok c ([] @ all_bytes ps)" "cos_start_count c = int (length ([] :: bytes))" using c0(3) by auto
  have e: "\<not> had_error (cos_impl c)"
  proof
    assume h: "had_error (cos_impl c)"
    with array_error [of n "drop n memory" c "all_bytes ps"] c(2) assms(4) show False by simp
  qed
  from array_stream.coded_writes [OF c(2,3) e w(1,2)] assms(5) w(2,3) obtain c' where
    c': "SerializePartialToCodedStream array_ops output_KeepAlive.api m c = Some (Done_with (\<not> had_error (cos_impl c')), c')"
    "follows array_ops ?ok c' ?out" "\<not> had_error (cos_impl c') \<longrightarrow> inside (cos_impl c') (cos_cur c')" by auto
  have b: "\<not> had_error (cos_impl c') \<longleftrightarrow> length ?out \<le> n" using array_error [OF c'(2)] c'(3) by auto
  have "\<exists>z. coded_dtor array_ops c' = Some z \<and> take (aos_position z) (aos_data z) = ?out" if "length ?out \<le> n"
  proof -
    have h: "\<not> had_error (cos_impl c')" "inside (cos_impl c') (cos_cur c')" using b c'(3) that by auto
    have "represents array_ops ?ok (cos_impl c') (cos_cur c') ?out" using c'(2) by (simp add: follows_def)
    from array_stream.Trim_inside [OF this h] obtain p' s' z where
      "eos_Trim array_ops (cos_cur c') (cos_impl c') = Some (p', s')" "eos_stream s' = Some z"
      "zc_content array_ops z = ?out" by metis
    then show ?thesis by (simp add: coded_dtor_def coded_Trim_def on_impl_def)
  qed
  with c0(1) c(1) c'(1) b show ?thesis by (intro exI [of _ c] exI [of _ c']) simp
qed

theorem coded_output_consistent_witness:
  "\<exists>c c'. CodedOutputStream array_ops (replicate 32 0) False (ArrayOutputStream [0, 0, 0] 3 1) \<bind>
      run_cops array_ops [CRaw [1, 2]] = Some c \<and>
    SerializePartialToCodedStream array_ops output_KeepAlive.api KeepAlive_default c =
      Some (Done_with (length (all_bytes [CRaw [1, 2]] @ KeepAlive_InternalSerialize KeepAlive_default) \<le> 3), c') \<and>
    (length (all_bytes [CRaw [1, 2]] @ KeepAlive_InternalSerialize KeepAlive_default) \<le> 3 \<longrightarrow>
      (\<exists>z. coded_dtor array_ops c' = Some z \<and>
        take (aos_position z) (aos_data z) = all_bytes [CRaw [1, 2]] @ KeepAlive_InternalSerialize KeepAlive_default))"
  by (rule coded_output_consistent) (simp_all add: KeepAlive_default_def KeepAlive_InternalSerialize_def)

end
