(* ===== verification/Decimal.thy ===== *)
theory Decimal
  imports CLib "HOL-Library.Monad_Syntax"
begin

text \<open>
  The integer and text conversions of the vendored protobuf
  (\<open>include/protobuf/google/protobuf/stubs/strutil.cc\<close> and \<open>strutil.h\<close>): the parsers
  \<open>safe_strto32\<close>, \<open>safe_strtou32\<close>, \<open>safe_strto64\<close>, \<open>safe_strtou64\<close> and \<open>safe_strtob\<close>, the
  adaptors of \<open>strtol\<close>, and the printers \<open>FastInt32ToBuffer\<close>, \<open>FastUInt32ToBufferLeft\<close>, the
  hexadecimal ones, \<open>SimpleItoa\<close> and \<open>AlphaNum\<close>.

  \<open>None\<close> is undefined behaviour or a failed check: a signed operation out of its type, a
  byte written or a table read out of bounds, a fatal \<open>GOOGLE_CHECK\<close>.
\<close>

section \<open>Integer types and their arithmetic\<close>

text \<open>The instances the templates \<open>safe_parse_positive_int\<close> and its siblings are used at.\<close>

datatype IntType = int32_t | uint32_t | int64_t | uint64_t

fun is_signed :: "IntType \<Rightarrow> bool" where
  "is_signed int32_t = True" | "is_signed uint32_t = False"
| "is_signed int64_t = True" | "is_signed uint64_t = False"

fun limit_min :: "IntType \<Rightarrow> int" where
  "limit_min int32_t = - 2147483648" | "limit_min uint32_t = 0"
| "limit_min int64_t = - 9223372036854775808" | "limit_min uint64_t = 0"

fun limit_max :: "IntType \<Rightarrow> int" where
  "limit_max int32_t = 2147483647" | "limit_max uint32_t = 4294967295"
| "limit_max int64_t = 9223372036854775807" | "limit_max uint64_t = 18446744073709551615"

text \<open>The result of an operation in a type: signed ones must not overflow, unsigned ones wrap.\<close>

definition arith :: "IntType \<Rightarrow> int \<Rightarrow> int option" where
  "arith ty x =
     (if limit_min ty \<le> x \<and> x \<le> limit_max ty then Some x
      else if is_signed ty then None else Some (x mod (limit_max ty + 1)))"

text \<open>C++ division truncates toward zero, the remainder has the sign of the dividend.\<close>

definition c_div :: "int \<Rightarrow> int \<Rightarrow> int" where
  "c_div a b = sgn a * sgn b * (\<bar>a\<bar> div \<bar>b\<bar>)"

definition c_mod :: "int \<Rightarrow> int \<Rightarrow> int" where
  "c_mod a b = a - c_div a b * b"

lemma arith_in: "limit_min ty \<le> x \<Longrightarrow> x \<le> limit_max ty \<Longrightarrow> arith ty x = Some x"
  by (simp add: arith_def)

lemma c_div_nonneg: "0 \<le> a \<Longrightarrow> 0 < b \<Longrightarrow> c_div a b = a div b"
  by (cases "a = 0") (simp_all add: c_div_def)

lemma c_mod_nonneg: "0 \<le> a \<Longrightarrow> 0 < b \<Longrightarrow> c_mod a b = a mod b"
  by (simp add: c_mod_def c_div_nonneg minus_div_mult_eq_mod)

section \<open>Reading numbers\<close>

text \<open>
  \<open>safe_parse_sign\<close> returns whether the text has a minus sign and the text that remains,
  \<open>None\<close> where it returns false.
\<close>

definition trim_spaces :: "bytes \<Rightarrow> bytes" where
  "trim_spaces s = rev (dropWhile (\<lambda>b. b = 32) (rev (dropWhile (\<lambda>b. b = 32) s)))"

definition safe_parse_sign :: "bytes \<Rightarrow> (bool \<times> bytes) option" where
  "safe_parse_sign text =
     (case trim_spaces text of
        [] \<Rightarrow> None
      | b # s \<Rightarrow>
          if b = 45 \<or> b = 43 then (if s = [] then None else Some (b = 45, s))
          else Some (False, b # s))"

text \<open>The loops return whether they read the whole text and the value they store.\<close>

fun positive_digits :: "IntType \<Rightarrow> bytes \<Rightarrow> int \<Rightarrow> (bool \<times> int) option" where
  "positive_digits ty [] v = Some (True, v)"
| "positive_digits ty (c # s) v =
     (let digit = uint c - 48
      in if 10 \<le> digit \<or> digit < 0 then Some (False, v)
         else if c_div (limit_max ty) 10 < v then Some (False, limit_max ty)
         else do {
           v10 \<leftarrow> arith ty (v * 10);
           room \<leftarrow> arith ty (limit_max ty - digit);
           if room < v10 then Some (False, limit_max ty)
           else do { v' \<leftarrow> arith ty (v10 + digit); positive_digits ty s v' } })"

definition safe_parse_positive_int :: "IntType \<Rightarrow> bytes \<Rightarrow> (bool \<times> int) option" where
  "safe_parse_positive_int ty text = positive_digits ty text 0"

definition vmin_over_base :: "IntType \<Rightarrow> int" where
  "vmin_over_base ty =
     (if 0 < c_mod (limit_min ty) 10 then c_div (limit_min ty) 10 + 1 else c_div (limit_min ty) 10)"

fun negative_digits :: "IntType \<Rightarrow> bytes \<Rightarrow> int \<Rightarrow> (bool \<times> int) option" where
  "negative_digits ty [] v = Some (True, v)"
| "negative_digits ty (c # s) v =
     (let digit = uint c - 48
      in if 10 \<le> digit \<or> digit < 0 then Some (False, v)
         else if v < vmin_over_base ty then Some (False, limit_min ty)
         else do {
           v10 \<leftarrow> arith ty (v * 10);
           room \<leftarrow> arith ty (limit_min ty + digit);
           if v10 < room then Some (False, limit_min ty)
           else do { v' \<leftarrow> arith ty (v10 - digit); negative_digits ty s v' } })"

definition safe_parse_negative_int :: "IntType \<Rightarrow> bytes \<Rightarrow> (bool \<times> int) option" where
  "safe_parse_negative_int ty text = negative_digits ty text 0"

definition safe_int_internal :: "IntType \<Rightarrow> bytes \<Rightarrow> (bool \<times> int) option" where
  "safe_int_internal ty text =
     (case safe_parse_sign text of
        None \<Rightarrow> Some (False, 0)
      | Some (negative, s) \<Rightarrow>
          if \<not> negative then safe_parse_positive_int ty s else safe_parse_negative_int ty s)"

definition safe_uint_internal :: "IntType \<Rightarrow> bytes \<Rightarrow> (bool \<times> int) option" where
  "safe_uint_internal ty text =
     (case safe_parse_sign text of
        None \<Rightarrow> Some (False, 0)
      | Some (negative, s) \<Rightarrow> if negative then Some (False, 0) else safe_parse_positive_int ty s)"

definition safe_strto32 :: "bytes \<Rightarrow> (bool \<times> int) option" where
  "safe_strto32 s = safe_int_internal int32_t s"

definition safe_strtou32 :: "bytes \<Rightarrow> (bool \<times> int) option" where
  "safe_strtou32 s = safe_uint_internal uint32_t s"

definition safe_strto64 :: "bytes \<Rightarrow> (bool \<times> int) option" where
  "safe_strto64 s = safe_int_internal int64_t s"

definition safe_strtou64 :: "bytes \<Rightarrow> (bool \<times> int) option" where
  "safe_strtou64 s = safe_uint_internal uint64_t s"

section \<open>Reading truth values\<close>

definition ascii_tolower :: "byte \<Rightarrow> byte" where
  "ascii_tolower c = (if 65 \<le> c \<and> c \<le> 90 then c + (97 - 65) else c)"

fun memcasecmp :: "bytes \<Rightarrow> bytes \<Rightarrow> int" where
  "memcasecmp (a # s) (b # t) =
     (let diff = uint (ascii_tolower a) - uint (ascii_tolower b)
      in if diff \<noteq> 0 then diff else memcasecmp s t)"
| "memcasecmp _ _ = 0"

definition CaseEqual :: "bytes \<Rightarrow> bytes \<Rightarrow> bool" where
  "CaseEqual s1 s2 = (if length s1 \<noteq> length s2 then False else memcasecmp s1 s2 = 0)"

text \<open>The second part is the value stored, if any.\<close>

definition safe_strtob :: "bytes \<Rightarrow> bool \<times> bool option" where
  "safe_strtob s =
     (if CaseEqual s (str ''true'') \<or> CaseEqual s (str ''t'') \<or> CaseEqual s (str ''yes'') \<or>
         CaseEqual s (str ''y'') \<or> CaseEqual s (str ''1'') then (True, Some True)
      else if CaseEqual s (str ''false'') \<or> CaseEqual s (str ''f'') \<or> CaseEqual s (str ''no'') \<or>
         CaseEqual s (str ''n'') \<or> CaseEqual s (str ''0'') then (True, Some False)
      else (False, None))"

definition SimpleBtoa :: "bool \<Rightarrow> bytes" where
  "SimpleBtoa v = (if v then str ''true'' else str ''false'')"

section \<open>The adaptors of strtol and strtoul\<close>

text \<open>
  \<open>strtol\<close> and \<open>strtoul\<close> store the result, where the number ends, and \<open>ERANGE\<close> in \<open>errno\<close>
  when the number is out of range. The argument is what the library call gave when it was
  entered with \<open>errno\<close> zero: its result and the \<open>errno\<close> it left. The adaptor returns the
  result and leaves an \<open>errno\<close>.
\<close>

definition ERANGE :: int where "ERANGE = 34"

definition strto32_adaptor :: "int \<times> int \<Rightarrow> int \<Rightarrow> int \<times> int" where
  "strto32_adaptor lib saved_errno =
     (let (res, errno) = lib
      in if errno = ERANGE \<and> res = limit_min int64_t then (limit_min int32_t, errno)
         else if errno = ERANGE \<and> res = limit_max int64_t then (limit_max int32_t, errno)
         else if errno = 0 \<and> res < limit_min int32_t then (limit_min int32_t, ERANGE)
         else if errno = 0 \<and> limit_max int32_t < res then (limit_max int32_t, ERANGE)
         else (signed_take_bit 31 res, if errno = 0 then saved_errno else errno))"

definition strtou32_adaptor :: "int \<times> int \<Rightarrow> int \<Rightarrow> int \<times> int" where
  "strtou32_adaptor lib saved_errno =
     (let (res, errno) = lib
      in if errno = ERANGE \<and> res = limit_max uint64_t then (limit_max uint32_t, errno)
         else if errno = 0 \<and> limit_max uint32_t < res then (limit_max uint32_t, ERANGE)
         else (take_bit 32 res, if errno = 0 then saved_errno else errno))"

section \<open>What the parsers accept\<close>

text \<open>
  A text that denotes the number \<open>n\<close>: spaces, at most one sign, decimal digits, spaces. Other
  white space, a space after the sign and an empty text denote nothing.
\<close>

definition signed_value :: "bool \<Rightarrow> bytes \<Rightarrow> int" where
  "signed_value neg ds = (if neg then - int (digits_value 10 ds) else int (digits_value 10 ds))"

definition is_numeral :: "bool \<Rightarrow> bytes \<Rightarrow> int \<Rightarrow> bool" where
  "is_numeral neg s n \<longleftrightarrow>
     (\<exists>a b sg ds. s = replicate a 32 @ sg @ ds @ replicate b 32 \<and> ds \<noteq> [] \<and> list_all (is_digit 10) ds \<and>
       sg \<in> (if neg then {[45]} else {[], [43]}) \<and> n = signed_value neg ds)"

definition clamp :: "IntType \<Rightarrow> int \<Rightarrow> int" where
  "clamp ty n = max (limit_min ty) (min (limit_max ty) n)"

text \<open>A byte is a digit as the loops test it.\<close>

lemma digit_test: "(10 \<le> uint c - 48 \<or> uint c - 48 < 0) = (\<not> is_digit 10 c)" for c :: byte
proof -
  have *: "((if 48 \<le> n \<and> n \<le> 57 then n - 48 else if 97 \<le> n \<and> n \<le> 122 then n - 87
      else if 65 \<le> n \<and> n \<le> 90 then n - 55 else 36) < 10) = (48 \<le> n \<and> n \<le> 57)" for n :: nat
    by auto
  have "is_digit 10 c = (48 \<le> unat c \<and> unat c \<le> 57)"
    by (rule trans [OF _ *]) (simp add: is_digit_def digit_of_def word_le_nat_alt)
  then show ?thesis by (simp only: uint_nat) linarith
qed

lemma digit_value: "is_digit 10 c \<Longrightarrow> uint c - 48 = int (digit_of c)" for c :: byte
proof -
  assume d: "is_digit 10 c"
  then have "\<not> (10 \<le> uint c - 48 \<or> uint c - 48 < 0)" using digit_test [of c] by blast
  then have "48 \<le> c \<and> c \<le> 57" by (simp add: word_le_def)
  moreover from this have "48 \<le> unat c" by (simp add: word_le_nat_alt)
  ultimately show ?thesis by (simp add: digit_of_def of_nat_diff)
qed

lemma digit_bounds: "is_digit 10 c \<Longrightarrow> 0 \<le> int (digit_of c) \<and> int (digit_of c) < 10"
  by (simp add: is_digit_def)

lemma c_div_max: "c_div (limit_max ty) 10 = limit_max ty div 10"
  by (cases ty) (simp_all add: c_div_def)

lemma vmin_over_base_signed: "is_signed ty \<Longrightarrow> vmin_over_base ty = - (limit_max ty div 10)"
  by (cases ty) (simp_all add: vmin_over_base_def c_mod_def c_div_def)

lemma limits_signed: "is_signed ty \<Longrightarrow> limit_min ty = - limit_max ty - 1"
  by (cases ty) simp_all

lemma limits_pos: "limit_min ty \<le> 0" "100 \<le> limit_max ty" "limit_max ty mod 10 \<noteq> 9"
  by (cases ty; simp)+

text \<open>One turn of a loop: the number grows by a digit as long as it stays in the type.\<close>

lemma positive_digits_digit:
  assumes d: "is_digit 10 c" and v: "0 \<le> v" "v \<le> limit_max ty"
  shows "positive_digits ty (c # s) v =
    (if 10 * v + int (digit_of c) \<le> limit_max ty then positive_digits ty s (10 * v + int (digit_of c))
     else Some (False, limit_max ty))"
proof (cases "limit_max ty div 10 < v")
  case True
  then have "limit_max ty < 10 * v" by linarith
  with True d digit_bounds [OF d] show ?thesis
    by (simp only: positive_digits.simps Let_def digit_test c_div_max) simp
next
  case False
  then have "10 * v \<le> limit_max ty" by linarith
  then have "arith ty (v * 10) = Some (10 * v)"
      "arith ty (limit_max ty - int (digit_of c)) = Some (limit_max ty - int (digit_of c))"
    using v digit_bounds [OF d] limits_pos [of ty] by (simp_all add: arith_def mult.commute)
  moreover have "arith ty (10 * v + int (digit_of c)) = Some (10 * v + int (digit_of c))"
    if "10 * v + int (digit_of c) \<le> limit_max ty"
    using that v digit_bounds [OF d] limits_pos [of ty] by (simp add: arith_def)
  ultimately show ?thesis using False d digit_bounds [OF d]
    by (simp only: positive_digits.simps Let_def c_div_max digit_value) auto
qed

lemma negative_digits_digit:
  assumes ty: "is_signed ty" and d: "is_digit 10 c" and v: "v \<le> 0" "limit_min ty \<le> v"
  shows "negative_digits ty (c # s) v =
    (if limit_min ty \<le> 10 * v - int (digit_of c) then negative_digits ty s (10 * v - int (digit_of c))
     else Some (False, limit_min ty))"
proof (cases "v < - (limit_max ty div 10)")
  case True
  then have "10 * v < limit_min ty" using limits_signed [OF ty] limits_pos(3) [of ty] by presburger
  with True d digit_bounds [OF d] show ?thesis
    by (simp only: negative_digits.simps Let_def digit_test vmin_over_base_signed [OF ty]) simp
next
  case False
  then have "limit_min ty \<le> 10 * v" using limits_signed [OF ty] by linarith
  then have "arith ty (v * 10) = Some (10 * v)"
      "arith ty (limit_min ty + int (digit_of c)) = Some (limit_min ty + int (digit_of c))"
    using v digit_bounds [OF d] limits_pos [of ty] by (simp_all add: arith_def mult.commute)
  moreover have "arith ty (10 * v - int (digit_of c)) = Some (10 * v - int (digit_of c))"
    if "limit_min ty \<le> 10 * v - int (digit_of c)"
    using that v digit_bounds [OF d] limits_pos [of ty] by (simp add: arith_def)
  ultimately show ?thesis using False d digit_bounds [OF d]
    by (simp only: negative_digits.simps Let_def vmin_over_base_signed [OF ty] digit_value) auto
qed

lemma digits_value_from:
  "foldl (\<lambda>a b. 10 * a + digit_of b) v ds = v * 10 ^ length ds + digits_value 10 ds"
proof (induction ds rule: rev_induct)
  case (snoc d ds)
  then show ?case by (simp add: digits_value_append algebra_simps)
qed (simp add: digits_value_def)

lemma digits_value_Cons: "digits_value 10 (d # ds) = digit_of d * 10 ^ length ds + digits_value 10 ds"
  using digits_value_from [of "digit_of d" ds] by (simp add: digits_value_def)

text \<open>The loops never fail; on digits they give the number, or the bound that it passes.\<close>

lemma positive_digits_total: "0 \<le> v \<Longrightarrow> v \<le> limit_max ty \<Longrightarrow>
   (\<exists>r. positive_digits ty s v = Some r \<and> (fst r \<longrightarrow> list_all (is_digit 10) s))"
proof (induction s arbitrary: v)
  case (Cons c s)
  show ?case
  proof (cases "is_digit 10 c")
    case True
    then show ?thesis using Cons.IH [of "10 * v + int (digit_of c)"] Cons.prems
      by (auto simp: positive_digits_digit simp del: positive_digits.simps)
  next
    case False
    then show ?thesis
      by (intro exI [of _ "(False, v)"]) (simp only: positive_digits.simps Let_def digit_test, simp)
  qed
qed (rule exI [of _ "(True, _)"], simp)

lemma negative_digits_total: "is_signed ty \<Longrightarrow> v \<le> 0 \<Longrightarrow> limit_min ty \<le> v \<Longrightarrow>
   (\<exists>r. negative_digits ty s v = Some r \<and> (fst r \<longrightarrow> list_all (is_digit 10) s))"
proof (induction s arbitrary: v)
  case (Cons c s)
  show ?case
  proof (cases "is_digit 10 c")
    case True
    then show ?thesis using Cons.IH [of "10 * v - int (digit_of c)"] Cons.prems
      by (auto simp: negative_digits_digit simp del: negative_digits.simps)
  next
    case False
    then show ?thesis
      by (intro exI [of _ "(False, v)"]) (simp only: negative_digits.simps Let_def digit_test, simp)
  qed
qed (rule exI [of _ "(True, _)"], simp)

lemma positive_digits_value:
  "list_all (is_digit 10) ds \<Longrightarrow> 0 \<le> v \<Longrightarrow> v \<le> limit_max ty \<Longrightarrow>
   positive_digits ty ds v =
     (let n = v * 10 ^ length ds + int (digits_value 10 ds)
      in Some (n \<le> limit_max ty, min (limit_max ty) n))"
proof (induction ds arbitrary: v)
  case Nil
  then show ?case by (simp add: digits_value_def)
next
  case (Cons d ds)
  have e: "v * 10 ^ length (d # ds) + int (digits_value 10 (d # ds)) =
      (10 * v + int (digit_of d)) * 10 ^ length ds + int (digits_value 10 ds)"
    by (simp add: digits_value_Cons algebra_simps)
  show ?case
  proof (cases "10 * v + int (digit_of d) \<le> limit_max ty")
    case True
    with Cons show ?thesis
      unfolding e by (simp add: positive_digits_digit del: positive_digits.simps)
  next
    case False
    then have "limit_max ty < (10 * v + int (digit_of d)) * 1" by simp
    also have "\<dots> \<le> (10 * v + int (digit_of d)) * 10 ^ length ds"
      using Cons.prems by (intro mult_left_mono) auto
    finally show ?thesis using Cons.prems False
      unfolding e by (simp add: positive_digits_digit Let_def del: positive_digits.simps)
  qed
qed

lemma negative_digits_value:
  "is_signed ty \<Longrightarrow> list_all (is_digit 10) ds \<Longrightarrow> v \<le> 0 \<Longrightarrow> limit_min ty \<le> v \<Longrightarrow>
   negative_digits ty ds v =
     (let n = v * 10 ^ length ds - int (digits_value 10 ds)
      in Some (limit_min ty \<le> n, max (limit_min ty) n))"
proof (induction ds arbitrary: v)
  case Nil
  then show ?case by (simp add: digits_value_def)
next
  case (Cons d ds)
  have e: "v * 10 ^ length (d # ds) - int (digits_value 10 (d # ds)) =
      (10 * v - int (digit_of d)) * 10 ^ length ds - int (digits_value 10 ds)"
    by (simp add: digits_value_Cons algebra_simps)
  show ?case
  proof (cases "limit_min ty \<le> 10 * v - int (digit_of d)")
    case True
    with Cons show ?thesis
      unfolding e by (simp add: negative_digits_digit del: negative_digits.simps)
  next
    case False
    have "(10 * v - int (digit_of d)) * 10 ^ length ds \<le> (10 * v - int (digit_of d)) * 1"
      using Cons.prems by (intro mult_left_mono_neg) auto
    also have "\<dots> < limit_min ty" using False by simp
    finally show ?thesis using Cons.prems False
      unfolding e by (simp add: negative_digits_digit Let_def del: negative_digits.simps)
  qed
qed

text \<open>The spaces around a text are dropped, and nothing else.\<close>

lemma takeWhile_spaces: "takeWhile (\<lambda>b. b = 32) r = replicate (length (takeWhile (\<lambda>b. b = 32) r)) 32" for r :: bytes
  by (rule replicate_length_same [symmetric]) (auto dest: set_takeWhileD)

lemma trim_split: "\<exists>a b. s = replicate a 32 @ trim_spaces s @ replicate b 32"
proof -
  obtain a t where a: "s = replicate a 32 @ t" "t = dropWhile (\<lambda>b. b = 32) s"
    by (metis takeWhile_dropWhile_id takeWhile_spaces)
  obtain b r where b: "rev t = replicate b 32 @ r" "r = dropWhile (\<lambda>b. b = 32) (rev t)"
    by (metis takeWhile_dropWhile_id takeWhile_spaces)
  have "trim_spaces s = rev r" using a(2) b(2) by (simp add: trim_spaces_def)
  moreover have "t = rev r @ replicate b 32" using arg_cong [OF b(1), of rev] by simp
  ultimately have "s = replicate a 32 @ trim_spaces s @ replicate b 32" using a(1) by simp
  then show ?thesis by blast
qed

lemma trim_padded:
  assumes "t \<noteq> []" "hd t \<noteq> 32" "last t \<noteq> 32"
  shows "trim_spaces (replicate a 32 @ t @ replicate b 32) = t"
proof -
  have skip: "dropWhile (\<lambda>b. b = 32) (replicate n 32 @ x) = dropWhile (\<lambda>b. b = 32) x" for n and x :: bytes
    by (induction n) simp_all
  have stay: "dropWhile (\<lambda>b. b = 32) (x @ y) = x @ y" if "x \<noteq> []" "hd x \<noteq> 32" for x y :: bytes
    using that by (cases x) simp_all
  show ?thesis
    using assms stay [of t] stay [of "rev t" "[]"] by (simp add: trim_spaces_def skip rev_replicate hd_rev)
qed

lemma space_no_digit: "\<not> is_digit 10 32" "\<not> is_digit 10 43" "\<not> is_digit 10 45"
  by (simp_all add: is_digit_def digit_of_def)

lemma parse_sign_numeral:
  assumes "is_numeral neg s n"
  obtains ds where "safe_parse_sign s = Some (neg, ds)" "list_all (is_digit 10) ds" "n = signed_value neg ds"
proof -
  from assms obtain a b sg ds where s: "s = replicate a 32 @ (sg @ ds) @ replicate b 32" and ds: "ds \<noteq> []"
      "list_all (is_digit 10) ds" and sg: "sg \<in> (if neg then {[45]} else {[], [43]})" and n: "n = signed_value neg ds"
    by (auto simp: is_numeral_def)
  have d: "is_digit 10 (hd ds)" "is_digit 10 (last ds)" using ds by (auto simp: list_all_iff)
  have "hd ds \<noteq> 32" "last ds \<noteq> 32" using d space_no_digit(1) by metis+
  then have "hd (sg @ ds) \<noteq> 32" "last (sg @ ds) \<noteq> 32" using sg ds(1) by (auto split: if_splits)
  then have t: "trim_spaces s = sg @ ds" unfolding s using ds by (intro trim_padded) auto
  obtain c r where c: "ds = c # r" using ds by (cases ds) auto
  have "c \<noteq> 43" "c \<noteq> 45" using d(1) c space_no_digit by auto
  then have "safe_parse_sign s = Some (neg, ds)"
    using sg c by (auto simp: safe_parse_sign_def t split: if_splits)
  with ds n show thesis by (intro that)
qed

lemma parse_sign_gives:
  assumes "safe_parse_sign s = Some (neg, ds)" "list_all (is_digit 10) ds"
  shows "is_numeral neg s (signed_value neg ds)"
proof -
  obtain a b where s: "s = replicate a 32 @ trim_spaces s @ replicate b 32" using trim_split by blast
  have "\<exists>sg. trim_spaces s = sg @ ds \<and> ds \<noteq> [] \<and> sg \<in> (if neg then {[45]} else {[], [43]})"
    using assms(1) by (auto simp: safe_parse_sign_def split: list.splits if_splits)
  then obtain sg where "trim_spaces s = sg @ ds" "ds \<noteq> []" "sg \<in> (if neg then {[45]} else {[], [43]})" by blast
  with s assms(2) show ?thesis unfolding is_numeral_def
    by (intro exI [of _ a] exI [of _ b] exI [of _ sg] exI [of _ ds]) simp
qed

lemma safe_int_numeral:
  assumes "is_signed ty" "is_numeral neg s n"
  shows "safe_int_internal ty s = Some (clamp ty n = n, clamp ty n)"
proof -
  obtain ds where p: "safe_parse_sign s = Some (neg, ds)" and ds: "list_all (is_digit 10) ds" and n: "n = signed_value neg ds"
    using parse_sign_numeral [OF assms(2)] .
  have "safe_parse_positive_int ty ds = Some (int (digits_value 10 ds) \<le> limit_max ty, min (limit_max ty) (int (digits_value 10 ds)))"
    using positive_digits_value [OF ds, of 0 ty] limits_pos [of ty] by (simp add: safe_parse_positive_int_def Let_def)
  moreover have "safe_parse_negative_int ty ds =
      Some (limit_min ty \<le> - int (digits_value 10 ds), max (limit_min ty) (- int (digits_value 10 ds)))"
    using negative_digits_value [OF assms(1) ds, of 0] limits_pos [of ty] by (simp add: safe_parse_negative_int_def Let_def)
  ultimately show ?thesis using p n limits_pos [of ty]
    by (cases neg) (auto simp: safe_int_internal_def clamp_def signed_value_def max_def min_def)
qed

lemma safe_uint_numeral:
  assumes "is_numeral False s n"
  shows "safe_uint_internal ty s = Some (clamp ty n = n, clamp ty n)"
proof -
  obtain ds where p: "safe_parse_sign s = Some (False, ds)" and ds: "list_all (is_digit 10) ds" and n: "n = signed_value False ds"
    using parse_sign_numeral [OF assms] .
  have "safe_parse_positive_int ty ds = Some (int (digits_value 10 ds) \<le> limit_max ty, min (limit_max ty) (int (digits_value 10 ds)))"
    using positive_digits_value [OF ds, of 0 ty] limits_pos [of ty] by (simp add: safe_parse_positive_int_def Let_def)
  then show ?thesis using p n limits_pos [of ty]
    by (auto simp: safe_uint_internal_def clamp_def signed_value_def max_def min_def)
qed

lemma clamp_eq: "clamp ty n = n \<longleftrightarrow> limit_min ty \<le> n \<and> n \<le> limit_max ty"
  using limits_pos [of ty] by (auto simp: clamp_def)

text \<open>What is accepted is a number of the type, what is refused is no such number.\<close>

lemma safe_int_accepts:
  assumes ty: "is_signed ty"
  shows "safe_int_internal ty s = Some (True, v) \<longleftrightarrow>
    (\<exists>neg. is_numeral neg s v) \<and> limit_min ty \<le> v \<and> v \<le> limit_max ty"
proof
  assume a: "safe_int_internal ty s = Some (True, v)"
  then obtain neg ds where p: "safe_parse_sign s = Some (neg, ds)"
      and r: "(if neg then safe_parse_negative_int ty ds else safe_parse_positive_int ty ds) = Some (True, v)"
    by (auto simp: safe_int_internal_def split: option.splits if_splits)
  have "list_all (is_digit 10) ds"
    using r positive_digits_total [of 0 ty ds] negative_digits_total [OF ty, of 0 ds] limits_pos [of ty]
    by (auto simp: safe_parse_positive_int_def safe_parse_negative_int_def split: if_splits)
  from parse_sign_gives [OF p this] have n: "is_numeral neg s (signed_value neg ds)" .
  with a safe_int_numeral [OF ty n] have "clamp ty (signed_value neg ds) = signed_value neg ds" "v = signed_value neg ds"
    by auto
  with n show "(\<exists>neg. is_numeral neg s v) \<and> limit_min ty \<le> v \<and> v \<le> limit_max ty" by (auto simp: clamp_eq)
next
  assume "(\<exists>neg. is_numeral neg s v) \<and> limit_min ty \<le> v \<and> v \<le> limit_max ty"
  then show "safe_int_internal ty s = Some (True, v)" using safe_int_numeral [OF ty] by (auto simp: clamp_eq)
qed

lemma safe_uint_accepts:
  "safe_uint_internal ty s = Some (True, v) \<longleftrightarrow> is_numeral False s v \<and> limit_min ty \<le> v \<and> v \<le> limit_max ty"
proof
  assume a: "safe_uint_internal ty s = Some (True, v)"
  then obtain ds where p: "safe_parse_sign s = Some (False, ds)" and r: "safe_parse_positive_int ty ds = Some (True, v)"
    by (auto simp: safe_uint_internal_def split: option.splits if_splits)
  have "list_all (is_digit 10) ds"
    using r positive_digits_total [of 0 ty ds] limits_pos [of ty] by (auto simp: safe_parse_positive_int_def)
  from parse_sign_gives [OF p this] have n: "is_numeral False s (signed_value False ds)" .
  with a safe_uint_numeral [OF n] have "clamp ty (signed_value False ds) = signed_value False ds" "v = signed_value False ds"
    by auto
  with n show "is_numeral False s v \<and> limit_min ty \<le> v \<and> v \<le> limit_max ty" by (auto simp: clamp_eq)
next
  assume "is_numeral False s v \<and> limit_min ty \<le> v \<and> v \<le> limit_max ty"
  then show "safe_uint_internal ty s = Some (True, v)" using safe_uint_numeral by (auto simp: clamp_eq)
qed

lemma safe_int_total: "is_signed ty \<Longrightarrow> safe_int_internal ty s \<noteq> None"
  using positive_digits_total [of 0 ty] negative_digits_total [of ty 0] limits_pos [of ty]
  by (fastforce simp: safe_int_internal_def safe_parse_positive_int_def safe_parse_negative_int_def
      split: option.splits prod.splits)

lemma safe_uint_total: "safe_uint_internal ty s \<noteq> None"
  using positive_digits_total [of 0 ty] limits_pos [of ty]
  by (fastforce simp: safe_uint_internal_def safe_parse_positive_int_def split: option.splits prod.splits)

section \<open>Truth values and the adaptors\<close>

lemma memcasecmp_eq:
  "length s = length t \<Longrightarrow> memcasecmp s t = 0 \<longleftrightarrow> map ascii_tolower s = map ascii_tolower t"
  by (induction s t rule: memcasecmp.induct) (auto simp: Let_def word_uint_eq_iff)

lemma CaseEqual_iff: "CaseEqual s t \<longleftrightarrow> map ascii_tolower s = map ascii_tolower t"
proof (cases "length s = length t")
  case False
  then have "map ascii_tolower s \<noteq> map ascii_tolower t" by (metis length_map)
  with False show ?thesis by (simp add: CaseEqual_def)
qed (simp add: CaseEqual_def memcasecmp_eq)

lemma safe_strtob_SimpleBtoa: "safe_strtob (SimpleBtoa v) = (True, Some v)"
  by (cases v) (simp_all add: safe_strtob_def SimpleBtoa_def CaseEqual_iff ascii_tolower_def)

text \<open>
  What the library gives for a number \<open>n\<close>: the number brought into \<open>long\<close>, and \<open>ERANGE\<close> if
  that changed it. The adaptor brings it into 32 bits and leaves the caller's \<open>errno\<close> alone
  exactly when the number is one of them.
\<close>

lemma strto32_adaptor_clamps:
  "strto32_adaptor (clamp int64_t n, if clamp int64_t n = n then 0 else ERANGE) saved =
     (clamp int32_t n, if clamp int32_t n = n then saved else ERANGE)"
proof -
  have "signed_take_bit 31 n = n" if "- 2147483648 \<le> n" "n \<le> 2147483647"
    using that by (intro signed_take_bit_int_eq_self) simp_all
  then show ?thesis by (auto simp: strto32_adaptor_def clamp_def ERANGE_def min_def max_def)
qed

lemma strtou32_adaptor_clamps:
  "0 \<le> n \<Longrightarrow> strtou32_adaptor (clamp uint64_t n, if clamp uint64_t n = n then 0 else ERANGE) saved =
     (clamp uint32_t n, if clamp uint32_t n = n then saved else ERANGE)"
proof -
  have "take_bit 32 n = n" if "0 \<le> n" "n \<le> 4294967295"
    using that by (intro take_bit_int_eq_self) simp_all
  then show "0 \<le> n \<Longrightarrow> ?thesis" by (auto simp: strtou32_adaptor_def clamp_def ERANGE_def min_def max_def)
qed

section \<open>Properties\<close>

text \<open>
  Property C32: the four parsers always return, without an overflow on the way. They return true
  with the value \<open>v\<close> exactly for the texts that denote \<open>v\<close> (spaces, at most one sign, digits,
  spaces) when \<open>v\<close> is a number of the type; the unsigned ones take no text with a minus sign,
  not even for zero.
\<close>

theorem safe_strto_accepts:
  "(safe_strto32 s = Some (True, v) \<longleftrightarrow>
      (\<exists>neg. is_numeral neg s v) \<and> - (2 ^ 31) \<le> v \<and> v < 2 ^ 31) \<and>
   (safe_strtou32 s = Some (True, v) \<longleftrightarrow> is_numeral False s v \<and> v < 2 ^ 32) \<and>
   (safe_strto64 s = Some (True, v) \<longleftrightarrow>
      (\<exists>neg. is_numeral neg s v) \<and> - (2 ^ 63) \<le> v \<and> v < 2 ^ 63) \<and>
   (safe_strtou64 s = Some (True, v) \<longleftrightarrow> is_numeral False s v \<and> v < 2 ^ 64) \<and>
   safe_strto32 s \<noteq> None \<and> safe_strtou32 s \<noteq> None \<and> safe_strto64 s \<noteq> None \<and> safe_strtou64 s \<noteq> None"
proof -
  have "0 \<le> v" if "is_numeral False s v" using that by (auto simp: is_numeral_def signed_value_def)
  then show ?thesis
    by (auto simp: safe_strto32_def safe_strtou32_def safe_strto64_def safe_strtou64_def safe_int_accepts
        safe_uint_accepts safe_int_total safe_uint_total)
qed

text \<open>
  On a text that denotes a number out of the range of the type the parsers return
  false and store the bound of the type that the number passes.
\<close>

theorem safe_strto_saturates:
  assumes "is_numeral neg s n"
  shows "safe_strto32 s = Some (clamp int32_t n = n, clamp int32_t n) \<and>
    safe_strto64 s = Some (clamp int64_t n = n, clamp int64_t n) \<and>
    safe_strtou32 s = Some (if neg then (False, 0) else (clamp uint32_t n = n, clamp uint32_t n)) \<and>
    safe_strtou64 s = Some (if neg then (False, 0) else (clamp uint64_t n = n, clamp uint64_t n))"
proof -
  have "safe_uint_internal ty s = Some (if neg then (False, 0) else (clamp ty n = n, clamp ty n))" for ty
  proof (cases neg)
    case True
    from assms obtain ds where "safe_parse_sign s = Some (neg, ds)" by (rule parse_sign_numeral)
    with True show ?thesis by (simp add: safe_uint_internal_def)
  qed (use assms safe_uint_numeral in simp)
  then show ?thesis using assms
    by (simp add: safe_strto32_def safe_strtou32_def safe_strto64_def safe_strtou64_def safe_int_numeral)
qed

text \<open>A number one above \<open>INT_MAX\<close>, with a plus sign and spaces around it.\<close>

theorem safe_strto_saturates_witness:
  "safe_strto32 (str '' +2147483648 '') = Some (False, 2147483647) \<and>
   safe_strtou32 (str '' +2147483648 '') = Some (True, 2147483648)"
proof -
  have "is_numeral False (str '' +2147483648 '') 2147483648"
    unfolding is_numeral_def
    by (intro exI [of _ 1] exI [of _ "[43]"] exI [of _ "str ''2147483648''"])
      (simp add: signed_value_def digits_value_def digit_of_def is_digit_def)
  from safe_strto_saturates [OF this] show ?thesis by (simp add: clamp_def)
qed

end
