(* ===== verification/Itoa.thy ===== *)
theory Itoa
  imports Decimal
begin

text \<open>
  The printers of integers of \<open>include/protobuf/google/protobuf/stubs/strutil.cc\<close>. A pointer
  into the caller's buffer is a position, a buffer is the bytes it has room for; \<open>None\<close> is
  a byte written outside the buffer, a table read outside the table or an operation out
  of its type. What a fresh array holds is a parameter.
\<close>

section \<open>Writing from the end\<close>

definition put_back :: "byte \<Rightarrow> int \<times> bytes \<Rightarrow> (int \<times> bytes) option" where
  "put_back b st =
     (let (p, buf) = st in if 0 \<le> p \<and> nat p < length buf then Some (p - 1, buf[nat p := b]) else None)"

lemma c_div_less: "0 < c_div i 10 \<Longrightarrow> 0 < i \<and> c_div i 10 < i"
proof -
  assume a: "0 < c_div i 10"
  then have "0 < i" by (auto simp: c_div_def sgn_if split: if_splits)
  moreover from this have "c_div i 10 = i div 10" by (simp add: c_div_nonneg)
  ultimately show ?thesis by simp
qed

text \<open>The loop \<open>do { *p-- = '0' + i % 10; i /= 10; } while (i > 0)\<close>.\<close>

function do_digits :: "int \<Rightarrow> int \<times> bytes \<Rightarrow> (int \<times> bytes) option" where
  "do_digits i st =
     do { st' \<leftarrow> put_back (word_of_int (48 + c_mod i 10)) st;
          if 0 < c_div i 10 then do_digits (c_div i 10) st' else Some st' }"
  by pat_completeness auto
termination
  by (relation "measure (nat \<circ> fst)") (auto dest: c_div_less)

declare do_digits.simps [simp del]

text \<open>The body the two functions share: the type, the offset of the end, the number, the buffer.\<close>

definition int_to_buffer :: "IntType \<Rightarrow> int \<Rightarrow> int \<Rightarrow> bytes \<Rightarrow> (int \<times> bytes) option" where
  "int_to_buffer ty off i buf =
     do {
       st \<leftarrow> put_back 0 (off, buf);
       if 0 \<le> i then do { (p, b) \<leftarrow> do_digits i st; Some (p + 1, b) }
       else if - 10 < i then
         do { i1 \<leftarrow> arith ty (- i);
              (p, b) \<leftarrow> put_back (word_of_int (48 + i1)) st;
              (_, b') \<leftarrow> put_back 45 (p, b);
              Some (p, b') }
       else
         do { i1 \<leftarrow> arith ty (i + 10);
              i2 \<leftarrow> arith ty (- i1);
              st1 \<leftarrow> put_back (word_of_int (48 + c_mod i2 10)) st;
              i3 \<leftarrow> arith ty (c_div i2 10 + 1);
              (p, b) \<leftarrow> do_digits i3 st1;
              (_, b') \<leftarrow> put_back 45 (p, b);
              Some (p, b') } }"

definition FastInt64ToBuffer :: "u64 \<Rightarrow> bytes \<Rightarrow> (int \<times> bytes) option" where
  "FastInt64ToBuffer i buf = int_to_buffer int64_t 21 (sint i) buf"

definition FastInt32ToBuffer :: "u32 \<Rightarrow> bytes \<Rightarrow> (int \<times> bytes) option" where
  "FastInt32ToBuffer i buf = int_to_buffer int32_t 11 (sint i) buf"

definition hexdigits :: bytes where
  "hexdigits = str ''0123456789abcdef''"

text \<open>\<open>FastHexToBuffer\<close>: the loop \<open>do { *p-- = hexdigits[i & 15]; i >>= 4; } while (i > 0)\<close>.\<close>

function hex_back :: "int \<Rightarrow> int \<times> bytes \<Rightarrow> (int \<times> bytes) option" where
  "hex_back i st =
     do { st' \<leftarrow> put_back (hexdigits ! nat (i AND 15)) st;
          if 0 < i div 16 then hex_back (i div 16) st' else Some st' }"
  by pat_completeness auto
termination
  by (relation "measure (nat \<circ> fst)") auto

declare hex_back.simps [simp del]

definition FastHexToBuffer :: "u32 \<Rightarrow> bytes \<Rightarrow> (int \<times> bytes) option" where
  "FastHexToBuffer i buf =
     (if \<not> 0 \<le> sint i then None
      else do { st \<leftarrow> put_back 0 (21, buf); (p, b) \<leftarrow> hex_back (sint i) st; Some (p + 1, b) })"

text \<open>\<open>InternalFastHexToBuffer\<close>: exactly \<open>num_byte\<close> digits, from the last to the first.\<close>

fun hex_fill :: "nat \<Rightarrow> u64 \<Rightarrow> bytes \<Rightarrow> bytes option" where
  "hex_fill 0 v buf = Some buf"
| "hex_fill (Suc i) v buf =
     (if i < length buf then hex_fill i (drop_bit 4 v) (buf[i := hexdigits ! unat (ucast v AND 0xf :: u32)])
      else None)"

definition InternalFastHexToBuffer :: "u64 \<Rightarrow> bytes \<Rightarrow> nat \<Rightarrow> bytes option" where
  "InternalFastHexToBuffer v buf num_byte =
     (if num_byte < length buf then hex_fill num_byte v (buf[num_byte := 0]) else None)"

definition FastHex64ToBuffer :: "u64 \<Rightarrow> bytes \<Rightarrow> bytes option" where
  "FastHex64ToBuffer v buf = InternalFastHexToBuffer v buf 16"

definition FastHex32ToBuffer :: "u32 \<Rightarrow> bytes \<Rightarrow> bytes option" where
  "FastHex32ToBuffer v buf = InternalFastHexToBuffer (ucast v) buf 8"

section \<open>Writing from the front\<close>

definition two_ASCII_digits :: "bytes list" where
  "two_ASCII_digits =
     [str ''00'', str ''01'', str ''02'', str ''03'', str ''04'', str ''05'', str ''06'', str ''07'', str ''08'', str ''09'',
      str ''10'', str ''11'', str ''12'', str ''13'', str ''14'', str ''15'', str ''16'', str ''17'', str ''18'', str ''19'',
      str ''20'', str ''21'', str ''22'', str ''23'', str ''24'', str ''25'', str ''26'', str ''27'', str ''28'', str ''29'',
      str ''30'', str ''31'', str ''32'', str ''33'', str ''34'', str ''35'', str ''36'', str ''37'', str ''38'', str ''39'',
      str ''40'', str ''41'', str ''42'', str ''43'', str ''44'', str ''45'', str ''46'', str ''47'', str ''48'', str ''49'',
      str ''50'', str ''51'', str ''52'', str ''53'', str ''54'', str ''55'', str ''56'', str ''57'', str ''58'', str ''59'',
      str ''60'', str ''61'', str ''62'', str ''63'', str ''64'', str ''65'', str ''66'', str ''67'', str ''68'', str ''69'',
      str ''70'', str ''71'', str ''72'', str ''73'', str ''74'', str ''75'', str ''76'', str ''77'', str ''78'', str ''79'',
      str ''80'', str ''81'', str ''82'', str ''83'', str ''84'', str ''85'', str ''86'', str ''87'', str ''88'', str ''89'',
      str ''90'', str ''91'', str ''92'', str ''93'', str ''94'', str ''95'', str ''96'', str ''97'', str ''98'', str ''99'']"

type_synonym out = "(nat \<times> bytes) option"

text \<open>\<open>*buffer++ = b\<close>, \<open>*buffer = 0\<close>, and a pair of digits looked up and written.\<close>

definition put1 :: "byte \<Rightarrow> nat \<times> bytes \<Rightarrow> out" where
  "put1 b st = (let (p, buf) = st in if p < length buf then Some (p + 1, buf[p := b]) else None)"

definition finish :: "nat \<times> bytes \<Rightarrow> out" where
  "finish st = (let (p, buf) = st in if p < length buf then Some (p, buf[p := 0]) else None)"

definition put2 :: "u32 \<Rightarrow> nat \<times> bytes \<Rightarrow> out" where
  "put2 digits st =
     (if digits < 100
      then do { st1 \<leftarrow> put1 (two_ASCII_digits ! unat digits ! 0) st; put1 (two_ASCII_digits ! unat digits ! 1) st1 }
      else None)"

text \<open>The labels of \<open>FastUInt32ToBufferLeft\<close>, each the code from the label to the end.\<close>

definition lt100 :: "u32 \<Rightarrow> nat \<times> bytes \<Rightarrow> out" where
  "lt100 u st = do { st1 \<leftarrow> put2 u st; finish st1 }"

definition sublt100 :: "u32 \<Rightarrow> u32 \<Rightarrow> nat \<times> bytes \<Rightarrow> out" where
  "sublt100 digits u st = lt100 (u - digits * 100) st"

definition lt10_000 :: "u32 \<Rightarrow> nat \<times> bytes \<Rightarrow> out" where
  "lt10_000 u st = do { st1 \<leftarrow> put2 (u div 100) st; sublt100 (u div 100) u st1 }"

definition sublt10_000 :: "u32 \<Rightarrow> u32 \<Rightarrow> nat \<times> bytes \<Rightarrow> out" where
  "sublt10_000 digits u st = lt10_000 (u - digits * 10000) st"

definition lt1_000_000 :: "u32 \<Rightarrow> nat \<times> bytes \<Rightarrow> out" where
  "lt1_000_000 u st = do { st1 \<leftarrow> put2 (u div 10000) st; sublt10_000 (u div 10000) u st1 }"

definition sublt1_000_000 :: "u32 \<Rightarrow> u32 \<Rightarrow> nat \<times> bytes \<Rightarrow> out" where
  "sublt1_000_000 digits u st = lt1_000_000 (u - digits * 1000000) st"

definition lt100_000_000 :: "u32 \<Rightarrow> nat \<times> bytes \<Rightarrow> out" where
  "lt100_000_000 u st = do { st1 \<leftarrow> put2 (u div 1000000) st; sublt1_000_000 (u div 1000000) u st1 }"

definition sublt100_000_000 :: "u32 \<Rightarrow> u32 \<Rightarrow> nat \<times> bytes \<Rightarrow> out" where
  "sublt100_000_000 digits u st = lt100_000_000 (u - digits * 100000000) st"

definition FastUInt32ToBufferLeft :: "u32 \<Rightarrow> nat \<times> bytes \<Rightarrow> out" where
  "FastUInt32ToBufferLeft u st =
     (if 1000000000 \<le> u then
        do { st1 \<leftarrow> put2 (u div 100000000) st; sublt100_000_000 (u div 100000000) u st1 }
      else if u < 100 then
        (if 10 \<le> u then lt100 u st else do { st1 \<leftarrow> put1 (48 + ucast u) st; finish st1 })
      else if u < 10000 then
        (if 1000 \<le> u then lt10_000 u st
         else do { st1 \<leftarrow> put1 (48 + ucast (u div 100)) st; sublt100 (u div 100) u st1 })
      else if u < 1000000 then
        (if 100000 \<le> u then lt1_000_000 u st
         else do { st1 \<leftarrow> put1 (48 + ucast (u div 10000)) st; sublt10_000 (u div 10000) u st1 })
      else if u < 100000000 then
        (if 10000000 \<le> u then lt100_000_000 u st
         else do { st1 \<leftarrow> put1 (48 + ucast (u div 1000000)) st; sublt1_000_000 (u div 1000000) u st1 })
      else do { st1 \<leftarrow> put1 (48 + ucast (u div 100000000)) st; sublt100_000_000 (u div 100000000) u st1 })"

definition FastInt32ToBufferLeft :: "u32 \<Rightarrow> nat \<times> bytes \<Rightarrow> out" where
  "FastInt32ToBufferLeft i st =
     (if sint i < 0 then do { st1 \<leftarrow> put1 45 st; FastUInt32ToBufferLeft (0 - i) st1 }
      else FastUInt32ToBufferLeft i st)"

text \<open>The last nine digits of a 64-bit number, after the recursive call has printed the others.\<close>

definition last_nine :: "u32 \<Rightarrow> nat \<times> bytes \<Rightarrow> out" where
  "last_nine u st =
     do {
       st \<leftarrow> put2 (u div 10000000) st;
       let u = u - u div 10000000 * 10000000;
       st \<leftarrow> put2 (u div 100000) st;
       let u = u - u div 100000 * 100000;
       st \<leftarrow> put2 (u div 1000) st;
       let u = u - u div 1000 * 1000;
       st \<leftarrow> put2 (u div 10) st;
       let u = u - u div 10 * 10;
       st \<leftarrow> put1 (48 + ucast u) st;
       finish st }"

function FastUInt64ToBufferLeft :: "u64 \<Rightarrow> nat \<times> bytes \<Rightarrow> out" where
  "FastUInt64ToBufferLeft u64 st =
     (if ucast (ucast u64 :: u32) = u64 then FastUInt32ToBufferLeft (ucast u64) st
      else do {
        st1 \<leftarrow> FastUInt64ToBufferLeft (u64 div 1000000000) st;
        last_nine (ucast (u64 - u64 div 1000000000 * 1000000000)) st1 })"
  by pat_completeness auto
termination
proof (relation "measure (unat \<circ> fst)", simp_all)
  fix w :: u64 assume "ucast (ucast w :: u32) \<noteq> w"
  then have "w \<noteq> 0" by auto
  then have "0 < unat w" by (simp add: unat_gt_0)
  then show "unat (w div 1000000000) < unat w" by (simp add: unat_div)
qed

declare FastUInt64ToBufferLeft.simps [simp del]

definition FastInt64ToBufferLeft :: "u64 \<Rightarrow> nat \<times> bytes \<Rightarrow> out" where
  "FastInt64ToBufferLeft i st =
     (if sint i < 0 then do { st1 \<leftarrow> put1 45 st; FastUInt64ToBufferLeft (0 - i) st1 }
      else FastUInt64ToBufferLeft i st)"

section \<open>Numbers as strings\<close>

definition kFastToBufferSize :: nat where "kFastToBufferSize = 32"

text \<open>A fresh array \<open>char buffer[kFastToBufferSize]\<close> holds whatever its memory held.\<close>

definition fresh_buffer :: "(nat \<Rightarrow> byte) \<Rightarrow> bytes" where
  "fresh_buffer junk = map junk [0..<kFastToBufferSize]"

text \<open>A string made of a pointer ends at the first zero byte, one made of two pointers between them.\<close>

definition string_at :: "int \<times> bytes \<Rightarrow> bytes option" where
  "string_at st =
     (let (p, buf) = st
      in if 0 \<le> p \<and> 0 \<in> set (drop (nat p) buf) then Some (c_str (drop (nat p) buf)) else None)"

definition string_upto :: "nat \<times> bytes \<Rightarrow> bytes" where
  "string_upto st = (let (p, buf) = st in take p buf)"

definition SimpleItoa_int :: "(nat \<Rightarrow> byte) \<Rightarrow> u32 \<Rightarrow> bytes option" where
  "SimpleItoa_int junk i = do { st \<leftarrow> FastInt32ToBuffer i (fresh_buffer junk); string_at st }"

definition SimpleItoa_uint :: "(nat \<Rightarrow> byte) \<Rightarrow> u32 \<Rightarrow> bytes option" where
  "SimpleItoa_uint junk i = do { st \<leftarrow> FastUInt32ToBufferLeft i (0, fresh_buffer junk); Some (string_upto st) }"

definition SimpleItoa_long :: "(nat \<Rightarrow> byte) \<Rightarrow> u64 \<Rightarrow> bytes option" where
  "SimpleItoa_long junk i = do { st \<leftarrow> FastInt64ToBuffer i (fresh_buffer junk); string_at st }"

definition SimpleItoa_ulong :: "(nat \<Rightarrow> byte) \<Rightarrow> u64 \<Rightarrow> bytes option" where
  "SimpleItoa_ulong junk i = do { st \<leftarrow> FastUInt64ToBufferLeft i (0, fresh_buffer junk); Some (string_upto st) }"

definition AlphaNum_i32 :: "(nat \<Rightarrow> byte) \<Rightarrow> u32 \<Rightarrow> bytes option" where
  "AlphaNum_i32 junk i = do { st \<leftarrow> FastInt32ToBufferLeft i (0, fresh_buffer junk); Some (string_upto st) }"

definition AlphaNum_u32 :: "(nat \<Rightarrow> byte) \<Rightarrow> u32 \<Rightarrow> bytes option" where
  "AlphaNum_u32 junk i = do { st \<leftarrow> FastUInt32ToBufferLeft i (0, fresh_buffer junk); Some (string_upto st) }"

definition AlphaNum_i64 :: "(nat \<Rightarrow> byte) \<Rightarrow> u64 \<Rightarrow> bytes option" where
  "AlphaNum_i64 junk i = do { st \<leftarrow> FastInt64ToBufferLeft i (0, fresh_buffer junk); Some (string_upto st) }"

definition AlphaNum_u64 :: "(nat \<Rightarrow> byte) \<Rightarrow> u64 \<Rightarrow> bytes option" where
  "AlphaNum_u64 junk i = do { st \<leftarrow> FastUInt64ToBufferLeft i (0, fresh_buffer junk); Some (string_upto st) }"

text \<open>
  \<open>AlphaNum(Hex)\<close>: at least as many digits as the padding asks for, the position \<open>writer\<close>
  moving to the front; the string runs to the end of the array.
\<close>

function hex_writer :: "u64 \<Rightarrow> u64 \<Rightarrow> nat \<times> bytes \<Rightarrow> out" where
  "hex_writer v msk st =
     (let (w, buf) = st
      in if w = 0 \<or> length buf < w then None
         else let st' = (w - 1, buf[w - 1 := hexdigits ! unat (v AND 0xF)])
              in if drop_bit 4 msk \<noteq> 0 then hex_writer (drop_bit 4 v) (drop_bit 4 msk) st' else Some st')"
  by pat_completeness auto
termination
proof (relation "measure (\<lambda>(v, msk, st). unat msk)", goal_cases)
  case (2 v msk st w buf st')
  then have "0 < unat (drop_bit 4 msk)" by (simp add: unat_gt_0)
  then show ?case by (simp add: drop_bit_eq_div unat_div)
qed simp

declare hex_writer.simps [simp del]

text \<open>The padding is the minimum number of digits, 1 to 16.\<close>

definition AlphaNum_hex :: "(nat \<Rightarrow> byte) \<Rightarrow> u64 \<Rightarrow> nat \<Rightarrow> bytes option" where
  "AlphaNum_hex junk v width =
     (let msk = push_bit ((width - 1) * 4) 1 OR v
      in do { (w, buf) \<leftarrow> hex_writer v msk (kFastToBufferSize, fresh_buffer junk); Some (drop w buf) })"

section \<open>Digits of a fixed number\<close>

fun fix_digits :: "nat \<Rightarrow> nat \<Rightarrow> nat \<Rightarrow> bytes" where
  "fix_digits base 0 n = []"
| "fix_digits base (Suc k) n = fix_digits base k (n div base) @ [hex_digit (word_of_nat (n mod base))]"

text \<open>The text of an integer, as \<open>%d\<close> prints it.\<close>

definition int_text :: "int \<Rightarrow> bytes" where
  "int_text i = (if i < 0 then 45 # dec_digits (nat (- i)) else dec_digits (nat i))"

lemma length_fix_digits [simp]: "length (fix_digits base k n) = k"
  by (induction k arbitrary: n) simp_all

lemma hex_digit_dec: "n < 10 \<Longrightarrow> hex_digit (word_of_nat n) = 48 + word_of_nat n"
proof -
  assume "n < 10"
  then have "(word_of_nat n :: byte) < 10" by (simp add: word_less_nat_alt unat_of_nat)
  then show ?thesis by (simp add: hex_digit_def)
qed

lemma dec_digits_step: "10 \<le> n \<Longrightarrow> dec_digits n = dec_digits (n div 10) @ [hex_digit (word_of_nat (n mod 10))]"
  by (subst dec_digits.simps) (simp add: hex_digit_dec)

lemma dec_digits_small: "n < 10 \<Longrightarrow> dec_digits n = [hex_digit (word_of_nat n)]"
  by (subst dec_digits.simps) (simp add: hex_digit_dec)

lemma fix_digits_split:
  "fix_digits base (a + b) n = fix_digits base a (n div base ^ b) @ fix_digits base b (n mod base ^ b)"
proof (induction b arbitrary: n)
  case (Suc b)
  have "n mod (base * base ^ b) div base = n div base mod base ^ b"
    by (cases "base = 0") (simp_all add: mod_mult2_eq)
  moreover have "n mod (base * base ^ b) mod base = n mod base" by (simp add: mod_mult_right_eq mod_mod_cancel)
  ultimately show ?case using Suc [of "n div base"] by (simp add: div_mult2_eq)
qed simp

lemma dec_digits_split:
  "10 ^ k \<le> n \<Longrightarrow> dec_digits n = dec_digits (n div 10 ^ k) @ fix_digits 10 k (n mod 10 ^ k)"
proof (induction k arbitrary: n)
  case (Suc k)
  then have "10 ^ k \<le> n div 10" "10 \<le> n" by (simp_all add: less_eq_div_iff_mult_less_eq) (use Suc.prems in \<open>simp add: le_trans [OF _ Suc.prems]\<close>)
  moreover have "n mod (10 * 10 ^ k) div 10 = n div 10 mod 10 ^ k" by (simp add: mod_mult2_eq)
  moreover have "n mod (10 * 10 ^ k) mod 10 = n mod 10" by (simp add: mod_mod_cancel)
  ultimately show ?case using Suc.IH [of "n div 10"] by (simp add: dec_digits_step [of n] div_mult2_eq)
qed simp

lemma dec_digits_fix: "10 ^ k \<le> n \<Longrightarrow> n < 10 ^ Suc k \<Longrightarrow> dec_digits n = fix_digits 10 (Suc k) n"
proof -
  assume n: "10 ^ k \<le> n" "n < 10 ^ Suc k"
  then have "n div 10 ^ k < 10" by (simp add: div_less_iff_less_mult mult.commute)
  with dec_digits_split [OF n(1)] fix_digits_split [of 10 "Suc 0" k n] show ?thesis
    by (simp add: dec_digits_small)
qed

lemma length_dec_digits: "n < 10 ^ Suc k \<Longrightarrow> length (dec_digits n) \<le> Suc k"
proof (induction k arbitrary: n)
  case 0
  then show ?case by (simp add: dec_digits_small)
next
  case (Suc k)
  show ?case
  proof (cases "n < 10")
    case False
    have "n div 10 < 10 ^ Suc k" using Suc.prems by (simp add: div_less_iff_less_mult mult.commute)
    with Suc.IH [of "n div 10"] False show ?thesis by (simp add: dec_digits_step)
  qed (simp add: dec_digits_small)
qed

section \<open>Placing a text in a buffer\<close>

definition place :: "nat \<Rightarrow> bytes \<Rightarrow> bytes \<Rightarrow> bytes" where
  "place p t buf = take p buf @ t @ drop (p + length t) buf"

lemma length_place [simp]: "p + length t \<le> length buf \<Longrightarrow> length (place p t buf) = length buf"
  by (simp add: place_def)

lemma place_one: "p < length buf \<Longrightarrow> buf[p := b] = place p [b] buf"
  by (simp add: place_def upd_conv_take_nth_drop)

text \<open>Two texts side by side, written in either order; the second may cover part of the first.\<close>

lemma place_after:
  assumes "p + length a + length b \<le> length buf" "length c \<le> length b"
  shows "place (p + length a) b (place p (a @ c) buf) = place p (a @ b) buf"
proof (cases "p < length buf")
  case False
  with assms have "length a = 0" "length b = 0" "length c = 0" by linarith+
  then show ?thesis by (simp add: place_def)
qed (use assms in \<open>auto simp: place_def min_def ac_simps\<close>)

lemma place_before:
  assumes "p + length a + length b \<le> length buf"
  shows "place p a (place (p + length a) b buf) = place p (a @ b) buf"
  using assms by (simp add: place_def min_def ac_simps)

section \<open>Printing from the end\<close>

lemma digit_byte: "m < 10 \<Longrightarrow> word_of_int (48 + int m) = hex_digit (word_of_nat m)"
  by (simp add: hex_digit_dec)

lemma put_back_place:
  "0 < k \<Longrightarrow> k \<le> length buf \<Longrightarrow>
     put_back b (int k - 1, buf) = Some (int (k - 1) - 1, place (k - 1) [b] buf)"
  by (simp add: put_back_def place_one nat_diff_distrib' of_nat_diff)

lemma do_digits_place:
  "length (dec_digits n) \<le> k \<Longrightarrow> k \<le> length buf \<Longrightarrow>
   do_digits (int n) (int k - 1, buf) =
     Some (int (k - length (dec_digits n)) - 1, place (k - length (dec_digits n)) (dec_digits n) buf)"
proof (induction n arbitrary: k buf rule: less_induct)
  case (less n)
  let ?d = "hex_digit (word_of_nat (n mod 10))"
  have "dec_digits n \<noteq> []" by simp
  then have k: "0 < k" using less.prems(1) by (metis length_greater_0_conv less_le_trans)
  have m: "c_mod (int n) 10 = int (n mod 10)" "c_div (int n) 10 = int (n div 10)"
    by (simp_all add: c_mod_nonneg c_div_nonneg zmod_int zdiv_int)
  have step: "put_back (word_of_int (48 + c_mod (int n) 10)) (int k - 1, buf) =
      Some (int (k - 1) - 1, place (k - 1) [?d] buf)"
    unfolding m(1) using k less.prems(2) by (subst digit_byte) (simp_all add: put_back_place)
  show ?case
  proof (cases "n < 10")
    case True
    then show ?thesis using step m(2) by (subst do_digits.simps) (simp add: dec_digits_small)
  next
    case False
    let ?D = "dec_digits (n div 10)"
    have D: "dec_digits n = ?D @ [?d]" using False by (simp add: dec_digits_step)
    have len: "length ?D \<le> k - 1" using less.prems(1) D by simp
    have "do_digits (int (n div 10)) (int (k - 1) - 1, place (k - 1) [?d] buf) =
        Some (int (k - 1 - length ?D) - 1, place (k - 1 - length ?D) ?D (place (k - 1) [?d] buf))"
      using less.IH [of "n div 10" "k - 1"] len less.prems(2) k False by simp
    moreover have "place (k - 1 - length ?D) ?D (place (k - 1) [?d] buf) =
        place (k - length (dec_digits n)) (dec_digits n) buf"
      using place_before [of "k - 1 - length ?D" ?D "[?d]" buf] len k less.prems(2) D by simp
    moreover have "0 < n div 10" using False by simp
    ultimately show ?thesis using step m(2) D by (subst do_digits.simps) simp
  qed
qed

lemma length_int_text: "limit_min ty \<le> i \<Longrightarrow> i \<le> limit_max ty \<Longrightarrow> is_signed ty \<Longrightarrow>
    length (int_text i) \<le> (case ty of int32_t \<Rightarrow> 11 | _ \<Rightarrow> 20)"
proof (cases ty)
  case int32_t
  assume "limit_min ty \<le> i" "i \<le> limit_max ty"
  with int32_t have "length (dec_digits (nat \<bar>i\<bar>)) \<le> Suc 9" by (intro length_dec_digits) simp
  with int32_t show ?thesis by (auto simp: int_text_def abs_if split: if_splits)
next
  case int64_t
  assume "limit_min ty \<le> i" "i \<le> limit_max ty"
  with int64_t have "length (dec_digits (nat \<bar>i\<bar>)) \<le> Suc 18" by (intro length_dec_digits) simp
  with int64_t show ?thesis by (auto simp: int_text_def abs_if split: if_splits)
qed simp_all

text \<open>The number goes in front of the terminator, in a part of the buffer of its own length.\<close>

lemma int_to_buffer_place:
  assumes ty: "is_signed ty" and i: "limit_min ty \<le> i" "i \<le> limit_max ty"
    and k: "length (int_text i) \<le> k" "k < length buf"
  shows "int_to_buffer ty (int k) i buf =
    Some (int (k - length (int_text i)), place (k - length (int_text i)) (int_text i @ [0]) buf)"
proof -
  let ?B = "place k [0] buf"
  have B: "put_back 0 (int k, buf) = Some (int k - 1, ?B)" "length ?B = length buf"
    using put_back_place [of "Suc k" buf 0] k by simp_all
  have fin: "place (k - length t) t ?B = place (k - length t) (t @ [0]) buf" if "length t \<le> k" for t
    using place_before [of "k - length t" t "[0]" buf] that k by simp
  consider (pos) "0 \<le> i" | (small) "- 10 < i" "i < 0" | (neg) "i \<le> - 10" by linarith
  then show ?thesis
  proof cases
    case pos
    then have t: "int_text i = dec_digits (nat i)" by (simp add: int_text_def)
    with do_digits_place [of "nat i" k ?B] k B pos show ?thesis
      by (simp add: int_to_buffer_def fin)
  next
    case small
    then have t: "int_text i = [45, hex_digit (word_of_nat (nat (- i)))]"
      by (simp add: int_text_def dec_digits_small)
    have a: "arith ty (- i) = Some (- i)" using small limits_pos [of ty] by (simp add: arith_def)
    have "put_back (word_of_int (48 + - i)) (int k - 1, ?B) =
        Some (int (k - 1) - 1, place (k - 1) [hex_digit (word_of_nat (nat (- i)))] ?B)"
      using digit_byte [of "nat (- i)"] small put_back_place [of k ?B] k t B by simp
    moreover have "put_back 45 (int (k - 1) - 1, place (k - 1) [d] ?B) =
        Some (int (k - 2) - 1, place (k - 2) [45, d] ?B)" for d
    proof -
      obtain m where "k = Suc (Suc m)" using k(1) t by (intro that [of "k - 2"]) simp
      then show ?thesis using put_back_place [of "Suc m" "place (Suc m) [d] ?B" 45] place_before [of m "[45]" "[d]" ?B] k B
        by simp
    qed
    ultimately show ?thesis using small k t B a fin [of "int_text i"]
      by (simp add: int_to_buffer_def of_nat_diff numeral_2_eq_2)
  next
    case neg
    define j where "j = nat (- i)"
    have j: "i = - int j" "10 \<le> j" using neg by (simp_all add: j_def)
    let ?D = "dec_digits (j div 10)" let ?d = "hex_digit (word_of_nat (j mod 10))"
    have t: "int_text i = 45 # ?D @ [?d]" using neg j by (simp add: int_text_def dec_digits_step)
    have "(int j - 10) mod 10 = int (j mod 10)" "(int j - 10) div 10 + 1 = int (j div 10)"
      using j(2) by (simp_all add: zmod_int zdiv_int)
    then have m: "c_mod (int j - 10) 10 = int (j mod 10)" "c_div (int j - 10) 10 + 1 = int (j div 10)"
      using j(2) by (simp_all add: c_mod_nonneg c_div_nonneg)
    have "int (j div 10) \<le> limit_max ty" using i(1) limits_signed [OF ty] j by (simp add: zdiv_int)
    then have a: "arith ty (i + 10) = Some (i + 10)" "arith ty (- (i + 10)) = Some (int j - 10)"
        "arith ty (int (j div 10)) = Some (int (j div 10))"
      using neg i limits_signed [OF ty] limits_pos [of ty] j by (simp_all add: arith_def)
    have s1: "put_back (word_of_int (48 + int (j mod 10))) (int k - 1, ?B) =
        Some (int (k - 1) - 1, place (k - 1) [?d] ?B)"
      using digit_byte [of "j mod 10"] put_back_place [of k ?B] k t B by simp
    have s2: "do_digits (int (j div 10)) (int (k - 1) - 1, place (k - 1) [?d] ?B) =
        Some (int (k - 1 - length ?D) - 1, place (k - 1 - length ?D) (?D @ [?d]) ?B)"
      using do_digits_place [of "j div 10" "k - 1" "place (k - 1) [?d] ?B"]
        place_before [of "k - 1 - length ?D" ?D "[?d]" ?B] k t B by simp
    have s3: "put_back 45 (int (k - 1 - length ?D) - 1, place (k - 1 - length ?D) (?D @ [?d]) ?B) =
        Some (int (k - length (int_text i)) - 1, place (k - length (int_text i)) (int_text i) ?B)"
      using put_back_place [of "k - 1 - length ?D" "place (k - 1 - length ?D) (?D @ [?d]) ?B" 45]
        place_before [of "k - length (int_text i)" "[45]" "?D @ [?d]" ?B] k t B
        Suc_diff_Suc [of "Suc (length ?D)" k] by simp
    show ?thesis using neg j k t B a m s1 s2 s3 fin [of "int_text i"]
      by (simp add: int_to_buffer_def of_nat_diff)
  qed
qed

section \<open>Printing from the front\<close>

text \<open>
  A piece of code that writes the text \<open>t\<close> where the buffer stands, ends it with a zero byte
  and returns the position of that byte, given room for both.
\<close>

definition emits :: "(nat \<times> bytes \<Rightarrow> out) \<Rightarrow> bytes \<Rightarrow> bool" where
  "emits f t \<longleftrightarrow> (\<forall>p buf. p + length t < length buf \<longrightarrow>
     f (p, buf) = Some (p + length t, place p (t @ [0]) buf))"

lemma emits_finish: "emits finish []"
  by (simp add: emits_def finish_def place_one)

lemma emits_put1: "emits f t \<Longrightarrow> emits (\<lambda>st. do { st1 \<leftarrow> put1 b st; f st1 }) (b # t)"
proof (unfold emits_def, intro allI impI)
  fix p and buf :: bytes
  assume f: "\<forall>p buf. p + length t < length buf \<longrightarrow> f (p, buf) = Some (p + length t, place p (t @ [0]) buf)"
    and p: "p + length (b # t) < length buf"
  have "f (p + 1, place p [b] buf) = Some (p + 1 + length t, place (p + 1) (t @ [0]) (place p [b] buf))"
    using f p by simp
  moreover have "place (p + 1) (t @ [0]) (place p [b] buf) = place p ((b # t) @ [0]) buf"
    using place_after [of p "[b]" "t @ [0]" buf "[]"] p by simp
  ultimately show "do { st1 \<leftarrow> put1 b (p, buf); f st1 } = Some (p + length (b # t), place p ((b # t) @ [0]) buf)"
    using p by (simp add: put1_def place_one)
qed

lemma two_ASCII_digits_map: "two_ASCII_digits = map (fix_digits 10 2) [0..<100]"
  by code_simp

lemma two_digits: "d < 100 \<Longrightarrow> two_ASCII_digits ! d = fix_digits 10 2 d"
  unfolding two_ASCII_digits_map by simp

lemma emits_put2:
  assumes "unat d < 100" "emits f t"
  shows "emits (\<lambda>st. do { st1 \<leftarrow> put2 d st; f st1 }) (fix_digits 10 2 (unat d) @ t)"
proof -
  have d: "d < 100" using assms(1) by (simp add: word_less_nat_alt)
  obtain a b where ab: "fix_digits 10 2 (unat d) = [a, b]" by (simp add: numeral_2_eq_2)
  have "(\<lambda>st. do { st1 \<leftarrow> put2 d st; f st1 }) =
      (\<lambda>st. do { st1 \<leftarrow> put1 a st; do { st2 \<leftarrow> put1 b st1; f st2 } })"
    using d two_digits [OF assms(1)] ab by (simp add: put2_def)
  then show ?thesis using emits_put1 [OF emits_put1 [OF assms(2)], of a b] ab by simp
qed

lemma word_rest: "u - u div c * c = u mod c" for u c :: u32
  by (rule minus_div_mult_eq_mod)

lemma emits_lt100: "unat u < 100 \<Longrightarrow> emits (lt100 u) (fix_digits 10 2 (unat u))"
  using emits_put2 [OF _ emits_finish] by (simp add: lt100_def [abs_def])

text \<open>
  A pair of digits in front of a label: the code from the label on prints the remainder with
  a fixed number of digits.
\<close>

lemma emits_pair:
  fixes u w :: u32
  assumes f: "\<And>v. unat v < c \<Longrightarrow> emits (f v) (fix_digits 10 k (unat v))"
    and g: "\<And>st. g st = do { st1 \<leftarrow> put2 (u div w) st; f (u - u div w * w) st1 }"
    and c: "c = 10 ^ k" "unat w = c" and u: "unat u < 100 * c" and n: "n = 2 + k"
  shows "emits g (fix_digits 10 n (unat u))"
proof -
  have "emits (f (u mod w)) (fix_digits 10 k (unat (u mod w)))" using c by (intro f) (simp add: unat_mod)
  moreover have "unat (u div w) < 100" using u c by (simp add: unat_div div_less_iff_less_mult)
  ultimately have "emits (\<lambda>st. do { st1 \<leftarrow> put2 (u div w) st; f (u mod w) st1 })
      (fix_digits 10 2 (unat (u div w)) @ fix_digits 10 k (unat (u mod w)))"
    by (intro emits_put2)
  moreover have "g = (\<lambda>st. do { st1 \<leftarrow> put2 (u div w) st; f (u mod w) st1 })"
    using g unfolding word_rest by (intro ext)
  ultimately show ?thesis unfolding n fix_digits_split [of 10 2 k "unat u"] by (simp only: unat_div unat_mod c)
qed

lemma emits_lt10_000: "unat u < 10000 \<Longrightarrow> emits (lt10_000 u) (fix_digits 10 4 (unat u))"
  by (rule emits_pair [where f = lt100 and w = 100 and k = 2, OF emits_lt100]) (linarith | simp add: lt10_000_def sublt100_def)+

lemma emits_lt1_000_000: "unat u < 1000000 \<Longrightarrow> emits (lt1_000_000 u) (fix_digits 10 6 (unat u))"
  by (rule emits_pair [where f = lt10_000 and w = 10000 and k = 4, OF emits_lt10_000]) (linarith | simp add: lt1_000_000_def sublt10_000_def)+

lemma emits_lt100_000_000: "unat u < 100000000 \<Longrightarrow> emits (lt100_000_000 u) (fix_digits 10 8 (unat u))"
  by (rule emits_pair [where f = lt1_000_000 and w = 1000000 and k = 6, OF emits_lt1_000_000]) (linarith | simp add: lt100_000_000_def sublt1_000_000_def)+

text \<open>A single digit in front of a label.\<close>

lemma digit_word: "unat u < 10 \<Longrightarrow> (48 + ucast u :: byte) = hex_digit (word_of_nat (unat u))" for u :: u32
  by (subst hex_digit_dec) simp_all

lemma emits_single:
  fixes u w :: u32
  assumes f: "\<And>v. unat v < c \<Longrightarrow> emits (f v) (fix_digits 10 k (unat v))"
    and g: "\<And>st. g st = do { st1 \<leftarrow> put1 (48 + ucast (u div w)) st; f (u - u div w * w) st1 }"
    and c: "c = 10 ^ k" "unat w = c" and u: "unat u < 10 * c" and n: "n = 1 + k"
  shows "emits g (fix_digits 10 n (unat u))"
proof -
  have "emits (f (u mod w)) (fix_digits 10 k (unat (u mod w)))" using c by (intro f) (simp add: unat_mod)
  then have "emits (\<lambda>st. do { st1 \<leftarrow> put1 (48 + ucast (u div w)) st; f (u mod w) st1 })
      ((48 + ucast (u div w)) # fix_digits 10 k (unat (u mod w)))"
    by (intro emits_put1)
  moreover have d: "unat (u div w) < 10" using u c by (simp add: unat_div div_less_iff_less_mult)
  moreover have "fix_digits 10 1 (unat (u div w)) = [48 + ucast (u div w)]"
    unfolding digit_word [OF d] using d by simp
  moreover have "g = (\<lambda>st. do { st1 \<leftarrow> put1 (48 + ucast (u div w)) st; f (u mod w) st1 })"
    using g unfolding word_rest by (intro ext)
  ultimately show ?thesis unfolding n fix_digits_split [of 10 1 k "unat u"]
    by (simp only: unat_div unat_mod c append_Cons append_Nil)
qed

lemma emits_FastUInt32ToBufferLeft: "emits (FastUInt32ToBufferLeft u) (dec_digits (unat u))"
proof -
  let ?n = "unat u"
  have w: "(1000000000 \<le> u) = (1000000000 \<le> ?n)" "(u < 100) = (?n < 100)" "(10 \<le> u) = (10 \<le> ?n)"
      "(u < 10000) = (?n < 10000)" "(1000 \<le> u) = (1000 \<le> ?n)" "(u < 1000000) = (?n < 1000000)"
      "(100000 \<le> u) = (100000 \<le> ?n)" "(u < 100000000) = (?n < 100000000)" "(10000000 \<le> u) = (10000000 \<le> ?n)"
    by (simp_all add: word_le_nat_alt word_less_nat_alt)
  note F = FastUInt32ToBufferLeft_def [of u, unfolded w sublt100_def sublt10_000_def sublt1_000_000_def sublt100_000_000_def]
  have E: "emits (FastUInt32ToBufferLeft u) (dec_digits ?n)"
    if "emits g (dec_digits ?n)" "\<And>st. FastUInt32ToBufferLeft u st = g st" for g
    using that by (simp add: emits_def)
  consider "?n < 10" | "10 \<le> ?n" "?n < 100" | "100 \<le> ?n" "?n < 1000" | "1000 \<le> ?n" "?n < 10000"
    | "10000 \<le> ?n" "?n < 100000" | "100000 \<le> ?n" "?n < 1000000" | "1000000 \<le> ?n" "?n < 10000000"
    | "10000000 \<le> ?n" "?n < 100000000" | "100000000 \<le> ?n" "?n < 1000000000" | "1000000000 \<le> ?n"
    by linarith
  then show ?thesis
  proof cases
    case 1
    have "emits (\<lambda>st. do { st1 \<leftarrow> put1 (48 + ucast u) st; finish st1 }) (dec_digits ?n)"
      using emits_put1 [OF emits_finish] 1 by (simp only: digit_word dec_digits_small)
    then show ?thesis by (rule E) (use 1 in \<open>simp add: F\<close>)
  next
    case 2
    then have "emits (lt100 u) (dec_digits ?n)"
      using emits_lt100 [of u] dec_digits_fix [of 1 ?n] by (simp add: numeral_2_eq_2)
    then show ?thesis by (rule E) (use 2 in \<open>simp add: F\<close>)
  next
    case 3
    then have "emits (FastUInt32ToBufferLeft u) (fix_digits 10 3 ?n)"
      by (intro emits_single [where f = lt100 and w = 100 and k = 2, OF emits_lt100]) (linarith | simp add: F)+
    with 3 dec_digits_fix [of 2 ?n] show ?thesis by simp
  next
    case 4
    then have "emits (lt10_000 u) (dec_digits ?n)"
      using emits_lt10_000 [of u] dec_digits_fix [of 3 ?n] by simp
    then show ?thesis by (rule E) (use 4 in \<open>simp add: F\<close>)
  next
    case 5
    then have "emits (FastUInt32ToBufferLeft u) (fix_digits 10 5 ?n)"
      by (intro emits_single [where f = lt10_000 and w = 10000 and k = 4, OF emits_lt10_000]) (linarith | simp add: F)+
    with 5 dec_digits_fix [of 4 ?n] show ?thesis by simp
  next
    case 6
    then have "emits (lt1_000_000 u) (dec_digits ?n)"
      using emits_lt1_000_000 [of u] dec_digits_fix [of 5 ?n] by simp
    then show ?thesis by (rule E) (use 6 in \<open>simp add: F\<close>)
  next
    case 7
    then have "emits (FastUInt32ToBufferLeft u) (fix_digits 10 7 ?n)"
      by (intro emits_single [where f = lt1_000_000 and w = 1000000 and k = 6, OF emits_lt1_000_000]) (linarith | simp add: F)+
    with 7 dec_digits_fix [of 6 ?n] show ?thesis by simp
  next
    case 8
    then have "emits (lt100_000_000 u) (dec_digits ?n)"
      using emits_lt100_000_000 [of u] dec_digits_fix [of 7 ?n] by simp
    then show ?thesis by (rule E) (use 8 in \<open>simp add: F\<close>)
  next
    case 9
    then have "emits (FastUInt32ToBufferLeft u) (fix_digits 10 9 ?n)"
      by (intro emits_single [where f = lt100_000_000 and w = 100000000 and k = 8, OF emits_lt100_000_000]) (linarith | simp add: F)+
    with 9 dec_digits_fix [of 8 ?n] show ?thesis by simp
  next
    case 10
    have b: "?n < 4294967296" using unsigned_less [of u] by simp
    with 10 have "emits (FastUInt32ToBufferLeft u) (fix_digits 10 10 ?n)"
      by (intro emits_pair [where f = lt100_000_000 and w = 100000000 and k = 8, OF emits_lt100_000_000]) (linarith | simp add: F)+
    with 10 b dec_digits_fix [of 9 ?n] show ?thesis by simp
  qed
qed

text \<open>One piece of code after another; the second starts on the zero byte of the first.\<close>

lemma emits_then:
  assumes "emits f a" "emits g b"
  shows "emits (\<lambda>st. do { st1 \<leftarrow> f st; g st1 }) (a @ b)"
proof (unfold emits_def, intro allI impI)
  fix p and buf :: bytes assume p: "p + length (a @ b) < length buf"
  have "f (p, buf) = Some (p + length a, place p (a @ [0]) buf)" using assms(1) p by (simp add: emits_def)
  moreover have "g (p + length a, place p (a @ [0]) buf) =
      Some (p + length a + length b, place (p + length a) (b @ [0]) (place p (a @ [0]) buf))"
    using assms(2) p by (simp add: emits_def)
  moreover have "place (p + length a) (b @ [0]) (place p (a @ [0]) buf) = place p ((a @ b) @ [0]) buf"
    using place_after [of p a "b @ [0]" buf "[0]"] p by simp
  ultimately show "do { st1 \<leftarrow> f (p, buf); g st1 } = Some (p + length (a @ b), place p ((a @ b) @ [0]) buf)"
    by simp
qed

lemma emits_last_digit: "unat v < 10 \<Longrightarrow> emits (\<lambda>st. do { st1 \<leftarrow> put1 (48 + ucast v) st; finish st1 }) (fix_digits 10 1 (unat v))"
  for v :: u32
  using emits_put1 [OF emits_finish, of "48 + ucast v"] by (simp add: digit_word)

lemma emits_last_nine: "unat u < 1000000000 \<Longrightarrow> emits (last_nine u) (fix_digits 10 9 (unat u))"
proof -
  let ?f1 = "\<lambda>v :: u32. \<lambda>st. do { st \<leftarrow> put1 (48 + ucast v) st; finish st }"
  let ?f3 = "\<lambda>v st. do { st \<leftarrow> put2 (v div 10) st; ?f1 (v - v div 10 * 10) st }"
  let ?f5 = "\<lambda>v st. do { st \<leftarrow> put2 (v div 1000) st; ?f3 (v - v div 1000 * 1000) st }"
  let ?f7 = "\<lambda>v st. do { st \<leftarrow> put2 (v div 100000) st; ?f5 (v - v div 100000 * 100000) st }"
  have f3: "emits (?f3 v) (fix_digits 10 3 (unat v))" if "unat v < 1000" for v
    by (rule emits_pair [where f = ?f1 and w = 10 and k = 1, OF emits_last_digit]) (use that in \<open>linarith | simp\<close>)+
  have f5: "emits (?f5 v) (fix_digits 10 5 (unat v))" if "unat v < 100000" for v
    by (rule emits_pair [where f = ?f3 and w = 1000 and k = 3, OF f3]) (use that in \<open>linarith | simp\<close>)+
  have f7: "emits (?f7 v) (fix_digits 10 7 (unat v))" if "unat v < 10000000" for v
    by (rule emits_pair [where f = ?f5 and w = 100000 and k = 5, OF f5]) (use that in \<open>linarith | simp\<close>)+
  show "unat u < 1000000000 \<Longrightarrow> ?thesis"
    by (rule emits_pair [where f = ?f7 and w = 10000000 and k = 7, OF f7])
      (linarith | simp only: last_nine_def Let_def | simp)+
qed

lemma narrow_u64: "ucast (ucast u :: u32) = u \<longleftrightarrow> unat u < 4294967296" for u :: u64
proof -
  have "unat (ucast (ucast u :: u32) :: u64) = unat u mod 4294967296"
    by (simp add: unsigned_ucast_eq take_bit_eq_mod unat_mod)
  then show ?thesis by (metis mod_less mod_less_divisor word_unat_eq_iff zero_less_numeral)
qed

lemma emits_FastUInt64ToBufferLeft: "emits (FastUInt64ToBufferLeft u) (dec_digits (unat u))"
proof (induction u "(0 :: nat, [] :: bytes)" rule: FastUInt64ToBufferLeft.induct)
  case (1 u)
  show ?case
  proof (cases "unat u < 4294967296")
    case True
    then have "unat (ucast u :: u32) = unat u" by (simp add: unsigned_ucast_eq take_bit_eq_mod)
    moreover have "FastUInt64ToBufferLeft u st = FastUInt32ToBufferLeft (ucast u) st" for st
      using True by (subst FastUInt64ToBufferLeft.simps) (simp add: narrow_u64)
    ultimately show ?thesis using emits_FastUInt32ToBufferLeft [of "ucast u"] by (simp add: emits_def)
  next
    case False
    let ?top = "u div 1000000000" let ?r = "u - ?top * 1000000000"
    have r: "unat ?r = unat u mod 1000000000"
      by (simp add: minus_div_mult_eq_mod unat_mod)
    moreover from this have "unat (ucast ?r :: u32) = unat u mod 1000000000"
      by (simp add: unsigned_ucast_eq take_bit_eq_mod)
    ultimately have "emits (last_nine (ucast ?r)) (fix_digits 10 9 (unat u mod 1000000000))"
      using emits_last_nine [of "ucast ?r"] by simp
    moreover have "emits (FastUInt64ToBufferLeft ?top) (dec_digits (unat u div 1000000000))"
      using 1 False by (simp add: narrow_u64 unat_div)
    ultimately have "emits (\<lambda>st. do { st1 \<leftarrow> FastUInt64ToBufferLeft ?top st; last_nine (ucast ?r) st1 })
        (dec_digits (unat u div 1000000000) @ fix_digits 10 9 (unat u mod 1000000000))"
      by (intro emits_then)
    moreover have "FastUInt64ToBufferLeft u = (\<lambda>st. do { st1 \<leftarrow> FastUInt64ToBufferLeft ?top st; last_nine (ucast ?r) st1 })"
      by (rule ext, subst FastUInt64ToBufferLeft.simps) (use False in \<open>simp only: narrow_u64 if_False\<close>)
    ultimately show ?thesis using dec_digits_split [of 9 "unat u"] False by simp
  qed
qed

text \<open>A negative number is printed as the unsigned negation of its bits, the smallest one included.\<close>

lemma unat_uminus_sint: "sint i < 0 \<Longrightarrow> unat (- i) = nat (- sint i)" for i :: "'a::len word"
proof -
  assume n: "sint i < 0"
  have w: "- i = word_of_int (- sint i)" by simp
  have "- sint i \<le> 2 ^ (LENGTH('a) - 1)" using sint_ge [of i] by simp
  also have "\<dots> < 2 ^ LENGTH('a)" by simp
  finally have "uint (- i) = - sint i" using n unfolding w by (simp add: unsigned_of_int take_bit_int_eq_self del: of_int_minus)
  then show ?thesis by (metis nat_uint_eq)
qed

lemma unat_sint: "0 \<le> sint i \<Longrightarrow> unat i = nat (sint i)" for i :: "'a::len word"
proof -
  assume n: "0 \<le> sint i"
  have w: "i = word_of_int (sint i)" by simp
  have "sint i < 2 ^ (LENGTH('a) - 1)" using sint_lt [of i] by simp
  also have "\<dots> < 2 ^ LENGTH('a)" by simp
  finally have "uint i = sint i" using n by (subst w, subst unsigned_of_int) (simp add: take_bit_int_eq_self)
  then show ?thesis by (metis nat_uint_eq)
qed

lemma emits_FastInt32ToBufferLeft: "emits (FastInt32ToBufferLeft i) (int_text (sint i))"
proof (cases "sint i < 0")
  case True
  then show ?thesis using emits_put1 [OF emits_FastUInt32ToBufferLeft [of "- i"], of 45]
    by (simp add: FastInt32ToBufferLeft_def [abs_def] int_text_def unat_uminus_sint)
next
  case False
  then show ?thesis using emits_FastUInt32ToBufferLeft [of i]
    by (simp add: FastInt32ToBufferLeft_def [abs_def] int_text_def unat_sint)
qed

lemma emits_FastInt64ToBufferLeft: "emits (FastInt64ToBufferLeft i) (int_text (sint i))"
proof (cases "sint i < 0")
  case True
  then show ?thesis using emits_put1 [OF emits_FastUInt64ToBufferLeft [of "- i"], of 45]
    by (simp add: FastInt64ToBufferLeft_def [abs_def] int_text_def unat_uminus_sint)
next
  case False
  then show ?thesis using emits_FastUInt64ToBufferLeft [of i]
    by (simp add: FastInt64ToBufferLeft_def [abs_def] int_text_def unat_sint)
qed

section \<open>Numbers to strings and back\<close>

lemma sint32_limits: "limit_min int32_t \<le> sint i \<and> sint i \<le> limit_max int32_t" for i :: u32
  using sint_ge [of i] sint_lt [of i] by simp

lemma sint64_limits: "limit_min int64_t \<le> sint i \<and> sint i \<le> limit_max int64_t" for i :: u64
  using sint_ge [of i] sint_lt [of i] by simp

lemma length_fresh_buffer [simp]: "length (fresh_buffer junk) = 32"
  by (simp add: fresh_buffer_def kFastToBufferSize_def)

lemma digit_nonzero: "0 \<notin> set (dec_digits n)"
  using dec_digits_digits [of 0 n] by (auto simp: is_digit_def digit_of_def)

lemma int_text_nonzero: "0 \<notin> set (int_text i)"
  by (auto simp: int_text_def digit_nonzero)

lemma string_at_place:
  "0 \<notin> set t \<Longrightarrow> k + length t < length buf \<Longrightarrow> string_at (int k, place k (t @ [0]) buf) = Some t"
  by (simp add: string_at_def place_def c_str_def takeWhile_append)

lemma string_upto_place: "k + length t < length buf \<Longrightarrow> string_upto (k + length t, place k (t @ [0]) buf) = take k buf @ t"
  by (simp add: string_upto_def place_def)

lemma FastInt32ToBuffer_text:
  assumes "12 \<le> length buf"
  shows "FastInt32ToBuffer i buf =
    Some (int (11 - length (int_text (sint i))), place (11 - length (int_text (sint i))) (int_text (sint i) @ [0]) buf)"
    and "length (int_text (sint i)) \<le> 11"
proof -
  show l: "length (int_text (sint i)) \<le> 11" using length_int_text [of int32_t "sint i"] sint32_limits [of i] by simp
  show "FastInt32ToBuffer i buf =
      Some (int (11 - length (int_text (sint i))), place (11 - length (int_text (sint i))) (int_text (sint i) @ [0]) buf)"
    using int_to_buffer_place [of int32_t "sint i" 11 buf] sint32_limits [of i] l assms
    by (simp add: FastInt32ToBuffer_def)
qed

lemma FastInt64ToBuffer_text:
  assumes "22 \<le> length buf"
  shows "FastInt64ToBuffer i buf =
    Some (int (21 - length (int_text (sint i))), place (21 - length (int_text (sint i))) (int_text (sint i) @ [0]) buf)"
    and "length (int_text (sint i)) \<le> 20"
proof -
  show l: "length (int_text (sint i)) \<le> 20" using length_int_text [of int64_t "sint i"] sint64_limits [of i] by simp
  show "FastInt64ToBuffer i buf =
      Some (int (21 - length (int_text (sint i))), place (21 - length (int_text (sint i))) (int_text (sint i) @ [0]) buf)"
    using int_to_buffer_place [of int64_t "sint i" 21 buf] sint64_limits [of i] l assms
    by (simp add: FastInt64ToBuffer_def)
qed

lemma emits_string:
  "emits f t \<Longrightarrow> length t < 32 \<Longrightarrow>
     do { st \<leftarrow> f (0, fresh_buffer junk); Some (string_upto st) } = Some t"
  using string_upto_place [of 0 t "fresh_buffer junk"] by (simp add: emits_def)

lemma length_unat32: "length (dec_digits (unat u)) < 32" for u :: u32
proof -
  have "unat u < 4294967296" using unsigned_less [of u] by simp
  with length_dec_digits [of "unat u" 9] show ?thesis by simp
qed

lemma length_unat64: "length (dec_digits (unat u)) < 32" for u :: u64
proof -
  have "unat u < 18446744073709551616" using unsigned_less [of u] by simp
  with length_dec_digits [of "unat u" 19] show ?thesis by simp
qed

lemmas strings_of_numbers = emits_string [OF emits_FastUInt32ToBufferLeft length_unat32]
  emits_string [OF emits_FastUInt64ToBufferLeft length_unat64]

lemma number_strings:
  "SimpleItoa_int junk i = Some (int_text (sint i))" "SimpleItoa_uint junk i = Some (dec_digits (unat i))"
  "SimpleItoa_long junk l = Some (int_text (sint l))" "SimpleItoa_ulong junk l = Some (dec_digits (unat l))"
proof -
  show "SimpleItoa_int junk i = Some (int_text (sint i))"
    using FastInt32ToBuffer_text [of "fresh_buffer junk" i]
      string_at_place [of "int_text (sint i)" "11 - length (int_text (sint i))" "fresh_buffer junk"]
    by (simp add: SimpleItoa_int_def int_text_nonzero)
  show "SimpleItoa_long junk l = Some (int_text (sint l))"
    using FastInt64ToBuffer_text [of "fresh_buffer junk" l]
      string_at_place [of "int_text (sint l)" "21 - length (int_text (sint l))" "fresh_buffer junk"]
    by (simp add: SimpleItoa_long_def int_text_nonzero)
qed (simp_all add: SimpleItoa_uint_def SimpleItoa_ulong_def strings_of_numbers)

text \<open>
  Property C33: all the printers of one number agree: the functions that write from the end of the
  buffer, the label-driven one that writes pairs of digits from the front and the recursive 64-bit
  one all give the text of the number in base ten, for every number of their type and whatever
  the 32 bytes of the fresh buffer held; none of them writes outside the buffer or overflows,
  the smallest number included.
\<close>

theorem printers_agree:
  "SimpleItoa_int junk i = Some (int_text (sint i)) \<and> AlphaNum_i32 junk i = Some (int_text (sint i)) \<and>
   SimpleItoa_uint junk i = Some (dec_digits (unat i)) \<and> AlphaNum_u32 junk i = Some (dec_digits (unat i)) \<and>
   SimpleItoa_long junk l = Some (int_text (sint l)) \<and> AlphaNum_i64 junk l = Some (int_text (sint l)) \<and>
   SimpleItoa_ulong junk l = Some (dec_digits (unat l)) \<and> AlphaNum_u64 junk l = Some (dec_digits (unat l))"
proof -
  have "length (int_text (sint i)) < 32" "length (int_text (sint l)) < 32"
    using FastInt32ToBuffer_text(2) [of "fresh_buffer junk" i] FastInt64ToBuffer_text(2) [of "fresh_buffer junk" l] by simp_all
  then have "AlphaNum_i32 junk i = Some (int_text (sint i))" "AlphaNum_i64 junk l = Some (int_text (sint l))"
    using emits_string [OF emits_FastInt32ToBufferLeft] emits_string [OF emits_FastInt64ToBufferLeft]
    by (simp_all add: AlphaNum_i32_def AlphaNum_i64_def)
  then show ?thesis
    by (simp add: number_strings AlphaNum_u32_def AlphaNum_u64_def strings_of_numbers)
qed

section \<open>Hexadecimal numbers\<close>

fun hex_text :: "nat \<Rightarrow> bytes" where
  "hex_text n =
     (if n < 16 then [hex_digit (word_of_nat n)] else hex_text (n div 16) @ [hex_digit (word_of_nat (n mod 16))])"

declare hex_text.simps [simp del]

lemma hexdigits_map: "hexdigits = map (\<lambda>n. hex_digit (word_of_nat n)) [0..<16]"
  by code_simp

lemma hexdigits_at: "n < 16 \<Longrightarrow> hexdigits ! n = hex_digit (word_of_nat n)"
  unfolding hexdigits_map by simp

lemma low_nibble: "unat (v AND 0xF) = unat v mod 16" for v :: "'a::len word"
proof -
  have "v AND 0xF = take_bit 4 v" by (simp add: take_bit_eq_mask mask_eq_exp_minus_1)
  then show ?thesis by (simp only: unsigned_take_bit_eq) (simp add: take_bit_eq_mod)
qed

lemma hex_text_fix: "hex_text n = fix_digits 16 (length (hex_text n)) n"
proof (induction n rule: hex_text.induct)
  case (1 n)
  show ?case
  proof (cases "n < 16")
    case True
    then show ?thesis by (simp add: hex_text.simps [of n])
  next
    case False
    with 1 show ?thesis by (simp add: hex_text.simps [of n])
  qed
qed

lemma length_hex_text: "0 < length (hex_text n)" "16 \<le> n \<Longrightarrow> length (hex_text n) = Suc (length (hex_text (n div 16)))"
  by (simp_all add: hex_text.simps [of n])

text \<open>The number of digits, by the powers of the base.\<close>

lemma length_hex_text_le: "0 < k \<Longrightarrow> length (hex_text n) \<le> k \<longleftrightarrow> n < 16 ^ k"
proof (induction k arbitrary: n)
  case (Suc k)
  show ?case
  proof (cases "n < 16")
    case True
    moreover have "(16 :: nat) \<le> 16 ^ Suc k" by simp
    ultimately show ?thesis by (simp add: hex_text.simps [of n] del: power_Suc)
  next
    case False
    show ?thesis
    proof (cases k)
      case 0
      then show ?thesis using False length_hex_text(1) [of "n div 16"] by (simp add: length_hex_text(2))
    next
      case (Suc j)
      then show ?thesis using False Suc.IH [of "n div 16"]
        by (simp add: length_hex_text(2) div_less_iff_less_mult mult.commute)
    qed
  qed
qed simp

lemma hex_writer_place:
  "length (hex_text (unat m)) \<le> w \<Longrightarrow> w \<le> length buf \<Longrightarrow>
   hex_writer v m (w, buf) =
     (let L = length (hex_text (unat m)) in Some (w - L, place (w - L) (fix_digits 16 L (unat v)) buf))"
proof (induction "unat m" arbitrary: v m w buf rule: less_induct)
  case less
  let ?d = "hex_digit (word_of_nat (unat v mod 16))"
  have w: "0 < w" "w \<le> length buf" using less.prems length_hex_text(1) [of "unat m"] by linarith+
  have d: "buf[w - 1 := hexdigits ! unat (v AND 0xF)] = place (w - 1) [?d] buf"
    unfolding low_nibble using w by (simp add: hexdigits_at place_one)
  have m: "unat (drop_bit 4 m) = unat m div 16" "unat (drop_bit 4 v) = unat v div 16"
    by (simp_all add: drop_bit_eq_div unat_div)
  then have z: "drop_bit 4 m = 0 \<longleftrightarrow> unat m < 16" by (metis div_eq_0_iff unat_eq_zero zero_neq_numeral)
  show ?case
  proof (cases "unat m < 16")
    case True
    then have "hex_writer v m (w, buf) = Some (w - 1, place (w - 1) [?d] buf)"
      using w d z by (subst hex_writer.simps) (simp add: Let_def)
    with True show ?thesis by (simp add: hex_text.simps [of "unat m"])
  next
    case False
    let ?L = "length (hex_text (unat m div 16))"
    have L: "length (hex_text (unat m)) = Suc ?L" using False by (simp add: length_hex_text(2))
    have "hex_writer v m (w, buf) = hex_writer (drop_bit 4 v) (drop_bit 4 m) (w - 1, place (w - 1) [?d] buf)"
      using w d z False by (subst hex_writer.simps) (simp add: Let_def)
    also have "\<dots> = Some (w - 1 - ?L, place (w - 1 - ?L) (fix_digits 16 ?L (unat v div 16)) (place (w - 1) [?d] buf))"
      using less.hyps [of "drop_bit 4 m" "w - 1" "place (w - 1) [?d] buf" "drop_bit 4 v"] False w less.prems(1) L
      by (simp add: m Let_def)
    also have "place (w - 1 - ?L) (fix_digits 16 ?L (unat v div 16)) (place (w - 1) [?d] buf) =
        place (w - Suc ?L) (fix_digits 16 (Suc ?L) (unat v)) buf"
      using place_before [of "w - 1 - ?L" "fix_digits 16 ?L (unat v div 16)" "[?d]" buf] w less.prems(1) L by simp
    finally show ?thesis using L by (simp add: Let_def)
  qed
qed

text \<open>The padding bit makes the number of digits the larger of the two widths.\<close>

lemma length_hex_or:
  assumes "1 \<le> k" "k \<le> 16"
  shows "length (hex_text (unat (push_bit ((k - 1) * 4) 1 OR v :: u64))) = max k (length (hex_text (unat v)))"
proof -
  let ?m = "push_bit ((k - 1) * 4) 1 OR v :: u64"
  have p: "(16 :: nat) ^ j = 2 ^ (4 * j)" for j by (simp add: power_mult)
  have "k - Suc 0 < 16" using assms by linarith
  then have "unat (word_of_nat (2 ^ ((k - 1) * 4)) :: u64) = 2 ^ ((k - 1) * 4)"
    by (simp add: unsigned_of_nat take_bit_nat_eq_self del: of_nat_power)
  then have m: "unat ?m = 2 ^ (4 * (k - 1)) OR unat v"
    by (simp add: unsigned_or_eq push_bit_of_1 mult.commute)
  have len: "length (hex_text (unat ?m)) \<le> j \<longleftrightarrow> k \<le> j \<and> length (hex_text (unat v)) \<le> j" if "0 < j" for j
  proof -
    have "unat ?m < 16 ^ j \<longleftrightarrow> (2 :: nat) ^ (4 * (k - 1)) < 2 ^ (4 * j) \<and> unat v < 2 ^ (4 * j)"
    proof
      assume "unat ?m < 16 ^ j"
      have "(2 :: nat) ^ (4 * (k - 1)) \<le> 2 ^ (4 * (k - 1)) OR unat v" "unat v \<le> 2 ^ (4 * (k - 1)) OR unat v"
        by (metis nat_int of_nat_or_eq or_greater_eq of_nat_0_le_iff of_nat_mono of_nat_le_iff or.commute)+
      then show "(2 :: nat) ^ (4 * (k - 1)) < 2 ^ (4 * j) \<and> unat v < 2 ^ (4 * j)"
        using \<open>unat ?m < 16 ^ j\<close> unfolding m p by linarith
    next
      assume a: "(2 :: nat) ^ (4 * (k - 1)) < 2 ^ (4 * j) \<and> unat v < 2 ^ (4 * j)"
      then have "take_bit (4 * j) (2 ^ (4 * (k - 1)) OR unat v) = 2 ^ (4 * (k - 1)) OR unat v"
        by (simp only: take_bit_or take_bit_nat_eq_self)
      then show "unat ?m < 16 ^ j" unfolding m p by (metis take_bit_nat_less_exp)
    qed
    then show ?thesis using that assms by (auto simp: length_hex_text_le p)
  qed
  show ?thesis
    by (intro antisym) (use len [of "max k (length (hex_text (unat v)))"] len [of "length (hex_text (unat ?m))"]
      length_hex_text(1) assms in auto)
qed

lemma AlphaNum_hex_text:
  assumes "1 \<le> k" "k \<le> 16"
  shows "AlphaNum_hex junk v k = Some (fix_digits 16 (max k (length (hex_text (unat v)))) (unat v))"
proof -
  let ?m = "push_bit ((k - 1) * 4) 1 OR v :: u64"
  have "unat ?m < 16 ^ 16" using unsigned_less [of ?m] by simp
  then have l: "length (hex_text (unat ?m)) \<le> 16" by (simp add: length_hex_text_le)
  have "hex_writer v ?m (32, fresh_buffer junk) = Some (32 - length (hex_text (unat ?m)),
      place (32 - length (hex_text (unat ?m))) (fix_digits 16 (length (hex_text (unat ?m))) (unat v)) (fresh_buffer junk))"
    using hex_writer_place [of ?m 32 "fresh_buffer junk" v] l by (simp add: Let_def)
  then show ?thesis using l
    by (simp add: AlphaNum_hex_def kFastToBufferSize_def place_def flip: length_hex_or [OF assms])
qed

text \<open>\<open>FastHex64ToBuffer\<close> and \<open>FastHex32ToBuffer\<close> print every digit, leading zeros too.\<close>

lemma hex_fill_place:
  "k \<le> length buf \<Longrightarrow> hex_fill k v buf = Some (place 0 (fix_digits 16 k (unat v)) buf)"
proof (induction k arbitrary: v buf)
  case (Suc k)
  have "unat (ucast v AND 0xf :: u32) = unat v mod 16"
    unfolding low_nibble by (simp add: unsigned_ucast_eq take_bit_eq_mod mod_mod_cancel)
  then have d: "buf[k := hexdigits ! unat (ucast v AND 0xf :: u32)] = place k [hex_digit (word_of_nat (unat v mod 16))] buf"
    using Suc.prems by (simp add: hexdigits_at place_one)
  have "unat (drop_bit 4 v) = unat v div 16" by (simp add: drop_bit_eq_div unat_div)
  with Suc.IH [of "place k [hex_digit (word_of_nat (unat v mod 16))] buf" "drop_bit 4 v"] Suc.prems d
    place_before [of 0 "fix_digits 16 k (unat v div 16)" "[hex_digit (word_of_nat (unat v mod 16))]" buf]
  show ?case by simp
qed (simp add: place_def)

lemma InternalFastHexToBuffer_text:
  assumes "k < length buf"
  shows "InternalFastHexToBuffer v buf k = Some (place 0 (fix_digits 16 k (unat v) @ [0]) buf)"
  using assms hex_fill_place [of k "place k [0] buf" v] place_before [of 0 "fix_digits 16 k (unat v)" "[0]" buf]
  by (simp add: InternalFastHexToBuffer_def place_one)

lemma hex_back_place:
  "length (hex_text n) \<le> k \<Longrightarrow> k \<le> length buf \<Longrightarrow>
   hex_back (int n) (int k - 1, buf) =
     Some (int (k - length (hex_text n)) - 1, place (k - length (hex_text n)) (hex_text n) buf)"
proof (induction n arbitrary: k buf rule: less_induct)
  case (less n)
  let ?d = "hex_digit (word_of_nat (n mod 16))"
  have k: "0 < k" using less.prems(1) length_hex_text(1) [of n] by linarith
  have "int n AND 15 = int (n mod 16)"
    using take_bit_eq_mask [of 4 "int n"] by (simp add: mask_eq_exp_minus_1 take_bit_eq_mod zmod_int)
  then have step: "put_back (hexdigits ! nat (int n AND 15)) (int k - 1, buf) =
      Some (int (k - 1) - 1, place (k - 1) [?d] buf)"
    using k less.prems(2) by (simp add: hexdigits_at put_back_place)
  have q: "int n div 16 = int (n div 16)" by (simp add: zdiv_int)
  show ?case
  proof (cases "n < 16")
    case True
    then show ?thesis using step q by (subst hex_back.simps) (simp add: hex_text.simps [of n])
  next
    case False
    let ?D = "hex_text (n div 16)"
    have D: "hex_text n = ?D @ [?d]" using False by (simp add: hex_text.simps [of n])
    have len: "length ?D \<le> k - 1" using less.prems(1) D by simp
    have "hex_back (int (n div 16)) (int (k - 1) - 1, place (k - 1) [?d] buf) =
        Some (int (k - 1 - length ?D) - 1, place (k - 1 - length ?D) ?D (place (k - 1) [?d] buf))"
      using less.IH [of "n div 16" "k - 1"] len less.prems(2) k False by simp
    moreover have "place (k - 1 - length ?D) ?D (place (k - 1) [?d] buf) =
        place (k - length (hex_text n)) (hex_text n) buf"
      using place_before [of "k - 1 - length ?D" ?D "[?d]" buf] len k less.prems(2) D by simp
    moreover have "0 < n div 16" using False by simp
    ultimately show ?thesis using step q D by (subst hex_back.simps) simp
  qed
qed

lemma FastHexToBuffer_text:
  assumes "0 \<le> sint i" "22 \<le> length buf"
  shows "FastHexToBuffer i buf = Some (int (21 - length (hex_text (unat i))),
    place (21 - length (hex_text (unat i))) (hex_text (unat i) @ [0]) buf)"
proof -
  have "unat i < 16 ^ 8" using unsigned_less [of i] by simp
  then have l: "length (hex_text (unat i)) \<le> 8" by (simp add: length_hex_text_le)
  have s: "sint i = int (unat i)" using unat_sint [OF assms(1)] assms(1) by simp
  have "put_back 0 (21, buf) = Some (int 21 - 1, place 21 [0] buf)"
    using put_back_place [of 22 buf 0] assms(2) by simp
  then show ?thesis
    using hex_back_place [of "unat i" 21 "place 21 [0] buf"] l assms s
      place_before [of "21 - length (hex_text (unat i))" "hex_text (unat i)" "[0]" buf]
    by (simp add: FastHexToBuffer_def)
qed

section \<open>Printing and reading back\<close>

lemma numeral_int_text: "is_numeral (n < 0) (int_text n) n"
proof -
  have d: "list_all (is_digit 10) (dec_digits m)" for m by (auto simp: list_all_iff dest: dec_digits_digits)
  show ?thesis unfolding is_numeral_def
    by (rule exI [of _ 0], rule exI [of _ 0], rule exI [of _ "if n < 0 then [45] else []"],
        rule exI [of _ "dec_digits (nat \<bar>n\<bar>)"]) (use d in \<open>auto simp: int_text_def signed_value_def\<close>)
qed

lemma int_text_nat: "int_text (int n) = dec_digits n"
  by (simp add: int_text_def)

text \<open>
  A number that \<open>SimpleItoa\<close> prints and the parser of its type reads is the same
  number, for every 32-bit and 64-bit number, signed and unsigned.
\<close>

theorem itoa_strto:
  "do { s \<leftarrow> SimpleItoa_int junk i; safe_strto32 s } = Some (True, sint i) \<and>
   do { s \<leftarrow> SimpleItoa_uint junk i; safe_strtou32 s } = Some (True, uint i) \<and>
   do { s \<leftarrow> SimpleItoa_long junk l; safe_strto64 s } = Some (True, sint l) \<and>
   do { s \<leftarrow> SimpleItoa_ulong junk l; safe_strtou64 s } = Some (True, uint l)"
proof -
  have c: "clamp int32_t (sint i) = sint i" "clamp int64_t (sint l) = sint l"
    using sint32_limits [of i] sint64_limits [of l] by (auto simp only: clamp_eq)
  have u: "clamp uint32_t (uint i) = uint i" "clamp uint64_t (uint l) = uint l"
    using unsigned_less [of i, where 'a = int] unsigned_less [of l, where 'a = int] by (simp_all add: clamp_eq)
  have "int_text (uint i) = dec_digits (unat i)" "int_text (uint l) = dec_digits (unat l)"
    by (metis int_text_nat uint_nat)+
  with numeral_int_text [of "uint i"] numeral_int_text [of "uint l"]
  have n: "is_numeral False (dec_digits (unat i)) (uint i)" "is_numeral False (dec_digits (unat l)) (uint l)"
    by simp_all
  show ?thesis
    using safe_int_numeral [OF _ numeral_int_text, of int32_t "sint i"]
      safe_int_numeral [OF _ numeral_int_text, of int64_t "sint l"] safe_uint_numeral [OF n(1), of uint32_t]
      safe_uint_numeral [OF n(2), of uint64_t] c u
    by (simp add: number_strings safe_strto32_def safe_strto64_def safe_strtou32_def safe_strtou64_def)
qed

text \<open>
  The hexadecimal printers. The fixed-width ones give every digit, the padded one
  as many as asked for or as the number needs, the plain one no leading zero, and none leaves
  the buffer it has been given.
\<close>

theorem hex_printers:
  assumes "1 \<le> k" "k \<le> 16" "0 \<le> sint i" "22 \<le> length buf"
  shows "AlphaNum_hex junk v k = Some (fix_digits 16 (max k (length (hex_text (unat v)))) (unat v)) \<and>
    (\<exists>b. FastHex64ToBuffer v buf = Some b \<and> c_str b = fix_digits 16 16 (unat v) \<and> length b = length buf) \<and>
    (\<exists>b. FastHex32ToBuffer i buf = Some b \<and> c_str b = fix_digits 16 8 (unat i) \<and> length b = length buf) \<and>
    do { st \<leftarrow> FastHexToBuffer i buf; string_at st } = Some (hex_text (unat i))"
proof -
  have nz: "0 \<notin> set (fix_digits 16 m n)" for m n
  proof (induction m arbitrary: n)
    case (Suc m)
    have "\<forall>d \<in> set [0..<16]. hex_digit (word_of_nat d) \<noteq> 0" by code_simp
    then have "hex_digit (word_of_nat (n mod 16)) \<noteq> 0" by simp
    with Suc show ?case by simp
  qed simp
  have s: "c_str (place 0 (t @ [0]) buf) = t" if "0 \<notin> set t" for t
    using that by (simp add: place_def c_str_def takeWhile_append)
  have h: "0 \<notin> set (hex_text n)" for n by (subst hex_text_fix) (rule nz)
  have l: "length (hex_text (unat i)) \<le> 8"
    using unsigned_less [of i, where 'a = nat] by (simp add: length_hex_text_le)
  have "unat i mod 18446744073709551616 = unat i" using unsigned_less [of i, where 'a = nat] by simp
  then show ?thesis
    using InternalFastHexToBuffer_text [of 16 buf v] InternalFastHexToBuffer_text [of 8 buf "ucast i"]
      AlphaNum_hex_text [OF assms(1,2)] FastHexToBuffer_text [OF assms(3,4)] assms(4) s nz h l
      string_at_place [of "hex_text (unat i)" "21 - length (hex_text (unat i))" buf]
    by (simp add: FastHex64ToBuffer_def FastHex32ToBuffer_def unsigned_ucast_eq take_bit_eq_mod)
qed

theorem hex_printers_witness:
  "AlphaNum_hex (\<lambda>_. 0) 0xabc 4 = Some (str ''0abc'') \<and>
   do { st \<leftarrow> FastHexToBuffer 0xabc (replicate 22 7); string_at st } = Some (str ''abc'')"
proof -
  have h: "hex_text 2748 = str ''abc''" by (simp add: hex_text.simps hex_digit_def)
  have "fix_digits 16 (Suc (Suc (Suc (Suc 0)))) 2748 = str ''0abc''" by (simp add: hex_digit_def)
  moreover have "max 4 (length (str ''abc'')) = Suc (Suc (Suc (Suc 0)))" by simp
  ultimately have f: "fix_digits 16 (max 4 (length (str ''abc''))) 2748 = str ''0abc''" by (simp only:)
  have "0 \<le> sint (0xabc :: u32)" "22 \<le> length (replicate 22 (7 :: byte))" by simp_all
  from hex_printers [OF _ _ this, of 4 "\<lambda>_. 0" "0xabc"] show ?thesis
    by (simp add: h f hex_digit_def)
qed

end
