(* ===== verification/Escape.thy ===== *)
theory Escape
  imports Itoa
begin

text \<open>
  The C escapes of \<open>include/protobuf/google/protobuf/stubs/strutil.cc\<close>: \<open>CEscapeInternal\<close> with its
  callers \<open>Utf8SafeCEscape\<close> and \<open>CHexEscape\<close>, the table-driven \<open>CEscapeAndAppend\<close>, and
  \<open>UnescapeCEscapeSequences\<close> that reads them back. A buffer is the bytes it has room for and
  \<open>None\<close> is a byte written outside it, as for the printers of numbers.
\<close>

section \<open>Characters\<close>

definition isxdigit :: "byte \<Rightarrow> bool" where
  "isxdigit c \<longleftrightarrow> (48 \<le> c \<and> c \<le> 57) \<or> (97 \<le> c \<and> c \<le> 102) \<or> (65 \<le> c \<and> c \<le> 70)"

definition isprint :: "byte \<Rightarrow> bool" where
  "isprint c \<longleftrightarrow> 0x20 \<le> c \<and> c \<le> 0x7E"

definition hex_digit_to_int :: "byte \<Rightarrow> u32" where
  "hex_digit_to_int c = (let x = ucast c; x' = (if 57 < x then x + 9 else x) in x' AND 0xf)"

definition IS_OCTAL_DIGIT :: "byte \<Rightarrow> bool" where
  "IS_OCTAL_DIGIT c \<longleftrightarrow> 48 \<le> c \<and> c \<le> 55"

section \<open>Reading escapes\<close>

text \<open>The byte a pointer reads: the terminator at the end of the string.\<close>

definition peek :: "bytes \<Rightarrow> byte" where
  "peek s = (case s of [] \<Rightarrow> 0 | c # _ \<Rightarrow> c)"

text \<open>One to three octal digits, the first one at hand; the value is kept in a \<open>char\<close>.\<close>

definition octal_run :: "byte \<Rightarrow> bytes \<Rightarrow> byte \<times> bytes" where
  "octal_run e s =
     (let ch = e - 48;
          (ch1, s1) = (if IS_OCTAL_DIGIT (peek s) then (ch * 8 + peek s - 48, tl s) else (ch, s))
      in if IS_OCTAL_DIGIT (peek s1) then (ch1 * 8 + peek s1 - 48, tl s1) else (ch1, s1))"

text \<open>Any number of hexadecimal digits; the value is kept in an \<open>unsigned int\<close>.\<close>

fun hex_run :: "u32 \<Rightarrow> bytes \<Rightarrow> u32 \<times> bytes" where
  "hex_run ch [] = (ch, [])"
| "hex_run ch (c # s) = (if isxdigit c then hex_run (push_bit 4 ch + hex_digit_to_int c) s else (ch, c # s))"

text \<open>What a letter after a backslash gives: the byte it stands for, if any, and what is left.\<close>

definition escape_sequence :: "byte \<Rightarrow> bytes \<Rightarrow> byte option \<times> bytes" where
  "escape_sequence e s =
     (if e = 97 then (Some 7, s)
      else if e = 98 then (Some 8, s)
      else if e = 102 then (Some 12, s)
      else if e = 110 then (Some 10, s)
      else if e = 114 then (Some 13, s)
      else if e = 116 then (Some 9, s)
      else if e = 118 then (Some 11, s)
      else if e = 92 then (Some 92, s)
      else if e = 63 then (Some 63, s)
      else if e = 39 then (Some 39, s)
      else if e = 34 then (Some 34, s)
      else if IS_OCTAL_DIGIT e then (let (ch, s') = octal_run e s in (Some ch, s'))
      else if e = 120 \<or> e = 88 then
        (if \<not> isxdigit (peek s) then (None, s) else let (ch, s') = hex_run 0 s in (Some (ucast ch), s'))
      else (None, s))"

lemma hex_run_length: "length (snd (hex_run ch s)) \<le> length s"
  by (induction ch s rule: hex_run.induct) auto

lemma octal_run_length: "length (snd (octal_run e s)) \<le> length s"
  by (auto simp: octal_run_def Let_def)

lemma escape_sequence_length: "length (snd (escape_sequence e s)) \<le> length s"
proof -
  obtain o1 s1 where o: "octal_run e s = (o1, s1)" by fastforce
  obtain h1 s2 where h: "hex_run 0 s = (h1, s2)" by fastforce
  have "length s1 \<le> length s" "length s2 \<le> length s"
    using octal_run_length [of e s] hex_run_length [of 0 s] o h by simp_all
  then show ?thesis unfolding escape_sequence_def o h Let_def prod.case by auto
qed

text \<open>
  The loop of \<open>UnescapeCEscapeSequences\<close> on a source and a destination that do not overlap:
  the source from where it is read on, the position and the buffer it writes.
\<close>

function unescape_loop :: "bytes \<Rightarrow> nat \<times> bytes \<Rightarrow> out" where
  "unescape_loop [] st = finish st"
| "unescape_loop (c # s) st =
     (if c \<noteq> 92 then do { st1 \<leftarrow> put1 c st; unescape_loop s st1 }
      else case s of
        [] \<Rightarrow> finish st
      | e # s1 \<Rightarrow>
          (case escape_sequence e s1 of
             (None, s2) \<Rightarrow> unescape_loop s2 st
           | (Some b, s2) \<Rightarrow> do { st1 \<leftarrow> put1 b st; unescape_loop s2 st1 }))"
  by pat_completeness auto
termination
proof (relation "measure (length \<circ> fst)", goal_cases)
  case (3 c s st e s1 x s2)
  then have "s2 = snd (escape_sequence e s1)" by (metis snd_conv)
  with 3 show ?case using escape_sequence_length [of e s1] by simp
next
  case (4 c s st e s1 x s2 b st1)
  then have "s2 = snd (escape_sequence e s1)" by (metis snd_conv)
  with 4 show ?case using escape_sequence_length [of e s1] by simp
qed auto

declare unescape_loop.simps [simp del]

definition UnescapeCEscapeSequences :: "bytes \<Rightarrow> bytes \<Rightarrow> (nat \<times> bytes) option" where
  "UnescapeCEscapeSequences source dest = unescape_loop (c_str source) (0, dest)"

text \<open>The buffer holds what its memory held; the length is an \<open>int\<close>.\<close>

definition UnescapeCEscapeString :: "(nat \<Rightarrow> byte) \<Rightarrow> bytes \<Rightarrow> bytes option" where
  "UnescapeCEscapeString junk src =
     do { (len, unescaped) \<leftarrow> UnescapeCEscapeSequences src (map junk [0..<length src + 1]);
          if 2 ^ 31 \<le> int len then None else Some (take len unescaped) }"

section \<open>Writing escapes\<close>

text \<open>The letter of a two-letter escape, in both routines.\<close>

definition escape_letter :: "byte \<Rightarrow> byte option" where
  "escape_letter c =
     (if c = 10 then Some 110
      else if c = 13 then Some 114
      else if c = 9 then Some 116
      else if c = 34 then Some 34
      else if c = 39 then Some 39
      else if c = 92 then Some 92
      else None)"

fun put_all :: "bytes \<Rightarrow> nat \<times> bytes \<Rightarrow> out" where
  "put_all [] st = Some st"
| "put_all (b # t) st = do { st1 \<leftarrow> put1 b st; put_all t st1 }"

text \<open>
  The text of \<open>\x%02x\<close> and \<open>\%03o\<close>. \<open>sprintf\<close> also writes a terminator, at the position it returns.
\<close>

definition numeric_escape :: "bool \<Rightarrow> byte \<Rightarrow> bytes" where
  "numeric_escape use_hex c =
     (if use_hex then [92, 120] @ hex02 c
      else [92, 48 + c div 64, 48 + (c mod 64) div 8, 48 + c mod 8])"

definition sprintf_escape :: "bool \<Rightarrow> byte \<Rightarrow> nat \<times> bytes \<Rightarrow> out" where
  "sprintf_escape use_hex c st = do { st1 \<leftarrow> put_all (numeric_escape use_hex c) st; finish st1 }"

fun CEscape_loop :: "bool \<Rightarrow> bool \<Rightarrow> int \<Rightarrow> bytes \<Rightarrow> bool \<Rightarrow> nat \<times> bytes \<Rightarrow> (int \<times> bytes) option" where
  "CEscape_loop use_hex utf8_safe dest_len [] last_hex_escape (used, dest) =
     (if dest_len - int used < 1 then Some (- 1, dest)
      else do { (n, dest') \<leftarrow> finish (used, dest); Some (int n, dest') })"
| "CEscape_loop use_hex utf8_safe dest_len (c # src) last_hex_escape (used, dest) =
     (if dest_len - int used < 2 then Some (- 1, dest)
      else case escape_letter c of
        Some e \<Rightarrow>
          do { st \<leftarrow> put_all [92, e] (used, dest); CEscape_loop use_hex utf8_safe dest_len src False st }
      | None \<Rightarrow>
          if (\<not> utf8_safe \<or> c < 0x80) \<and> (\<not> isprint c \<or> last_hex_escape \<and> isxdigit c) then
            if dest_len - int used < 4 then Some (- 1, dest)
            else do { st \<leftarrow> sprintf_escape use_hex c (used, dest);
                      CEscape_loop use_hex utf8_safe dest_len src use_hex st }
          else do { st \<leftarrow> put1 c (used, dest); CEscape_loop use_hex utf8_safe dest_len src False st })"

definition CEscapeInternal :: "bytes \<Rightarrow> bytes \<Rightarrow> int \<Rightarrow> bool \<Rightarrow> bool \<Rightarrow> (int \<times> bytes) option" where
  "CEscapeInternal src dest dest_len use_hex utf8_safe =
     CEscape_loop use_hex utf8_safe dest_len src False (0, dest)"

text \<open>The two callers: the buffer length is an \<open>int\<close>, a string is built of the bytes written.\<close>

definition escape_string :: "bool \<Rightarrow> bool \<Rightarrow> (nat \<Rightarrow> byte) \<Rightarrow> bytes \<Rightarrow> bytes option" where
  "escape_string use_hex utf8_safe junk src =
     (let dest_length = length src * 4 + 1
      in if 2 ^ 31 \<le> int dest_length then None
         else do { (len, dest) \<leftarrow> CEscapeInternal src (map junk [0..<dest_length]) (int dest_length) use_hex utf8_safe;
                   if len < 0 then None else Some (take (nat len) dest) })"

definition Utf8SafeCEscape :: "(nat \<Rightarrow> byte) \<Rightarrow> bytes \<Rightarrow> bytes option" where
  "Utf8SafeCEscape junk src = escape_string False True junk src"

definition CHexEscape :: "(nat \<Rightarrow> byte) \<Rightarrow> bytes \<Rightarrow> bytes option" where
  "CHexEscape junk src = escape_string True False junk src"

definition c_escaped_len :: "nat list" where
  "c_escaped_len =
     [4, 4, 4, 4, 4, 4, 4, 4, 4, 2, 2, 4, 4, 2, 4, 4,
      4, 4, 4, 4, 4, 4, 4, 4, 4, 4, 4, 4, 4, 4, 4, 4,
      1, 1, 2, 1, 1, 1, 1, 2, 1, 1, 1, 1, 1, 1, 1, 1,
      1, 1, 1, 1, 1, 1, 1, 1, 1, 1, 1, 1, 1, 1, 1, 1,
      1, 1, 1, 1, 1, 1, 1, 1, 1, 1, 1, 1, 1, 1, 1, 1,
      1, 1, 1, 1, 1, 1, 1, 1, 1, 1, 1, 1, 2, 1, 1, 1,
      1, 1, 1, 1, 1, 1, 1, 1, 1, 1, 1, 1, 1, 1, 1, 1,
      1, 1, 1, 1, 1, 1, 1, 1, 1, 1, 1, 1, 1, 1, 1, 4,
      4, 4, 4, 4, 4, 4, 4, 4, 4, 4, 4, 4, 4, 4, 4, 4,
      4, 4, 4, 4, 4, 4, 4, 4, 4, 4, 4, 4, 4, 4, 4, 4,
      4, 4, 4, 4, 4, 4, 4, 4, 4, 4, 4, 4, 4, 4, 4, 4,
      4, 4, 4, 4, 4, 4, 4, 4, 4, 4, 4, 4, 4, 4, 4, 4,
      4, 4, 4, 4, 4, 4, 4, 4, 4, 4, 4, 4, 4, 4, 4, 4,
      4, 4, 4, 4, 4, 4, 4, 4, 4, 4, 4, 4, 4, 4, 4, 4,
      4, 4, 4, 4, 4, 4, 4, 4, 4, 4, 4, 4, 4, 4, 4, 4,
      4, 4, 4, 4, 4, 4, 4, 4, 4, 4, 4, 4, 4, 4, 4, 4]"

fun CEscapedLength :: "bytes \<Rightarrow> nat" where
  "CEscapedLength [] = 0"
| "CEscapedLength (c # src) = c_escaped_len ! unat c + CEscapedLength src"

text \<open>The loop that appends: the position \<open>append_ptr\<close> in the string that has been resized.\<close>

fun append_escaped :: "bytes \<Rightarrow> nat \<times> bytes \<Rightarrow> out" where
  "append_escaped [] st = Some st"
| "append_escaped (c # src) st =
     do { st1 \<leftarrow>
            (case escape_letter c of
               Some e \<Rightarrow> put_all [92, e] st
             | None \<Rightarrow>
                 if \<not> isprint c then put_all [92, 48 + c div 64, 48 + (c mod 64) div 8, 48 + c mod 8] st
                 else put1 c st);
          append_escaped src st1 }"

definition CEscapeAndAppend :: "bytes \<Rightarrow> bytes \<Rightarrow> bytes option" where
  "CEscapeAndAppend src dest =
     (let escaped_len = CEscapedLength src
      in if escaped_len = length src then Some (dest @ src)
         else do { (_, dest') \<leftarrow> append_escaped src (length dest, dest @ replicate escaped_len 0);
                   Some dest' })"

definition CEscape :: "bytes \<Rightarrow> bytes option" where
  "CEscape src = CEscapeAndAppend src []"

section \<open>The texts the routines write\<close>

fun escape_text :: "bool \<Rightarrow> bool \<Rightarrow> bool \<Rightarrow> bytes \<Rightarrow> bytes" where
  "escape_text use_hex utf8_safe l [] = []"
| "escape_text use_hex utf8_safe l (c # s) =
     (case escape_letter c of
        Some e \<Rightarrow> [92, e] @ escape_text use_hex utf8_safe False s
      | None \<Rightarrow>
          if (\<not> utf8_safe \<or> c < 0x80) \<and> (\<not> isprint c \<or> l \<and> isxdigit c)
          then numeric_escape use_hex c @ escape_text use_hex utf8_safe use_hex s
          else c # escape_text use_hex utf8_safe False s)"

fun unescape_text :: "nat \<Rightarrow> bytes \<Rightarrow> bytes" where
  "unescape_text 0 s = []"
| "unescape_text (Suc n) [] = []"
| "unescape_text (Suc n) (c # s) =
     (if c \<noteq> 92 then c # unescape_text n s
      else case s of
        [] \<Rightarrow> []
      | e # s1 \<Rightarrow>
          (case escape_sequence e s1 of
             (None, s2) \<Rightarrow> unescape_text n s2
           | (Some b, s2) \<Rightarrow> b # unescape_text n s2))"

section \<open>Writing\<close>

lemma emits_put_all: "emits f t \<Longrightarrow> emits (\<lambda>st. do { st1 \<leftarrow> put_all u st; f st1 }) (u @ t)"
proof (induction u)
  case (Cons b u)
  from emits_put1 [OF Cons.IH [OF Cons.prems], of b] show ?case by simp
qed simp

lemma length_numeric_escape [simp]: "length (numeric_escape use_hex c) = 4"
  by (simp add: numeric_escape_def)

lemma put_all_place: "p + length t \<le> length dest \<Longrightarrow> put_all t (p, dest) = Some (p + length t, place p t dest)"
proof (induction t arbitrary: p dest)
  case (Cons b t)
  then show ?case using place_after [of p "[b]" t dest "[]"] by (simp add: put1_def place_one)
qed (simp add: place_def)

lemma sprintf_place:
  assumes "p + 4 < length dest"
  shows "sprintf_escape h c (p, dest) = Some (p + 4, place p (numeric_escape h c @ [0]) dest)"
  using assms place_after [of p "numeric_escape h c" "[0]" dest "[]"]
  by (simp add: sprintf_escape_def put_all_place finish_def place_one)

text \<open>With room for the text and the terminator the routine writes both.\<close>

lemma CEscape_loop_emits:
  "p + length (escape_text h u l src) < length dest \<Longrightarrow>
   CEscape_loop h u (int (length dest)) src l (p, dest) =
     Some (int (p + length (escape_text h u l src)), place p (escape_text h u l src @ [0]) dest)"
proof (induction src arbitrary: l p dest)
  case Nil
  then show ?case by (simp add: finish_def place_one)
next
  case (Cons c src)
  have go: "CEscape_loop h u (int (length dest)) src l' (p + length t, place p (t @ z) dest) =
      Some (int (p + length (t @ escape_text h u l' src)), place p ((t @ escape_text h u l' src) @ [0]) dest)"
    if "p + length (t @ escape_text h u l' src) < length dest" "length z \<le> 1" for t l' z
    using that Cons.IH [of "p + length t" l' "place p (t @ z) dest"]
      place_after [of p t "escape_text h u l' src @ [0]" dest z] by simp
  show ?case
  proof (cases "escape_letter c")
    case (Some e)
    with Cons.prems go [of "[92, e]" False "[]"] put_all_place [of p "[92, e]" dest] show ?thesis by simp
  next
    case None
    show ?thesis
    proof (cases "(\<not> u \<or> c < 0x80) \<and> (\<not> isprint c \<or> l \<and> isxdigit c)")
      case True
      with None have t: "escape_text h u l (c # src) = numeric_escape h c @ escape_text h u h src" by simp
      then have "p + 4 < length dest" using Cons.prems by simp
      with True None Cons.prems t go [of "numeric_escape h c" h "[0]"] sprintf_place [of p dest h c]
      show ?thesis by (simp del: escape_text.simps)
    next
      case False
      with None have t: "escape_text h u l (c # src) = c # escape_text h u False src" by auto
      with False None Cons.prems go [of "[c]" False "[]"] show ?thesis
        by (auto simp: put1_def place_one simp del: escape_text.simps)
    qed
  qed
qed

lemma length_escape_text: "length (escape_text h u l s) \<le> 4 * length s"
proof (induction s arbitrary: l)
  case (Cons c s)
  show ?case using Cons.IH [of False] Cons.IH [of h] by (auto split: option.split)
qed simp

lemma escape_string_text:
  assumes "int (length src) * 4 + 1 < 2 ^ 31"
  shows "escape_string h u junk src = Some (escape_text h u False src)"
proof -
  let ?d = "map junk [0..<length src * 4 + 1]"
  have "length (escape_text h u False src) < length ?d" using length_escape_text [of h u False src] by simp
  then show ?thesis using assms CEscape_loop_emits [of 0 h u False src ?d]
    by (simp add: escape_string_def CEscapeInternal_def Let_def place_def)
qed

text \<open>A buffer that is too short is refused, or \<open>sprintf\<close> writes past its end.\<close>

lemma CEscape_loop_refuses:
  "p \<le> length dest \<Longrightarrow> length dest \<le> p + length (escape_text h u l src) \<Longrightarrow>
   CEscape_loop h u (int (length dest)) src l (p, dest) = None \<or>
   (\<exists>d. CEscape_loop h u (int (length dest)) src l (p, dest) = Some (- 1, d))"
proof (induction src arbitrary: l p dest)
  case (Cons c src)
  show ?case
  proof (cases "int (length dest) - int p < 2")
    case False
    show ?thesis
    proof (cases "escape_letter c")
      case (Some e)
      with False Cons.prems Cons.IH [of "p + 2" "place p [92, e] dest" False] put_all_place [of p "[92, e]" dest]
      show ?thesis by simp
    next
      case None
      show ?thesis
      proof (cases "(\<not> u \<or> c < 0x80) \<and> (\<not> isprint c \<or> l \<and> isxdigit c)")
        case True
        with None have t: "escape_text h u l (c # src) = numeric_escape h c @ escape_text h u h src" by simp
        consider "int (length dest) - int p < 4" | "length dest = p + 4" | "p + 4 < length dest" by linarith
        then show ?thesis
        proof cases
          case 2
          then have "sprintf_escape h c (p, dest) = None"
            by (simp add: sprintf_escape_def put_all_place finish_def)
          with True None show ?thesis by simp
        next
          case 3
          with True None Cons.prems t Cons.IH [of "p + 4" "place p (numeric_escape h c @ [0]) dest" h]
            sprintf_place [of p dest h c] show ?thesis by (simp del: escape_text.simps)
        qed (use True None in auto)
      next
        case False
        with None have t: "escape_text h u l (c # src) = c # escape_text h u False src" by auto
        with False None \<open>\<not> int (length dest) - int p < 2\<close> Cons.prems Cons.IH [of "p + 1" "place p [c] dest" False]
        show ?thesis by (auto simp: put1_def place_one simp del: escape_text.simps)
      qed
    qed
  qed simp
qed simp

text \<open>
  The check before \<open>sprintf\<close> leaves no room for the terminator it writes: with exactly four
  bytes left the fifth one falls outside the buffer, where -1 is promised.
\<close>

lemma CEscape_overflows: "CEscapeInternal [1] (replicate 4 0) 4 False False = None"
  by (simp add: CEscapeInternal_def escape_letter_def isprint_def sprintf_escape_def numeric_escape_def put1_def
      finish_def word_le_nat_alt)

section \<open>The table and the appending loop\<close>

abbreviation plain_escape :: "bytes \<Rightarrow> bytes" where
  "plain_escape s \<equiv> escape_text False False False s"

definition escape_one :: "byte \<Rightarrow> bytes" where
  "escape_one c = (case escape_letter c of Some e \<Rightarrow> [92, e] | None \<Rightarrow> if \<not> isprint c then numeric_escape False c else [c])"

lemma plain_escape_Cons: "plain_escape (c # s) = escape_one c @ plain_escape s"
  by (simp add: escape_one_def split: option.split)

lemma plain_escape_simps: "plain_escape [] = []" "plain_escape (c # s) = escape_one c @ plain_escape s"
  by (simp, rule plain_escape_Cons)

text \<open>A fact about every byte is checked on the 256 of them.\<close>

lemma all_bytes_check: "list_all (\<lambda>n. P (word_of_nat n)) [0..<256] \<Longrightarrow> P (c :: byte)"
proof -
  assume a: "list_all (\<lambda>n. P (word_of_nat n)) [0..<256]"
  have "unat c \<in> set [0..<256]" using unsigned_less [of c] by simp
  with a have "P (word_of_nat (unat c))" unfolding list_all_iff by (rule bspec)
  then show ?thesis by simp
qed

lemma c_escaped_len_table: "c_escaped_len = map (\<lambda>n. length (escape_one (word_of_nat n))) [0..<256]"
  by code_simp

lemma CEscapedLength_plain: "CEscapedLength s = length (plain_escape s)"
proof (induction s)
  case (Cons c s)
  have "unat c < 256" using unsigned_less [of c] by simp
  then have "c_escaped_len ! unat c = length (escape_one c)" by (simp add: c_escaped_len_table)
  with Cons show ?case by (simp add: plain_escape_simps del: escape_text.simps)
qed simp

lemma escape_one_one: "length (escape_one c) = 1 \<Longrightarrow> escape_one c = [c]"
  by (simp add: escape_one_def split: option.splits if_splits)

lemma escape_one_pos: "1 \<le> length (escape_one c)"
  by (simp add: escape_one_def split: option.split)

lemma plain_escape_shortest: "length s \<le> length (plain_escape s)"
proof (induction s)
  case (Cons c s)
  then show ?case using escape_one_pos [of c] by (simp add: plain_escape_simps del: escape_text.simps)
qed simp

lemma plain_escape_same: "length (plain_escape s) = length s \<Longrightarrow> plain_escape s = s"
proof (induction s)
  case (Cons c s)
  have "length (escape_one c) = 1" "length (plain_escape s) = length s"
    using Cons.prems escape_one_pos [of c] plain_escape_shortest [of s]
    by (simp_all add: plain_escape_simps del: escape_text.simps)
  with Cons.IH escape_one_one show ?case by (simp add: plain_escape_simps del: escape_text.simps)
qed simp

lemma append_escaped_place:
  "p + length (plain_escape s) \<le> length dest \<Longrightarrow>
   append_escaped s (p, dest) = Some (p + length (plain_escape s), place p (plain_escape s) dest)"
proof (induction s arbitrary: p dest)
  case Nil
  then show ?case by (simp add: place_def)
next
  case (Cons c s)
  have "append_escaped (c # s) (p, dest) = do { st \<leftarrow> put_all (escape_one c) (p, dest); append_escaped s st }"
    by (simp add: escape_one_def numeric_escape_def split: option.split)
  also have "put_all (escape_one c) (p, dest) = Some (p + length (escape_one c), place p (escape_one c) dest)"
    using Cons.prems by (intro put_all_place) (simp add: plain_escape_simps del: escape_text.simps)
  finally show ?case
    using Cons.prems Cons.IH [of "p + length (escape_one c)" "place p (escape_one c) dest"]
      place_after [of p "escape_one c" "plain_escape s" dest "[]"]
    by (simp add: plain_escape_simps del: escape_text.simps append_escaped.simps)
qed

lemma CEscapeAndAppend_text: "CEscapeAndAppend src dest = Some (dest @ plain_escape src)"
proof (cases "length (plain_escape src) = length src")
  case True
  then show ?thesis by (simp add: CEscapeAndAppend_def CEscapedLength_plain plain_escape_same)
next
  case False
  have "append_escaped src (length dest, dest @ replicate (length (plain_escape src)) 0) =
      Some (length dest + length (plain_escape src), dest @ plain_escape src)"
    using append_escaped_place [of "length dest" src "dest @ replicate (length (plain_escape src)) 0"]
    by (simp add: place_def)
  with False show ?thesis by (simp add: CEscapeAndAppend_def CEscapedLength_plain)
qed

section \<open>Reading back\<close>

lemma unescape_loop_emits:
  "length s \<le> n \<Longrightarrow> emits (unescape_loop s) (unescape_text n s) \<and> length (unescape_text n s) \<le> length s"
proof (induction n arbitrary: s)
  case 0
  then show ?case using emits_finish by (simp add: emits_def unescape_loop.simps)
next
  case (Suc n)
  show ?case
  proof (cases s)
    case Nil
    then show ?thesis using emits_finish by (simp add: emits_def unescape_loop.simps)
  next
    case (Cons c r)
    note s = this
    show ?thesis
    proof (cases "c = 92")
      case False
      then have "unescape_loop s = (\<lambda>st. do { st1 \<leftarrow> put1 c st; unescape_loop r st1 })"
        by (simp add: s unescape_loop.simps(2) fun_eq_iff)
      with False s Suc emits_put1 show ?thesis by simp
    next
      case True
      show ?thesis
      proof (cases r)
        case Nil
        have "unescape_loop s = finish" using True Nil by (simp add: s unescape_loop.simps(2) fun_eq_iff)
        with True s Nil emits_finish show ?thesis by simp
      next
        case (Cons e r1)
        obtain x r2 where x: "escape_sequence e r1 = (x, r2)" by fastforce
        then have l: "length r2 \<le> n" "length r2 \<le> length r1"
          using escape_sequence_length [of e r1] Suc.prems s Cons by simp_all
        show ?thesis
        proof (cases x)
          case None
          have "unescape_loop s = unescape_loop r2"
            using True Cons x None by (simp add: s unescape_loop.simps(2) fun_eq_iff)
          with True s Cons x None Suc.IH [OF l(1)] l show ?thesis by simp
        next
          case (Some b)
          have "unescape_loop s = (\<lambda>st. do { st1 \<leftarrow> put1 b st; unescape_loop r2 st1 })"
            using True Cons x Some by (simp add: s unescape_loop.simps(2) fun_eq_iff)
          with True s Cons x Some Suc.IH [OF l(1)] l emits_put1 show ?thesis by simp
        qed
      qed
    qed
  qed
qed

text \<open>More fuel than the length changes nothing.\<close>

lemma UnescapeCEscapeString_text:
  assumes "int (length s) < 2 ^ 31" "0 \<notin> set s"
  shows "UnescapeCEscapeString junk s = Some (unescape_text (length s) s)"
proof -
  have e: "emits (unescape_loop s) (unescape_text (length s) s)" "length (unescape_text (length s) s) \<le> length s"
    using unescape_loop_emits [of s "length s"] by simp_all
  then show ?thesis using assms
    by (simp add: UnescapeCEscapeString_def UnescapeCEscapeSequences_def emits_def c_str_id place_def)
qed

lemma unescape_more: "length s \<le> n \<Longrightarrow> unescape_text n s = unescape_text (length s) s"
proof (induction n arbitrary: s rule: less_induct)
  case (less n)
  show ?case
  proof (cases s)
    case Nil
    then show ?thesis by (cases n) simp_all
  next
    case (Cons c r)
    then obtain m where m: "n = Suc m" "length r \<le> m" using less.prems by (cases n) auto
    have r: "unescape_text m x = unescape_text (length r) x" if "length x \<le> length r" for x
      using less.IH [of m x] less.IH [of "length r" x] that m Cons less.prems
      by (cases "length r < n") auto
    show ?thesis
    proof (cases r)
      case (Cons e r1)
      have "unescape_text m (snd (escape_sequence e r1)) = unescape_text (length r) (snd (escape_sequence e r1))"
        using escape_sequence_length [of e r1] Cons by (intro r) simp
      then show ?thesis using \<open>s = c # r\<close> m r [of r] Cons
        by (auto split: prod.split option.split)
    qed (use \<open>s = c # r\<close> m r [of r] in simp)
  qed
qed

abbreviation unescaped :: "bytes \<Rightarrow> bytes" where
  "unescaped s \<equiv> unescape_text (length s) s"

lemma unescaped_plain: "c \<noteq> 92 \<Longrightarrow> unescaped (c # s) = c # unescaped s"
  by simp

lemma unescaped_escape:
  assumes "escape_sequence e s = (Some b, s2)"
  shows "unescaped (92 # e # s) = b # unescaped s2"
proof -
  have "length s2 \<le> length s" using escape_sequence_length [of e s] assms by simp
  then have "unescape_text (Suc (length s)) s2 = unescaped s2" by (intro unescape_more) simp
  with assms show ?thesis by simp
qed

lemma unescaped_letter: "escape_letter c = Some e \<Longrightarrow> unescaped (92 # e # s) = c # unescaped s"
  by (rule unescaped_escape) (auto simp: escape_letter_def escape_sequence_def split: if_splits)

text \<open>Three octal digits give the byte, whatever follows.\<close>

lemma octal_digit: "unat x < 8 \<Longrightarrow> IS_OCTAL_DIGIT (48 + x)" for x :: byte
proof -
  assume x: "unat x < 8"
  then have "unat (48 + x) = 48 + unat x" by (simp add: unat_word_ariths)
  with x show ?thesis by (simp add: IS_OCTAL_DIGIT_def word_le_nat_alt)
qed

lemma octal_no_letter: "IS_OCTAL_DIGIT d \<Longrightarrow> d \<notin> {97, 98, 102, 110, 114, 116, 118, 92, 63, 39, 34, 0}"
  by (auto simp: IS_OCTAL_DIGIT_def word_le_nat_alt)

lemma octal_digits:
  fixes c :: byte
  shows "IS_OCTAL_DIGIT (48 + c div 64)" "IS_OCTAL_DIGIT (48 + (c mod 64) div 8)" "IS_OCTAL_DIGIT (48 + c mod 8)"
    and "((48 + c div 64 - 48) * 8 + (48 + (c mod 64) div 8) - 48) * 8 + (48 + c mod 8) - 48 = c"
proof -
  have n: "unat c < 256" using unsigned_less [of c] by simp
  then show "IS_OCTAL_DIGIT (48 + c div 64)" by (intro octal_digit) (simp add: unat_div)
  have "unat c mod 64 div 8 < 8" by (simp add: div_less_iff_less_mult)
  then show "IS_OCTAL_DIGIT (48 + (c mod 64) div 8)" by (intro octal_digit) (simp add: unat_div unat_mod)
  show "IS_OCTAL_DIGIT (48 + c mod 8)" by (intro octal_digit) (simp add: unat_mod)
  have "c mod 64 mod 8 = c mod 8" by (rule word_unat_eq_iff [THEN iffD2]) (simp add: unat_mod mod_mod_cancel)
  then have "c mod 64 = (c mod 64) div 8 * 8 + c mod 8" using div_mult_mod_eq [of "c mod 64" 8] by simp
  then have "c = c div 64 * 64 + ((c mod 64) div 8 * 8 + c mod 8)" using div_mult_mod_eq [of c 64] by simp
  then show "((48 + c div 64 - 48) * 8 + (48 + (c mod 64) div 8) - 48) * 8 + (48 + c mod 8) - 48 = c"
    by (simp add: algebra_simps)
qed

lemma unescaped_octal: "unescaped (numeric_escape False c @ s) = c # unescaped s"
proof -
  have "octal_run (48 + c div 64) ([48 + (c mod 64) div 8, 48 + c mod 8] @ s) = (c, s)"
    using octal_digits [of c] by (simp add: octal_run_def peek_def Let_def)
  then have "escape_sequence (48 + c div 64) ([48 + (c mod 64) div 8, 48 + c mod 8] @ s) = (Some c, s)"
    using octal_digits(1) [of c] octal_no_letter [OF octal_digits(1) [of c]] unfolding escape_sequence_def by simp
  from unescaped_escape [OF this] show ?thesis by (simp add: numeric_escape_def)
qed

text \<open>Two hexadecimal digits give the byte, unless a third one follows.\<close>

lemma hex_nibble: "unat x < 16 \<Longrightarrow> isxdigit (hex_digit x) \<and> hex_digit_to_int (hex_digit x) = ucast x" for x :: byte
proof -
  have "list_all (\<lambda>n. isxdigit (hex_digit (word_of_nat n)) \<and>
      hex_digit_to_int (hex_digit (word_of_nat n)) = ucast (word_of_nat n :: byte)) [0..<16]"
    by code_simp
  then have "n \<in> set [0..<16] \<Longrightarrow> isxdigit (hex_digit (word_of_nat n)) \<and>
      hex_digit_to_int (hex_digit (word_of_nat n)) = ucast (word_of_nat n :: byte)" for n
    unfolding list_all_iff by (rule bspec)
  from this [of "unat x"] show "unat x < 16 \<Longrightarrow> ?thesis" by simp
qed

lemma hex_digits:
  fixes c :: byte
  shows "isxdigit (hex_digit (drop_bit 4 c))" "isxdigit (hex_digit (c AND 15))"
    and "ucast (push_bit 4 (push_bit 4 0 + hex_digit_to_int (hex_digit (drop_bit 4 c))) + hex_digit_to_int (hex_digit (c AND 15))) = c"
proof -
  have n: "unat c < 256" using unsigned_less [of c] by simp
  have hi: "unat (drop_bit 4 c) = unat c div 16" by (simp add: drop_bit_eq_div unat_div)
  have lo: "unat (c AND 15) = unat c mod 16" using low_nibble [of c] by simp
  have "unat c div 16 < 16" using n by (simp add: div_less_iff_less_mult)
  then have d: "isxdigit (hex_digit (drop_bit 4 c))" "hex_digit_to_int (hex_digit (drop_bit 4 c)) = word_of_nat (unat c div 16)"
    using hex_nibble [of "drop_bit 4 c"] hi by (simp_all only:, metis of_nat_unat)
  have m: "isxdigit (hex_digit (c AND 15))" "hex_digit_to_int (hex_digit (c AND 15)) = word_of_nat (unat c mod 16)"
    using hex_nibble [of "c AND 15"] lo by (simp_all, metis of_nat_unat)
  show "isxdigit (hex_digit (drop_bit 4 c))" "isxdigit (hex_digit (c AND 15))" using d m by simp_all
  have "push_bit 4 (push_bit 4 0 + word_of_nat (unat c div 16)) + word_of_nat (unat c mod 16) =
      (word_of_nat (unat c div 16 * 16 + unat c mod 16) :: u32)"
    by (simp only: of_nat_add of_nat_mult push_bit_eq_mult) simp
  then show "ucast (push_bit 4 (push_bit 4 0 + hex_digit_to_int (hex_digit (drop_bit 4 c))) + hex_digit_to_int (hex_digit (c AND 15))) = c"
    unfolding d m by (simp only: div_mult_mod_eq of_nat_unat) (simp add: ucast_up_ucast_id is_up)
qed

lemma hex_run_stops: "\<not> isxdigit (peek s) \<Longrightarrow> hex_run ch s = (ch, s)"
  by (cases s) (simp_all add: peek_def)

lemma unescaped_hex:
  assumes "\<not> isxdigit (peek s)"
  shows "unescaped (numeric_escape True c @ s) = c # unescaped s"
proof -
  have "escape_sequence 120 (hex02 c @ s) = (Some c, s)"
    using hex_digits [of c] hex_run_stops [OF assms]
    by (simp add: escape_sequence_def IS_OCTAL_DIGIT_def hex02_def peek_def word_le_nat_alt)
  from unescaped_escape [OF this] show ?thesis by (simp add: numeric_escape_def)
qed

lemma xdigit_facts: "isxdigit c \<Longrightarrow> c < 0x80" "\<not> isxdigit 0" "\<not> isxdigit 92"
  by (auto simp: isxdigit_def word_le_nat_alt word_less_nat_alt)

text \<open>After a hexadecimal escape the text does not go on with a hexadecimal digit.\<close>

lemma escape_text_stops: "\<not> isxdigit (peek (escape_text True u True s))"
proof (cases s)
  case (Cons c r)
  show ?thesis
  proof (cases "escape_letter c")
    case None
    then show ?thesis using Cons xdigit_facts
      by (auto simp: peek_def numeric_escape_def)
  qed (use Cons xdigit_facts in \<open>simp add: peek_def\<close>)
qed (simp add: peek_def xdigit_facts)

lemma unescaped_escape_text: "unescaped (escape_text h u l s) = s"
proof (induction s arbitrary: l)
  case (Cons c s)
  show ?case
  proof (cases "escape_letter c")
    case (Some e)
    then show ?thesis using unescaped_letter [OF Some] Cons by simp
  next
    case None
    then have c: "c \<noteq> 92" by (auto simp: escape_letter_def)
    show ?thesis
    proof (cases "(\<not> u \<or> c < 0x80) \<and> (\<not> isprint c \<or> l \<and> isxdigit c)")
      case True
      with None have "escape_text h u l (c # s) = numeric_escape h c @ escape_text h u h s" by simp
      moreover have "unescaped (numeric_escape h c @ escape_text h u h s) = c # unescaped (escape_text h u h s)"
        using unescaped_octal unescaped_hex [OF escape_text_stops] by (cases h) auto
      ultimately show ?thesis using Cons by (simp only:)
    next
      case False
      with None have "escape_text h u l (c # s) = c # escape_text h u False s" by auto
      with Cons unescaped_plain [OF c] show ?thesis by (simp only:)
    qed
  qed
qed simp

lemma escape_letter_nonzero: "escape_letter c = Some e \<Longrightarrow> e \<noteq> 0"
  by (auto simp: escape_letter_def split: if_splits)

lemma escape_one_nonzero: "0 \<notin> set (numeric_escape h c)"
proof (cases h)
  case True
  then show ?thesis using hex_digits [of c] xdigit_facts(2)
    by (auto simp: numeric_escape_def hex02_def)
next
  case False
  have "\<not> IS_OCTAL_DIGIT 0" by (simp add: IS_OCTAL_DIGIT_def word_le_nat_alt)
  with False show ?thesis using octal_no_letter [OF octal_digits(1) [of c]]
      octal_no_letter [OF octal_digits(2) [of c]] octal_no_letter [OF octal_digits(3) [of c]]
    by (auto simp: numeric_escape_def)
qed

lemma escape_text_nonzero: "0 \<notin> set (escape_text h u l s)"
proof (induction s arbitrary: l)
  case (Cons c s)
  have "c \<noteq> 0" if "\<not> ((\<not> u \<or> c < 0x80) \<and> (\<not> isprint c \<or> l \<and> isxdigit c))"
    using that by (auto simp: isprint_def word_le_nat_alt)
  with Cons escape_one_nonzero [of h c] show ?case
    by (auto split: option.split dest: escape_letter_nonzero)
qed simp

section \<open>Properties\<close>

text \<open>
  Property C30: what the three escaping routines write is read back as the string they were given,
  for every string of bytes, the zero byte included: the octal escape takes the three digits it
  is given, a hexadecimal escape is never followed by another hexadecimal digit, and no buffer is
  left or ends too early. The bound keeps the buffer lengths within \<open>int\<close>.
\<close>

theorem escape_roundtrip:
  assumes "int (length s) * 4 + 1 < 2 ^ 31"
  shows "do { t \<leftarrow> CEscape s; UnescapeCEscapeString junk t } = Some s \<and>
    do { t \<leftarrow> CHexEscape junk s; UnescapeCEscapeString junk t } = Some s \<and>
    do { t \<leftarrow> Utf8SafeCEscape junk s; UnescapeCEscapeString junk t } = Some s"
proof -
  have "UnescapeCEscapeString junk (escape_text h u False s) = Some s" for h u
    using UnescapeCEscapeString_text [OF _ escape_text_nonzero, of h u False s junk]
      length_escape_text [of h u False s] assms
    by (simp add: unescaped_escape_text)
  moreover have "CEscape s = Some (plain_escape s)" by (simp add: CEscape_def CEscapeAndAppend_text)
  ultimately show ?thesis using assms escape_string_text [of s]
    by (simp add: CHexEscape_def Utf8SafeCEscape_def mult.commute)
qed

theorem escape_roundtrip_witness:
  "do { t \<leftarrow> CHexEscape (\<lambda>_. 7) [1, 65, 0]; UnescapeCEscapeString (\<lambda>_. 7) t } = Some [1, 65, 0]"
  using escape_roundtrip [of "[1, 65, 0]" "\<lambda>_. 7"] by simp


end
