(* ===== verification/Base64.thy ===== *)
theory Base64
  imports Escape
begin

text \<open>
  The base-64 routines of \<open>include/protobuf/google/protobuf/stubs/strutil.cc\<close>: the encoder
  \<open>Base64EscapeInternal\<close>, which takes three bytes at a time, and the decoder
  \<open>Base64UnescapeInternal\<close>, which first takes four characters at a time and, where they are
  not four data characters, one at a time. The source is the \<open>szsrc\<close> bytes the caller passes;
  \<open>None\<close> is a byte read or written outside the buffers or a failed check.
\<close>

section \<open>Tables\<close>

definition kUnBase64 :: "int list" where
  "kUnBase64 =
    [- 1, - 1, - 1, - 1, - 1, - 1, - 1, - 1, - 1, - 1, - 1, - 1, - 1, - 1, - 1, - 1,
     - 1, - 1, - 1, - 1, - 1, - 1, - 1, - 1, - 1, - 1, - 1, - 1, - 1, - 1, - 1, - 1,
     - 1, - 1, - 1, - 1, - 1, - 1, - 1, - 1, - 1, - 1, - 1, 62, - 1, - 1, - 1, 63,
     52, 53, 54, 55, 56, 57, 58, 59, 60, 61, - 1, - 1, - 1, - 1, - 1, - 1,
     - 1, 0, 1, 2, 3, 4, 5, 6, 7, 8, 9, 10, 11, 12, 13, 14,
     15, 16, 17, 18, 19, 20, 21, 22, 23, 24, 25, - 1, - 1, - 1, - 1, - 1,
     - 1, 26, 27, 28, 29, 30, 31, 32, 33, 34, 35, 36, 37, 38, 39, 40,
     41, 42, 43, 44, 45, 46, 47, 48, 49, 50, 51, - 1, - 1, - 1, - 1, - 1,
     - 1, - 1, - 1, - 1, - 1, - 1, - 1, - 1, - 1, - 1, - 1, - 1, - 1, - 1, - 1, - 1,
     - 1, - 1, - 1, - 1, - 1, - 1, - 1, - 1, - 1, - 1, - 1, - 1, - 1, - 1, - 1, - 1,
     - 1, - 1, - 1, - 1, - 1, - 1, - 1, - 1, - 1, - 1, - 1, - 1, - 1, - 1, - 1, - 1,
     - 1, - 1, - 1, - 1, - 1, - 1, - 1, - 1, - 1, - 1, - 1, - 1, - 1, - 1, - 1, - 1,
     - 1, - 1, - 1, - 1, - 1, - 1, - 1, - 1, - 1, - 1, - 1, - 1, - 1, - 1, - 1, - 1,
     - 1, - 1, - 1, - 1, - 1, - 1, - 1, - 1, - 1, - 1, - 1, - 1, - 1, - 1, - 1, - 1,
     - 1, - 1, - 1, - 1, - 1, - 1, - 1, - 1, - 1, - 1, - 1, - 1, - 1, - 1, - 1, - 1,
     - 1, - 1, - 1, - 1, - 1, - 1, - 1, - 1, - 1, - 1, - 1, - 1, - 1, - 1, - 1, - 1]"

definition kUnWebSafeBase64 :: "int list" where
  "kUnWebSafeBase64 =
    [- 1, - 1, - 1, - 1, - 1, - 1, - 1, - 1, - 1, - 1, - 1, - 1, - 1, - 1, - 1, - 1,
     - 1, - 1, - 1, - 1, - 1, - 1, - 1, - 1, - 1, - 1, - 1, - 1, - 1, - 1, - 1, - 1,
     - 1, - 1, - 1, - 1, - 1, - 1, - 1, - 1, - 1, - 1, - 1, - 1, - 1, 62, - 1, - 1,
     52, 53, 54, 55, 56, 57, 58, 59, 60, 61, - 1, - 1, - 1, - 1, - 1, - 1,
     - 1, 0, 1, 2, 3, 4, 5, 6, 7, 8, 9, 10, 11, 12, 13, 14,
     15, 16, 17, 18, 19, 20, 21, 22, 23, 24, 25, - 1, - 1, - 1, - 1, 63,
     - 1, 26, 27, 28, 29, 30, 31, 32, 33, 34, 35, 36, 37, 38, 39, 40,
     41, 42, 43, 44, 45, 46, 47, 48, 49, 50, 51, - 1, - 1, - 1, - 1, - 1,
     - 1, - 1, - 1, - 1, - 1, - 1, - 1, - 1, - 1, - 1, - 1, - 1, - 1, - 1, - 1, - 1,
     - 1, - 1, - 1, - 1, - 1, - 1, - 1, - 1, - 1, - 1, - 1, - 1, - 1, - 1, - 1, - 1,
     - 1, - 1, - 1, - 1, - 1, - 1, - 1, - 1, - 1, - 1, - 1, - 1, - 1, - 1, - 1, - 1,
     - 1, - 1, - 1, - 1, - 1, - 1, - 1, - 1, - 1, - 1, - 1, - 1, - 1, - 1, - 1, - 1,
     - 1, - 1, - 1, - 1, - 1, - 1, - 1, - 1, - 1, - 1, - 1, - 1, - 1, - 1, - 1, - 1,
     - 1, - 1, - 1, - 1, - 1, - 1, - 1, - 1, - 1, - 1, - 1, - 1, - 1, - 1, - 1, - 1,
     - 1, - 1, - 1, - 1, - 1, - 1, - 1, - 1, - 1, - 1, - 1, - 1, - 1, - 1, - 1, - 1,
     - 1, - 1, - 1, - 1, - 1, - 1, - 1, - 1, - 1, - 1, - 1, - 1, - 1, - 1, - 1, - 1]"

definition kBase64Chars :: bytes where
  "kBase64Chars = str ''ABCDEFGHIJKLMNOPQRSTUVWXYZabcdefghijklmnopqrstuvwxyz0123456789+/''"

definition kWebSafeBase64Chars :: bytes where
  "kWebSafeBase64Chars = str ''ABCDEFGHIJKLMNOPQRSTUVWXYZabcdefghijklmnopqrstuvwxyz0123456789-_''"

definition ascii_isspace :: "byte \<Rightarrow> bool" where
  "ascii_isspace c \<longleftrightarrow> c = 32 \<or> c = 9 \<or> c = 10 \<or> c = 11 \<or> c = 12 \<or> c = 13"

text \<open>The two pad characters, \<open>=\<close> and \<open>.\<close>.\<close>

definition is_pad :: "byte \<Rightarrow> bool" where
  "is_pad c \<longleftrightarrow> c = 61 \<or> c = 46"

section \<open>Decoding\<close>

text \<open>
  The variables of \<open>Base64UnescapeInternal\<close>: what is left of the source (its length is
  \<open>szsrc\<close>), the last character and its code, the number of data characters in \<open>temp\<close>, the
  position in the destination and the destination, if there is one (its length is \<open>szdest\<close>).
\<close>

record b64 =
  b_src :: bytes
  b_ch :: byte
  b_decode :: int
  b_state :: nat
  b_temp :: u32
  b_idx :: nat
  b_dest :: "bytes option"

datatype b64_flow = Done int "bytes option" | Next b64

text \<open>Three bytes of \<open>temp\<close>, the last one first; \<open>None\<close> where the destination has no room.\<close>

definition write_three :: "u32 \<Rightarrow> nat \<Rightarrow> bytes option \<Rightarrow> bytes option option" where
  "write_three temp i dest =
     (case dest of
        None \<Rightarrow> Some None
      | Some d \<Rightarrow>
          if length d < i + 3 then None
          else Some (Some (d[i + 2 := ucast temp, i + 1 := ucast (drop_bit 8 temp), i := ucast (drop_bit 16 temp)])))"

text \<open>The macro \<open>GET_INPUT\<close>: the next character that is no white space that may be skipped.\<close>

fun GET_INPUT :: "int list \<Rightarrow> nat \<Rightarrow> b64 \<Rightarrow> bytes \<Rightarrow> b64 option" where
  "GET_INPUT un remain z [] = None"
| "GET_INPUT un remain z (c # s) =
     (if un ! unat c < 0 \<and> ascii_isspace c \<and> remain \<le> length s then GET_INPUT un remain z s
      else Some (z\<lparr>b_src := s, b_ch := c, b_decode := un ! unat c,
                   b_state := (if un ! unat c < 0 then 4 - remain else b_state z)\<rparr>))"

text \<open>The four characters one after the other, until a bad one; \<open>temp\<close> is only kept for a destination.\<close>

definition keep :: "u32 \<Rightarrow> b64 \<Rightarrow> b64" where
  "keep t z = (if b_dest z = None then z else z\<lparr>b_temp := t OR word_of_int (b_decode z)\<rparr>)"

definition slow_four :: "int list \<Rightarrow> b64 \<Rightarrow> b64 option" where
  "slow_four un z =
     do {
       z1 \<leftarrow> GET_INPUT un 4 z (b_src z);
       if b_decode z1 < 0 then Some z1 else do {
       let z1 = keep 0 z1;
       z2 \<leftarrow> GET_INPUT un 3 z1 (b_src z1);
       if b_decode z2 < 0 then Some z2 else do {
       let z2 = keep (push_bit 6 (b_temp z2)) z2;
       z3 \<leftarrow> GET_INPUT un 2 z2 (b_src z2);
       if b_decode z3 < 0 then Some z3 else do {
       let z3 = keep (push_bit 6 (b_temp z3)) z3;
       z4 \<leftarrow> GET_INPUT un 1 z3 (b_src z3);
       Some (if b_decode z4 < 0 then z4 else keep (push_bit 6 (b_temp z4)) z4) } } } }"

definition fast_four :: "int list \<Rightarrow> byte \<Rightarrow> byte \<Rightarrow> byte \<Rightarrow> byte \<Rightarrow> u32" where
  "fast_four un a b c d =
     push_bit 18 (word_of_int (un ! unat a)) OR push_bit 12 (word_of_int (un ! unat b)) OR
     push_bit 6 (word_of_int (un ! unat c)) OR word_of_int (un ! unat d)"

text \<open>
  One turn of the first loop up to the writing: whether it goes on to write, and the variables.
\<close>

definition read_four :: "int list \<Rightarrow> byte \<Rightarrow> byte \<Rightarrow> byte \<Rightarrow> byte \<Rightarrow> bytes \<Rightarrow> b64 \<Rightarrow> (bool \<times> b64) option" where
  "read_four un a b c d rest z =
     (let q = fast_four un a b c d
      in if a = 0 \<or> b = 0 \<or> c = 0 then
           map_option (\<lambda>z'. (\<not> b_decode z' < 0, z')) (slow_four un z)
         else if q AND 0x80000000 \<noteq> 0 then
           map_option (\<lambda>z'. (\<not> b_decode z' < 0, z')) (slow_four un (z\<lparr>b_temp := q\<rparr>))
         else Some (True, z\<lparr>b_src := rest, b_decode := - 1, b_ch := 0, b_temp := q\<rparr>))"

lemma GET_INPUT_shorter: "GET_INPUT un r z s = Some z' \<Longrightarrow> length (b_src z') < length s"
  by (induction un r z s rule: GET_INPUT.induct) (auto split: if_splits)

lemma keep_src [simp]: "b_src (keep t z) = b_src z"
  by (simp add: keep_def)

lemma slow_four_shorter: "slow_four un z = Some z' \<Longrightarrow> length (b_src z') < length (b_src z)"
  by (auto simp: slow_four_def Let_def split: Option.bind_splits if_splits dest!: GET_INPUT_shorter)

lemma read_four_shorter:
  "read_four un a b c d rest z = Some (go, z') \<Longrightarrow> b_src z = a # b # c # d # rest \<Longrightarrow>
   length (b_src z') < length (b_src z)"
  by (auto simp: read_four_def Let_def split: if_splits dest!: slow_four_shorter)

text \<open>The first loop, while four characters are left.\<close>

function unescape_groups :: "int list \<Rightarrow> b64 \<Rightarrow> b64_flow option" where
  "unescape_groups un z =
     (case b_src z of
        a # b # c # d # rest \<Rightarrow>
          (case read_four un a b c d rest z of
             None \<Rightarrow> None
           | Some (go, z') \<Rightarrow>
               if \<not> go then Some (Next z')
               else (case write_three (b_temp z') (b_idx z') (b_dest z') of
                       None \<Rightarrow> Some (Done (- 1) (b_dest z'))
                     | Some dest \<Rightarrow>
                         unescape_groups un (z'\<lparr>b_dest := dest, b_idx := b_idx z' + 3,
                           b_temp := (if dest = None then b_temp z' else drop_bit 16 (b_temp z'))\<rparr>)))
      | _ \<Rightarrow> Some (Next z))"
  by pat_completeness auto
termination
  by (relation "measure (\<lambda>(un, z). length (b_src z))") (auto dest: read_four_shorter)

declare unescape_groups.simps [simp del]

text \<open>The clean-up loop, one character at a time.\<close>

fun clean_up :: "int list \<Rightarrow> bytes \<Rightarrow> b64 \<Rightarrow> b64_flow" where
  "clean_up un [] z = Next (z\<lparr>b_src := []\<rparr>)"
| "clean_up un (c # s) z =
     (let d = un ! unat c
      in if d < 0 then
           if ascii_isspace c then clean_up un s z
           else if c = 0 then Next (z\<lparr>b_src := s\<rparr>)
           else if is_pad c then Next (z\<lparr>b_src := c # s\<rparr>)
           else Done (- 1) (b_dest z)
         else
           let temp = push_bit 6 (b_temp z) OR word_of_int d
           in if b_state z + 1 = 4 then
                (case write_three temp (b_idx z) (b_dest z) of
                   None \<Rightarrow> Done (- 1) (b_dest z)
                 | Some dest \<Rightarrow> clean_up un s (z\<lparr>b_dest := dest, b_idx := b_idx z + 3, b_state := 0, b_temp := 0\<rparr>))
              else clean_up un s (z\<lparr>b_temp := temp, b_state := b_state z + 1\<rparr>))"

text \<open>Between the loops: a bad character ends the run, a pad character is read again.\<close>

definition after_groups :: "int list \<Rightarrow> b64 \<Rightarrow> b64_flow" where
  "after_groups un z =
     (if b_decode z < 0 \<and> b_ch z \<noteq> 0 \<and> \<not> is_pad (b_ch z) \<and> \<not> ascii_isspace (b_ch z) then Done (- 1) (b_dest z)
      else if is_pad (b_ch z) then Next (z\<lparr>b_src := b_ch z # b_src z\<rparr>)
      else clean_up un (b_src z) z)"

text \<open>The data left in \<open>temp\<close>: the bytes it gives and the number of pad characters that may follow.\<close>

definition leftover :: "b64 \<Rightarrow> ((nat \<times> bytes option) option \<times> int) option" where
  "leftover z =
     (if b_state z = 0 then Some (Some (b_idx z, b_dest z), 0)
      else if b_state z = 1 then Some (None, 0)
      else if b_state z = 2 then
        Some (case b_dest z of
            None \<Rightarrow> Some (b_idx z + 1, None)
          | Some d \<Rightarrow>
              if length d < b_idx z + 1 then None
              else Some (b_idx z + 1, Some (d[b_idx z := ucast (drop_bit 4 (b_temp z))])), 2)
      else if b_state z = 3 then
        Some (case b_dest z of
            None \<Rightarrow> Some (b_idx z + 2, None)
          | Some d \<Rightarrow>
              if length d < b_idx z + 2 then None
              else let temp = drop_bit 2 (b_temp z)
                   in Some (b_idx z + 2, Some (d[b_idx z + 1 := ucast temp, b_idx z := ucast (drop_bit 8 temp)])), 1)
      else None)"

text \<open>The number of pad characters in the remainder, up to a zero byte; only white space besides.\<close>

fun count_equals :: "bytes \<Rightarrow> int option" where
  "count_equals [] = Some 0"
| "count_equals (c # s) =
     (if c = 0 then Some 0
      else if is_pad c then map_option (\<lambda>n. n + 1) (count_equals s)
      else if \<not> ascii_isspace c then None
      else count_equals s)"

definition finish_unescape :: "b64 \<Rightarrow> (int \<times> bytes option) option" where
  "finish_unescape z =
     do {
       (left, expected_equals) \<leftarrow> leftover z;
       (case left of
          None \<Rightarrow> Some (- 1, b_dest z)
        | Some (destidx, dest) \<Rightarrow>
            (case count_equals (b_src z) of
               None \<Rightarrow> Some (- 1, dest)
             | Some equals \<Rightarrow> Some (if equals = 0 \<or> equals = expected_equals then int destidx else - 1, dest))) }"

definition finish_flow :: "b64_flow \<Rightarrow> (int \<times> bytes option) option" where
  "finish_flow fl = (case fl of Done r d \<Rightarrow> Some (r, d) | Next z \<Rightarrow> finish_unescape z)"

definition b64_start :: "bytes \<Rightarrow> bytes option \<Rightarrow> b64" where
  "b64_start src dest =
     \<lparr> b_src = src, b_ch = 0, b_decode = 0, b_state = 0, b_temp = 0, b_idx = 0, b_dest = dest \<rparr>"

definition Base64UnescapeInternal :: "bytes \<Rightarrow> bytes option \<Rightarrow> int list \<Rightarrow> (int \<times> bytes option) option" where
  "Base64UnescapeInternal src dest un =
     do { fl \<leftarrow> unescape_groups un (b64_start src dest);
          finish_flow (case fl of Done r d \<Rightarrow> Done r d | Next z \<Rightarrow> after_groups un z) }"

text \<open>
  The version for strings: the destination is resized, an empty one is passed as a null
  pointer; \<open>false\<close> leaves an empty string.
\<close>

definition unescape_to_string :: "bytes \<Rightarrow> int list \<Rightarrow> (bool \<times> bytes) option" where
  "unescape_to_string src un =
     (let dest_len = 3 * (length src div 4) + length src mod 4
      in do {
           (len, dest) \<leftarrow> Base64UnescapeInternal src (if dest_len = 0 then None else Some (replicate dest_len 0)) un;
           Some (if len < 0 then (False, [])
                 else (True, take (nat len) (case dest of None \<Rightarrow> [] | Some d \<Rightarrow> d))) })"

definition Base64Unescape :: "bytes \<Rightarrow> (bool \<times> bytes) option" where
  "Base64Unescape src = unescape_to_string src kUnBase64"

definition WebSafeBase64Unescape :: "bytes \<Rightarrow> (bool \<times> bytes) option" where
  "WebSafeBase64Unescape src = unescape_to_string src kUnWebSafeBase64"

section \<open>Encoding\<close>

definition CalculateBase64EscapedLen :: "int \<Rightarrow> bool \<Rightarrow> int" where
  "CalculateBase64EscapedLen input_len do_padding =
     (let len = c_div input_len 3 * 4
      in if c_mod input_len 3 = 0 then len
         else if c_mod input_len 3 = 1 then len + 2 + (if do_padding then 2 else 0)
         else len + 3 + (if do_padding then 1 else 0))"

text \<open>Four characters of the 24 bits \<open>n\<close>.\<close>

definition quad :: "bytes \<Rightarrow> u32 \<Rightarrow> bytes" where
  "quad base64 n =
     (let n1 = n AND 0x3FFFF; n2 = n1 AND 0xFFF; n3 = n2 AND 0x3F
      in [base64 ! unat (drop_bit 18 n), base64 ! unat (drop_bit 12 n1), base64 ! unat (drop_bit 6 n2), base64 ! unat n3])"

text \<open>The loop, while four bytes are left; it reads four and takes three.\<close>

fun escape_chunks :: "bytes \<Rightarrow> bytes \<Rightarrow> nat \<times> bytes \<Rightarrow> (bytes \<times> nat \<times> bytes) option" where
  "escape_chunks base64 (a # b # c # d # src) st =
     do { st1 \<leftarrow> put_all (quad base64 (drop_bit 8
            (push_bit 24 (ucast a) OR push_bit 16 (ucast b) OR push_bit 8 (ucast c) OR ucast d))) st;
          escape_chunks base64 (d # src) st1 }"
| "escape_chunks base64 src st = Some (src, st)"

text \<open>
  The tail of at most three bytes, with \<open>szdest\<close> bytes of the destination left. The result 0 for
  want of room is \<open>Inl\<close>, so that it is not taken for an empty output.
\<close>

definition escape_tail :: "bytes \<Rightarrow> bool \<Rightarrow> bytes \<Rightarrow> int \<Rightarrow> nat \<times> bytes \<Rightarrow> (bytes + nat \<times> bytes) option" where
  "escape_tail base64 do_padding src szdest st =
     (case src of
        [] \<Rightarrow> Some (Inr st)
      | [a] \<Rightarrow>
          if szdest - 2 < 0 then Some (Inl (snd st))
          else do {
            st1 \<leftarrow> put_all [base64 ! unat (drop_bit 2 (ucast a :: u32)), base64 ! unat (push_bit 4 (ucast a AND 0x3 :: u32))] st;
            if \<not> do_padding then Some (Inr st1)
            else if szdest - 2 - 2 < 0 then Some (Inl (snd st1))
            else map_option Inr (put_all [61, 61] st1) }
      | [a, b] \<Rightarrow>
          if szdest - 3 < 0 then Some (Inl (snd st))
          else let n = push_bit 8 (ucast a) OR ucast b :: u32; n1 = n AND 0x3FF; n2 = n1 AND 0x00F
               in do {
                 st1 \<leftarrow> put_all [base64 ! unat (drop_bit 10 n), base64 ! unat (drop_bit 4 n1), base64 ! unat (push_bit 2 n2)] st;
                 if \<not> do_padding then Some (Inr st1)
                 else if szdest - 3 - 1 < 0 then Some (Inl (snd st1))
                 else map_option Inr (put_all [61] st1) }
      | [a, b, c] \<Rightarrow>
          if szdest - 4 < 0 then Some (Inl (snd st))
          else map_option Inr (put_all (quad base64 (push_bit 16 (ucast a) + (push_bit 8 (ucast b) OR ucast c))) st)
      | _ \<Rightarrow> None)"

text \<open>The result: the length, 0 for a failure, and the destination. \<open>szsrc * 4\<close> is an \<open>int\<close>.\<close>

definition Base64EscapeInternal :: "bytes \<Rightarrow> bytes \<Rightarrow> bytes \<Rightarrow> bool \<Rightarrow> (nat \<times> bytes) option" where
  "Base64EscapeInternal src dest base64 do_padding =
     (if length src = 0 then Some (0, dest)
      else if 2 ^ 31 \<le> int (length src) * 4 \<or> 2 ^ 31 \<le> int (length dest) * 3 then None
      else if length dest * 3 < length src * 4 then Some (0, dest)
      else do {
        (rest, p, buf) \<leftarrow> escape_chunks base64 src (0, dest);
        r \<leftarrow> escape_tail base64 do_padding rest (int (length dest) - int p) (p, buf);
        Some (case r of Inl buf' \<Rightarrow> (0, buf') | Inr (q, buf') \<Rightarrow> (q, buf')) })"

definition escape_to_string :: "bytes \<Rightarrow> bool \<Rightarrow> bytes \<Rightarrow> bytes option" where
  "escape_to_string src do_padding base64 =
     do {
       let calc_escaped_size = CalculateBase64EscapedLen (int (length src)) do_padding;
       (escaped_len, dest) \<leftarrow> Base64EscapeInternal src (replicate (nat calc_escaped_size) 0) base64 do_padding;
       if calc_escaped_size \<noteq> int escaped_len then None else Some (take escaped_len dest) }"

definition Base64Escape :: "bytes \<Rightarrow> bytes option" where
  "Base64Escape src = escape_to_string src True kBase64Chars"

definition WebSafeBase64Escape :: "bytes \<Rightarrow> bytes option" where
  "WebSafeBase64Escape src = escape_to_string src False kWebSafeBase64Chars"

definition WebSafeBase64EscapeWithPadding :: "bytes \<Rightarrow> bytes option" where
  "WebSafeBase64EscapeWithPadding src = escape_to_string src True kWebSafeBase64Chars"

section \<open>One character at a time\<close>

definition b64_table :: "int list \<Rightarrow> bool" where
  "b64_table un \<longleftrightarrow> length un = 256 \<and> (\<forall>x \<in> set un. x = - 1 \<or> 0 \<le> x \<and> x < 64) \<and> un ! 61 = - 1 \<and> un ! 46 = - 1"

lemma tables_ok: "b64_table kUnBase64" "b64_table kUnWebSafeBase64"
  by (simp_all add: b64_table_def kUnBase64_def kUnWebSafeBase64_def)

lemma table_code: "b64_table un \<Longrightarrow> un ! unat c = - 1 \<or> 0 \<le> un ! unat c \<and> un ! unat c < 64" for c :: byte
proof -
  have "unat c < 256" using unsigned_less [of c] by simp
  then show "b64_table un \<Longrightarrow> ?thesis" by (metis b64_table_def nth_mem)
qed

lemma table_pad: "b64_table un \<Longrightarrow> is_pad c \<Longrightarrow> un ! unat c < 0"
  by (auto simp: b64_table_def is_pad_def)

lemma ucast_low: "k + 8 \<le> m \<Longrightarrow> take_bit m t1 = take_bit m t2 \<Longrightarrow> (ucast (drop_bit k t1) :: byte) = ucast (drop_bit k t2)"
  for t1 t2 :: u32
proof (rule bit_word_eqI)
  fix n assume k: "k + 8 \<le> m" and t: "take_bit m t1 = take_bit m t2" and n: "n < LENGTH(8)"
  have "bit (take_bit m t1) (k + n) = bit (take_bit m t2) (k + n)" using t by simp
  then have "bit t1 (k + n) = bit t2 (k + n)" using k n by (simp add: bit_take_bit_iff)
  then show "bit (ucast (drop_bit k t1) :: byte) n = bit (ucast (drop_bit k t2) :: byte) n"
    using n by (simp add: bit_simps)
qed

lemma write_three_low: "take_bit 24 t1 = take_bit 24 t2 \<Longrightarrow> write_three t1 i d = write_three t2 i d"
  using ucast_low [of 0 24 t1 t2] ucast_low [of 8 24 t1 t2] ucast_low [of 16 24 t1 t2]
  by (simp add: write_three_def split: option.split)

lemma take_bit_grow:
  "take_bit k t1 = take_bit k t2 \<Longrightarrow>
   take_bit (6 + k) (push_bit 6 t1 OR d) = take_bit (6 + k) (push_bit 6 t2 OR d)" for t1 t2 d :: u32
  by (simp add: take_bit_push_bit)

text \<open>
  Two states of the decoder that differ only in what it no longer looks at: the last character,
  the bits of \<open>temp\<close> above the data characters it holds, all of \<open>temp\<close> where nothing is written.
\<close>

definition alike :: "b64 \<Rightarrow> b64 \<Rightarrow> bool" where
  "alike z1 z2 \<longleftrightarrow> b_state z1 = b_state z2 \<and> b_state z1 < 4 \<and> b_idx z1 = b_idx z2 \<and> b_dest z1 = b_dest z2 \<and>
     (b_dest z1 = None \<or> take_bit (6 * b_state z1) (b_temp z1) = take_bit (6 * b_state z1) (b_temp z2))"

lemma write_three_None: "write_three t i None = Some None"
  by (simp add: write_three_def)

lemma finish_alike: "alike z1 z2 \<Longrightarrow> b_src z1 = b_src z2 \<Longrightarrow> finish_unescape z1 = finish_unescape z2"
proof -
  assume a: "alike z1 z2" "b_src z1 = b_src z2"
  then consider "b_state z1 = 0" | "b_state z1 = 1" | "b_state z1 = 2" | "b_state z1 = 3"
    unfolding alike_def by linarith
  then have "leftover z1 = leftover z2"
  proof cases
    case 3
    then show ?thesis using a ucast_low [of 4 12 "b_temp z1" "b_temp z2"]
      by (auto simp: leftover_def alike_def split: option.split)
  next
    case 4
    then show ?thesis
      using a ucast_low [of 2 18 "b_temp z1" "b_temp z2"] ucast_low [of 10 18 "b_temp z1" "b_temp z2"]
      by (auto simp: leftover_def alike_def drop_bit_drop_bit Let_def split: option.split)
  qed (use a in \<open>auto simp: leftover_def alike_def\<close>)
  moreover have "b_dest z1 = b_dest z2" using a(1) by (simp add: alike_def)
  ultimately show ?thesis using a(2) by (simp only: finish_unescape_def)
qed

lemma finish_flow_simps [simp]:
  "finish_flow (Done r d) = Some (r, d)" "finish_flow (Next z) = finish_unescape z"
  by (simp_all add: finish_flow_def)

lemma alike_src [simp]: "alike (z1\<lparr>b_src := x\<rparr>) (z2\<lparr>b_src := y\<rparr>) = alike z1 z2"
  by (simp add: alike_def)

lemma clean_up_alike: "alike z1 z2 \<Longrightarrow> finish_flow (clean_up un s z1) = finish_flow (clean_up un s z2)"
proof (induction s arbitrary: z1 z2)
  case Nil
  then have "finish_unescape (z1\<lparr>b_src := []\<rparr>) = finish_unescape (z2\<lparr>b_src := []\<rparr>)"
    by (intro finish_alike) simp_all
  then show ?case by simp
next
  case (Cons c s)
  note a = Cons.prems
  show ?case
  proof (cases "un ! unat c < 0")
    case True
    have e: "finish_unescape (z1\<lparr>b_src := s\<rparr>) = finish_unescape (z2\<lparr>b_src := s\<rparr>)"
        "finish_unescape (z1\<lparr>b_src := c # s\<rparr>) = finish_unescape (z2\<lparr>b_src := c # s\<rparr>)"
      using a by (intro finish_alike; simp)+
    have d: "b_dest z1 = b_dest z2" using a by (simp add: alike_def)
    show ?thesis
      using True Cons.IH [OF a] e d by (simp add: Let_def)
  next
    case False
    let ?d = "word_of_int (un ! unat c) :: u32"
    let ?t1 = "push_bit 6 (b_temp z1) OR ?d" let ?t2 = "push_bit 6 (b_temp z2) OR ?d"
    have t: "b_dest z1 = None \<or> take_bit (6 + 6 * b_state z1) ?t1 = take_bit (6 + 6 * b_state z1) ?t2"
      using a take_bit_grow [of "6 * b_state z1" "b_temp z1" "b_temp z2" ?d] unfolding alike_def by blast
    show ?thesis
    proof (cases "b_state z1 = 3")
      case True
      have w: "write_three ?t1 i (b_dest z1) = write_three ?t2 i (b_dest z1)" for i
        using t True write_three_low [of ?t1 ?t2] by (auto simp: write_three_None)
      show ?thesis
      proof (cases "write_three ?t2 (b_idx z1) (b_dest z1)")
        case None
        with False True a w show ?thesis by (simp add: alike_def Let_def)
      next
        case (Some dest)
        with False True a w Cons.IH [of "z1\<lparr>b_dest := dest, b_idx := b_idx z1 + 3, b_state := 0, b_temp := 0\<rparr>"
            "z2\<lparr>b_dest := dest, b_idx := b_idx z2 + 3, b_state := 0, b_temp := 0\<rparr>"]
        show ?thesis by (simp add: alike_def Let_def)
      qed
    next
      case no: False
      with False a t Cons.IH [of "z1\<lparr>b_temp := ?t1, b_state := b_state z1 + 1\<rparr>" "z2\<lparr>b_temp := ?t2, b_state := b_state z2 + 1\<rparr>"]
      show ?thesis by (simp add: alike_def Let_def)
    qed
  qed
qed

section \<open>The fast loop does what the slow one does\<close>

lemma GET_INPUT_some: "1 \<le> r \<Longrightarrow> s \<noteq> [] \<Longrightarrow> \<exists>z'. GET_INPUT un r z s = Some z'"
proof (induction un r z s rule: GET_INPUT.induct)
  case (2 un r z c s)
  then show ?case by (cases s) auto
qed simp

text \<open>The white space it skips is what the clean-up loop skips.\<close>

lemma GET_INPUT_gives:
  "GET_INPUT un r z s = Some z' \<Longrightarrow>
   \<exists>c s'. z' = z\<lparr>b_src := s', b_ch := c, b_decode := un ! unat c, b_state := (if un ! unat c < 0 then 4 - r else b_state z)\<rparr> \<and>
     c \<in> set s \<and> set s' \<subseteq> set s \<and> (\<forall>x. clean_up un s x = clean_up un (c # s') x) \<and>
     (r \<le> length s \<longrightarrow> \<not> un ! unat c < 0 \<longrightarrow> r \<le> Suc (length s'))"
proof (induction un r z s rule: GET_INPUT.induct)
  case (2 un r z c s)
  show ?case
  proof (cases "un ! unat c < 0 \<and> ascii_isspace c \<and> r \<le> length s")
    case True
    with 2 obtain c' s' where
      "z' = z\<lparr>b_src := s', b_ch := c', b_decode := un ! unat c', b_state := (if un ! unat c' < 0 then 4 - r else b_state z)\<rparr>"
      "c' \<in> set s" "set s' \<subseteq> set s" "\<forall>x. clean_up un s x = clean_up un (c' # s') x"
      "r \<le> length s \<longrightarrow> \<not> un ! unat c' < 0 \<longrightarrow> r \<le> Suc (length s')" by auto
    moreover have "clean_up un (c # s) x = clean_up un s x" for x using True by (simp add: Let_def)
    ultimately show ?thesis using True by (intro exI [of _ c'] exI [of _ s']) (auto simp del: clean_up.simps)
  next
    case False
    with "2.prems" show ?thesis by (intro exI [of _ c] exI [of _ s]) (auto simp del: clean_up.simps split: if_splits)
  qed
qed simp

lemma clean_up_code:
  "\<not> un ! unat c < 0 \<Longrightarrow> b_state x < 3 \<Longrightarrow>
   clean_up un (c # s) x = clean_up un s (x\<lparr>b_temp := push_bit 6 (b_temp x) OR word_of_int (un ! unat c), b_state := b_state x + 1\<rparr>)"
  by (simp add: Let_def)

lemma clean_up_fourth:
  "\<not> un ! unat c < 0 \<Longrightarrow> b_state x = 3 \<Longrightarrow>
   clean_up un (c # s) x =
     (case write_three (push_bit 6 (b_temp x) OR word_of_int (un ! unat c)) (b_idx x) (b_dest x) of
        None \<Rightarrow> Done (- 1) (b_dest x)
      | Some dest \<Rightarrow> clean_up un s (x\<lparr>b_dest := dest, b_idx := b_idx x + 3, b_state := 0, b_temp := 0\<rparr>))"
  by (simp add: Let_def)

text \<open>What the clean-up loop gives, with \<open>k\<close> characters read.\<close>

definition clean_from :: "int list \<Rightarrow> nat \<Rightarrow> b64 \<Rightarrow> (int \<times> bytes option) option" where
  "clean_from un k z = finish_flow (clean_up un (b_src z) (z\<lparr>b_state := k\<rparr>))"

text \<open>A bad character: reading goes on after it as the clean-up loop would have.\<close>

lemma after_groups_bad:
  assumes "b64_table un" "b_decode z = un ! unat (b_ch z)" "b_decode z < 0" "b_ch z \<noteq> 0"
  shows "finish_flow (after_groups un z) = finish_flow (clean_up un (b_ch z # b_src z) z)"
  using assms by (auto simp: after_groups_def Let_def is_pad_def ascii_isspace_def)

lemma GET_INPUT_step:
  assumes un: "b64_table un" and z: "0 \<notin> set (b_src z)" "b_state z = 0" and k: "k < 4" "4 - k \<le> length (b_src z)"
  obtains z' where "GET_INPUT un (4 - k) z (b_src z) = Some z'"
    and "b_decode z' < 0 \<Longrightarrow> finish_flow (after_groups un z') = clean_from un k z"
    and "\<not> b_decode z' < 0 \<Longrightarrow> b_state z' = 0 \<and> b_idx z' = b_idx z \<and> b_dest z' = b_dest z \<and> b_temp z' = b_temp z \<and>
      0 \<notin> set (b_src z') \<and> 4 - k \<le> Suc (length (b_src z')) \<and> \<not> is_pad (b_ch z') \<and>
      b_decode z' = un ! unat (b_ch z') \<and>
      clean_from un k z = finish_flow (clean_up un (b_ch z' # b_src z') (z\<lparr>b_state := k\<rparr>))"
proof -
  have "b_src z \<noteq> []" "1 \<le> 4 - k" using k by auto
  then obtain z' where g: "GET_INPUT un (4 - k) z (b_src z) = Some z'" using GET_INPUT_some [of "4 - k" "b_src z" un z] by auto
  from GET_INPUT_gives [OF this] obtain c s' where
    z': "z' = z\<lparr>b_src := s', b_ch := c, b_decode := un ! unat c, b_state := (if un ! unat c < 0 then 4 - (4 - k) else b_state z)\<rparr>"
    and c: "c \<in> set (b_src z)" "set s' \<subseteq> set (b_src z)" and eq: "\<forall>x. clean_up un (b_src z) x = clean_up un (c # s') x"
    and len: "\<not> un ! unat c < 0 \<longrightarrow> 4 - k \<le> Suc (length s')" using k by auto
  have bad: "finish_flow (after_groups un z') = clean_from un k z" if "b_decode z' < 0"
  proof -
    have "alike z' (z\<lparr>b_state := k\<rparr>)" using that z' k(1) by (simp add: alike_def)
    then have "finish_flow (clean_up un (c # s') z') = finish_flow (clean_up un (c # s') (z\<lparr>b_state := k\<rparr>))"
      by (rule clean_up_alike)
    moreover have "c \<noteq> 0" using c z by metis
    ultimately show ?thesis using after_groups_bad [OF un, of z'] that z' eq by (simp add: clean_from_def del: clean_up.simps)
  qed
  have "\<not> is_pad c" if "\<not> un ! unat c < 0" using that table_pad [OF un] by auto
  then show thesis using g bad z' z c eq len by (intro that [of z']) (auto simp: clean_from_def simp del: clean_up.simps)
qed

lemma keep_fields [simp]:
  "b_idx (keep t z) = b_idx z" "b_dest (keep t z) = b_dest z" "b_state (keep t z) = b_state z"
  by (simp_all add: keep_def)

text \<open>A good character among the first three is kept in \<open>temp\<close>.\<close>

lemma clean_from_keep:
  assumes un: "b64_table un" and k: "k < 3" and z': "\<not> b_decode z' < 0" "b_decode z' = un ! unat (b_ch z')"
    "b_idx z' = b_idx z" "b_dest z' = b_dest z" "b_temp z' = b_temp z"
    and t: "t = (if k = 0 then 0 else push_bit 6 (b_temp z'))"
  shows "finish_flow (clean_up un (b_ch z' # b_src z') (z\<lparr>b_state := k\<rparr>)) = clean_from un (Suc k) (keep t z')"
proof -
  let ?d = "word_of_int (un ! unat (b_ch z')) :: u32"
  have "take_bit 6 (push_bit 6 (b_temp z) OR ?d) = take_bit 6 ?d" by (simp add: take_bit_push_bit)
  then have "alike (z\<lparr>b_temp := push_bit 6 (b_temp z) OR ?d, b_state := Suc k\<rparr>) (keep t z'\<lparr>b_state := Suc k\<rparr>)"
    using k z' t by (auto simp: alike_def keep_def)
  then show ?thesis
    using clean_up_code [of un "b_ch z'" "z\<lparr>b_state := k\<rparr>" "b_src z'"] z' k clean_up_alike
    by (simp add: clean_from_def del: clean_up.simps)
qed

text \<open>The three bytes written, then the clean-up loop.\<close>

definition store_and_clean :: "int list \<Rightarrow> b64 \<Rightarrow> (int \<times> bytes option) option" where
  "store_and_clean un z =
     (case write_three (b_temp z) (b_idx z) (b_dest z) of
        None \<Rightarrow> Some (- 1, b_dest z)
      | Some dest \<Rightarrow> finish_flow (clean_up un (b_src z) (z\<lparr>b_dest := dest, b_idx := b_idx z + 3, b_state := 0, b_temp := 0\<rparr>)))"

lemma clean_from_fourth:
  assumes z': "\<not> b_decode z' < 0" "b_decode z' = un ! unat (b_ch z')"
    "b_idx z' = b_idx z" "b_dest z' = b_dest z" "b_temp z' = b_temp z"
  shows "finish_flow (clean_up un (b_ch z' # b_src z') (z\<lparr>b_state := 3\<rparr>)) = store_and_clean un (keep (push_bit 6 (b_temp z')) z')"
proof -
  let ?t = "push_bit 6 (b_temp z) OR word_of_int (un ! unat (b_ch z')) :: u32"
  let ?k = "keep (push_bit 6 (b_temp z')) z'"
  have w: "write_three ?t (b_idx z) (b_dest z) = write_three (b_temp ?k) (b_idx z) (b_dest z)"
    using z' by (auto simp: keep_def write_three_None)
  show ?thesis
  proof (cases "write_three ?t (b_idx z) (b_dest z)")
    case None
    then show ?thesis
      using clean_up_fourth [of un "b_ch z'" "z\<lparr>b_state := 3\<rparr>" "b_src z'"] z' w
      by (simp add: store_and_clean_def del: clean_up.simps)
  next
    case (Some dest)
    have "alike (z\<lparr>b_dest := dest, b_idx := b_idx z + 3, b_state := 0, b_temp := 0\<rparr>)
        (?k\<lparr>b_dest := dest, b_idx := b_idx z + 3, b_state := 0, b_temp := 0\<rparr>)" by (simp add: alike_def)
    from clean_up_alike [OF this] Some show ?thesis
      using clean_up_fourth [of un "b_ch z'" "z\<lparr>b_state := 3\<rparr>" "b_src z'"] z' w
      by (simp add: store_and_clean_def del: clean_up.simps)
  qed
qed

text \<open>Reading one of the first three characters: a bad one ends, a good one is kept.\<close>

definition kept :: "nat \<Rightarrow> b64 \<Rightarrow> b64" where
  "kept k z = keep (if k = 0 then 0 else push_bit 6 (b_temp z)) z"

lemma GET_INPUT_keep:
  assumes un: "b64_table un" and z: "0 \<notin> set (b_src z)" "b_state z = 0" and k: "k < 3" "4 - k \<le> length (b_src z)"
  obtains z' where "GET_INPUT un (4 - k) z (b_src z) = Some z'"
    and "b_decode z' < 0 \<Longrightarrow> finish_flow (after_groups un z') = clean_from un k z"
    and "\<not> b_decode z' < 0 \<Longrightarrow> b_state (kept k z') = 0 \<and> 0 \<notin> set (b_src (kept k z')) \<and>
      4 - Suc k \<le> length (b_src (kept k z')) \<and> clean_from un k z = clean_from un (Suc k) (kept k z')"
proof -
  from k(1) have "k < 4" by simp
  from GET_INPUT_step [OF un z this k(2)] obtain z' where g: "GET_INPUT un (4 - k) z (b_src z) = Some z'"
    and b: "b_decode z' < 0 \<Longrightarrow> finish_flow (after_groups un z') = clean_from un k z"
    and r: "\<not> b_decode z' < 0 \<Longrightarrow> b_state z' = 0 \<and> b_idx z' = b_idx z \<and> b_dest z' = b_dest z \<and> b_temp z' = b_temp z \<and>
      0 \<notin> set (b_src z') \<and> 4 - k \<le> Suc (length (b_src z')) \<and> \<not> is_pad (b_ch z') \<and> b_decode z' = un ! unat (b_ch z') \<and>
      clean_from un k z = finish_flow (clean_up un (b_ch z' # b_src z') (z\<lparr>b_state := k\<rparr>))" by metis
  have "clean_from un k z = clean_from un (Suc k) (kept k z')" if "\<not> b_decode z' < 0"
    using r [OF that] clean_from_keep [OF un k(1) that, of z] by (simp add: kept_def del: clean_up.simps)
  with g b r show thesis by (intro that [of z']) (auto simp: kept_def)
qed

lemma slow_four_kept:
  "slow_four un z =
     do { z1 \<leftarrow> GET_INPUT un 4 z (b_src z);
          if b_decode z1 < 0 then Some z1 else do {
          z2 \<leftarrow> GET_INPUT un 3 (kept 0 z1) (b_src (kept 0 z1));
          if b_decode z2 < 0 then Some z2 else do {
          z3 \<leftarrow> GET_INPUT un 2 (kept 1 z2) (b_src (kept 1 z2));
          if b_decode z3 < 0 then Some z3 else do {
          z4 \<leftarrow> GET_INPUT un 1 (kept 2 z3) (b_src (kept 2 z3));
          Some (if b_decode z4 < 0 then z4 else keep (push_bit 6 (b_temp z4)) z4) } } } }"
proof -
  have k: "kept 0 x = keep 0 x" "kept 1 x = keep (push_bit 6 (b_temp x)) x"
      "kept 2 x = keep (push_bit 6 (b_temp x)) x" for x
    by (simp_all add: kept_def)
  show ?thesis unfolding slow_four_def k Let_def ..
qed

lemma slow_four_last:
  assumes un: "b64_table un" and z: "0 \<notin> set (b_src z)" "b_state z = 0" "4 - 3 \<le> length (b_src z)"
  shows "\<exists>z4 z'. GET_INPUT un 1 z (b_src z) = Some z4 \<and>
    z' = (if b_decode z4 < 0 then z4 else keep (push_bit 6 (b_temp z4)) z4) \<and>
    (if b_decode z' < 0 then finish_flow (after_groups un z') = clean_from un 3 z
     else b_state z' = 0 \<and> 0 \<notin> set (b_src z') \<and> \<not> is_pad (b_ch z') \<and> clean_from un 3 z = store_and_clean un z')"
proof -
  have "(3 :: nat) < 4" by simp
  from GET_INPUT_step [OF un z(1,2) this z(3)] obtain z4 where g: "GET_INPUT un 1 z (b_src z) = Some z4"
    and b: "b_decode z4 < 0 \<Longrightarrow> finish_flow (after_groups un z4) = clean_from un 3 z"
    and r: "\<not> b_decode z4 < 0 \<Longrightarrow> b_state z4 = 0 \<and> b_idx z4 = b_idx z \<and> b_dest z4 = b_dest z \<and> b_temp z4 = b_temp z \<and>
      0 \<notin> set (b_src z4) \<and> \<not> is_pad (b_ch z4) \<and> b_decode z4 = un ! unat (b_ch z4) \<and>
      clean_from un 3 z = finish_flow (clean_up un (b_ch z4 # b_src z4) (z\<lparr>b_state := 3\<rparr>))" by (auto simp del: clean_up.simps)
  show ?thesis
  proof (cases "b_decode z4 < 0")
    case False
    have "b_decode (keep t z4) = b_decode z4" "b_ch (keep t z4) = b_ch z4" for t by (simp_all add: keep_def)
    with False g r [OF False] clean_from_fourth [OF False, of un z] show ?thesis by (simp del: clean_up.simps)
  qed (use g b in simp)
qed

lemma slow_four_clean:
  assumes un: "b64_table un" and z: "0 \<notin> set (b_src z)" "b_state z = 0" "4 \<le> length (b_src z)"
  shows "\<exists>z'. slow_four un z = Some z' \<and>
    (if b_decode z' < 0 then finish_flow (after_groups un z') = clean_from un 0 z
     else b_state z' = 0 \<and> 0 \<notin> set (b_src z') \<and> \<not> is_pad (b_ch z') \<and> clean_from un 0 z = store_and_clean un z')"
proof -
  have "4 - 0 \<le> length (b_src z)" using z(3) by simp
  then obtain z1 where g1: "GET_INPUT un (4 - 0) z (b_src z) = Some z1"
    and b1: "b_decode z1 < 0 \<Longrightarrow> finish_flow (after_groups un z1) = clean_from un 0 z"
    and r1: "\<not> b_decode z1 < 0 \<Longrightarrow> b_state (kept 0 z1) = 0 \<and> 0 \<notin> set (b_src (kept 0 z1)) \<and>
      4 - Suc 0 \<le> length (b_src (kept 0 z1)) \<and> clean_from un 0 z = clean_from un (Suc 0) (kept 0 z1)"
    using GET_INPUT_keep [OF un z(1,2), of 0] by auto
  show ?thesis
  proof (cases "b_decode z1 < 0")
    case True
    with g1 b1 show ?thesis by (intro exI [of _ z1]) (simp add: slow_four_kept)
  next
    case n1: False
    obtain z2 where g2: "GET_INPUT un (4 - Suc 0) (kept 0 z1) (b_src (kept 0 z1)) = Some z2"
      and b2: "b_decode z2 < 0 \<Longrightarrow> finish_flow (after_groups un z2) = clean_from un (Suc 0) (kept 0 z1)"
      and r2: "\<not> b_decode z2 < 0 \<Longrightarrow> b_state (kept 1 z2) = 0 \<and> 0 \<notin> set (b_src (kept 1 z2)) \<and>
        4 - 2 \<le> length (b_src (kept 1 z2)) \<and> clean_from un (Suc 0) (kept 0 z1) = clean_from un 2 (kept 1 z2)"
      using GET_INPUT_keep [OF un, of "kept 0 z1" "Suc 0"] r1 [OF n1] by (auto simp: numeral_2_eq_2)
    show ?thesis
    proof (cases "b_decode z2 < 0")
      case True
      with n1 g1 g2 b2 r1 show ?thesis by (intro exI [of _ z2]) (simp add: slow_four_kept)
    next
      case n2: False
      obtain z3 where g3: "GET_INPUT un (4 - 2) (kept 1 z2) (b_src (kept 1 z2)) = Some z3"
        and b3: "b_decode z3 < 0 \<Longrightarrow> finish_flow (after_groups un z3) = clean_from un 2 (kept 1 z2)"
        and r3: "\<not> b_decode z3 < 0 \<Longrightarrow> b_state (kept 2 z3) = 0 \<and> 0 \<notin> set (b_src (kept 2 z3)) \<and>
          4 - 3 \<le> length (b_src (kept 2 z3)) \<and> clean_from un 2 (kept 1 z2) = clean_from un 3 (kept 2 z3)"
        using GET_INPUT_keep [OF un, of "kept 1 z2" 2] r2 [OF n2] by (auto simp: numeral_3_eq_3 numeral_2_eq_2)
      show ?thesis
      proof (cases "b_decode z3 < 0")
        case True
        with n1 n2 g1 g2 g3 b3 r1 r2 show ?thesis by (intro exI [of _ z3]) (simp add: slow_four_kept)
      next
        case n3: False
        have f3: "clean_from un 0 z = clean_from un 3 (kept 2 z3)" using n1 n2 n3 r1 r2 r3 by simp
        have "0 \<notin> set (b_src (kept 2 z3))" "b_state (kept 2 z3) = 0" "4 - 3 \<le> length (b_src (kept 2 z3))"
          using r3 [OF n3] by blast+
        from slow_four_last [OF un this] obtain z4 z' where g4: "GET_INPUT un 1 (kept 2 z3) (b_src (kept 2 z3)) = Some z4"
          and z4: "z' = (if b_decode z4 < 0 then z4 else keep (push_bit 6 (b_temp z4)) z4)"
          and e: "if b_decode z' < 0 then finish_flow (after_groups un z') = clean_from un 3 (kept 2 z3)
            else b_state z' = 0 \<and> 0 \<notin> set (b_src z') \<and> \<not> is_pad (b_ch z') \<and>
              clean_from un 3 (kept 2 z3) = store_and_clean un z'" by blast
        have "slow_four un z = Some z'" using n1 n2 n3 g1 g2 g3 g4 z4 by (simp add: slow_four_kept)
        with e f3 show ?thesis by (intro exI [of _ z']) simp
      qed
    qed
  qed
qed

text \<open>The test of the high bit: a character that is no data character has all bits of its code set.\<close>

lemma fast_four_good:
  assumes un: "b64_table un" and q: "fast_four un a b c d AND 0x80000000 = 0"
  shows "\<not> un ! unat a < 0" "\<not> un ! unat b < 0" "\<not> un ! unat c < 0" "\<not> un ! unat d < 0"
proof -
  have "\<not> bit (fast_four un a b c d) 31"
    using q and_exp_eq_0_iff_not_bit [of "fast_four un a b c d" 31] by simp
  then have *: "\<not> bit (push_bit 18 (word_of_int (un ! unat a)) :: u32) 31" "\<not> bit (push_bit 12 (word_of_int (un ! unat b)) :: u32) 31"
      "\<not> bit (push_bit 6 (word_of_int (un ! unat c)) :: u32) 31" "\<not> bit (word_of_int (un ! unat d) :: u32) 31"
    by (simp_all add: fast_four_def bit_or_iff)
  have "un ! unat x < 0 \<longleftrightarrow> un ! unat x = - 1" for x :: byte using table_code [OF un, of x] by auto
  with * show "\<not> un ! unat a < 0" "\<not> un ! unat b < 0" "\<not> un ! unat c < 0" "\<not> un ! unat d < 0"
    by (auto simp: bit_push_bit_iff)
qed

lemma fast_four_clean:
  assumes "\<not> un ! unat a < 0" "\<not> un ! unat b < 0" "\<not> un ! unat c < 0" "\<not> un ! unat d < 0"
    and z: "b_src z = a # b # c # d # rest" "b_state z = 0"
  shows "clean_from un 0 z =
    store_and_clean un (z\<lparr>b_src := rest, b_decode := - 1, b_ch := 0, b_temp := fast_four un a b c d\<rparr>)"
proof -
  let ?A = "word_of_int (un ! unat a) :: u32" let ?B = "word_of_int (un ! unat b) :: u32"
  let ?C = "word_of_int (un ! unat c) :: u32" let ?D = "word_of_int (un ! unat d) :: u32"
  let ?t = "push_bit 6 (push_bit 6 (push_bit 6 (push_bit 6 (b_temp z) OR ?A) OR ?B) OR ?C) OR ?D"
  let ?z3 = "z\<lparr>b_temp := push_bit 6 (push_bit 6 (push_bit 6 (b_temp z) OR ?A) OR ?B) OR ?C, b_state := 3\<rparr>"
  let ?f = "z\<lparr>b_src := rest, b_decode := - 1, b_ch := 0, b_temp := fast_four un a b c d\<rparr>"
  have "take_bit 24 ?t = take_bit 24 (fast_four un a b c d)"
    by (simp add: fast_four_def push_bit_or push_bit_push_bit take_bit_push_bit or.assoc)
  then have w: "write_three ?t (b_idx z) (b_dest z) = write_three (fast_four un a b c d) (b_idx z) (b_dest z)"
    by (rule write_three_low)
  have "clean_from un 0 z = finish_flow (clean_up un (d # rest) ?z3)"
    using assms by (simp add: clean_from_def clean_up_code numeral_3_eq_3 numeral_2_eq_2 del: clean_up.simps)
  also have "\<dots> = store_and_clean un ?f"
  proof (cases "write_three (fast_four un a b c d) (b_idx z) (b_dest z)")
    case None
    with w show ?thesis using assms by (simp add: clean_up_fourth store_and_clean_def del: clean_up.simps)
  next
    case (Some dest)
    with w have w': "write_three ?t (b_idx z) (b_dest z) = Some dest" by simp
    have "alike (?z3\<lparr>b_dest := dest, b_idx := b_idx z + 3, b_state := 0, b_temp := 0\<rparr>)
        (?f\<lparr>b_dest := dest, b_idx := b_idx z + 3, b_state := 0, b_temp := 0\<rparr>)" by (simp add: alike_def)
    from clean_up_alike [OF this] show ?thesis
      using assms Some by (simp add: clean_up_fourth store_and_clean_def w' del: clean_up.simps push_bit_or)
  qed
  finally show ?thesis .
qed

text \<open>A state in which no bad character has been read.\<close>

definition calm :: "b64 \<Rightarrow> bool" where
  "calm z \<longleftrightarrow> b_ch z = 0 \<or> \<not> b_decode z < 0 \<and> \<not> is_pad (b_ch z)"

lemma calm_after: "calm z \<Longrightarrow> b_state z = 0 \<Longrightarrow> finish_flow (after_groups un z) = clean_from un 0 z"
proof -
  assume c: "calm z" "b_state z = 0"
  then have "after_groups un z = clean_up un (b_src z) z" by (auto simp: calm_def after_groups_def is_pad_def)
  moreover have "alike z (z\<lparr>b_state := 0\<rparr>)" using c by (simp add: alike_def)
  ultimately show ?thesis using clean_up_alike by (simp add: clean_from_def)
qed

lemma read_four_clean:
  assumes un: "b64_table un" and z: "0 \<notin> set (b_src z)" "b_state z = 0" and src: "b_src z = a # b # c # d # rest"
  shows "\<exists>go z'. read_four un a b c d rest z = Some (go, z') \<and>
    (if go then b_state z' = 0 \<and> 0 \<notin> set (b_src z') \<and> calm z' \<and> clean_from un 0 z = store_and_clean un z'
     else finish_flow (after_groups un z') = clean_from un 0 z)"
proof (cases "fast_four un a b c d AND 0x80000000 = 0")
  case True
  have "read_four un a b c d rest z =
      Some (True, z\<lparr>b_src := rest, b_decode := - 1, b_ch := 0, b_temp := fast_four un a b c d\<rparr>)"
    using True z src by (auto simp: read_four_def Let_def)
  with fast_four_clean [OF fast_four_good [OF un True] src z(2)] z src show ?thesis
    by (auto simp: calm_def)
next
  case False
  let ?y = "z\<lparr>b_temp := fast_four un a b c d\<rparr>"
  have "alike (z\<lparr>b_state := 0\<rparr>) (?y\<lparr>b_state := 0\<rparr>)" by (simp add: alike_def)
  then have y: "clean_from un 0 ?y = clean_from un 0 z" using clean_up_alike by (simp add: clean_from_def)
  have "\<exists>z'. slow_four un ?y = Some z' \<and>
    (if b_decode z' < 0 then finish_flow (after_groups un z') = clean_from un 0 ?y
     else b_state z' = 0 \<and> 0 \<notin> set (b_src z') \<and> \<not> is_pad (b_ch z') \<and> clean_from un 0 ?y = store_and_clean un z')"
    using z src by (intro slow_four_clean [OF un]) simp_all
  then obtain z' where "slow_four un ?y = Some z'"
    "if b_decode z' < 0 then finish_flow (after_groups un z') = clean_from un 0 z
     else b_state z' = 0 \<and> 0 \<notin> set (b_src z') \<and> \<not> is_pad (b_ch z') \<and> clean_from un 0 z = store_and_clean un z'"
    unfolding y by blast
  moreover have "a \<noteq> 0" "b \<noteq> 0" "c \<noteq> 0" using z src by auto
  ultimately show ?thesis using False by (auto simp: read_four_def Let_def calm_def split: if_splits)
qed

text \<open>The first loop and what follows it give what the clean-up loop alone gives.\<close>

lemma groups_clean:
  "b64_table un \<Longrightarrow> 0 \<notin> set (b_src z) \<Longrightarrow> b_state z = 0 \<Longrightarrow> calm z \<Longrightarrow>
   \<exists>fl. unescape_groups un z = Some fl \<and>
     finish_flow (case fl of Done r d \<Rightarrow> Done r d | Next z' \<Rightarrow> after_groups un z') = clean_from un 0 z"
proof (induction un z rule: unescape_groups.induct)
  case (1 un z)
  show ?case
  proof (cases "\<exists>a b c d rest. b_src z = a # b # c # d # rest")
    case False
    then have "unescape_groups un z = Some (Next z)"
      by (subst unescape_groups.simps) (simp split: list.split)
    with 1(5,4) calm_after show ?thesis by simp
  next
    case True
    then obtain a b c d rest where src: "b_src z = a # b # c # d # rest" by blast
    from read_four_clean [OF 1(2-4) src] obtain go z' where r: "read_four un a b c d rest z = Some (go, z')"
      and e: "if go then b_state z' = 0 \<and> 0 \<notin> set (b_src z') \<and> calm z' \<and> clean_from un 0 z = store_and_clean un z'
        else finish_flow (after_groups un z') = clean_from un 0 z" by blast
    show ?thesis
    proof (cases go)
      case False
      then have "unescape_groups un z = Some (Next z')" using src r by (subst unescape_groups.simps) simp
      with e False show ?thesis by simp
    next
      case True
      show ?thesis
      proof (cases "write_three (b_temp z') (b_idx z') (b_dest z')")
        case None
        then have "unescape_groups un z = Some (Done (- 1) (b_dest z'))"
          using src r True by (subst unescape_groups.simps) simp
        with e True None show ?thesis by (simp add: store_and_clean_def)
      next
        case (Some dest)
        let ?n = "z'\<lparr>b_dest := dest, b_idx := b_idx z' + 3,
          b_temp := (if dest = None then b_temp z' else drop_bit 16 (b_temp z'))\<rparr>"
        have g: "unescape_groups un z = unescape_groups un ?n"
          using src r True Some by (subst unescape_groups.simps) simp
        have n: "0 \<notin> set (b_src ?n)" "b_state ?n = 0" "calm ?n" using e True by (simp_all add: calm_def)
        have "alike (z'\<lparr>b_dest := dest, b_idx := b_idx z' + 3, b_state := 0, b_temp := 0\<rparr>) (?n\<lparr>b_state := 0\<rparr>)"
          by (simp add: alike_def)
        from clean_up_alike [OF this] have "store_and_clean un z' = clean_from un 0 ?n"
          using Some by (simp add: store_and_clean_def clean_from_def)
        with "1.IH" [OF src refl refl refl r refl _ Some 1(2) n] e True g show ?thesis by simp
      qed
    qed
  qed
qed

text \<open>The decoder read one character at a time: the clean-up loop alone, from the start.\<close>

definition unescape_slowly :: "bytes \<Rightarrow> bytes option \<Rightarrow> int list \<Rightarrow> (int \<times> bytes option) option" where
  "unescape_slowly src dest un = finish_flow (clean_up un src (b64_start src dest))"

lemma Base64UnescapeInternal_slowly:
  assumes "b64_table un" "0 \<notin> set src"
  shows "Base64UnescapeInternal src dest un = unescape_slowly src dest un"
proof -
  obtain fl where "unescape_groups un (b64_start src dest) = Some fl"
    "finish_flow (case fl of Done r d \<Rightarrow> Done r d | Next z' \<Rightarrow> after_groups un z') = clean_from un 0 (b64_start src dest)"
    using groups_clean [OF assms(1), of "b64_start src dest"] assms(2) by (auto simp: b64_start_def calm_def)
  then show ?thesis
    by (simp add: Base64UnescapeInternal_def unescape_slowly_def clean_from_def) (simp add: b64_start_def)
qed

section \<open>The text of the encoder\<close>

definition three :: "byte \<Rightarrow> byte \<Rightarrow> byte \<Rightarrow> u32" where
  "three a b c = push_bit 16 (ucast a) OR push_bit 8 (ucast b) OR ucast c"

fun b64_text :: "bytes \<Rightarrow> bool \<Rightarrow> bytes \<Rightarrow> bytes" where
  "b64_text base64 pad [] = []"
| "b64_text base64 pad [a] = take 2 (quad base64 (three a 0 0)) @ (if pad then [61, 61] else [])"
| "b64_text base64 pad [a, b] = take 3 (quad base64 (three a b 0)) @ (if pad then [61] else [])"
| "b64_text base64 pad (a # b # c # s) = quad base64 (three a b c) @ b64_text base64 pad s"

lemma and_masks:
  "n AND 0x3FFFF = take_bit 18 n" "n AND 0xFFF = take_bit 12 n" "n AND 0x3F = take_bit 6 n"
  "n AND 0x3FF = take_bit 10 n" "n AND 0x00F = take_bit 4 n" "n AND 0x3 = take_bit 2 n" for n :: u32
  by (simp_all add: take_bit_eq_mask mask_eq_exp_minus_1)

lemma quad_codes:
  "quad base64 n = [base64 ! unat (drop_bit 18 n), base64 ! unat (drop_bit 12 (take_bit 18 n)),
     base64 ! unat (drop_bit 6 (take_bit 12 n)), base64 ! unat (take_bit 6 n)]"
  by (simp add: quad_def Let_def and_masks)

lemma load_three:
  "drop_bit 8 (push_bit 24 (ucast a) OR push_bit 16 (ucast b) OR push_bit 8 (ucast c) OR ucast d :: u32) = three a b c"
  for a b c d :: byte
  by (rule bit_word_eqI) (auto simp: three_def bit_simps dest: bit_imp_le_length)

lemma add_three: "push_bit 16 (ucast a) + (push_bit 8 (ucast b) OR ucast c :: u32) = three a b c" for a b c :: byte
proof -
  have "push_bit 16 (ucast a) + (push_bit 8 (ucast b) OR ucast c :: u32) =
      push_bit 16 (ucast a) OR (push_bit 8 (ucast b) OR ucast c)"
    by (rule disjunctive_add) (auto simp: bit_simps dest!: bit_imp_le_length)
  then show ?thesis by (simp add: three_def or.assoc)
qed

lemma tail_codes:
  fixes a b :: byte
  shows "drop_bit 2 (ucast a :: u32) = drop_bit 18 (three a 0 0)"
    and "push_bit 4 (take_bit 2 (ucast a :: u32)) = drop_bit 12 (take_bit 18 (three a 0 0))"
    and "drop_bit 10 (push_bit 8 (ucast a) OR ucast b :: u32) = drop_bit 18 (three a b 0)"
    and "drop_bit 4 (take_bit 10 (push_bit 8 (ucast a) OR ucast b :: u32)) = drop_bit 12 (take_bit 18 (three a b 0))"
    and "push_bit 2 (take_bit 4 (push_bit 8 (ucast a) OR ucast b :: u32)) = drop_bit 6 (take_bit 12 (three a b 0))"
  by (rule bit_word_eqI, auto simp: three_def bit_simps dest: bit_imp_le_length)+

lemma length_quad [simp]: "length (quad base64 n) = 4"
  by (simp add: quad_def Let_def)

lemma escape_chunks_place:
  "p + length (b64_text base64 pad src) \<le> length dest \<Longrightarrow>
   \<exists>t rest. escape_chunks base64 src (p, dest) = Some (rest, p + length t, place p t dest) \<and>
     b64_text base64 pad src = t @ b64_text base64 pad rest \<and> length rest \<le> 3"
proof (induction base64 src "(p, dest)" arbitrary: p dest rule: escape_chunks.induct)
  case (1 base64 a b c d src)
  let ?q = "quad base64 (three a b c)"
  have t: "b64_text base64 pad (a # b # c # d # src) = ?q @ b64_text base64 pad (d # src)" by simp
  have put: "put_all ?q (p, dest) = Some (p + 4, place p ?q dest)"
    using put_all_place [of p ?q dest] "1.prems" t by simp
  from "1.hyps" [unfolded load_three, of "p + 4" "place p ?q dest"] put "1.prems" t obtain u rest where
    u: "escape_chunks base64 (d # src) (p + 4, place p ?q dest) = Some (rest, p + 4 + length u, place (p + 4) u (place p ?q dest))"
    "b64_text base64 pad (d # src) = u @ b64_text base64 pad rest" "length rest \<le> 3"
    by auto
  have "place (p + 4) u (place p ?q dest) = place p (?q @ u) dest"
    using place_after [of p ?q u dest "[]"] "1.prems" t u(2) by simp
  then show ?case unfolding escape_chunks.simps load_three t
    by (intro exI [of _ "?q @ u"] exI [of _ rest]) (simp add: put u)
qed (auto simp: place_def intro!: exI [of _ "[]"])

lemma escape_tail_place:
  assumes "length src \<le> 3" "p + length (b64_text base64 pad src) \<le> length dest"
  shows "escape_tail base64 pad src (int (length dest) - int p) (p, dest) =
    Some (Inr (p + length (b64_text base64 pad src), place p (b64_text base64 pad src) dest))"
proof -
  consider "src = []" | a where "src = [a]" | a b where "src = [a, b]" | a b c where "src = [a, b, c]"
  proof -
    have "length src = 0 \<or> length src = 1 \<or> length src = 2 \<or> length src = 3" using assms(1) by linarith
    then show thesis using that by (auto simp: length_Suc_conv numeral_2_eq_2 numeral_3_eq_3)
  qed
  then show ?thesis
  proof cases
    case 1
    then show ?thesis by (simp add: escape_tail_def place_def)
  next
    case (2 a)
    let ?t = "[base64 ! unat (drop_bit 18 (three a 0 0)), base64 ! unat (drop_bit 12 (take_bit 18 (three a 0 0)))]"
    show ?thesis using 2 assms(2) put_all_place [of p ?t dest] put_all_place [of "p + 2" "[61, 61]" "place p ?t dest"]
        place_after [of p ?t "[61, 61]" dest "[]"]
      by (cases pad) (simp_all add: escape_tail_def quad_codes and_masks tail_codes del: put_all.simps)
  next
    case (3 a b)
    let ?t = "[base64 ! unat (drop_bit 18 (three a b 0)), base64 ! unat (drop_bit 12 (take_bit 18 (three a b 0))),
      base64 ! unat (drop_bit 6 (take_bit 12 (three a b 0)))]"
    show ?thesis using 3 assms(2) put_all_place [of p ?t dest] put_all_place [of "Suc (Suc (Suc p))" "[61]" "place p ?t dest"]
        place_after [of p ?t "[61]" dest "[]"]
      by (cases pad) (simp_all add: escape_tail_def quad_codes and_masks tail_codes Let_def del: drop_bit_or take_bit_or put_all.simps)
  next
    case (4 a b c)
    then show ?thesis using assms(2) put_all_place [of p "quad base64 (three a b c)" dest]
      by (simp add: escape_tail_def add_three)
  qed
qed

lemma length_b64_text: "int (length (b64_text base64 pad src)) = CalculateBase64EscapedLen (int (length src)) pad"
proof (induction base64 pad src rule: b64_text.induct)
  case (4 base64 pad a b c s)
  have "int (length (a # b # c # s)) = 3 + int (length s)" "(3 + int (length s)) div 3 = int (length s) div 3 + 1"
      "(3 + int (length s)) mod 3 = int (length s) mod 3" by simp_all
  then have "CalculateBase64EscapedLen (int (length (a # b # c # s))) pad = CalculateBase64EscapedLen (int (length s)) pad + 4"
    by (simp add: CalculateBase64EscapedLen_def c_div_nonneg c_mod_nonneg Let_def del: length_Cons)
  with 4 show ?case by simp
qed (simp_all add: CalculateBase64EscapedLen_def c_div_nonneg c_mod_nonneg quad_codes)

lemma b64_text_room: "length src * 4 \<le> length (b64_text base64 pad src) * 3"
  by (induction base64 pad src rule: b64_text.induct) (simp_all add: quad_codes)

lemma b64_text_short: "length (b64_text base64 pad src) * 3 \<le> length src * 4 + 8"
  by (induction base64 pad src rule: b64_text.induct) (simp_all add: quad_codes)

lemma Base64EscapeInternal_text:
  assumes "length (b64_text base64 pad src) \<le> length dest" "src \<noteq> []"
    and "int (length src) * 4 < 2 ^ 31" "int (length dest) * 3 < 2 ^ 31"
  shows "Base64EscapeInternal src dest base64 pad =
    Some (length (b64_text base64 pad src), place 0 (b64_text base64 pad src) dest)"
proof -
  from escape_chunks_place [of 0 base64 pad src dest] assms(1) obtain t rest where
    t: "escape_chunks base64 src (0, dest) = Some (rest, length t, place 0 t dest)"
      "b64_text base64 pad src = t @ b64_text base64 pad rest" "length rest \<le> 3" by auto
  have "escape_tail base64 pad rest (int (length dest) - int (length t)) (length t, place 0 t dest) =
      Some (Inr (length (b64_text base64 pad src), place (length t) (b64_text base64 pad rest) (place 0 t dest)))"
    using escape_tail_place [OF t(3), of "length t" base64 pad "place 0 t dest"] t(2) assms(1) by simp
  moreover have "place (length t) (b64_text base64 pad rest) (place 0 t dest) = place 0 (b64_text base64 pad src) dest"
    using place_after [of 0 t "b64_text base64 pad rest" dest "[]"] t(2) assms(1) by simp
  moreover have "\<not> length dest * 3 < length src * 4" using b64_text_room [of src base64 pad] assms(1) by linarith
  ultimately show ?thesis using t(1) assms by (simp add: Base64EscapeInternal_def)
qed

lemma escape_to_string_text:
  assumes "int (length src) * 4 + 8 < 2 ^ 31"
  shows "escape_to_string src pad base64 = Some (b64_text base64 pad src)"
proof (cases "src = []")
  case True
  then show ?thesis
    by (simp add: escape_to_string_def Base64EscapeInternal_def CalculateBase64EscapedLen_def c_div_def c_mod_def)
next
  case False
  have "int (length (b64_text base64 pad src)) * 3 < 2 ^ 31" using b64_text_short [of base64 pad src] assms by linarith
  then show ?thesis
    using Base64EscapeInternal_text [of base64 pad src "replicate (length (b64_text base64 pad src)) 0"] False assms
    unfolding escape_to_string_def Let_def length_b64_text [of base64 pad src, symmetric] by (simp add: place_def)
qed

section \<open>Decoding what has been encoded\<close>

definition b64_pair :: "int list \<Rightarrow> bytes \<Rightarrow> bool" where
  "b64_pair un base64 \<longleftrightarrow> b64_table un \<and> length base64 = 64 \<and> 0 \<notin> set base64 \<and>
     list_all (\<lambda>i. un ! unat (base64 ! i) = int i) [0..<64]"

lemma pairs: "b64_pair kUnBase64 kBase64Chars" "b64_pair kUnWebSafeBase64 kWebSafeBase64Chars"
proof -
  have "list_all (\<lambda>i. kUnBase64 ! unat (kBase64Chars ! i) = int i) [0..<64]"
    "list_all (\<lambda>i. kUnWebSafeBase64 ! unat (kWebSafeBase64Chars ! i) = int i) [0..<64]" by code_simp+
  then show "b64_pair kUnBase64 kBase64Chars" "b64_pair kUnWebSafeBase64 kWebSafeBase64Chars"
    by (simp_all only: b64_pair_def tables_ok) (simp_all add: kBase64Chars_def kWebSafeBase64Chars_def)
qed

lemma pair_code: "b64_pair un base64 \<Longrightarrow> unat x < 64 \<Longrightarrow> un ! unat (base64 ! unat x) = int (unat x)" for x :: u32
  unfolding b64_pair_def list_all_iff by (auto dest!: bspec [of _ _ "unat x"])

lemma code_bounds:
  fixes n :: u32
  shows "unat (drop_bit 12 (take_bit 18 n)) < 64" "unat (drop_bit 6 (take_bit 12 n)) < 64" "unat (take_bit 6 n) < 64"
    and "take_bit 24 n = n \<Longrightarrow> unat (drop_bit 18 n) < 64"
proof -
  have w: "take_bit 6 x = x \<Longrightarrow> unat x < 64" for x :: u32
  proof -
    assume "take_bit 6 x = x"
    then have "unat x = take_bit 6 (unat x)" by (metis unsigned_take_bit_eq)
    also have "\<dots> < 2 ^ 6" by (rule take_bit_nat_less_exp)
    finally show "unat x < 64" by simp
  qed
  have "take_bit 6 (drop_bit 12 (take_bit 18 n)) = drop_bit 12 (take_bit 18 n)"
    "take_bit 6 (drop_bit 6 (take_bit 12 n)) = drop_bit 6 (take_bit 12 n)" "take_bit 6 (take_bit 6 n) = take_bit 6 n"
    by (simp_all add: take_bit_drop_bit)
  then show "unat (drop_bit 12 (take_bit 18 n)) < 64" "unat (drop_bit 6 (take_bit 12 n)) < 64" "unat (take_bit 6 n) < 64"
    by (blast intro: w)+
  assume n: "take_bit 24 n = n"
  have "take_bit 6 (drop_bit 18 n) = drop_bit 18 (take_bit 24 n)" by (simp add: drop_bit_take_bit)
  then have "take_bit 6 (drop_bit 18 n) = drop_bit 18 n" unfolding n .
  then show "unat (drop_bit 18 n) < 64" by (rule w)
qed

lemma three_24: "take_bit 24 (three a b c) = three a b c"
  by (rule bit_word_eqI) (auto simp: three_def bit_simps dest: bit_imp_le_length)

lemma codes_again:
  fixes n :: u32
  assumes n: "take_bit 24 n = n"
  shows "push_bit 18 (drop_bit 18 n) OR push_bit 12 (drop_bit 12 (take_bit 18 n)) OR
    push_bit 6 (drop_bit 6 (take_bit 12 n)) OR take_bit 6 n = n"
proof (rule bit_word_eqI)
  fix i assume "i < LENGTH(32)"
  have b: "bit n i \<Longrightarrow> i < 24" using n by (metis bit_take_bit_iff)
  consider "i < 6" | "6 \<le> i" "i < 12" | "12 \<le> i" "i < 18" | "18 \<le> i" by linarith
  then show "bit (push_bit 18 (drop_bit 18 n) OR push_bit 12 (drop_bit 12 (take_bit 18 n)) OR
      push_bit 6 (drop_bit 6 (take_bit 12 n)) OR take_bit 6 n) i = bit n i"
    by cases (use b \<open>i < LENGTH(32)\<close> in \<open>auto simp: bit_simps\<close>)
qed

lemma byte_eqI:
  "(bit x 0 = bit y 0) \<Longrightarrow> (bit x 1 = bit y 1) \<Longrightarrow> (bit x 2 = bit y 2) \<Longrightarrow> (bit x 3 = bit y 3) \<Longrightarrow>
   (bit x 4 = bit y 4) \<Longrightarrow> (bit x 5 = bit y 5) \<Longrightarrow> (bit x 6 = bit y 6) \<Longrightarrow> (bit x 7 = bit y 7) \<Longrightarrow> x = y" for x y :: byte
proof (rule bit_word_eqI)
  fix i assume "i < LENGTH(8)"
  then consider "i = 0" | "i = 1" | "i = 2" | "i = 3" | "i = 4" | "i = 5" | "i = 6" | "i = 7" by fastforce
  then show "(bit x 0 = bit y 0) \<Longrightarrow> (bit x 1 = bit y 1) \<Longrightarrow> (bit x 2 = bit y 2) \<Longrightarrow> (bit x 3 = bit y 3) \<Longrightarrow>
      (bit x 4 = bit y 4) \<Longrightarrow> (bit x 5 = bit y 5) \<Longrightarrow> (bit x 6 = bit y 6) \<Longrightarrow> (bit x 7 = bit y 7) \<Longrightarrow> bit x i = bit y i"
    by cases simp_all
qed

lemma three_bytes:
  "ucast (three a b c) = c" "ucast (drop_bit 8 (three a b c)) = b" "ucast (drop_bit 16 (three a b c)) = a"
  by (rule bit_word_eqI, auto simp: three_def bit_simps dest: bit_imp_le_length)+

lemma left_one:
  "ucast (drop_bit 4 (push_bit 6 (push_bit 6 t OR drop_bit 18 (three a 0 0)) OR drop_bit 12 (take_bit 18 (three a 0 0)) :: u32)) = a"
  by (rule byte_eqI; simp add: three_def bit_simps)

lemma left_two:
  fixes t :: u32 and a b :: byte
  defines "x \<equiv> push_bit 6 (push_bit 6 (push_bit 6 t OR drop_bit 18 (three a b 0)) OR drop_bit 12 (take_bit 18 (three a b 0))) OR
    drop_bit 6 (take_bit 12 (three a b 0))"
  shows "ucast (drop_bit 2 x) = b" "ucast (drop_bit 10 x) = a"
proof -
  show "ucast (drop_bit 2 x) = b" unfolding x_def by (rule byte_eqI; simp add: three_def bit_simps)
  have "\<not> bit b k" if "8 \<le> k" for k using that by (auto dest: bit_imp_le_length)
  then show "ucast (drop_bit 10 x) = a" unfolding x_def by - (rule byte_eqI; simp add: three_def bit_simps)
qed

lemma pair_good: "b64_pair un base64 \<Longrightarrow> unat x < 64 \<Longrightarrow> \<not> un ! unat (base64 ! unat x) < 0" for x :: u32
  by (simp add: pair_code)

lemma clean_up_quad:
  assumes p: "b64_pair un base64" and n: "take_bit 24 n = n" and z: "b_state z = 0"
  shows "finish_flow (clean_up un (quad base64 n @ s) z) =
    (case write_three n (b_idx z) (b_dest z) of
       None \<Rightarrow> Some (- 1, b_dest z)
     | Some dest \<Rightarrow> finish_flow (clean_up un s (z\<lparr>b_dest := dest, b_idx := b_idx z + 3, b_state := 0, b_temp := 0\<rparr>)))"
proof -
  note good = pair_good [OF p code_bounds(4) [OF n]] pair_good [OF p code_bounds(1) [of n]] pair_good [OF p code_bounds(2) [of n]]
    pair_good [OF p code_bounds(3) [of n]]
  let ?z = "z\<lparr>b_src := quad base64 n @ s\<rparr>"
  let ?f = "?z\<lparr>b_src := s, b_decode := - 1, b_ch := 0, b_temp := n\<rparr>"
  have q: "fast_four un (base64 ! unat (drop_bit 18 n)) (base64 ! unat (drop_bit 12 (take_bit 18 n)))
      (base64 ! unat (drop_bit 6 (take_bit 12 n))) (base64 ! unat (take_bit 6 n)) = n"
    unfolding fast_four_def pair_code [OF p code_bounds(4) [OF n]] pair_code [OF p code_bounds(1) [of n]]
      pair_code [OF p code_bounds(2) [of n]] pair_code [OF p code_bounds(3) [of n]]
    using codes_again [OF n] by simp
  have "alike z (?z\<lparr>b_state := 0\<rparr>)" using z by (simp add: alike_def)
  then have "finish_flow (clean_up un (quad base64 n @ s) z) = clean_from un 0 ?z"
    using clean_up_alike by (simp add: clean_from_def)
  also have "\<dots> = store_and_clean un ?f"
    using fast_four_clean [OF good, of ?z s] z by (simp add: quad_codes q)
  also have "\<dots> = (case write_three n (b_idx z) (b_dest z) of
       None \<Rightarrow> Some (- 1, b_dest z)
     | Some dest \<Rightarrow> finish_flow (clean_up un s (z\<lparr>b_dest := dest, b_idx := b_idx z + 3, b_state := 0, b_temp := 0\<rparr>)))"
  proof (cases "write_three n (b_idx z) (b_dest z)")
    case (Some dest)
    have "alike (?f\<lparr>b_dest := dest, b_idx := b_idx z + 3, b_state := 0, b_temp := 0\<rparr>)
        (z\<lparr>b_dest := dest, b_idx := b_idx z + 3, b_state := 0, b_temp := 0\<rparr>)" by (simp add: alike_def)
    from clean_up_alike [OF this] Some show ?thesis by (simp add: store_and_clean_def)
  qed (simp add: store_and_clean_def)
  finally show ?thesis .
qed

lemma write_three_place:
  "i + 3 \<le> length d \<Longrightarrow> write_three (three a b c) i (Some d) = Some (Some (place i [a, b, c] d))"
proof -
  assume i: "i + 3 \<le> length d"
  have "d[i + 2 := c, i + 1 := b, i := a] = place i [a, b, c] d"
    using i place_before [of "i + 1" "[b]" "[c]" d] place_before [of i "[a]" "[b, c]" d]
    by (simp add: place_one numeral_2_eq_2)
  then show ?thesis using i by (simp add: write_three_def three_bytes)
qed

lemma pads_stop:
  assumes "b64_pair un base64" "pads = [] \<or> pads = [61] \<or> pads = [61, 61]"
  shows "clean_up un pads z = Next (z\<lparr>b_src := pads\<rparr>)"
proof -
  have "un ! 61 < 0" using assms(1) by (simp add: b64_pair_def b64_table_def)
  then show ?thesis using assms(2) by (auto simp: is_pad_def ascii_isspace_def)
qed

text \<open>Decoding the text writes the source where the destination stands.\<close>

lemma clean_up_text:
  assumes "b64_pair un base64" "b_state z = 0" "b_dest z = Some d" "b_idx z + length src \<le> length d"
  shows "finish_flow (clean_up un (b64_text base64 pad src) z) =
    Some (int (b_idx z + length src), Some (place (b_idx z) src d))"
  using assms
proof (induction base64 pad src arbitrary: z d rule: b64_text.induct)
  case (1 base64 pad)
  then show ?case using pads_stop [of un base64 "[]" z]
    by (simp add: finish_unescape_def leftover_def place_def)
next
  case (2 base64 pad a)
  have n: "take_bit 24 (three a 0 0) = three a 0 0" by (rule three_24)
  note c = pair_code [OF 2(1) code_bounds(4) [OF n]] pair_code [OF 2(1) code_bounds(1) [of "three a 0 0"]]
  define t where "t = push_bit 6 (push_bit 6 (b_temp z) OR drop_bit 18 (three a 0 0)) OR drop_bit 12 (take_bit 18 (three a 0 0))"
  have l: "ucast (drop_bit 4 t) = a" unfolding t_def by (rule left_one)
  let ?pads = "if pad then [61, 61] else []" and ?y = "z\<lparr>b_temp := t, b_state := 2\<rparr>"
  have "clean_up un (b64_text base64 pad [a]) z = clean_up un ?pads ?y"
    using 2(2) by (simp add: quad_codes clean_up_code c t_def numeral_2_eq_2 del: clean_up.simps)
  also have "\<dots> = Next (?y\<lparr>b_src := ?pads\<rparr>)" by (rule pads_stop [OF 2(1)]) simp
  finally show ?case using 2(3,4)
    by (simp add: finish_unescape_def leftover_def l place_one is_pad_def)
next
  case (3 base64 pad a b)
  have n: "take_bit 24 (three a b 0) = three a b 0" by (rule three_24)
  note c = pair_code [OF 3(1) code_bounds(4) [OF n]] pair_code [OF 3(1) code_bounds(1) [of "three a b 0"]]
    pair_code [OF 3(1) code_bounds(2) [of "three a b 0"]]
  define t where "t = push_bit 6 (push_bit 6 (push_bit 6 (b_temp z) OR drop_bit 18 (three a b 0)) OR
    drop_bit 12 (take_bit 18 (three a b 0))) OR drop_bit 6 (take_bit 12 (three a b 0))"
  have l: "ucast (drop_bit 2 t) = b" "ucast (drop_bit 10 t) = a" unfolding t_def by (rule left_two)+
  let ?pads = "if pad then [61] else []" and ?y = "z\<lparr>b_temp := t, b_state := 3\<rparr>"
  have "clean_up un (b64_text base64 pad [a, b]) z = clean_up un ?pads ?y"
    using 3(2) by (simp add: quad_codes clean_up_code c t_def numeral_3_eq_3 numeral_2_eq_2 del: clean_up.simps)
  also have "\<dots> = Next (?y\<lparr>b_src := ?pads\<rparr>)" by (rule pads_stop [OF 3(1)]) simp
  finally show ?case using 3(3,4) place_before [of "b_idx z" "[a]" "[b]" d]
    by (simp add: finish_unescape_def leftover_def l place_one is_pad_def drop_bit_drop_bit Let_def)
next
  case (4 base64 pad a b c s)
  have "place (b_idx z + 3) s (place (b_idx z) [a, b, c] d) = place (b_idx z) (a # b # c # s) d"
    using place_after [of "b_idx z" "[a, b, c]" s d "[]"] 4(5) by (simp add: numeral_3_eq_3)
  with 4 show ?case
    using clean_up_quad [OF 4(2) three_24 4(3), of a b c] write_three_place [of "b_idx z" d a b c] by simp
qed

lemma b64_text_nonzero: "b64_pair un base64 \<Longrightarrow> 0 \<notin> set (b64_text base64 pad src)"
proof (induction base64 pad src rule: b64_text.induct)
  case (2 base64 pad a)
  have l: "unat i < 64 \<Longrightarrow> base64 ! unat i \<noteq> 0" for i :: u32 using 2 by (metis b64_pair_def nth_mem)
  show ?case using l [OF code_bounds(4) [OF three_24]] l [OF code_bounds(1)] by (simp add: quad_codes)
next
  case (3 base64 pad a b)
  have l: "unat i < 64 \<Longrightarrow> base64 ! unat i \<noteq> 0" for i :: u32 using 3 by (metis b64_pair_def nth_mem)
  show ?case using l [OF code_bounds(4) [OF three_24]] l [OF code_bounds(1)] l [OF code_bounds(2)]
    by (simp add: quad_codes)
next
  case (4 base64 pad a b c s)
  have l: "unat i < 64 \<Longrightarrow> base64 ! unat i \<noteq> 0" for i :: u32 using 4(2) by (metis b64_pair_def nth_mem)
  show ?case using 4 l [OF code_bounds(4) [OF three_24]] l [OF code_bounds(1)] l [OF code_bounds(2)] l [OF code_bounds(3)]
    by (simp add: quad_codes)
qed simp

lemma unescape_to_string_text:
  assumes p: "b64_pair un base64"
  shows "unescape_to_string (b64_text base64 pad src) un = Some (True, src)"
proof -
  let ?t = "b64_text base64 pad src"
  let ?n = "3 * (length ?t div 4) + length ?t mod 4"
  have t: "b64_table un" using p by (simp add: b64_pair_def)
  have z: "length src \<le> ?n"
    using b64_text_room [of src base64 pad] div_mult_mod_eq [of "length ?t" 4] by linarith
  show ?thesis
  proof (cases "src = []")
    case True
    then show ?thesis
      using Base64UnescapeInternal_slowly [OF t, of "[]" None]
      by (simp add: unescape_to_string_def unescape_slowly_def b64_start_def finish_unescape_def leftover_def)
  next
    case False
    then have "0 < length src" by simp
    then have "?n \<noteq> 0" using z by linarith
    have "Base64UnescapeInternal ?t (Some (replicate ?n 0)) un =
        Some (int (length src), Some (place 0 src (replicate ?n 0)))"
      using Base64UnescapeInternal_slowly [OF t b64_text_nonzero [OF p], of pad src "Some (replicate ?n 0)"]
        clean_up_text [OF p, of "b64_start ?t (Some (replicate ?n 0))" "replicate ?n 0" src pad] z
      by (simp add: unescape_slowly_def b64_start_def)
    then show ?thesis
      unfolding unescape_to_string_def Let_def if_not_P [OF \<open>?n \<noteq> 0\<close>] by (simp add: place_def)
  qed
qed

section \<open>Properties\<close>

text \<open>
  Property C24: what the three encoders write, with and without padding and in both alphabets, has
  the length \<open>CalculateBase64EscapedLen\<close> promises and is decoded to the bytes it was made of, for
  every string; no byte is read or written outside the buffers. The bound keeps the sizes within
  \<open>int\<close>.
\<close>

theorem base64_roundtrip:
  assumes "int (length s) * 4 + 8 < 2 ^ 31"
  shows "do { t \<leftarrow> Base64Escape s; Base64Unescape t } = Some (True, s) \<and>
    do { t \<leftarrow> WebSafeBase64Escape s; WebSafeBase64Unescape t } = Some (True, s) \<and>
    do { t \<leftarrow> WebSafeBase64EscapeWithPadding s; WebSafeBase64Unescape t } = Some (True, s) \<and>
    map_option (int \<circ> length) (Base64Escape s) = Some (CalculateBase64EscapedLen (int (length s)) True) \<and>
    map_option (int \<circ> length) (WebSafeBase64Escape s) = Some (CalculateBase64EscapedLen (int (length s)) False)"
  using escape_to_string_text [OF assms] unescape_to_string_text [OF pairs(1)] unescape_to_string_text [OF pairs(2)]
  by (simp add: Base64Escape_def WebSafeBase64Escape_def WebSafeBase64EscapeWithPadding_def Base64Unescape_def
      WebSafeBase64Unescape_def length_b64_text)

theorem base64_roundtrip_witness:
  "do { t \<leftarrow> Base64Escape [0, 255, 16, 7]; Base64Unescape t } = Some (True, [0, 255, 16, 7])"
  using base64_roundtrip [of "[0, 255, 16, 7]"] by simp

text \<open>
  Property C23: on a source without a zero byte the loop that takes four characters at a time, with
  its backing up at characters that are no data, gives what the loop gives that takes one at a
  time: the same result and the same bytes, or the same -1, whatever white space, pad characters
  and illegal characters stand where, for every destination, large or small or none.
\<close>

theorem base64_fast_is_slow:
  assumes "0 \<notin> set src" "un \<in> {kUnBase64, kUnWebSafeBase64}"
  shows "Base64UnescapeInternal src dest un = unescape_slowly src dest un"
  using Base64UnescapeInternal_slowly [OF _ assms(1)] assms(2) tables_ok by auto

text \<open>White space in the middle of a group, a pad character at the end.\<close>

theorem base64_fast_is_slow_witness:
  "Base64UnescapeInternal (str ''QU JDQUI='') None kUnBase64 = unescape_slowly (str ''QU JDQUI='') None kUnBase64"
  by (rule base64_fast_is_slow) simp_all

text \<open>
  A zero byte does not end the source, although the comment in the decoder says that it never
  reads past one: at the start of a group of four the byte is taken for the end of the data, is
  skipped, and the characters after it are decoded.
\<close>

lemma base64_reads_past_null:
  "Base64Unescape (str ''QUJD'' @ [0] @ str ''QUJD'') = Some (True, str ''ABCABC'')"
  by code_simp

end
