(* ===== verification/Int128.thy ===== *)
theory Int128
  imports CLib "HOL-Library.Monad_Syntax"
begin

text \<open>
  The unsigned 128-bit integers of the vendored protobuf
  (\<open>include/protobuf/google/protobuf/stubs/int128.h\<close> and \<open>int128.cc\<close>): two words of 64 bits,
  with the carries and shifts between them written out, long division, and the output
  operator, which prints in three chunks. The abstract value is a \<open>128 word\<close>, whose arithmetic
  every operation implements.
\<close>

section \<open>Construction and comparison\<close>

record uint128 =
  Low64 :: u64
  High64 :: u64

definition uint128_pair :: "u64 \<Rightarrow> u64 \<Rightarrow> uint128" where
  "uint128_pair hi lo = \<lparr> Low64 = lo, High64 = hi \<rparr>"

definition uint128_default :: uint128 where
  "uint128_default = \<lparr> Low64 = 0, High64 = 0 \<rparr>"

definition uint128_u64 :: "u64 \<Rightarrow> uint128" where
  "uint128_u64 bottom = \<lparr> Low64 = bottom, High64 = 0 \<rparr>"

definition uint128_u32 :: "u32 \<Rightarrow> uint128" where
  "uint128_u32 bottom = \<lparr> Low64 = ucast bottom, High64 = 0 \<rparr>"

definition uint128_int :: "u32 \<Rightarrow> uint128" where
  "uint128_int bottom = \<lparr> Low64 = scast bottom, High64 = (if sint bottom < 0 then - 1 else 0) \<rparr>"

definition kuint128max :: uint128 where
  "kuint128max = uint128_pair 0xFFFFFFFFFFFFFFFF 0xFFFFFFFFFFFFFFFF"

definition eq128 :: "uint128 \<Rightarrow> uint128 \<Rightarrow> bool" where
  "eq128 lhs rhs \<longleftrightarrow> Low64 lhs = Low64 rhs \<and> High64 lhs = High64 rhs"

definition less128 :: "uint128 \<Rightarrow> uint128 \<Rightarrow> bool" where
  "less128 lhs rhs = (if High64 lhs = High64 rhs then Low64 lhs < Low64 rhs else High64 lhs < High64 rhs)"

definition le128 :: "uint128 \<Rightarrow> uint128 \<Rightarrow> bool" where
  "le128 lhs rhs = (if High64 lhs = High64 rhs then Low64 lhs \<le> Low64 rhs else High64 lhs \<le> High64 rhs)"

definition ne128 :: "uint128 \<Rightarrow> uint128 \<Rightarrow> bool" where
  "ne128 lhs rhs \<longleftrightarrow> \<not> eq128 lhs rhs"

definition greater128 :: "uint128 \<Rightarrow> uint128 \<Rightarrow> bool" where
  "greater128 lhs rhs = (if High64 lhs = High64 rhs then Low64 rhs < Low64 lhs else High64 rhs < High64 lhs)"

definition ge128 :: "uint128 \<Rightarrow> uint128 \<Rightarrow> bool" where
  "ge128 lhs rhs = (if High64 lhs = High64 rhs then Low64 rhs \<le> Low64 lhs else High64 rhs \<le> High64 lhs)"

definition is_zero128 :: "uint128 \<Rightarrow> bool" where
  "is_zero128 val \<longleftrightarrow> High64 val = 0 \<and> Low64 val = 0"

section \<open>Arithmetic and logical operators\<close>

definition neg128 :: "uint128 \<Rightarrow> uint128" where
  "neg128 val =
     (let hi_flip = NOT (High64 val); lo_flip = NOT (Low64 val); lo_add = lo_flip + 1
      in if lo_add < lo_flip then uint128_pair (hi_flip + 1) lo_add else uint128_pair hi_flip lo_add)"

definition not128 :: "uint128 \<Rightarrow> uint128" where
  "not128 val = uint128_pair (NOT (High64 val)) (NOT (Low64 val))"

definition or128 :: "uint128 \<Rightarrow> uint128 \<Rightarrow> uint128" where
  "or128 lhs rhs = uint128_pair (High64 lhs OR High64 rhs) (Low64 lhs OR Low64 rhs)"

definition and128 :: "uint128 \<Rightarrow> uint128 \<Rightarrow> uint128" where
  "and128 lhs rhs = uint128_pair (High64 lhs AND High64 rhs) (Low64 lhs AND Low64 rhs)"

definition xor128 :: "uint128 \<Rightarrow> uint128 \<Rightarrow> uint128" where
  "xor128 lhs rhs = uint128_pair (High64 lhs XOR High64 rhs) (Low64 lhs XOR Low64 rhs)"

text \<open>The shifts take their amount as a natural number; a negative one is undefined.\<close>

definition shl128 :: "uint128 \<Rightarrow> nat \<Rightarrow> uint128" where
  "shl128 val amount =
     (if amount < 64 then
        if amount = 0 then val
        else uint128_pair (push_bit amount (High64 val) OR drop_bit (64 - amount) (Low64 val)) (push_bit amount (Low64 val))
      else if amount < 128 then uint128_pair (push_bit (amount - 64) (Low64 val)) 0
      else uint128_pair 0 0)"

definition shr128 :: "uint128 \<Rightarrow> nat \<Rightarrow> uint128" where
  "shr128 val amount =
     (if amount < 64 then
        if amount = 0 then val
        else uint128_pair (drop_bit amount (High64 val)) (drop_bit amount (Low64 val) OR push_bit (64 - amount) (High64 val))
      else if amount < 128 then uint128_pair 0 (drop_bit (amount - 64) (High64 val))
      else uint128_pair 0 0)"

text \<open>The assigning shifts, which change the two words in place.\<close>

definition shl_assign128 :: "uint128 \<Rightarrow> nat \<Rightarrow> uint128" where
  "shl_assign128 x amount =
     (if amount < 64 then
        if amount \<noteq> 0 then
          x\<lparr>High64 := push_bit amount (High64 x) OR drop_bit (64 - amount) (Low64 x), Low64 := push_bit amount (Low64 x)\<rparr>
        else x
      else if amount < 128 then x\<lparr>High64 := push_bit (amount - 64) (Low64 x), Low64 := 0\<rparr>
      else x\<lparr>High64 := 0, Low64 := 0\<rparr>)"

definition shr_assign128 :: "uint128 \<Rightarrow> nat \<Rightarrow> uint128" where
  "shr_assign128 x amount =
     (if amount < 64 then
        if amount \<noteq> 0 then
          x\<lparr>Low64 := drop_bit amount (Low64 x) OR push_bit (64 - amount) (High64 x), High64 := drop_bit amount (High64 x)\<rparr>
        else x
      else if amount < 128 then x\<lparr>Low64 := drop_bit (amount - 64) (High64 x), High64 := 0\<rparr>
      else x\<lparr>Low64 := 0, High64 := 0\<rparr>)"

lemma shift_assign_eq [simp]: "shl_assign128 x n = shl128 x n" "shr_assign128 x n = shr128 x n"
  by (cases x; simp add: shl_assign128_def shl128_def shr_assign128_def shr128_def uint128_pair_def)+

definition add128 :: "uint128 \<Rightarrow> uint128 \<Rightarrow> uint128" where
  "add128 a b =
     (let hi = High64 a + High64 b; lolo = Low64 a + Low64 b
      in uint128_pair (if lolo < Low64 a then hi + 1 else hi) lolo)"

definition sub128 :: "uint128 \<Rightarrow> uint128 \<Rightarrow> uint128" where
  "sub128 a b =
     (let hi = High64 a - High64 b
      in uint128_pair (if Low64 a < Low64 b then hi - 1 else hi) (Low64 a - Low64 b))"

definition mul128 :: "uint128 \<Rightarrow> uint128 \<Rightarrow> uint128" where
  "mul128 a b =
     (let a96 = drop_bit 32 (High64 a); a64 = High64 a AND 0xffffffff;
          a32 = drop_bit 32 (Low64 a); a00 = Low64 a AND 0xffffffff;
          b96 = drop_bit 32 (High64 b); b64 = High64 b AND 0xffffffff;
          b32 = drop_bit 32 (Low64 b); b00 = Low64 b AND 0xffffffff;
          c96 = a96 * b00 + a64 * b32 + a32 * b64 + a00 * b96;
          c64 = a64 * b00 + a32 * b32 + a00 * b64;
          r0 = uint128_pair (push_bit 32 c96 + c64) 0;
          r1 = add128 r0 (shl128 (uint128_u64 (a32 * b00)) 32);
          r2 = add128 r1 (shl128 (uint128_u64 (a00 * b32)) 32)
      in add128 r2 (uint128_u64 (a00 * b00)))"

text \<open>Increment and decrement: the value of the expression and the object after it.\<close>

definition pre_increment :: "uint128 \<Rightarrow> uint128 \<times> uint128" where
  "pre_increment a = (let a' = add128 a (uint128_int 1) in (a', a'))"

definition pre_decrement :: "uint128 \<Rightarrow> uint128 \<times> uint128" where
  "pre_decrement a = (let a' = sub128 a (uint128_int 1) in (a', a'))"

definition post_increment :: "uint128 \<Rightarrow> uint128 \<times> uint128" where
  "post_increment a = (a, add128 a (uint128_int 1))"

definition post_decrement :: "uint128 \<Rightarrow> uint128 \<times> uint128" where
  "post_decrement a = (a, sub128 a (uint128_int 1))"

section \<open>Division\<close>

text \<open>One step of the search for the highest bit: \<open>(n, pos)\<close> after \<open>STEP\<close> with \<open>sh\<close>.\<close>

definition STEP :: "nat \<Rightarrow> 'a::len word \<times> nat \<Rightarrow> 'a word \<times> nat" where
  "STEP sh st = (case st of (n, pos) \<Rightarrow> if push_bit sh 1 \<le> n then (drop_bit sh n, pos OR sh) else (n, pos))"

definition Fls64 :: "u64 \<Rightarrow> nat" where
  "Fls64 n0 =
     (let (n, pos) = STEP 0x20 (n0, 0);
          (n32, pos) = STEP 0x04 (STEP 0x08 (STEP 0x10 (ucast n :: u32, pos)))
      in pos + unat (drop_bit (unat (push_bit 2 n32)) 0x3333333322221100 AND 0x3 :: u64))"

definition Fls128 :: "uint128 \<Rightarrow> nat" where
  "Fls128 n = (if High64 n \<noteq> 0 then Fls64 (High64 n) + 64 else Fls64 (Low64 n))"

text \<open>The loop, with \<open>difference + 1\<close> as its counter: quotient and remainder.\<close>

fun divide_loop :: "nat \<Rightarrow> uint128 \<Rightarrow> uint128 \<Rightarrow> uint128 \<Rightarrow> uint128 \<times> uint128" where
  "divide_loop 0 divisor quot dividend = (quot, dividend)"
| "divide_loop (Suc difference) divisor quot dividend =
     (let quot = shl_assign128 quot 1; shifted_divisor = shl128 divisor difference
      in if le128 shifted_divisor dividend
         then divide_loop difference divisor (add128 quot (uint128_int 1)) (sub128 dividend shifted_divisor)
         else divide_loop difference divisor quot dividend)"

text \<open>Quotient and remainder; a zero divisor is fatal.\<close>

definition DivModImpl :: "uint128 \<Rightarrow> uint128 \<Rightarrow> (uint128 \<times> uint128) option" where
  "DivModImpl dividend divisor =
     (if eq128 divisor (uint128_int 0) then None
      else if less128 dividend divisor then Some (uint128_int 0, dividend)
      else Some (divide_loop (nat (int (Fls128 dividend) - int (Fls128 divisor) + 1)) divisor (uint128_int 0) dividend))"

definition div128 :: "uint128 \<Rightarrow> uint128 \<Rightarrow> uint128 option" where
  "div128 a b = map_option fst (DivModImpl a b)"

definition mod128 :: "uint128 \<Rightarrow> uint128 \<Rightarrow> uint128 option" where
  "mod128 a b = map_option snd (DivModImpl a b)"

section \<open>Output\<close>

text \<open>
  The format flags, width and fill character of a stream, and what the standard library prints
  for a 64-bit number: the digits in the base, a prefix when \<open>showbase\<close> is set and the number
  is not zero, padded on the left to the width.
\<close>

datatype basefield = Dec | Oct | Hex

datatype adjustfield = AdjustLeft | AdjustRight | AdjustInternal

record ios =
  base_flag :: basefield
  showbase :: bool
  uppercase :: bool
  adjust_flag :: adjustfield
  ios_width :: nat
  ios_fill :: byte

fun radix :: "basefield \<Rightarrow> nat" where
  "radix Dec = 10" | "radix Oct = 8" | "radix Hex = 16"

definition digit_char :: "bool \<Rightarrow> nat \<Rightarrow> byte" where
  "digit_char upper d = (if d < 10 then 48 + word_of_nat d else (if upper then 55 else 87) + word_of_nat d)"

function digits_in :: "nat \<Rightarrow> bool \<Rightarrow> nat \<Rightarrow> bytes" where
  "digits_in b upper n =
     (if n < b \<or> b \<le> 1 then [digit_char upper n] else digits_in b upper (n div b) @ [digit_char upper (n mod b)])"
  by pat_completeness auto
termination
  by (relation "measure (\<lambda>(b, upper, n). n)") auto

declare digits_in.simps [simp del]

definition base_prefix :: "ios \<Rightarrow> nat \<Rightarrow> bytes" where
  "base_prefix f n =
     (if \<not> showbase f \<or> n = 0 then []
      else case base_flag f of Dec \<Rightarrow> [] | Oct \<Rightarrow> [48] | Hex \<Rightarrow> [48, if uppercase f then 88 else 120])"

definition number_text :: "ios \<Rightarrow> nat \<Rightarrow> bytes" where
  "number_text f n = base_prefix f n @ digits_in (radix (base_flag f)) (uppercase f) n"

definition put_u64 :: "ios \<Rightarrow> u64 \<Rightarrow> bytes" where
  "put_u64 f v = (let t = number_text f (unat v) in replicate (ios_width f - length t) (ios_fill f) @ t)"

text \<open>The divisor, the largest power of the base below \<open>2 ^ 64\<close>, and its exponent.\<close>

fun chunk_of :: "basefield \<Rightarrow> u64 \<times> nat" where
  "chunk_of Hex = (0x1000000000000000, 15)"
| "chunk_of Oct = (0x8000000000000000, 21)"
| "chunk_of Dec = (10000000000000000000, 19)"

text \<open>
  The text that is put on the stream, and the stream's flags after it: the width is reset. A
  stream \<open>os\<close> of its own gets the base, the prefix and the case of the letters.
\<close>

definition put_uint128 :: "ios \<Rightarrow> uint128 \<Rightarrow> (bytes \<times> ios) option" where
  "put_uint128 f b =
     (let (chunk, div_base_log) = chunk_of (base_flag f);
          os = f\<lparr>adjust_flag := AdjustRight, ios_width := 0, ios_fill := 32\<rparr>;
          os' = os\<lparr>showbase := False, ios_fill := 48, ios_width := div_base_log\<rparr>
      in do {
        (high, low) \<leftarrow> DivModImpl b (uint128_u64 chunk);
        (high, mid) \<leftarrow> DivModImpl high (uint128_u64 chunk);
        (let rep = (if Low64 high \<noteq> 0 then put_u64 os (Low64 high) @ put_u64 os' (Low64 mid) @ put_u64 os' (Low64 low)
                   else if Low64 mid \<noteq> 0 then put_u64 os (Low64 mid) @ put_u64 os' (Low64 low)
                   else put_u64 os (Low64 low));
            padding = replicate (ios_width f - length rep) (ios_fill f)
        in Some (if adjust_flag f = AdjustLeft then rep @ padding else padding @ rep, f\<lparr>ios_width := 0\<rparr>)) })"


section \<open>The value of a 128-bit integer\<close>

definition abs128 :: "uint128 \<Rightarrow> 128 word" where
  "abs128 x = push_bit 64 (ucast (High64 x)) OR ucast (Low64 x)"

lemma pair_fields [simp]: "Low64 (uint128_pair h l) = l" "High64 (uint128_pair h l) = h"
  by (simp_all add: uint128_pair_def)

lemma bit_abs128: "bit (abs128 x) i \<longleftrightarrow> (if i < 64 then bit (Low64 x) i else bit (High64 x) (i - 64))"
  by (auto simp: abs128_def bit_simps dest: bit_imp_le_length)

lemma abs128_eqI: "(\<And>i. i < 128 \<Longrightarrow> bit (abs128 x) i = bit w i) \<Longrightarrow> abs128 x = w"
  by (rule bit_word_eqI) simp

lemma abs128_sum: "abs128 x = push_bit 64 (ucast (High64 x)) + ucast (Low64 x)"
  unfolding abs128_def
  by (rule disjunctive_add_eq_or [symmetric], rule bit_word_eqI)
    (use bit_imp_le_length [of "Low64 x"] in \<open>fastforce simp: bit_simps\<close>)

lemma u64_bound: "unat a < 18446744073709551616" for a :: u64
  using unsigned_less [of a, where 'a = nat] by simp

lemma unat_widen: "unat (ucast a :: 128 word) = unat a" for a :: u64
  using u64_bound [of a] by (simp add: unsigned_ucast_eq take_bit_nat_eq_self)

text \<open>The high half is computed modulo \<open>2 ^ 64\<close>, which is all that its place shows.\<close>

lemma push_take: "push_bit 64 (take_bit 64 x) = push_bit 64 x" for x :: "128 word"
  by (rule bit_word_eqI) (auto simp: bit_simps)

lemma high_add: "push_bit 64 (ucast (a + b) :: 128 word) = push_bit 64 (ucast a) + push_bit 64 (ucast b)" for a b :: u64
proof -
  have "(ucast (a + b) :: 128 word) = take_bit 64 (ucast a + ucast b)" by transfer (simp add: take_bit_add)
  then show ?thesis by (simp add: push_take push_bit_add)
qed

lemma high_mult: "push_bit 64 (ucast (a * b) :: 128 word) = push_bit 64 (ucast a * ucast b)" for a b :: u64
proof -
  have "(ucast (a * b) :: 128 word) = take_bit 64 (ucast a * ucast b)" by transfer (simp add: take_bit_mult)
  then show ?thesis by (simp add: push_take)
qed

lemma high_diff: "push_bit 64 (ucast (a - b) :: 128 word) = push_bit 64 (ucast a) - push_bit 64 (ucast b)" for a b :: u64
  using high_add [of "a - b" b] by simp

lemma low_add: "(ucast (a + b) :: 128 word) + (if a + b < a then push_bit 64 1 else 0) = ucast a + ucast b" for a b :: u64
proof (cases "unat a + unat b < 2 ^ 64")
  case True
  then have s: "unat (a + b) = unat a + unat b" by (simp add: unat_word_ariths)
  then have "\<not> a + b < a" by (simp add: word_less_nat_alt)
  moreover have "unat (ucast (a + b) :: 128 word) = unat (ucast a + ucast b :: 128 word)"
    using True s u64_bound [of a] u64_bound [of b] by (simp add: unat_widen unat_word_ariths)
  ultimately show ?thesis by (simp add: word_unat_eq_iff)
next
  case False
  then have s: "unat (a + b) = unat a + unat b - 2 ^ 64"
    using u64_bound [of a] u64_bound [of b] by (simp add: unat_word_ariths mod_if)
  then have "a + b < a" using u64_bound [of b] False by (simp add: word_less_nat_alt)
  moreover have "unat (ucast (a + b) + push_bit 64 1 :: 128 word) = unat (ucast a + ucast b :: 128 word)"
    using False s u64_bound [of a] u64_bound [of b] by (simp add: unat_widen unat_word_ariths push_bit_eq_mult)
  ultimately show ?thesis by (simp add: word_unat_eq_iff)
qed

lemma low_diff: "(ucast (a - b) :: 128 word) - (if a < b then push_bit 64 1 else 0) = ucast a - ucast b" for a b :: u64
proof -
  have "(a - b) + b < a - b \<longleftrightarrow> a < b"
    using u64_bound [of a] u64_bound [of b] by (auto simp: word_less_nat_alt unat_sub_if_size word_size)
  then show ?thesis using low_add [of "a - b" b] by (simp add: algebra_simps)
qed

lemma unat_abs128: "unat (abs128 x) = unat (High64 x) * 2 ^ 64 + unat (Low64 x)"
proof -
  have "unat (High64 x) * 2 ^ 64 + unat (Low64 x) < 2 ^ 128" using u64_bound [of "High64 x"] u64_bound [of "Low64 x"] by simp
  then show ?thesis
    by (simp add: abs128_sum unat_word_ariths push_bit_eq_mult unat_widen)
qed

lemma abs128_pair: "abs128 (uint128_pair h l) = push_bit 64 (ucast h) + ucast l"
  by (simp add: abs128_sum)

lemma abs128_u64 [simp]: "abs128 (uint128_u64 b) = ucast b"
  by (simp add: abs128_def uint128_u64_def)

lemma abs128_0 [simp]: "abs128 (uint128_int 0) = 0" "abs128 (uint128_int 1) = 1" "abs128 (uint128_pair 0 0) = 0"
  by (simp_all add: abs128_def uint128_int_def uint128_pair_def)

lemma abs128_inj: "abs128 x = abs128 y \<Longrightarrow> x = y"
proof -
  assume e: "abs128 x = abs128 y"
  have "bit (Low64 x) i = bit (Low64 y) i" "bit (High64 x) i = bit (High64 y) i" if "i < 64" for i
    using that arg_cong [OF e, of "\<lambda>w. bit w i"] arg_cong [OF e, of "\<lambda>w. bit w (i + 64)"] by (simp_all add: bit_abs128)
  then have "Low64 x = Low64 y" "High64 x = High64 y" by (auto intro!: bit_word_eqI)
  then show ?thesis by simp
qed

lemma less128_abs [simp]: "less128 x y \<longleftrightarrow> abs128 x < abs128 y"
  using u64_bound [of "Low64 x"] u64_bound [of "Low64 y"]
  by (auto simp: less128_def word_less_nat_alt unat_abs128 word_unat_eq_iff)

lemma le128_abs [simp]: "le128 x y \<longleftrightarrow> abs128 x \<le> abs128 y"
  using u64_bound [of "Low64 x"] u64_bound [of "Low64 y"]
  by (auto simp: le128_def word_le_nat_alt unat_abs128 word_unat_eq_iff)

lemma eq128_abs [simp]: "eq128 x y \<longleftrightarrow> abs128 x = abs128 y"
proof
  show "eq128 x y \<Longrightarrow> abs128 x = abs128 y" by (simp add: eq128_def abs128_def)
qed (drule abs128_inj, simp add: eq128_def)

lemma add128_abs [simp]: "abs128 (add128 x y) = abs128 x + abs128 y"
  using low_add [of "Low64 x" "Low64 y"]
  by (simp add: add128_def Let_def abs128_sum high_add algebra_simps split: if_splits)

lemma sub128_abs [simp]: "abs128 (sub128 x y) = abs128 x - abs128 y"
  using low_diff [of "Low64 x" "Low64 y"]
  by (simp add: sub128_def Let_def abs128_sum high_diff high_add algebra_simps split: if_splits)

lemma not128_abs [simp]: "abs128 (not128 x) = NOT (abs128 x)"
  by (rule abs128_eqI) (auto simp: bit_abs128 bit_not_iff not128_def)

lemma or128_abs [simp]: "abs128 (or128 x y) = abs128 x OR abs128 y"
  by (rule abs128_eqI) (auto simp: bit_abs128 bit_or_iff or128_def)

lemma and128_abs [simp]: "abs128 (and128 x y) = abs128 x AND abs128 y"
  by (rule abs128_eqI) (auto simp: bit_abs128 bit_and_iff and128_def)

lemma xor128_abs [simp]: "abs128 (xor128 x y) = abs128 x XOR abs128 y"
  by (rule abs128_eqI) (auto simp: bit_abs128 bit_xor_iff xor128_def)

lemma shl128_abs [simp]: "abs128 (shl128 x n) = push_bit n (abs128 x)"
  by (rule abs128_eqI) (auto simp: bit_abs128 shl128_def bit_simps ac_simps dest: bit_imp_le_length)

lemma shr128_abs [simp]: "abs128 (shr128 x n) = drop_bit n (abs128 x)"
  by (rule abs128_eqI) (auto simp: bit_abs128 shr128_def bit_simps ac_simps dest: bit_imp_le_length)

lemma neg128_abs [simp]: "abs128 (neg128 x) = - abs128 x"
proof -
  have "neg128 x = add128 (not128 x) (uint128_int 1)"
    by (auto simp: neg128_def add128_def not128_def uint128_int_def Let_def)
  then show ?thesis by (simp add: minus_eq_not_plus_1)
qed


text \<open>Multiplication: the products of the 32-bit halves, each below \<open>2 ^ 64\<close>.\<close>

lemma halves: "(ucast x :: 128 word) = push_bit 32 (ucast (drop_bit 32 x)) + ucast (x AND 0xffffffff)" for x :: u64
proof -
  have m: "x AND 0xffffffff = take_bit 32 x" by (simp add: take_bit_eq_mask mask_eq_exp_minus_1)
  have "push_bit 32 (ucast (drop_bit 32 x)) + ucast (take_bit 32 x) =
      (push_bit 32 (ucast (drop_bit 32 x)) OR ucast (take_bit 32 x) :: 128 word)"
    by (rule disjunctive_add_eq_or) (auto intro!: bit_word_eqI simp: bit_simps)
  also have "\<dots> = ucast x" by (rule bit_word_eqI) (auto simp: bit_simps)
  finally show ?thesis using m by simp
qed

lemma half_bounds: "unat (drop_bit 32 x) < 2 ^ 32" "unat (x AND 0xffffffff) < 2 ^ 32" for x :: u64
proof -
  show "unat (drop_bit 32 x) < 2 ^ 32" using u64_bound [of x] by (simp add: drop_bit_eq_div unat_div less_mult_imp_div_less)
  have "x AND 0xffffffff = take_bit 32 x" by (simp add: take_bit_eq_mask mask_eq_exp_minus_1)
  then show "unat (x AND 0xffffffff) < 2 ^ 32" using take_bit_nat_less_exp [of 32 "unat x"] by (simp add: unsigned_take_bit_eq)
qed

lemma half_product: "unat a < 2 ^ 32 \<Longrightarrow> unat b < 2 ^ 32 \<Longrightarrow> (ucast (a * b) :: 128 word) = ucast a * ucast b" for a b :: u64
proof -
  assume ab: "unat a < 2 ^ 32" "unat b < 2 ^ 32"
  then have "unat a * unat b < 2 ^ 32 * 2 ^ 32" by (intro mult_strict_mono) auto
  then have "unat (ucast (a * b) :: 128 word) = unat (ucast a * ucast b :: 128 word)"
    by (simp add: unat_widen unat_word_ariths)
  then show ?thesis by (simp add: word_unat_eq_iff)
qed


lemma high_mult_left: "push_bit 64 (ucast (a * b) :: 128 word) = push_bit 64 (ucast a) * ucast b" for a b :: u64
  unfolding high_mult by (simp add: push_bit_eq_mult ac_simps)

lemma mul128_abs [simp]: "abs128 (mul128 x y) = abs128 x * abs128 y"
proof -
  define a b c d where limbs: "a = drop_bit 32 (High64 x)" "b = High64 x AND 0xffffffff"
    "c = drop_bit 32 (Low64 x)" "d = Low64 x AND 0xffffffff"
  define e f g h where limbs': "e = drop_bit 32 (High64 y)" "f = High64 y AND 0xffffffff"
    "g = drop_bit 32 (Low64 y)" "h = Low64 y AND 0xffffffff"
  have small: "unat v < 2 ^ 32" if "v \<in> {a, b, c, d, e, f, g, h}" for v
    using that half_bounds by (auto simp: limbs limbs')
  have prods: "(ucast (c * h) :: 128 word) = ucast c * ucast h" "(ucast (d * g) :: 128 word) = ucast d * ucast g"
    "(ucast (d * h) :: 128 word) = ucast d * ucast h"
    by (rule half_product; rule small; simp)+
  define S :: "128 word" where "S = 2 ^ 32"
  have S: "push_bit 32 z = z * S" "push_bit 64 z = z * (S * S)" for z
    by (simp_all add: S_def push_bit_eq_mult)
  have S': "ucast (4294967296 :: u64) = S" "S * S * S * S = 0" by (simp_all add: S_def)
  have x: "abs128 x = (ucast a * S + ucast b) * (S * S) + (ucast c * S + ucast d)"
    using halves [of "High64 x"] halves [of "Low64 x"] by (simp add: abs128_sum S limbs)
  have y: "abs128 y = (ucast e * S + ucast f) * (S * S) + (ucast g * S + ucast h)"
    using halves [of "High64 y"] halves [of "Low64 y"] by (simp add: abs128_sum S limbs')
  have "abs128 (mul128 x y) =
      push_bit 64 (ucast ((a * h + b * g + c * f + d * e) * 4294967296 + (b * h + c * g + d * f))) +
      ucast (c * h) * S + ucast (d * g) * S + ucast (d * h)"
    by (simp add: mul128_def Let_def limbs [symmetric] limbs' [symmetric] abs128_pair push_bit_eq_mult [of 32 "_ :: u64"] S(1))
  also have "\<dots> = ((ucast a * ucast h + ucast b * ucast g + ucast c * ucast f + ucast d * ucast e) * S +
      (ucast b * ucast h + ucast c * ucast g + ucast d * ucast f)) * (S * S) +
      ucast c * ucast h * S + ucast d * ucast g * S + ucast d * ucast h"
    unfolding high_add high_mult_left unfolding prods S S' by (simp only: ring_distribs) (simp add: ac_simps)
  also have "\<dots> = abs128 x * abs128 y - S * S * S * S * (ucast a * ucast g + ucast b * ucast f + ucast c * ucast e +
      ucast a * ucast f * S + ucast b * ucast e * S + ucast a * ucast e * S * S)"
    unfolding x y by (simp only: ring_distribs) (simp add: ac_simps)
  finally show ?thesis by (simp add: S')
qed


lemma uint128_int_abs: "abs128 (uint128_int b) = scast b"
proof (rule abs128_eqI)
  fix i :: nat
  assume "i < 128"
  moreover have "bit b 31 \<longleftrightarrow> sint b < 0" using bit_last_iff [of b] by simp
  ultimately show "bit (abs128 (uint128_int b)) i = bit (scast b :: 128 word) i"
    by (auto simp: bit_abs128 uint128_int_def bit_signed_iff bit_minus_1_iff min_def)
qed

text \<open>
  Property C28: two words of 64 bits implement 128-bit arithmetic. Construction, comparison,
  addition, subtraction and multiplication with their carries, negation, the logical operators,
  the shifts by any amount, increment and decrement all give the result of the \<open>128 word\<close> that
  the two words stand for, and no value is represented twice; as an expression \<open>++x\<close> and \<open>--x\<close> have
  the new value, \<open>x++\<close> and \<open>x--\<close> the old one.
\<close>

theorem uint128_implements:
  "abs128 (uint128_int b) = scast b \<and> abs128 (uint128_u32 b) = ucast b \<and> abs128 (uint128_u64 c) = ucast c \<and>
   abs128 (add128 x y) = abs128 x + abs128 y \<and> abs128 (sub128 x y) = abs128 x - abs128 y \<and>
   abs128 (mul128 x y) = abs128 x * abs128 y \<and> abs128 (neg128 x) = - abs128 x \<and>
   abs128 (not128 x) = NOT (abs128 x) \<and> abs128 (or128 x y) = abs128 x OR abs128 y \<and>
   abs128 (and128 x y) = abs128 x AND abs128 y \<and> abs128 (xor128 x y) = abs128 x XOR abs128 y \<and>
   abs128 (shl128 x n) = push_bit n (abs128 x) \<and> abs128 (shr128 x n) = drop_bit n (abs128 x) \<and>
   shl_assign128 x n = shl128 x n \<and> shr_assign128 x n = shr128 x n \<and>
   abs128 (snd (pre_increment x)) = abs128 x + 1 \<and> abs128 (snd (post_decrement x)) = abs128 x - 1 \<and>
   abs128 (snd (post_increment x)) = abs128 x + 1 \<and> abs128 (snd (pre_decrement x)) = abs128 x - 1 \<and>
   fst (pre_increment x) = snd (pre_increment x) \<and> fst (pre_decrement x) = snd (pre_decrement x) \<and>
   fst (post_increment x) = x \<and> fst (post_decrement x) = x \<and>
   less128 x y = (abs128 x < abs128 y) \<and> le128 x y = (abs128 x \<le> abs128 y) \<and>
   greater128 x y = (abs128 y < abs128 x) \<and> ge128 x y = (abs128 y \<le> abs128 x) \<and>
   eq128 x y = (abs128 x = abs128 y) \<and> eq128 x y = (x = y) \<and> is_zero128 x = (abs128 x = 0)"
proof -
  have "greater128 x y = less128 y x" "ge128 x y = le128 y x"
    unfolding greater128_def ge128_def less128_def le128_def by auto
  moreover have "is_zero128 x = eq128 x (uint128_int 0)" unfolding is_zero128_def eq128_def by (auto simp: uint128_int_def)
  moreover have "abs128 (uint128_u32 b) = ucast b"
    by (rule abs128_eqI) (auto simp: bit_abs128 uint128_u32_def bit_simps dest: bit_imp_le_length)
  moreover have "eq128 x y = (x = y)" using abs128_inj [of x y] by auto
  ultimately show ?thesis
    by (simp add: uint128_int_abs pre_increment_def pre_decrement_def post_increment_def post_decrement_def Let_def)
qed

section \<open>The highest bit\<close>

text \<open>Each step keeps \<open>n = N div 2 ^ pos\<close> and halves the number of bits that \<open>n\<close> may have.\<close>

lemma unat_p2: "k < LENGTH('a) \<Longrightarrow> unat (2 ^ k :: 'a::len word) = 2 ^ k"
proof -
  assume "k < LENGTH('a)"
  then have "unat (word_of_nat (2 ^ k) :: 'a word) = 2 ^ k" unfolding unat_of_nat by simp
  then show ?thesis by simp
qed

lemma STEP_div:
  fixes n :: "'a::len word"
  assumes "unat n = N div 2 ^ pos" "n \<noteq> 0" "unat n < 2 ^ (2 * sh)" "sh < LENGTH('a)" "pos AND sh = 0"
  obtains n' pos' where "STEP sh (n, pos) = (n', pos')" "unat n' = N div 2 ^ pos'" "n' \<noteq> 0" "unat n' < 2 ^ sh"
    "pos' = pos \<or> pos' = pos + sh"
proof (cases "push_bit sh 1 \<le> n")
  case True
  have p: "unat (push_bit sh 1 :: 'a word) = 2 ^ sh" using assms(4) by (simp add: push_bit_eq_mult unat_p2)
  have o: "pos OR sh = pos + sh" using assms(5) by (simp add: disjunctive_add_eq_or)
  have d: "unat (drop_bit sh n) = unat n div 2 ^ sh" by (simp add: drop_bit_eq_div unat_div unat_p2 assms(4))
  have "unat n div 2 ^ sh < 2 ^ sh" using assms(3) by (intro less_mult_imp_div_less) (simp add: mult_2 power_add)
  moreover have "unat n div 2 ^ sh \<noteq> 0" using True p by (simp add: word_le_nat_alt div_eq_0_iff)
  ultimately show thesis
    using True o d assms(1) that [of "drop_bit sh n" "pos + sh"]
    by (auto simp: STEP_def div_mult2_eq power_add word_unat_eq_iff)
next
  case False
  have p: "unat (push_bit sh 1 :: 'a word) = 2 ^ sh" using assms(4) by (simp add: push_bit_eq_mult unat_p2)
  show thesis using False p assms that [of n pos] by (simp add: STEP_def word_le_nat_alt)
qed

text \<open>The table of the last four bits, packed into one word.\<close>

lemma nibble_table:
  "list_all (\<lambda>n. let k = unat (drop_bit (4 * n) 0x3333333322221100 AND 0x3 :: u64) in 2 ^ k \<le> n \<and> n < 2 ^ (k + 1)) [1..<16]"
  by code_simp

lemma nibble_top: "0 < n \<Longrightarrow> n < 16 \<Longrightarrow>
    2 ^ unat (drop_bit (4 * n) 0x3333333322221100 AND 0x3 :: u64) \<le> n \<and>
    n < 2 ^ (unat (drop_bit (4 * n) 0x3333333322221100 AND 0x3 :: u64) + 1)"
  using nibble_table unfolding list_all_iff Let_def by simp

lemma Fls64_top: "n \<noteq> 0 \<Longrightarrow> 2 ^ Fls64 n \<le> unat n \<and> unat n < 2 ^ (Fls64 n + 1)"
proof -
  assume nz: "n \<noteq> 0"
  obtain n1 p1 where 1: "STEP 0x20 (n, 0) = (n1, p1)" "unat n1 = unat n div 2 ^ p1" "n1 \<noteq> 0" "unat n1 < 2 ^ 0x20"
      "p1 = 0 \<or> p1 = 0 + 0x20"
    by (rule STEP_div [of n "unat n" 0 "0x20"]) (use nz u64_bound [of n] in auto)
  define m where "m = (ucast n1 :: u32)"
  have m: "unat m = unat n div 2 ^ p1" "m \<noteq> 0"
    using 1 by (simp_all add: m_def unsigned_ucast_eq take_bit_nat_eq_self word_unat_eq_iff)
  obtain n2 p2 where 2: "STEP 0x10 (m, p1) = (n2, p2)" "unat n2 = unat n div 2 ^ p2" "n2 \<noteq> 0" "unat n2 < 2 ^ 0x10"
      "p2 = p1 \<or> p2 = p1 + 0x10"
    by (rule STEP_div [of m "unat n" p1 "0x10"]) (use m 1 in auto)
  obtain n3 p3 where 3: "STEP 0x08 (n2, p2) = (n3, p3)" "unat n3 = unat n div 2 ^ p3" "n3 \<noteq> 0" "unat n3 < 2 ^ 0x08"
      "p3 = p2 \<or> p3 = p2 + 0x08"
    by (rule STEP_div [of n2 "unat n" p2 "0x08"]) (use 2 1(5) in auto)
  obtain n4 p4 where 4: "STEP 0x04 (n3, p3) = (n4, p4)" "unat n4 = unat n div 2 ^ p4" "n4 \<noteq> 0" "unat n4 < 2 ^ 0x04"
    by (rule STEP_div [of n3 "unat n" p3 "0x04"]) (use 3 2(5) 1(5) in auto)
  have "0 < unat n4" "unat n4 < 16" using 4(3,4) by (auto simp: word_unat_eq_iff)
  note t = nibble_top [OF this]
  have q: "unat (push_bit 2 n4) = 4 * unat n4"
    using 4(4) by (simp add: push_bit_eq_mult unat_word_ariths)
  define k where "k = unat (drop_bit (4 * unat n4) 0x3333333322221100 AND 0x3 :: u64)"
  have F: "Fls64 n = p4 + k"
    by (simp add: Fls64_def 1(1) m_def [symmetric] 2(1) 3(1) 4(1) q k_def)
  have "2 ^ k \<le> unat n div 2 ^ p4" "unat n div 2 ^ p4 < 2 ^ (k + 1)" using t 4(2) by (simp_all add: k_def)
  then show ?thesis unfolding F
    by (simp add: power_add less_eq_div_iff_mult_less_eq div_less_iff_less_mult ac_simps)
qed

lemma Fls128_top: "abs128 x \<noteq> 0 \<Longrightarrow> 2 ^ Fls128 x \<le> unat (abs128 x) \<and> unat (abs128 x) < 2 ^ (Fls128 x + 1)"
proof (cases "High64 x = 0")
  case True
  assume "abs128 x \<noteq> 0"
  with True have "Low64 x \<noteq> 0" by (auto simp: abs128_def)
  with True show ?thesis using Fls64_top [of "Low64 x"] by (simp add: Fls128_def unat_abs128)
next
  case False
  let ?k = "Fls64 (High64 x)"
  have "2 ^ ?k \<le> unat (High64 x)" "unat (High64 x) + 1 \<le> 2 ^ (?k + 1)" using Fls64_top [OF False] by auto
  then have "2 ^ ?k * 2 ^ 64 \<le> unat (High64 x) * 2 ^ 64" "(unat (High64 x) + 1) * 2 ^ 64 \<le> 2 ^ (?k + 1) * 2 ^ 64"
    by (simp_all only: mult_le_mono1)
  then show ?thesis using False u64_bound [of "Low64 x"] by (simp add: Fls128_def unat_abs128 power_add)
qed


section \<open>Division\<close>

lemma unat_push: "unat w * 2 ^ k < 2 ^ 128 \<Longrightarrow> unat (push_bit k w) = unat w * 2 ^ k" for w :: "128 word"
proof -
  assume b: "unat w * 2 ^ k < 2 ^ 128"
  have "unat (push_bit k w) = unat (word_of_nat (unat w * 2 ^ k) :: 128 word)" by (simp add: push_bit_eq_mult)
  also have "\<dots> = unat w * 2 ^ k" using b unfolding unat_of_nat by simp
  finally show ?thesis .
qed

lemma divide_loop_div:
  assumes "0 < unat (abs128 d)" "unat (abs128 r) < unat (abs128 d) * 2 ^ k" "unat (abs128 d) * 2 ^ k \<le> 2 ^ 129 - 1"
    "(unat (abs128 q) + 1) * 2 ^ k \<le> 2 ^ 128" "divide_loop k d q r = (q', r')"
  shows "unat (abs128 q') = unat (abs128 q) * 2 ^ k + unat (abs128 r) div unat (abs128 d) \<and>
    unat (abs128 r') = unat (abs128 r) mod unat (abs128 d)"
  using assms
proof (induction k arbitrary: q r)
  case (Suc k)
  let ?D = "unat (abs128 d)" and ?r = "unat (abs128 r)" and ?q = "unat (abs128 q)"
  have S: "unat (abs128 (shl128 d k)) = ?D * 2 ^ k" using Suc.prems(3) by (simp add: unat_push)
  have "(?q + 1) * 2 ^ k * 2 \<le> 2 ^ 128" using Suc.prems(4) by (simp add: algebra_simps)
  then have qb: "(2 * ?q + 2) * 2 ^ k \<le> 2 ^ 128" by (simp add: algebra_simps)
  then have "2 * ?q + 2 \<le> 2 ^ 128"
    using mult_le_mono2 [of 1 "2 ^ k" "2 * ?q + 2"] le_trans by fastforce
  then have Q: "unat (abs128 (shl128 q 1)) = 2 * ?q" using unat_push [of "abs128 q" 1] by simp
  have Q1: "unat (abs128 (add128 (shl128 q 1) (uint128_int 1))) = 2 * ?q + 1"
    using Q \<open>2 * ?q + 2 \<le> 2 ^ 128\<close> by (simp add: unat_word_ariths)
  show ?case
  proof (cases "?D * 2 ^ k \<le> ?r")
    case True
    then have le: "le128 (shl128 d k) r" using S by (simp add: word_le_nat_alt)
    have R: "unat (abs128 (sub128 r (shl128 d k))) = ?r - ?D * 2 ^ k" using S True by (simp add: unat_sub_if_size)
    have d: "?r div ?D = (?r - ?D * 2 ^ k) div ?D + 2 ^ k" "?r mod ?D = (?r - ?D * 2 ^ k) mod ?D"
      using True Suc.prems(1) by (auto simp: le_iff_add)
    have "unat (abs128 q') = (2 * ?q + 1) * 2 ^ k + (?r - ?D * 2 ^ k) div ?D \<and> unat (abs128 r') = (?r - ?D * 2 ^ k) mod ?D"
      using Suc.IH [of "sub128 r (shl128 d k)" "add128 (shl128 q 1) (uint128_int 1)"] Suc.prems qb le
      unfolding Q1 R by (simp add: Let_def)
    with d show ?thesis by (simp add: algebra_simps)
  next
    case False
    then have "\<not> le128 (shl128 d k) r" using S by (simp add: word_le_nat_alt)
    moreover have "(2 * ?q + 1) * 2 ^ k \<le> 2 ^ 128" using qb by (simp add: algebra_simps)
    ultimately show ?thesis
      using Suc.IH [of r "shl128 q 1"] Suc.prems False unfolding Q by (simp add: Let_def algebra_simps)
  qed
qed auto


text \<open>
  Property C27: long division, one bit of the quotient after the other, gives the quotient and
  the remainder of the 128-bit values, and ends the process exactly when the divisor is zero.
\<close>

theorem DivModImpl_divides:
  "map_option (\<lambda>(q, r). (abs128 q, abs128 r)) (DivModImpl x y) =
     (if abs128 y = 0 then None else Some (abs128 x div abs128 y, abs128 x mod abs128 y))"
proof (cases "abs128 y = 0 \<or> abs128 x < abs128 y")
  case True
  have "abs128 x div abs128 y = 0" "abs128 x mod abs128 y = abs128 x" if "abs128 x < abs128 y"
    using that by (simp_all add: word_unat_eq_iff unat_div unat_mod word_less_nat_alt)
  with True show ?thesis by (auto simp: DivModImpl_def)
next
  case False
  then have nz: "abs128 x \<noteq> 0" "abs128 y \<noteq> 0" and le: "unat (abs128 y) \<le> unat (abs128 x)"
    by (auto simp: word_less_nat_alt unat_0_iff)
  define a b where ab: "a = Fls128 x" "b = Fls128 y"
  have X: "2 ^ a \<le> unat (abs128 x)" "unat (abs128 x) < 2 ^ (a + 1)" using Fls128_top [OF nz(1)] by (auto simp: ab)
  have Y: "2 ^ b \<le> unat (abs128 y)" "unat (abs128 y) < 2 ^ (b + 1)" using Fls128_top [OF nz(2)] by (auto simp: ab)
  have "(2::nat) ^ b < 2 ^ (a + 1)" using X Y le by linarith
  then have "b < a + 1" by (rule power_less_imp_less_exp [rotated]) simp
  then have k: "nat (int a - int b + 1) = a - b + 1" "a + 1 = b + (a - b + 1)" by auto
  have "unat (abs128 x) < 2 ^ 128" using unsigned_less [of "abs128 x", where 'a = nat] by simp
  then have "(2::nat) ^ a < 2 ^ 128" using X(1) by linarith
  then have a: "a < 128" by (rule power_less_imp_less_exp [rotated]) simp
  have 1: "unat (abs128 x) < unat (abs128 y) * 2 ^ (a - b + 1)"
  proof -
    have "unat (abs128 x) < 2 ^ b * 2 ^ (a - b + 1)" using X(2) unfolding k(2) by (simp add: power_add)
    also have "\<dots> \<le> unat (abs128 y) * 2 ^ (a - b + 1)" using Y(1) by (rule mult_le_mono1)
    finally show ?thesis .
  qed
  have "unat (abs128 y) * 2 ^ (a - b + 1) < 2 ^ (b + 1) * 2 ^ (a - b + 1)" using Y(2) by (intro mult_strict_right_mono) auto
  also have "\<dots> = 2 ^ (a + 2)" using k(2) by (simp flip: power_add)
  also have "\<dots> \<le> (2::nat) ^ 129" using a by (intro power_increasing) auto
  finally have 2: "unat (abs128 y) * 2 ^ (a - b + 1) \<le> 2 ^ 129 - 1" by linarith
  have 3: "(unat (abs128 (uint128_int 0)) + 1) * 2 ^ (a - b + 1) \<le> (2::nat) ^ 128"
    using power_increasing [of "a - b + 1" 128 "2::nat"] a by simp
  obtain q r where qr: "divide_loop (a - b + 1) y (uint128_int 0) x = (q, r)" by (cases "divide_loop (a - b + 1) y (uint128_int 0) x")
  have "0 < unat (abs128 y)" using nz(2) by (simp add: word_unat_eq_iff)
  from divide_loop_div [OF this 1 2 3 qr]
  have "abs128 q = abs128 x div abs128 y" "abs128 r = abs128 x mod abs128 y"
    by (simp_all add: word_unat_eq_iff unat_div unat_mod)
  then show ?thesis using False k(1) qr by (simp add: DivModImpl_def ab)
qed

lemma DivModImpl_Some:
  assumes "abs128 y \<noteq> 0"
  obtains q r where "DivModImpl x y = Some (q, r)" "abs128 q = abs128 x div abs128 y" "abs128 r = abs128 x mod abs128 y"
  using DivModImpl_divides [of x y] assms by (cases "DivModImpl x y") auto


section \<open>Output\<close>

definition pad_digits :: "nat \<Rightarrow> bytes \<Rightarrow> bytes" where
  "pad_digits k t = replicate (k - length t) 48 @ t"

lemma digits_in_small: "n < b \<Longrightarrow> digits_in b u n = [digit_char u n]"
  by (simp add: digits_in.simps)

lemma digits_in_step: "1 < b \<Longrightarrow> b \<le> n \<Longrightarrow> digits_in b u n = digits_in b u (n div b) @ [digit_char u (n mod b)]"
  by (subst digits_in.simps) simp

lemma pad_digits_step:
  "1 < b \<Longrightarrow> pad_digits (Suc (Suc k)) (digits_in b u l) = pad_digits (Suc k) (digits_in b u (l div b)) @ [digit_char u (l mod b)]"
  by (cases "l < b") (simp_all add: pad_digits_def digits_in_small digits_in_step digit_char_def replicate_append_same)

text \<open>The digits of a number in two parts, the lower one filled up with zeros.\<close>

lemma digits_in_parts:
  assumes b: "1 < b" and h: "0 < h"
  shows "l < b ^ Suc k \<Longrightarrow> digits_in b u (h * b ^ Suc k + l) = digits_in b u h @ pad_digits (Suc k) (digits_in b u l)"
proof (induction k arbitrary: l)
  case 0
  then have l: "l < b" by simp
  have "b \<le> h * b" using h by simp
  then have "b \<le> h * b + l" by linarith
  then show ?case using b l by (simp add: digits_in_step digits_in_small pad_digits_def)
next
  case (Suc k)
  let ?n = "h * b ^ Suc (Suc k) + l"
  have "b * 1 \<le> b * (h * b ^ Suc k)" using h b by (intro mult_le_mono2) simp
  then have n: "b \<le> ?n" by (simp only: mult.left_commute [of b h] power_Suc mult_1_right)
  have d: "?n div b = h * b ^ Suc k + l div b" "?n mod b = l mod b"
    using b by (simp_all add: algebra_simps mult.left_commute [of h b])
  have "l div b < b ^ Suc k" using Suc.prems b by (intro less_mult_imp_div_less) (simp add: ac_simps)
  from Suc.IH [OF this] show ?case
    unfolding digits_in_step [OF b n] d pad_digits_step [OF b] by simp
qed

lemma put_u64_plain: "put_u64 (f\<lparr>adjust_flag := a, ios_width := 0, ios_fill := c\<rparr>) v = number_text f (unat v)"
  by (simp add: put_u64_def number_text_def base_prefix_def Let_def)

lemma put_u64_padded:
  "put_u64 (f\<lparr>adjust_flag := a, showbase := False, ios_fill := 48, ios_width := w\<rparr>) v =
    pad_digits w (digits_in (radix (base_flag f)) (uppercase f) (unat v))"
  by (simp add: put_u64_def number_text_def base_prefix_def pad_digits_def Let_def)


lemma chunk_radix:
  "unat (fst (chunk_of f)) = radix f ^ snd (chunk_of f)" "1 < radix f" "\<exists>k. snd (chunk_of f) = Suc k"
  "2 ^ 128 \<le> radix f ^ snd (chunk_of f) * radix f ^ snd (chunk_of f) * 2 ^ 64" "radix f ^ snd (chunk_of f) < 2 ^ 64"
  by (cases f; simp)+

text \<open>The three chunks of a number, and their text.\<close>

lemma low_word: "unat (abs128 x) < 2 ^ 64 \<Longrightarrow> unat (Low64 x) = unat (abs128 x)"
  by (simp add: unat_abs128)

lemma chunk_values:
  assumes c: "chunk_of r = (c, k)" and B: "B = radix r ^ k"
    and 1: "abs128 h1 = abs128 b div ucast c" "abs128 low = abs128 b mod ucast c"
    and 2: "abs128 h2 = abs128 h1 div ucast c" "abs128 mid = abs128 h1 mod ucast c"
  shows "unat (Low64 low) = unat (abs128 b) mod B" "unat (Low64 mid) = unat (abs128 b) div B mod B"
    "unat (Low64 h2) = unat (abs128 b) div B div B"
proof -
  let ?n = "unat (abs128 b)"
  note r = chunk_radix [of r, unfolded c fst_conv snd_conv, folded B]
  have u: "unat (ucast c :: 128 word) = B" using r(1) by (simp add: unat_widen)
  have "0 < B" using r(2) B by simp
  then have m: "?n mod B < 2 ^ 64" "?n div B mod B < 2 ^ 64"
    using r(5) mod_less_divisor [of B ?n] mod_less_divisor [of B "?n div B"] by linarith+
  have "?n < 2 ^ 128" using unsigned_less [of "abs128 b", where 'a = nat] by simp
  then have "?n < 2 ^ 64 * (B * B)" using r(4) by (simp only: mult.commute [of "2 ^ 64"])
  then have h: "?n div B div B < 2 ^ 64" by (simp only: div_mult2_eq [symmetric] less_mult_imp_div_less)
  have "unat (abs128 low) = ?n mod B" "unat (abs128 mid) = ?n div B mod B" "unat (abs128 h2) = ?n div B div B"
    by (simp_all add: 1 2 unat_div unat_mod u)
  then show "unat (Low64 low) = ?n mod B" "unat (Low64 mid) = ?n div B mod B" "unat (Low64 h2) = ?n div B div B"
    using low_word [of low] low_word [of mid] low_word [of h2] m h by simp_all
qed

definition low_digits :: "ios \<Rightarrow> nat \<Rightarrow> nat \<Rightarrow> bytes" where
  "low_digits f k n = pad_digits k (digits_in (radix (base_flag f)) (uppercase f) n)"

lemma number_text_parts:
  assumes "B = radix (base_flag f) ^ Suc k" "0 < n div B"
  shows "number_text f n = number_text f (n div B) @ low_digits f (Suc k) (n mod B)"
proof -
  have r: "1 < radix (base_flag f)" by (rule chunk_radix(2))
  then have "0 < B" using assms(1) by simp
  then have "digits_in (radix (base_flag f)) (uppercase f) n =
      digits_in (radix (base_flag f)) (uppercase f) (n div B) @ low_digits f (Suc k) (n mod B)"
    using digits_in_parts [OF r assms(2), of "n mod B" k "uppercase f"] unfolding assms(1) [symmetric] low_digits_def
    by (simp only: div_mult_mod_eq mod_less_divisor)
  moreover have "base_prefix f (n div B) = base_prefix f n" using assms(2) by (cases "n = 0") (simp_all add: base_prefix_def)
  ultimately show ?thesis by (simp add: number_text_def)
qed

lemma three_chunks:
  assumes "B = radix (base_flag f) ^ Suc k"
  shows "(if n div B div B \<noteq> 0
          then number_text f (n div B div B) @ low_digits f (Suc k) (n div B mod B) @ low_digits f (Suc k) (n mod B)
          else if n div B mod B \<noteq> 0 then number_text f (n div B mod B) @ low_digits f (Suc k) (n mod B)
          else number_text f (n mod B)) = number_text f n"
proof (cases "n div B = 0")
  case True
  then have "n mod B = n" using assms chunk_radix(2) [of "base_flag f"] by (auto simp: div_eq_0_iff)
  with True show ?thesis by simp
next
  case False
  then have n: "number_text f n = number_text f (n div B) @ low_digits f (Suc k) (n mod B)"
    by (intro number_text_parts [OF assms]) simp
  show ?thesis
  proof (cases "n div B div B = 0")
    case True
    then have "n div B mod B = n div B" using False by (auto simp: div_eq_0_iff)
    with True False n show ?thesis by simp
  next
    case 2: False
    then show ?thesis using n number_text_parts [OF assms, of "n div B"] by simp
  qed
qed

text \<open>
  Property C29: the output operator prints a 128-bit integer as the standard library would print
  a number of that value: in base 8, 10 or 16, with or without the prefix of the base, with
  small or capital letters, filled up to the width behind it with left adjustment and in front of it
  otherwise, also with internal adjustment, where the standard library would fill behind the prefix.
  It prints three chunks, the lower ones filled up with zeros; no division it makes is by zero.
\<close>

theorem put_uint128_text:
  "put_uint128 f b =
     Some (let t = number_text f (unat (abs128 b)); p = replicate (ios_width f - length t) (ios_fill f)
           in if adjust_flag f = AdjustLeft then t @ p else p @ t, f\<lparr>ios_width := 0\<rparr>)"
proof -
  obtain c k where c: "chunk_of (base_flag f) = (c, Suc k)" using chunk_radix(3) [of "base_flag f"] by (metis prod.collapse)
  define B where "B = radix (base_flag f) ^ Suc k"
  have c0: "abs128 (uint128_u64 c) \<noteq> 0"
    using chunk_radix(1,2) [of "base_flag f"] c by (auto simp: unat_0_iff [symmetric] unat_widen)
  obtain h1 low where 1: "DivModImpl b (uint128_u64 c) = Some (h1, low)"
      "abs128 h1 = abs128 b div ucast c" "abs128 low = abs128 b mod ucast c"
    using DivModImpl_Some [OF c0, of b] by auto
  obtain h2 mid where 2: "DivModImpl h1 (uint128_u64 c) = Some (h2, mid)"
      "abs128 h2 = abs128 h1 div ucast c" "abs128 mid = abs128 h1 mod ucast c"
    using DivModImpl_Some [OF c0, of h1] by auto
  note L = chunk_values [OF c B_def 1(2,3) 2(2,3)]
  have z: "Low64 h2 \<noteq> 0 \<longleftrightarrow> unat (abs128 b) div B div B \<noteq> 0" "Low64 mid \<noteq> 0 \<longleftrightarrow> unat (abs128 b) div B mod B \<noteq> 0"
    using L by (simp_all flip: unat_0_iff)
  define rep where "rep = (if Low64 h2 \<noteq> 0
      then number_text f (unat (Low64 h2)) @ low_digits f (Suc k) (unat (Low64 mid)) @ low_digits f (Suc k) (unat (Low64 low))
      else if Low64 mid \<noteq> 0 then number_text f (unat (Low64 mid)) @ low_digits f (Suc k) (unat (Low64 low))
      else number_text f (unat (Low64 low)))"
  have "rep = number_text f (unat (abs128 b))"
    unfolding rep_def z L by (rule three_chunks [OF B_def])
  moreover have "put_uint128 f b =
      Some (let p = replicate (ios_width f - length rep) (ios_fill f)
            in if adjust_flag f = AdjustLeft then rep @ p else p @ rep, f\<lparr>ios_width := 0\<rparr>)"
    using 1(1) 2(1) by (simp add: put_uint128_def c put_u64_plain put_u64_padded Let_def rep_def low_digits_def)
  ultimately show ?thesis by (simp add: Let_def)
qed

end
