(* ===== verification/Calendar.thy ===== *)
theory Calendar
  imports Itoa
begin

text \<open>
  Dates of the vendored protobuf (\<open>include/protobuf/google/protobuf/stubs/time.h\<close> and
  \<open>time.cc\<close>): from seconds since the epoch to a date and back. The numbers are \<open>int\<close>s:
  the routines check their range first, and from then on every value fits the type it has in
  the source.
\<close>

section \<open>Answers\<close>

text \<open>What a routine gives: a failed assertion or a bad index, \<open>false\<close> (a null pointer), or a result.\<close>

datatype 'a answer = Undefined | No | Yes 'a

fun on_yes :: "'a answer \<Rightarrow> ('a \<Rightarrow> 'b answer) \<Rightarrow> 'b answer" where
  "on_yes Undefined f = Undefined"
| "on_yes No f = No"
| "on_yes (Yes x) f = f x"

lemma on_yes_cong [fundef_cong]: "a = b \<Longrightarrow> (\<And>x. b = Yes x \<Longrightarrow> f x = g x) \<Longrightarrow> on_yes a f = on_yes b g"
  by (cases b) auto

section \<open>The calendar\<close>

record DateTime =
  dt_year :: int
  dt_month :: int
  dt_day :: int
  dt_hour :: int
  dt_minute :: int
  dt_second :: int

definition kSecondsPerMinute :: int where "kSecondsPerMinute = 60"
definition kSecondsPerHour :: int where "kSecondsPerHour = 3600"
definition kSecondsPerDay :: int where "kSecondsPerDay = kSecondsPerHour * 24"
definition kSecondsPer400Years :: int where "kSecondsPer400Years = kSecondsPerDay * (400 * 365 + 400 div 4 - 3)"
definition kSecondsFromEraToEpoch :: int where "kSecondsFromEraToEpoch = 62135596800"
definition kMinTime :: int where "kMinTime = - 62135596800"
definition kMaxTime :: int where "kMaxTime = 253402300799"

definition SecondsPer100Years :: "int \<Rightarrow> int" where
  "SecondsPer100Years year =
     (if c_mod year 400 = 0 \<or> 300 < c_mod year 400 then kSecondsPerDay * (100 * 365 + 100 div 4)
      else kSecondsPerDay * (100 * 365 + 100 div 4 - 1))"

definition SecondsPer4Years :: "int \<Rightarrow> int" where
  "SecondsPer4Years year =
     (if (c_mod year 100 = 0 \<or> 96 < c_mod year 100) \<and> \<not> (c_mod year 400 = 0 \<or> 396 < c_mod year 400)
      then kSecondsPerDay * (4 * 365)
      else kSecondsPerDay * (4 * 365 + 1))"

definition IsLeapYear :: "int \<Rightarrow> bool" where
  "IsLeapYear year \<longleftrightarrow> c_mod year 400 = 0 \<or> (c_mod year 4 = 0 \<and> c_mod year 100 \<noteq> 0)"

definition SecondsPerYear :: "int \<Rightarrow> int" where
  "SecondsPerYear year = kSecondsPerDay * (if IsLeapYear year then 366 else 365)"

definition kDaysInMonth :: "int list" where
  "kDaysInMonth = [0, 31, 28, 31, 30, 31, 30, 31, 31, 30, 31, 30, 31]"

text \<open>\<open>Undefined\<close> where the table is read outside its bounds.\<close>

definition SecondsPerMonth :: "int \<Rightarrow> bool \<Rightarrow> int answer" where
  "SecondsPerMonth month leap =
     (if month < 0 \<or> 13 \<le> month then Undefined
      else if month = 2 \<and> leap then Yes (kSecondsPerDay * (kDaysInMonth ! nat month + 1))
      else Yes (kSecondsPerDay * kDaysInMonth ! nat month))"

definition kDaysSinceJan :: "int list" where
  "kDaysSinceJan = [0, 0, 31, 59, 90, 120, 151, 181, 212, 243, 273, 304, 334]"

definition ValidateDateTime :: "DateTime \<Rightarrow> bool" where
  "ValidateDateTime t =
     (if dt_year t < 1 \<or> 9999 < dt_year t \<or> dt_month t < 1 \<or> 12 < dt_month t \<or> dt_day t < 1 \<or> 31 < dt_day t \<or>
         dt_hour t < 0 \<or> 23 < dt_hour t \<or> dt_minute t < 0 \<or> 59 < dt_minute t \<or> dt_second t < 0 \<or> 59 < dt_second t
      then False
      else if dt_month t = 2 \<and> IsLeapYear (dt_year t) then dt_day t \<le> kDaysInMonth ! nat (dt_month t) + 1
      else dt_day t \<le> kDaysInMonth ! nat (dt_month t))"

section \<open>From a date to seconds\<close>

text \<open>The loops over centuries, four years and years: the year reached and the seconds so far.\<close>

function add_centuries :: "int \<Rightarrow> int \<times> int \<Rightarrow> int \<times> int" where
  "add_centuries target (year, res) =
     (if 100 \<le> target - year then add_centuries target (year + 100, res + SecondsPer100Years year) else (year, res))"
  by pat_completeness auto
termination
  by (relation "measure (\<lambda>(target, year, res). nat (target - year))") auto

function add_four_years :: "int \<Rightarrow> int \<times> int \<Rightarrow> int \<times> int" where
  "add_four_years target (year, res) =
     (if 4 \<le> target - year then add_four_years target (year + 4, res + SecondsPer4Years year) else (year, res))"
  by pat_completeness auto
termination
  by (relation "measure (\<lambda>(target, year, res). nat (target - year))") auto

function add_years :: "int \<Rightarrow> int \<times> int \<Rightarrow> int \<times> int" where
  "add_years target (year, res) =
     (if year < target then add_years target (year + 1, res + SecondsPerYear year) else (year, res))"
  by pat_completeness auto
termination
  by (relation "measure (\<lambda>(target, year, res). nat (target - year))") auto

declare add_centuries.simps [simp del] add_four_years.simps [simp del] add_years.simps [simp del]

definition SecondsSinceCommonEra :: "DateTime \<Rightarrow> int answer" where
  "SecondsSinceCommonEra t =
     (if \<not> (1 \<le> dt_year t \<and> dt_year t \<le> 9999) then Undefined
      else
        let start = (if 400 \<le> dt_year t - 1
                     then (1 + c_div (dt_year t - 1) 400 * 400, kSecondsPer400Years * c_div (dt_year t - 1) 400)
                     else (1, 0));
            (year, res) = add_years (dt_year t) (add_four_years (dt_year t) (add_centuries (dt_year t) start));
            month = dt_month t
        in if \<not> (1 \<le> month \<and> month \<le> 12) then Undefined
           else
             let res = res + kSecondsPerDay * kDaysSinceJan ! nat month;
                 res = (if 2 < month \<and> IsLeapYear year then res + kSecondsPerDay else res)
             in if \<not> (1 \<le> dt_day t \<and>
                        dt_day t \<le> (if month = 2 \<and> IsLeapYear year then kDaysInMonth ! nat month + 1 else kDaysInMonth ! nat month))
                then Undefined
                else Yes (res + kSecondsPerDay * (dt_day t - 1) +
                          (kSecondsPerHour * dt_hour t + kSecondsPerMinute * dt_minute t + dt_second t)))"

definition DateTimeToSeconds :: "DateTime \<Rightarrow> int answer" where
  "DateTimeToSeconds t =
     (if \<not> ValidateDateTime t then No
      else on_yes (SecondsSinceCommonEra t) (\<lambda>n. Yes (n - kSecondsFromEraToEpoch)))"

section \<open>From seconds to a date\<close>

lemma SecondsPer_pos: "0 < SecondsPer100Years year" "0 < SecondsPer4Years year" "0 < SecondsPerYear year"
  by (simp_all add: SecondsPer100Years_def SecondsPer4Years_def SecondsPerYear_def kSecondsPerDay_def kSecondsPerHour_def)

function take_centuries :: "int \<times> int \<Rightarrow> int \<times> int" where
  "take_centuries (year, seconds) =
     (if SecondsPer100Years year \<le> seconds then take_centuries (year + 100, seconds - SecondsPer100Years year)
      else (year, seconds))"
  by pat_completeness auto
termination
  by (relation "measure (\<lambda>(year, seconds). nat seconds)")
    (use SecondsPer_pos in \<open>auto intro: order.strict_trans2\<close>)

function take_four_years :: "int \<times> int \<Rightarrow> int \<times> int" where
  "take_four_years (year, seconds) =
     (if SecondsPer4Years year \<le> seconds then take_four_years (year + 4, seconds - SecondsPer4Years year)
      else (year, seconds))"
  by pat_completeness auto
termination
  by (relation "measure (\<lambda>(year, seconds). nat seconds)")
    (use SecondsPer_pos in \<open>auto intro: order.strict_trans2\<close>)

function take_years :: "int \<times> int \<Rightarrow> int \<times> int" where
  "take_years (year, seconds) =
     (if SecondsPerYear year \<le> seconds then take_years (year + 1, seconds - SecondsPerYear year)
      else (year, seconds))"
  by pat_completeness auto
termination
  by (relation "measure (\<lambda>(year, seconds). nat seconds)")
    (use SecondsPer_pos in \<open>auto intro: order.strict_trans2\<close>)

function take_months :: "bool \<Rightarrow> int \<times> int \<Rightarrow> (int \<times> int) answer" where
  "take_months leap (month, seconds) =
     on_yes (SecondsPerMonth month leap) (\<lambda>n.
       if n \<le> seconds then take_months leap (month + 1, seconds - n) else Yes (month, seconds))"
  by pat_completeness auto
termination
  by (relation "measure (\<lambda>(leap, month, seconds). nat (13 - month))") (auto simp: SecondsPerMonth_def split: if_splits)

declare take_centuries.simps [simp del] take_four_years.simps [simp del] take_years.simps [simp del] take_months.simps [simp del]

definition SecondsToDateTime :: "int \<Rightarrow> DateTime answer" where
  "SecondsToDateTime seconds =
     (if seconds < kMinTime \<or> kMaxTime < seconds then No
      else
        let seconds = seconds + kSecondsFromEraToEpoch;
            start = (if kSecondsPer400Years \<le> seconds
                     then (1 + 400 * c_div seconds kSecondsPer400Years, c_mod seconds kSecondsPer400Years)
                     else (1, seconds));
            (year, seconds) = take_years (take_four_years (take_centuries start))
        in on_yes (take_months (IsLeapYear year) (1, seconds)) (\<lambda>(month, seconds).
             let day = 1 + c_div seconds kSecondsPerDay; seconds = c_mod seconds kSecondsPerDay;
                 hour = c_div seconds kSecondsPerHour; seconds = c_mod seconds kSecondsPerHour;
                 minute = c_div seconds kSecondsPerMinute; seconds = c_mod seconds kSecondsPerMinute
             in Yes \<lparr> dt_year = year, dt_month = month, dt_day = day, dt_hour = hour, dt_minute = minute, dt_second = seconds \<rparr>))"

section \<open>The calendar as it is meant\<close>

text \<open>
  The days of a year and of a month, and the number of a day counted from the first of January
  of the year 1.
\<close>

definition leap :: "int \<Rightarrow> bool" where
  "leap y \<longleftrightarrow> y mod 4 = 0 \<and> (y mod 100 = 0 \<longrightarrow> y mod 400 = 0)"

definition year_days :: "int \<Rightarrow> int" where
  "year_days y = (if leap y then 366 else 365)"

definition month_length :: "bool \<Rightarrow> int \<Rightarrow> int" where
  "month_length b m = (if m = 4 \<or> m = 6 \<or> m = 9 \<or> m = 11 then 30 else if m = 2 then if b then 29 else 28 else 31)"

definition month_days :: "int \<Rightarrow> int \<Rightarrow> int" where
  "month_days y m = month_length (leap y) m"

definition day_number :: "int \<Rightarrow> int \<Rightarrow> int \<Rightarrow> int" where
  "day_number y m d = (\<Sum>k\<in>{1..<y}. year_days k) + (\<Sum>k\<in>{1..<m}. month_days y k) + (d - 1)"

definition real_date :: "DateTime \<Rightarrow> bool" where
  "real_date t \<longleftrightarrow>
     1 \<le> dt_year t \<and> dt_year t \<le> 9999 \<and> 1 \<le> dt_month t \<and> dt_month t \<le> 12 \<and>
     1 \<le> dt_day t \<and> dt_day t \<le> month_days (dt_year t) (dt_month t) \<and>
     0 \<le> dt_hour t \<and> dt_hour t < 24 \<and> 0 \<le> dt_minute t \<and> dt_minute t < 60 \<and> 0 \<le> dt_second t \<and> dt_second t < 60"

definition era_seconds :: "DateTime \<Rightarrow> int" where
  "era_seconds t =
     86400 * day_number (dt_year t) (dt_month t) (dt_day t) + 3600 * dt_hour t + 60 * dt_minute t + dt_second t"

text \<open>The days before a year in closed form.\<close>

definition years_before :: "int \<Rightarrow> int" where
  "years_before y = 365 * (y - 1) + (y - 1) div 4 - (y - 1) div 100 + (y - 1) div 400"

lemma div_next: "0 < k \<Longrightarrow> y div k - (y - 1) div k = (if y mod k = 0 then 1 else 0)" for y k :: int
proof -
  assume k: "0 < k"
  show ?thesis
  proof (cases "y mod k = 0")
    case True
    then obtain q where q: "y = k * q" by auto
    have "(y - 1) div k = q - 1" using k unfolding q
      by (intro int_div_pos_eq [where r = "k - 1"]) (simp_all add: algebra_simps)
    then show ?thesis using k q by simp
  next
    case False
    have y: "y = k * (y div k) + y mod k" by simp
    have "0 \<le> y mod k" "y mod k < k" using k by simp_all
    with False have "(y - 1) div k = y div k"
      by (intro int_div_pos_eq [where r = "y mod k - 1"]) (use y in linarith)+
    then show ?thesis using False by simp
  qed
qed

lemma leap_mods: "y mod 400 = 0 \<Longrightarrow> y mod 100 = 0" "y mod 100 = 0 \<Longrightarrow> y mod 4 = 0" for y :: int
  using mod_mod_cancel [of 100 400 y] mod_mod_cancel [of 4 100 y] by simp_all

lemma regroup: "365 * y + a - b + c = 365 * (y - 1) + a' - b' + c' + 365 + (a - a') - (b - b') + (c - c')" for y :: int
  by simp

lemma regroup_sum: "x + 365 + a - b + c = x + (365 + a - b + c)" for x :: int
  by simp

lemma leap_count:
  "(c \<Longrightarrow> b) \<Longrightarrow> (b \<Longrightarrow> a) \<Longrightarrow>
   (365 :: int) + (if a then 1 else 0) - (if b then 1 else 0) + (if c then 1 else 0) = (if a \<and> (b \<longrightarrow> c) then 366 else 365)"
  by (cases a; cases b; cases c) simp_all

lemma years_before_step: "years_before (y + 1) = years_before y + year_days y"
proof -
  have "years_before (y + 1) = years_before y + 365 + (y div 4 - (y - 1) div 4) - (y div 100 - (y - 1) div 100) +
      (y div 400 - (y - 1) div 400)"
    unfolding years_before_def add_diff_cancel_right' by (rule regroup)
  also have "\<dots> = years_before y + (365 + (if y mod 4 = 0 then 1 else 0) - (if y mod 100 = 0 then 1 else 0) +
      (if y mod 400 = 0 then 1 else 0))"
    unfolding div_next [OF zero_less_numeral] by (rule regroup_sum)
  also have "365 + (if y mod 4 = 0 then 1 else 0) - (if y mod 100 = 0 then 1 else 0) + (if y mod 400 = 0 then 1 else 0) = year_days y"
    unfolding year_days_def leap_def by (rule leap_count) (fact leap_mods)+
  finally show ?thesis .
qed

lemma years_before_sum: "1 \<le> y \<Longrightarrow> (\<Sum>k\<in>{1..<y}. year_days k) = years_before y"
proof (induction y rule: int_ge_induct)
  case (step y)
  then have "{1..<y + 1} = insert y {1..<y}" by auto
  with step show ?case by (simp add: years_before_step)
qed (simp add: years_before_def)

lemma IsLeapYear_leap: "1 \<le> y \<Longrightarrow> IsLeapYear y = leap y"
  using leap_mods [of y] by (auto simp: IsLeapYear_def leap_def c_mod_nonneg)

lemma day_seconds: "kSecondsPerDay = 86400"
  by (simp add: kSecondsPerDay_def kSecondsPerHour_def)

lemma year_seconds: "1 \<le> y \<Longrightarrow> SecondsPerYear y = 86400 * (years_before (y + 1) - years_before y)"
  by (simp add: SecondsPerYear_def IsLeapYear_leap years_before_step year_days_def day_seconds)

lemma leap_turn: "a \<Longrightarrow> (if a \<and> (b \<longrightarrow> c) then 366 else 365) = (if b \<and> \<not> c then 365 else 366 :: int)"
  by simp

lemma four_more: "y + 1 + 1 = y + 2" "y + 2 + 1 = y + 3" "y + 3 + 1 = y + 4" for y :: int
  by simp_all

lemma four_seconds: "1 \<le> y \<Longrightarrow> y mod 4 = 1 \<Longrightarrow> SecondsPer4Years y = 86400 * (years_before (y + 4) - years_before y)"
proof -
  assume y: "1 \<le> y" "y mod 4 = 1"
  have hit: "(y mod (4 * k) = 0 \<or> 4 * k - 4 < y mod (4 * k)) = ((y + 3) mod (4 * k) = 0)" if "0 < k" for k
  proof -
    define r where "r = y mod (4 * k)"
    have r: "0 \<le> r" "r < 4 * k" "r mod 4 = 1" using y that by (simp_all add: r_def mod_mod_cancel)
    have "(y + 3) mod (4 * k) = (r + 3) mod (4 * k)" by (simp add: r_def mod_simps)
    moreover have "r + 3 = 4 * k \<or> r + 3 < 4 * k" using r by presburger
    then have "(r + 3) mod (4 * k) = 0 \<longleftrightarrow> r + 3 = 4 * k"
    proof
      assume "r + 3 < 4 * k"
      then have "(r + 3) mod (4 * k) = r + 3" using r(1) by (intro mod_pos_pos_trivial) linarith
      then show ?thesis using \<open>r + 3 < 4 * k\<close> r(1) by linarith
    qed simp
    moreover have "(r = 0 \<or> 4 * k - 4 < r) \<longleftrightarrow> r + 3 = 4 * k" using r by presburger
    ultimately show ?thesis by (simp add: r_def)
  qed
  have m: "(y + 1) mod 4 \<noteq> 0" "(y + 2) mod 4 \<noteq> 0" "(y + 3) mod 4 = 0" "y mod 4 \<noteq> 0" using y(2) by presburger+
  have "year_days y = 365" "year_days (y + 1) = 365" "year_days (y + 2) = 365"
    unfolding year_days_def leap_def using m by (simp_all only: if_False simp_thms)
  moreover have "year_days (y + 3) = (if (y + 3) mod 100 = 0 \<and> (y + 3) mod 400 \<noteq> 0 then 365 else 366)"
    unfolding year_days_def leap_def using m(3) by (rule leap_turn)
  moreover have "years_before (y + 4) = years_before y + year_days y + year_days (y + 1) + year_days (y + 2) + year_days (y + 3)"
    using years_before_step [of y] years_before_step [of "y + 1"] years_before_step [of "y + 2"] years_before_step [of "y + 3"]
    unfolding four_more by simp
  ultimately have "years_before (y + 4) - years_before y =
      (if (y + 3) mod 100 = 0 \<and> (y + 3) mod 400 \<noteq> 0 then 1460 else 1461)" by simp
  then show ?thesis
    using hit [of 25] hit [of 100] y(1) unfolding SecondsPer4Years_def day_seconds
    by (simp add: c_mod_nonneg)
qed

lemma regroup_century:
  "365 * (100 * q + 100) + (a + 25) - (b + 1) + c - (365 * (100 * q) + a - b + d) = 36500 + 25 - 1 + (c - d)" for q :: int
  by simp

lemma century_seconds: "1 \<le> y \<Longrightarrow> y mod 100 = 1 \<Longrightarrow> SecondsPer100Years y = 86400 * (years_before (y + 100) - years_before y)"
proof -
  assume y: "1 \<le> y" "y mod 100 = 1"
  define q where "q = y div 100"
  have q: "y = 100 * q + 1" using y(2) by (simp add: q_def) (metis mult_div_mod_eq)
  have m: "(100 * q) mod 400 = 100 * (q mod 4)" using mult_mod_right [of 100 q 4] by simp
  have "0 \<le> q mod 4" "q mod 4 < 4" by simp_all
  then have "(100 * (q mod 4) + 1) mod 400 = 100 * (q mod 4) + 1" by (intro mod_pos_pos_trivial) linarith+
  then have 1: "(100 * q + 1) mod 400 = 100 * (q mod 4) + 1" unfolding m [symmetric] by (simp add: mod_simps)
  have n: "100 * (q + 1) = 100 * q + 100" "q + 1 - 1 = q" "100 * 4 = (400::int)" by simp_all
  have "100 * q div (100 * 4) = q div 4" "100 * (q + 1) div (100 * 4) = (q + 1) div 4"
    by (rule div_mult_mult1, simp)+
  then have "(100 * q + 100) div 400 - 100 * q div 400 = (q + 1) div 4 - (q + 1 - 1) div 4"
    unfolding n by (simp only:)
  then have 2: "(100 * q + 100) div 400 - 100 * q div 400 = (if (q + 1) mod 4 = 0 then 1 else 0)"
    unfolding div_next [OF zero_less_numeral] .
  have "(q + 1) mod 4 = 0 \<longleftrightarrow> q mod 4 = 3" by presburger
  then have 3: "300 < 100 * (q mod 4) + 1 \<longleftrightarrow> (q + 1) mod 4 = 0" using \<open>q mod 4 < 4\<close> by linarith
  have "years_before (y + 100) - years_before y = 36500 + 25 - 1 + ((100 * q + 100) div 400 - 100 * q div 400)"
  proof -
    have n: "25 * 4 = (100::int)" "1 * 100 = (100::int)" by simp_all
    have "(100 * q + 25 * 4) div 4 = 25 + 100 * q div 4" "(100 * q + 1 * 100) div 100 = 1 + 100 * q div 100"
      by (rule div_mult_self1, simp)+
    then have e: "(100 * q + 100) div 4 = 100 * q div 4 + 25" "(100 * q + 100) div 100 = 100 * q div 100 + 1"
      unfolding n by (simp_all only: add.commute)
    have e': "100 * q + 1 + 100 - 1 = 100 * q + 100" "100 * q + 1 - 1 = 100 * q" by simp_all
    show ?thesis unfolding q years_before_def e' e by (rule regroup_century)
  qed
  then show ?thesis
    using y(1) 1 2 3 unfolding q by (simp add: SecondsPer100Years_def c_mod_nonneg day_seconds)
qed


text \<open>The years follow one another, so a day lies in one year only.\<close>

lemma year_days_pos: "365 \<le> year_days y"
  by (simp add: year_days_def)

lemma years_before_mono: "y < z \<Longrightarrow> years_before (y + 1) \<le> years_before z"
proof (induction z rule: int_gr_induct)
  case (step z)
  then show ?case using years_before_step [of z] year_days_pos [of z] by linarith
qed simp

lemma years_before_unique:
  "years_before y \<le> d \<Longrightarrow> d < years_before (y + 1) \<Longrightarrow> years_before z \<le> d \<Longrightarrow> d < years_before (z + 1) \<Longrightarrow> y = z"
  using years_before_mono [of y z] years_before_mono [of z y] by (cases y z rule: linorder_cases) linarith+

definition months_before :: "int \<Rightarrow> int \<Rightarrow> int" where
  "months_before y m = (\<Sum>k\<in>{1..<m}. month_days y k)"

lemma months_before_step: "1 \<le> m \<Longrightarrow> months_before y (m + 1) = months_before y m + month_days y m"
proof -
  assume "1 \<le> m"
  then have "{1..<m + 1} = insert m {1..<m}" by auto
  then show ?thesis by (simp add: months_before_def)
qed

lemma months_before_1 [simp]: "months_before y 1 = 0"
  by (simp add: months_before_def)

lemma months_before_mono: "a \<le> b \<Longrightarrow> months_before y a \<le> months_before y b"
  unfolding months_before_def by (rule sum_mono2) (auto simp: month_days_def month_length_def)

lemma months_before_unique:
  "months_before y m \<le> d \<Longrightarrow> d < months_before y (m + 1) \<Longrightarrow> months_before y n \<le> d \<Longrightarrow> d < months_before y (n + 1) \<Longrightarrow> m = n"
  using months_before_mono [of "m + 1" n y] months_before_mono [of "n + 1" m y]
  by (cases m n rule: linorder_cases) linarith+

text \<open>The tables of the months, for both kinds of years.\<close>

lemma months_list: "months_before y (int n + 1) = sum_list (map (month_length (leap y) \<circ> int) [1..<n + 1])"
proof (induction n)
  case (Suc n)
  then show ?case using months_before_step [of "int n + 1" y] by (simp add: month_days_def add.commute)
qed simp

lemma month_tables:
  "list_all (\<lambda>m. (if m = 2 \<and> b then kDaysInMonth ! m + 1 else kDaysInMonth ! m) = month_length b (int m) \<and>
      kDaysSinceJan ! m + (if 2 < m \<and> b then 1 else 0) = sum_list (map (month_length b \<circ> int) [1..<m])) [1..<13]"
  by (cases b; simp only:; code_simp)

lemma month_table:
  assumes "1 \<le> m" "m \<le> 12"
  shows "(if m = 2 \<and> leap y then kDaysInMonth ! nat m + 1 else kDaysInMonth ! nat m) = month_days y m"
    and "kDaysSinceJan ! nat m + (if 2 < m \<and> leap y then 1 else 0) = months_before y m"
proof -
  define k where "k = nat m"
  with assms have k: "m = int k" "k \<in> set [1..<13]" by auto
  then have "int (k - 1) + 1 = m" "k - 1 + 1 = k" by auto
  then have "months_before y m = sum_list (map (month_length (leap y) \<circ> int) [1..<k])"
    using months_list [of y "k - 1"] by simp
  moreover have i: "(int k = 2) = (k = 2)" "(2 < int k) = (2 < k)" by simp_all
  ultimately have "months_before y (int k) = sum_list (map (month_length (leap y) \<circ> int) [1..<k])" by (simp only: k(1))
  with bspec [OF month_tables [of "leap y", unfolded list_all_iff] k(2)]
  show "(if m = 2 \<and> leap y then kDaysInMonth ! nat m + 1 else kDaysInMonth ! nat m) = month_days y m"
    and "kDaysSinceJan ! nat m + (if 2 < m \<and> leap y then 1 else 0) = months_before y m"
    unfolding month_days_def k(1) i nat_int by (simp_all only:)
qed

lemma months_before_13: "months_before y 13 = year_days y"
proof -
  have "sum_list (map (month_length b \<circ> int) [1..<13]) = (if b then 366 else 365)" for b
    by (cases b; simp only:; code_simp)
  then show ?thesis using months_list [of y 12] by (simp add: year_days_def)
qed

lemma SecondsPerMonth_days:
  "1 \<le> m \<Longrightarrow> m \<le> 12 \<Longrightarrow> SecondsPerMonth m (leap y) = Yes (86400 * month_days y m)"
  using month_table(1) [of m y] by (auto simp: SecondsPerMonth_def day_seconds)

lemma if_bool: "(if b then d \<le> x else d \<le> y) = (d \<le> (if b then x else y))" for d :: int
  by simp

lemma ValidateDateTime_real: "ValidateDateTime t = real_date t"
proof (cases "1 \<le> dt_year t \<and> 1 \<le> dt_month t \<and> dt_month t \<le> 12")
  case True
  define n where "n = month_days (dt_year t) (dt_month t)"
  have "n \<le> 31" by (simp add: n_def month_days_def month_length_def)
  moreover have "(if dt_month t = 2 \<and> IsLeapYear (dt_year t) then dt_day t \<le> kDaysInMonth ! nat (dt_month t) + 1
      else dt_day t \<le> kDaysInMonth ! nat (dt_month t)) \<longleftrightarrow> dt_day t \<le> n"
    using month_table(1) [of "dt_month t" "dt_year t"] IsLeapYear_leap [of "dt_year t"] True unfolding n_def if_bool by simp
  ultimately show ?thesis using True unfolding ValidateDateTime_def real_date_def n_def [symmetric] by auto
qed (auto simp: ValidateDateTime_def real_date_def)

lemma day_number_parts: "1 \<le> y \<Longrightarrow> day_number y m d = years_before y + months_before y m + (d - 1)"
  by (simp add: day_number_def years_before_sum months_before_def)


section \<open>From a date to seconds\<close>

lemma add_centuries_sum:
  "1 \<le> year \<Longrightarrow> year mod 100 = 1 \<Longrightarrow> year \<le> target \<Longrightarrow> res = 86400 * years_before year \<Longrightarrow>
   \<exists>y. add_centuries target (year, res) = (y, 86400 * years_before y) \<and> 1 \<le> y \<and> y mod 4 = 1 \<and> y \<le> target"
proof (induction target "(year, res)" arbitrary: year res rule: add_centuries.induct)
  case (1 target year res)
  show ?case
  proof (cases "100 \<le> target - year")
    case True
    have "(year + 100) mod 100 = 1" using 1(3) by simp
    with 1 True century_seconds [of year] show ?thesis by (subst add_centuries.simps) (simp add: algebra_simps)
  next
    case False
    have "year mod 4 = 1" using mod_mod_cancel [of 4 100 year] 1(3) by simp
    with 1 False show ?thesis by (subst add_centuries.simps) simp
  qed
qed

lemma add_four_years_sum:
  "1 \<le> year \<Longrightarrow> year mod 4 = 1 \<Longrightarrow> year \<le> target \<Longrightarrow> res = 86400 * years_before year \<Longrightarrow>
   \<exists>y. add_four_years target (year, res) = (y, 86400 * years_before y) \<and> 1 \<le> y \<and> y \<le> target"
proof (induction target "(year, res)" arbitrary: year res rule: add_four_years.induct)
  case (1 target year res)
  have "(year + 4) mod 4 = 1" using 1(3) by simp
  with 1 four_seconds [of year] show ?case by (subst add_four_years.simps) (simp add: algebra_simps)
qed

lemma add_years_sum:
  "1 \<le> year \<Longrightarrow> year \<le> target \<Longrightarrow> res = 86400 * years_before year \<Longrightarrow>
   add_years target (year, res) = (target, 86400 * years_before target)"
proof (induction target "(year, res)" arbitrary: year res rule: add_years.induct)
  case (1 target year res)
  then show ?case using year_seconds [of year] by (subst add_years.simps) (simp add: algebra_simps)
qed

lemma cycle_days: "years_before (1 + c * 400) = 146097 * c"
proof -
  have m: "1 + c * 400 - 1 = c * 400" "c * 400 = c * 100 * 4" "c * 400 = c * 4 * 100" by simp_all
  have "c * 400 div 4 = c * 100" by (subst m(2)) (rule nonzero_mult_div_cancel_right, simp)
  moreover have "c * 400 div 100 = c * 4" by (subst m(3)) (rule nonzero_mult_div_cancel_right, simp)
  moreover have "c * 400 div 400 = c" by (rule nonzero_mult_div_cancel_right) simp
  ultimately show ?thesis unfolding years_before_def m(1) by simp
qed

lemma cycle_seconds: "kSecondsPer400Years = 86400 * 146097"
  by (simp add: kSecondsPer400Years_def day_seconds)

lemma SecondsSinceCommonEra_real: "real_date t \<Longrightarrow> SecondsSinceCommonEra t = Yes (era_seconds t)"
proof -
  assume t: "real_date t"
  define Y where "Y = dt_year t"
  have Y: "1 \<le> Y" "Y \<le> 9999" using t by (auto simp: real_date_def Y_def)
  define start where "start = (if 400 \<le> Y - 1 then (1 + c_div (Y - 1) 400 * 400, kSecondsPer400Years * c_div (Y - 1) 400) else (1, 0))"
  obtain y0 where start: "start = (y0, 86400 * years_before y0)" "1 \<le> y0" "y0 mod 100 = 1" "y0 \<le> Y"
  proof (cases "400 \<le> Y - 1")
    case True
    define c where "c = (Y - 1) div 400"
    have "c * 400 \<le> Y - 1" "0 \<le> c" using True by (simp_all add: c_def div_times_less_eq_dividend pos_imp_zdiv_nonneg_iff)
    moreover have "(1 + c * 4 * 100) mod 100 = 1 mod 100" by (rule mod_mult_self1)
    then have "(1 + c * 400) mod 100 = 1" by (simp only: mult.assoc) simp
    moreover have "start = (1 + c * 400, 86400 * years_before (1 + c * 400))"
      using True by (simp add: start_def c_div_nonneg c_def [symmetric] cycle_days cycle_seconds)
    ultimately show thesis using that by simp
  next
    case False
    then show thesis using that [of 1] Y by (simp add: start_def years_before_def)
  qed
  obtain y1 where 1: "add_centuries Y start = (y1, 86400 * years_before y1)" "1 \<le> y1" "y1 mod 4 = 1" "y1 \<le> Y"
    using add_centuries_sum [OF start(2,3,4) refl] start(1) by auto
  obtain y2 where 2: "add_four_years Y (add_centuries Y start) = (y2, 86400 * years_before y2)" "1 \<le> y2" "y2 \<le> Y"
    using add_four_years_sum [OF 1(2,3,4) refl] 1(1) by auto
  have 3: "add_years Y (add_four_years Y (add_centuries Y start)) = (Y, 86400 * years_before Y)"
    using add_years_sum [OF 2(2,3) refl] 2(1) by simp
  have m: "1 \<le> dt_month t" "dt_month t \<le> 12" using t by (auto simp: real_date_def)
  note tab = month_table [OF m, of Y]
  have leap: "IsLeapYear Y = leap Y" using Y by (simp add: IsLeapYear_leap)
  have day: "1 \<le> dt_day t" "dt_day t \<le> month_days Y (dt_month t)" using t by (auto simp: real_date_def Y_def)
  have "SecondsSinceCommonEra t =
      Yes (86400 * years_before Y + 86400 * (kDaysSinceJan ! nat (dt_month t) + (if 2 < dt_month t \<and> leap Y then 1 else 0)) +
           86400 * (dt_day t - 1) + (3600 * dt_hour t + 60 * dt_minute t + dt_second t))"
    unfolding SecondsSinceCommonEra_def Let_def Y_def [symmetric] start_def [symmetric] 3 prod.case leap tab(1)
    using Y m day by (simp add: day_seconds kSecondsPerHour_def kSecondsPerMinute_def algebra_simps)
  also have "\<dots> = Yes (era_seconds t)"
    unfolding tab(2) era_seconds_def day_number_parts [OF Y(1)] Y_def [symmetric] by (simp add: algebra_simps)
  finally show ?thesis .
qed

lemma DateTimeToSeconds_real:
  "DateTimeToSeconds t = (if real_date t then Yes (era_seconds t - kSecondsFromEraToEpoch) else No)"
  by (simp add: DateTimeToSeconds_def ValidateDateTime_real SecondsSinceCommonEra_real)

section \<open>From seconds to a date\<close>

text \<open>The loops keep the sum of the seconds before the year and those that are left.\<close>

lemma take_centuries_split:
  "1 \<le> year \<Longrightarrow> year mod 100 = 1 \<Longrightarrow> 0 \<le> s \<Longrightarrow>
   \<exists>y s'. take_centuries (year, s) = (y, s') \<and> 1 \<le> y \<and> y mod 4 = 1 \<and> 0 \<le> s' \<and>
     86400 * years_before y + s' = 86400 * years_before year + s"
proof (induction "(year, s)" arbitrary: year s rule: take_centuries.induct)
  case (1 year s)
  show ?case
  proof (cases "SecondsPer100Years year \<le> s")
    case True
    have "(year + 100) mod 100 = 1" using 1(3) by simp
    moreover have e: "86400 * years_before (year + 100) + (s - SecondsPer100Years year) = 86400 * years_before year + s"
      using century_seconds [OF 1(2,3)] by simp
    moreover have "1 \<le> year + 100" "0 \<le> s - SecondsPer100Years year" using 1(2) True by simp_all
    moreover have "take_centuries (year, s) = take_centuries (year + 100, s - SecondsPer100Years year)"
      using True by (simp add: take_centuries.simps [of year s])
    ultimately show ?thesis using 1(1) [OF True] by (simp only:)
  next
    case False
    have "year mod 4 = 1" using mod_mod_cancel [of 4 100 year] 1(3) by simp
    with 1 False show ?thesis by (subst take_centuries.simps) simp
  qed
qed

lemma take_four_years_split:
  "1 \<le> year \<Longrightarrow> year mod 4 = 1 \<Longrightarrow> 0 \<le> s \<Longrightarrow>
   \<exists>y s'. take_four_years (year, s) = (y, s') \<and> 1 \<le> y \<and> 0 \<le> s' \<and>
     86400 * years_before y + s' = 86400 * years_before year + s"
proof (induction "(year, s)" arbitrary: year s rule: take_four_years.induct)
  case (1 year s)
  show ?case
  proof (cases "SecondsPer4Years year \<le> s")
    case True
    have "(year + 4) mod 4 = 1" using 1(3) by simp
    moreover have e: "86400 * years_before (year + 4) + (s - SecondsPer4Years year) = 86400 * years_before year + s"
      using four_seconds [OF 1(2,3)] by simp
    moreover have "1 \<le> year + 4" "0 \<le> s - SecondsPer4Years year" using 1(2) True by simp_all
    moreover have "take_four_years (year, s) = take_four_years (year + 4, s - SecondsPer4Years year)"
      using True by (simp add: take_four_years.simps [of year s])
    ultimately show ?thesis using 1(1) [OF True] by (simp only:)
  qed (use 1 in \<open>subst take_four_years.simps, simp\<close>)
qed

lemma take_years_split:
  "1 \<le> year \<Longrightarrow> 0 \<le> s \<Longrightarrow>
   \<exists>y s'. take_years (year, s) = (y, s') \<and> 1 \<le> y \<and> 0 \<le> s' \<and> s' < 86400 * year_days y \<and>
     86400 * years_before y + s' = 86400 * years_before year + s"
proof (induction "(year, s)" arbitrary: year s rule: take_years.induct)
  case (1 year s)
  have y: "SecondsPerYear year = 86400 * year_days year" using year_seconds [OF 1(2)] years_before_step [of year] by simp
  show ?case
  proof (cases "SecondsPerYear year \<le> s")
    case True
    have e: "86400 * years_before (year + 1) + (s - SecondsPerYear year) = 86400 * years_before year + s"
      using year_seconds [OF 1(2)] by simp
    moreover have "1 \<le> year + 1" "0 \<le> s - SecondsPerYear year" using 1(2) True by simp_all
    moreover have "take_years (year, s) = take_years (year + 1, s - SecondsPerYear year)"
      using True by (simp add: take_years.simps [of year s])
    ultimately show ?thesis using 1(1) [OF True] by (simp only:)
  qed (use 1 y in \<open>subst take_years.simps, simp\<close>)
qed

lemma take_months_split:
  "1 \<le> m \<Longrightarrow> m \<le> 12 \<Longrightarrow> 0 \<le> s \<Longrightarrow> 86400 * months_before y m + s < 86400 * year_days y \<Longrightarrow>
   \<exists>m' s'. take_months (leap y) (m, s) = Yes (m', s') \<and> 1 \<le> m' \<and> m' \<le> 12 \<and> 0 \<le> s' \<and>
     s' < 86400 * month_days y m' \<and> 86400 * months_before y m' + s' = 86400 * months_before y m + s"
proof (induction "leap y" "(m, s)" arbitrary: m s rule: take_months.induct)
  case (1 m s)
  note p = SecondsPerMonth_days [OF 1(2,3), of y]
  show ?case
  proof (cases "86400 * month_days y m \<le> s")
    case True
    have n: "86400 * months_before y (m + 1) + (s - 86400 * month_days y m) = 86400 * months_before y m + s"
      using months_before_step [OF 1(2), of y] by (simp add: algebra_simps)
    have "m \<noteq> 12" using months_before_13 [of y] n 1(4,5) True by auto
    with 1(1) [OF p True] 1(2-5) True n show ?thesis by (subst take_months.simps) (simp add: p)
  next
    case False
    with 1(2-5) show ?thesis by (subst take_months.simps) (simp add: p)
  qed
qed


text \<open>The whole of it: a date of the calendar that many seconds after the start of the year 1.\<close>

lemma era_range: "86400 * years_before 10000 = kMaxTime + kSecondsFromEraToEpoch + 1" "kMinTime + kSecondsFromEraToEpoch = 0"
  by (simp_all add: years_before_def kMaxTime_def kMinTime_def kSecondsFromEraToEpoch_def)

lemma SecondsToDateTime_real:
  assumes s: "kMinTime \<le> s" "s \<le> kMaxTime"
  shows "\<exists>t. SecondsToDateTime s = Yes t \<and> real_date t \<and> era_seconds t = s + kSecondsFromEraToEpoch"
proof -
  define T where "T = s + kSecondsFromEraToEpoch"
  have T: "0 \<le> T" "T < 86400 * years_before 10000" using s era_range by (auto simp: T_def)
  define start where "start = (if kSecondsPer400Years \<le> T
      then (1 + 400 * c_div T kSecondsPer400Years, c_mod T kSecondsPer400Years) else (1, T))"
  have "\<exists>y0 s0. start = (y0, s0) \<and> 1 \<le> y0 \<and> y0 mod 100 = 1 \<and> 0 \<le> s0 \<and> 86400 * years_before y0 + s0 = T"
  proof (cases "kSecondsPer400Years \<le> T")
    case True
    define c where "c = T div kSecondsPer400Years"
    have K: "0 < kSecondsPer400Years" by (simp add: cycle_seconds)
    then have "0 \<le> c" "0 \<le> T mod kSecondsPer400Years" using T(1) by (simp_all add: c_def pos_imp_zdiv_nonneg_iff)
    moreover have "start = (1 + c * 400, T mod kSecondsPer400Years)"
      using True K T(1) by (simp add: start_def c_def c_div_nonneg c_mod_nonneg mult.commute)
    moreover have "(1 + c * 4 * 100) mod 100 = 1 mod 100" by (rule mod_mult_self1)
    then have "(1 + c * 400) mod 100 = 1" by (simp only: mult.assoc) simp
    moreover have "kSecondsPer400Years * c + T mod kSecondsPer400Years = T" by (simp add: c_def)
    ultimately show ?thesis by (simp add: cycle_days cycle_seconds)
  next
    case False
    then show ?thesis using T(1) by (simp add: start_def years_before_def)
  qed
  then obtain y0 s0 where 0: "start = (y0, s0)" "1 \<le> y0" "y0 mod 100 = 1" "0 \<le> s0" "86400 * years_before y0 + s0 = T" by auto
  obtain y1 s1 where 1: "take_centuries start = (y1, s1)" "1 \<le> y1" "y1 mod 4 = 1" "0 \<le> s1" "86400 * years_before y1 + s1 = T"
    using take_centuries_split [OF 0(2,3,4)] 0 by auto
  obtain y2 s2 where 2: "take_four_years (take_centuries start) = (y2, s2)" "1 \<le> y2" "0 \<le> s2" "86400 * years_before y2 + s2 = T"
    using take_four_years_split [OF 1(2,3,4)] 1 by auto
  obtain y s3 where 3: "take_years (take_four_years (take_centuries start)) = (y, s3)" "1 \<le> y" "0 \<le> s3"
      "s3 < 86400 * year_days y" "86400 * years_before y + s3 = T"
    using take_years_split [OF 2(2,3)] 2 by auto
  have "y < 10000" using years_before_mono [of 9999 y] 3 T(2) by (cases "y < 10000") auto
  obtain m s4 where 4: "take_months (leap y) (1, s3) = Yes (m, s4)" "1 \<le> m" "m \<le> 12" "0 \<le> s4"
      "s4 < 86400 * month_days y m" "86400 * months_before y m + s4 = s3"
    using take_months_split [of 1 s3 y] 3 by auto
  define t where "t = \<lparr> dt_year = y, dt_month = m, dt_day = 1 + s4 div 86400, dt_hour = s4 mod 86400 div 3600,
      dt_minute = s4 mod 86400 mod 3600 div 60, dt_second = s4 mod 86400 mod 3600 mod 60 \<rparr>"
  have "SecondsToDateTime s = Yes t"
    unfolding SecondsToDateTime_def Let_def T_def [symmetric] start_def [symmetric] 3(1) prod.case IsLeapYear_leap [OF 3(2)] 4(1)
    using s 4(4) by (simp add: t_def c_div_nonneg c_mod_nonneg day_seconds kSecondsPerHour_def kSecondsPerMinute_def)
  define q r where "q = s4 div 86400" "r = s4 mod 86400"
  have qr: "s4 = 86400 * q + r" "0 \<le> r" "r < 86400" by (simp_all add: q_r_def)
  define h n where "h = r div 3600" "n = r mod 3600"
  have hn: "r = 3600 * h + n" "0 \<le> n" "n < 3600" by (simp_all add: h_n_def)
  define i k where "i = n div 60" "k = n mod 60"
  have ik: "n = 60 * i + k" "0 \<le> k" "k < 60" by (simp_all add: i_k_def)
  have "0 \<le> q" "q < month_days y m" "0 \<le> h" "h < 24" "0 \<le> i" "i < 60" using qr hn ik 4(4,5) by linarith+
  note parts = this
  have t: "t = \<lparr> dt_year = y, dt_month = m, dt_day = 1 + q, dt_hour = h, dt_minute = i, dt_second = k \<rparr>"
    by (simp add: t_def q_r_def h_n_def i_k_def)
  have "real_date t" using parts ik 3(2) 4(2,3) \<open>y < 10000\<close> by (simp add: real_date_def t)
  moreover have "era_seconds t = T"
    unfolding era_seconds_def t by (simp add: day_number_parts [OF 3(2)]) (use qr hn ik 3(5) 4(6) in linarith)
  ultimately show ?thesis using \<open>SecondsToDateTime s = Yes t\<close> by (auto simp: T_def)
qed

text \<open>A date is determined by its seconds.\<close>

lemma mixed_radix:
  "0 \<le> r \<Longrightarrow> r < b \<Longrightarrow> 0 \<le> r' \<Longrightarrow> r' < b \<Longrightarrow> b * q + r = b * q' + r' \<Longrightarrow> q = q' \<and> r = r'" for b :: int
proof -
  assume a: "0 \<le> r" "r < b" "0 \<le> r'" "r' < b" "b * q + r = b * q' + r'"
  have "(b * q + r) div b = q" "(b * q' + r') div b = q'"
    using int_div_pos_eq [OF refl a(1,2)] int_div_pos_eq [OF refl a(3,4)] by auto
  with arg_cong [OF a(5), of "\<lambda>x. x div b"] have "q = q'" by (simp only:)
  with a(5) show ?thesis by simp
qed

lemma day_bounds:
  assumes "real_date t"
  defines "D \<equiv> day_number (dt_year t) (dt_month t) (dt_day t)"
  shows "months_before (dt_year t) (dt_month t) \<le> D - years_before (dt_year t)"
    and "D - years_before (dt_year t) < months_before (dt_year t) (dt_month t + 1)"
    and "years_before (dt_year t) \<le> D" and "D < years_before (dt_year t + 1)"
proof -
  have t: "1 \<le> dt_year t" "1 \<le> dt_month t" "dt_month t \<le> 12" "1 \<le> dt_day t" "dt_day t \<le> month_days (dt_year t) (dt_month t)"
    using assms(1) by (auto simp: real_date_def)
  have D: "D = years_before (dt_year t) + months_before (dt_year t) (dt_month t) + (dt_day t - 1)"
    unfolding D_def by (rule day_number_parts [OF t(1)])
  show 1: "months_before (dt_year t) (dt_month t) \<le> D - years_before (dt_year t)"
    "D - years_before (dt_year t) < months_before (dt_year t) (dt_month t + 1)"
    using D t(4,5) months_before_step [OF t(2), of "dt_year t"] by linarith+
  have "0 \<le> months_before (dt_year t) (dt_month t)" "months_before (dt_year t) (dt_month t + 1) \<le> year_days (dt_year t)"
    using months_before_mono [OF t(2), of "dt_year t"] months_before_mono [of "dt_month t + 1" 13 "dt_year t"] t(3)
    by (simp_all add: months_before_13)
  with 1 show "years_before (dt_year t) \<le> D" "D < years_before (dt_year t + 1)"
    using years_before_step [of "dt_year t"] by linarith+
qed

lemma time_of_day:
  "real_date t \<Longrightarrow> 0 \<le> 3600 * dt_hour t + (60 * dt_minute t + dt_second t) \<and>
   3600 * dt_hour t + (60 * dt_minute t + dt_second t) < 86400 \<and>
   0 \<le> 60 * dt_minute t + dt_second t \<and> 60 * dt_minute t + dt_second t < 3600"
  by (auto simp: real_date_def)

lemma years_before_le: "y \<le> z \<Longrightarrow> years_before y \<le> years_before z"
  using years_before_mono [of y z] years_before_step [of y] year_days_pos [of y] by (cases "y = z") auto

lemma era_seconds_range: "real_date t \<Longrightarrow> 0 \<le> era_seconds t \<and> era_seconds t < 86400 * years_before 10000"
proof -
  assume t: "real_date t"
  then have "1 \<le> dt_year t" "dt_year t + 1 \<le> 10000" by (auto simp: real_date_def)
  then have "0 \<le> years_before (dt_year t)" "years_before (dt_year t + 1) \<le> years_before 10000"
    using years_before_le [of 1 "dt_year t"] years_before_le [of "dt_year t + 1" 10000] by (auto simp: years_before_def [of 1])
  then show ?thesis using day_bounds(3,4) [OF t] time_of_day [OF t] unfolding era_seconds_def by linarith
qed

lemma era_seconds_inj: "real_date a \<Longrightarrow> real_date b \<Longrightarrow> era_seconds a = era_seconds b \<Longrightarrow> a = b"
proof -
  assume r: "real_date a" "real_date b" "era_seconds a = era_seconds b"
  let ?D = "\<lambda>t. day_number (dt_year t) (dt_month t) (dt_day t)" and ?S = "\<lambda>t. 60 * dt_minute t + dt_second t"
  have "86400 * ?D a + (3600 * dt_hour a + ?S a) = 86400 * ?D b + (3600 * dt_hour b + ?S b)" using r(3) by (simp add: era_seconds_def)
  then have 1: "?D a = ?D b" "3600 * dt_hour a + ?S a = 3600 * dt_hour b + ?S b"
    using mixed_radix [of "3600 * dt_hour a + ?S a" 86400 "3600 * dt_hour b + ?S b" "?D a" "?D b"] time_of_day [OF r(1)] time_of_day [OF r(2)] by auto
  then have 2: "dt_hour a = dt_hour b" "?S a = ?S b"
    using mixed_radix [of "?S a" 3600 "?S b" "dt_hour a" "dt_hour b"] time_of_day [OF r(1)] time_of_day [OF r(2)] by auto
  have 3: "dt_minute a = dt_minute b \<and> dt_second a = dt_second b"
    by (rule mixed_radix [of _ 60]) (use r 2 in \<open>auto simp: real_date_def\<close>)
  have y: "dt_year a = dt_year b"
    using years_before_unique [OF day_bounds(3,4) [OF r(1)]] day_bounds(3,4) [OF r(2)] 1(1) by simp
  have m: "dt_month a = dt_month b"
    using months_before_unique [OF day_bounds(1,2) [OF r(1)]] day_bounds(1,2) [OF r(2)] 1(1) y by simp
  have "dt_day a = dt_day b" using 1(1) y m by (simp add: day_number_def)
  with y m 2(1) 3 show "a = b" by simp
qed

text \<open>
  Property C25: \<open>DateTimeToSeconds\<close> accepts exactly the dates of the calendar in the years 1 to
  9999 and gives the seconds from the epoch to them, counted day by day; \<open>SecondsToDateTime\<close> is
  its inverse, and refuses exactly the numbers outside those years. No assertion fails, no loop
  reads a table outside its bounds.
\<close>

theorem dates_exact:
  "DateTimeToSeconds t = (if real_date t then Yes (era_seconds t - kSecondsFromEraToEpoch) else No) \<and>
   (SecondsToDateTime s = Yes t) = (DateTimeToSeconds t = Yes s) \<and>
   SecondsToDateTime s \<noteq> Undefined \<and> (SecondsToDateTime s = No) = (s < kMinTime \<or> kMaxTime < s)"
proof (cases "s < kMinTime \<or> kMaxTime < s")
  case True
  have "s = era_seconds t - kSecondsFromEraToEpoch \<Longrightarrow> \<not> real_date t"
    using True era_seconds_range [of t] era_range by auto
  with True show ?thesis by (auto simp: SecondsToDateTime_def DateTimeToSeconds_real)
next
  case False
  then obtain u where u: "SecondsToDateTime s = Yes u" "real_date u" "era_seconds u = s + kSecondsFromEraToEpoch"
    using SecondsToDateTime_real [of s] by auto
  with False era_seconds_inj [of u t] show ?thesis by (auto simp: DateTimeToSeconds_real)
qed

end
