(* ===== verification/Timestamps.thy ===== *)
theory Timestamps
  imports Calendar
begin

text \<open>
  The text of a time stamp (\<open>include/protobuf/google/protobuf/stubs/time.cc\<close>): \<open>FormatTime\<close>
  prints the seconds since the epoch and the nanoseconds as a date, \<open>ParseTime\<close> reads them back,
  with an offset from UTC.
\<close>

section \<open>The text of a time stamp\<close>

text \<open>\<open>%0wd\<close> of \<open>StringPrintf\<close>.\<close>

definition printf_0d :: "nat \<Rightarrow> int \<Rightarrow> bytes" where
  "printf_0d w i =
     (let sign = (if i < 0 then [45] else []); ds = dec_digits (nat \<bar>i\<bar>)
      in sign @ replicate (w - length sign - length ds) 48 @ ds)"

definition kNanosPerMillisecond :: int where "kNanosPerMillisecond = 1000000"
definition kNanosPerMicrosecond :: int where "kNanosPerMicrosecond = 1000"

definition FormatNanos :: "int \<Rightarrow> bytes" where
  "FormatNanos nanos =
     (if c_mod nanos kNanosPerMillisecond = 0 then printf_0d 3 (c_div nanos kNanosPerMillisecond)
      else if c_mod nanos kNanosPerMicrosecond = 0 then printf_0d 6 (c_div nanos kNanosPerMicrosecond)
      else printf_0d 9 nanos)"

definition FormatTime :: "int \<Rightarrow> int \<Rightarrow> bytes answer" where
  "FormatTime seconds nanos =
     (if nanos < 0 \<or> 999999999 < nanos then Yes (str ''InvalidTime'')
      else case SecondsToDateTime seconds of
        Undefined \<Rightarrow> Undefined
      | No \<Rightarrow> Yes (str ''InvalidTime'')
      | Yes t \<Rightarrow>
          Yes (printf_0d 4 (dt_year t) @ [45] @ printf_0d 2 (dt_month t) @ [45] @ printf_0d 2 (dt_day t) @ [84] @
               printf_0d 2 (dt_hour t) @ [58] @ printf_0d 2 (dt_minute t) @ [58] @ printf_0d 2 (dt_second t) @
               (if nanos \<noteq> 0 then [46] @ FormatNanos nanos else []) @ [90]))"

text \<open>
  The parsers take the characters from \<open>data\<close> on; behind the last one stands a zero. They give
  the characters behind what they consumed.
\<close>

definition ascii_isdigit :: "byte \<Rightarrow> bool" where
  "ascii_isdigit c \<longleftrightarrow> 48 \<le> c \<and> c \<le> 57"

fun first_byte :: "bytes \<Rightarrow> byte" where
  "first_byte [] = 0"
| "first_byte (c # s) = c"

fun int_digits :: "nat \<Rightarrow> bytes \<Rightarrow> int \<Rightarrow> bytes \<times> int" where
  "int_digits (Suc i) (c # s) v =
     (if ascii_isdigit c then int_digits i s (v * 10 + (uint c - 48)) else (c # s, v))"
| "int_digits _ s v = (s, v)"

definition ParseInt :: "bytes \<Rightarrow> nat \<Rightarrow> int \<Rightarrow> int \<Rightarrow> (bytes \<times> int) answer" where
  "ParseInt data width min_value max_value =
     (if \<not> ascii_isdigit (first_byte data) then No
      else let (data, v) = int_digits width data 0
           in if min_value \<le> v \<and> v \<le> max_value then Yes (data, v) else No)"

fun nanos_digits :: "bytes \<Rightarrow> int \<Rightarrow> nat \<Rightarrow> bytes \<times> int \<times> nat" where
  "nanos_digits (c # s) v len =
     (if ascii_isdigit c then nanos_digits s (if len < 9 then v * 10 + uint c - 48 else v) (len + 1) else (c # s, v, len))"
| "nanos_digits [] v len = ([], v, len)"

function fill_nanos :: "int \<Rightarrow> nat \<Rightarrow> int" where
  "fill_nanos v len = (if len < 9 then fill_nanos (v * 10) (len + 1) else v)"
  by pat_completeness auto
termination
  by (relation "measure (\<lambda>(v, len). 9 - len)") auto

declare fill_nanos.simps [simp del]

definition ParseNanos :: "bytes \<Rightarrow> (bytes \<times> int) answer" where
  "ParseNanos data =
     (if \<not> ascii_isdigit (first_byte data) then No
      else let (data, v, len) = nanos_digits data 0 0 in Yes (data, fill_nanos v len))"

text \<open>\<open>*data++ != c\<close>: one character that must be there.\<close>

definition expect :: "byte \<Rightarrow> bytes \<Rightarrow> bytes answer" where
  "expect c data = (if first_byte data \<noteq> c then No else Yes (tl data))"

definition ParseTimezoneOffset :: "bytes \<Rightarrow> (bytes \<times> int) answer" where
  "ParseTimezoneOffset data =
     on_yes (ParseInt data 2 0 23) (\<lambda>(data, hour).
     on_yes (expect 58 data) (\<lambda>data.
     on_yes (ParseInt data 2 0 59) (\<lambda>(data, minute). Yes (data, (hour * 60 + minute) * 60))))"

definition parse_date :: "bytes \<Rightarrow> (bytes \<times> DateTime) answer" where
  "parse_date data =
     on_yes (ParseInt data 4 1 9999) (\<lambda>(data, year).
     on_yes (expect 45 data) (\<lambda>data.
     on_yes (ParseInt data 2 1 12) (\<lambda>(data, month).
     on_yes (expect 45 data) (\<lambda>data.
     on_yes (ParseInt data 2 1 31) (\<lambda>(data, day).
     on_yes (expect 84 data) (\<lambda>data.
     on_yes (ParseInt data 2 0 23) (\<lambda>(data, hour).
     on_yes (expect 58 data) (\<lambda>data.
     on_yes (ParseInt data 2 0 59) (\<lambda>(data, minute).
     on_yes (expect 58 data) (\<lambda>data.
     on_yes (ParseInt data 2 0 59) (\<lambda>(data, second).
       Yes (data, \<lparr> dt_year = year, dt_month = month, dt_day = day, dt_hour = hour, dt_minute = minute,
                    dt_second = second \<rparr>))))))))))))"

definition ParseTime :: "bytes \<Rightarrow> (int \<times> int) answer" where
  "ParseTime value =
     on_yes (parse_date value) (\<lambda>(data, time).
     on_yes (DateTimeToSeconds time) (\<lambda>seconds.
     on_yes (if first_byte data = 46 then ParseNanos (tl data) else Yes (data, 0)) (\<lambda>(data, nanos).
     on_yes (if first_byte data = 90 then Yes (tl data, seconds)
             else if first_byte data = 43 then
               on_yes (ParseTimezoneOffset (tl data)) (\<lambda>(data, offset). Yes (data, seconds - offset))
             else if first_byte data = 45 then
               on_yes (ParseTimezoneOffset (tl data)) (\<lambda>(data, offset). Yes (data, seconds + offset))
             else No) (\<lambda>(data, seconds).
       if first_byte data = 0 then Yes (seconds, nanos) else No))))"



section \<open>Reading digits\<close>

lemma ascii_isdigit_10: "ascii_isdigit c = is_digit 10 c"
proof -
  have "ascii_isdigit c = (48 \<le> uint c \<and> uint c \<le> 57)" by (simp add: ascii_isdigit_def word_le_def)
  also have "\<dots> = (\<not> (10 \<le> uint c - 48 \<or> uint c - 48 < 0))" by linarith
  finally show ?thesis by (simp only: digit_test not_not)
qed

lemma int_digits_all:
  "list_all (is_digit 10) ds \<Longrightarrow> int_digits (length ds) (ds @ r) v = (r, v * 10 ^ length ds + int (digits_value 10 ds))"
proof (induction ds arbitrary: v)
  case (Cons d ds)
  then show ?case by (simp add: ascii_isdigit_10 digit_value digits_value_Cons algebra_simps)
qed (cases r; simp add: digits_value_def)

lemma nanos_digits_all:
  "list_all (is_digit 10) ds \<Longrightarrow> len + length ds \<le> 9 \<Longrightarrow> \<not> ascii_isdigit (first_byte r) \<Longrightarrow>
   nanos_digits (ds @ r) v len = (r, v * 10 ^ length ds + int (digits_value 10 ds), len + length ds)"
proof (induction ds arbitrary: v len)
  case Nil
  then show ?case by (cases r) (auto simp: digits_value_def)
next
  case (Cons d ds)
  moreover from Cons.prems(1) have "uint d = int (digit_of d) + 48" using digit_value [of d] by simp
  ultimately show ?case by (simp add: ascii_isdigit_10 digits_value_Cons algebra_simps)
qed

lemma fill_nanos_power: "len \<le> 9 \<Longrightarrow> fill_nanos v len = v * 10 ^ (9 - len)"
proof (induction v len rule: fill_nanos.induct)
  case (1 v len)
  show ?case
  proof (cases "len < 9")
    case True
    then have "9 - len = Suc (9 - (len + 1))" by simp
    with 1 True show ?thesis by (subst fill_nanos.simps) simp
  next
    case False
    with 1(2) show ?thesis by (subst fill_nanos.simps) simp
  qed
qed

text \<open>A number printed with leading zeros: its digits, and that they are read back.\<close>

lemma printf_0d_digits:
  assumes "0 \<le> i" "i < 10 ^ w" "0 < w"
  shows "length (printf_0d w i) = w" "list_all (is_digit 10) (printf_0d w i)"
    "int (digits_value 10 (printf_0d w i)) = i"
proof -
  have "nat i < 10 ^ w" using assms by (simp add: nat_less_iff)
  then have l: "length (dec_digits (nat i)) \<le> w" using length_dec_digits [of "nat i" "w - 1"] assms(3) by simp
  have z: "digits_value 10 (replicate k 48 @ ds) = digits_value 10 ds" for k ds
    by (induction k) (simp_all add: digits_value_Cons digit_of_def)
  show "length (printf_0d w i) = w" using l assms(1) by (simp add: printf_0d_def Let_def)
  show "list_all (is_digit 10) (printf_0d w i)"
    using assms(1) dec_digits_digits by (auto simp: printf_0d_def Let_def list_all_iff is_digit_8_0)
  show "int (digits_value 10 (printf_0d w i)) = i"
    using assms(1) by (simp add: printf_0d_def Let_def z)
qed

lemma ParseInt_printf:
  assumes "0 \<le> i" "i < 10 ^ w" "0 < w" "lo \<le> i" "i \<le> hi"
  shows "ParseInt (printf_0d w i @ r) w lo hi = Yes (r, i)"
proof -
  note p = printf_0d_digits [OF assms(1-3)]
  obtain d ds where d: "printf_0d w i = d # ds" using p(1) assms(3) by (cases "printf_0d w i") auto
  then have "ascii_isdigit (first_byte (printf_0d w i @ r))" using p(2) by (simp add: ascii_isdigit_10)
  then show ?thesis using int_digits_all [OF p(2), of r 0] p(1,3) assms(4,5) by (simp add: ParseInt_def)
qed

lemma FormatNanos_read:
  assumes "0 < n" "n \<le> 999999999"
  shows "ParseNanos (FormatNanos n @ 90 # r) = Yes (90 # r, n)"
proof -
  have read: "ParseNanos (printf_0d w i @ 90 # r) = Yes (90 # r, i * 10 ^ (9 - w))" if w: "0 \<le> i" "i < 10 ^ w" "0 < w" "w \<le> 9" for i w
  proof -
    note p = printf_0d_digits [OF w(1-3)]
    obtain d ds where d: "printf_0d w i = d # ds" using p(1) w(3) by (cases "printf_0d w i") auto
    then have "ascii_isdigit (first_byte (printf_0d w i @ 90 # r))" using p(2) by (simp add: ascii_isdigit_10)
    moreover have "\<not> ascii_isdigit 90" by (simp add: ascii_isdigit_def)
    ultimately show ?thesis
      using nanos_digits_all [OF p(2), of 0 "90 # r" 0] p(1,3) w(4) by (simp add: ParseNanos_def fill_nanos_power)
  qed
  have div: "n mod k = 0 \<Longrightarrow> n div k * k = n" for k by auto
  show ?thesis
    using assms read [of "n div 1000000" 3] read [of "n div 1000" 6] read [of n 9] div [of 1000000] div [of 1000]
    by (simp add: FormatNanos_def c_mod_nonneg c_div_nonneg kNanosPerMillisecond_def kNanosPerMicrosecond_def
        pos_imp_zdiv_nonneg_iff)
qed

lemma expect_there: "expect c (c # s) = Yes s"
  by (simp add: expect_def)

definition date_text :: "DateTime \<Rightarrow> bytes" where
  "date_text t =
     printf_0d 4 (dt_year t) @ [45] @ printf_0d 2 (dt_month t) @ [45] @ printf_0d 2 (dt_day t) @ [84] @
     printf_0d 2 (dt_hour t) @ [58] @ printf_0d 2 (dt_minute t) @ [58] @ printf_0d 2 (dt_second t)"

lemma parse_date_text: "real_date t \<Longrightarrow> parse_date (date_text t @ r) = Yes (r, t)"
proof -
  assume t: "real_date t"
  then have b: "dt_year t < 10 ^ 4" "dt_month t < 10 ^ 2" "dt_day t < 10 ^ 2" "dt_hour t < 10 ^ 2" "dt_minute t < 10 ^ 2"
      "dt_second t < 10 ^ 2" "dt_day t \<le> 31"
    by (auto simp: real_date_def month_days_def month_length_def split: if_splits)
  with t show ?thesis
    by (simp add: parse_date_def date_text_def real_date_def ParseInt_printf expect_there)
qed


text \<open>
  Property C26: a time stamp that is printed is read back: for every second of the years 1 to 9999
  and every number of nanoseconds, the text that \<open>FormatTime\<close> gives, with no fraction or one of
  three, six or nine digits, is parsed by \<open>ParseTime\<close> to the same seconds and nanoseconds.
\<close>

theorem time_text_roundtrip:
  assumes "kMinTime \<le> s" "s \<le> kMaxTime" "0 \<le> n" "n \<le> 999999999"
  shows "on_yes (FormatTime s n) ParseTime = Yes (s, n)"
proof -
  obtain t where t: "SecondsToDateTime s = Yes t" "real_date t" "era_seconds t = s + kSecondsFromEraToEpoch"
    using SecondsToDateTime_real [OF assms(1,2)] by auto
  let ?tail = "(if n \<noteq> 0 then [46] @ FormatNanos n else []) @ [90]"
  have "FormatTime s n = Yes (date_text t @ ?tail)"
    using assms(3,4) t(1) by (simp add: FormatTime_def date_text_def)
  moreover have "DateTimeToSeconds t = Yes s" using t(2,3) by (simp add: DateTimeToSeconds_real)
  ultimately show ?thesis
    using assms(3,4) FormatNanos_read [of n "[]"] by (simp add: ParseTime_def parse_date_text [OF t(2)])
qed

theorem time_text_roundtrip_witness:
  "on_yes (FormatTime 1432128575 120000000) ParseTime = Yes (1432128575, 120000000)"
  by (rule time_text_roundtrip) (simp_all add: kMinTime_def kMaxTime_def)

text \<open>
  The parser accepts more than the printer writes: fields with fewer digits, anything behind a
  zero byte, and, because the offset is applied after the date is checked, time stamps outside
  the range that the printer takes.
\<close>

lemma ParseTime_short_fields: "ParseTime (str ''2015-5-2T1:2:3Z'') = Yes (1430528523, 0)"
  by code_simp

lemma ParseTime_behind_zero: "ParseTime (str ''2015-05-02T01:02:03Z'' @ [0, 33]) = Yes (1430528523, 0)"
  by code_simp

lemma ParseTime_out_of_range:
  "ParseTime (str ''0001-01-01T00:00:00+23:59'') = Yes (kMinTime - 86340, 0)"
  "FormatTime (kMinTime - 86340) 0 = Yes (str ''InvalidTime'')"
  by code_simp+

end
