(* ===== verification/Spec2Isabelle.thy ===== *)
theory Spec2Isabelle
  imports Prelude CLib Util Crc MzConfig Routing Wire Slop Codec Messages Session Tun_Tap Client
    Callbacks Handles Lifetime Methods Files Stats Loops Utf8 Streams Outstream Coded Output
    Decimal Itoa Escape Base64 Int128 Calendar Timestamps
begin

text \<open>
  A verification library for the CPE client, a program that carries the traffic of a customer's
  subnets through a mesh of peers. It reads packets from a tun or tap device, finds the node
  that owns the destination address, and hands the packet to a transport library; packets that
  peers send are written to the device; messages of the session server change the mesh.

  \<^bold>\<open>The program and its theories\<close>

  \<^item> \<^verbatim>\<open>main/config.h\<close>, class \<^verbatim>\<open>mzConfig\<close>: \<^theory_text>\<open>MzConfig\<close>. Reading the configuration, reloading it,
    splitting lists, writing the hardware address back. Libconfig is a record of its
    operations, an argument of the routines.
  \<^item> \<^verbatim>\<open>main/server.cpp\<close> and \<^verbatim>\<open>server.h\<close>, class \<^verbatim>\<open>Server\<close>: \<^theory_text>\<open>Routing\<close> for the state (record \<^verbatim>\<open>server\<close>, one field
    per member), the table of nodes, the look-up with its cache, the packets in both directions,
    the kernel routes and the constructor; \<^theory_text>\<open>Session\<close> for the messages and the runs of a server under any
    sequence of packets and messages (an inductive step relation). The signal handler is a function
    of \<^theory_text>\<open>Session\<close> and no step of the runs, since the lines that would register it are commented out.
    What the kernel answers to a request for a route is not determined: a request may be refused,
    and the routes for which that made a difference are kept apart.
  \<^item> \<^verbatim>\<open>main/main.cpp\<close>: \<^theory_text>\<open>Client\<close>. The callbacks registered with the transport library, start and stop,
    and \<^verbatim>\<open>main\<close> up to the event loop, as one function of the configuration and the kernel's answers.
  \<^item> \<^verbatim>\<open>pro/*.pb.cc\<close>: \<^theory_text>\<open>Messages\<close>. The eleven message classes: constructor, \<^verbatim>\<open>Clear\<close>, parser, size,
    serializer, merge, copy and swap. They rest on \<^theory_text>\<open>Wire\<close>, the input stream, the readers and the
    parse loop of \<^verbatim>\<open>google/protobuf\<close> (\<^verbatim>\<open>parse_context.h\<close>, \<^verbatim>\<open>parse_context.cc\<close>, \<^verbatim>\<open>wire_format_lite.h\<close>,
    \<^verbatim>\<open>coded_stream.h\<close>), and on \<^theory_text>\<open>Codec\<close>, the contract of a message class as a locale. \<^theory_text>\<open>Slop\<close> shows how far
    the readers look ahead.
  \<^item> The output side of the same library, with its memory explicit: \<^theory_text>\<open>Streams\<close>, the interface
    \<^verbatim>\<open>ZeroCopyOutputStream\<close> as a locale and its implementations over an array and a string
    (\<^verbatim>\<open>zero_copy_stream_impl_lite.cc\<close>); \<^theory_text>\<open>Outstream\<close>, the write buffer \<^verbatim>\<open>EpsCopyOutputStream\<close>, and \<^theory_text>\<open>Coded\<close>,
    \<^verbatim>\<open>CodedOutputStream\<close> (\<^verbatim>\<open>coded_stream.h\<close>, \<^verbatim>\<open>coded_stream.cc\<close>); \<^theory_text>\<open>Output\<close>, what the message classes write to
    it, and the entry points of \<^verbatim>\<open>message_lite.cc\<close>. \<^theory_text>\<open>Utf8\<close> is its check of UTF-8
    (\<^verbatim>\<open>stubs/structurally_valid.cc\<close>), a scanner driven by a table of states.
  \<^item> Its number and text routines (\<^verbatim>\<open>stubs/strutil.cc\<close>, \<^verbatim>\<open>strutil.h\<close>): \<^theory_text>\<open>Decimal\<close>, text to integers of 32
    and 64 bits; \<^theory_text>\<open>Itoa\<close>, integers to text in a buffer, decimal and hexadecimal; \<^theory_text>\<open>Escape\<close>, the escapes
    of C strings; \<^theory_text>\<open>Base64\<close>, base 64 in its two alphabets; \<^theory_text>\<open>Int128\<close> (\<^verbatim>\<open>stubs/int128.h\<close>, \<^verbatim>\<open>int128.cc\<close>),
    integers of 128 bits as two words; \<^theory_text>\<open>Calendar\<close> and \<^theory_text>\<open>Timestamps\<close> (\<^verbatim>\<open>stubs/time.cc\<close>), dates from seconds
    and back, and their text.
  \<^item> \<^verbatim>\<open>include/uvpp/tun_tap.hpp\<close> and \<^verbatim>\<open>create_tun_device.hpp\<close>: \<^theory_text>\<open>Tun_Tap\<close>. Each function as its result and
    the system calls it makes, in order; what the kernel answers is a record of functions.
  \<^item> \<^verbatim>\<open>include/uvpp/util.hpp\<close> and \<^verbatim>\<open>crc.hpp\<close>: \<^theory_text>\<open>Util\<close> and \<^theory_text>\<open>Crc\<close>. The C library on strings and numbers is
    in \<^theory_text>\<open>CLib\<close>.
  \<^item> \<^verbatim>\<open>include/uvpp\<close>, the classes over libuv: \<^theory_text>\<open>Callbacks\<close> (\<^verbatim>\<open>callback.hpp\<close>, the table of callbacks),
    \<^theory_text>\<open>Handles\<close> and \<^theory_text>\<open>Lifetime\<close> (\<^verbatim>\<open>handle.hpp\<close>, a heap of structures and tables, and the programs over
    it), \<^theory_text>\<open>Methods\<close> (streams, sockets, pipes, timers, signals, polls, idle, async and file event
    handles, and the handles of the server), \<^theory_text>\<open>Files\<close> and \<^theory_text>\<open>Stats\<close> (\<^verbatim>\<open>request.hpp\<close>, \<^verbatim>\<open>file.hpp\<close>,
    \<^verbatim>\<open>work.hpp\<close>, \<^verbatim>\<open>resolver.hpp\<close>), \<^theory_text>\<open>Loops\<close> (\<^verbatim>\<open>loop.hpp\<close>, the ownership of event loops).

  \<^theory_text>\<open>Prelude\<close> holds what all share: the machine types, the observable events, and runs, which go on
  with a value or stop the process by exit, abort or fault, with the events so far. The wrappers
  of libuv, which emit no such events, use the smaller type \<^verbatim>\<open>outcome\<close> of \<^theory_text>\<open>Callbacks\<close>.

  \<^bold>\<open>How state and operations correspond\<close>

  A class is a record, a method a function from the state before to the state after, under the
  name it has in the source. Integers have the width of the source, \<^verbatim>\<open>std::string\<close> is a list of
  bytes, a \<^verbatim>\<open>std::map\<close> that is only looked up is a partial map, a vector a list. A packet that is
  read at fixed offsets is a function from offsets to bytes, so that reads behind its end are
  visible. A null or dangling pointer that is followed, an array that is overrun and a failed
  assertion are results of their own, never left undefined.

  \<^bold>\<open>What the lemmas show\<close>

  \<^item> Routing: the look-up returns the first node of the table that owns the address by its virtual
    address, by a subnet, or in tap mode by its hardware address; the cache does not change what
    tun packets get; what is framed for a peer is written to the peer's device unchanged.
  \<^item> Sessions: every message is survived; a change notification leaves exactly the new table, an
    empty cache and the routes of the new table; over any run without an answer that replaces the
    online nodes, the kernel's routes are those of the table, except where the kernel refused a
    request, and packets go to the table's node.
  \<^item> Messages: every parser returns on every input; a key with its value is read from less than the 16
    bytes that may be read behind a chunk; what the serializers write, the parsers read back.
  \<^item> Output: over every stream that keeps the contract the writes append, nothing is accessed out of
    bounds, errors are reported truthfully, and the bytes that arrive are those of \<^theory_text>\<open>Messages\<close>, in
    whatever blocks the stream hands out its memory.
  \<^item> UTF-8: the scanner accepts exactly the concatenations of encoded scalar values, at every
    alignment, and stops behind the longest first part that is one.
  \<^item> Numbers and text: the parsers accept exactly the numerals whose value their type holds, and
    saturate at its limits; the printers, in their several ways, write the same numeral, which the
    parsers read back, within their buffers; what is escaped, in either form, is unescaped to
    itself, and so is base 64; the decoder that reads four characters at a time gives what one
    that reads them singly gives. The 128-bit integers implement the arithmetic of a \<^verbatim>\<open>128 word\<close>,
    long division and the printing in chunks included. The conversions of dates count the days
    of the calendar and are inverse to one another; a printed time stamp is parsed to itself.
  \<^item> Configuration: every setting, present or missing, has the documented value; write-back and
    reload.
  \<^item> Client: a packet read by one client is written by the client its table names; the calls of the
    transport library follow its protocol in every order of starts and stops; what \<^verbatim>\<open>main\<close>
    sets up satisfies the invariants of the server.
  \<^item> Device: descriptors are closed; the route calls install and remove exactly the routes of the
    table whose requests the kernel grants.
  \<^item> Wrappers: the structures and tables of a program are all freed, exactly unless it assigns to or
    resets an object that holds one, and none is freed while libuv still links it, exactly unless an
    object is destroyed unclosed, which sockets of \<^verbatim>\<open>Udp\<close> cannot avoid; which callback is called when
    operations overlap; event loops are freed once and not used when closed, unless an object is
    destroyed before one its loop was moved to or two objects share the default loop.

  A number of properties state what goes wrong, because the code does so: the packet buffer that is
  never allocated, destinations hidden by the cache, subnets that never match, descriptors closed
  twice. They are listed with the findings of the manifest.

  The contracts are locales, each interpreted on the definitions of the model: a table of routes
  (\<^verbatim>\<open>route_table\<close> in \<^theory_text>\<open>Routing\<close>), a message class (\<^verbatim>\<open>message_codec\<close> in \<^theory_text>\<open>Codec\<close>, extended by its
  writes to \<^verbatim>\<open>message_output\<close> in \<^theory_text>\<open>Output\<close>), an output stream (\<^verbatim>\<open>zero_copy_output\<close> in \<^theory_text>\<open>Streams\<close>), the slots of a callback
  table (\<^verbatim>\<open>callback_slots\<close>), a handle class (\<^verbatim>\<open>handle_class\<close>).

  \<^bold>\<open>Fuel and termination\<close>

  The parse loops run on fuel. The section on fuel of \<^theory_text>\<open>Wire\<close> shows that one unit for each byte
  that is left and one more is enough for a loop; a parser is called with \<^verbatim>\<open>parse_fuel\<close>, the length of
  the input and three more, so it never ends for want of fuel. The other loops are
  structural recursions or have a measure, or are partial functions shown to return: the
  synchronous directory scan, when libuv reports the end; the loops of the output stream, when the
  stream does not hand out empty buffers for ever; the scanner of UTF-8, on every input.

  \<^bold>\<open>Not modelled\<close>

  \<^item> The transport library (\<^verbatim>\<open>transport/ApiServer.h\<close>), libuv and libconfig are not in the repository;
    they are parameters, or events of the model.
  \<^item> The rest of the vendored protobuf and absl sources: compiler, descriptors, reflection, text
    format, arenas, tests. The client does not run them, or only through generated tables. Of the
    output streams, aliasing, packed fields and the classes over files and \<^verbatim>\<open>ostream\<close>s. Of
    \<^verbatim>\<open>strutil.cc\<close>, what handles floating-point numbers, splits, joins, strips and
    replaces in strings, encodes single characters in UTF-8 and rewrites line ends.
  \<^item> Threads. The transport library calls the server from its own thread without a lock; the model
    runs one operation at a time, so what races add is not covered.
  \<^item> Diagnostics on \<^verbatim>\<open>cout\<close>, \<^verbatim>\<open>getTick\<close>, \<^verbatim>\<open>redirect_file\<close> and the commented-out and disabled code.
  \<^item> One request structure shared by two file operations at once.
\<close>

end
